(* ===== verification/Prelude.thy ===== *)
theory Prelude
  imports Main "HOL-Library.Word" "HOL-Library.Monad_Syntax"
begin

text \<open>
  Shared vocabulary of the development: the machine types of the C sources, the
  arithmetic of \<open>size_t\<close> with its wrap-around, byte memories with the
  \<open>memcpy\<close>-like accesses the code makes, scatter/gather vectors
  (\<open>struct iovec\<close>), the byte order conversions, and the generic lemmas on lists
  and words that the component theories use.
\<close>

unbundle bit_operations_syntax

section \<open>Machine types\<close>

type_synonym u8 = "8 word"
type_synonym u16 = "16 word"
type_synonym u32 = "32 word"
type_synonym bytes = "8 word list"

text \<open>An address in the process's memory; \<open>NULL\<close> is \<open>0\<close>.\<close>

type_synonym addr = "64 word"

named_theorems wf_intros \<open>preservation of the components' invariants\<close>
named_theorems byte_simps \<open>byte-level rewriting of encoders and decoders\<close>

section \<open>Arithmetic of size\_t\<close>

text \<open>A \<open>size_t\<close> is a natural number below \<open>2 ^ 64\<close> (\<open>SIZE_MOD\<close>); sums and differences wrap.\<close>

definition SIZE_MOD :: nat where
  "SIZE_MOD = 18446744073709551616"

definition sz_add :: "nat \<Rightarrow> nat \<Rightarrow> nat" where
  "sz_add a b = (a + b) mod SIZE_MOD"

definition sz_sub :: "nat \<Rightarrow> nat \<Rightarrow> nat" where
  "sz_sub a b = (a + (SIZE_MOD - b mod SIZE_MOD)) mod SIZE_MOD"

lemma sz_add_exact [simp]: "a + b < SIZE_MOD \<Longrightarrow> sz_add a b = a + b"
  by (simp add: sz_add_def)

lemma sz_sub_exact [simp]:
  assumes "b \<le> a" and "a < SIZE_MOD"
  shows "sz_sub a b = a - b"
proof -
  have "a + (SIZE_MOD - b mod SIZE_MOD) = (a - b) + SIZE_MOD"
    using assms by simp
  then have "sz_sub a b = (a - b) mod SIZE_MOD"
    by (simp only: sz_sub_def mod_add_self2)
  then show ?thesis
    using assms by simp
qed

section \<open>Byte memories\<close>

text \<open>\<open>write_at d off bs\<close> is \<open>memcpy (d + off, bs, length bs)\<close> on a memory block \<open>d\<close>.\<close>

definition write_at :: "'a list \<Rightarrow> nat \<Rightarrow> 'a list \<Rightarrow> 'a list" where
  "write_at d off bs = take off d @ bs @ drop (off + length bs) d"

text \<open>An I/O vector over one block: pairs of an offset and a length.\<close>

type_synonym iovec = "nat \<times> nat"

definition gather :: "'a list \<Rightarrow> iovec list \<Rightarrow> 'a list" where
  "gather d iov = concat (map (\<lambda>(off, len). take len (drop off d)) iov)"

fun scatter :: "'a list \<Rightarrow> iovec list \<Rightarrow> 'a list \<Rightarrow> 'a list" where
  "scatter d [] bs = d"
| "scatter d ((off, len) # iov) bs = scatter (write_at d off (take len bs)) iov (drop len bs)"

definition iov_size :: "iovec list \<Rightarrow> nat" where
  "iov_size iov = sum_list (map snd iov)"

lemma length_write_at [simp]:
  "off + length bs \<le> length d \<Longrightarrow> length (write_at d off bs) = length d"
  by (simp add: write_at_def)

lemma nth_write_at:
  assumes "off + length bs \<le> length d" and "j < length d"
  shows "write_at d off bs ! j =
    (if off \<le> j \<and> j < off + length bs then bs ! (j - off) else d ! j)"
  using assms by (auto simp: write_at_def nth_append not_le)

lemma write_at_Nil [simp]: "write_at d off [] = d"
  by (simp add: write_at_def)

section \<open>Circular slices of a block\<close>

definition ring_slice :: "'a list \<Rightarrow> nat \<Rightarrow> nat \<Rightarrow> nat \<Rightarrow> 'a list" where
  "ring_slice d m st n = map (\<lambda>i. d ! ((st + i) mod m)) [0..<n]"

lemma length_ring_slice [simp]: "length (ring_slice d m st n) = n"
  by (simp add: ring_slice_def)

lemma nth_ring_slice [simp]: "i < n \<Longrightarrow> ring_slice d m st n ! i = d ! ((st + i) mod m)"
  by (simp add: ring_slice_def)

lemma ring_slice_0 [simp]: "ring_slice d m st 0 = []"
  by (simp add: ring_slice_def)

lemma ring_slice_mod [simp]: "ring_slice d m (st mod m) n = ring_slice d m st n"
  by (simp add: ring_slice_def mod_simps)

lemma ring_slice_add:
  "ring_slice d m st (a + b) = ring_slice d m st a @ ring_slice d m (st + a) b"
  by (rule nth_equalityI) (auto simp: nth_append ac_simps)

lemma take_ring_slice: "k \<le> n \<Longrightarrow> take k (ring_slice d m st n) = ring_slice d m st k"
  by (rule nth_equalityI) auto

lemma drop_ring_slice: "k \<le> n \<Longrightarrow> drop k (ring_slice d m st n) = ring_slice d m (st + k) (n - k)"
  by (rule nth_equalityI) (auto simp: ac_simps)

lemma ring_slice_linear:
  assumes "st + n \<le> m" and "length d = m"
  shows "ring_slice d m st n = take n (drop st d)"
  using assms by (intro nth_equalityI) auto

lemma ring_slice_wrap:
  assumes "st < m" and "m \<le> st + n" and "n \<le> m" and "length d = m"
  shows "ring_slice d m st n = drop st d @ take (n - (m - st)) d"
proof -
  have "ring_slice d m st n = ring_slice d m st (m - st) @ ring_slice d m m (n - (m - st))"
    using ring_slice_add [of d m st "m - st" "n - (m - st)"] assms by simp
  moreover have "ring_slice d m st (m - st) = drop st d"
    using assms by (simp add: ring_slice_linear)
  moreover have "ring_slice d m m (n - (m - st)) = ring_slice d m 0 (n - (m - st))"
    using ring_slice_mod [of d m m "n - (m - st)"] by simp
  moreover have "ring_slice d m 0 (n - (m - st)) = take (n - (m - st)) d"
    using assms by (simp add: ring_slice_linear)
  ultimately show ?thesis by simp
qed

section \<open>Sorted lists\<close>

lemma sorted_wrt_cong_on:
  "(\<And>a b. a \<in> set xs \<Longrightarrow> b \<in> set xs \<Longrightarrow> P a b = Q a b) \<Longrightarrow> sorted_wrt P xs = sorted_wrt Q xs"
  by (induction xs) auto

lemma sorted_wrt_remove1: "sorted_wrt P xs \<Longrightarrow> sorted_wrt P (remove1 x xs)"
  by (induction xs) (auto dest: notin_set_remove1)

end
