(* ===== verification/NativeTunnel.thy ===== *)
theory NativeTunnel
  imports Prelude
begin

text \<open>
  The native methods that start and stop the tunnel (\<open>hev_jni.c\<close>), as a step relation between the caller that holds the mutex
  and the thread that runs the tunnel: the flag \<open>tunnel_running\<close> and the configuration they share, the event descriptor
  through which a stop reaches the tunnel, and the joining of the thread.
\<close>

section \<open>State\<close>

text \<open>Where the tunnel thread stands: parsing the configuration; initialising, before and after the pair of event
  descriptors exists; running; finalising; with only the store to \<open>tunnel_running\<close> left.\<close>

datatype thread = Parsing | Initialising | Connected | Running | Finalising | Returned

text \<open>Where the caller that holds \<open>tunnel_mutex\<close> stands: nowhere, or in \<open>nativeStop\<close>: waiting for the event descriptor, about
  to write to it, or joining the thread.\<close>

datatype caller = Idle | Waiting | Writing | Joining

record native =
  tunnel_running :: bool
  config_content :: bool
  event_fd :: bool
  event_byte :: bool
  threads :: "thread list"
  caller :: caller

text \<open>\<open>config_content\<close>: the copy of the configuration is allocated; \<open>event_fd\<close>: \<open>event_fds[1]\<close> is not negative; \<open>event_byte\<close>: a byte waits at
  its other end; \<open>threads\<close>: the tunnel threads that have not returned.\<close>

definition native_init :: native where
  "native_init = \<lparr>tunnel_running = False, config_content = False, event_fd = False, event_byte = False, threads = [], caller = Idle\<rparr>"

section \<open>Steps\<close>

text \<open>\<open>nativeStart\<close> as one step, under the mutex: refused, without memory for the configuration (the old one is
  gone), without a thread, and successful.\<close>

datatype start_result = NoString | NoMemory | NoThread | Started

definition nativeStart :: "start_result \<Rightarrow> native \<Rightarrow> native \<times> int" where
  "nativeStart r s =
     (if tunnel_running s then (s, - 1)
      else case r of
        NoString \<Rightarrow> (s, - 1)
      | NoMemory \<Rightarrow> (s\<lparr>config_content := False\<rparr>, - 1)
      | NoThread \<Rightarrow> (s\<lparr>config_content := False, tunnel_running := False\<rparr>, - 1)
      | Started \<Rightarrow> (s\<lparr>config_content := True, tunnel_running := True, threads := threads s @ [Parsing]\<rparr>, 0))"

text \<open>\<open>nativeStop\<close>: its steps until it returns; \<open>None\<close>: it cannot go on now. \<open>hev_socks5_tunnel_stop\<close> reads the descriptor
  until it is there, then writes to it; the descriptor may have been closed in between.\<close>

definition nativeStop :: "native \<Rightarrow> native option" where
  "nativeStop s =
     (case caller s of
        Idle \<Rightarrow> if tunnel_running s then Some (s\<lparr>caller := Waiting\<rparr>) else Some s
      | Waiting \<Rightarrow> if event_fd s then Some (s\<lparr>caller := Writing\<rparr>) else Some s
      | Writing \<Rightarrow> Some (s\<lparr>event_byte := event_fd s \<or> event_byte s, caller := Joining\<rparr>)
      | Joining \<Rightarrow> if threads s = [] then Some (s\<lparr>config_content := False, tunnel_running := False, caller := Idle\<rparr>) else None)"

text \<open>\<open>tunnel_thread_func\<close> with \<open>hev_socks5_tunnel_main_from_str\<close>; \<open>ok\<close> is the result of what the thread tries; \<open>None\<close>: it waits.\<close>

definition tunnel_thread_func :: "bool \<Rightarrow> nat \<Rightarrow> native \<Rightarrow> native option" where
  "tunnel_thread_func ok i s =
     (case threads s ! i of
        Parsing \<Rightarrow> Some (s\<lparr>threads := (threads s)[i := if ok then Initialising else Returned]\<rparr>)
      | Initialising \<Rightarrow> Some (if ok then s\<lparr>event_fd := True, event_byte := False, threads := (threads s)[i := Connected]\<rparr>
                              else s\<lparr>threads := (threads s)[i := Returned]\<rparr>)
      | Connected \<Rightarrow> Some (if ok then s\<lparr>threads := (threads s)[i := Running]\<rparr>
                           else s\<lparr>event_fd := False, event_byte := False, threads := (threads s)[i := Returned]\<rparr>)
      | Running \<Rightarrow> if event_byte s then Some (s\<lparr>threads := (threads s)[i := Finalising]\<rparr>) else None
      | Finalising \<Rightarrow> Some (s\<lparr>event_fd := False, event_byte := False, threads := (threads s)[i := Returned]\<rparr>)
      | Returned \<Rightarrow> Some (s\<lparr>tunnel_running := False, threads := take i (threads s) @ drop (Suc i) (threads s)\<rparr>))"

inductive step :: "native \<Rightarrow> native \<Rightarrow> bool" where
  Start: "caller s = Idle \<Longrightarrow> nativeStart r s = (s', res) \<Longrightarrow> step s s'"
| Stop: "nativeStop s = Some s' \<Longrightarrow> step s s'"
| Thread: "i < length (threads s) \<Longrightarrow> tunnel_thread_func ok i s = Some s' \<Longrightarrow> step s s'"

inductive_cases stepE: "step s s'"

definition reachable :: "native \<Rightarrow> bool" where
  "reachable s \<longleftrightarrow> step\<^sup>*\<^sup>* native_init s"

section \<open>The invariant\<close>

definition native_inv :: "native \<Rightarrow> bool" where
  "native_inv s \<longleftrightarrow> (case threads s of
       [] \<Rightarrow> \<not> tunnel_running s \<and> \<not> event_fd s
     | [t] \<Rightarrow> tunnel_running s \<and> config_content s \<and> (event_fd s \<longleftrightarrow> t \<in> {Connected, Running, Finalising}) \<and>
              (caller s = Joining \<and> t \<in> {Connected, Running} \<longrightarrow> event_byte s) \<and>
              (caller s \<noteq> Joining \<and> event_fd s \<longrightarrow> \<not> event_byte s) \<and>
              (caller s \<in> {Writing, Joining} \<longrightarrow> t \<notin> {Parsing, Initialising}) \<and>
              (t = Finalising \<longrightarrow> caller s = Joining)
     | _ \<Rightarrow> False)"

lemma native_inv_init: "native_inv native_init"
  by (simp add: native_inv_def native_init_def)

lemma native_inv_Start:
  assumes "native_inv s" "caller s = Idle" "nativeStart r s = (s', res)"
  shows "native_inv s'"
  using assms by (cases r) (auto simp: nativeStart_def native_inv_def split: if_splits list.splits)

lemma native_inv_Stop:
  assumes "native_inv s" "nativeStop s = Some s'" shows "native_inv s'"
  using assms by (cases "caller s") (auto simp: nativeStop_def native_inv_def split: if_splits list.splits)

lemma native_inv_Thread:
  assumes "native_inv s" "i < length (threads s)" "tunnel_thread_func ok i s = Some s'" shows "native_inv s'"
proof -
  obtain t where t: "threads s = [t]" "i = 0" using assms(1,2) by (auto simp: native_inv_def split: list.splits)
  show ?thesis using assms(1,3) t by (cases t) (auto simp: tunnel_thread_func_def native_inv_def split: if_splits)
qed

lemma native_inv_step: "step s s' \<Longrightarrow> native_inv s \<Longrightarrow> native_inv s'"
  by (elim stepE) (auto intro: native_inv_Start native_inv_Stop native_inv_Thread)

lemma reachable_inv: "reachable s \<Longrightarrow> native_inv s"
  unfolding reachable_def by (induction rule: rtranclp_induct) (auto simp: native_inv_init intro: native_inv_step)

section \<open>Stopping\<close>

text \<open>How far a thread is from its end.\<close>

fun rank :: "thread \<Rightarrow> nat" where
  "rank Parsing = 6"
| "rank Initialising = 5"
| "rank Connected = 4"
| "rank Running = 3"
| "rank Finalising = 2"
| "rank Returned = 1"

instantiation thread :: linorder
begin

definition less_eq_thread :: "thread \<Rightarrow> thread \<Rightarrow> bool" where
  "less_eq_thread t u \<longleftrightarrow> rank t \<le> rank u"

definition less_thread :: "thread \<Rightarrow> thread \<Rightarrow> bool" where
  "less_thread t u \<longleftrightarrow> rank t < rank u"

instance
proof
  fix t u :: thread
  assume "t \<le> u" "u \<le> t"
  then show "t = u" unfolding less_eq_thread_def by (cases t; cases u; simp)
qed (auto simp: less_eq_thread_def less_thread_def)

end

text \<open>A step of the thread ends it or brings it nearer to its end.\<close>

lemma thread_progress:
  assumes "threads s = [t]" "tunnel_thread_func ok 0 s = Some s'"
  shows "caller s' = caller s \<and> (threads s' = [] \<or> (\<exists>u < t. threads s' = [u]))"
  using assms by (cases t) (auto simp: tunnel_thread_func_def less_thread_def split: if_splits)

definition to_go :: "native \<Rightarrow> nat" where
  "to_go s = sum_list (map rank (threads s))"

text \<open>While a stop joins the thread, every step brings it nearer to its end, and there is one.\<close>

lemma join_step:
  assumes "native_inv s" "caller s = Joining" "step s s'"
  shows "caller s' = Idle \<or> caller s' = Joining \<and> to_go s' < to_go s"
  using assms(3)
proof (cases rule: step.cases)
  case (Start r res)
  then show ?thesis using assms(2) by simp
next
  case Stop
  then show ?thesis using assms(2) by (auto simp: nativeStop_def split: if_splits)
next
  case (Thread i ok)
  obtain t where t: "threads s = [t]" "i = 0" using assms(1) Thread(1) by (auto simp: native_inv_def split: list.splits)
  have "caller s' = caller s \<and> (threads s' = [] \<or> (\<exists>u < t. threads s' = [u]))"
    by (rule thread_progress [OF t(1)]) (use Thread(2) t(2) in simp)
  moreover have "0 < rank t" by (cases t) simp_all
  ultimately show ?thesis using t(1) assms(2) by (auto simp: to_go_def less_thread_def)
qed

lemma join_enabled:
  assumes "native_inv s" "caller s = Joining" shows "\<exists>s'. step s s'"
proof (cases "threads s")
  case Nil
  then have "nativeStop s = Some (s\<lparr>config_content := False, tunnel_running := False, caller := Idle\<rparr>)" using assms(2) by (simp add: nativeStop_def)
  then show ?thesis by (blast intro: step.Stop)
next
  case (Cons t ts)
  then have "threads s = [t]" "t = Running \<longrightarrow> event_byte s" using assms by (auto simp: native_inv_def split: list.splits)
  then have "\<exists>s'. tunnel_thread_func True 0 s = Some s'" by (cases t) (simp_all add: tunnel_thread_func_def)
  then show ?thesis using Cons step.Thread [of 0 s True] by auto
qed

lemma join_ends:
  assumes "native_inv (f 0)" "caller (f 0) = Joining" "\<And>n. step (f n) (f (Suc n))" "to_go (f 0) < k"
  shows "\<exists>n \<le> k. caller (f n) = Idle"
  using assms
proof (induction k arbitrary: f)
  case (Suc k)
  have s: "step (f 0) (f 1)" using Suc.prems(3) [of 0] by simp
  show ?case
  proof (cases "caller (f 1) = Idle")
    case True
    then show ?thesis by (intro exI [of _ 1]) simp
  next
    case False
    then have j: "caller (f 1) = Joining" "to_go (f 1) < to_go (f 0)" using join_step [OF Suc.prems(1,2) s] by simp_all
    have "\<exists>n \<le> k. caller (f (Suc n)) = Idle"
      by (rule Suc.IH [of "\<lambda>n. f (Suc n)"]) (use native_inv_step [OF s Suc.prems(1)] j Suc.prems(3,4) in simp_all)
    then show ?thesis by (meson Suc_le_mono)
  qed
qed simp

section \<open>The hang\<close>

text \<open>When the thread fails before it has made the event descriptors, a stop that has seen \<open>tunnel_running\<close> set waits for
  them for ever, with the mutex held: no start and no other stop can follow. Such a state is reachable.\<close>

lemma waiting_step:
  assumes "native_inv s" "caller s = Waiting" "threads s = []" "step s s'" shows "s' = s"
proof -
  have "\<not> event_fd s" using assms(1,3) by (simp add: native_inv_def)
  then show ?thesis using assms(2-4) by (elim stepE) (auto simp: nativeStop_def)
qed

lemma waiting_stuck:
  assumes "native_inv s" "caller s = Waiting" "threads s = []" "step\<^sup>*\<^sup>* s s'" shows "s' = s"
  using assms(4)
proof (induction rule: rtranclp_induct)
  case (step s1 s2)
  then show ?case using waiting_step [OF assms(1-3)] by blast
qed simp

definition hung :: native where
  "hung = \<lparr>tunnel_running = False, config_content = True, event_fd = False, event_byte = False, threads = [], caller = Waiting\<rparr>"

lemma hung_reachable: "reachable hung"
proof -
  let ?a = "\<lparr>tunnel_running = True, config_content = True, event_fd = False, event_byte = False, threads = [Parsing], caller = Idle\<rparr>"
  let ?b = "?a\<lparr>caller := Waiting\<rparr>" and ?c = "?a\<lparr>caller := Waiting, threads := [Returned]\<rparr>"
  have 1: "step native_init ?a" by (rule step.Start [of _ Started _ 0]) (simp_all add: native_init_def nativeStart_def)
  have 2: "step ?a ?b" by (rule step.Stop) (simp add: nativeStop_def)
  have 3: "step ?b ?c" by (rule step.Thread [of 0 _ False]) (simp_all add: tunnel_thread_func_def)
  have 4: "step ?c hung" by (rule step.Thread [of 0 _ True]) (simp_all add: tunnel_thread_func_def hung_def)
  show ?thesis unfolding reachable_def by (meson 1 2 3 4 rtranclp.rtrancl_into_rtrancl rtranclp.rtrancl_refl)
qed

text \<open>C14. The native methods of the tunnel, in every interleaving of the caller's and the thread's steps: at most one tunnel
  thread exists, and while it does, \<open>tunnel_running\<close> is set and the configuration it reads is allocated;
  and once \<open>nativeStop\<close> has written to the event descriptor it returns: it never deadlocks with the thread, and after at most six
  steps, of whichever of the two, it is back. But a \<open>nativeStop\<close> that waits for the descriptor when the thread is gone waits for ever.\<close>

theorem native_methods_correct:
  assumes "reachable s"
  shows "length (threads s) \<le> 1 \<and> (threads s \<noteq> [] \<longrightarrow> tunnel_running s \<and> config_content s) \<and>
    (caller s = Joining \<longrightarrow> (\<exists>s'. step s s') \<and>
       (\<forall>f. f 0 = s \<and> (\<forall>n. step (f n) (f (Suc n))) \<longrightarrow> (\<exists>n \<le> 6. caller (f n) = Idle))) \<and>
    (caller s = Waiting \<and> threads s = [] \<longrightarrow> (\<forall>s'. step\<^sup>*\<^sup>* s s' \<longrightarrow> s' = s))"
proof -
  have i: "native_inv s" by (rule reachable_inv [OF assms])
  then have one: "length (threads s) \<le> 1 \<and> (threads s \<noteq> [] \<longrightarrow> tunnel_running s \<and> config_content s)"
    by (auto simp: native_inv_def split: list.splits)
  have "to_go s < 6" if "caller s = Joining"
  proof (cases "threads s")
    case (Cons t ts)
    then have "threads s = [t]" "t \<notin> {Parsing, Initialising}" using i that by (auto simp: native_inv_def split: list.splits)
    then show ?thesis by (cases t) (simp_all add: to_go_def)
  qed (simp add: to_go_def)
  then show ?thesis using one i join_enabled [of s] join_ends [of _ 6] waiting_stuck [OF i] by blast
qed

section \<open>Witness\<close>

definition joining :: native where
  "joining = \<lparr>tunnel_running = True, config_content = True, event_fd = True, event_byte = True, threads = [Connected], caller = Joining\<rparr>"

lemma joining_reachable: "reachable joining"
proof -
  let ?a = "\<lparr>tunnel_running = True, config_content = True, event_fd = False, event_byte = False, threads = [Parsing], caller = Idle\<rparr>"
  let ?b = "?a\<lparr>threads := [Initialising]\<rparr>" and ?c = "?a\<lparr>event_fd := True, threads := [Connected]\<rparr>"
  let ?d = "?c\<lparr>caller := Waiting\<rparr>" and ?e = "?c\<lparr>caller := Writing\<rparr>"
  have 1: "step native_init ?a" by (rule step.Start [of _ Started _ 0]) (simp_all add: native_init_def nativeStart_def)
  have 2: "step ?a ?b" by (rule step.Thread [of 0 _ True]) (simp_all add: tunnel_thread_func_def)
  have 3: "step ?b ?c" by (rule step.Thread [of 0 _ True]) (simp_all add: tunnel_thread_func_def)
  have 4: "step ?c ?d" by (rule step.Stop) (simp add: nativeStop_def)
  have 5: "step ?d ?e" by (rule step.Stop) (simp add: nativeStop_def)
  have 6: "step ?e joining" by (rule step.Stop) (simp add: nativeStop_def joining_def)
  show ?thesis unfolding reachable_def by (meson 1 2 3 4 5 6 rtranclp.rtrancl_into_rtrancl rtranclp.rtrancl_refl)
qed

lemma native_methods_correct_witness:
  "\<exists>s'. step joining s' \<and> (\<forall>f. f 0 = joining \<and> (\<forall>n. step (f n) (f (Suc n))) \<longrightarrow> (\<exists>n \<le> 6. caller (f n) = Idle)) \<and>
     (\<forall>s'. step\<^sup>*\<^sup>* hung s' \<longrightarrow> s' = hung)"
  using native_methods_correct [OF joining_reachable] native_methods_correct [OF hung_reachable] by (simp add: joining_def hung_def)

end
