(* ===== verification/RingBuffer.thy ===== *)
theory RingBuffer
  imports Prelude
begin

text \<open>
  The ring buffer of \<open>misc/hev-ring-buffer.c\<close> that a TCP session uses for the bytes on
  their way from the proxy to the lwIP stack. A byte is written at \<open>wp\<close>, becomes
  readable, is handed to \<open>tcp_write\<close> without copying (\<open>read_finish\<close>) and stays in the
  buffer until the peer acknowledges it (\<open>read_release\<close>). The buffer is abstracted by two
  byte queues: the bytes in flight and the bytes still to be read.
\<close>

section \<open>The code\<close>

record HevRingBuffer =
  rp :: nat
  wp :: nat
  rda_size :: nat
  use_size :: nat
  max_size :: nat
  rb_data :: bytes

text \<open>The \<open>alloca\<close> macro; the contents \<open>d\<close> of the fresh block are whatever the stack held.\<close>

definition hev_ring_buffer_alloca :: "nat \<Rightarrow> bytes \<Rightarrow> HevRingBuffer" where
  "hev_ring_buffer_alloca s d =
     \<lparr>rp = 0, wp = 0, rda_size = 0, use_size = 0, max_size = s, rb_data = d\<rparr>"

definition hev_ring_buffer_get_max_size :: "HevRingBuffer \<Rightarrow> nat" where
  "hev_ring_buffer_get_max_size self = max_size self"

definition hev_ring_buffer_get_use_size :: "HevRingBuffer \<Rightarrow> nat" where
  "hev_ring_buffer_get_use_size self = use_size self"

text \<open>The number of vectors the C function returns is the length of the list.\<close>

definition hev_ring_buffer_reading :: "HevRingBuffer \<Rightarrow> iovec list" where
  "hev_ring_buffer_reading self =
     (if 0 = rda_size self then []
      else let upper_size = sz_sub (max_size self) (rp self)
           in if rda_size self \<le> upper_size then [(rp self, rda_size self)]
              else [(rp self, upper_size), (0, sz_sub (rda_size self) upper_size)])"

definition hev_ring_buffer_read_finish :: "HevRingBuffer \<Rightarrow> nat \<Rightarrow> HevRingBuffer" where
  "hev_ring_buffer_read_finish self sz =
     self\<lparr>rp := sz_add (rp self) sz mod max_size self,
          rda_size := sz_sub (rda_size self) sz\<rparr>"

definition hev_ring_buffer_read_release :: "HevRingBuffer \<Rightarrow> nat \<Rightarrow> HevRingBuffer" where
  "hev_ring_buffer_read_release self sz =
     (let self = self\<lparr>use_size := sz_sub (use_size self) sz\<rparr>
      in if use_size self = 0 then self\<lparr>rp := 0, wp := 0\<rparr> else self)"

definition hev_ring_buffer_writing :: "HevRingBuffer \<Rightarrow> iovec list" where
  "hev_ring_buffer_writing self =
     (if use_size self = max_size self then []
      else let upper_size = sz_sub (max_size self) (wp self);
               spc_size = sz_sub (max_size self) (use_size self)
           in if spc_size \<le> upper_size then [(wp self, spc_size)]
              else [(wp self, upper_size), (0, sz_sub spc_size upper_size)])"

definition hev_ring_buffer_write_finish :: "HevRingBuffer \<Rightarrow> nat \<Rightarrow> HevRingBuffer" where
  "hev_ring_buffer_write_finish self sz =
     self\<lparr>wp := sz_add (wp self) sz mod max_size self,
          use_size := sz_add (use_size self) sz,
          rda_size := sz_add (rda_size self) sz\<rparr>"

section \<open>Invariant and abstraction\<close>

text \<open>
  Going round the ring from \<open>wp\<close> come first the free bytes and then the bytes in use, so
  the oldest byte in use is \<open>max_size - use_size\<close> positions after \<open>wp\<close>. The bytes in use
  are the bytes in flight followed by the readable ones.
\<close>

definition rb_base :: "HevRingBuffer \<Rightarrow> nat" where
  "rb_base b = rp b + rda_size b + (max_size b - use_size b)"

definition rb_live :: "HevRingBuffer \<Rightarrow> bytes" where
  "rb_live b = ring_slice (rb_data b) (max_size b) (rb_base b) (use_size b)"

definition rb_inflight :: "HevRingBuffer \<Rightarrow> bytes" where
  "rb_inflight b = take (use_size b - rda_size b) (rb_live b)"

definition rb_readable :: "HevRingBuffer \<Rightarrow> bytes" where
  "rb_readable b = drop (use_size b - rda_size b) (rb_live b)"

definition rb_free :: "HevRingBuffer \<Rightarrow> nat" where
  "rb_free b = max_size b - use_size b"

definition rb_inv :: "HevRingBuffer \<Rightarrow> bool" where
  "rb_inv b \<longleftrightarrow> 0 < max_size b \<and> 2 * max_size b < SIZE_MOD \<and> length (rb_data b) = max_size b \<and>
     rda_size b \<le> use_size b \<and> use_size b \<le> max_size b \<and> rp b < max_size b \<and>
     wp b = (rp b + rda_size b) mod max_size b"

text \<open>What \<open>readv\<close> followed by \<open>write_finish\<close> does with the bytes it received.\<close>

definition rb_push :: "HevRingBuffer \<Rightarrow> bytes \<Rightarrow> HevRingBuffer" where
  "rb_push b bs = hev_ring_buffer_write_finish
     (b\<lparr>rb_data := scatter (rb_data b) (hev_ring_buffer_writing b) bs\<rparr>) (length bs)"

lemma rb_invD:
  assumes "rb_inv b"
  shows "0 < max_size b" "2 * max_size b < SIZE_MOD" "length (rb_data b) = max_size b"
    "rda_size b \<le> use_size b" "use_size b \<le> max_size b" "rp b < max_size b"
    "wp b = (rp b + rda_size b) mod max_size b" "wp b < max_size b"
    "use_size b < SIZE_MOD" "rda_size b < SIZE_MOD" "max_size b < SIZE_MOD"
    "\<And>n. n \<le> max_size b \<Longrightarrow> rp b + n < SIZE_MOD" "\<And>n. n \<le> max_size b \<Longrightarrow> wp b + n < SIZE_MOD"
proof -
  show m: "0 < max_size b" "2 * max_size b < SIZE_MOD" "length (rb_data b) = max_size b"
    "rda_size b \<le> use_size b" "use_size b \<le> max_size b" "rp b < max_size b"
    "wp b = (rp b + rda_size b) mod max_size b"
    using assms by (simp_all add: rb_inv_def)
  then show w: "wp b < max_size b" by simp
  show "use_size b < SIZE_MOD" "rda_size b < SIZE_MOD" "max_size b < SIZE_MOD"
    using m by linarith+
  show "rp b + n < SIZE_MOD" if "n \<le> max_size b" for n using m that by linarith
  show "wp b + n < SIZE_MOD" if "n \<le> max_size b" for n using m w that by linarith
qed

lemma rb_inv_alloca [wf_intros]:
  "0 < s \<Longrightarrow> 2 * s < SIZE_MOD \<Longrightarrow> length d = s \<Longrightarrow> rb_inv (hev_ring_buffer_alloca s d)"
  by (simp add: rb_inv_def hev_ring_buffer_alloca_def)

lemma rb_alloca_empty [simp]:
  "rb_readable (hev_ring_buffer_alloca s d) = []" "rb_inflight (hev_ring_buffer_alloca s d) = []"
  by (simp_all add: rb_readable_def rb_inflight_def rb_live_def hev_ring_buffer_alloca_def)

lemma length_rb_live [simp]: "length (rb_live b) = use_size b"
  by (simp add: rb_live_def)

lemma rb_live_split: "rb_inflight b @ rb_readable b = rb_live b"
  by (simp add: rb_inflight_def rb_readable_def)

lemma rb_lengths [simp]:
  "rb_inv b \<Longrightarrow> length (rb_readable b) = rda_size b"
  "length (rb_inflight b) = use_size b - rda_size b"
  by (auto simp: rb_readable_def rb_inflight_def dest: rb_invD(4))

lemma rb_live_cong:
  assumes "rb_base a mod max_size a = rb_base b mod max_size b" and "max_size a = max_size b"
    and "rb_data a = rb_data b" and "use_size a = use_size b"
  shows "rb_live a = rb_live b"
  unfolding rb_live_def using assms by (metis ring_slice_mod)

lemma rb_readable_slice:
  assumes "rb_inv b"
  shows "rb_readable b = ring_slice (rb_data b) (max_size b) (rp b) (rda_size b)"
proof -
  note i = rb_invD [OF assms]
  have "rb_readable b = ring_slice (rb_data b) (max_size b)
      (rb_base b + (use_size b - rda_size b)) (rda_size b)"
    using i by (simp add: rb_readable_def rb_live_def drop_ring_slice)
  also have "rb_base b + (use_size b - rda_size b) = rp b + max_size b"
    using i by (simp add: rb_base_def)
  finally show ?thesis by (metis mod_add_self2 ring_slice_mod)
qed

subsection \<open>Reading\<close>

lemma rb_gather_reading:
  assumes "rb_inv b"
  shows "gather (rb_data b) (hev_ring_buffer_reading b) = rb_readable b"
proof -
  note i = rb_invD [OF assms]
  show ?thesis
  proof (cases "rda_size b \<le> max_size b - rp b")
    case True
    with i show ?thesis
      by (auto simp: rb_readable_slice [OF assms] hev_ring_buffer_reading_def gather_def
          ring_slice_linear)
  next
    case False
    with i show ?thesis
      by (simp add: rb_readable_slice [OF assms] hev_ring_buffer_reading_def gather_def
          ring_slice_wrap)
  qed
qed

lemma rb_read_finish_inv [wf_intros]:
  assumes "rb_inv b" and "n \<le> rda_size b"
  shows "rb_inv (hev_ring_buffer_read_finish b n)"
proof -
  note i = rb_invD [OF assms(1)]
  obtain k where k: "rda_size b = n + k" using assms(2) le_Suc_ex by blast
  show ?thesis
    using i k by (simp add: rb_inv_def hev_ring_buffer_read_finish_def mod_simps ac_simps)
qed

lemma mod_shift: "((a + n) mod m + k + f) mod m = (a + (n + k) + f) mod m" for a :: nat
  by (metis mod_add_left_eq add.assoc)

lemma rb_read_finish_live:
  assumes "rb_inv b" and "n \<le> rda_size b"
  shows "rb_live (hev_ring_buffer_read_finish b n) = rb_live b"
proof (rule rb_live_cong)
  note i = rb_invD [OF assms(1)]
  obtain k where k: "rda_size b = n + k" using assms(2) le_Suc_ex by blast
  show "rb_base (hev_ring_buffer_read_finish b n) mod max_size (hev_ring_buffer_read_finish b n)
      = rb_base b mod max_size b"
    using i k mod_shift [of "rp b" n "max_size b" k "max_size b - use_size b"]
    by (simp add: rb_base_def hev_ring_buffer_read_finish_def)
qed (simp_all add: hev_ring_buffer_read_finish_def)

lemma rb_read_finish_abs:
  assumes "rb_inv b" and "n \<le> rda_size b"
  shows "rb_readable (hev_ring_buffer_read_finish b n) = drop n (rb_readable b)"
    and "rb_inflight (hev_ring_buffer_read_finish b n) = rb_inflight b @ take n (rb_readable b)"
proof -
  note i = rb_invD [OF assms(1)]
  obtain u where u: "use_size b = rda_size b + u" using i(4) le_Suc_ex by blast
  have "use_size (hev_ring_buffer_read_finish b n) - rda_size (hev_ring_buffer_read_finish b n) = u + n"
    using i assms(2) u by (simp add: hev_ring_buffer_read_finish_def)
  then show "rb_readable (hev_ring_buffer_read_finish b n) = drop n (rb_readable b)"
    and "rb_inflight (hev_ring_buffer_read_finish b n) = rb_inflight b @ take n (rb_readable b)"
    using u by (simp_all add: rb_readable_def rb_inflight_def rb_read_finish_live [OF assms]
        take_add add.commute [of n])
qed

subsection \<open>Releasing acknowledged bytes\<close>

lemma rb_read_release_inv [wf_intros]:
  assumes "rb_inv b" and "n \<le> use_size b - rda_size b"
  shows "rb_inv (hev_ring_buffer_read_release b n)"
  using rb_invD [OF assms(1)] assms(2)
  by (auto simp: rb_inv_def hev_ring_buffer_read_release_def Let_def)

lemma rb_read_release_live:
  assumes "rb_inv b" and "n \<le> use_size b - rda_size b"
  shows "rb_live (hev_ring_buffer_read_release b n) = drop n (rb_live b)"
proof -
  note i = rb_invD [OF assms(1)]
  have n: "n \<le> use_size b" using assms(2) by simp
  show ?thesis
  proof (cases "use_size b = n")
    case True
    with i show ?thesis
      by (simp add: rb_live_def hev_ring_buffer_read_release_def Let_def)
  next
    case False
    with i n have "rb_base b + n = rp b + rda_size b + (max_size b - (use_size b - n))"
      by (simp add: rb_base_def)
    with False i n show ?thesis
      by (simp add: rb_live_def hev_ring_buffer_read_release_def Let_def drop_ring_slice
          rb_base_def)
  qed
qed

lemma rb_read_release_abs:
  assumes "rb_inv b" and "n \<le> use_size b - rda_size b"
  shows "rb_readable (hev_ring_buffer_read_release b n) = rb_readable b"
    and "rb_inflight (hev_ring_buffer_read_release b n) = drop n (rb_inflight b)"
proof -
  note i = rb_invD [OF assms(1)]
  let ?b = "hev_ring_buffer_read_release b n"
  have u: "use_size ?b = use_size b - n" "rda_size ?b = rda_size b"
    using i assms(2) by (auto simp: hev_ring_buffer_read_release_def Let_def)
  show "rb_readable ?b = rb_readable b" "rb_inflight ?b = drop n (rb_inflight b)"
    using i assms(2) u
    by (simp_all add: rb_readable_def rb_inflight_def rb_read_release_live [OF assms] drop_take
        add.commute)
qed

subsection \<open>Writing\<close>

lemma ring_slice_outside_eq:
  assumes "\<And>i. i < n \<Longrightarrow> d' ! ((st + i) mod m) = d ! ((st + i) mod m)"
  shows "ring_slice d' m st n = ring_slice d m st n"
  using assms by (simp add: ring_slice_def)

text \<open>The free region after \<open>wp\<close>, filled through the one or two vectors of \<open>writing\<close>.\<close>

lemma scatter_ring:
  assumes "length d = m" and "w < m" and "length bs \<le> f" and "f \<le> m" and "j < m"
  defines "iov \<equiv> (if f \<le> m - w then [(w, f)] else [(w, m - w), (0, f - (m - w))])"
  shows "scatter d iov bs ! j =
     (if (j + m - w) mod m < length bs then bs ! ((j + m - w) mod m) else d ! j)"
    and "length (scatter d iov bs) = m"
proof -
  have dist: "(j + m - w) mod m = (if w \<le> j then j - w else j + m - w)"
    using assms(2,5) by (auto simp: mod_if)
  show "scatter d iov bs ! j =
     (if (j + m - w) mod m < length bs then bs ! ((j + m - w) mod m) else d ! j)"
  proof (cases "f \<le> m - w")
    case True
    then show ?thesis
      using assms(1-5) unfolding dist iov_def by (auto simp: nth_write_at min_def)
  next
    case False
    let ?d = "write_at d w (take (m - w) bs)"
    have ld: "length ?d = m" using assms(1,2) by (subst length_write_at) auto
    have "write_at ?d 0 (drop (m - w) bs) ! j =
        (if j < length bs - (m - w) then bs ! (m - w + j) else ?d ! j)"
      using False assms(2-5) ld by (subst nth_write_at) auto
    moreover have "?d ! j = (if w \<le> j \<and> j < w + min (length bs) (m - w) then bs ! (j - w) else d ! j)"
      using assms(1,2,5) by (subst nth_write_at) auto
    moreover have "drop (m - w) bs ! j = bs ! (m - w + j)" if "j < length bs - (m - w)"
      using that by simp
    ultimately show ?thesis
      using False assms(2-5) unfolding dist iov_def by (auto simp: min_def add.commute)
  qed
  show "length (scatter d iov bs) = m"
    using assms(1-5) by (auto simp: iov_def write_at_def)
qed

lemma rb_writing_eq:
  assumes "rb_inv b" and "rb_free b \<noteq> 0"
  shows "hev_ring_buffer_writing b =
    (if rb_free b \<le> max_size b - wp b then [(wp b, rb_free b)]
     else [(wp b, max_size b - wp b), (0, rb_free b - (max_size b - wp b))])"
proof -
  have "sz_sub (max_size b) (wp b) = max_size b - wp b"
    "sz_sub (max_size b) (use_size b) = max_size b - use_size b"
    "sz_sub (max_size b - use_size b) (max_size b - wp b)
       = (max_size b - use_size b) - (max_size b - wp b)"
    if "\<not> max_size b - use_size b \<le> max_size b - wp b"
    using rb_invD [OF assms(1)] that by simp_all
  then show ?thesis
    using rb_invD [OF assms(1)] assms(2)
    by (auto simp: hev_ring_buffer_writing_def rb_free_def Let_def)
qed

text \<open>Going round from \<open>wp\<close>, the bytes in use start after the free ones.\<close>

lemma rb_live_position:
  assumes "rb_inv b" and "i < use_size b"
  shows "((rb_base b + i) mod max_size b + max_size b - wp b) mod max_size b = rb_free b + i"
proof -
  note v = rb_invD [OF assms(1)]
  let ?m = "max_size b"
  have lt: "rb_free b + i < ?m" using v assms(2) by (simp add: rb_free_def)
  have "(rb_base b + i) mod ?m = (wp b + (rb_free b + i)) mod ?m"
    unfolding v(7) rb_base_def rb_free_def by (simp only: mod_add_left_eq add.assoc)
  moreover have "((wp b + x) mod ?m + ?m - wp b) mod ?m = x" if "x < ?m" for x
  proof (cases "wp b + x < ?m")
    case True
    then show ?thesis using that by simp
  next
    case False
    then have "(wp b + x) mod ?m = wp b + x - ?m"
      using that v(8) by (simp add: mod_if)
    then show ?thesis using False that v(8) by simp
  qed
  ultimately show ?thesis using lt by simp
qed

lemma rb_push_data:
  assumes "rb_inv b" and "length bs \<le> rb_free b"
  shows "length (scatter (rb_data b) (hev_ring_buffer_writing b) bs) = max_size b"
    and "j < max_size b \<Longrightarrow> scatter (rb_data b) (hev_ring_buffer_writing b) bs ! j =
      (if (j + max_size b - wp b) mod max_size b < length bs
       then bs ! ((j + max_size b - wp b) mod max_size b) else rb_data b ! j)"
proof -
  note v = rb_invD [OF assms(1)]
  have f: "rb_free b \<le> max_size b" by (simp add: rb_free_def)
  have nil: "hev_ring_buffer_writing b = [] \<and> bs = []" if "rb_free b = 0"
    using that assms v by (auto simp: rb_free_def hev_ring_buffer_writing_def)
  show "length (scatter (rb_data b) (hev_ring_buffer_writing b) bs) = max_size b"
    using scatter_ring(2) [OF v(3) v(8) assms(2) f v(8)] nil v(3) rb_writing_eq [OF assms(1)]
    by (cases "rb_free b = 0") simp_all
  show "scatter (rb_data b) (hev_ring_buffer_writing b) bs ! j =
      (if (j + max_size b - wp b) mod max_size b < length bs
       then bs ! ((j + max_size b - wp b) mod max_size b) else rb_data b ! j)"
    if "j < max_size b"
    using scatter_ring(1) [OF v(3) v(8) assms(2) f that] nil rb_writing_eq [OF assms(1)]
    by (cases "rb_free b = 0") simp_all
qed

lemma rb_push_inv [wf_intros]:
  assumes "rb_inv b" and "length bs \<le> rb_free b"
  shows "rb_inv (rb_push b bs)"
proof -
  note v = rb_invD [OF assms(1)]
  from assms(2) v have "use_size b + length bs \<le> max_size b" by (simp add: rb_free_def)
  then show ?thesis
    using v rb_push_data(1) [OF assms]
    by (simp add: rb_inv_def rb_push_def hev_ring_buffer_write_finish_def mod_simps ac_simps)
qed

lemma rb_push_live:
  assumes "rb_inv b" and "length bs \<le> rb_free b"
  shows "rb_live (rb_push b bs) = rb_live b @ bs"
proof (rule nth_equalityI)
  note v = rb_invD [OF assms(1)]
  let ?m = "max_size b" and ?b = "rb_push b bs"
  from assms(2) v have le: "use_size b + length bs \<le> ?m" by (simp add: rb_free_def)
  then have sz: "use_size ?b = use_size b + length bs" "rda_size ?b = rda_size b + length bs"
    "max_size ?b = ?m" "rp ?b = rp b" "rb_data ?b = scatter (rb_data b) (hev_ring_buffer_writing b) bs"
    using v by (simp_all add: rb_push_def hev_ring_buffer_write_finish_def)
  then have base: "rb_base ?b = rb_base b" using le by (simp add: rb_base_def)
  show "length (rb_live ?b) = length (rb_live b @ bs)" by (simp add: sz)
  fix i assume "i < length (rb_live ?b)"
  then have i: "i < use_size b + length bs" by (simp add: sz)
  let ?j = "(rb_base b + i) mod ?m"
  have j: "?j < ?m" using v by simp
  have "rb_live ?b ! i = scatter (rb_data b) (hev_ring_buffer_writing b) bs ! ?j"
    using i by (simp add: rb_live_def sz base)
  also have "\<dots> = (rb_live b @ bs) ! i"
  proof (cases "i < use_size b")
    case True
    then show ?thesis
      using rb_push_data(2) [OF assms j] rb_live_position [OF assms(1) True] assms(2)
      by (simp add: nth_append rb_live_def)
  next
    case False
    have "?j = (wp b + (i - use_size b)) mod ?m"
    proof -
      have "rb_base b + i = rp b + rda_size b + (i - use_size b) + ?m"
        using False v by (simp add: rb_base_def)
      then show ?thesis unfolding v(7) by (simp add: mod_simps)
    qed
    moreover have x: "i - use_size b < ?m" using i le by simp
    moreover have "((wp b + x) mod ?m + ?m - wp b) mod ?m = x" if "x < ?m" for x
      using that v(8) by (cases "wp b + x < ?m") (auto simp: mod_if)
    ultimately have "(?j + ?m - wp b) mod ?m = i - use_size b" by simp
    moreover have "i - use_size b < length bs" using False i by linarith
    ultimately show ?thesis
      using rb_push_data(2) [OF assms j] False i by (simp add: nth_append)
  qed
  finally show "rb_live ?b ! i = (rb_live b @ bs) ! i" .
qed

lemma rb_push_abs:
  assumes "rb_inv b" and "length bs \<le> rb_free b"
  shows "rb_readable (rb_push b bs) = rb_readable b @ bs"
    and "rb_inflight (rb_push b bs) = rb_inflight b"
proof -
  note v = rb_invD [OF assms(1)]
  from assms(2) v have le: "use_size b + length bs \<le> max_size b" by (simp add: rb_free_def)
  then have "use_size (rb_push b bs) - rda_size (rb_push b bs) = use_size b - rda_size b"
    using v by (simp add: rb_push_def hev_ring_buffer_write_finish_def)
  then show "rb_readable (rb_push b bs) = rb_readable b @ bs"
    "rb_inflight (rb_push b bs) = rb_inflight b"
    using v by (simp_all add: rb_readable_def rb_inflight_def rb_push_live [OF assms])
qed

lemma rb_writing_size:
  assumes "rb_inv b"
  shows "iov_size (hev_ring_buffer_writing b) = rb_free b"
proof (cases "rb_free b = 0")
  case True
  then show ?thesis
    using rb_invD [OF assms] by (simp add: rb_free_def hev_ring_buffer_writing_def iov_size_def)
next
  case False
  then show ?thesis by (simp add: rb_writing_eq [OF assms] iov_size_def)
qed

section \<open>The interface the TCP session relies on\<close>

text \<open>
  A byte pipe with acknowledgement: \<open>push\<close> appends received bytes, \<open>fin\<close> hands the
  oldest pending bytes out, \<open>ack\<close> forgets the oldest bytes handed out.
\<close>

datatype 'a pipe_op = Push "'a list" | Finish nat | Ack nat

fun pipe_step :: "('b \<Rightarrow> 'a list \<Rightarrow> 'b) \<Rightarrow> ('b \<Rightarrow> nat \<Rightarrow> 'b) \<Rightarrow> ('b \<Rightarrow> nat \<Rightarrow> 'b) \<Rightarrow> 'b \<Rightarrow> 'a pipe_op \<Rightarrow> 'b" where
  "pipe_step push fin ack b (Push bs) = push b bs"
| "pipe_step push fin ack b (Finish n) = fin b n"
| "pipe_step push fin ack b (Ack n) = ack b n"

fun pipe_run :: "('b \<Rightarrow> 'a list \<Rightarrow> 'b) \<Rightarrow> ('b \<Rightarrow> nat \<Rightarrow> 'b) \<Rightarrow> ('b \<Rightarrow> nat \<Rightarrow> 'b) \<Rightarrow> 'b \<Rightarrow> 'a pipe_op list \<Rightarrow> 'b" where
  "pipe_run push fin ack b [] = b"
| "pipe_run push fin ack b (p # ps) = pipe_run push fin ack (pipe_step push fin ack b p) ps"

fun pushed :: "'a pipe_op list \<Rightarrow> 'a list" where
  "pushed [] = []"
| "pushed (Push bs # ps) = bs @ pushed ps"
| "pushed (Finish n # ps) = pushed ps"
| "pushed (Ack n # ps) = pushed ps"

fun ack_total :: "'a pipe_op list \<Rightarrow> nat" where
  "ack_total [] = 0"
| "ack_total (Push bs # ps) = ack_total ps"
| "ack_total (Finish n # ps) = ack_total ps"
| "ack_total (Ack n # ps) = n + ack_total ps"

fun pipe_op_ok :: "('b \<Rightarrow> nat) \<Rightarrow> ('b \<Rightarrow> 'a list) \<Rightarrow> ('b \<Rightarrow> 'a list) \<Rightarrow> 'b \<Rightarrow> 'a pipe_op \<Rightarrow> bool" where
  "pipe_op_ok room pending unacked b (Push bs) = (length bs \<le> room b)"
| "pipe_op_ok room pending unacked b (Finish n) = (n \<le> length (pending b))"
| "pipe_op_ok room pending unacked b (Ack n) = (n \<le> length (unacked b))"

fun pipe_run_ok :: "('b \<Rightarrow> 'a pipe_op \<Rightarrow> bool) \<Rightarrow> ('b \<Rightarrow> 'a pipe_op \<Rightarrow> 'b) \<Rightarrow> 'b \<Rightarrow> 'a pipe_op list \<Rightarrow> bool" where
  "pipe_run_ok ok stp b [] = True"
| "pipe_run_ok ok stp b (p # ps) = (ok b p \<and> pipe_run_ok ok stp (stp b p) ps)"

definition ring_run :: "HevRingBuffer \<Rightarrow> u8 pipe_op list \<Rightarrow> HevRingBuffer" where
  "ring_run = pipe_run rb_push hev_ring_buffer_read_finish hev_ring_buffer_read_release"

text \<open>
  The bounds the callers keep: \<open>readv\<close> fills at most the vectors it is given, \<open>tcp_write\<close>
  takes the readable bytes, and lwIP acknowledges only bytes it was given.
\<close>

definition ring_run_ok :: "HevRingBuffer \<Rightarrow> u8 pipe_op list \<Rightarrow> bool" where
  "ring_run_ok = pipe_run_ok (pipe_op_ok rb_free rb_readable rb_inflight)
     (pipe_step rb_push hev_ring_buffer_read_finish hev_ring_buffer_read_release)"

locale byte_pipe =
  fixes inv :: "'b \<Rightarrow> bool"
    and pending :: "'b \<Rightarrow> 'a list"
    and unacked :: "'b \<Rightarrow> 'a list"
    and room :: "'b \<Rightarrow> nat"
    and push :: "'b \<Rightarrow> 'a list \<Rightarrow> 'b"
    and fin :: "'b \<Rightarrow> nat \<Rightarrow> 'b"
    and ack :: "'b \<Rightarrow> nat \<Rightarrow> 'b"
  assumes push_inv: "inv b \<Longrightarrow> length bs \<le> room b \<Longrightarrow> inv (push b bs)"
    and push_pending: "inv b \<Longrightarrow> length bs \<le> room b \<Longrightarrow> pending (push b bs) = pending b @ bs"
    and push_unacked: "inv b \<Longrightarrow> length bs \<le> room b \<Longrightarrow> unacked (push b bs) = unacked b"
    and fin_inv: "inv b \<Longrightarrow> n \<le> length (pending b) \<Longrightarrow> inv (fin b n)"
    and fin_pending: "inv b \<Longrightarrow> n \<le> length (pending b) \<Longrightarrow> pending (fin b n) = drop n (pending b)"
    and fin_unacked: "inv b \<Longrightarrow> n \<le> length (pending b) \<Longrightarrow>
          unacked (fin b n) = unacked b @ take n (pending b)"
    and ack_inv: "inv b \<Longrightarrow> n \<le> length (unacked b) \<Longrightarrow> inv (ack b n)"
    and ack_pending: "inv b \<Longrightarrow> n \<le> length (unacked b) \<Longrightarrow> pending (ack b n) = pending b"
    and ack_unacked: "inv b \<Longrightarrow> n \<le> length (unacked b) \<Longrightarrow> unacked (ack b n) = drop n (unacked b)"
begin

abbreviation "op_ok \<equiv> pipe_op_ok room pending unacked"
abbreviation "stp \<equiv> pipe_step push fin ack"

lemma step_inv: "inv b \<Longrightarrow> op_ok b p \<Longrightarrow> inv (stp b p)"
  by (cases p) (auto intro: push_inv fin_inv ack_inv)

lemma run_inv: "inv b \<Longrightarrow> pipe_run_ok op_ok stp b ps \<Longrightarrow> inv (pipe_run push fin ack b ps)"
  by (induction ps arbitrary: b) (auto intro: step_inv)

lemma fin_total:
  "inv b \<Longrightarrow> n \<le> length (pending b) \<Longrightarrow>
     unacked (fin b n) @ pending (fin b n) = unacked b @ pending b"
  by (simp add: fin_pending fin_unacked)

lemma run_stream:
  "inv b \<Longrightarrow> pipe_run_ok op_ok stp b ps \<Longrightarrow>
     unacked (pipe_run push fin ack b ps) @ pending (pipe_run push fin ack b ps)
       = drop (ack_total ps) ((unacked b @ pending b) @ pushed ps)
     \<and> ack_total ps \<le> length ((unacked b @ pending b) @ pushed ps)"
proof (induction ps arbitrary: b)
  case Nil
  then show ?case by simp
next
  case (Cons p ps)
  then have "inv (stp b p)" by (auto intro: step_inv)
  note IH = Cons.IH [OF this]
  show ?case
  proof (cases p)
    case (Push bs)
    with Cons.prems IH show ?thesis by (simp add: push_pending push_unacked)
  next
    case (Finish n)
    with Cons.prems IH show ?thesis using fin_total [of b n] by (simp del: drop_append append_assoc)
  next
    case (Ack n)
    with Cons.prems IH show ?thesis by (auto simp: ack_pending ack_unacked add.commute)
  qed
qed

end

interpretation ring: byte_pipe rb_inv rb_readable rb_inflight rb_free rb_push
  hev_ring_buffer_read_finish hev_ring_buffer_read_release
  by unfold_locales (simp_all add: rb_push_inv rb_push_abs rb_read_finish_inv rb_read_finish_abs
      rb_read_release_inv rb_read_release_abs)

section \<open>Properties\<close>

lemmas ring_eval = hev_ring_buffer_alloca_def hev_ring_buffer_read_finish_def
  hev_ring_buffer_read_release_def hev_ring_buffer_writing_def hev_ring_buffer_write_finish_def
  rb_push_def rb_free_def rb_readable_def rb_inflight_def rb_live_def rb_base_def ring_slice_def
  sz_add_def sz_sub_def SIZE_MOD_def Let_def upt_rec write_at_def iov_size_def

text \<open>
  C1. Every sequence of receive, hand-out and acknowledge operations within their bounds,
  from a freshly allocated buffer of any admissible size, keeps the buffer's invariant and
  delivers the received byte stream in order: what is still in the buffer (bytes handed to
  \<open>tcp_write\<close> without a copy and not yet acknowledged, then bytes not yet handed out) is
  exactly the received stream without its acknowledged prefix. No byte is lost, repeated,
  reordered or overwritten before its acknowledgement, across any number of wrap-arounds.
\<close>

theorem ring_buffer_stream:
  assumes "0 < s" and "2 * s < SIZE_MOD" and "length d = s"
    and "ring_run_ok (hev_ring_buffer_alloca s d) ps"
  shows "rb_inv (ring_run (hev_ring_buffer_alloca s d) ps) \<and>
    rb_live (ring_run (hev_ring_buffer_alloca s d) ps) = drop (ack_total ps) (pushed ps)"
proof -
  have i: "rb_inv (hev_ring_buffer_alloca s d)" using assms(1-3) by (rule rb_inv_alloca)
  show ?thesis
    using ring.run_inv [OF i, of ps] ring.run_stream [OF i, of ps] assms(4)
    by (simp add: rb_live_split ring_run_def ring_run_ok_def)
qed

theorem ring_buffer_stream_witness:
  "rb_live (ring_run (hev_ring_buffer_alloca 4 [0,0,0,0])
     [Push [1,2,3], Finish 2, Ack 2, Push [4,5,6], Finish 3, Ack 1]) = [4,5,6]"
proof -
  let ?ps = "[Push [1,2,3], Finish 2, Ack 2, Push [4,5,6], Finish 3, Ack 1] :: u8 pipe_op list"
  have "ring_run_ok (hev_ring_buffer_alloca 4 [0,0,0,0]) ?ps"
    by (simp add: ring_run_ok_def ring_eval)
  from ring_buffer_stream [OF _ _ _ this] show ?thesis
    by (simp add: SIZE_MOD_def)
qed

text \<open>The vectors \<open>hev_ring_buffer_writing\<close> offers to \<open>readv\<close> cover exactly the free bytes,
  and receiving any bytes that fit into them leaves every byte in flight and every readable
  byte as it was, with the new bytes appended to the readable ones.
\<close>

lemma ring_buffer_receive:
  assumes "rb_inv b" and "length bs \<le> iov_size (hev_ring_buffer_writing b)"
  shows "rb_inv (rb_push b bs) \<and> iov_size (hev_ring_buffer_writing b) = max_size b - use_size b \<and>
    rb_inflight (rb_push b bs) = rb_inflight b \<and> rb_readable (rb_push b bs) = rb_readable b @ bs"
  using rb_push_inv rb_push_abs assms rb_writing_size [OF assms(1)] by (simp add: rb_free_def)

end
