(* ===== verification/HevList.thy ===== *)
theory HevList
  imports Prelude
begin

text \<open>
  The intrusive doubly linked list of \<open>misc/hev-list.c\<close> (session set, datagram queues, the
  LRU order of the mapped DNS). Nodes live in a heap of link fields indexed by the address
  of the enclosing object; an access to an address that holds no node is \<open>None\<close>, so a
  theorem that an operation returns \<open>Some\<close> also says that it follows no bad pointer.
\<close>

section \<open>The code\<close>

record HevListNode =
  l_next :: addr
  l_prev :: addr

record HevList =
  head :: addr
  tail :: addr
  lnodes :: "addr \<rightharpoonup> HevListNode"

definition set_next :: "HevList \<Rightarrow> addr \<Rightarrow> addr \<Rightarrow> HevList option" where
  "set_next s p v = do { n \<leftarrow> lnodes s p; Some (s\<lparr>lnodes := (lnodes s)(p \<mapsto> n\<lparr>l_next := v\<rparr>)\<rparr>) }"

definition set_prev :: "HevList \<Rightarrow> addr \<Rightarrow> addr \<Rightarrow> HevList option" where
  "set_prev s p v = do { n \<leftarrow> lnodes s p; Some (s\<lparr>lnodes := (lnodes s)(p \<mapsto> n\<lparr>l_prev := v\<rparr>)\<rparr>) }"

definition hev_list_node_prev :: "HevList \<Rightarrow> addr \<Rightarrow> addr option" where
  "hev_list_node_prev s p = map_option l_prev (lnodes s p)"

definition hev_list_node_next :: "HevList \<Rightarrow> addr \<Rightarrow> addr option" where
  "hev_list_node_next s p = map_option l_next (lnodes s p)"

definition hev_list_first :: "HevList \<Rightarrow> addr" where
  "hev_list_first s = head s"

definition hev_list_last :: "HevList \<Rightarrow> addr" where
  "hev_list_last s = tail s"

definition hev_list_add_tail :: "HevList \<Rightarrow> addr \<Rightarrow> HevList option" where
  "hev_list_add_tail self nw = do {
     self \<leftarrow> set_prev self nw (tail self);
     self \<leftarrow> set_next self nw 0;
     self \<leftarrow> (if tail self \<noteq> 0 then set_next self (tail self) nw
             else Some (self\<lparr>head := nw\<rparr>));
     Some (self\<lparr>tail := nw\<rparr>) }"

definition hev_list_del :: "HevList \<Rightarrow> addr \<Rightarrow> HevList option" where
  "hev_list_del self node = do {
     p \<leftarrow> hev_list_node_prev self node;
     n \<leftarrow> hev_list_node_next self node;
     self \<leftarrow> (if p \<noteq> 0 then set_next self p n else Some (self\<lparr>head := n\<rparr>));
     n \<leftarrow> hev_list_node_next self node;
     p \<leftarrow> hev_list_node_prev self node;
     (if n \<noteq> 0 then set_prev self n p else Some (self\<lparr>tail := p\<rparr>)) }"

section \<open>Abstraction to a list of addresses\<close>

definition hd0 :: "addr list \<Rightarrow> addr \<Rightarrow> addr" where
  "hd0 xs n = (case xs of [] \<Rightarrow> n | x # _ \<Rightarrow> x)"

definition last0 :: "addr list \<Rightarrow> addr \<Rightarrow> addr" where
  "last0 xs p = (if xs = [] then p else last xs)"

fun lseg :: "(addr \<rightharpoonup> HevListNode) \<Rightarrow> addr \<Rightarrow> addr list \<Rightarrow> addr \<Rightarrow> bool" where
  "lseg h p [] n = True"
| "lseg h p (x # xs) n \<longleftrightarrow>
     x \<noteq> 0 \<and> h x = Some \<lparr>l_next = hd0 xs n, l_prev = p\<rparr> \<and> lseg h x xs n"

definition list_rep :: "HevList \<Rightarrow> addr list \<Rightarrow> bool" where
  "list_rep s xs \<longleftrightarrow> distinct xs \<and> head s = hd0 xs 0 \<and> tail s = last0 xs 0 \<and> lseg (lnodes s) 0 xs 0"

lemma hd0_simps [simp]: "hd0 [] n = n" "hd0 (x # xs) n = x" "hd0 (xs @ ys) n = hd0 xs (hd0 ys n)"
  by (auto simp: hd0_def split: list.splits)

lemma last0_simps [simp]:
  "last0 [] p = p" "last0 (x # xs) p = last0 xs x" "last0 (xs @ [y]) p = y"
  "last0 (xs @ ys) p = last0 ys (last0 xs p)"
  by (auto simp: last0_def)

lemma lseg_append [simp]:
  "lseg h p (xs @ ys) n \<longleftrightarrow> lseg h p xs (hd0 ys n) \<and> lseg h (last0 xs p) ys n"
  by (induction xs arbitrary: p) auto

lemma lseg_nonzero: "lseg h p xs n \<Longrightarrow> 0 \<notin> set xs"
  by (induction xs arbitrary: p) auto

lemma lseg_frame [simp]: "a \<notin> set xs \<Longrightarrow> lseg (h(a := v)) p xs n = lseg h p xs n"
  by (induction xs arbitrary: p) auto

lemma list_rep_nonzero: "list_rep s xs \<Longrightarrow> x \<in> set xs \<Longrightarrow> x \<noteq> 0"
  unfolding list_rep_def using lseg_nonzero by blast

lemma list_rep_empty [simp]: "list_rep \<lparr>head = 0, tail = 0, lnodes = h\<rparr> []"
  by (simp add: list_rep_def)

lemma list_rep_first: "list_rep s xs \<Longrightarrow> hev_list_first s = hd0 xs 0"
  by (simp add: list_rep_def hev_list_first_def)

lemma list_rep_first_0: "list_rep s xs \<Longrightarrow> hev_list_first s = 0 \<longleftrightarrow> xs = []"
  by (cases xs) (auto simp: list_rep_def hev_list_first_def)

lemma list_rep_next:
  assumes "list_rep s (xs @ x # ys)"
  shows "hev_list_node_next s x = Some (hd0 ys 0)"
  using assms by (simp add: list_rep_def hev_list_node_next_def)

lemma list_rep_dom: "list_rep s xs \<Longrightarrow> x \<in> set xs \<Longrightarrow> x \<in> dom (lnodes s)"
  by (auto simp: list_rep_def in_set_conv_decomp)

lemma add_tail_rep:
  assumes "list_rep s xs" and "x \<noteq> 0" and "x \<notin> set xs" and "x \<in> dom (lnodes s)"
  shows "\<exists>s'. hev_list_add_tail s x = Some s' \<and> list_rep s' (xs @ [x]) \<and>
    dom (lnodes s') = dom (lnodes s) \<and>
    (\<forall>a. a \<notin> set xs \<union> {x} \<longrightarrow> lnodes s' a = lnodes s a)"
proof (cases xs rule: rev_cases)
  case Nil
  with assms show ?thesis
    by (auto simp: hev_list_add_tail_def list_rep_def set_next_def set_prev_def)
next
  case (snoc ys y)
  with assms have "y \<noteq> 0" "y \<noteq> x" "y \<notin> set ys" "x \<notin> set ys"
    by (auto dest: list_rep_nonzero simp: list_rep_def)
  with snoc assms show ?thesis
    by (auto simp: hev_list_add_tail_def list_rep_def set_next_def set_prev_def)
qed

lemma del_rep:
  assumes "list_rep s (xs @ x # ys)"
  shows "\<exists>s'. hev_list_del s x = Some s' \<and> list_rep s' (xs @ ys) \<and> lnodes s' x = lnodes s x \<and>
    dom (lnodes s') = dom (lnodes s) \<and>
    (\<forall>a. a \<notin> set (xs @ ys) \<longrightarrow> lnodes s' a = lnodes s a)"
proof -
  have nz: "\<And>z. z \<in> set (xs @ x # ys) \<Longrightarrow> z \<noteq> 0"
    using assms by (rule list_rep_nonzero)
  note defs = hev_list_del_def list_rep_def set_next_def set_prev_def
    hev_list_node_next_def hev_list_node_prev_def
  show ?thesis
  proof (cases xs rule: rev_cases)
    case xs: Nil
    show ?thesis
    proof (cases ys)
      case Nil
      with xs assms show ?thesis by (auto simp: defs)
    next
      case (Cons z zs)
      with xs assms nz [of z] show ?thesis by (auto simp: defs)
    qed
  next
    case xs: (snoc us u)
    show ?thesis
    proof (cases ys)
      case Nil
      with xs assms nz [of u] show ?thesis by (auto simp: defs)
    next
      case (Cons z zs)
      with xs assms nz [of u] nz [of z] show ?thesis by (auto simp: defs)
    qed
  qed
qed

lemma del_rep_remove1:
  assumes "list_rep s xs" and "x \<in> set xs"
  shows "\<exists>s'. hev_list_del s x = Some s' \<and> list_rep s' (remove1 x xs) \<and> lnodes s' x = lnodes s x \<and>
    dom (lnodes s') = dom (lnodes s) \<and>
    (\<forall>a. a \<notin> set xs \<longrightarrow> lnodes s' a = lnodes s a)"
proof -
  obtain us vs where xs: "xs = us @ x # vs" and "x \<notin> set us"
    using assms(2) by (meson split_list_first)
  then have "remove1 x xs = us @ vs" by (simp add: remove1_append)
  then show ?thesis using del_rep [of s us x vs] assms(1) xs by auto
qed

section \<open>The contract of a queue of nodes\<close>

locale node_queue =
  fixes qrep :: "'s \<Rightarrow> addr list \<Rightarrow> bool"
    and alive :: "'s \<Rightarrow> addr set"
    and add_tail :: "'s \<Rightarrow> addr \<Rightarrow> 's option"
    and del :: "'s \<Rightarrow> addr \<Rightarrow> 's option"
  assumes rep_law: "qrep s xs \<Longrightarrow> distinct xs \<and> set xs \<subseteq> alive s - {0}"
    and add_law: "qrep s xs \<Longrightarrow> x \<in> alive s - {0} - set xs \<Longrightarrow>
      \<exists>s'. add_tail s x = Some s' \<and> qrep s' (xs @ [x]) \<and> alive s' = alive s"
    and del_law: "qrep s xs \<Longrightarrow> x \<in> set xs \<Longrightarrow>
      \<exists>s'. del s x = Some s' \<and> qrep s' (remove1 x xs) \<and> alive s' = alive s"
begin

lemma move_to_tail:
  assumes "qrep s xs" "x \<in> set xs"
  shows "\<exists>s1 s2. del s x = Some s1 \<and> add_tail s1 x = Some s2 \<and> qrep s2 (remove1 x xs @ [x])"
proof -
  obtain s1 where s1: "del s x = Some s1" "qrep s1 (remove1 x xs)" "alive s1 = alive s"
    using del_law [OF assms] by blast
  have "x \<in> alive s1 - {0} - set (remove1 x xs)" using rep_law [OF assms(1)] assms(2) s1(3) by auto
  then show ?thesis using add_law [OF s1(2)] s1(1) by blast
qed

lemma replace_oldest:
  assumes "qrep s (x # xs)" "y \<in> alive s - {0} - set (x # xs)"
  shows "\<exists>s1 s2. add_tail s y = Some s1 \<and> del s1 x = Some s2 \<and> qrep s2 (xs @ [y])"
proof -
  obtain s1 where "add_tail s y = Some s1" "qrep s1 (x # xs @ [y])" using add_law [OF assms] by auto
  then show ?thesis using del_law [of s1 "x # xs @ [y]" x] by auto
qed

end

interpretation hq: node_queue list_rep "\<lambda>s. dom (lnodes s)" hev_list_add_tail hev_list_del
proof
  fix s xs
  show "list_rep s xs \<Longrightarrow> distinct xs \<and> set xs \<subseteq> dom (lnodes s) - {0}"
    using list_rep_nonzero [of s xs] list_rep_dom [of s xs] list_rep_def [of s xs] by blast
next
  fix s xs x
  show "list_rep s xs \<Longrightarrow> x \<in> dom (lnodes s) - {0} - set xs \<Longrightarrow>
      \<exists>s'. hev_list_add_tail s x = Some s' \<and> list_rep s' (xs @ [x]) \<and> dom (lnodes s') = dom (lnodes s)"
    using add_tail_rep [of s xs x] by blast
next
  fix s xs x
  show "list_rep s xs \<Longrightarrow> x \<in> set xs \<Longrightarrow>
      \<exists>s'. hev_list_del s x = Some s' \<and> list_rep s' (remove1 x xs) \<and> dom (lnodes s') = dom (lnodes s)"
    using del_rep_remove1 [of s xs x] by blast
qed

end
