(* ===== verification/HevRBTree.thy ===== *)
theory HevRBTree
  imports Prelude
begin

text \<open>
  The red-black tree of \<open>core/src/hev-rbtree.c\<close>, on a heap of nodes indexed by address, with
  the parent pointer and the colour packed into one word as in the source. An access to an
  address that holds no node (the null pointer included) is \<open>None\<close>, and so is running out of
  fuel in a loop; the theorems of \<open>RBTreeInsert\<close> and \<open>RBTreeErase\<close> show \<open>Some\<close>.
\<close>

section \<open>Nodes and trees\<close>

record HevRBTreeNode =
  parent_color :: addr
  n_right :: addr
  n_left :: addr

record HevRBTree =
  root :: addr
  nodes :: "addr \<rightharpoonup> HevRBTreeNode"

definition HEV_RBTREE_RED :: addr where "HEV_RBTREE_RED = 0"
definition HEV_RBTREE_BLACK :: addr where "HEV_RBTREE_BLACK = 1"

subsection \<open>Field accesses\<close>

definition get_pc :: "HevRBTree \<Rightarrow> addr \<Rightarrow> addr option" where
  "get_pc s p = map_option parent_color (nodes s p)"

definition get_left :: "HevRBTree \<Rightarrow> addr \<Rightarrow> addr option" where
  "get_left s p = map_option n_left (nodes s p)"

definition get_right :: "HevRBTree \<Rightarrow> addr \<Rightarrow> addr option" where
  "get_right s p = map_option n_right (nodes s p)"

definition set_pc :: "HevRBTree \<Rightarrow> addr \<Rightarrow> addr \<Rightarrow> HevRBTree option" where
  "set_pc s p v =
     do { n \<leftarrow> nodes s p; Some (s\<lparr>nodes := (nodes s)(p \<mapsto> n\<lparr>parent_color := v\<rparr>)\<rparr>) }"

definition set_left :: "HevRBTree \<Rightarrow> addr \<Rightarrow> addr \<Rightarrow> HevRBTree option" where
  "set_left s p v = do { n \<leftarrow> nodes s p; Some (s\<lparr>nodes := (nodes s)(p \<mapsto> n\<lparr>n_left := v\<rparr>)\<rparr>) }"

definition set_right :: "HevRBTree \<Rightarrow> addr \<Rightarrow> addr \<Rightarrow> HevRBTree option" where
  "set_right s p v = do { n \<leftarrow> nodes s p; Some (s\<lparr>nodes := (nodes s)(p \<mapsto> n\<lparr>n_right := v\<rparr>)\<rparr>) }"

subsection \<open>Inline helpers\<close>

definition hev_rbtree_node_color :: "HevRBTree \<Rightarrow> addr \<Rightarrow> addr option" where
  "hev_rbtree_node_color s node = do { pc \<leftarrow> get_pc s node; Some (pc AND 1) }"

definition hev_rbtree_node_is_red :: "HevRBTree \<Rightarrow> addr \<Rightarrow> bool option" where
  "hev_rbtree_node_is_red s node =
     do { c \<leftarrow> hev_rbtree_node_color s node; Some (c AND HEV_RBTREE_BLACK = 0) }"

definition hev_rbtree_node_is_black :: "HevRBTree \<Rightarrow> addr \<Rightarrow> bool option" where
  "hev_rbtree_node_is_black s node =
     do { c \<leftarrow> hev_rbtree_node_color s node; Some (c AND HEV_RBTREE_BLACK \<noteq> 0) }"

definition pc_is_black :: "addr \<Rightarrow> bool" where
  "pc_is_black pc \<longleftrightarrow> pc AND HEV_RBTREE_BLACK \<noteq> 0"

definition pc_parent :: "addr \<Rightarrow> addr" where
  "pc_parent pc = pc AND NOT 3"

definition hev_rbtree_node_parent :: "HevRBTree \<Rightarrow> addr \<Rightarrow> addr option" where
  "hev_rbtree_node_parent s node = do { pc \<leftarrow> get_pc s node; Some (pc AND NOT 3) }"

definition hev_rbtree_node_red_parent :: "HevRBTree \<Rightarrow> addr \<Rightarrow> addr option" where
  "hev_rbtree_node_red_parent s node = get_pc s node"

definition hev_rbtree_node_empty :: "HevRBTree \<Rightarrow> addr \<Rightarrow> bool option" where
  "hev_rbtree_node_empty s node = do { pc \<leftarrow> get_pc s node; Some (pc = node) }"

definition hev_rbtree_node_set_black :: "HevRBTree \<Rightarrow> addr \<Rightarrow> HevRBTree option" where
  "hev_rbtree_node_set_black s node =
     do { pc \<leftarrow> get_pc s node; set_pc s node (pc OR HEV_RBTREE_BLACK) }"

definition hev_rbtree_node_set_parent :: "HevRBTree \<Rightarrow> addr \<Rightarrow> addr \<Rightarrow> HevRBTree option" where
  "hev_rbtree_node_set_parent s node parent =
     do { c \<leftarrow> hev_rbtree_node_color s node; set_pc s node (c OR parent) }"

definition hev_rbtree_node_set_parent_color ::
  "HevRBTree \<Rightarrow> addr \<Rightarrow> addr \<Rightarrow> addr \<Rightarrow> HevRBTree option" where
  "hev_rbtree_node_set_parent_color s node parent color = set_pc s node (parent OR color)"

definition hev_rbtree_change_child ::
  "HevRBTree \<Rightarrow> addr \<Rightarrow> addr \<Rightarrow> addr \<Rightarrow> HevRBTree option" where
  "hev_rbtree_change_child self old nw parent =
     (if parent \<noteq> 0 then do {
        l \<leftarrow> get_left self parent;
        (if l = old then set_left self parent nw else set_right self parent nw) }
      else Some (self\<lparr>root := nw\<rparr>))"

definition hev_rbtree_rotate_set_parents ::
  "HevRBTree \<Rightarrow> addr \<Rightarrow> addr \<Rightarrow> addr \<Rightarrow> HevRBTree option" where
  "hev_rbtree_rotate_set_parents self old nw color = do {
     parent \<leftarrow> hev_rbtree_node_parent self old;
     opc \<leftarrow> get_pc self old;
     self \<leftarrow> set_pc self nw opc;
     self \<leftarrow> hev_rbtree_node_set_parent_color self old nw color;
     hev_rbtree_change_child self old nw parent }"

text \<open>\<open>hev_rbtree_node_link\<close> stores the new node in the link its caller found: the root, or
  the left or right field of the parent.\<close>

datatype link = RootLink | LeftLink addr | RightLink addr

fun store_link :: "HevRBTree \<Rightarrow> link \<Rightarrow> addr \<Rightarrow> HevRBTree option" where
  "store_link s RootLink v = Some (s\<lparr>root := v\<rparr>)"
| "store_link s (LeftLink p) v = set_left s p v"
| "store_link s (RightLink p) v = set_right s p v"

fun load_link :: "HevRBTree \<Rightarrow> link \<Rightarrow> addr option" where
  "load_link s RootLink = Some (root s)"
| "load_link s (LeftLink p) = get_left s p"
| "load_link s (RightLink p) = get_right s p"

definition hev_rbtree_node_link :: "HevRBTree \<Rightarrow> addr \<Rightarrow> addr \<Rightarrow> link \<Rightarrow> HevRBTree option" where
  "hev_rbtree_node_link s node parent lnk = do {
     s \<leftarrow> set_pc s node parent;
     s \<leftarrow> set_right s node 0;
     s \<leftarrow> set_left s node 0;
     store_link s lnk node }"

section \<open>Traversal\<close>

fun go_left :: "nat \<Rightarrow> HevRBTree \<Rightarrow> addr \<Rightarrow> addr option" where
  "go_left 0 s n = None"
| "go_left (Suc f) s n = do { l \<leftarrow> get_left s n; if l \<noteq> 0 then go_left f s l else Some n }"

fun go_right :: "nat \<Rightarrow> HevRBTree \<Rightarrow> addr \<Rightarrow> addr option" where
  "go_right 0 s n = None"
| "go_right (Suc f) s n = do { r \<leftarrow> get_right s n; if r \<noteq> 0 then go_right f s r else Some n }"

definition hev_rbtree_first :: "nat \<Rightarrow> HevRBTree \<Rightarrow> addr option" where
  "hev_rbtree_first fuel self = (let n = root self in if n = 0 then Some 0 else go_left fuel self n)"

definition hev_rbtree_last :: "nat \<Rightarrow> HevRBTree \<Rightarrow> addr option" where
  "hev_rbtree_last fuel self = (let n = root self in if n = 0 then Some 0 else go_right fuel self n)"

fun up_from_left :: "nat \<Rightarrow> HevRBTree \<Rightarrow> addr \<Rightarrow> addr option" where
  "up_from_left 0 s node = None"
| "up_from_left (Suc f) s node = do {
     parent \<leftarrow> hev_rbtree_node_parent s node;
     if parent = 0 then Some 0 else do {
       l \<leftarrow> get_left s parent;
       if node = l then up_from_left f s parent else Some parent } }"

fun up_from_right :: "nat \<Rightarrow> HevRBTree \<Rightarrow> addr \<Rightarrow> addr option" where
  "up_from_right 0 s node = None"
| "up_from_right (Suc f) s node = do {
     parent \<leftarrow> hev_rbtree_node_parent s node;
     if parent = 0 then Some 0 else do {
       r \<leftarrow> get_right s parent;
       if node = r then up_from_right f s parent else Some parent } }"

definition hev_rbtree_node_prev :: "nat \<Rightarrow> HevRBTree \<Rightarrow> addr \<Rightarrow> addr option" where
  "hev_rbtree_node_prev fuel s node = do {
     e \<leftarrow> hev_rbtree_node_empty s node;
     if e then Some 0 else do {
       l \<leftarrow> get_left s node;
       if l \<noteq> 0 then go_right fuel s l else up_from_left fuel s node } }"

definition hev_rbtree_node_next :: "nat \<Rightarrow> HevRBTree \<Rightarrow> addr \<Rightarrow> addr option" where
  "hev_rbtree_node_next fuel s node = do {
     e \<leftarrow> hev_rbtree_node_empty s node;
     if e then Some 0 else do {
       r \<leftarrow> get_right s node;
       if r \<noteq> 0 then go_left fuel s r else up_from_right fuel s node } }"

section \<open>Insertion\<close>

text \<open>One iteration of the loop is followed by the next with one unit of fuel less.\<close>

fun insert_color_loop :: "nat \<Rightarrow> HevRBTree \<Rightarrow> addr \<Rightarrow> addr \<Rightarrow> HevRBTree option" where
  "insert_color_loop 0 s node parent = None"
| "insert_color_loop (Suc fuel) s node parent =
    (if parent = 0 then hev_rbtree_node_set_parent_color s node 0 HEV_RBTREE_BLACK
     else do {
       pb \<leftarrow> hev_rbtree_node_is_black s parent;
       if pb then Some s else do {
         gparent \<leftarrow> hev_rbtree_node_red_parent s parent;
         tmp \<leftarrow> get_right s gparent;
         if parent \<noteq> tmp then do {
           ur \<leftarrow> (if tmp \<noteq> 0 then hev_rbtree_node_is_red s tmp else Some False);
           if ur then do {
             s \<leftarrow> hev_rbtree_node_set_parent_color s tmp gparent HEV_RBTREE_BLACK;
             s \<leftarrow> hev_rbtree_node_set_parent_color s parent gparent HEV_RBTREE_BLACK;
             parent \<leftarrow> hev_rbtree_node_parent s gparent;
             s \<leftarrow> hev_rbtree_node_set_parent_color s gparent parent HEV_RBTREE_RED;
             insert_color_loop fuel s gparent parent }
           else do {
             tmp \<leftarrow> get_right s parent;
             (s, parent, tmp) \<leftarrow> (if node = tmp then do {
               tmp \<leftarrow> get_left s node;
               s \<leftarrow> set_right s parent tmp;
               s \<leftarrow> set_left s node parent;
               s \<leftarrow> (if tmp \<noteq> 0 then hev_rbtree_node_set_parent_color s tmp parent HEV_RBTREE_BLACK
                    else Some s);
               s \<leftarrow> hev_rbtree_node_set_parent_color s parent node HEV_RBTREE_RED;
               tmp \<leftarrow> get_right s node;
               Some (s, node, tmp) } else Some (s, parent, tmp));
             s \<leftarrow> set_left s gparent tmp;
             s \<leftarrow> set_right s parent gparent;
             s \<leftarrow> (if tmp \<noteq> 0 then hev_rbtree_node_set_parent_color s tmp gparent HEV_RBTREE_BLACK
                  else Some s);
             hev_rbtree_rotate_set_parents s gparent parent HEV_RBTREE_RED } }
         else do {
           tmp \<leftarrow> get_left s gparent;
           ur \<leftarrow> (if tmp \<noteq> 0 then hev_rbtree_node_is_red s tmp else Some False);
           if ur then do {
             s \<leftarrow> hev_rbtree_node_set_parent_color s tmp gparent HEV_RBTREE_BLACK;
             s \<leftarrow> hev_rbtree_node_set_parent_color s parent gparent HEV_RBTREE_BLACK;
             parent \<leftarrow> hev_rbtree_node_parent s gparent;
             s \<leftarrow> hev_rbtree_node_set_parent_color s gparent parent HEV_RBTREE_RED;
             insert_color_loop fuel s gparent parent }
           else do {
             tmp \<leftarrow> get_left s parent;
             (s, parent, tmp) \<leftarrow> (if node = tmp then do {
               tmp \<leftarrow> get_right s node;
               s \<leftarrow> set_left s parent tmp;
               s \<leftarrow> set_right s node parent;
               s \<leftarrow> (if tmp \<noteq> 0 then hev_rbtree_node_set_parent_color s tmp parent HEV_RBTREE_BLACK
                    else Some s);
               s \<leftarrow> hev_rbtree_node_set_parent_color s parent node HEV_RBTREE_RED;
               tmp \<leftarrow> get_left s node;
               Some (s, node, tmp) } else Some (s, parent, tmp));
             s \<leftarrow> set_right s gparent tmp;
             s \<leftarrow> set_left s parent gparent;
             s \<leftarrow> (if tmp \<noteq> 0 then hev_rbtree_node_set_parent_color s tmp gparent HEV_RBTREE_BLACK
                  else Some s);
             hev_rbtree_rotate_set_parents s gparent parent HEV_RBTREE_RED } } } })"

definition hev_rbtree_insert_color :: "nat \<Rightarrow> HevRBTree \<Rightarrow> addr \<Rightarrow> HevRBTree option" where
  "hev_rbtree_insert_color fuel self node = do {
     parent \<leftarrow> hev_rbtree_node_red_parent self node;
     insert_color_loop fuel self node parent }"

section \<open>Replacement and removal\<close>

definition hev_rbtree_replace :: "HevRBTree \<Rightarrow> addr \<Rightarrow> addr \<Rightarrow> HevRBTree option" where
  "hev_rbtree_replace self victim nw = do {
     parent \<leftarrow> hev_rbtree_node_parent self victim;
     v \<leftarrow> nodes self victim;
     _ \<leftarrow> nodes self nw;
     self \<leftarrow> Some (self\<lparr>nodes := (nodes self)(nw \<mapsto> v)\<rparr>);
     l \<leftarrow> get_left self victim;
     self \<leftarrow> (if l \<noteq> 0 then hev_rbtree_node_set_parent self l nw else Some self);
     r \<leftarrow> get_right self victim;
     self \<leftarrow> (if r \<noteq> 0 then hev_rbtree_node_set_parent self r nw else Some self);
     hev_rbtree_change_child self victim nw parent }"

text \<open>The \<open>do ... while (tmp)\<close> loop that finds the successor and its parent.\<close>

fun successor_loop :: "nat \<Rightarrow> HevRBTree \<Rightarrow> addr \<Rightarrow> addr \<Rightarrow> (addr \<times> addr) option" where
  "successor_loop 0 s successor tmp = None"
| "successor_loop (Suc fuel) s successor tmp = do {
     tmp' \<leftarrow> get_left s tmp;
     if tmp' \<noteq> 0 then successor_loop fuel s tmp tmp' else Some (successor, tmp) }"

definition erase_node :: "nat \<Rightarrow> HevRBTree \<Rightarrow> addr \<Rightarrow> (HevRBTree \<times> addr) option" where
  "erase_node fuel self node = do {
     child \<leftarrow> get_right self node;
     tmp \<leftarrow> get_left self node;
     if tmp = 0 then do {
       pc \<leftarrow> get_pc self node;
       let parent = pc_parent pc;
       self \<leftarrow> hev_rbtree_change_child self node child parent;
       if child \<noteq> 0 then do { self \<leftarrow> set_pc self child pc; Some (self, 0) }
       else Some (self, if pc_is_black pc then parent else 0) }
     else if child = 0 then do {
       pc \<leftarrow> get_pc self node;
       self \<leftarrow> set_pc self tmp pc;
       let parent = pc_parent pc;
       self \<leftarrow> hev_rbtree_change_child self node tmp parent;
       Some (self, 0) }
     else do {
       tmp \<leftarrow> get_left self child;
       (self, successor, parent, child2) \<leftarrow> (if tmp = 0 then do {
           child2 \<leftarrow> get_right self child;
           Some (self, child, child, child2) }
         else do {
           (parent, successor) \<leftarrow> successor_loop fuel self child tmp;
           child2 \<leftarrow> get_right self successor;
           self \<leftarrow> set_left self parent child2;
           self \<leftarrow> set_right self successor child;
           self \<leftarrow> hev_rbtree_node_set_parent self child successor;
           Some (self, successor, parent, child2) });
       tmp \<leftarrow> get_left self node;
       self \<leftarrow> set_left self successor tmp;
       self \<leftarrow> hev_rbtree_node_set_parent self tmp successor;
       pc \<leftarrow> get_pc self node;
       let tmp = pc_parent pc;
       self \<leftarrow> hev_rbtree_change_child self node successor tmp;
       (self, rebalance) \<leftarrow> (if child2 \<noteq> 0 then do {
           self \<leftarrow> hev_rbtree_node_set_parent_color self child2 parent HEV_RBTREE_BLACK;
           Some (self, 0) }
         else do {
           sb \<leftarrow> hev_rbtree_node_is_black self successor;
           Some (self, if sb then parent else 0) });
       self \<leftarrow> set_pc self successor pc;
       Some (self, rebalance) } }"

text \<open>A child counts as black when it is absent or coloured black.\<close>

definition null_or_black :: "HevRBTree \<Rightarrow> addr \<Rightarrow> bool option" where
  "null_or_black s p = (if p = 0 then Some True else hev_rbtree_node_is_black s p)"

fun erase_color_loop :: "nat \<Rightarrow> HevRBTree \<Rightarrow> addr \<Rightarrow> addr \<Rightarrow> HevRBTree option" where
  "erase_color_loop 0 s node parent = None"
| "erase_color_loop (Suc fuel) s node parent = do {
    sibling \<leftarrow> get_right s parent;
    if node \<noteq> sibling then do {
      sr \<leftarrow> hev_rbtree_node_is_red s sibling;
      (s, sibling) \<leftarrow> (if sr then do {
          tmp1 \<leftarrow> get_left s sibling;
          s \<leftarrow> set_right s parent tmp1;
          s \<leftarrow> set_left s sibling parent;
          s \<leftarrow> hev_rbtree_node_set_parent_color s tmp1 parent HEV_RBTREE_BLACK;
          s \<leftarrow> hev_rbtree_rotate_set_parents s parent sibling HEV_RBTREE_RED;
          Some (s, tmp1) } else Some (s, sibling));
      tmp1 \<leftarrow> get_right s sibling;
      b1 \<leftarrow> null_or_black s tmp1;
      tmp2 \<leftarrow> (if b1 then get_left s sibling else Some 0);
      b2 \<leftarrow> (if b1 then null_or_black s tmp2 else Some False);
      if b1 \<and> b2 then do {
        s \<leftarrow> hev_rbtree_node_set_parent_color s sibling parent HEV_RBTREE_RED;
        pr \<leftarrow> hev_rbtree_node_is_red s parent;
        if pr then hev_rbtree_node_set_black s parent
        else do {
          let node = parent;
          parent \<leftarrow> hev_rbtree_node_parent s node;
          if parent \<noteq> 0 then erase_color_loop fuel s node parent else Some s } }
      else do {
        (s, tmp1, sibling) \<leftarrow> (if b1 then do {
            tmp1 \<leftarrow> get_right s tmp2;
            s \<leftarrow> set_left s sibling tmp1;
            s \<leftarrow> set_right s tmp2 sibling;
            s \<leftarrow> set_right s parent tmp2;
            s \<leftarrow> (if tmp1 \<noteq> 0 then hev_rbtree_node_set_parent_color s tmp1 sibling HEV_RBTREE_BLACK
                 else Some s);
            Some (s, sibling, tmp2) } else Some (s, tmp1, sibling));
        tmp2 \<leftarrow> get_left s sibling;
        s \<leftarrow> set_right s parent tmp2;
        s \<leftarrow> set_left s sibling parent;
        s \<leftarrow> hev_rbtree_node_set_parent_color s tmp1 sibling HEV_RBTREE_BLACK;
        s \<leftarrow> (if tmp2 \<noteq> 0 then hev_rbtree_node_set_parent s tmp2 parent else Some s);
        hev_rbtree_rotate_set_parents s parent sibling HEV_RBTREE_BLACK } }
    else do {
      sibling \<leftarrow> get_left s parent;
      sr \<leftarrow> hev_rbtree_node_is_red s sibling;
      (s, sibling) \<leftarrow> (if sr then do {
          tmp1 \<leftarrow> get_right s sibling;
          s \<leftarrow> set_left s parent tmp1;
          s \<leftarrow> set_right s sibling parent;
          s \<leftarrow> hev_rbtree_node_set_parent_color s tmp1 parent HEV_RBTREE_BLACK;
          s \<leftarrow> hev_rbtree_rotate_set_parents s parent sibling HEV_RBTREE_RED;
          Some (s, tmp1) } else Some (s, sibling));
      tmp1 \<leftarrow> get_left s sibling;
      b1 \<leftarrow> null_or_black s tmp1;
      tmp2 \<leftarrow> (if b1 then get_right s sibling else Some 0);
      b2 \<leftarrow> (if b1 then null_or_black s tmp2 else Some False);
      if b1 \<and> b2 then do {
        s \<leftarrow> hev_rbtree_node_set_parent_color s sibling parent HEV_RBTREE_RED;
        pr \<leftarrow> hev_rbtree_node_is_red s parent;
        if pr then hev_rbtree_node_set_black s parent
        else do {
          let node = parent;
          parent \<leftarrow> hev_rbtree_node_parent s node;
          if parent \<noteq> 0 then erase_color_loop fuel s node parent else Some s } }
      else do {
        (s, tmp1, sibling) \<leftarrow> (if b1 then do {
            tmp1 \<leftarrow> get_left s tmp2;
            s \<leftarrow> set_right s sibling tmp1;
            s \<leftarrow> set_left s tmp2 sibling;
            s \<leftarrow> set_left s parent tmp2;
            s \<leftarrow> (if tmp1 \<noteq> 0 then hev_rbtree_node_set_parent_color s tmp1 sibling HEV_RBTREE_BLACK
                 else Some s);
            Some (s, sibling, tmp2) } else Some (s, tmp1, sibling));
        tmp2 \<leftarrow> get_right s sibling;
        s \<leftarrow> set_left s parent tmp2;
        s \<leftarrow> set_right s sibling parent;
        s \<leftarrow> hev_rbtree_node_set_parent_color s tmp1 sibling HEV_RBTREE_BLACK;
        s \<leftarrow> (if tmp2 \<noteq> 0 then hev_rbtree_node_set_parent s tmp2 parent else Some s);
        hev_rbtree_rotate_set_parents s parent sibling HEV_RBTREE_BLACK } } }"

definition hev_rbtree_erase :: "nat \<Rightarrow> HevRBTree \<Rightarrow> addr \<Rightarrow> HevRBTree option" where
  "hev_rbtree_erase fuel self node = do {
     (self, rebalance) \<leftarrow> erase_node fuel self node;
     if rebalance \<noteq> 0 then erase_color_loop fuel self 0 rebalance else Some self }"

declare insert_color_loop.simps(2) [simp del] erase_color_loop.simps(2) [simp del]

end
