(* ===== verification/RBTreeRep.thy ===== *)
theory RBTreeRep
  imports HevRBTree
begin

text \<open>
  Abstraction of the node heap: functional trees of addresses, one-hole contexts (the path
  from a node up to the root with the subtrees hanging off it) and the relation between a
  heap and the tree it holds. The red-black invariants are stated on the functional trees.
\<close>

section \<open>Packed parent pointers\<close>

datatype color = Red | Black

fun cbit :: "color \<Rightarrow> addr" where
  "cbit Red = 0"
| "cbit Black = 1"

text \<open>Nodes are aligned to \<open>sizeof (long)\<close>, so the two low bits of an address are free.\<close>

definition aligned :: "addr \<Rightarrow> bool" where
  "aligned p \<longleftrightarrow> p AND 3 = 0"

definition mk_pc :: "addr \<Rightarrow> color \<Rightarrow> addr" where
  "mk_pc p c = p OR cbit c"

lemma aligned_0 [simp]: "aligned 0"
  by (simp add: aligned_def)

lemma aligned_bits: "aligned p \<Longrightarrow> \<not> bit p 0 \<and> \<not> bit p (Suc 0)"
proof -
  assume "aligned p"
  then have *: "bit (p AND 3) n = False" for n by (simp add: aligned_def)
  show ?thesis using * [of 0] * [of 1] by (simp add: bit_simps bit_numeral_rec)
qed

lemma aligned_mask: "aligned p \<Longrightarrow> p AND NOT 3 = p"
  apply (rule bit_word_eqI)
  subgoal for n
    using aligned_bits [of p] by (cases n; (cases "n - 1")?) (auto simp: bit_simps bit_numeral_rec)
  done

lemma aligned_low [simp]: "aligned p \<Longrightarrow> p AND 1 = 0"
  apply (rule bit_word_eqI)
  subgoal for n
    using aligned_bits [of p] by (cases n) (auto simp: bit_simps bit_numeral_rec bit_1_iff)
  done

lemma mk_pc_parent_not: "aligned p \<Longrightarrow> mk_pc p c AND NOT 3 = p"
proof -
  assume a: "aligned p"
  have "mk_pc p c AND NOT 3 = (p AND NOT 3) OR (cbit c AND NOT 3)"
    unfolding mk_pc_def by (rule bit.conj_disj_distrib2)
  also have "cbit c AND NOT 3 = 0" by (cases c) simp_all
  finally show ?thesis using aligned_mask [OF a] by simp
qed

lemma mk_pc_parent [simp]: "aligned p \<Longrightarrow> mk_pc p c AND - 4 = p"
  using mk_pc_parent_not [of p c] by simp

lemma mk_pc_color [simp]: "aligned p \<Longrightarrow> mk_pc p c AND 1 = cbit c"
  by (cases c) (simp_all add: mk_pc_def bit.conj_disj_distrib2 aligned_low)

lemma mk_pc_Red [simp]: "mk_pc p Red = p"
  by (simp add: mk_pc_def)

lemma mk_pc_set_black [simp]: "mk_pc p c OR 1 = mk_pc p Black"
  by (cases c) (simp_all add: mk_pc_def)

lemma cbit_or [simp]: "cbit c OR p = mk_pc p c"
  by (simp add: mk_pc_def or.commute)

lemma or_cbit [simp]: "p OR cbit c = mk_pc p c"
  by (simp add: mk_pc_def)

lemma cbit_and [simp]: "cbit c AND 1 = cbit c"
  by (cases c) simp_all

lemma cbit_eq_0 [simp]: "cbit c = 0 \<longleftrightarrow> c = Red"
  by (cases c) simp_all

lemma or_color [simp]: "p OR HEV_RBTREE_BLACK = mk_pc p Black" "p OR HEV_RBTREE_RED = mk_pc p Red"
  by (simp_all add: HEV_RBTREE_BLACK_def HEV_RBTREE_RED_def mk_pc_def)

lemma and_black [simp]: "p AND HEV_RBTREE_BLACK = p AND 1"
  by (simp add: HEV_RBTREE_BLACK_def)

lemma not_Red [simp]: "c \<noteq> Red \<longleftrightarrow> c = Black"
  by (cases c) simp_all

section \<open>Trees and contexts\<close>

datatype rbt = Lf | Nd rbt color addr rbt

text \<open>A frame records the parent's colour and address and the sibling subtree; in \<open>FL\<close> the
  hole is the left child, in \<open>FR\<close> the right one. The innermost frame comes first.\<close>

datatype frame = FL color addr rbt | FR color addr rbt

type_synonym ctx = "frame list"

fun root_of :: "rbt \<Rightarrow> addr" where
  "root_of Lf = 0"
| "root_of (Nd l c a r) = a"

fun colour :: "rbt \<Rightarrow> color" where
  "colour Lf = Black"
| "colour (Nd l c a r) = c"

fun paint :: "color \<Rightarrow> rbt \<Rightarrow> rbt" where
  "paint c Lf = Lf"
| "paint c (Nd l c' a r) = Nd l c a r"

fun addrs :: "rbt \<Rightarrow> addr list" where
  "addrs Lf = []"
| "addrs (Nd l c a r) = addrs l @ a # addrs r"

fun plug :: "rbt \<Rightarrow> ctx \<Rightarrow> rbt" where
  "plug t [] = t"
| "plug t (FL c a r # k) = plug (Nd t c a r) k"
| "plug t (FR c a l # k) = plug (Nd l c a t) k"

fun frame_addr :: "frame \<Rightarrow> addr" where
  "frame_addr (FL c a t) = a"
| "frame_addr (FR c a t) = a"

definition ctx_parent :: "ctx \<Rightarrow> addr" where
  "ctx_parent k = (case k of [] \<Rightarrow> 0 | f # _ \<Rightarrow> frame_addr f)"

fun before :: "ctx \<Rightarrow> addr list" where
  "before [] = []"
| "before (FL c a r # k) = before k"
| "before (FR c a l # k) = before k @ addrs l @ [a]"

fun after :: "ctx \<Rightarrow> addr list" where
  "after [] = []"
| "after (FL c a r # k) = a # addrs r @ after k"
| "after (FR c a l # k) = after k"

lemma addrs_plug [simp]: "addrs (plug t k) = before k @ addrs t @ after k"
  by (induction t k rule: plug.induct) auto

lemma ctx_parent_simps [simp]:
  "ctx_parent [] = 0" "ctx_parent (FL c a t # k) = a" "ctx_parent (FR c a t # k) = a"
  by (simp_all add: ctx_parent_def)

lemma paint_simps [simp]:
  "addrs (paint c t) = addrs t" "root_of (paint c t) = root_of t"
  by (cases t; simp)+

lemma paint_colour [simp]: "paint (colour t) t = t"
  by (cases t) auto

lemma paint_same: "colour t = Black \<Longrightarrow> paint Black t = t"
  by (cases t) auto

section \<open>The heap holds a tree\<close>

fun rep :: "(addr \<rightharpoonup> HevRBTreeNode) \<Rightarrow> addr \<Rightarrow> rbt \<Rightarrow> bool" where
  "rep h par Lf = True"
| "rep h par (Nd l c a r) \<longleftrightarrow> a \<noteq> 0 \<and> aligned a \<and>
     h a = Some \<lparr>parent_color = mk_pc par c, n_right = root_of r, n_left = root_of l\<rparr> \<and>
     rep h a l \<and> rep h a r"

text \<open>\<open>rep_ctx h rt x k\<close>: the context \<open>k\<close> is in the heap around a subtree with root \<open>x\<close>,
  and \<open>rt\<close> is the root of the whole tree.\<close>

fun rep_ctx :: "(addr \<rightharpoonup> HevRBTreeNode) \<Rightarrow> addr \<Rightarrow> addr \<Rightarrow> ctx \<Rightarrow> bool" where
  "rep_ctx h rt x [] \<longleftrightarrow> rt = x"
| "rep_ctx h rt x (FL c a r # k) \<longleftrightarrow> a \<noteq> 0 \<and> aligned a \<and>
     h a = Some \<lparr>parent_color = mk_pc (ctx_parent k) c, n_right = root_of r, n_left = x\<rparr> \<and>
     rep h a r \<and> rep_ctx h rt a k"
| "rep_ctx h rt x (FR c a l # k) \<longleftrightarrow> a \<noteq> 0 \<and> aligned a \<and>
     h a = Some \<lparr>parent_color = mk_pc (ctx_parent k) c, n_right = x, n_left = root_of l\<rparr> \<and>
     rep h a l \<and> rep_ctx h rt a k"

definition tree_rep :: "HevRBTree \<Rightarrow> rbt \<Rightarrow> bool" where
  "tree_rep s t \<longleftrightarrow> root s = root_of t \<and> rep (nodes s) 0 t \<and> distinct (addrs t)"

definition zip_rep :: "HevRBTree \<Rightarrow> rbt \<Rightarrow> ctx \<Rightarrow> bool" where
  "zip_rep s t k \<longleftrightarrow> rep (nodes s) (ctx_parent k) t \<and> rep_ctx (nodes s) (root s) (root_of t) k \<and>
     distinct (before k @ addrs t @ after k)"

lemma rep_plug:
  "rep h 0 (plug t k) \<and> rt = root_of (plug t k) \<longleftrightarrow>
     rep h (ctx_parent k) t \<and> rep_ctx h rt (root_of t) k"
  by (induction t k rule: plug.induct) auto

lemma zip_rep_tree: "zip_rep s t k \<longleftrightarrow> tree_rep s (plug t k)"
  using rep_plug [of "nodes s" t k "root s"] by (auto simp: zip_rep_def tree_rep_def)

lemma rep_frame [simp]: "x \<notin> set (addrs t) \<Longrightarrow> rep (h(x := v)) par t = rep h par t"
  by (induction t arbitrary: par) auto

lemma rep_ctx_frame [simp]:
  "x \<notin> set (before k) \<Longrightarrow> x \<notin> set (after k) \<Longrightarrow> rep_ctx (h(x := v)) rt y k = rep_ctx h rt y k"
  by (induction h rt y k rule: rep_ctx.induct) auto

lemma rep_nonzero: "rep h par t \<Longrightarrow> 0 \<notin> set (addrs t)"
  by (induction t arbitrary: par) auto

lemma rep_ctx_nonzero: "rep_ctx h rt x k \<Longrightarrow> 0 \<notin> set (before k) \<and> 0 \<notin> set (after k)"
  by (induction h rt x k rule: rep_ctx.induct) (auto dest: rep_nonzero)

lemma tree_rep_nonzero: "tree_rep s t \<Longrightarrow> 0 \<notin> set (addrs t)"
  by (auto simp: tree_rep_def dest: rep_nonzero)

lemma rep_ctx_parent_aligned: "rep_ctx h rt x k \<Longrightarrow> aligned (ctx_parent k)"
  by (cases k rule: before.cases) auto

lemma rep_ctx_parent_0: "rep_ctx h rt x k \<Longrightarrow> ctx_parent k = 0 \<longleftrightarrow> k = []"
  by (cases k rule: before.cases) auto

lemma root_of_0: "rep h par t \<Longrightarrow> root_of t = 0 \<longleftrightarrow> t = Lf"
  by (cases t) auto

lemma root_in_addrs: "t \<noteq> Lf \<Longrightarrow> root_of t \<in> set (addrs t)"
  by (cases t) auto

lemma root_of_neq: "a \<notin> set (addrs t) \<Longrightarrow> a \<noteq> 0 \<Longrightarrow> root_of t \<noteq> a"
  by (cases t) auto

lemma root_of_disjoint:
  "rep h q t \<Longrightarrow> t \<noteq> Lf \<Longrightarrow> set (addrs x) \<inter> set (addrs t) = {} \<Longrightarrow> root_of t \<noteq> root_of x"
  by (cases t; cases x) auto

lemma rep_dom: "rep h par t \<Longrightarrow> x \<in> set (addrs t) \<Longrightarrow> x \<in> dom h"
  by (induction t arbitrary: par) auto

lemma ctx_parent_in: "k \<noteq> [] \<Longrightarrow> ctx_parent k \<in> set (before k) \<union> set (after k)"
  by (cases k rule: before.cases) auto

section \<open>Red-black invariants\<close>

fun bheight :: "rbt \<Rightarrow> nat" where
  "bheight Lf = 0"
| "bheight (Nd l c a r) = (if c = Black then Suc (bheight l) else bheight l)"

fun invc :: "rbt \<Rightarrow> bool" where
  "invc Lf = True"
| "invc (Nd l c a r) \<longleftrightarrow> (c = Red \<longrightarrow> colour l = Black \<and> colour r = Black) \<and> invc l \<and> invc r"

fun invh :: "rbt \<Rightarrow> bool" where
  "invh Lf = True"
| "invh (Nd l c a r) \<longleftrightarrow> bheight l = bheight r \<and> invh l \<and> invh r"

definition is_rbt :: "rbt \<Rightarrow> bool" where
  "is_rbt t \<longleftrightarrow> invc t \<and> invh t \<and> colour t = Black"

text \<open>\<open>ctx_inv c n k\<close>: plugging a well-formed subtree of black height \<open>n\<close> with a root of
  colour \<open>c\<close> into \<open>k\<close> gives a red-black tree.\<close>

fun ctx_inv :: "color \<Rightarrow> nat \<Rightarrow> ctx \<Rightarrow> bool" where
  "ctx_inv c n [] \<longleftrightarrow> c = Black"
| "ctx_inv c n (FL pc a s # k) \<longleftrightarrow> (pc = Red \<longrightarrow> c = Black \<and> colour s = Black) \<and>
     bheight s = n \<and> invc s \<and> invh s \<and> ctx_inv pc (if pc = Black then Suc n else n) k"
| "ctx_inv c n (FR pc a s # k) \<longleftrightarrow> (pc = Red \<longrightarrow> c = Black \<and> colour s = Black) \<and>
     bheight s = n \<and> invc s \<and> invh s \<and> ctx_inv pc (if pc = Black then Suc n else n) k"

lemma is_rbt_plug:
  "is_rbt (plug t k) \<longleftrightarrow> invc t \<and> invh t \<and> ctx_inv (colour t) (bheight t) k"
  by (induction t k rule: plug.induct) (auto simp: is_rbt_def)

lemma ctx_inv_Black: "ctx_inv c n k \<Longrightarrow> ctx_inv Black n k"
  by (cases k rule: before.cases) auto

lemma paint_Black_inv [simp]:
  "invc t \<Longrightarrow> invc (paint Black t)" "invh (paint c t) = invh t" "colour (paint Black t) = Black"
  by (cases t; simp)+

section \<open>Replacing the child of a context\<close>

lemmas rb_ops = get_pc_def get_left_def get_right_def set_pc_def set_left_def set_right_def
  hev_rbtree_node_color_def hev_rbtree_node_is_red_def hev_rbtree_node_is_black_def
  hev_rbtree_node_parent_def hev_rbtree_node_red_parent_def hev_rbtree_node_set_black_def
  hev_rbtree_node_set_parent_def hev_rbtree_node_set_parent_color_def pc_is_black_def
  pc_parent_def null_or_black_def

fun relink :: "HevRBTree \<Rightarrow> addr \<Rightarrow> ctx \<Rightarrow> HevRBTree" where
  "relink s y [] = s\<lparr>root := y\<rparr>"
| "relink s y (FL c a t # k) = s\<lparr>nodes := (nodes s)(a \<mapsto>
     \<lparr>parent_color = mk_pc (ctx_parent k) c, n_right = root_of t, n_left = y\<rparr>)\<rparr>"
| "relink s y (FR c a t # k) = s\<lparr>nodes := (nodes s)(a \<mapsto>
     \<lparr>parent_color = mk_pc (ctx_parent k) c, n_right = y, n_left = root_of t\<rparr>)\<rparr>"

lemma change_child_ctx:
  assumes "rep_ctx (nodes s) (root s) x k" and "x \<noteq> 0"
    and "x \<notin> set (before k)" and "x \<notin> set (after k)"
  shows "hev_rbtree_change_child s x y (ctx_parent k) = Some (relink s y k)"
proof (cases k rule: before.cases)
  case 1
  then show ?thesis by (simp add: hev_rbtree_change_child_def)
next
  case (2 c a t k')
  with assms show ?thesis by (simp add: hev_rbtree_change_child_def rb_ops)
next
  case (3 c a t k')
  have "root_of t \<noteq> x"
    using assms(2,3) 3 by (cases t) auto
  with 3 assms show ?thesis by (simp add: hev_rbtree_change_child_def rb_ops)
qed

lemma rep_relink:
  assumes "set (addrs t) \<inter> (set (before k) \<union> set (after k)) = {}"
  shows "rep (nodes (relink s y k)) par t = rep (nodes s) par t"
  using assms by (cases k rule: before.cases) auto

lemma relink_ctx:
  assumes "rep_ctx (nodes s) (root s) x k" and "distinct (before k @ after k)"
  shows "rep_ctx (nodes (relink s y k)) (root (relink s y k)) y k"
  using assms by (cases k rule: before.cases) auto

lemma zip_relink:
  assumes "rep (nodes s) (ctx_parent k) t" and "rep_ctx (nodes s) (root s) x k"
    and "distinct (before k @ addrs t @ after k)"
  shows "zip_rep (relink s (root_of t) k) t k"
proof -
  have "set (addrs t) \<inter> (set (before k) \<union> set (after k)) = {}" "distinct (before k @ after k)"
    using assms(3) by auto
  with assms show ?thesis by (simp add: zip_rep_def rep_relink relink_ctx)
qed

lemma relink_frame:
  "a \<notin> set (before k) \<union> set (after k) \<Longrightarrow> nodes (relink s y k) a = nodes s a"
  by (cases k rule: before.cases) auto

lemma relink_dom: "rep_ctx (nodes s) (root s) x k \<Longrightarrow> dom (nodes (relink s y k)) = dom (nodes s)"
  by (cases k rule: before.cases) auto

text \<open>A rotation whose old top is \<open>old\<close> and whose new top is \<open>nw\<close>.\<close>

lemma rotate_ctx:
  assumes "nodes s old = Some on" and "parent_color on = mk_pc (ctx_parent k) c"
    and "nodes s nw = Some nn" and "old \<noteq> nw" and "old \<noteq> 0"
    and "rep_ctx (nodes s) (root s) old k"
    and "old \<notin> set (before k)" and "old \<notin> set (after k)"
    and "nw \<notin> set (before k)" and "nw \<notin> set (after k)"
  shows "hev_rbtree_rotate_set_parents s old nw (cbit d) = Some (relink
    (s\<lparr>nodes := (nodes s)(nw \<mapsto> nn\<lparr>parent_color := mk_pc (ctx_parent k) c\<rparr>,
        old \<mapsto> on\<lparr>parent_color := mk_pc nw d\<rparr>)\<rparr>) nw k)"
proof -
  have al: "aligned (ctx_parent k)" using assms(6) by (rule rep_ctx_parent_aligned)
  let ?s = "s\<lparr>nodes := (nodes s)(nw \<mapsto> nn\<lparr>parent_color := mk_pc (ctx_parent k) c\<rparr>,
        old \<mapsto> on\<lparr>parent_color := mk_pc nw d\<rparr>)\<rparr>"
  have "rep_ctx (nodes ?s) (root ?s) old k" using assms(6-10) by simp
  then have "hev_rbtree_change_child ?s old nw (ctx_parent k) = Some (relink ?s nw k)"
    using assms(5,7,8) by (rule change_child_ctx)
  then show ?thesis
    using assms(1-4) al by (simp add: hev_rbtree_rotate_set_parents_def rb_ops)
qed

lemma color_bits: "HEV_RBTREE_RED = cbit Red" "HEV_RBTREE_BLACK = cbit Black"
  by (simp_all add: HEV_RBTREE_RED_def HEV_RBTREE_BLACK_def)

section \<open>Moving a subtree under another parent\<close>

text \<open>The heap after the root of \<open>t\<close> got the parent \<open>q\<close> and the colour black.\<close>

fun repaint :: "(addr \<rightharpoonup> HevRBTreeNode) \<Rightarrow> color \<Rightarrow> addr \<Rightarrow> rbt \<Rightarrow> (addr \<rightharpoonup> HevRBTreeNode)" where
  "repaint h d q Lf = h"
| "repaint h d q (Nd l c a r) = h(a \<mapsto> \<lparr>parent_color = mk_pc q d, n_right = root_of r, n_left = root_of l\<rparr>)"

lemma repaint_other [simp]: "a \<notin> set (addrs t) \<Longrightarrow> repaint h d q t a = h a"
  by (cases t) auto

lemma rep_repaint_frame [simp]:
  "set (addrs t) \<inter> set (addrs t') = {} \<Longrightarrow> rep (repaint h d q t) par t' = rep h par t'"
  by (cases t) auto

lemma rep_ctx_repaint_frame [simp]:
  "set (addrs t) \<inter> (set (before k) \<union> set (after k)) = {} \<Longrightarrow>
     rep_ctx (repaint h d q t) rt y k = rep_ctx h rt y k"
  by (cases t) auto

lemma rep_repaint: "rep h q0 t \<Longrightarrow> distinct (addrs t) \<Longrightarrow> rep (repaint h d q t) q (paint d t)"
  by (cases t) auto

lemma set_parent_color_if:
  assumes "rep (nodes s) q0 t"
  shows "(if root_of t \<noteq> 0 then hev_rbtree_node_set_parent_color s (root_of t) q HEV_RBTREE_BLACK
     else Some s) = Some (s\<lparr>nodes := repaint (nodes s) Black q t\<rparr>)"
  using assms by (cases t) (auto simp: rb_ops)

lemma set_parent_if:
  assumes "rep (nodes s) q0 t" and "aligned q0"
  shows "(if root_of t \<noteq> 0 then hev_rbtree_node_set_parent s (root_of t) q
     else Some s) = Some (s\<lparr>nodes := repaint (nodes s) (colour t) q t\<rparr>)"
  using assms by (cases t) (auto simp: rb_ops)

lemma sibling_red:
  "rep (nodes s) q u \<Longrightarrow> aligned q \<Longrightarrow>
     (if root_of u \<noteq> 0 then hev_rbtree_node_is_red s (root_of u) else Some False) = Some (colour u = Red)"
  by (cases u) (auto simp: rb_ops)

lemma null_or_black_rep:
  "rep (nodes s) q u \<Longrightarrow> aligned q \<Longrightarrow> null_or_black s (root_of u) = Some (colour u = Black)"
  by (cases u) (auto simp: rb_ops)

end
