(* ===== verification/RBTreeInsert.thy ===== *)
theory RBTreeInsert
  imports RBTreeRep
begin

text \<open>
  Insertion into the red-black tree: the rebalancing loop of \<open>hev_rbtree_insert_color\<close> on the
  heap refines a functional one on trees and contexts (\<open>ins_fix\<close>), which keeps the in-order
  sequence of the nodes and restores the red-black invariants.
\<close>

section \<open>Rotations at the top of a context\<close>

lemma rotate_zip:
  assumes s: "nodes s old = Some \<lparr>parent_color = mk_pc (ctx_parent k) c, n_right = r, n_left = l\<rparr>"
      "nodes s nw = Some \<lparr>parent_color = q, n_right = r', n_left = l'\<rparr>"
    and k: "rep_ctx (nodes s) (root s) old k"
    and T: "root_of T = nw" "old \<in> set (addrs T)" "old \<noteq> nw" "old \<noteq> 0" "T \<noteq> Lf"
      "distinct (before k @ addrs T @ after k)"
    and h: "rep ((nodes s)(nw \<mapsto> \<lparr>parent_color = mk_pc (ctx_parent k) c, n_right = r', n_left = l'\<rparr>,
        old \<mapsto> \<lparr>parent_color = mk_pc nw d, n_right = r, n_left = l\<rparr>)) (ctx_parent k) T"
  shows "\<exists>s'. hev_rbtree_rotate_set_parents s old nw (cbit d) = Some s' \<and> tree_rep s' (plug T k) \<and>
    (\<forall>a. a \<notin> set (addrs (plug T k)) \<longrightarrow> nodes s' a = nodes s a)"
proof -
  let ?s = "s\<lparr>nodes := (nodes s)(nw \<mapsto> \<lparr>parent_color = mk_pc (ctx_parent k) c, n_right = r', n_left = l'\<rparr>,
        old \<mapsto> \<lparr>parent_color = mk_pc nw d, n_right = r, n_left = l\<rparr>)\<rparr>"
  have nw: "nw \<in> set (addrs T)" using T(1,5) root_in_addrs by blast
  with T have out: "old \<notin> set (before k)" "old \<notin> set (after k)"
    "nw \<notin> set (before k)" "nw \<notin> set (after k)" by auto
  have rot: "hev_rbtree_rotate_set_parents s old nw (cbit d) = Some (relink ?s nw k)"
    using rotate_ctx [OF s(1) _ s(2) T(3,4) k out] by simp
  have "rep_ctx (nodes ?s) (root ?s) old k" using k out by simp
  with h T(6) have "zip_rep (relink ?s (root_of T) k) T k" by (intro zip_relink) simp_all
  then have "tree_rep (relink ?s nw k) (plug T k)" using T(1) by (simp add: zip_rep_tree)
  moreover have "nodes (relink ?s nw k) a = nodes s a" if "a \<notin> set (addrs (plug T k))" for a
  proof -
    from that have "a \<notin> set (before k) \<union> set (after k)" "a \<noteq> old" "a \<noteq> nw"
      using nw T(2) by auto
    then show ?thesis by (simp add: relink_frame)
  qed
  ultimately show ?thesis using rot by blast
qed

lemmas rotate_zip_Red = rotate_zip [where d = Red, folded color_bits]
lemmas rotate_zip_Black = rotate_zip [where d = Black, folded color_bits]

section \<open>The functional rebalancing\<close>

fun ins_fix :: "rbt \<Rightarrow> ctx \<Rightarrow> rbt" where
  "ins_fix t [] = paint Black t"
| "ins_fix t (FL Black p s # k) = plug t (FL Black p s # k)"
| "ins_fix t (FR Black p s # k) = plug t (FR Black p s # k)"
| "ins_fix t [FL Red p s] = plug t [FL Red p s]"
| "ins_fix t [FR Red p s] = plug t [FR Red p s]"
| "ins_fix t (FL Red p s # FL c g u # k) =
    (if colour u = Red then ins_fix (Nd (Nd t Black p s) Red g (paint Black u)) k
     else plug (Nd t c p (Nd (paint Black s) Red g u)) k)"
| "ins_fix t (FR Red p s # FL c g u # k) =
    (if colour u = Red then ins_fix (Nd (Nd s Black p t) Red g (paint Black u)) k
     else case t of Lf \<Rightarrow> Lf
       | Nd x tc n y \<Rightarrow> plug (Nd (Nd s Red p (paint Black x)) c n (Nd (paint Black y) Red g u)) k)"
| "ins_fix t (FR Red p s # FR c g u # k) =
    (if colour u = Red then ins_fix (Nd (paint Black u) Red g (Nd s Black p t)) k
     else plug (Nd (Nd u Red g (paint Black s)) c p t) k)"
| "ins_fix t (FL Red p s # FR c g u # k) =
    (if colour u = Red then ins_fix (Nd (paint Black u) Red g (Nd t Black p s)) k
     else case t of Lf \<Rightarrow> Lf
       | Nd x tc n y \<Rightarrow> plug (Nd (Nd u Red g (paint Black x)) c n (Nd (paint Black y) Red p s)) k)"

lemma addrs_ins_fix: "t \<noteq> Lf \<Longrightarrow> addrs (ins_fix t k) = before k @ addrs t @ after k"
  by (induction t k rule: ins_fix.induct) (auto split: rbt.splits)

lemma is_rbt_ins_fix:
  assumes "invc t" "invh t" "colour t = Red" "ctx_inv Black (bheight t) k"
  shows "is_rbt (ins_fix t k)"
  using assms
proof (induction t k rule: ins_fix.induct)
  case (1 t)
  then show ?case by (cases t) (auto simp: is_rbt_def)
next
  case (6 t p s c g u k)
  then show ?case by (cases s; cases u) (auto simp: is_rbt_plug)
next
  case (7 t p s c g u k)
  then show ?case by (cases t; cases u) (auto simp: is_rbt_plug paint_same)
next
  case (8 t p s c g u k)
  then show ?case by (cases s; cases u) (auto simp: is_rbt_plug)
next
  case (9 t p s c g u k)
  then show ?case by (cases t; cases u) (auto simp: is_rbt_plug paint_same)
qed (auto simp: is_rbt_plug)

section \<open>The loop refines it\<close>

definition loop_post :: "HevRBTree \<Rightarrow> rbt \<Rightarrow> HevRBTree option \<Rightarrow> bool" where
  "loop_post s t res \<longleftrightarrow> (\<exists>s'. res = Some s' \<and> tree_rep s' t \<and>
     (\<forall>a. a \<notin> set (addrs t) \<longrightarrow> nodes s' a = nodes s a))"

lemma loop_post_frame:
  assumes "loop_post s' t res" and "\<And>a. a \<notin> set (addrs t) \<Longrightarrow> nodes s' a = nodes s a"
  shows "loop_post s t res"
  using assms unfolding loop_post_def by fastforce

lemma loop_post_same: "tree_rep s t \<Longrightarrow> loop_post s t (Some s)"
  by (auto simp: loop_post_def)

lemmas loop_ops = insert_color_loop.simps get_right_def get_left_def set_right_def set_left_def get_pc_def
  set_pc_def
  hev_rbtree_node_red_parent_def hev_rbtree_node_is_black_def hev_rbtree_node_color_def

lemma insert_rotate_LL:
  assumes z: "zip_rep s t (FL Red p x # FL c g u # k)" and "t \<noteq> Lf" and "colour u = Black"
  shows "loop_post s (plug (Nd t c p (Nd (paint Black x) Red g u)) k)
    (insert_color_loop (Suc fuel) s (root_of t) p)"
proof -
  have d: "distinct (before k @ addrs t @ p # addrs x @ g # addrs u @ after k)"
    and al: "aligned (ctx_parent k)" "aligned g" "aligned p" "p \<noteq> 0" "g \<noteq> 0"
    and h: "nodes s p = Some \<lparr>parent_color = g, n_right = root_of x, n_left = root_of t\<rparr>"
      "nodes s g = Some \<lparr>parent_color = mk_pc (ctx_parent k) c, n_right = root_of u, n_left = p\<rparr>"
    and r: "rep (nodes s) g u" "rep (nodes s) p x" "rep (nodes s) p t" "rep_ctx (nodes s) (root s) g k"
    using z by (auto simp: zip_rep_def dest: rep_ctx_parent_aligned)
  have nin: "p \<notin> set (addrs t)" "p \<notin> set (addrs x)" "p \<notin> set (addrs u)" "g \<notin> set (addrs t)"
    "g \<notin> set (addrs x)" "g \<notin> set (addrs u)" "p \<notin> set (before k)" "p \<notin> set (after k)"
    "g \<notin> set (before k)" "g \<notin> set (after k)" "p \<noteq> g"
    using d by auto
  have dis: "set (addrs x) \<inter> set (addrs t) = {}" "set (addrs x) \<inter> set (addrs u) = {}"
    "set (addrs x) \<inter> (set (before k) \<union> set (after k)) = {}" "distinct (addrs x)"
    using d by auto
  note ne = root_of_neq [OF nin(3) al(4)] root_of_disjoint [OF r(3) assms(2) dis(1)]
  let ?h = "(nodes s)(g \<mapsto> \<lparr>parent_color = mk_pc (ctx_parent k) c, n_right = root_of u, n_left = root_of x\<rparr>,
     p \<mapsto> \<lparr>parent_color = g, n_right = g, n_left = root_of t\<rparr>)"
  let ?s = "s\<lparr>nodes := repaint ?h Black g x\<rparr>"
  have x: "rep ?h p x" using r nin by simp
  have "insert_color_loop (Suc fuel) s (root_of t) p = hev_rbtree_rotate_set_parents ?s g p HEV_RBTREE_RED"
    using al h nin ne assms(3) sibling_red [OF r(1) al(2)]
      set_parent_color_if [of "s\<lparr>nodes := ?h\<rparr>" p x g] x
    by (cases "x = Lf") (simp_all add: loop_ops root_of_0 [OF r(2)])
  moreover have "loop_post ?s (plug (Nd t c p (Nd (paint Black x) Red g u)) k)
    (hev_rbtree_rotate_set_parents ?s g p HEV_RBTREE_RED)"
    unfolding loop_post_def
    by (rule rotate_zip_Red)
       (use al h nin ne dis d r rep_repaint [OF x dis(4), of Black g] in simp_all)
  ultimately show ?thesis
    by (auto intro!: loop_post_frame [of ?s])
qed

lemma insert_rotate_RR:
  assumes z: "zip_rep s t (FR Red p x # FR c g u # k)" and "t \<noteq> Lf" and "colour u = Black"
  shows "loop_post s (plug (Nd (Nd u Red g (paint Black x)) c p t) k)
    (insert_color_loop (Suc fuel) s (root_of t) p)"
proof -
  have d: "distinct (before k @ addrs u @ g # addrs x @ p # addrs t @ after k)"
    and al: "aligned (ctx_parent k)" "aligned g" "aligned p" "p \<noteq> 0" "g \<noteq> 0"
    and h: "nodes s p = Some \<lparr>parent_color = g, n_right = root_of t, n_left = root_of x\<rparr>"
      "nodes s g = Some \<lparr>parent_color = mk_pc (ctx_parent k) c, n_right = p, n_left = root_of u\<rparr>"
    and r: "rep (nodes s) g u" "rep (nodes s) p x" "rep (nodes s) p t" "rep_ctx (nodes s) (root s) g k"
    using z by (auto simp: zip_rep_def dest: rep_ctx_parent_aligned)
  have nin: "p \<notin> set (addrs t)" "p \<notin> set (addrs x)" "p \<notin> set (addrs u)" "g \<notin> set (addrs t)"
    "g \<notin> set (addrs x)" "g \<notin> set (addrs u)" "p \<notin> set (before k)" "p \<notin> set (after k)"
    "g \<notin> set (before k)" "g \<notin> set (after k)" "p \<noteq> g"
    using d by auto
  have dis: "set (addrs x) \<inter> set (addrs t) = {}" "set (addrs x) \<inter> set (addrs u) = {}"
    "set (addrs x) \<inter> (set (before k) \<union> set (after k)) = {}" "distinct (addrs x)"
    using d by auto
  note ne = root_of_neq [OF nin(3) al(4)] root_of_disjoint [OF r(3) assms(2) dis(1)]
  let ?h = "(nodes s)(g \<mapsto> \<lparr>parent_color = mk_pc (ctx_parent k) c, n_right = root_of x, n_left = root_of u\<rparr>,
     p \<mapsto> \<lparr>parent_color = g, n_right = root_of t, n_left = g\<rparr>)"
  let ?s = "s\<lparr>nodes := repaint ?h Black g x\<rparr>"
  have x: "rep ?h p x" using r nin by simp
  have "insert_color_loop (Suc fuel) s (root_of t) p = hev_rbtree_rotate_set_parents ?s g p HEV_RBTREE_RED"
    using al h nin ne assms(3) sibling_red [OF r(1) al(2)]
      set_parent_color_if [of "s\<lparr>nodes := ?h\<rparr>" p x g] x
    by (cases "x = Lf") (simp_all add: loop_ops root_of_0 [OF r(2)])
  moreover have "loop_post ?s (plug (Nd (Nd u Red g (paint Black x)) c p t) k)
    (hev_rbtree_rotate_set_parents ?s g p HEV_RBTREE_RED)"
    unfolding loop_post_def
    by (rule rotate_zip_Red)
       (use al h nin ne dis d r rep_repaint [OF x dis(4), of Black g] in simp_all)
  ultimately show ?thesis
    by (auto intro!: loop_post_frame [of ?s])
qed

lemma insert_rotate_RL:
  assumes z: "zip_rep s (Nd x Red n y) (FR Red p z # FL c g u # k)" and "colour u = Black"
  shows "loop_post s
    (plug (Nd (Nd z Red p (paint Black x)) c n (Nd (paint Black y) Red g u)) k)
    (insert_color_loop (Suc fuel) s n p)"
proof -
  have d: "distinct (before k @ addrs z @ p # addrs x @ n # addrs y @ g # addrs u @ after k)"
    and al: "aligned (ctx_parent k)" "aligned g" "aligned p" "aligned n" "p \<noteq> 0" "g \<noteq> 0" "n \<noteq> 0"
    and h: "nodes s p = Some \<lparr>parent_color = g, n_right = n, n_left = root_of z\<rparr>"
      "nodes s g = Some \<lparr>parent_color = mk_pc (ctx_parent k) c, n_right = root_of u, n_left = p\<rparr>"
      "nodes s n = Some \<lparr>parent_color = p, n_right = root_of y, n_left = root_of x\<rparr>"
    and r: "rep (nodes s) g u" "rep (nodes s) n x" "rep (nodes s) n y" "rep (nodes s) p z"
      "rep_ctx (nodes s) (root s) g k"
    using z by (auto simp: zip_rep_def dest: rep_ctx_parent_aligned)
  have nin: "p \<notin> set (addrs x)" "p \<notin> set (addrs y)" "p \<notin> set (addrs z)" "p \<notin> set (addrs u)"
    "g \<notin> set (addrs x)" "g \<notin> set (addrs y)" "g \<notin> set (addrs z)" "g \<notin> set (addrs u)"
    "n \<notin> set (addrs x)" "n \<notin> set (addrs y)" "n \<notin> set (addrs z)" "n \<notin> set (addrs u)"
    and nin': "p \<notin> set (before k)" "p \<notin> set (after k)" "g \<notin> set (before k)" "g \<notin> set (after k)"
    "n \<notin> set (before k)" "n \<notin> set (after k)"
    using d by auto
  have ne: "p \<noteq> g" "n \<noteq> p" "n \<noteq> g" using d by auto
  have dis: "set (addrs x) \<inter> set (addrs y) = {}" "set (addrs y) \<inter> set (addrs x) = {}"
    "distinct (addrs x)" "distinct (addrs y)"
    using d by auto
  have dis2: "set (addrs x) \<inter> set (addrs z) = {}" "set (addrs x) \<inter> set (addrs u) = {}"
    "set (addrs x) \<inter> (set (before k) \<union> set (after k)) = {}"
    "set (addrs y) \<inter> set (addrs z) = {}" "set (addrs y) \<inter> set (addrs u) = {}"
    "set (addrs y) \<inter> (set (before k) \<union> set (after k)) = {}"
    using d by auto
  note up = root_of_neq [OF nin(4) al(5)]
  let ?h1 = "(nodes s)(p \<mapsto> \<lparr>parent_color = g, n_right = root_of x, n_left = root_of z\<rparr>,
     n \<mapsto> \<lparr>parent_color = p, n_right = root_of y, n_left = p\<rparr>)"
  let ?h2 = "(repaint ?h1 Black p x)(p \<mapsto> \<lparr>parent_color = n, n_right = root_of x, n_left = root_of z\<rparr>,
     g \<mapsto> \<lparr>parent_color = mk_pc (ctx_parent k) c, n_right = root_of u, n_left = root_of y\<rparr>,
     n \<mapsto> \<lparr>parent_color = p, n_right = g, n_left = p\<rparr>)"
  let ?s = "s\<lparr>nodes := repaint ?h2 Black g y\<rparr>"
  have x: "rep ?h1 n x" and y: "rep ?h2 n y" using r nin dis by simp_all
  have x': "rep (repaint ?h2 Black g y) p (paint Black x)"
    using rep_repaint [OF x, of Black p] nin dis by simp
  have "insert_color_loop (Suc fuel) s n p = hev_rbtree_rotate_set_parents ?s g n HEV_RBTREE_RED"
    using al h nin up ne assms(2) sibling_red [OF r(1) al(2)] x y
      set_parent_color_if [of "s\<lparr>nodes := ?h1\<rparr>" n x p] set_parent_color_if [of "s\<lparr>nodes := ?h2\<rparr>" n y g]
    by (cases "x = Lf"; cases "y = Lf")
       (simp_all add: loop_ops root_of_0 [OF r(2)] root_of_0 [OF r(3)] hev_rbtree_node_set_parent_color_def [of _ p] fun_upd_twist)
  moreover have "loop_post ?s (plug (Nd (Nd z Red p (paint Black x)) c n (Nd (paint Black y) Red g u)) k)
    (hev_rbtree_rotate_set_parents ?s g n HEV_RBTREE_RED)"
    unfolding loop_post_def
    by (rule rotate_zip_Red)
       (use al h nin nin' ne dis dis2 d r x' rep_repaint [OF y, of Black g] in simp_all)
  ultimately show ?thesis
    by (auto intro!: loop_post_frame [of ?s])
qed

lemma insert_rotate_LR:
  assumes z: "zip_rep s (Nd x Red n y) (FL Red p z # FR c g u # k)" and "colour u = Black"
  shows "loop_post s
    (plug (Nd (Nd u Red g (paint Black x)) c n (Nd (paint Black y) Red p z)) k)
    (insert_color_loop (Suc fuel) s n p)"
proof -
  have d: "distinct (before k @ addrs u @ g # addrs x @ n # addrs y @ p # addrs z @ after k)"
    and al: "aligned (ctx_parent k)" "aligned g" "aligned p" "aligned n" "p \<noteq> 0" "g \<noteq> 0" "n \<noteq> 0"
    and h: "nodes s p = Some \<lparr>parent_color = g, n_right = root_of z, n_left = n\<rparr>"
      "nodes s g = Some \<lparr>parent_color = mk_pc (ctx_parent k) c, n_right = p, n_left = root_of u\<rparr>"
      "nodes s n = Some \<lparr>parent_color = p, n_right = root_of y, n_left = root_of x\<rparr>"
    and r: "rep (nodes s) g u" "rep (nodes s) n x" "rep (nodes s) n y" "rep (nodes s) p z"
      "rep_ctx (nodes s) (root s) g k"
    using z by (auto simp: zip_rep_def dest: rep_ctx_parent_aligned)
  have nin: "p \<notin> set (addrs x)" "p \<notin> set (addrs y)" "p \<notin> set (addrs z)" "p \<notin> set (addrs u)"
    "g \<notin> set (addrs x)" "g \<notin> set (addrs y)" "g \<notin> set (addrs z)" "g \<notin> set (addrs u)"
    "n \<notin> set (addrs x)" "n \<notin> set (addrs y)" "n \<notin> set (addrs z)" "n \<notin> set (addrs u)"
    and nin': "p \<notin> set (before k)" "p \<notin> set (after k)" "g \<notin> set (before k)" "g \<notin> set (after k)"
    "n \<notin> set (before k)" "n \<notin> set (after k)"
    using d by auto
  have ne: "p \<noteq> g" "n \<noteq> p" "n \<noteq> g" using d by auto
  have dis: "set (addrs x) \<inter> set (addrs y) = {}" "set (addrs y) \<inter> set (addrs x) = {}"
    "distinct (addrs x)" "distinct (addrs y)"
    using d by auto
  have dis2: "set (addrs x) \<inter> set (addrs z) = {}" "set (addrs x) \<inter> set (addrs u) = {}"
    "set (addrs x) \<inter> (set (before k) \<union> set (after k)) = {}"
    "set (addrs y) \<inter> set (addrs z) = {}" "set (addrs y) \<inter> set (addrs u) = {}"
    "set (addrs y) \<inter> (set (before k) \<union> set (after k)) = {}"
    using d by auto
  note up = root_of_neq [OF nin(4) al(5)]
  let ?h1 = "(nodes s)(p \<mapsto> \<lparr>parent_color = g, n_right = root_of z, n_left = root_of y\<rparr>,
     n \<mapsto> \<lparr>parent_color = p, n_right = p, n_left = root_of x\<rparr>)"
  let ?h2 = "(repaint ?h1 Black p y)(p \<mapsto> \<lparr>parent_color = n, n_right = root_of z, n_left = root_of y\<rparr>,
     g \<mapsto> \<lparr>parent_color = mk_pc (ctx_parent k) c, n_right = root_of x, n_left = root_of u\<rparr>,
     n \<mapsto> \<lparr>parent_color = p, n_right = p, n_left = g\<rparr>)"
  let ?s = "s\<lparr>nodes := repaint ?h2 Black g x\<rparr>"
  have x: "rep ?h1 n y" and y: "rep ?h2 n x" using r nin dis by simp_all
  have x': "rep (repaint ?h2 Black g x) p (paint Black y)"
    using rep_repaint [OF x, of Black p] nin dis by simp
  have "insert_color_loop (Suc fuel) s n p = hev_rbtree_rotate_set_parents ?s g n HEV_RBTREE_RED"
    using al h nin up ne assms(2) sibling_red [OF r(1) al(2)] x y
      set_parent_color_if [of "s\<lparr>nodes := ?h1\<rparr>" n y p] set_parent_color_if [of "s\<lparr>nodes := ?h2\<rparr>" n x g]
    by (cases "x = Lf"; cases "y = Lf")
       (simp_all add: loop_ops root_of_0 [OF r(2)] root_of_0 [OF r(3)] hev_rbtree_node_set_parent_color_def [of _ p] fun_upd_twist)
  moreover have "loop_post ?s (plug (Nd (Nd u Red g (paint Black x)) c n (Nd (paint Black y) Red p z)) k)
    (hev_rbtree_rotate_set_parents ?s g n HEV_RBTREE_RED)"
    unfolding loop_post_def
    by (rule rotate_zip_Red)
       (use al h nin nin' ne dis dis2 d r x' rep_repaint [OF y, of Black g] in simp_all)
  ultimately show ?thesis
    by (auto intro!: loop_post_frame [of ?s])
qed

lemma insert_recolor_L:
  assumes z: "zip_rep s q (FL c g u # k)" and q: "q = Nd l Red p r" and u: "colour u = Red"
    and node: "n \<noteq> 0"
  shows "\<exists>s'. insert_color_loop (Suc fuel) s n p = insert_color_loop fuel s' g (ctx_parent k) \<and>
    zip_rep s' (Nd (paint Black q) Red g (paint Black u)) k \<and>
    (\<forall>a. a \<notin> set (addrs (plug q (FL c g u # k))) \<longrightarrow> nodes s' a = nodes s a)"
proof -
  obtain ul ua ur where u: "u = Nd ul Red ua ur" using u by (cases u) auto
  have d: "distinct (before k @ addrs l @ p # addrs r @ g # addrs ul @ ua # addrs ur @ after k)"
    and al: "aligned (ctx_parent k)" "aligned g" "aligned p" "aligned ua" "p \<noteq> 0" "g \<noteq> 0" "ua \<noteq> 0"
    and h: "nodes s p = Some \<lparr>parent_color = g, n_right = root_of r, n_left = root_of l\<rparr>"
      "nodes s g = Some \<lparr>parent_color = mk_pc (ctx_parent k) c, n_right = ua, n_left = p\<rparr>"
      "nodes s ua = Some \<lparr>parent_color = g, n_right = root_of ur, n_left = root_of ul\<rparr>"
    and r: "rep (nodes s) p l" "rep (nodes s) p r" "rep (nodes s) ua ul" "rep (nodes s) ua ur"
      "rep_ctx (nodes s) (root s) g k"
    using z u q by (auto simp: zip_rep_def dest: rep_ctx_parent_aligned)
  have nin: "p \<notin> set (addrs l)" "p \<notin> set (addrs r)" "p \<notin> set (addrs ul)" "p \<notin> set (addrs ur)"
    "g \<notin> set (addrs l)" "g \<notin> set (addrs r)" "g \<notin> set (addrs ul)" "g \<notin> set (addrs ur)"
    "ua \<notin> set (addrs l)" "ua \<notin> set (addrs r)" "ua \<notin> set (addrs ul)" "ua \<notin> set (addrs ur)"
    and nin': "p \<notin> set (before k)" "p \<notin> set (after k)" "g \<notin> set (before k)" "g \<notin> set (after k)"
    "ua \<notin> set (before k)" "ua \<notin> set (after k)" and ne: "p \<noteq> g" "p \<noteq> ua" "ua \<noteq> g"
    using d by auto
  let ?s = "s\<lparr>nodes := (nodes s)(ua \<mapsto> \<lparr>parent_color = mk_pc g Black, n_right = root_of ur, n_left = root_of ul\<rparr>,
      p \<mapsto> \<lparr>parent_color = mk_pc g Black, n_right = root_of r, n_left = root_of l\<rparr>,
      g \<mapsto> \<lparr>parent_color = ctx_parent k, n_right = ua, n_left = p\<rparr>)\<rparr>"
  have "insert_color_loop (Suc fuel) s n p = insert_color_loop fuel ?s g (ctx_parent k)"
    using al h ne node by (simp add: insert_color_loop.simps rb_ops)
  moreover have "zip_rep ?s (Nd (paint Black q) Red g (paint Black u)) k"
    using al h nin nin' ne r d u q by (simp add: zip_rep_def)
  ultimately show ?thesis using u q by (intro exI [of _ ?s]) auto
qed

lemma insert_recolor_R:
  assumes z: "zip_rep s q (FR c g u # k)" and q: "q = Nd l Red p r" and u: "colour u = Red"
    and node: "n \<noteq> 0"
  shows "\<exists>s'. insert_color_loop (Suc fuel) s n p = insert_color_loop fuel s' g (ctx_parent k) \<and>
    zip_rep s' (Nd (paint Black u) Red g (paint Black q)) k \<and>
    (\<forall>a. a \<notin> set (addrs (plug q (FR c g u # k))) \<longrightarrow> nodes s' a = nodes s a)"
proof -
  obtain ul ua ur where u: "u = Nd ul Red ua ur" using u by (cases u) auto
  have d: "distinct (before k @ addrs ul @ ua # addrs ur @ g # addrs l @ p # addrs r @ after k)"
    and al: "aligned (ctx_parent k)" "aligned g" "aligned p" "aligned ua" "p \<noteq> 0" "g \<noteq> 0" "ua \<noteq> 0"
    and h: "nodes s p = Some \<lparr>parent_color = g, n_right = root_of r, n_left = root_of l\<rparr>"
      "nodes s g = Some \<lparr>parent_color = mk_pc (ctx_parent k) c, n_right = p, n_left = ua\<rparr>"
      "nodes s ua = Some \<lparr>parent_color = g, n_right = root_of ur, n_left = root_of ul\<rparr>"
    and r: "rep (nodes s) p l" "rep (nodes s) p r" "rep (nodes s) ua ul" "rep (nodes s) ua ur"
      "rep_ctx (nodes s) (root s) g k"
    using z u q by (auto simp: zip_rep_def dest: rep_ctx_parent_aligned)
  have nin: "p \<notin> set (addrs l)" "p \<notin> set (addrs r)" "p \<notin> set (addrs ul)" "p \<notin> set (addrs ur)"
    "g \<notin> set (addrs l)" "g \<notin> set (addrs r)" "g \<notin> set (addrs ul)" "g \<notin> set (addrs ur)"
    "ua \<notin> set (addrs l)" "ua \<notin> set (addrs r)" "ua \<notin> set (addrs ul)" "ua \<notin> set (addrs ur)"
    and nin': "p \<notin> set (before k)" "p \<notin> set (after k)" "g \<notin> set (before k)" "g \<notin> set (after k)"
    "ua \<notin> set (before k)" "ua \<notin> set (after k)" and ne: "p \<noteq> g" "p \<noteq> ua" "ua \<noteq> g"
    using d by auto
  let ?s = "s\<lparr>nodes := (nodes s)(ua \<mapsto> \<lparr>parent_color = mk_pc g Black, n_right = root_of ur, n_left = root_of ul\<rparr>,
      p \<mapsto> \<lparr>parent_color = mk_pc g Black, n_right = root_of r, n_left = root_of l\<rparr>,
      g \<mapsto> \<lparr>parent_color = ctx_parent k, n_right = p, n_left = ua\<rparr>)\<rparr>"
  have "insert_color_loop (Suc fuel) s n p = insert_color_loop fuel ?s g (ctx_parent k)"
    using al h ne node by (simp add: insert_color_loop.simps rb_ops)
  moreover have "zip_rep ?s (Nd (paint Black u) Red g (paint Black q)) k"
    using al h nin nin' ne r d u q by (simp add: zip_rep_def)
  ultimately show ?thesis using u q by (intro exI [of _ ?s]) auto
qed

section \<open>The whole loop\<close>

lemma insert_recolor_L_post:
  assumes "zip_rep s (Nd l Red p r) (FL c g u # k)" and "colour u = Red" and "n \<noteq> 0"
    and T: "T = Nd (Nd l Black p r) Red g (paint Black u)"
    and IH: "\<And>s'. zip_rep s' T k \<Longrightarrow> loop_post s' (ins_fix T k) (insert_color_loop f s' g (ctx_parent k))"
  shows "loop_post s (ins_fix T k) (insert_color_loop (Suc f) s n p)"
proof -
  obtain s' where "insert_color_loop (Suc f) s n p = insert_color_loop f s' g (ctx_parent k)"
    "zip_rep s' T k" and fr: "\<forall>a. a \<notin> set (addrs (plug (Nd l Red p r) (FL c g u # k))) \<longrightarrow> nodes s' a = nodes s a"
    using insert_recolor_L [OF assms(1) refl assms(2,3), of f] unfolding T paint.simps by blast
  with IH have "loop_post s' (ins_fix T k) (insert_color_loop (Suc f) s n p)" by simp
  with fr show ?thesis by (auto intro!: loop_post_frame [of s'] simp: addrs_ins_fix T)
qed

lemma insert_recolor_R_post:
  assumes "zip_rep s (Nd l Red p r) (FR c g u # k)" and "colour u = Red" and "n \<noteq> 0"
    and T: "T = Nd (paint Black u) Red g (Nd l Black p r)"
    and IH: "\<And>s'. zip_rep s' T k \<Longrightarrow> loop_post s' (ins_fix T k) (insert_color_loop f s' g (ctx_parent k))"
  shows "loop_post s (ins_fix T k) (insert_color_loop (Suc f) s n p)"
proof -
  obtain s' where "insert_color_loop (Suc f) s n p = insert_color_loop f s' g (ctx_parent k)"
    "zip_rep s' T k" and fr: "\<forall>a. a \<notin> set (addrs (plug (Nd l Red p r) (FR c g u # k))) \<longrightarrow> nodes s' a = nodes s a"
    using insert_recolor_R [OF assms(1) refl assms(2,3), of f] unfolding T paint.simps by blast
  with IH have "loop_post s' (ins_fix T k) (insert_color_loop (Suc f) s n p)" by simp
  with fr show ?thesis by (auto intro!: loop_post_frame [of s'] simp: addrs_ins_fix T)
qed

lemma insert_color_refines:
  assumes "zip_rep s t k" "t \<noteq> Lf" "colour t = Red" "ctx_inv Black n k" "length k < fuel"
  shows "loop_post s (ins_fix t k) (insert_color_loop fuel s (root_of t) (ctx_parent k))"
  using assms
proof (induction t k arbitrary: s n fuel rule: ins_fix.induct)
  case (1 t)
  obtain l a r where "t = Nd l Red a r" using 1(2,3) by (cases t) auto
  with 1 show ?case
    by (cases fuel) (auto simp: insert_color_loop.simps(2) rb_ops zip_rep_def loop_post_def tree_rep_def)
next
  case (2 t p x k)
  then have "insert_color_loop fuel s (root_of t) p = Some s"
    by (cases fuel) (auto simp: insert_color_loop.simps(2) rb_ops zip_rep_def dest: rep_ctx_parent_aligned)
  with 2 show ?case by (simp add: loop_post_same zip_rep_tree)
next
  case (3 t p x k)
  then have "insert_color_loop fuel s (root_of t) p = Some s"
    by (cases fuel) (auto simp: insert_color_loop.simps(2) rb_ops zip_rep_def dest: rep_ctx_parent_aligned)
  with 3 show ?case by (simp add: loop_post_same zip_rep_tree)
next
  case (6 t p x c g u k)
  from 6 obtain l a r f where t: "t = Nd l Red a r" "a \<noteq> 0" and f: "fuel = Suc f"
    by (cases t; cases fuel) (auto simp: zip_rep_def)
  have z: "zip_rep s (Nd t Red p x) (FL c g u # k)" using 6(2) by (simp add: zip_rep_tree)
  show ?case
  proof (cases "colour u = Red")
    case True
    with 6 t f show ?thesis by (auto intro!: insert_recolor_L_post [OF z] simp: ctx_inv_Black)
  next
    case False
    with 6 t f show ?thesis using insert_rotate_LL [OF 6(2,3)] by simp
  qed
next
  case (7 t p x c g u k)
  from 7 obtain l a r f where t: "t = Nd l Red a r" "a \<noteq> 0" and f: "fuel = Suc f"
    by (cases t; cases fuel) (auto simp: zip_rep_def)
  have z: "zip_rep s (Nd x Red p t) (FL c g u # k)" using 7(2) by (simp add: zip_rep_tree)
  show ?case
  proof (cases "colour u = Red")
    case True
    with 7 t f show ?thesis by (auto intro!: insert_recolor_L_post [OF z] simp: ctx_inv_Black)
  next
    case False
    with 7 t f show ?thesis using insert_rotate_RL [of s l a r p x c g u k f] by simp
  qed
next
  case (8 t p x c g u k)
  from 8 obtain l a r f where t: "t = Nd l Red a r" "a \<noteq> 0" and f: "fuel = Suc f"
    by (cases t; cases fuel) (auto simp: zip_rep_def)
  have z: "zip_rep s (Nd x Red p t) (FR c g u # k)" using 8(2) by (simp add: zip_rep_tree)
  show ?case
  proof (cases "colour u = Red")
    case True
    with 8 t f show ?thesis by (auto intro!: insert_recolor_R_post [OF z] simp: ctx_inv_Black)
  next
    case False
    with 8 t f show ?thesis using insert_rotate_RR [OF 8(2,3)] by simp
  qed
next
  case (9 t p x c g u k)
  from 9 obtain l a r f where t: "t = Nd l Red a r" "a \<noteq> 0" and f: "fuel = Suc f"
    by (cases t; cases fuel) (auto simp: zip_rep_def)
  have z: "zip_rep s (Nd t Red p x) (FR c g u # k)" using 9(2) by (simp add: zip_rep_tree)
  show ?case
  proof (cases "colour u = Red")
    case True
    with 9 t f show ?thesis by (auto intro!: insert_recolor_R_post [OF z] simp: ctx_inv_Black)
  next
    case False
    with 9 t f show ?thesis using insert_rotate_LR [of s l a r p x c g u k f] by simp
  qed
qed auto

text \<open>Linking a node below the end of a path and rebalancing: what a client of the tree does.\<close>

lemma node_link_zip:
  assumes z: "zip_rep s Lf k" and n: "node \<noteq> 0" "aligned node" "node \<in> dom (nodes s)"
    and new: "node \<notin> set (before k)" "node \<notin> set (after k)"
    and l: "lnk = (case k of [] \<Rightarrow> RootLink | FL c a r # _ \<Rightarrow> LeftLink a | FR c a l # _ \<Rightarrow> RightLink a)"
  shows "\<exists>s'. hev_rbtree_node_link s node (ctx_parent k) lnk = Some s' \<and>
    zip_rep s' (Nd Lf Red node Lf) k \<and> (\<forall>a. a \<notin> set (addrs (plug (Nd Lf Red node Lf) k)) \<longrightarrow> nodes s' a = nodes s a)"
proof -
  obtain nd where nd: "nodes s node = Some nd" using n(3) by auto
  let ?s = "s\<lparr>nodes := (nodes s)(node \<mapsto> \<lparr>parent_color = ctx_parent k, n_right = 0, n_left = 0\<rparr>)\<rparr>"
  have "rep_ctx (nodes s) (root s) 0 k" using z by (simp add: zip_rep_def)
  then have k: "rep_ctx (nodes ?s) (root ?s) 0 k" using new by simp
  have "hev_rbtree_node_link s node (ctx_parent k) lnk = Some (relink ?s node k)"
    using nd k l new unfolding hev_rbtree_node_link_def
    by (cases nd; cases k rule: before.cases) (auto simp: rb_ops fun_upd_twist)
  moreover have "zip_rep (relink ?s (root_of (Nd Lf Red node Lf)) k) (Nd Lf Red node Lf) k"
    using z n k new by (intro zip_relink) (auto simp: zip_rep_def)
  ultimately show ?thesis using new by (auto simp: relink_frame)
qed

fun link_of :: "ctx \<Rightarrow> link" where
  "link_of [] = RootLink"
| "link_of (FL c a r # k) = LeftLink a"
| "link_of (FR c a l # k) = RightLink a"

lemma link_of_eq:
  "link_of k = (case k of [] \<Rightarrow> RootLink | FL c a r # _ \<Rightarrow> LeftLink a | FR c a l # _ \<Rightarrow> RightLink a)"
  by (cases k rule: link_of.cases) auto

lemma length_ctx: "length k \<le> length (before k @ after k)"
  by (induction k rule: before.induct) auto

text \<open>Paths are logarithmic in the number of nodes.\<close>

fun depth :: "rbt \<Rightarrow> nat" where
  "depth Lf = 0"
| "depth (Nd l c a r) = Suc (max (depth l) (depth r))"

lemma length_ctx_depth: "length k + depth t \<le> depth (plug t k)"
  by (induction t k rule: plug.induct) auto

lemma depth_bheight:
  "invc t \<Longrightarrow> invh t \<Longrightarrow> depth t \<le> 2 * bheight t + (if colour t = Red then 1 else 0)"
  by (induction t) (auto split: if_splits)

lemma bheight_size: "invh t \<Longrightarrow> 2 ^ bheight t \<le> Suc (length (addrs t))"
  by (induction t) auto

lemma is_rbt_depth: 
  assumes "is_rbt t"
  shows "2 ^ depth t \<le> (Suc (length (addrs t)))\<^sup>2"
proof -
  have "depth t \<le> 2 * bheight t" using depth_bheight [of t] assms by (simp add: is_rbt_def)
  then have "(2::nat) ^ depth t \<le> 2 ^ (2 * bheight t)" by (simp add: power_increasing)
  also have "\<dots> = (2 ^ bheight t)\<^sup>2" by (simp add: power_mult power2_eq_square power_mult_distrib mult_2 power_add)
  also have "\<dots> \<le> (Suc (length (addrs t)))\<^sup>2"
    using assms by (intro power_mono bheight_size) (simp_all add: is_rbt_def)
  finally show ?thesis .
qed

lemma insert_refines:
  assumes t: "tree_rep s (plug Lf k)" "is_rbt (plug Lf k)"
    and n: "node \<noteq> 0" "aligned node" "node \<in> dom (nodes s)" "node \<notin> set (addrs (plug Lf k))"
    and f: "length k < fuel"
  shows "\<exists>s' t'. do { s \<leftarrow> hev_rbtree_node_link s node (ctx_parent k) (link_of k);
       hev_rbtree_insert_color fuel s node } = Some s' \<and> tree_rep s' t' \<and> is_rbt t' \<and>
     addrs t' = before k @ node # after k \<and> (\<forall>a. a \<notin> set (addrs t') \<longrightarrow> nodes s' a = nodes s a)"
proof -
  let ?t = "Nd Lf Red node Lf"
  from t(1) have z: "zip_rep s Lf k" by (simp add: zip_rep_tree)
  have out: "node \<notin> set (before k)" "node \<notin> set (after k)" using n(4) by auto
  obtain s1 where s1: "hev_rbtree_node_link s node (ctx_parent k) (link_of k) = Some s1"
    "zip_rep s1 ?t k" and fr: "\<And>a. a \<notin> set (addrs (plug ?t k)) \<Longrightarrow> nodes s1 a = nodes s a"
    using node_link_zip [OF z n(1-3) out link_of_eq] by blast
  have inv: "ctx_inv Black 0 k" using t(2) by (simp add: is_rbt_plug)
  have "loop_post s1 (ins_fix ?t k) (insert_color_loop fuel s1 (root_of ?t) (ctx_parent k))"
    using insert_color_refines [OF s1(2) _ _ inv f] by simp
  then obtain s' where s': "insert_color_loop fuel s1 node (ctx_parent k) = Some s'"
    "tree_rep s' (ins_fix ?t k)" and fr': "\<And>a. a \<notin> set (addrs (ins_fix ?t k)) \<Longrightarrow> nodes s' a = nodes s1 a"
    by (auto simp: loop_post_def)
  have "hev_rbtree_insert_color fuel s1 node = Some s'"
    using s1(2) s'(1) by (simp add: hev_rbtree_insert_color_def zip_rep_def rb_ops)
  moreover have "is_rbt (ins_fix ?t k)" using is_rbt_ins_fix [of ?t k] inv by simp
  ultimately show ?thesis
    using s1(1) s'(2) fr fr' by (intro exI [of _ s'] exI [of _ "ins_fix ?t k"]) (simp add: addrs_ins_fix)
qed

end
