(* ===== verification/RBTreeErase.thy ===== *)
theory RBTreeErase
  imports RBTreeInsert
begin

text \<open>
  Removal from the red-black tree: \<open>_hev_rbtree_erase\<close> (unlinking the node, or moving its
  successor into its place) and the rebalancing loop of \<open>_hev_rbtree_erase_color\<close> refine
  functional versions on trees and contexts, which drop exactly the erased node from the
  in-order sequence and restore the red-black invariants.
\<close>

section \<open>One iteration of the rebalancing loop\<close>

text \<open>The part of an iteration after the sibling is known to be black.\<close>

definition erase_tail_L :: "nat \<Rightarrow> HevRBTree \<Rightarrow> addr \<Rightarrow> addr \<Rightarrow> HevRBTree option" where
  "erase_tail_L fuel s parent sibling = do {
      tmp1 \<leftarrow> get_right s sibling;
      b1 \<leftarrow> null_or_black s tmp1;
      tmp2 \<leftarrow> (if b1 then get_left s sibling else Some 0);
      b2 \<leftarrow> (if b1 then null_or_black s tmp2 else Some False);
      if b1 \<and> b2 then do {
        s \<leftarrow> hev_rbtree_node_set_parent_color s sibling parent HEV_RBTREE_RED;
        pr \<leftarrow> hev_rbtree_node_is_red s parent;
        if pr then hev_rbtree_node_set_black s parent
        else do {
          parent' \<leftarrow> hev_rbtree_node_parent s parent;
          if parent' \<noteq> 0 then erase_color_loop fuel s parent parent' else Some s } }
      else do {
        (s, tmp1, sibling) \<leftarrow> (if b1 then do {
            tmp1 \<leftarrow> get_right s tmp2;
            s \<leftarrow> set_left s sibling tmp1;
            s \<leftarrow> set_right s tmp2 sibling;
            s \<leftarrow> set_right s parent tmp2;
            s \<leftarrow> (if tmp1 \<noteq> 0 then hev_rbtree_node_set_parent_color s tmp1 sibling HEV_RBTREE_BLACK
                 else Some s);
            Some (s, sibling, tmp2) } else Some (s, tmp1, sibling));
        tmp2 \<leftarrow> get_left s sibling;
        s \<leftarrow> set_right s parent tmp2;
        s \<leftarrow> set_left s sibling parent;
        s \<leftarrow> hev_rbtree_node_set_parent_color s tmp1 sibling HEV_RBTREE_BLACK;
        s \<leftarrow> (if tmp2 \<noteq> 0 then hev_rbtree_node_set_parent s tmp2 parent else Some s);
        hev_rbtree_rotate_set_parents s parent sibling HEV_RBTREE_BLACK } }"

lemma erase_loop_L:
  "get_right s p = Some sa \<Longrightarrow> node \<noteq> sa \<Longrightarrow> erase_color_loop (Suc fuel) s node p = do {
      sr \<leftarrow> hev_rbtree_node_is_red s sa;
      (s, sibling) \<leftarrow> (if sr then do {
          tmp1 \<leftarrow> get_left s sa;
          s \<leftarrow> set_right s p tmp1;
          s \<leftarrow> set_left s sa p;
          s \<leftarrow> hev_rbtree_node_set_parent_color s tmp1 p HEV_RBTREE_BLACK;
          s \<leftarrow> hev_rbtree_rotate_set_parents s p sa HEV_RBTREE_RED;
          Some (s, tmp1) } else Some (s, sa));
      erase_tail_L fuel s p sibling }"
  unfolding erase_tail_L_def by (simp only: erase_color_loop.simps(2) bind.bind_lunit Let_def simp_thms if_True if_False)

definition erase_tail_R :: "nat \<Rightarrow> HevRBTree \<Rightarrow> addr \<Rightarrow> addr \<Rightarrow> HevRBTree option" where
  "erase_tail_R fuel s parent sibling = do {
      tmp1 \<leftarrow> get_left s sibling;
      b1 \<leftarrow> null_or_black s tmp1;
      tmp2 \<leftarrow> (if b1 then get_right s sibling else Some 0);
      b2 \<leftarrow> (if b1 then null_or_black s tmp2 else Some False);
      if b1 \<and> b2 then do {
        s \<leftarrow> hev_rbtree_node_set_parent_color s sibling parent HEV_RBTREE_RED;
        pr \<leftarrow> hev_rbtree_node_is_red s parent;
        if pr then hev_rbtree_node_set_black s parent
        else do {
          parent' \<leftarrow> hev_rbtree_node_parent s parent;
          if parent' \<noteq> 0 then erase_color_loop fuel s parent parent' else Some s } }
      else do {
        (s, tmp1, sibling) \<leftarrow> (if b1 then do {
            tmp1 \<leftarrow> get_left s tmp2;
            s \<leftarrow> set_right s sibling tmp1;
            s \<leftarrow> set_left s tmp2 sibling;
            s \<leftarrow> set_left s parent tmp2;
            s \<leftarrow> (if tmp1 \<noteq> 0 then hev_rbtree_node_set_parent_color s tmp1 sibling HEV_RBTREE_BLACK
                 else Some s);
            Some (s, sibling, tmp2) } else Some (s, tmp1, sibling));
        tmp2 \<leftarrow> get_right s sibling;
        s \<leftarrow> set_left s parent tmp2;
        s \<leftarrow> set_right s sibling parent;
        s \<leftarrow> hev_rbtree_node_set_parent_color s tmp1 sibling HEV_RBTREE_BLACK;
        s \<leftarrow> (if tmp2 \<noteq> 0 then hev_rbtree_node_set_parent s tmp2 parent else Some s);
        hev_rbtree_rotate_set_parents s parent sibling HEV_RBTREE_BLACK } }"

lemma erase_loop_R:
  "get_right s p = Some node \<Longrightarrow> get_left s p = Some sa \<Longrightarrow> erase_color_loop (Suc fuel) s node p = do {
      sr \<leftarrow> hev_rbtree_node_is_red s sa;
      (s, sibling) \<leftarrow> (if sr then do {
          tmp1 \<leftarrow> get_right s sa;
          s \<leftarrow> set_left s p tmp1;
          s \<leftarrow> set_right s sa p;
          s \<leftarrow> hev_rbtree_node_set_parent_color s tmp1 p HEV_RBTREE_BLACK;
          s \<leftarrow> hev_rbtree_rotate_set_parents s p sa HEV_RBTREE_RED;
          Some (s, tmp1) } else Some (s, sa));
      erase_tail_R fuel s p sibling }"
  unfolding erase_tail_R_def by (simp only: erase_color_loop.simps(2) bind.bind_lunit Let_def simp_thms if_True if_False)

lemmas tail_ops = get_right_def get_left_def set_right_def set_left_def get_pc_def set_pc_def
  hev_rbtree_node_is_red_def hev_rbtree_node_is_black_def hev_rbtree_node_color_def
  hev_rbtree_node_set_black_def hev_rbtree_node_parent_def hev_rbtree_node_set_parent_color_def

lemma erase_sibling_L:
  assumes z: "zip_rep s t (FL c p (Nd sl Red sa sr) # k)" and sl: "sl = Nd a cc b e" and t: "root_of t \<noteq> sa"
  shows "\<exists>s'. erase_color_loop (Suc fuel) s (root_of t) p = erase_tail_L fuel s' p b \<and>
    zip_rep s' t (FL Red p (paint Black sl) # FL c sa sr # k) \<and>
    (\<forall>x. x \<notin> set (addrs (plug t (FL c p (Nd sl Red sa sr) # k))) \<longrightarrow> nodes s' x = nodes s x)"
proof -
  have d: "distinct (before k @ addrs t @ p # addrs a @ b # addrs e @ sa # addrs sr @ after k)"
    and al: "aligned (ctx_parent k)" "aligned p" "aligned sa" "aligned b" "p \<noteq> 0" "sa \<noteq> 0" "b \<noteq> 0"
    and h: "nodes s p = Some \<lparr>parent_color = mk_pc (ctx_parent k) c, n_right = sa, n_left = root_of t\<rparr>"
      "nodes s sa = Some \<lparr>parent_color = p, n_right = root_of sr, n_left = b\<rparr>"
      "nodes s b = Some \<lparr>parent_color = mk_pc sa cc, n_right = root_of e, n_left = root_of a\<rparr>"
    and r: "rep (nodes s) b a" "rep (nodes s) b e" "rep (nodes s) sa sr" "rep (nodes s) p t"
      "rep_ctx (nodes s) (root s) p k"
    using z sl by (auto simp: zip_rep_def dest: rep_ctx_parent_aligned)
  have nin: "p \<notin> set (addrs t)" "p \<notin> set (addrs a)" "p \<notin> set (addrs e)" "p \<notin> set (addrs sr)"
    "sa \<notin> set (addrs t)" "sa \<notin> set (addrs a)" "sa \<notin> set (addrs e)" "sa \<notin> set (addrs sr)"
    "b \<notin> set (addrs t)" "b \<notin> set (addrs a)" "b \<notin> set (addrs e)" "b \<notin> set (addrs sr)"
    and nin': "p \<notin> set (before k)" "p \<notin> set (after k)" "sa \<notin> set (before k)" "sa \<notin> set (after k)"
    "b \<notin> set (before k)" "b \<notin> set (after k)" and ne: "p \<noteq> sa" "p \<noteq> b" "sa \<noteq> b"
    using d by auto
  let ?s = "s\<lparr>nodes := (nodes s)(p \<mapsto> \<lparr>parent_color = mk_pc (ctx_parent k) c, n_right = b, n_left = root_of t\<rparr>,
     sa \<mapsto> \<lparr>parent_color = p, n_right = root_of sr, n_left = p\<rparr>,
     b \<mapsto> \<lparr>parent_color = mk_pc p Black, n_right = root_of e, n_left = root_of a\<rparr>)\<rparr>"
  have eq: "erase_color_loop (Suc fuel) s (root_of t) p =
    do { s \<leftarrow> hev_rbtree_rotate_set_parents ?s p sa HEV_RBTREE_RED; erase_tail_L fuel s p b }"
    using al h nin ne t
    by (simp add: erase_loop_L tail_ops)
  have "\<exists>s'. hev_rbtree_rotate_set_parents ?s p sa HEV_RBTREE_RED = Some s' \<and>
    tree_rep s' (plug (Nd (Nd t Red p (paint Black sl)) c sa sr) k) \<and>
    (\<forall>x. x \<notin> set (addrs (plug (Nd (Nd t Red p (paint Black sl)) c sa sr) k)) \<longrightarrow> nodes s' x = nodes ?s x)"
    by (rule rotate_zip_Red) (use al h nin nin' ne d r sl in simp_all)
  then obtain s' where s': "hev_rbtree_rotate_set_parents ?s p sa HEV_RBTREE_RED = Some s'"
    "zip_rep s' t (FL Red p (paint Black sl) # FL c sa sr # k)"
    "\<forall>x. x \<notin> set (addrs (plug (Nd (Nd t Red p (paint Black sl)) c sa sr) k)) \<longrightarrow> nodes s' x = nodes ?s x"
    by (auto simp: zip_rep_tree)
  show ?thesis
    using eq s' sl by (intro exI [of _ s']) auto
qed

lemma erase_sibling_R:
  assumes z: "zip_rep s t (FR c p (Nd sr Red sa sl) # k)" and sl: "sl = Nd e cc b a" and t: "root_of t \<noteq> sa"
  shows "\<exists>s'. erase_color_loop (Suc fuel) s (root_of t) p = erase_tail_R fuel s' p b \<and>
    zip_rep s' t (FR Red p (paint Black sl) # FR c sa sr # k) \<and>
    (\<forall>x. x \<notin> set (addrs (plug t (FR c p (Nd sr Red sa sl) # k))) \<longrightarrow> nodes s' x = nodes s x)"
proof -
  have d: "distinct (before k @ addrs sr @ sa # addrs e @ b # addrs a @ p # addrs t @ after k)"
    and al: "aligned (ctx_parent k)" "aligned p" "aligned sa" "aligned b" "p \<noteq> 0" "sa \<noteq> 0" "b \<noteq> 0"
    and h: "nodes s p = Some \<lparr>parent_color = mk_pc (ctx_parent k) c, n_right = root_of t, n_left = sa\<rparr>"
      "nodes s sa = Some \<lparr>parent_color = p, n_right = b, n_left = root_of sr\<rparr>"
      "nodes s b = Some \<lparr>parent_color = mk_pc sa cc, n_right = root_of a, n_left = root_of e\<rparr>"
    and r: "rep (nodes s) b a" "rep (nodes s) b e" "rep (nodes s) sa sr" "rep (nodes s) p t"
      "rep_ctx (nodes s) (root s) p k"
    using z sl by (auto simp: zip_rep_def dest: rep_ctx_parent_aligned)
  have nin: "p \<notin> set (addrs t)" "p \<notin> set (addrs a)" "p \<notin> set (addrs e)" "p \<notin> set (addrs sr)"
    "sa \<notin> set (addrs t)" "sa \<notin> set (addrs a)" "sa \<notin> set (addrs e)" "sa \<notin> set (addrs sr)"
    "b \<notin> set (addrs t)" "b \<notin> set (addrs a)" "b \<notin> set (addrs e)" "b \<notin> set (addrs sr)"
    and nin': "p \<notin> set (before k)" "p \<notin> set (after k)" "sa \<notin> set (before k)" "sa \<notin> set (after k)"
    "b \<notin> set (before k)" "b \<notin> set (after k)" and ne: "p \<noteq> sa" "p \<noteq> b" "sa \<noteq> b"
    using d by auto
  let ?s = "s\<lparr>nodes := (nodes s)(p \<mapsto> \<lparr>parent_color = mk_pc (ctx_parent k) c, n_right = root_of t, n_left = b\<rparr>,
     sa \<mapsto> \<lparr>parent_color = p, n_right = p, n_left = root_of sr\<rparr>,
     b \<mapsto> \<lparr>parent_color = mk_pc p Black, n_right = root_of a, n_left = root_of e\<rparr>)\<rparr>"
  have eq: "erase_color_loop (Suc fuel) s (root_of t) p =
    do { s \<leftarrow> hev_rbtree_rotate_set_parents ?s p sa HEV_RBTREE_RED; erase_tail_R fuel s p b }"
    using al h nin ne t
    by (simp add: erase_loop_R tail_ops)
  have "\<exists>s'. hev_rbtree_rotate_set_parents ?s p sa HEV_RBTREE_RED = Some s' \<and>
    tree_rep s' (plug (Nd sr c sa (Nd (paint Black sl) Red p t)) k) \<and>
    (\<forall>x. x \<notin> set (addrs (plug (Nd sr c sa (Nd (paint Black sl) Red p t)) k)) \<longrightarrow> nodes s' x = nodes ?s x)"
    by (rule rotate_zip_Red) (use al h nin nin' ne d r sl in simp_all)
  then obtain s' where s': "hev_rbtree_rotate_set_parents ?s p sa HEV_RBTREE_RED = Some s'"
    "zip_rep s' t (FR Red p (paint Black sl) # FR c sa sr # k)"
    "\<forall>x. x \<notin> set (addrs (plug (Nd sr c sa (Nd (paint Black sl) Red p t)) k)) \<longrightarrow> nodes s' x = nodes ?s x"
    by (auto simp: zip_rep_tree)
  show ?thesis
    using eq s' sl by (intro exI [of _ s']) auto
qed

lemma erase_recolor_L:
  assumes z: "zip_rep s t (FL c p (Nd sl Black sa sr) # k)"
    and col: "colour sl = Black" "colour sr = Black"
  shows "\<exists>s'. erase_tail_L fuel s p sa =
      (if c = Black \<and> k \<noteq> [] then erase_color_loop fuel s' p (ctx_parent k) else Some s') \<and>
    zip_rep s' (Nd t Black p (Nd sl Red sa sr)) k \<and>
    (\<forall>a. a \<notin> set (addrs (plug t (FL c p (Nd sl Black sa sr) # k))) \<longrightarrow> nodes s' a = nodes s a)"
proof -
  have d: "distinct (before k @ addrs t @ p # addrs sl @ sa # addrs sr @ after k)"
    and al: "aligned (ctx_parent k)" "aligned p" "aligned sa" "p \<noteq> 0" "sa \<noteq> 0"
    and h: "nodes s p = Some \<lparr>parent_color = mk_pc (ctx_parent k) c, n_right = sa, n_left = root_of t\<rparr>"
      "nodes s sa = Some \<lparr>parent_color = mk_pc p Black, n_right = root_of sr, n_left = root_of sl\<rparr>"
    and r: "rep (nodes s) sa sl" "rep (nodes s) sa sr" "rep (nodes s) p t" "rep_ctx (nodes s) (root s) p k"
    using z by (auto simp: zip_rep_def dest: rep_ctx_parent_aligned)
  have nin: "p \<notin> set (addrs t)" "p \<notin> set (addrs sl)" "p \<notin> set (addrs sr)" "sa \<notin> set (addrs t)"
    "sa \<notin> set (addrs sl)" "sa \<notin> set (addrs sr)" "p \<notin> set (before k)" "p \<notin> set (after k)"
    "sa \<notin> set (before k)" "sa \<notin> set (after k)" "p \<noteq> sa"
    using d by auto
  let ?s = "s\<lparr>nodes := (nodes s)(sa \<mapsto> \<lparr>parent_color = p, n_right = root_of sr, n_left = root_of sl\<rparr>,
      p \<mapsto> \<lparr>parent_color = mk_pc (ctx_parent k) Black, n_right = sa, n_left = root_of t\<rparr>)\<rparr>"
  have k0: "ctx_parent k = 0 \<longleftrightarrow> k = []" using r(4) by (rule rep_ctx_parent_0)
  have same: "c = Black \<Longrightarrow> s\<lparr>nodes := (nodes s)(sa \<mapsto> \<lparr>parent_color = p, n_right = root_of sr, n_left = root_of sl\<rparr>)\<rparr> = ?s"
    using h nin by (auto intro!: HevRBTree.equality simp: fun_upd_idem fun_upd_twist)
  have "erase_tail_L fuel s p sa =
      (if c = Black \<and> k \<noteq> [] then erase_color_loop fuel ?s p (ctx_parent k) else Some ?s)"
    using al h nin col null_or_black_rep [OF r(1) al(3)] null_or_black_rep [OF r(2) al(3)] same
    by (cases c) (simp_all add: erase_tail_L_def tail_ops k0)
  moreover have "zip_rep ?s (Nd t Black p (Nd sl Red sa sr)) k"
    using al h nin r d by (simp add: zip_rep_def)
  ultimately show ?thesis using nin by (intro exI [of _ ?s]) auto
qed

lemma erase_rotate_L:
  assumes z: "zip_rep s t (FL c p (Nd sl Black sa (Nd srl Red ra srr)) # k)"
  shows "loop_post s (plug (Nd (Nd t Black p sl) c sa (Nd srl Black ra srr)) k) (erase_tail_L fuel s p sa)"
proof -
  have d: "distinct (before k @ addrs t @ p # addrs sl @ sa # addrs srl @ ra # addrs srr @ after k)"
    and al: "aligned (ctx_parent k)" "aligned p" "aligned sa" "aligned ra" "p \<noteq> 0" "sa \<noteq> 0" "ra \<noteq> 0"
    and h: "nodes s p = Some \<lparr>parent_color = mk_pc (ctx_parent k) c, n_right = sa, n_left = root_of t\<rparr>"
      "nodes s sa = Some \<lparr>parent_color = mk_pc p Black, n_right = ra, n_left = root_of sl\<rparr>"
      "nodes s ra = Some \<lparr>parent_color = sa, n_right = root_of srr, n_left = root_of srl\<rparr>"
    and r: "rep (nodes s) sa sl" "rep (nodes s) ra srl" "rep (nodes s) ra srr" "rep (nodes s) p t"
      "rep_ctx (nodes s) (root s) p k"
    using z by (auto simp: zip_rep_def dest: rep_ctx_parent_aligned)
  have nin: "p \<notin> set (addrs t)" "p \<notin> set (addrs sl)" "p \<notin> set (addrs srl)" "p \<notin> set (addrs srr)"
    "sa \<notin> set (addrs t)" "sa \<notin> set (addrs sl)" "sa \<notin> set (addrs srl)" "sa \<notin> set (addrs srr)"
    "ra \<notin> set (addrs t)" "ra \<notin> set (addrs sl)" "ra \<notin> set (addrs srl)" "ra \<notin> set (addrs srr)"
    and nin': "p \<notin> set (before k)" "p \<notin> set (after k)" "sa \<notin> set (before k)" "sa \<notin> set (after k)"
    "ra \<notin> set (before k)" "ra \<notin> set (after k)" and ne: "p \<noteq> sa" "p \<noteq> ra" "sa \<noteq> ra"
    using d by auto
  have dis: "set (addrs sl) \<inter> set (addrs t) = {}" "set (addrs sl) \<inter> set (addrs srl) = {}"
    "set (addrs sl) \<inter> set (addrs srr) = {}" "set (addrs sl) \<inter> (set (before k) \<union> set (after k)) = {}"
    "distinct (addrs sl)"
    using d by auto
  let ?h = "(nodes s)(p \<mapsto> \<lparr>parent_color = mk_pc (ctx_parent k) c, n_right = root_of sl, n_left = root_of t\<rparr>,
     sa \<mapsto> \<lparr>parent_color = mk_pc p Black, n_right = ra, n_left = p\<rparr>,
     ra \<mapsto> \<lparr>parent_color = mk_pc sa Black, n_right = root_of srr, n_left = root_of srl\<rparr>)"
  let ?s = "s\<lparr>nodes := repaint ?h (colour sl) p sl\<rparr>"
  have x: "rep ?h sa sl" using r nin by simp
  have x': "rep (repaint ?h (colour sl) p sl) p sl" using rep_repaint [OF x dis(5), of "colour sl" p] by simp
  have "erase_tail_L fuel s p sa = hev_rbtree_rotate_set_parents ?s p sa HEV_RBTREE_BLACK"
    using al h nin ne set_parent_if [of "s\<lparr>nodes := ?h\<rparr>" sa sl p] x
    by (cases "sl = Lf") (simp_all add: erase_tail_L_def null_or_black_def tail_ops root_of_0 [OF r(1)])
  moreover have "loop_post ?s (plug (Nd (Nd t Black p sl) c sa (Nd srl Black ra srr)) k)
    (hev_rbtree_rotate_set_parents ?s p sa HEV_RBTREE_BLACK)"
    unfolding loop_post_def
    by (rule rotate_zip_Black) (use al h nin nin' ne dis d r x' in simp_all)
  ultimately show ?thesis
    by (auto intro!: loop_post_frame [of ?s])
qed

lemma erase_double_L:
  assumes z: "zip_rep s t (FL c p (Nd (Nd x Red n y) Black sa sr) # k)" and col: "colour sr = Black"
  shows "loop_post s (plug (Nd (Nd t Black p x) c n (Nd (paint Black y) Black sa sr)) k) (erase_tail_L fuel s p sa)"
proof -
  have d: "distinct (before k @ addrs t @ p # addrs x @ n # addrs y @ sa # addrs sr @ after k)"
    and al: "aligned (ctx_parent k)" "aligned p" "aligned sa" "aligned n" "p \<noteq> 0" "sa \<noteq> 0" "n \<noteq> 0"
    and h: "nodes s p = Some \<lparr>parent_color = mk_pc (ctx_parent k) c, n_right = sa, n_left = root_of t\<rparr>"
      "nodes s sa = Some \<lparr>parent_color = mk_pc p Black, n_right = root_of sr, n_left = n\<rparr>"
      "nodes s n = Some \<lparr>parent_color = sa, n_right = root_of y, n_left = root_of x\<rparr>"
    and r: "rep (nodes s) n x" "rep (nodes s) n y" "rep (nodes s) sa sr" "rep (nodes s) p t"
      "rep_ctx (nodes s) (root s) p k"
    using z by (auto simp: zip_rep_def dest: rep_ctx_parent_aligned)
  have nin: "p \<notin> set (addrs t)" "p \<notin> set (addrs x)" "p \<notin> set (addrs y)" "p \<notin> set (addrs sr)"
    "sa \<notin> set (addrs t)" "sa \<notin> set (addrs x)" "sa \<notin> set (addrs y)" "sa \<notin> set (addrs sr)"
    "n \<notin> set (addrs t)" "n \<notin> set (addrs x)" "n \<notin> set (addrs y)" "n \<notin> set (addrs sr)"
    and nin': "p \<notin> set (before k)" "p \<notin> set (after k)" "sa \<notin> set (before k)" "sa \<notin> set (after k)"
    "n \<notin> set (before k)" "n \<notin> set (after k)" and ne: "p \<noteq> sa" "p \<noteq> n" "sa \<noteq> n"
    using d by auto
  have dis: "set (addrs x) \<inter> set (addrs y) = {}" "set (addrs y) \<inter> set (addrs x) = {}"
    "distinct (addrs x)" "distinct (addrs y)" "set (addrs x) \<inter> set (addrs t) = {}"
    "set (addrs y) \<inter> set (addrs t) = {}" "set (addrs x) \<inter> set (addrs sr) = {}"
    "set (addrs y) \<inter> set (addrs sr) = {}" "set (addrs x) \<inter> (set (before k) \<union> set (after k)) = {}"
    "set (addrs y) \<inter> (set (before k) \<union> set (after k)) = {}"
    using d by auto
  let ?h1 = "(nodes s)(sa \<mapsto> \<lparr>parent_color = mk_pc p Black, n_right = root_of sr, n_left = root_of y\<rparr>,
     n \<mapsto> \<lparr>parent_color = sa, n_right = sa, n_left = root_of x\<rparr>,
     p \<mapsto> \<lparr>parent_color = mk_pc (ctx_parent k) c, n_right = n, n_left = root_of t\<rparr>)"
  let ?h2 = "(repaint ?h1 Black sa y)(p \<mapsto> \<lparr>parent_color = mk_pc (ctx_parent k) c, n_right = root_of x, n_left = root_of t\<rparr>,
     n \<mapsto> \<lparr>parent_color = sa, n_right = sa, n_left = p\<rparr>, sa \<mapsto> \<lparr>parent_color = mk_pc n Black, n_right = root_of sr, n_left = root_of y\<rparr>)"
  let ?s = "s\<lparr>nodes := repaint ?h2 (colour x) p x\<rparr>"
  have y: "rep ?h1 n y" and x: "rep ?h2 n x" using r nin dis by simp_all
  have y': "rep (repaint ?h2 (colour x) p x) sa (paint Black y)"
    using rep_repaint [OF y dis(4), of Black sa] nin dis by simp
  have x': "rep (repaint ?h2 (colour x) p x) p x" using rep_repaint [OF x dis(3), of "colour x" p] by simp
  have "erase_tail_L fuel s p sa = hev_rbtree_rotate_set_parents ?s p n HEV_RBTREE_BLACK"
    using al h nin ne col null_or_black_rep [OF r(3) al(3)] x y
      set_parent_color_if [of "s\<lparr>nodes := ?h1\<rparr>" n y sa] set_parent_if [of "s\<lparr>nodes := ?h2\<rparr>" n x p]
    by (cases "x = Lf"; cases "y = Lf")
       (simp_all add: erase_tail_L_def null_or_black_def [of _ n] tail_ops root_of_0 [OF r(1)] root_of_0 [OF r(2)])
  moreover have "loop_post ?s (plug (Nd (Nd t Black p x) c n (Nd (paint Black y) Black sa sr)) k)
    (hev_rbtree_rotate_set_parents ?s p n HEV_RBTREE_BLACK)"
    unfolding loop_post_def
    by (rule rotate_zip_Black) (use al h nin nin' ne dis d r x' y' in simp_all)
  ultimately show ?thesis
    by (auto intro!: loop_post_frame [of ?s])
qed

lemma erase_recolor_R:
  assumes z: "zip_rep s t (FR c p (Nd sr Black sa sl) # k)"
    and col: "colour sl = Black" "colour sr = Black"
  shows "\<exists>s'. erase_tail_R fuel s p sa =
      (if c = Black \<and> k \<noteq> [] then erase_color_loop fuel s' p (ctx_parent k) else Some s') \<and>
    zip_rep s' (Nd (Nd sr Red sa sl) Black p t) k \<and>
    (\<forall>a. a \<notin> set (addrs (plug t (FR c p (Nd sr Black sa sl) # k))) \<longrightarrow> nodes s' a = nodes s a)"
proof -
  have d: "distinct (before k @ addrs sr @ sa # addrs sl @ p # addrs t @ after k)"
    and al: "aligned (ctx_parent k)" "aligned p" "aligned sa" "p \<noteq> 0" "sa \<noteq> 0"
    and h: "nodes s p = Some \<lparr>parent_color = mk_pc (ctx_parent k) c, n_right = root_of t, n_left = sa\<rparr>"
      "nodes s sa = Some \<lparr>parent_color = mk_pc p Black, n_right = root_of sl, n_left = root_of sr\<rparr>"
    and r: "rep (nodes s) sa sl" "rep (nodes s) sa sr" "rep (nodes s) p t" "rep_ctx (nodes s) (root s) p k"
    using z by (auto simp: zip_rep_def dest: rep_ctx_parent_aligned)
  have nin: "p \<notin> set (addrs t)" "p \<notin> set (addrs sl)" "p \<notin> set (addrs sr)" "sa \<notin> set (addrs t)"
    "sa \<notin> set (addrs sl)" "sa \<notin> set (addrs sr)" "p \<notin> set (before k)" "p \<notin> set (after k)"
    "sa \<notin> set (before k)" "sa \<notin> set (after k)" "p \<noteq> sa"
    using d by auto
  let ?s = "s\<lparr>nodes := (nodes s)(sa \<mapsto> \<lparr>parent_color = p, n_right = root_of sl, n_left = root_of sr\<rparr>,
      p \<mapsto> \<lparr>parent_color = mk_pc (ctx_parent k) Black, n_right = root_of t, n_left = sa\<rparr>)\<rparr>"
  have k0: "ctx_parent k = 0 \<longleftrightarrow> k = []" using r(4) by (rule rep_ctx_parent_0)
  have same: "c = Black \<Longrightarrow> s\<lparr>nodes := (nodes s)(sa \<mapsto> \<lparr>parent_color = p, n_right = root_of sl, n_left = root_of sr\<rparr>)\<rparr> = ?s"
    using h nin by (auto intro!: HevRBTree.equality simp: fun_upd_idem fun_upd_twist)
  have "erase_tail_R fuel s p sa =
      (if c = Black \<and> k \<noteq> [] then erase_color_loop fuel ?s p (ctx_parent k) else Some ?s)"
    using al h nin col null_or_black_rep [OF r(1) al(3)] null_or_black_rep [OF r(2) al(3)] same
    by (cases c) (simp_all add: erase_tail_R_def tail_ops k0)
  moreover have "zip_rep ?s (Nd (Nd sr Red sa sl) Black p t) k"
    using al h nin r d by (simp add: zip_rep_def)
  ultimately show ?thesis using nin by (intro exI [of _ ?s]) auto
qed

lemma erase_rotate_R:
  assumes z: "zip_rep s t (FR c p (Nd (Nd srr Red ra srl) Black sa sl) # k)"
  shows "loop_post s (plug (Nd (Nd srr Black ra srl) c sa (Nd sl Black p t)) k) (erase_tail_R fuel s p sa)"
proof -
  have d: "distinct (before k @ addrs srr @ ra # addrs srl @ sa # addrs sl @ p # addrs t @ after k)"
    and al: "aligned (ctx_parent k)" "aligned p" "aligned sa" "aligned ra" "p \<noteq> 0" "sa \<noteq> 0" "ra \<noteq> 0"
    and h: "nodes s p = Some \<lparr>parent_color = mk_pc (ctx_parent k) c, n_right = root_of t, n_left = sa\<rparr>"
      "nodes s sa = Some \<lparr>parent_color = mk_pc p Black, n_right = root_of sl, n_left = ra\<rparr>"
      "nodes s ra = Some \<lparr>parent_color = sa, n_right = root_of srl, n_left = root_of srr\<rparr>"
    and r: "rep (nodes s) sa sl" "rep (nodes s) ra srl" "rep (nodes s) ra srr" "rep (nodes s) p t"
      "rep_ctx (nodes s) (root s) p k"
    using z by (auto simp: zip_rep_def dest: rep_ctx_parent_aligned)
  have nin: "p \<notin> set (addrs t)" "p \<notin> set (addrs sl)" "p \<notin> set (addrs srl)" "p \<notin> set (addrs srr)"
    "sa \<notin> set (addrs t)" "sa \<notin> set (addrs sl)" "sa \<notin> set (addrs srl)" "sa \<notin> set (addrs srr)"
    "ra \<notin> set (addrs t)" "ra \<notin> set (addrs sl)" "ra \<notin> set (addrs srl)" "ra \<notin> set (addrs srr)"
    and nin': "p \<notin> set (before k)" "p \<notin> set (after k)" "sa \<notin> set (before k)" "sa \<notin> set (after k)"
    "ra \<notin> set (before k)" "ra \<notin> set (after k)" and ne: "p \<noteq> sa" "p \<noteq> ra" "sa \<noteq> ra"
    using d by auto
  have dis: "set (addrs sl) \<inter> set (addrs t) = {}" "set (addrs sl) \<inter> set (addrs srl) = {}"
    "set (addrs sl) \<inter> set (addrs srr) = {}" "set (addrs sl) \<inter> (set (before k) \<union> set (after k)) = {}"
    "distinct (addrs sl)"
    using d by auto
  let ?h = "(nodes s)(p \<mapsto> \<lparr>parent_color = mk_pc (ctx_parent k) c, n_right = root_of t, n_left = root_of sl\<rparr>,
     sa \<mapsto> \<lparr>parent_color = mk_pc p Black, n_right = p, n_left = ra\<rparr>,
     ra \<mapsto> \<lparr>parent_color = mk_pc sa Black, n_right = root_of srl, n_left = root_of srr\<rparr>)"
  let ?s = "s\<lparr>nodes := repaint ?h (colour sl) p sl\<rparr>"
  have x: "rep ?h sa sl" using r nin by simp
  have x': "rep (repaint ?h (colour sl) p sl) p sl" using rep_repaint [OF x dis(5), of "colour sl" p] by simp
  have "erase_tail_R fuel s p sa = hev_rbtree_rotate_set_parents ?s p sa HEV_RBTREE_BLACK"
    using al h nin ne set_parent_if [of "s\<lparr>nodes := ?h\<rparr>" sa sl p] x
    by (cases "sl = Lf") (simp_all add: erase_tail_R_def null_or_black_def tail_ops root_of_0 [OF r(1)])
  moreover have "loop_post ?s (plug (Nd (Nd srr Black ra srl) c sa (Nd sl Black p t)) k)
    (hev_rbtree_rotate_set_parents ?s p sa HEV_RBTREE_BLACK)"
    unfolding loop_post_def
    by (rule rotate_zip_Black) (use al h nin nin' ne dis d r x' in simp_all)
  ultimately show ?thesis
    by (auto intro!: loop_post_frame [of ?s])
qed

lemma erase_double_R:
  assumes z: "zip_rep s t (FR c p (Nd sr Black sa (Nd y Red n x)) # k)" and col: "colour sr = Black"
  shows "loop_post s (plug (Nd (Nd sr Black sa (paint Black y)) c n (Nd x Black p t)) k) (erase_tail_R fuel s p sa)"
proof -
  have d: "distinct (before k @ addrs sr @ sa # addrs y @ n # addrs x @ p # addrs t @ after k)"
    and al: "aligned (ctx_parent k)" "aligned p" "aligned sa" "aligned n" "p \<noteq> 0" "sa \<noteq> 0" "n \<noteq> 0"
    and h: "nodes s p = Some \<lparr>parent_color = mk_pc (ctx_parent k) c, n_right = root_of t, n_left = sa\<rparr>"
      "nodes s sa = Some \<lparr>parent_color = mk_pc p Black, n_right = n, n_left = root_of sr\<rparr>"
      "nodes s n = Some \<lparr>parent_color = sa, n_right = root_of x, n_left = root_of y\<rparr>"
    and r: "rep (nodes s) n x" "rep (nodes s) n y" "rep (nodes s) sa sr" "rep (nodes s) p t"
      "rep_ctx (nodes s) (root s) p k"
    using z by (auto simp: zip_rep_def dest: rep_ctx_parent_aligned)
  have nin: "p \<notin> set (addrs t)" "p \<notin> set (addrs x)" "p \<notin> set (addrs y)" "p \<notin> set (addrs sr)"
    "sa \<notin> set (addrs t)" "sa \<notin> set (addrs x)" "sa \<notin> set (addrs y)" "sa \<notin> set (addrs sr)"
    "n \<notin> set (addrs t)" "n \<notin> set (addrs x)" "n \<notin> set (addrs y)" "n \<notin> set (addrs sr)"
    and nin': "p \<notin> set (before k)" "p \<notin> set (after k)" "sa \<notin> set (before k)" "sa \<notin> set (after k)"
    "n \<notin> set (before k)" "n \<notin> set (after k)" and ne: "p \<noteq> sa" "p \<noteq> n" "sa \<noteq> n"
    using d by auto
  have dis: "set (addrs x) \<inter> set (addrs y) = {}" "set (addrs y) \<inter> set (addrs x) = {}"
    "distinct (addrs x)" "distinct (addrs y)" "set (addrs x) \<inter> set (addrs t) = {}"
    "set (addrs y) \<inter> set (addrs t) = {}" "set (addrs x) \<inter> set (addrs sr) = {}"
    "set (addrs y) \<inter> set (addrs sr) = {}" "set (addrs x) \<inter> (set (before k) \<union> set (after k)) = {}"
    "set (addrs y) \<inter> (set (before k) \<union> set (after k)) = {}"
    using d by auto
  let ?h1 = "(nodes s)(sa \<mapsto> \<lparr>parent_color = mk_pc p Black, n_right = root_of y, n_left = root_of sr\<rparr>,
     n \<mapsto> \<lparr>parent_color = sa, n_right = root_of x, n_left = sa\<rparr>,
     p \<mapsto> \<lparr>parent_color = mk_pc (ctx_parent k) c, n_right = root_of t, n_left = n\<rparr>)"
  let ?h2 = "(repaint ?h1 Black sa y)(p \<mapsto> \<lparr>parent_color = mk_pc (ctx_parent k) c, n_right = root_of t, n_left = root_of x\<rparr>,
     n \<mapsto> \<lparr>parent_color = sa, n_right = p, n_left = sa\<rparr>, sa \<mapsto> \<lparr>parent_color = mk_pc n Black, n_right = root_of y, n_left = root_of sr\<rparr>)"
  let ?s = "s\<lparr>nodes := repaint ?h2 (colour x) p x\<rparr>"
  have y: "rep ?h1 n y" and x: "rep ?h2 n x" using r nin dis by simp_all
  have y': "rep (repaint ?h2 (colour x) p x) sa (paint Black y)"
    using rep_repaint [OF y dis(4), of Black sa] nin dis by simp
  have x': "rep (repaint ?h2 (colour x) p x) p x" using rep_repaint [OF x dis(3), of "colour x" p] by simp
  have "erase_tail_R fuel s p sa = hev_rbtree_rotate_set_parents ?s p n HEV_RBTREE_BLACK"
    using al h nin ne col null_or_black_rep [OF r(3) al(3)] x y
      set_parent_color_if [of "s\<lparr>nodes := ?h1\<rparr>" n y sa] set_parent_if [of "s\<lparr>nodes := ?h2\<rparr>" n x p]
    by (cases "x = Lf"; cases "y = Lf")
       (simp_all add: erase_tail_R_def null_or_black_def [of _ n] tail_ops root_of_0 [OF r(1)] root_of_0 [OF r(2)])
  moreover have "loop_post ?s (plug (Nd (Nd sr Black sa (paint Black y)) c n (Nd x Black p t)) k)
    (hev_rbtree_rotate_set_parents ?s p n HEV_RBTREE_BLACK)"
    unfolding loop_post_def
    by (rule rotate_zip_Black) (use al h nin nin' ne dis d r x' y' in simp_all)
  ultimately show ?thesis
    by (auto intro!: loop_post_frame [of ?s])
qed

section \<open>The functional rebalancing\<close>

definition fix_L :: "rbt \<Rightarrow> color \<Rightarrow> addr \<Rightarrow> rbt \<Rightarrow> addr \<Rightarrow> rbt \<Rightarrow> rbt" where
  "fix_L t c p sl sa sr =
     (if colour sl = Black \<and> colour sr = Black then Nd t Black p (Nd sl Red sa sr)
      else if colour sr = Black then (case sl of Lf \<Rightarrow> Lf
        | Nd x _ n y \<Rightarrow> Nd (Nd t Black p x) c n (Nd (paint Black y) Black sa sr))
      else Nd (Nd t Black p sl) c sa (paint Black sr))"

definition fix_R :: "rbt \<Rightarrow> color \<Rightarrow> addr \<Rightarrow> rbt \<Rightarrow> addr \<Rightarrow> rbt \<Rightarrow> rbt" where
  "fix_R t c p sl sa sr =
     (if colour sl = Black \<and> colour sr = Black then Nd (Nd sr Red sa sl) Black p t
      else if colour sr = Black then (case sl of Lf \<Rightarrow> Lf
        | Nd y _ n x \<Rightarrow> Nd (Nd sr Black sa (paint Black y)) c n (Nd x Black p t))
      else Nd (paint Black sr) c sa (Nd sl Black p t))"

fun del_fix :: "rbt \<Rightarrow> ctx \<Rightarrow> rbt" where
  "del_fix t [] = t"
| "del_fix t (FL c p Lf # k) = plug t (FL c p Lf # k)"
| "del_fix t (FR c p Lf # k) = plug t (FR c p Lf # k)"
| "del_fix t (FL c p (Nd sl Red sa sr) # k) = (case sl of Lf \<Rightarrow> Lf
     | Nd x _ n y \<Rightarrow> plug (fix_L t Red p x n y) (FL c sa sr # k))"
| "del_fix t (FR c p (Nd sr Red sa sl) # k) = (case sl of Lf \<Rightarrow> Lf
     | Nd y _ n x \<Rightarrow> plug (fix_R t Red p x n y) (FR c sa sr # k))"
| "del_fix t (FL c p (Nd sl Black sa sr) # k) =
     (if c = Black \<and> colour sl = Black \<and> colour sr = Black then del_fix (fix_L t c p sl sa sr) k
      else plug (fix_L t c p sl sa sr) k)"
| "del_fix t (FR c p (Nd sr Black sa sl) # k) =
     (if c = Black \<and> colour sl = Black \<and> colour sr = Black then del_fix (fix_R t c p sl sa sr) k
      else plug (fix_R t c p sl sa sr) k)"

lemma addrs_fix_L [simp]: "addrs (fix_L t c p sl sa sr) = addrs t @ p # addrs sl @ sa # addrs sr"
  by (cases sl) (auto simp: fix_L_def)

lemma addrs_fix_R [simp]: "addrs (fix_R t c p sl sa sr) = addrs sr @ sa # addrs sl @ p # addrs t"
  by (cases sl) (auto simp: fix_R_def)

lemma addrs_del_fix:
  "ctx_inv Black (Suc n) k \<Longrightarrow> addrs (del_fix t k) = before k @ addrs t @ after k"
proof (induction t k arbitrary: n rule: del_fix.induct)
  case (4 t c p sl sa sr k)
  then show ?case by (cases sl) auto
next
  case (5 t c p sr sa sl k)
  then show ?case by (cases sl) auto
next
  case (6 t c p sl sa sr k)
  then show ?case by (auto simp: ctx_inv_Black)
next
  case (7 t c p sl sa sr k)
  then show ?case by (auto simp: ctx_inv_Black)
qed auto

lemma is_rbt_del_fix:
  assumes "invc t" "invh t" "colour t = Black" "ctx_inv Black (Suc (bheight t)) k"
  shows "is_rbt (del_fix t k)"
  using assms
proof (induction t k rule: del_fix.induct)
  case (4 t c p sl sa sr k)
  then obtain x n y where "sl = Nd x Black n y" by (cases sl) auto
  with 4 show ?case
    by (cases x; cases y) (auto simp: is_rbt_plug fix_L_def paint_same ctx_inv_Black split: rbt.splits if_splits)
next
  case (5 t c p sr sa sl k)
  then obtain x n y where "sl = Nd y Black n x" by (cases sl) auto
  with 5 show ?case
    by (cases x; cases y) (auto simp: is_rbt_plug fix_R_def paint_same ctx_inv_Black split: rbt.splits if_splits)
next
  case (6 t c p sl sa sr k)
  then show ?case
    by (cases sl; cases sr) (auto simp: is_rbt_plug fix_L_def paint_same ctx_inv_Black split: rbt.splits if_splits)
next
  case (7 t c p sl sa sr k)
  then show ?case
    by (cases sl; cases sr) (auto simp: is_rbt_plug fix_R_def paint_same ctx_inv_Black split: rbt.splits if_splits)
qed (auto simp: is_rbt_def)

section \<open>The loop refines it\<close>

lemma erase_tail_L_post:
  assumes z: "zip_rep s t (FL c p (Nd sl Black sa sr) # k)"
    and "\<not> (c = Black \<and> colour sl = Black \<and> colour sr = Black)"
  shows "loop_post s (plug (fix_L t c p sl sa sr) k) (erase_tail_L fuel s p sa)"
proof -
  consider "colour sl = Black" "colour sr = Black" "c = Red"
    | x n y where "sl = Nd x Red n y" "colour sr = Black"
    | x n y where "sr = Nd x Red n y"
    using assms(2) by (cases sl; cases sr) (auto, (metis color.exhaust)+)
  then show ?thesis
  proof cases
    case 1
    then obtain s' where "erase_tail_L fuel s p sa = Some s'" "zip_rep s' (fix_L t c p sl sa sr) k"
      "\<forall>a. a \<notin> set (addrs (plug t (FL c p (Nd sl Black sa sr) # k))) \<longrightarrow> nodes s' a = nodes s a"
      using erase_recolor_L [OF z, of fuel] by (auto simp: fix_L_def)
    then show ?thesis by (auto simp: loop_post_def zip_rep_tree)
  next
    case 2
    with erase_double_L [of s t c p x n y sa sr k fuel] z show ?thesis by (simp add: fix_L_def)
  next
    case 3
    with erase_rotate_L [of s t c p sl sa x n y k fuel] z show ?thesis by (simp add: fix_L_def)
  qed
qed

lemma erase_tail_R_post:
  assumes z: "zip_rep s t (FR c p (Nd sr Black sa sl) # k)"
    and "\<not> (c = Black \<and> colour sl = Black \<and> colour sr = Black)"
  shows "loop_post s (plug (fix_R t c p sl sa sr) k) (erase_tail_R fuel s p sa)"
proof -
  consider "colour sl = Black" "colour sr = Black" "c = Red"
    | x n y where "sl = Nd y Red n x" "colour sr = Black"
    | x n y where "sr = Nd y Red n x"
    using assms(2) by (cases sl; cases sr) (auto, (metis color.exhaust)+)
  then show ?thesis
  proof cases
    case 1
    then obtain s' where "erase_tail_R fuel s p sa = Some s'" "zip_rep s' (fix_R t c p sl sa sr) k"
      "\<forall>a. a \<notin> set (addrs (plug t (FR c p (Nd sr Black sa sl) # k))) \<longrightarrow> nodes s' a = nodes s a"
      using erase_recolor_R [OF z, of fuel] by (auto simp: fix_R_def)
    then show ?thesis by (auto simp: loop_post_def zip_rep_tree)
  next
    case 2
    with erase_double_R [of s t c p sr sa y n x k fuel] z show ?thesis by (simp add: fix_R_def)
  next
    case 3
    with erase_rotate_R [of s t c p y n x sa sl k fuel] z show ?thesis by (simp add: fix_R_def)
  qed
qed

lemma erase_red_L:
  assumes z: "zip_rep s t (FL c p (Nd sl Red sa sr) # k)" and sl: "sl = Nd x Black n y"
    and t: "root_of t \<noteq> sa"
  shows "loop_post s (del_fix t (FL c p (Nd sl Red sa sr) # k)) (erase_color_loop (Suc fuel) s (root_of t) p)"
proof -
  obtain s' where s': "erase_color_loop (Suc fuel) s (root_of t) p = erase_tail_L fuel s' p n"
    "zip_rep s' t (FL Red p sl # FL c sa sr # k)"
    and fr: "\<forall>x. x \<notin> set (addrs (plug t (FL c p (Nd sl Red sa sr) # k))) \<longrightarrow> nodes s' x = nodes s x"
    using erase_sibling_L [OF z sl t, of fuel] sl by auto
  have "loop_post s' (plug (fix_L t Red p x n y) (FL c sa sr # k)) (erase_tail_L fuel s' p n)"
    using s'(2) sl by (intro erase_tail_L_post) auto
  then show ?thesis
    using s'(1) fr sl by (auto intro!: loop_post_frame [of s'])
qed

lemma erase_black_L:
  assumes z: "zip_rep s t (FL c p (Nd sl Black sa sr) # k)" and t: "root_of t \<noteq> sa"
    and inv: "ctx_inv Black (Suc n) k"
    and IH: "c = Black \<and> colour sl = Black \<and> colour sr = Black \<Longrightarrow> k \<noteq> [] \<Longrightarrow>
      (\<And>s'. zip_rep s' (fix_L t c p sl sa sr) k \<Longrightarrow>
        loop_post s' (del_fix (fix_L t c p sl sa sr) k) (erase_color_loop fuel s' p (ctx_parent k)))"
  shows "loop_post s (del_fix t (FL c p (Nd sl Black sa sr) # k))
    (erase_color_loop (Suc fuel) s (root_of t) p)"
proof -
  have eq: "erase_color_loop (Suc fuel) s (root_of t) p = erase_tail_L fuel s p sa"
    using z t by (auto simp: erase_loop_L zip_rep_def tail_ops)
  show ?thesis
  proof (cases "c = Black \<and> colour sl = Black \<and> colour sr = Black")
    case False
    then show ?thesis using erase_tail_L_post [OF z False] eq by auto
  next
    case True
    then obtain s' where s': "erase_tail_L fuel s p sa =
        (if k \<noteq> [] then erase_color_loop fuel s' p (ctx_parent k) else Some s')"
      "zip_rep s' (fix_L t c p sl sa sr) k"
      and fr: "\<forall>a. a \<notin> set (addrs (plug t (FL c p (Nd sl Black sa sr) # k))) \<longrightarrow> nodes s' a = nodes s a"
      using erase_recolor_L [OF z, of fuel] by (auto simp: fix_L_def)
    have "loop_post s' (del_fix (fix_L t c p sl sa sr) k) (erase_color_loop (Suc fuel) s (root_of t) p)"
    proof (cases "k = []")
      case True
      then show ?thesis using s' eq by (simp add: loop_post_same zip_rep_tree)
    next
      case False
      then show ?thesis using IH [OF True False s'(2)] s'(1) eq by simp
    qed
    then have "loop_post s (del_fix (fix_L t c p sl sa sr) k) (erase_color_loop (Suc fuel) s (root_of t) p)"
      by (rule loop_post_frame) (use fr inv in \<open>auto simp: addrs_del_fix\<close>)
    with True show ?thesis by auto
  qed
qed

lemma erase_red_R:
  assumes z: "zip_rep s t (FR c p (Nd sr Red sa sl) # k)" and sl: "sl = Nd y Black n x"
    and t: "root_of t \<noteq> sa"
  shows "loop_post s (del_fix t (FR c p (Nd sr Red sa sl) # k)) (erase_color_loop (Suc fuel) s (root_of t) p)"
proof -
  obtain s' where s': "erase_color_loop (Suc fuel) s (root_of t) p = erase_tail_R fuel s' p n"
    "zip_rep s' t (FR Red p sl # FR c sa sr # k)"
    and fr: "\<forall>x. x \<notin> set (addrs (plug t (FR c p (Nd sr Red sa sl) # k))) \<longrightarrow> nodes s' x = nodes s x"
    using erase_sibling_R [OF z sl t, of fuel] sl by auto
  have "loop_post s' (plug (fix_R t Red p x n y) (FR c sa sr # k)) (erase_tail_R fuel s' p n)"
    using s'(2) sl by (intro erase_tail_R_post) auto
  then show ?thesis
    using s'(1) fr sl by (auto intro!: loop_post_frame [of s'])
qed

lemma erase_black_R:
  assumes z: "zip_rep s t (FR c p (Nd sr Black sa sl) # k)" and t: "root_of t \<noteq> sa"
    and inv: "ctx_inv Black (Suc n) k"
    and IH: "c = Black \<and> colour sl = Black \<and> colour sr = Black \<Longrightarrow> k \<noteq> [] \<Longrightarrow>
      (\<And>s'. zip_rep s' (fix_R t c p sl sa sr) k \<Longrightarrow>
        loop_post s' (del_fix (fix_R t c p sl sa sr) k) (erase_color_loop fuel s' p (ctx_parent k)))"
  shows "loop_post s (del_fix t (FR c p (Nd sr Black sa sl) # k))
    (erase_color_loop (Suc fuel) s (root_of t) p)"
proof -
  have eq: "erase_color_loop (Suc fuel) s (root_of t) p = erase_tail_R fuel s p sa"
    using z t by (auto simp: erase_loop_R zip_rep_def tail_ops)
  show ?thesis
  proof (cases "c = Black \<and> colour sl = Black \<and> colour sr = Black")
    case False
    then show ?thesis using erase_tail_R_post [OF z False] eq by auto
  next
    case True
    then obtain s' where s': "erase_tail_R fuel s p sa =
        (if k \<noteq> [] then erase_color_loop fuel s' p (ctx_parent k) else Some s')"
      "zip_rep s' (fix_R t c p sl sa sr) k"
      and fr: "\<forall>a. a \<notin> set (addrs (plug t (FR c p (Nd sr Black sa sl) # k))) \<longrightarrow> nodes s' a = nodes s a"
      using erase_recolor_R [OF z, of fuel] by (auto simp: fix_R_def)
    have "loop_post s' (del_fix (fix_R t c p sl sa sr) k) (erase_color_loop (Suc fuel) s (root_of t) p)"
    proof (cases "k = []")
      case True
      then show ?thesis using s' eq by (simp add: loop_post_same zip_rep_tree)
    next
      case False
      then show ?thesis using IH [OF True False s'(2)] s'(1) eq by simp
    qed
    then have "loop_post s (del_fix (fix_R t c p sl sa sr) k) (erase_color_loop (Suc fuel) s (root_of t) p)"
      by (rule loop_post_frame) (use fr inv in \<open>auto simp: addrs_del_fix\<close>)
    with True show ?thesis by auto
  qed
qed

lemma erase_color_refines:
  assumes "zip_rep s t k" "k \<noteq> []" "ctx_inv Black (Suc n) k" "length k \<le> fuel"
  shows "loop_post s (del_fix t k) (erase_color_loop fuel s (root_of t) (ctx_parent k))"
  using assms
proof (induction t k arbitrary: s n fuel rule: del_fix.induct)
  case (4 t c p sl sa sr k)
  from 4 obtain f where f: "fuel = Suc f" by (cases fuel) auto
  have t: "root_of t \<noteq> sa" using 4 by (cases t) (auto simp: zip_rep_def)
  obtain x m y where "sl = Nd x Black m y" using 4 by (cases sl) auto
  with 4 f t show ?case using erase_red_L [of s t c p sl sa sr k x m y f] by simp
next
  case (5 t c p sr sa sl k)
  from 5 obtain f where f: "fuel = Suc f" by (cases fuel) auto
  have t: "root_of t \<noteq> sa" using 5 by (cases t) (auto simp: zip_rep_def)
  obtain x m y where "sl = Nd y Black m x" using 5 by (cases sl) auto
  with 5 f t show ?case using erase_red_R [of s t c p sr sa sl k y m x f] by simp
next
  case (6 t c p sl sa sr k)
  from 6 obtain f where f: "fuel = Suc f" by (cases fuel) auto
  have t: "root_of t \<noteq> sa" using 6 by (cases t) (auto simp: zip_rep_def)
  have inv: "ctx_inv Black (Suc (if c = Black then Suc n else n)) k"
    using 6(4) by (auto simp: ctx_inv_Black split: if_splits)
  have "loop_post s (del_fix t (FL c p (Nd sl Black sa sr) # k)) (erase_color_loop (Suc f) s (root_of t) p)"
  proof (rule erase_black_L [OF 6(2) t inv])
    fix s'
    assume c: "c = Black \<and> colour sl = Black \<and> colour sr = Black" and "k \<noteq> []"
      and "zip_rep s' (fix_L t c p sl sa sr) k"
    then have "loop_post s' (del_fix (fix_L t c p sl sa sr) k)
        (erase_color_loop f s' (root_of (fix_L t c p sl sa sr)) (ctx_parent k))"
      using 6(5) f inv by (intro 6(1)) auto
    then show "loop_post s' (del_fix (fix_L t c p sl sa sr) k) (erase_color_loop f s' p (ctx_parent k))"
      using c by (simp add: fix_L_def)
  qed
  then show ?case using f by simp
next
  case (7 t c p sr sa sl k)
  from 7 obtain f where f: "fuel = Suc f" by (cases fuel) auto
  have t: "root_of t \<noteq> sa" using 7 by (cases t) (auto simp: zip_rep_def)
  have inv: "ctx_inv Black (Suc (if c = Black then Suc n else n)) k"
    using 7(4) by (auto simp: ctx_inv_Black split: if_splits)
  have "loop_post s (del_fix t (FR c p (Nd sr Black sa sl) # k)) (erase_color_loop (Suc f) s (root_of t) p)"
  proof (rule erase_black_R [OF 7(2) t inv])
    fix s'
    assume c: "c = Black \<and> colour sl = Black \<and> colour sr = Black" and "k \<noteq> []"
      and "zip_rep s' (fix_R t c p sl sa sr) k"
    then have "loop_post s' (del_fix (fix_R t c p sl sa sr) k)
        (erase_color_loop f s' (root_of (fix_R t c p sl sa sr)) (ctx_parent k))"
      using 7(5) f inv by (intro 7(1)) auto
    then show "loop_post s' (del_fix (fix_R t c p sl sa sr) k) (erase_color_loop f s' p (ctx_parent k))"
      using c by (simp add: fix_R_def)
  qed
  then show ?case using f by simp
qed auto

section \<open>Path segments\<close>

text \<open>A segment is a path of left links below a node \<open>q\<close>, innermost frame first.\<close>

fun all_left :: "ctx \<Rightarrow> bool" where
  "all_left [] = True"
| "all_left (FL c a r # ks) = all_left ks"
| "all_left (FR c a l # ks) = False"

definition seg_parent :: "addr \<Rightarrow> ctx \<Rightarrow> addr" where
  "seg_parent q ks = (if ks = [] then q else ctx_parent ks)"

lemma seg_parent_simps [simp]:
  "seg_parent q [] = q" "seg_parent q (FL c a r # ks) = a" "seg_parent q (FR c a r # ks) = a"
  by (simp_all add: seg_parent_def)

fun rep_seg :: "(addr \<rightharpoonup> HevRBTreeNode) \<Rightarrow> addr \<Rightarrow> ctx \<Rightarrow> addr \<Rightarrow> bool" where
  "rep_seg h q [] x = True"
| "rep_seg h q (FL c a r # ks) x \<longleftrightarrow> a \<noteq> 0 \<and> aligned a \<and>
     h a = Some \<lparr>parent_color = mk_pc (seg_parent q ks) c, n_right = root_of r, n_left = x\<rparr> \<and>
     rep h a r \<and> rep_seg h q ks a"
| "rep_seg h q (FR c a l # ks) x = False"

lemma plug_append: "plug t (ks @ k) = plug (plug t ks) k"
  by (induction t ks rule: plug.induct) auto

lemma before_all_left [simp]: "all_left ks \<Longrightarrow> before ks = []"
  by (induction ks rule: all_left.induct) auto

lemma rep_plug_seg:
  "all_left ks \<Longrightarrow> rep h q (plug t ks) \<longleftrightarrow> rep h (seg_parent q ks) t \<and> rep_seg h q ks (root_of t)"
  by (induction t ks rule: plug.induct) auto

lemma rep_agree: "(\<And>a. a \<in> set (addrs t) \<Longrightarrow> h' a = h a) \<Longrightarrow> rep h' q t = rep h q t"
  by (induction t arbitrary: q) auto

lemma rep_seg_agree: "(\<And>a. a \<in> set (after ks) \<Longrightarrow> h' a = h a) \<Longrightarrow> rep_seg h' q ks x = rep_seg h q ks x"
proof (induction h q ks x rule: rep_seg.induct)
  case (2 h q c a r ks x)
  moreover have "rep h' a r = rep h a r" using 2(2) by (intro rep_agree) simp
  ultimately show ?case by simp
qed auto

lemma rep_ctx_agree:
  "(\<And>a. a \<in> set (before k) \<union> set (after k) \<Longrightarrow> h' a = h a) \<Longrightarrow> rep_ctx h' rt x k = rep_ctx h rt x k"
proof (induction h rt x k rule: rep_ctx.induct)
  case (2 h rt x c a r k)
  moreover have "rep h' a r = rep h a r" using 2(2) by (intro rep_agree) simp
  moreover have "rep_ctx h' rt a k = rep_ctx h rt a k" using 2(2) by (intro 2(1)) auto
  ultimately show ?case by simp
next
  case (3 h rt x c a r k)
  moreover have "rep h' a r = rep h a r" using 3(2) by (intro rep_agree) simp
  moreover have "rep_ctx h' rt a k = rep_ctx h rt a k" using 3(2) by (intro 3(1)) auto
  ultimately show ?case by simp
qed auto

lemma rep_seg_frame [simp]: "x \<notin> set (after ks) \<Longrightarrow> rep_seg (h(x := v)) q ks y = rep_seg h q ks y"
  by (rule rep_seg_agree) auto

lemma rep_seg_repaint [simp]:
  "set (addrs t) \<inter> set (after ks) = {} \<Longrightarrow> rep_seg (repaint h d q' t) q ks y = rep_seg h q ks y"
  by (intro rep_seg_agree repaint_other) auto

lemma rep_seg_relink [simp]:
  "set (after ks) \<inter> (set (before k) \<union> set (after k)) = {} \<Longrightarrow>
     rep_seg (nodes (relink s z k)) q ks y = rep_seg (nodes s) q ks y"
  by (intro rep_seg_agree relink_frame) auto

lemma root_of_plug: "root_of (plug t ks) = (if ks = [] then root_of t else frame_addr (last ks))"
  by (induction t ks rule: plug.induct) auto

lemma root_of_plug_paint [simp]: "root_of (plug (paint d t) ks) = root_of (plug t ks)"
  by (simp add: root_of_plug)

lemma rep_seg_hole:
  assumes "rep_seg h q (FL c p r # ks) x" and "distinct (after (FL c p r # ks))"
  shows "rep_seg (h(p \<mapsto> \<lparr>parent_color = mk_pc (seg_parent q ks) c, n_right = root_of r, n_left = y\<rparr>))
    q (FL c p r # ks) y"
proof -
  have "rep_seg (h(p \<mapsto> v)) q ks p = rep_seg h q ks p" for v
    using assms(2) by (intro rep_seg_agree) auto
  with assms show ?thesis by simp
qed

lemma seg_aligned: "rep_seg h q ks x \<Longrightarrow> aligned q \<Longrightarrow> aligned (seg_parent q ks)"
  by (cases ks rule: all_left.cases) auto

lemma seg_parent_in: "ks \<noteq> [] \<Longrightarrow> all_left ks \<Longrightarrow> seg_parent q ks \<in> set (after ks)"
  by (cases ks rule: all_left.cases) auto

text \<open>Giving the top of a segment another parent.\<close>

lemma seg_set_parent:
  assumes "rep_seg (nodes s) q ks x" "all_left ks" "ks \<noteq> []" "distinct (after ks)" "aligned q"
  shows "\<exists>s'. hev_rbtree_node_set_parent s (root_of (plug t ks)) q' = Some s' \<and> root s' = root s \<and>
    rep_seg (nodes s') q' ks x \<and> (\<forall>a. a \<notin> set (after ks) \<longrightarrow> nodes s' a = nodes s a)"
  using assms
proof (induction ks arbitrary: x t rule: all_left.induct)
  case (2 c a r ks)
  show ?case
  proof (cases "ks = []")
    case True
    with 2 show ?thesis by (auto simp: rb_ops)
  next
    case False
    then obtain s' where s': "hev_rbtree_node_set_parent s (root_of (plug (Nd t c a r) ks)) q' = Some s'"
      "root s' = root s" "rep_seg (nodes s') q' ks a" and fr: "\<forall>a. a \<notin> set (after ks) \<longrightarrow> nodes s' a = nodes s a"
      using 2(1) [of a "Nd t c a r"] 2(2-6) by auto
    have "rep (nodes s') a r" "nodes s' a = nodes s a"
      using 2(2,5) fr rep_agree [of r "nodes s'" "nodes s" a] by auto
    with s' fr 2 False show ?thesis by (intro exI [of _ s']) (auto simp: seg_parent_def)
  qed
qed auto

lemma all_left_append [simp]: "all_left (ks @ ks') \<longleftrightarrow> all_left ks \<and> all_left ks'"
  by (induction ks rule: all_left.induct) auto

lemma leftmost_path:
  "t \<noteq> Lf \<Longrightarrow> \<exists>sc sa sr ks. t = plug (Nd Lf sc sa sr) ks \<and> all_left ks"
proof (induction t)
  case (Nd l c a r)
  show ?case
  proof (cases "l = Lf")
    case True
    then show ?thesis by (intro exI [of _ c] exI [of _ a] exI [of _ r] exI [of _ "[]"]) simp
  next
    case False
    then obtain sc sa sr ks where "l = plug (Nd Lf sc sa sr) ks" "all_left ks" using Nd by blast
    then show ?thesis
      by (intro exI [of _ sc] exI [of _ sa] exI [of _ sr] exI [of _ "ks @ [FL c a r]"]) (simp add: plug_append)
  qed
qed simp

lemma plug_not_Lf: "t \<noteq> Lf \<Longrightarrow> plug t k \<noteq> Lf"
  by (induction t k rule: plug.induct) auto

lemma successor_loop_seg:
  assumes "rep (nodes s) q (plug (Nd Lf sc sa sr) ks)" "all_left ks" "length ks < fuel"
  shows "successor_loop fuel s par (root_of (plug (Nd Lf sc sa sr) ks)) = Some (seg_parent par ks, sa)"
  using assms
proof (induction ks arbitrary: q par fuel rule: rev_induct)
  case Nil
  then show ?case by (cases fuel) (auto simp: rb_ops)
next
  case (snoc f ks)
  then obtain c a r where f: "f = FL c a r" by (cases f) auto
  let ?t = "plug (Nd Lf sc sa sr) ks"
  have "root_of ?t \<noteq> 0"
    using snoc(2) f root_of_0 [of "nodes s" a ?t] plug_not_Lf [of "Nd Lf sc sa sr" ks] by (auto simp: plug_append)
  moreover have "seg_parent a ks = seg_parent par (ks @ [FL c a r])"
    by (cases ks rule: all_left.cases) (auto simp: seg_parent_def)
  ultimately show ?case
    using snoc f by (cases fuel) (auto simp: plug_append rb_ops)
qed

section \<open>Unlinking a node with two children\<close>

text \<open>The successor is taken out of the right subtree and gets that subtree as its right child.\<close>

definition detach_succ :: "nat \<Rightarrow> HevRBTree \<Rightarrow> addr \<Rightarrow> (HevRBTree \<times> addr \<times> addr \<times> addr) option" where
  "detach_succ fuel s child = do {
     tmp \<leftarrow> get_left s child;
     if tmp = 0 then do { child2 \<leftarrow> get_right s child; Some (s, child, child, child2) }
     else do {
       (parent, successor) \<leftarrow> successor_loop fuel s child tmp;
       child2 \<leftarrow> get_right s successor;
       self \<leftarrow> set_left s parent child2;
       self \<leftarrow> set_right self successor child;
       self \<leftarrow> hev_rbtree_node_set_parent self child successor;
       Some (self, successor, parent, child2) } }"

lemma erase_node_two_children:
  assumes "get_left s node = Some l" "get_right s node = Some child" "l \<noteq> 0" "child \<noteq> 0"
  shows "erase_node fuel s node = do {
       (self, successor, parent, child2) \<leftarrow> detach_succ fuel s child;
       tmp \<leftarrow> get_left self node;
       self \<leftarrow> set_left self successor tmp;
       self \<leftarrow> hev_rbtree_node_set_parent self tmp successor;
       pc \<leftarrow> get_pc self node;
       self \<leftarrow> hev_rbtree_change_child self node successor (pc_parent pc);
       (self, rebalance) \<leftarrow> (if child2 \<noteq> 0 then do {
           self \<leftarrow> hev_rbtree_node_set_parent_color self child2 parent HEV_RBTREE_BLACK;
           Some (self, 0) }
         else do {
           sb \<leftarrow> hev_rbtree_node_is_black self successor;
           Some (self, if sb then parent else 0) });
       self \<leftarrow> set_pc self successor pc;
       Some (self, rebalance) }"
  using assms by (simp add: erase_node_def detach_succ_def bind_assoc)

lemma detach_successor:
  assumes r: "rep (nodes s) a (plug (Nd Lf sc sa sr) ks)" "all_left ks" and a: "aligned a"
    and d: "distinct (sa # addrs sr @ after ks)" and f: "length ks \<le> fuel"
    and child: "child = root_of (plug (Nd Lf sc sa sr) ks)"
  shows "\<exists>s1 q0. detach_succ fuel s child = Some (s1, sa, seg_parent sa ks, root_of sr) \<and>
     root s1 = root s \<and> aligned q0 \<and>
     nodes s1 sa = Some \<lparr>parent_color = mk_pc q0 sc, n_right = root_of (plug sr ks), n_left = 0\<rparr> \<and>
     rep_seg (nodes s1) sa ks (root_of sr) \<and>
     (\<forall>x. x \<notin> set (sa # after ks) \<longrightarrow> nodes s1 x = nodes s x)"
proof (cases ks rule: rev_cases)
  case Nil
  with r child a show ?thesis by (intro exI [of _ s] exI [of _ a]) (auto simp: detach_succ_def rb_ops)
next
  case (snoc ks' f')
  then obtain c b br where f': "f' = FL c b br" using r(2) by (cases f') auto
  let ?t = "plug (Nd Lf sc sa sr) ks'"
  have ne: "ks \<noteq> []" using snoc by simp
  then obtain pc p pr pks where p: "ks = FL pc p pr # pks" using r(2) by (cases ks rule: all_left.cases) auto
  then have sp: "seg_parent x ks = p" for x by simp
  have child: "child = b" and t: "rep (nodes s) b ?t"
    and b: "nodes s b = Some \<lparr>parent_color = mk_pc a c, n_right = root_of br, n_left = root_of ?t\<rparr>"
    using r snoc f' child by (auto simp: plug_append)
  have "root_of ?t \<noteq> 0"
    using t root_of_0 [of "nodes s" b ?t] plug_not_Lf [of "Nd Lf sc sa sr" ks'] by auto
  moreover have "successor_loop fuel s b (root_of ?t) = Some (p, sa)"
    using successor_loop_seg [OF t, of fuel b] r(2) f snoc f'
    sp [of b] by (cases ks' rule: all_left.cases) (auto simp: seg_parent_def)
  moreover have sa: "nodes s sa = Some \<lparr>parent_color = mk_pc p sc, n_right = root_of sr, n_left = 0\<rparr>" "aligned p"
    and seg: "rep_seg (nodes s) a ks sa"
    using r p by (auto simp: rep_plug_seg)
  let ?v = "\<lparr>parent_color = mk_pc (seg_parent a pks) pc, n_right = root_of pr, n_left = root_of sr\<rparr>"
  let ?s1 = "s\<lparr>nodes := (nodes s)(p \<mapsto> ?v, sa \<mapsto> \<lparr>parent_color = mk_pc p sc, n_right = child, n_left = 0\<rparr>)\<rparr>"
  have pin: "p \<in> set (after ks)" using p by simp
  have psa: "p \<noteq> sa" using pin d by auto
  have "rep_seg ((nodes s)(p \<mapsto> ?v)) a ks (root_of sr)"
    using rep_seg_hole [of "nodes s" a pc p pr pks sa "root_of sr"] seg d p by simp
  then have "rep_seg (nodes ?s1) a ks (root_of sr)"
    using d by simp
  then obtain s1 where s1: "hev_rbtree_node_set_parent ?s1 (root_of (plug sr ks)) sa = Some s1"
    "root s1 = root s" "rep_seg (nodes s1) sa ks (root_of sr)"
    "\<forall>x. x \<notin> set (after ks) \<longrightarrow> nodes s1 x = nodes ?s1 x"
    using seg_set_parent [of ?s1 a ks "root_of sr" sr sa] r(2) ne d a by auto
  have top: "root_of (plug sr ks) = child" using snoc f' child by (simp add: plug_append)
  have "nodes s p = Some \<lparr>parent_color = mk_pc (seg_parent a pks) pc, n_right = root_of pr, n_left = sa\<rparr>"
    using seg p by simp
  with sa psa have "set_left s p (root_of sr) = Some (s\<lparr>nodes := (nodes s)(p \<mapsto> ?v)\<rparr>)"
    "set_right (s\<lparr>nodes := (nodes s)(p \<mapsto> ?v)\<rparr>) sa child = Some ?s1" "get_right s sa = Some (root_of sr)"
    by (simp_all add: rb_ops)
  moreover have "get_left s child = Some (root_of ?t)" using b child by (simp add: rb_ops)
  ultimately show ?thesis
    using s1 child top d sa(2) sp pin by (intro exI [of _ s1] exI [of _ p]) (auto simp: detach_succ_def)
qed

lemma erase_node_two:
  assumes z: "zip_rep s (Nd l c a (plug (Nd Lf sc sa sr) ks)) k" and l: "l \<noteq> Lf"
    and ks: "all_left ks" "length ks \<le> fuel"
  shows "\<exists>s'. erase_node fuel s a = Some (s', if sr = Lf \<and> sc = Black then seg_parent sa ks else 0) \<and>
    zip_rep s' (paint Black sr) (ks @ FR c sa l # k) \<and>
    (\<forall>x. x \<notin> set (before k @ addrs l @ a # sa # addrs sr @ after ks @ after k) \<longrightarrow> nodes s' x = nodes s x)"
proof -
  let ?r = "plug (Nd Lf sc sa sr) ks"
  have d: "distinct (before k @ addrs l @ a # sa # addrs sr @ after ks @ after k)"
    and a: "a \<noteq> 0" "aligned a" "nodes s a = Some \<lparr>parent_color = mk_pc (ctx_parent k) c, n_right = root_of ?r, n_left = root_of l\<rparr>"
    and r: "rep (nodes s) a l" "rep (nodes s) a ?r" "rep_ctx (nodes s) (root s) a k"
    using z ks by (auto simp: zip_rep_def)
  have al: "aligned (ctx_parent k)" using r(3) by (rule rep_ctx_parent_aligned)
  have "sa \<noteq> 0" "aligned sa" and sr: "rep (nodes s) sa sr" using r(2) ks by (auto simp: rep_plug_seg)
  have rl: "root_of l \<noteq> 0" "root_of ?r \<noteq> 0"
    using root_of_0 [OF r(1)] root_of_0 [OF r(2)] l plug_not_Lf [of "Nd Lf sc sa sr" ks] by auto
  have "distinct (sa # addrs sr @ after ks)" using d by auto
  from detach_successor [OF r(2) ks(1) a(2) this ks(2) refl] obtain s1 q0 where
    s1: "detach_succ fuel s (root_of ?r) = Some (s1, sa, seg_parent sa ks, root_of sr)"
    and rt: "root s1 = root s" and q0: "aligned q0"
    and h1: "nodes s1 sa = Some \<lparr>parent_color = mk_pc q0 sc, n_right = root_of (plug sr ks), n_left = 0\<rparr>"
    and seg: "rep_seg (nodes s1) sa ks (root_of sr)"
    and fr1: "\<And>x. x \<notin> set (sa # after ks) \<Longrightarrow> nodes s1 x = nodes s x"
    by auto
  have a1: "nodes s1 a = nodes s a" using fr1 d by auto
  have fr2: "nodes s1 x = nodes s x"
    if "x \<in> set (addrs l) \<or> x \<in> set (addrs sr) \<or> x \<in> set (before k) \<or> x \<in> set (after k)" for x
  proof -
    have "x \<notin> set (sa # after ks)" using that d by auto
    then show ?thesis by (rule fr1)
  qed
  have rl1: "rep (nodes s1) a l" "rep (nodes s1) sa sr" and k1: "rep_ctx (nodes s1) (root s1) a k"
    using r(1,3) sr rt fr2 rep_agree [of l "nodes s1" "nodes s" a] rep_agree [of sr "nodes s1" "nodes s" sa]
      rep_ctx_agree [of k "nodes s1" "nodes s" "root s" a] by simp_all
  let ?h2 = "(nodes s1)(sa \<mapsto> \<lparr>parent_color = mk_pc q0 sc, n_right = root_of (plug sr ks), n_left = root_of l\<rparr>)"
  let ?s2 = "s1\<lparr>nodes := repaint ?h2 (colour l) sa l\<rparr>"
  let ?s3 = "relink ?s2 sa k"
  let ?s4 = "?s3\<lparr>nodes := (repaint (nodes ?s3) Black (seg_parent sa ks) sr)(sa \<mapsto>
     \<lparr>parent_color = mk_pc (ctx_parent k) c, n_right = root_of (plug sr ks), n_left = root_of l\<rparr>)\<rparr>"
  have nin: "sa \<notin> set (addrs l)" "sa \<notin> set (addrs sr)" "sa \<notin> set (after ks)" "sa \<notin> set (before k)"
    "sa \<notin> set (after k)" "a \<notin> set (addrs l)" "a \<notin> set (addrs sr)" "a \<notin> set (after ks)" "a \<notin> set (before k)"
    "a \<notin> set (after k)" "a \<noteq> sa"
    using d by auto
  have dis: "set (addrs l) \<inter> set (addrs sr) = {}" "set (addrs sr) \<inter> set (addrs l) = {}"
    "set (addrs l) \<inter> set (after ks) = {}" "set (addrs sr) \<inter> set (after ks) = {}"
    "set (addrs l) \<inter> (set (before k) \<union> set (after k)) = {}"
    "set (addrs sr) \<inter> (set (before k) \<union> set (after k)) = {}"
    "set (after ks) \<inter> (set (before k) \<union> set (after k)) = {}"
    "distinct (addrs l)" "distinct (addrs sr)" "distinct (before k @ after k)"
    using d by auto
  have l2: "rep ?h2 a l" using rl1 nin by simp
  then have l2': "rep (nodes ?s2) sa l" using rep_repaint [OF l2, of "colour l" sa] dis by simp
  have k2: "rep_ctx (nodes ?s2) (root ?s2) a k" using k1 nin dis by simp
  have sa3: "nodes ?s3 sa = Some \<lparr>parent_color = mk_pc q0 sc, n_right = root_of (plug sr ks), n_left = root_of l\<rparr>"
    using nin by (simp add: relink_frame)
  have sr3: "rep (nodes ?s3) sa sr" using rl1 nin dis by (simp add: rep_relink)
  have k3: "rep_ctx (nodes ?s3) (root ?s3) sa k" using relink_ctx [OF k2 dis(10)] by simp
  have k0: "root_of sr = 0 \<longleftrightarrow> sr = Lf" using sr3 by (rule root_of_0)
  have "erase_node fuel s a = Some (?s4, if sr = Lf \<and> sc = Black then seg_parent sa ks else 0)"
    using a1 a rl s1 h1 sa3 al q0 nin k0 change_child_ctx [OF k2 a(1) nin(9,10), of sa]
      set_parent_if [of "s1\<lparr>nodes := ?h2\<rparr>" a l sa] l2 set_parent_color_if [OF sr3]
    by (cases "sr = Lf") (simp_all add: erase_node_two_children tail_ops pc_parent_def)
  moreover have "zip_rep ?s4 (Nd l c sa (plug (paint Black sr) ks)) k"
    using ks d seg nin dis l2' k3 \<open>sa \<noteq> 0\<close> \<open>aligned sa\<close> rep_repaint [OF sr3 dis(9), of Black "seg_parent sa ks"]
    by (simp add: zip_rep_def rep_plug_seg rep_relink)
  moreover have "nodes ?s4 x = nodes s x"
    if "x \<notin> set (before k @ addrs l @ a # sa # addrs sr @ after ks @ after k)" for x
    using that fr1 by (simp add: relink_frame)
  ultimately show ?thesis by (intro exI [of _ ?s4]) (simp add: zip_rep_tree plug_append)
qed

section \<open>Unlinking a node with at most one child\<close>

lemma erase_node_one:
  assumes z: "zip_rep s (Nd l c a r) k" and one: "l = Lf \<or> r = Lf"
  shows "\<exists>s'. erase_node fuel s a =
      Some (s', if l = Lf \<and> r = Lf \<and> c = Black then ctx_parent k else 0) \<and>
    zip_rep s' (paint c (if l = Lf then r else l)) k \<and>
    (\<forall>x. x \<notin> set (addrs (plug (Nd l c a r) k)) \<longrightarrow> nodes s' x = nodes s x)"
proof -
  let ?t = "if l = Lf then r else l"
  have a: "a \<noteq> 0" "aligned a" "nodes s a = Some \<lparr>parent_color = mk_pc (ctx_parent k) c, n_right = root_of r, n_left = root_of l\<rparr>"
    and r: "rep (nodes s) a ?t" "rep_ctx (nodes s) (root s) a k" "rep (nodes s) a l" "rep (nodes s) a r"
    and d: "distinct (before k @ addrs ?t @ after k)" "a \<notin> set (before k)" "a \<notin> set (after k)" "a \<notin> set (addrs ?t)"
    using z one by (auto simp: zip_rep_def)
  have al: "aligned (ctx_parent k)" using r(2) by (rule rep_ctx_parent_aligned)
  have dis: "set (addrs ?t) \<inter> (set (before k) \<union> set (after k)) = {}" "distinct (before k @ after k)"
    "distinct (addrs ?t)"
    using d(1) by auto
  note zero = root_of_0 [OF r(3)] root_of_0 [OF r(4)]
  let ?s1 = "s\<lparr>nodes := repaint (nodes s) c (ctx_parent k) ?t\<rparr>"
  let ?s2 = "relink ?s1 (root_of ?t) k"
  have k1: "rep_ctx (nodes ?s1) (root ?s1) a k" using r(2) dis by (cases ?t) auto
  have t1: "rep (nodes ?s1) (ctx_parent k) (paint c ?t)" using rep_repaint [OF r(1) dis(3), of c "ctx_parent k"] by simp
  have com: "set_pc (relink s (root_of ?t) k) (root_of ?t) (mk_pc (ctx_parent k) c) = Some ?s2" if "?t \<noteq> Lf"
    using that r(1) dis d by (cases ?t; cases k rule: before.cases) (auto simp: rb_ops fun_upd_twist)
  have "erase_node fuel s a = Some (?s2, if l = Lf \<and> r = Lf \<and> c = Black then ctx_parent k else 0)"
  proof (cases "l = Lf")
    case True
    then show ?thesis
      using change_child_ctx [OF r(2) a(1) d(2,3), of "root_of r"] com a al zero
      by (cases "r = Lf") (simp_all add: erase_node_def get_right_def get_left_def get_pc_def pc_parent_def pc_is_black_def)
  next
    case False
    then have "set_pc s (root_of l) (mk_pc (ctx_parent k) c) = Some ?s1"
      using r(3) by (cases l) (auto simp: rb_ops)
    then show ?thesis
      using change_child_ctx [OF k1 a(1) d(2,3), of "root_of l"] a al zero one False
      by (simp add: erase_node_def get_right_def get_left_def get_pc_def pc_parent_def pc_is_black_def)
  qed
  moreover have "zip_rep ?s2 (paint c ?t) k"
    using zip_relink [OF t1 k1] d(1) by simp
  moreover have "nodes ?s2 x = nodes s x" if "x \<notin> set (addrs (plug (Nd l c a r) k))" for x
  proof -
    have "x \<notin> set (before k) \<union> set (after k)" "x \<notin> set (addrs ?t)" using that by auto
    then show ?thesis by (simp add: relink_frame)
  qed
  ultimately show ?thesis by (intro exI [of _ ?s2]) blast
qed

section \<open>Erasing a node\<close>

lemma addrs_split: "a \<in> set (addrs T) \<Longrightarrow> \<exists>l c r k. T = plug (Nd l c a r) k"
proof (induction T)
  case (Nd l c b r)
  then consider "a \<in> set (addrs l)" | "a = b" | "a \<in> set (addrs r)" by auto
  then show ?case
  proof cases
    case 1
    then obtain l' c' r' k where "l = plug (Nd l' c' a r') k" using Nd by blast
    then have "Nd l c b r = plug (Nd l' c' a r') (k @ [FL c b r])" by (simp add: plug_append)
    then show ?thesis by blast
  next
    case 2
    then have "Nd l c b r = plug (Nd l c a r) []" by simp
    then show ?thesis by blast
  next
    case 3
    then obtain l' c' r' k where "r = plug (Nd l' c' a r') k" using Nd by blast
    then have "Nd l c b r = plug (Nd l' c' a r') (k @ [FR c b l])" by (simp add: plug_append)
    then show ?thesis by blast
  qed
qed simp

text \<open>What is left to do once the node is unlinked.\<close>

lemma erase_finish:
  assumes e: "erase_node fuel s a = Some (s1, if reb then ctx_parent k else 0)"
    and z: "zip_rep s1 t k" and reb: "reb \<Longrightarrow> t = Lf \<and> ctx_inv Black 1 k"
    and no: "\<not> reb \<Longrightarrow> is_rbt (plug t k)" and f: "length k \<le> fuel"
  shows "\<exists>s' T'. hev_rbtree_erase fuel s a = Some s' \<and> tree_rep s' T' \<and> is_rbt T' \<and>
    addrs T' = addrs (plug t k) \<and> (\<forall>x. x \<notin> set (addrs (plug t k)) \<longrightarrow> nodes s' x = nodes s1 x)"
proof -
  have k0: "ctx_parent k = 0 \<longleftrightarrow> k = []" using z by (auto simp: zip_rep_def dest: rep_ctx_parent_0)
  show ?thesis
  proof (cases "reb \<and> k \<noteq> []")
    case True
    then have inv: "t = Lf" "ctx_inv Black (Suc 0) k" using reb by auto
    have "loop_post s1 (del_fix Lf k) (erase_color_loop fuel s1 (root_of Lf) (ctx_parent k))"
      using z inv True f by (intro erase_color_refines) auto
    then obtain s' where "erase_color_loop fuel s1 0 (ctx_parent k) = Some s'" "tree_rep s' (del_fix Lf k)"
      "\<forall>x. x \<notin> set (addrs (del_fix Lf k)) \<longrightarrow> nodes s' x = nodes s1 x"
      by (auto simp: loop_post_def)
    then show ?thesis
      using True e k0 inv is_rbt_del_fix [of Lf k] addrs_del_fix [OF inv(2), of Lf]
      by (intro exI [of _ s'] exI [of _ "del_fix Lf k"]) (simp add: hev_rbtree_erase_def)
  next
    case False
    then have "hev_rbtree_erase fuel s a = Some s1" using e k0 by (auto simp: hev_rbtree_erase_def)
    moreover have "is_rbt (plug t k)" using no reb False by (cases reb) (auto simp: is_rbt_def)
    ultimately show ?thesis using z by (intro exI [of _ s1] exI [of _ "plug t k"]) (simp add: zip_rep_tree)
  qed
qed

lemma ctx_inv_addr: "ctx_inv d n (ks @ FR c a l # k) = ctx_inv d n (ks @ FR c b l # k)"
  by (induction d n ks rule: ctx_inv.induct) auto

lemma bheight_0: "bheight t = 0 \<Longrightarrow> invc t \<Longrightarrow> invh t \<Longrightarrow> t = Lf \<or> (\<exists>x. t = Nd Lf Red x Lf)"
proof (cases t)
  case (Nd l c a r)
  assume "bheight t = 0" "invc t" "invh t"
  with Nd have "c = Red" "bheight l = 0" "bheight r = 0" "colour l = Black" "colour r = Black" by (cases c; auto)+
  with Nd show ?thesis by (cases l; cases r) auto
qed simp

lemma erase_done:
  assumes "\<exists>s' T'. R = Some s' \<and> tree_rep s' T' \<and> is_rbt T' \<and> addrs T' = as \<and>
      (\<forall>x. x \<notin> set as \<longrightarrow> nodes s' x = nodes s1 x)"
    and "as = remove1 a bs" and "\<forall>x. x \<notin> set bs \<longrightarrow> nodes s1 x = nodes s x"
  shows "\<exists>s' T'. R = Some s' \<and> tree_rep s' T' \<and> is_rbt T' \<and> addrs T' = remove1 a bs \<and>
      (\<forall>x. x \<notin> set bs \<longrightarrow> nodes s' x = nodes s x)"
  using assms by (metis notin_set_remove1)

lemma erase_refines:
  assumes T: "tree_rep s T" "is_rbt T" "a \<in> set (addrs T)" and f: "length (addrs T) \<le> fuel"
  shows "\<exists>s' T'. hev_rbtree_erase fuel s a = Some s' \<and> tree_rep s' T' \<and> is_rbt T' \<and>
    addrs T' = remove1 a (addrs T) \<and> (\<forall>x. x \<notin> set (addrs T) \<longrightarrow> nodes s' x = nodes s x)"
proof -
  obtain l c r k where t: "T = plug (Nd l c a r) k" using addrs_split [OF T(3)] by blast
  have z: "zip_rep s (Nd l c a r) k" using T(1) t by (simp add: zip_rep_tree)
  have d: "distinct (addrs T)" using T(1) by (simp add: tree_rep_def)
  then have rm: "remove1 a (addrs T) = before k @ addrs l @ addrs r @ after k"
    using t by (auto simp: remove1_append)
  have inv: "invc l" "invc r" "invh l" "invh r" "bheight l = bheight r" "c = Red \<Longrightarrow> colour l = Black \<and> colour r = Black"
    "ctx_inv c (bheight (Nd l c a r)) k"
    using T(2) t by (auto simp: is_rbt_plug)
  have fk: "length k \<le> fuel" using f length_ctx [of k] t by simp
  show ?thesis
  proof (cases "l = Lf \<or> r = Lf")
    case True
    let ?t = "paint c (if l = Lf then r else l)"
    obtain s1 where s1: "erase_node fuel s a = Some (s1, if l = Lf \<and> r = Lf \<and> c = Black then ctx_parent k else 0)"
      "zip_rep s1 ?t k" and fr: "\<forall>x. x \<notin> set (addrs T) \<longrightarrow> nodes s1 x = nodes s x"
      using erase_node_one [OF z True, of fuel] t by blast
    have sh: "l = Lf \<and> r = Lf \<or> c = Black \<and> (\<exists>x. (if l = Lf then r else l) = Nd Lf Red x Lf)"
      using bheight_0 [of l] bheight_0 [of r] inv True by (cases c) auto
    have A: "l = Lf \<and> r = Lf \<and> c = Black \<Longrightarrow> ?t = Lf \<and> ctx_inv Black 1 k" using inv by auto
    have B: "\<not> (l = Lf \<and> r = Lf \<and> c = Black) \<Longrightarrow> is_rbt (plug ?t k)"
      using sh inv by (auto simp: is_rbt_plug ctx_inv_Black)
    have ad: "addrs (plug ?t k) = remove1 a (addrs T)" using True rm by auto
    show ?thesis by (rule erase_done [OF erase_finish [OF s1 A B fk] ad fr])
  next
    case False
    then obtain sc sa sr ks where ks: "r = plug (Nd Lf sc sa sr) ks" "all_left ks" using leftmost_path by blast
    let ?K = "ks @ FR c sa l # k"
    have lks: "length ks \<le> fuel" using length_ctx [of ks] f t ks by simp
    have z': "zip_rep s (Nd l c a (plug (Nd Lf sc sa sr) ks)) k" and l: "l \<noteq> Lf" using z ks False by auto
    obtain s1 where s1: "erase_node fuel s a = Some (s1, if sr = Lf \<and> sc = Black then seg_parent sa ks else 0)"
      "zip_rep s1 (paint Black sr) ?K"
      "\<forall>x. x \<notin> set (addrs T) \<longrightarrow> nodes s1 x = nodes s x"
      using erase_node_two [OF z' l ks(2) lks] t ks by auto
    have sp: "seg_parent sa ks = ctx_parent ?K" by (cases ks rule: all_left.cases) (auto simp: seg_parent_def)
    have "is_rbt (plug (Nd Lf sc sa sr) (ks @ FR c a l # k))" using T(2) t ks by (simp add: plug_append)
    then have i: "invc sr" "invh sr" "bheight sr = 0" "sc = Red \<Longrightarrow> colour sr = Black"
      "ctx_inv sc (bheight (Nd Lf sc sa sr)) ?K"
      by (auto simp: is_rbt_plug ctx_inv_addr [of _ _ ks c a l k sa])
    have A: "sr = Lf \<and> sc = Black \<Longrightarrow> paint Black sr = Lf \<and> ctx_inv Black 1 ?K" using i by auto
    have B: "\<not> (sr = Lf \<and> sc = Black) \<Longrightarrow> is_rbt (plug (paint Black sr) ?K)"
      using i bheight_0 [of sr] by (cases sc) (auto simp: is_rbt_plug ctx_inv_Black simp del: ctx_inv.simps)
    have ad: "addrs (plug (paint Black sr) ?K) = remove1 a (addrs T)"
      using rm ks by (simp add: plug_append)
    have fK: "length ?K \<le> fuel"
      using length_ctx [of ks] length_ctx [of k] f ks t by simp
    show ?thesis by (rule erase_done [OF erase_finish [OF s1(1) [unfolded sp] s1(2) A B fK] ad s1(3)])
  qed
qed

section \<open>Replacement and traversal\<close>

text \<open>\<open>hev_rbtree_replace\<close> puts another node at the victim's place.\<close>

lemma replace_refines:
  assumes z: "zip_rep s (Nd l c a r) k" and n: "nw \<noteq> 0" "aligned nw" "nw \<in> dom (nodes s)"
    and new: "nw \<notin> set (addrs (plug (Nd l c a r) k))"
  shows "\<exists>s'. hev_rbtree_replace s a nw = Some s' \<and> zip_rep s' (Nd l c nw r) k"
proof -
  obtain v where v: "nodes s nw = Some v" using n(3) by auto
  have d: "distinct (before k @ addrs l @ a # addrs r @ after k)"
    and a: "a \<noteq> 0" "aligned a" "nodes s a = Some \<lparr>parent_color = mk_pc (ctx_parent k) c, n_right = root_of r, n_left = root_of l\<rparr>"
    and r: "rep (nodes s) a l" "rep (nodes s) a r" "rep_ctx (nodes s) (root s) a k"
    using z by (auto simp: zip_rep_def)
  have al: "aligned (ctx_parent k)" using r(3) by (rule rep_ctx_parent_aligned)
  have nin: "a \<notin> set (addrs l)" "a \<notin> set (addrs r)" "a \<notin> set (before k)" "a \<notin> set (after k)"
    "nw \<notin> set (addrs l)" "nw \<notin> set (addrs r)" "nw \<notin> set (before k)" "nw \<notin> set (after k)" "nw \<noteq> a"
    using d new by auto
  have dis: "set (addrs l) \<inter> set (addrs r) = {}" "set (addrs r) \<inter> set (addrs l) = {}" "distinct (addrs l)" "distinct (addrs r)"
    "set (addrs l) \<inter> (set (before k) \<union> set (after k)) = {}" "set (addrs r) \<inter> (set (before k) \<union> set (after k)) = {}"
    "distinct (before k @ after k)"
    using d by auto
  let ?s1 = "s\<lparr>nodes := (nodes s)(nw \<mapsto> \<lparr>parent_color = mk_pc (ctx_parent k) c, n_right = root_of r, n_left = root_of l\<rparr>)\<rparr>"
  let ?s2 = "?s1\<lparr>nodes := repaint (nodes ?s1) (colour l) nw l\<rparr>"
  let ?s3 = "?s2\<lparr>nodes := repaint (nodes ?s2) (colour r) nw r\<rparr>"
  have l1: "rep (nodes ?s1) a l" and r2: "rep (nodes ?s2) a r" using r nin dis by simp_all
  have l3: "rep (nodes ?s3) nw l" using rep_repaint [OF l1 dis(3), of "colour l" nw] dis by simp
  have r3: "rep (nodes ?s3) nw r" using rep_repaint [OF r2 dis(4), of "colour r" nw] by simp
  have k3: "rep_ctx (nodes ?s3) (root ?s3) a k" using r nin dis by simp
  have z0: "root_of l = 0 \<longleftrightarrow> l = Lf" "root_of r = 0 \<longleftrightarrow> r = Lf" using root_of_0 r by blast+
  have "hev_rbtree_replace s a nw = Some (relink ?s3 nw k)"
    using change_child_ctx [OF k3 a(1) nin(3,4), of nw] set_parent_if [OF l1 a(2), of nw] set_parent_if [OF r2 a(2), of nw]
      a v al nin z0
    by (cases "l = Lf"; cases "r = Lf")
       (simp_all add: hev_rbtree_replace_def hev_rbtree_node_parent_def get_left_def get_right_def get_pc_def)
  moreover have "zip_rep (relink ?s3 (root_of (Nd l c nw r)) k) (Nd l c nw r) k"
    using l3 r3 k3 n nin d dis by (intro zip_relink) simp_all
  ultimately show ?thesis by auto
qed

lemma go_left_first:
  "rep (nodes s) q t \<Longrightarrow> t \<noteq> Lf \<Longrightarrow> depth t \<le> fuel \<Longrightarrow> go_left fuel s (root_of t) = Some (hd (addrs t))"
proof (induction t arbitrary: q fuel)
  case (Nd l c a r)
  obtain f where f: "fuel = Suc f" using Nd(5) by (cases fuel) auto
  show ?case
  proof (cases "l = Lf")
    case True
    with Nd f show ?thesis by (simp add: rb_ops)
  next
    case False
    then have "root_of l \<noteq> 0" "addrs l \<noteq> []" using Nd(3) by (cases l; auto)+
    with Nd(3-5) Nd(1) [of a f] Nd(2) [of a f] False f show ?thesis by (simp add: rb_ops)
  qed
qed simp

lemma go_right_last:
  "rep (nodes s) q t \<Longrightarrow> t \<noteq> Lf \<Longrightarrow> depth t \<le> fuel \<Longrightarrow> go_right fuel s (root_of t) = Some (last (addrs t))"
proof (induction t arbitrary: q fuel)
  case (Nd l c a r)
  obtain f where f: "fuel = Suc f" using Nd(5) by (cases fuel) auto
  show ?case
  proof (cases "r = Lf")
    case True
    with Nd f show ?thesis by (simp add: rb_ops)
  next
    case False
    then have "root_of r \<noteq> 0" "addrs r \<noteq> []" using Nd(3) by (cases r; auto)+
    with Nd(3-5) Nd(1) [of a f] Nd(2) [of a f] False f show ?thesis by (simp add: rb_ops)
  qed
qed simp

lemma up_from_right_ctx:
  assumes "rep (nodes s) (ctx_parent k) t" "rep_ctx (nodes s) (root s) (root_of t) k" "t \<noteq> Lf"
    "distinct (before k @ addrs t @ after k)" "length k < fuel"
  shows "up_from_right fuel s (root_of t) = Some (case after k of [] \<Rightarrow> 0 | x # _ \<Rightarrow> x)"
  using assms
proof (induction k arbitrary: t fuel rule: before.induct)
  case 1
  then show ?case by (cases fuel; cases t) (auto simp: rb_ops)
next
  case (2 c a r k)
  obtain f where f: "fuel = Suc f" using 2 by (cases fuel) auto
  have ne: "root_of t \<noteq> root_of r" using 2 by (cases t; cases r) auto
  obtain tl' tc ta tr where t: "t = Nd tl' tc ta tr" using 2 by (cases t) auto
  show ?case using 2 f t ne by (auto simp: rb_ops)
next
  case (3 c a l k)
  obtain f where f: "fuel = Suc f" using 3 by (cases fuel) auto
  obtain tl' tc ta tr where t: "t = Nd tl' tc ta tr" using 3 by (cases t) auto
  have "up_from_right f s (root_of (Nd l c a t)) = Some (case after k of [] \<Rightarrow> 0 | x # _ \<Rightarrow> x)"
    using 3 f by (intro 3(1)) auto
  then show ?case using 3 f t by (auto simp: rb_ops)
qed

text \<open>\<open>hev_rbtree_node_next\<close> steps through the nodes in order.\<close>

lemma node_next_refines:
  assumes z: "zip_rep s (Nd l c a r) k" and f: "length k < fuel" "depth r \<le> fuel"
  shows "hev_rbtree_node_next fuel s a = Some (case addrs r @ after k of [] \<Rightarrow> 0 | x # _ \<Rightarrow> x)"
proof -
  have a: "a \<noteq> 0" "aligned a" "nodes s a = Some \<lparr>parent_color = mk_pc (ctx_parent k) c, n_right = root_of r, n_left = root_of l\<rparr>"
    and r: "rep (nodes s) a r" "rep_ctx (nodes s) (root s) a k"
    and d: "distinct (before k @ addrs (Nd l c a r) @ after k)" and n: "rep (nodes s) (ctx_parent k) (Nd l c a r)"
    using z by (auto simp: zip_rep_def)
  have "ctx_parent k \<noteq> a" using a(1) d ctx_parent_in [of k] by (cases "k = []") auto
  moreover have "mk_pc (ctx_parent k) c AND - 4 = ctx_parent k" "a AND - 4 = a"
    using rep_ctx_parent_aligned [OF r(2)] aligned_mask [OF a(2)] by auto
  ultimately have "hev_rbtree_node_empty s a = Some False"
    using a by (auto simp: hev_rbtree_node_empty_def get_pc_def)
  moreover have "up_from_right fuel s (root_of (Nd l c a r)) = Some (case after k of [] \<Rightarrow> 0 | x # _ \<Rightarrow> x)"
    using n r(2) d f by (intro up_from_right_ctx) auto
  moreover have "r \<noteq> Lf \<Longrightarrow> go_left fuel s (root_of r) = Some (hd (addrs r))" "r \<noteq> Lf \<Longrightarrow> addrs r \<noteq> []"
    using r(1) f(2) by (auto intro: go_left_first elim: addrs.elims)
  ultimately show ?thesis
    using a root_of_0 [OF r(1)]
    by (cases "r = Lf"; cases "addrs r") (auto simp: hev_rbtree_node_next_def get_right_def)
qed

lemma up_from_left_ctx:
  assumes "rep (nodes s) (ctx_parent k) t" "rep_ctx (nodes s) (root s) (root_of t) k" "t \<noteq> Lf"
    "distinct (before k @ addrs t @ after k)" "length k < fuel"
  shows "up_from_left fuel s (root_of t) = Some (if before k = [] then 0 else last (before k))"
  using assms
proof (induction k arbitrary: t fuel rule: before.induct)
  case 1
  then show ?case by (cases fuel; cases t) (auto simp: rb_ops)
next
  case (3 c a r k)
  obtain f where f: "fuel = Suc f" using 3 by (cases fuel) auto
  have ne: "root_of t \<noteq> root_of r" using 3 by (cases t; cases r) auto
  obtain tl' tc ta tr where t: "t = Nd tl' tc ta tr" using 3 by (cases t) auto
  show ?case using 3 f t ne by (auto simp: rb_ops)
next
  case (2 c a l k)
  obtain f where f: "fuel = Suc f" using 2 by (cases fuel) auto
  obtain tl' tc ta tr where t: "t = Nd tl' tc ta tr" using 2 by (cases t) auto
  have "up_from_left f s (root_of (Nd t c a l)) = Some (if before k = [] then 0 else last (before k))"
    using 2 f by (intro 2(1)) auto
  then show ?case using 2 f t by (auto simp: rb_ops)
qed

text \<open>\<open>hev_rbtree_node_prev\<close> steps through the nodes in order.\<close>

lemma node_prev_refines:
  assumes z: "zip_rep s (Nd l c a r) k" and f: "length k < fuel" "depth l \<le> fuel"
  shows "hev_rbtree_node_prev fuel s a = Some (if before k @ addrs l = [] then 0 else last (before k @ addrs l))"
proof -
  have a: "a \<noteq> 0" "aligned a" "nodes s a = Some \<lparr>parent_color = mk_pc (ctx_parent k) c, n_right = root_of r, n_left = root_of l\<rparr>"
    and r: "rep (nodes s) a l" "rep_ctx (nodes s) (root s) a k"
    and d: "distinct (before k @ addrs (Nd l c a r) @ after k)" and n: "rep (nodes s) (ctx_parent k) (Nd l c a r)"
    using z by (auto simp: zip_rep_def)
  have "ctx_parent k \<noteq> a" using a(1) d ctx_parent_in [of k] by (cases "k = []") auto
  moreover have "mk_pc (ctx_parent k) c AND - 4 = ctx_parent k" "a AND - 4 = a"
    using rep_ctx_parent_aligned [OF r(2)] aligned_mask [OF a(2)] by auto
  ultimately have "hev_rbtree_node_empty s a = Some False"
    using a by (auto simp: hev_rbtree_node_empty_def get_pc_def)
  moreover have "up_from_left fuel s (root_of (Nd l c a r)) = Some (if before k = [] then 0 else last (before k))"
    using n r(2) d f by (intro up_from_left_ctx) auto
  moreover have "l \<noteq> Lf \<Longrightarrow> go_right fuel s (root_of l) = Some (last (addrs l))" "l \<noteq> Lf \<Longrightarrow> addrs l \<noteq> []"
    using r(1) f(2) by (auto intro: go_right_last elim: addrs.elims)
  ultimately show ?thesis
    using a root_of_0 [OF r(1)]
    by (cases "l = Lf"; cases "addrs l") (auto simp: hev_rbtree_node_prev_def get_left_def)
qed

end
