(* ===== verification/RBTreeProps.thy ===== *)
theory RBTreeProps
  imports RBTreeErase
begin

text \<open>
  The interface of the red-black tree as an ordered set of nodes, its interpretation on the
  C operations, and the tree's properties.
\<close>


section \<open>The contract of an ordered set of nodes\<close>

text \<open>\<open>rep s xs\<close>: the structure holds the nodes \<open>xs\<close> in this order.\<close>

locale ordered_nodes =
  fixes rep :: "'s \<Rightarrow> addr list \<Rightarrow> bool"
    and erase :: "'s \<Rightarrow> addr \<Rightarrow> 's option"
    and first :: "'s \<Rightarrow> addr option"
    and nxt :: "'s \<Rightarrow> addr \<Rightarrow> addr option"
  assumes nodes_law: "rep s xs \<Longrightarrow> distinct xs \<and> 0 \<notin> set xs"
    and erase_law: "rep s xs \<Longrightarrow> a \<in> set xs \<Longrightarrow> \<exists>s'. erase s a = Some s' \<and> rep s' (remove1 a xs)"
    and first_law: "rep s xs \<Longrightarrow> first s = Some (case xs of [] \<Rightarrow> 0 | x # _ \<Rightarrow> x)"
    and next_law: "rep s (xs @ a # ys) \<Longrightarrow> nxt s a = Some (case ys of [] \<Rightarrow> 0 | y # _ \<Rightarrow> y)"
begin

text \<open>The loop \<open>for (n = first (s); n; n = next (n))\<close>.\<close>

fun walk :: "nat \<Rightarrow> 's \<Rightarrow> addr \<Rightarrow> addr list option" where
  "walk 0 s n = None"
| "walk (Suc f) s n = (if n = 0 then Some [] else do { m \<leftarrow> nxt s n; ns \<leftarrow> walk f s m; Some (n # ns) })"

lemma walk_from:
  assumes "rep s (xs @ ys)" "length ys < f"
  shows "walk f s (case ys of [] \<Rightarrow> 0 | y # _ \<Rightarrow> y) = Some ys"
  using assms
proof (induction ys arbitrary: xs f)
  case Nil
  then show ?case by (cases f) auto
next
  case (Cons y ys)
  then have "walk (f - 1) s (case ys of [] \<Rightarrow> 0 | y # _ \<Rightarrow> y) = Some ys"
    by (intro Cons.IH [of "xs @ [y]"]) auto
  moreover have "nxt s y = Some (case ys of [] \<Rightarrow> 0 | y # _ \<Rightarrow> y)" using next_law Cons.prems(1) by blast
  moreover have "y \<noteq> 0" using nodes_law [OF Cons.prems(1)] by auto
  ultimately show ?case using Cons.prems(2) by (cases f) auto
qed

lemma walk_all: "rep s xs \<Longrightarrow> length xs < f \<Longrightarrow> do { n \<leftarrow> first s; walk f s n } = Some xs"
  using walk_from [of s "[]" xs f] first_law by simp

lemma erase_walk:
  assumes "rep s xs" "a \<in> set xs" "length xs < f"
  shows "\<exists>s'. erase s a = Some s' \<and> do { n \<leftarrow> first s'; walk f s' n } = Some (remove1 a xs)"
proof -
  obtain s' where "erase s a = Some s'" "rep s' (remove1 a xs)" using erase_law [OF assms(1,2)] by blast
  moreover have "length (remove1 a xs) < f" using assms by (simp add: length_remove1)
  ultimately show ?thesis using walk_all by blast
qed

end

definition rb_rep :: "nat \<Rightarrow> HevRBTree \<Rightarrow> addr list \<Rightarrow> bool" where
  "rb_rep fuel s xs \<longleftrightarrow> (\<exists>T. tree_rep s T \<and> is_rbt T \<and> addrs T = xs) \<and> length xs < fuel"

lemma depth_le_addrs: "depth t \<le> length (addrs t)"
  by (induction t) auto

lemma load_link_of:
  assumes "tree_rep s (plug t k)" shows "load_link s (link_of k) = Some (root_of t)"
  using assms zip_rep_tree [of s t k]
  by (cases k rule: link_of.cases) (auto simp: zip_rep_def rb_ops)

lemma rb_rep_zip:
  assumes "tree_rep s T" "addrs T = xs @ a # ys"
  shows "\<exists>l c r k. T = plug (Nd l c a r) k \<and> before k @ addrs l = xs \<and> addrs r @ after k = ys"
proof -
  obtain l c r k where T: "T = plug (Nd l c a r) k" using addrs_split [of a T] assms(2) by auto
  have "distinct (addrs T)" using assms(1) by (simp add: tree_rep_def)
  moreover have "addrs T = (before k @ addrs l) @ a # (addrs r @ after k)" using T by simp
  ultimately have "before k @ addrs l = xs \<and> addrs r @ after k = ys"
    using assms(2) by (metis append_Cons_eq_iff distinct_append not_distinct_conv_prefix distinct.simps(2) disjoint_insert(2) list.simps(15))
  with T show ?thesis by blast
qed

interpretation rbt: ordered_nodes "rb_rep fuel" "hev_rbtree_erase fuel" "hev_rbtree_first fuel" "hev_rbtree_node_next fuel"
  for fuel
proof
  fix s xs
  show "rb_rep fuel s xs \<Longrightarrow> distinct xs \<and> 0 \<notin> set xs"
    using tree_rep_nonzero by (auto simp: rb_rep_def tree_rep_def)
next
  fix s xs a
  assume "rb_rep fuel s xs" "a \<in> set xs"
  then obtain T where T: "tree_rep s T" "is_rbt T" "addrs T = xs" "length xs < fuel" by (auto simp: rb_rep_def)
  then obtain s' T' where "hev_rbtree_erase fuel s a = Some s'" "tree_rep s' T'" "is_rbt T'" "addrs T' = remove1 a xs"
    using erase_refines [OF T(1,2), of a fuel] \<open>a \<in> set xs\<close> by auto
  moreover have "length (remove1 a xs) < fuel" using T(4) by (auto simp: length_remove1)
  ultimately show "\<exists>s'. hev_rbtree_erase fuel s a = Some s' \<and> rb_rep fuel s' (remove1 a xs)"
    by (auto simp: rb_rep_def)
next
  fix s xs
  assume "rb_rep fuel s xs"
  then obtain T where T: "tree_rep s T" "addrs T = xs" "length xs < fuel" by (auto simp: rb_rep_def)
  have r: "root s = root_of T" "HevRBTree.root s = 0 \<longleftrightarrow> T = Lf" using T(1) root_of_0 by (auto simp: tree_rep_def)
  show "hev_rbtree_first fuel s = Some (case xs of [] \<Rightarrow> 0 | x # _ \<Rightarrow> x)"
  proof (cases "T = Lf")
    case True
    then show ?thesis using T r by (auto simp: hev_rbtree_first_def)
  next
    case False
    then have "addrs T \<noteq> []" by (cases T) auto
    moreover have "go_left fuel s (root_of T) = Some (hd (addrs T))"
      using go_left_first [of s 0 T fuel] T False depth_le_addrs [of T] by (auto simp: tree_rep_def)
    ultimately show ?thesis using T r False by (cases xs) (auto simp: hev_rbtree_first_def)
  qed
next
  fix s xs a ys
  assume "rb_rep fuel s (xs @ a # ys)"
  then obtain T where T: "tree_rep s T" "addrs T = xs @ a # ys" "length (xs @ a # ys) < fuel" by (auto simp: rb_rep_def)
  obtain l c r k where k: "T = plug (Nd l c a r) k" "before k @ addrs l = xs" "addrs r @ after k = ys"
    using rb_rep_zip [OF T(1,2)] by blast
  have "length k < fuel" "depth r \<le> fuel"
    using T(3) length_ctx [of k] depth_le_addrs [of r] k by auto
  then show "hev_rbtree_node_next fuel s a = Some (case ys of [] \<Rightarrow> 0 | y # _ \<Rightarrow> y)"
    using node_next_refines [of s l c a r k fuel] T(1) k by (simp add: zip_rep_tree)
qed

section \<open>Properties\<close>

text \<open>C2. Linking a node at the place where the descent ended and calling
  \<open>hev_rbtree_insert_color\<close> puts it into the sequence of nodes there, restores the red-black
  invariants, leaves every other node's memory alone, and goes through at most
  \<open>2 log (n + 1)\<close> levels.\<close>

theorem rbtree_insert_correct:
  assumes "tree_rep s (plug Lf k)" "is_rbt (plug Lf k)"
    and "node \<noteq> 0" "aligned node" "node \<in> dom (nodes s)" "node \<notin> set (addrs (plug Lf k))"
  shows "2 ^ length k \<le> (Suc (length (addrs (plug Lf k))))\<^sup>2 \<and> (\<exists>s' t'.
     do { s \<leftarrow> hev_rbtree_node_link s node (ctx_parent k) (link_of k);
          hev_rbtree_insert_color (Suc (length k)) s node } = Some s' \<and>
     tree_rep s' t' \<and> is_rbt t' \<and> addrs t' = before k @ node # after k \<and>
     (\<forall>a. a \<notin> set (addrs t') \<longrightarrow> nodes s' a = nodes s a))"
proof
  have "length k \<le> depth (plug Lf k)" using length_ctx_depth [of k Lf] by simp
  then have "(2::nat) ^ length k \<le> 2 ^ depth (plug Lf k)" by (simp add: power_increasing)
  then show "2 ^ length k \<le> (Suc (length (addrs (plug Lf k))))\<^sup>2" using is_rbt_depth [OF assms(2)] by linarith
qed (rule insert_refines [OF assms], simp)

text \<open>C3. \<open>hev_rbtree_erase\<close> takes exactly the node out of the sequence, restores the
  red-black invariants and touches no memory outside the tree's nodes.\<close>

theorem rbtree_erase_correct:
  assumes "tree_rep s T" "is_rbt T" "a \<in> set (addrs T)" "length (addrs T) \<le> fuel"
  shows "\<exists>s' T'. hev_rbtree_erase fuel s a = Some s' \<and> tree_rep s' T' \<and> is_rbt T' \<and>
    addrs T' = remove1 a (addrs T) \<and> (\<forall>x. x \<notin> set (addrs T) \<longrightarrow> nodes s' x = nodes s x)"
  using erase_refines [OF assms] .

text \<open>Walking a tree with \<open>hev_rbtree_first\<close> and \<open>hev_rbtree_node_next\<close> visits every node
  once, in order; after \<open>hev_rbtree_erase\<close> it visits every node but the erased one.\<close>

lemma rbtree_walk:
  assumes "tree_rep s T" "is_rbt T" "a \<in> set (addrs T)" "length (addrs T) < fuel"
  shows "do { n \<leftarrow> hev_rbtree_first fuel s; rbt.walk fuel fuel s n } = Some (addrs T) \<and>
    (\<exists>s'. hev_rbtree_erase fuel s a = Some s' \<and>
       do { n \<leftarrow> hev_rbtree_first fuel s'; rbt.walk fuel fuel s' n } = Some (remove1 a (addrs T)))"
proof -
  have "rb_rep fuel s (addrs T)" using assms by (auto simp: rb_rep_def)
  then show ?thesis using rbt.walk_all rbt.erase_walk assms(3,4) by blast
qed

text \<open>A heap with one black node for the witnesses.\<close>

definition one_node :: HevRBTree where
  "one_node = \<lparr>root = 8, nodes = [8 \<mapsto> \<lparr>parent_color = 1, n_right = 0, n_left = 0\<rparr>,
     16 \<mapsto> \<lparr>parent_color = 0, n_right = 0, n_left = 0\<rparr>]\<rparr>"

lemma one_node_rep: "tree_rep one_node (Nd Lf Black 8 Lf)" "is_rbt (Nd Lf Black 8 Lf)"
  by (simp_all add: one_node_def tree_rep_def is_rbt_def aligned_def mk_pc_def)

lemma rbtree_insert_correct_witness:
  "\<exists>s' t'. do { s \<leftarrow> hev_rbtree_node_link one_node 16 8 (LeftLink 8); hev_rbtree_insert_color (Suc (Suc 0)) s 16 } = Some s' \<and>
     tree_rep s' t' \<and> is_rbt t' \<and> addrs t' = [16, 8]"
proof -
  let ?k = "[FL Black 8 Lf]"
  have "tree_rep one_node (plug Lf ?k)" "is_rbt (plug Lf ?k)" using one_node_rep by simp_all
  moreover have "aligned 16" "(16 :: addr) \<in> dom (nodes one_node)" by (simp_all add: aligned_def one_node_def)
  ultimately show ?thesis using rbtree_insert_correct [of one_node ?k 16] by auto
qed

lemma rbtree_erase_correct_witness:
  "\<exists>s' T'. hev_rbtree_erase 1 one_node 8 = Some s' \<and> tree_rep s' T' \<and> addrs T' = []"
  using rbtree_erase_correct [OF one_node_rep, of 8 1] by auto

end
