(* ===== verification/MappedDNS.thy ===== *)
theory MappedDNS
  imports HevList RBTreeProps
begin

text \<open>
  Mapped DNS (\<open>hev-mapped-dns.c\<close>): names are given indices below a maximum, an address
  inside the mapped network is the network or-ed with the index, and the least recently used
  name gives up its index when all are taken. The state is the struct of the source: the
  counters, the LRU list, the red-black tree of names and the array of records; the nodes'
  own fields are in \<open>entries\<close>. A node's address is the address of its struct in all three
  heaps, so \<open>container_of\<close> is the identity. \<open>None\<close> is an access outside an allocated object.

  What \<open>malloc\<close> and \<open>strdup\<close> return is an argument: the address of the new node (null when
  out of memory) and whether the name could be copied.
\<close>

section \<open>State\<close>

record HevMappedDNSNode =
  n_name :: "bytes option"
  n_idx :: int

record HevMappedDNS =
  d_use :: int
  d_max :: int
  d_net :: u32
  d_mask :: u32
  d_list :: HevList
  d_tree :: HevRBTree
  d_records :: "addr list"
  d_entries :: "addr \<rightharpoonup> HevMappedDNSNode"

type_synonym allocation = "addr \<times> bool"

text \<open>The sign of \<open>strcmp\<close> on two strings, given without their terminating zeros.\<close>

fun strcmp :: "bytes \<Rightarrow> bytes \<Rightarrow> int" where
  "strcmp [] [] = 0"
| "strcmp [] (y # ys) = - 1"
| "strcmp (x # xs) [] = 1"
| "strcmp (x # xs) (y # ys) = (if x = y then strcmp xs ys else uint x - uint y)"

section \<open>Construction\<close>

definition hev_mapped_dns_construct :: "HevMappedDNS \<Rightarrow> u32 \<Rightarrow> u32 \<Rightarrow> int \<Rightarrow> HevMappedDNS \<times> int" where
  "hev_mapped_dns_construct self net msk mx =
     (if mx > sint (NOT msk) then (self, - 1)
      else (self\<lparr>d_max := mx, d_net := net, d_mask := msk\<rparr>, 0))"

text \<open>\<open>hev_malloc0\<close> returns a zeroed object with \<open>max\<close> null records, or null.\<close>

definition hev_mapped_dns_new :: "bool \<Rightarrow> u32 \<Rightarrow> u32 \<Rightarrow> int \<Rightarrow> HevMappedDNS option" where
  "hev_mapped_dns_new ok net msk mx =
     (if \<not> ok then None else
      let (self, res) = hev_mapped_dns_construct
        \<lparr>d_use = 0, d_max = 0, d_net = 0, d_mask = 0, d_list = \<lparr>head = 0, tail = 0, lnodes = Map.empty\<rparr>,
         d_tree = \<lparr>root = 0, nodes = Map.empty\<rparr>, d_records = replicate (nat mx) 0,
         d_entries = Map.empty\<rparr> net msk mx
      in if res < 0 then None else Some self)"

section \<open>Nodes\<close>

definition hev_mapped_dns_node_alloc :: "HevMappedDNS \<Rightarrow> allocation \<Rightarrow> bytes \<Rightarrow> HevMappedDNS" where
  "hev_mapped_dns_node_alloc self al name = (case al of (node, dup) \<Rightarrow>
     if node = 0 then self else
     self\<lparr>d_entries := (d_entries self)(node \<mapsto> \<lparr>n_name = if dup then Some name else None, n_idx = 0\<rparr>),
       d_tree := (d_tree self)\<lparr>nodes := (nodes (d_tree self))(node \<mapsto>
         \<lparr>parent_color = 0, n_right = 0, n_left = 0\<rparr>)\<rparr>,
       d_list := (d_list self)\<lparr>lnodes := (lnodes (d_list self))(node \<mapsto> \<lparr>l_next = 0, l_prev = 0\<rparr>)\<rparr>\<rparr>)"

definition hev_mapped_dns_node_free :: "HevMappedDNS \<Rightarrow> addr \<Rightarrow> HevMappedDNS option" where
  "hev_mapped_dns_node_free self node = do {
     _ \<leftarrow> d_entries self node;
     Some (self\<lparr>d_entries := (d_entries self)(node := None),
       d_tree := (d_tree self)\<lparr>nodes := (nodes (d_tree self))(node := None)\<rparr>,
       d_list := (d_list self)\<lparr>lnodes := (lnodes (d_list self))(node := None)\<rparr>\<rparr>) }"

section \<open>Finding the index of a name\<close>

text \<open>The descent: \<open>Inr\<close> the node with the name, or \<open>Inl\<close> the link to hang a new node from.\<close>

fun find_loop :: "nat \<Rightarrow> HevMappedDNS \<Rightarrow> link \<Rightarrow> addr \<Rightarrow> bytes \<Rightarrow> (addr \<times> link + addr) option" where
  "find_loop 0 self lnk parent name = None"
| "find_loop (Suc fuel) self lnk parent name = do {
     cur \<leftarrow> load_link (d_tree self) lnk;
     if cur = 0 then Some (Inl (parent, lnk)) else do {
       node \<leftarrow> d_entries self cur;
       nm \<leftarrow> n_name node;
       let res = strcmp nm name;
       if res < 0 then find_loop fuel self (LeftLink cur) cur name
       else if res > 0 then find_loop fuel self (RightLink cur) cur name
       else Some (Inr cur) } }"

definition store_record :: "HevMappedDNS \<Rightarrow> int \<Rightarrow> addr \<Rightarrow> HevMappedDNS option" where
  "store_record self idx node =
     (if 0 \<le> idx \<and> nat idx < length (d_records self)
      then Some (self\<lparr>d_records := (d_records self)[nat idx := node]\<rparr>) else None)"

definition load_record :: "HevMappedDNS \<Rightarrow> int \<Rightarrow> addr option" where
  "load_record self idx =
     (if 0 \<le> idx \<and> nat idx < length (d_records self) then Some (d_records self ! nat idx) else None)"

definition set_idx :: "HevMappedDNS \<Rightarrow> addr \<Rightarrow> int \<Rightarrow> HevMappedDNS option" where
  "set_idx self node idx = do {
     n \<leftarrow> d_entries self node;
     Some (self\<lparr>d_entries := (d_entries self)(node \<mapsto> n\<lparr>n_idx := idx\<rparr>)\<rparr>) }"

text \<open>A node found again goes to the end of the list.\<close>

definition touch :: "HevMappedDNS \<Rightarrow> addr \<Rightarrow> HevMappedDNS option" where
  "touch self node = do {
     l \<leftarrow> hev_list_del (d_list self) node;
     l \<leftarrow> hev_list_add_tail l node;
     Some (self\<lparr>d_list := l\<rparr>) }"

text \<open>The tree holds \<open>use\<close> nodes, one more while the new node is in, which bounds its loops.\<close>

definition dns_fuel :: "HevMappedDNS \<Rightarrow> nat" where
  "dns_fuel self = nat (d_use self) + 2"

definition hev_mapped_dns_find ::
  "allocation \<Rightarrow> HevMappedDNS \<Rightarrow> bytes \<Rightarrow> (HevMappedDNS \<times> int) option" where
  "hev_mapped_dns_find al self name = do {
     let fuel = dns_fuel self;
     r \<leftarrow> find_loop fuel self RootLink 0 name;
     case r of
       Inr cur \<Rightarrow> do {
         self \<leftarrow> touch self cur;
         node \<leftarrow> d_entries self cur;
         Some (self, n_idx node) }
     | Inl (parent, lnk) \<Rightarrow>
         if fst al = 0 then Some (self, - 1) else do {
           let node = fst al;
           let idx = d_use self;
           let self = hev_mapped_dns_node_alloc self al name;
           t \<leftarrow> hev_rbtree_node_link (d_tree self) node parent lnk;
           t \<leftarrow> hev_rbtree_insert_color fuel t node;
           l \<leftarrow> hev_list_add_tail (d_list self) node;
           let self = self\<lparr>d_tree := t, d_list := l\<rparr>;
           (self, idx) \<leftarrow> (if d_use self < d_max self
             then Some (self\<lparr>d_use := d_use self + 1\<rparr>, idx)
             else do {
               let nl = hev_list_first (d_list self);
               nf \<leftarrow> d_entries self nl;
               let idx = n_idx nf;
               t \<leftarrow> hev_rbtree_erase fuel (d_tree self) nl;
               l \<leftarrow> hev_list_del (d_list self) nl;
               self \<leftarrow> hev_mapped_dns_node_free (self\<lparr>d_tree := t, d_list := l\<rparr>) nl;
               Some (self, idx) });
           self \<leftarrow> store_record self idx node;
           self \<leftarrow> set_idx self node idx;
           Some (self, idx) } }"

section \<open>Looking an address up\<close>

text \<open>The result is the name of the node, \<open>None\<close> standing for the null pointer.\<close>

definition hev_mapped_dns_lookup :: "HevMappedDNS \<Rightarrow> u32 \<Rightarrow> (HevMappedDNS \<times> bytes option) option" where
  "hev_mapped_dns_lookup self ip = do {
     let idx = sint (ip AND NOT (d_mask self));
     if idx \<ge> d_max self then Some (self, None) else do {
       node \<leftarrow> load_record self idx;
       if node = 0 then Some (self, None) else do {
         self \<leftarrow> touch self node;
         n \<leftarrow> d_entries self node;
         Some (self, n_name n) } } }"

section \<open>Destruction\<close>

fun destruct_loop :: "nat \<Rightarrow> HevMappedDNS \<Rightarrow> addr \<Rightarrow> HevMappedDNS option" where
  "destruct_loop 0 self n = None"
| "destruct_loop (Suc fuel) self n =
    (if n = 0 then Some self else do {
       let t = n;
       n \<leftarrow> hev_list_node_next (d_list self) n;
       self \<leftarrow> hev_mapped_dns_node_free self t;
       destruct_loop fuel self n })"

definition hev_mapped_dns_destruct :: "HevMappedDNS \<Rightarrow> HevMappedDNS option" where
  "hev_mapped_dns_destruct self = destruct_loop (dns_fuel self) self (hev_list_first (d_list self))"

section \<open>DNS messages\<close>

text \<open>Accesses to a message buffer; an index outside it is \<open>None\<close>.\<close>

definition rd :: "bytes \<Rightarrow> nat \<Rightarrow> u8 option" where
  "rd b i = (if i < length b then Some (b ! i) else None)"

definition wr :: "bytes \<Rightarrow> nat \<Rightarrow> u8 \<Rightarrow> bytes option" where
  "wr b i v = (if i < length b then Some (b[i := v]) else None)"

text \<open>The fields of \<open>DNSHdr\<close> are 16 bit integers in the byte order of the host, which is
  little endian: \<open>fl\<close> is at offset 2, \<open>qd\<close> at 4, \<open>an\<close> at 6, \<open>ns\<close> at 8, \<open>ar\<close> at 10.\<close>

definition load16 :: "bytes \<Rightarrow> nat \<Rightarrow> u16 option" where
  "load16 b i = do { lo \<leftarrow> rd b i; hi \<leftarrow> rd b (i + 1); Some (ucast lo OR push_bit 8 (ucast hi)) }"

definition store16 :: "bytes \<Rightarrow> nat \<Rightarrow> u16 \<Rightarrow> bytes option" where
  "store16 b i v = do { b \<leftarrow> wr b i (ucast v); wr b (i + 1) (ucast (drop_bit 8 v)) }"

definition ntohs :: "u16 \<Rightarrow> u16" where
  "ntohs v = push_bit 8 v OR drop_bit 8 v"

definition read_u16 :: "bytes \<Rightarrow> nat \<Rightarrow> u16 option" where
  "read_u16 b i = do { hi \<leftarrow> rd b i; lo \<leftarrow> rd b (i + 1); Some (push_bit 8 (ucast hi) OR ucast lo) }"

definition write_u16 :: "bytes \<Rightarrow> nat \<Rightarrow> u16 \<Rightarrow> bytes option" where
  "write_u16 b i v = do { b \<leftarrow> wr b i (ucast (drop_bit 8 v)); wr b (i + 1) (ucast v) }"

definition write_u32 :: "bytes \<Rightarrow> nat \<Rightarrow> u32 \<Rightarrow> bytes option" where
  "write_u32 b i v = do {
     b \<leftarrow> wr b i (ucast (drop_bit 24 v));
     b \<leftarrow> wr b (i + 1) (ucast (drop_bit 16 v));
     b \<leftarrow> wr b (i + 2) (ucast (drop_bit 8 v));
     wr b (i + 3) (ucast v) }"

text \<open>The C string at an offset: up to the first zero byte, which has to be in the buffer.\<close>

definition cstr :: "bytes \<Rightarrow> nat \<Rightarrow> bytes option" where
  "cstr b i = (let s = drop i b in if 0 \<in> set s then Some (takeWhile (\<lambda>c. c \<noteq> 0) s) else None)"

text \<open>The labels of a question, each length byte overwritten with a dot. The inner \<open>None\<close> is
  the early \<open>return -1\<close>; the buffer is returned in both cases.\<close>

function label_loop :: "nat \<Rightarrow> bytes \<Rightarrow> nat \<Rightarrow> (bytes \<times> nat option) option" where
  "label_loop qlen rb off =
    (if off < length rb then
       if rb ! off = 0 then Some (rb, Some off)
       else let poff = off; off = off + 1 + unat (rb ! off) in
         if off \<ge> qlen then Some (rb, None) else label_loop qlen (rb[poff := 46]) off
     else None)"
  by pat_completeness auto
termination
  by (relation "measure (\<lambda>(qlen, rb, off). length rb - off)") auto

declare label_loop.simps [simp del]

fun question_loop ::
  "(HevMappedDNS \<Rightarrow> allocation) \<Rightarrow> nat \<Rightarrow> nat \<Rightarrow> HevMappedDNS \<Rightarrow> bytes \<Rightarrow> nat \<Rightarrow> (u32 \<times> nat) list \<Rightarrow>
     (HevMappedDNS \<times> bytes \<times> (nat \<times> (u32 \<times> nat) list) option) option" where
  "question_loop al qlen 0 self rb off ips = Some (self, rb, Some (off, ips))"
| "question_loop al qlen (Suc n) self rb off ips = do {
     let ipo = off;
     (rb, r) \<leftarrow> label_loop qlen rb off;
     case r of None \<Rightarrow> Some (self, rb, None)
     | Some off \<Rightarrow> do {
         let off = off + 1;
         if off + 3 \<ge> qlen then Some (self, rb, None) else do {
           qtype \<leftarrow> read_u16 rb off;
           qclass \<leftarrow> read_u16 rb (off + 2);
           (self, ips) \<leftarrow> (if qtype = 1 \<and> qclass = 1 then do {
               name \<leftarrow> cstr rb (ipo + 1);
               (self, idx) \<leftarrow> hev_mapped_dns_find (al self) self name;
               Some (self, if idx \<ge> 0 then ips @ [(d_net self OR word_of_int idx, ipo)] else ips) }
             else Some (self, ips));
           question_loop al qlen n self rb (off + 4) ips } } }"

fun answer_loop :: "nat \<Rightarrow> bytes \<Rightarrow> nat \<Rightarrow> (u32 \<times> nat) list \<Rightarrow> (bytes \<times> nat option) option" where
  "answer_loop slen sb off [] = Some (sb, Some off)"
| "answer_loop slen sb off ((ip, ipo) # ips) =
    (if off + 15 \<ge> slen then Some (sb, None) else do {
       sb \<leftarrow> wr sb off 0xc0;
       sb \<leftarrow> wr sb (off + 1) (of_nat ipo);
       sb \<leftarrow> write_u16 sb (off + 2) 1;
       sb \<leftarrow> write_u16 sb (off + 4) 1;
       sb \<leftarrow> write_u32 sb (off + 6) 1;
       sb \<leftarrow> write_u16 sb (off + 10) 4;
       sb \<leftarrow> write_u32 sb (off + 12) ip;
       answer_loop slen sb (off + 16) ips })"

text \<open>The result is the state, the two buffers and the length of the response or \<open>-1\<close>. \<open>qlen\<close>
  and \<open>slen\<close> may be less than the sizes of the blocks the buffers lie in.\<close>

definition hev_mapped_dns_handle ::
  "(HevMappedDNS \<Rightarrow> allocation) \<Rightarrow> HevMappedDNS \<Rightarrow> bytes \<Rightarrow> nat \<Rightarrow> bytes \<Rightarrow> nat \<Rightarrow>
     (HevMappedDNS \<times> bytes \<times> bytes \<times> int) option" where
  "hev_mapped_dns_handle al self req qlen res slen =
    (if slen < qlen then Some (self, req, res, - 1)
     else if qlen > length req \<or> qlen > length res then None
     else do {
       let res = write_at res 0 (take qlen req);
       qd \<leftarrow> load16 req 4;
       let qd = ntohs qd;
       req \<leftarrow> store16 req 4 qd;
       fl \<leftarrow> load16 res 2;
       res \<leftarrow> store16 res 2 (ntohs fl);
       res \<leftarrow> store16 res 8 0;
       res \<leftarrow> store16 res 6 0;
       res \<leftarrow> store16 res 10 0;
       if qd > 32 then Some (self, req, res, - 1) else do {
         (self, req, r) \<leftarrow> question_loop al qlen (unat qd) self req 12 [];
         case r of None \<Rightarrow> Some (self, req, res, - 1)
         | Some (off, ips) \<Rightarrow> do {
             (res, r) \<leftarrow> answer_loop slen res off ips;
             case r of None \<Rightarrow> Some (self, req, res, - 1)
             | Some off \<Rightarrow> do {
                 fl \<leftarrow> load16 res 2;
                 res \<leftarrow> store16 res 2 (ntohs (fl OR 0x8000 OR drop_bit 1 (fl AND 0x100)));
                 res \<leftarrow> store16 res 6 (ntohs (of_nat (length ips)));
                 Some (self, req, res, int off) } } } })"

end
