(* ===== verification/MappedDNSCache.thy ===== *)
theory MappedDNSCache
  imports MappedDNS
begin

text \<open>
  The mapped DNS state refines a cache of names in least-recently-used order: the tree holds
  the names in order, the list their order of use, the records the inverse of the indices.
  \<open>dns_rep\<close> relates the heap to both; \<open>lru_find\<close> and \<open>lru_lookup\<close> are the specification.
\<close>


section \<open>The order of names\<close>

lemma strcmp_self [simp]: "strcmp x x = 0"
  by (induction x) auto

lemma strcmp_0 [simp]: "strcmp x y = 0 \<longleftrightarrow> x = y"
  by (induction x y rule: strcmp.induct) (auto simp: word_uint_eq_iff)

lemma strcmp_swap: "strcmp y x = - strcmp x y"
  by (induction x y rule: strcmp.induct) auto

lemma strcmp_trans: "strcmp x y < 0 \<Longrightarrow> strcmp y z < 0 \<Longrightarrow> strcmp x z < 0"
proof (induction x y arbitrary: z rule: strcmp.induct)
  case (2 y ys)
  then show ?case by (cases z) auto
next
  case (4 x xs y ys)
  then show ?case by (cases z) (auto split: if_splits)
qed auto

section \<open>Representation\<close>

definition node_name :: "HevMappedDNS \<Rightarrow> addr \<Rightarrow> bytes" where
  "node_name d a = the (n_name (the (d_entries d a)))"

definition node_idx :: "HevMappedDNS \<Rightarrow> addr \<Rightarrow> int" where
  "node_idx d a = n_idx (the (d_entries d a))"

definition named :: "HevMappedDNS \<Rightarrow> addr \<Rightarrow> bool" where
  "named d a \<longleftrightarrow> d_entries d a = Some \<lparr>n_name = Some (node_name d a), n_idx = node_idx d a\<rparr>"

text \<open>\<open>nodes_rep d T L\<close>: the nodes are exactly those of the tree \<open>T\<close>, in decreasing order of
  their names, and those of the list \<open>L\<close>.\<close>

definition nodes_rep :: "HevMappedDNS \<Rightarrow> rbt \<Rightarrow> addr list \<Rightarrow> bool" where
  "nodes_rep d T L \<longleftrightarrow> tree_rep (d_tree d) T \<and> is_rbt T \<and> list_rep (d_list d) L \<and>
     set (addrs T) = set L \<and> dom (d_entries d) = set L \<and> (\<forall>a \<in> set L. named d a) \<and>
     sorted_wrt (\<lambda>a b. strcmp (node_name d b) (node_name d a) < 0) (addrs T)"

definition records_rep :: "HevMappedDNS \<Rightarrow> addr list \<Rightarrow> bool" where
  "records_rep d L \<longleftrightarrow> d_use d = int (length L) \<and> d_use d \<le> d_max d \<and>
     length (d_records d) = nat (d_max d) \<and>
     (\<forall>a \<in> set L. 0 \<le> node_idx d a \<and> node_idx d a < d_use d \<and> d_records d ! nat (node_idx d a) = a) \<and>
     (\<forall>i < length L. d_records d ! i \<in> set L \<and> node_idx d (d_records d ! i) = int i) \<and>
     (\<forall>i < length (d_records d). length L \<le> i \<longrightarrow> d_records d ! i = 0)"

definition dns_rep :: "HevMappedDNS \<Rightarrow> rbt \<Rightarrow> addr list \<Rightarrow> bool" where
  "dns_rep d T L \<longleftrightarrow> nodes_rep d T L \<and> records_rep d L"

lemma tree_length:
  assumes "nodes_rep d T L" shows "length (addrs T) = length L"
  using assms distinct_card [of "addrs T"] distinct_card [of L]
  by (simp add: nodes_rep_def tree_rep_def list_rep_def)

section \<open>The descent\<close>

lemma find_loop_refines:
  assumes "tree_rep (d_tree d) (plug t k)" "\<forall>a \<in> set (addrs t). named d a" "depth t < fuel"
    "sorted_wrt (\<lambda>a b. strcmp (node_name d b) (node_name d a) < 0) (addrs t)"
    "\<forall>a \<in> set (before k). strcmp name (node_name d a) < 0" "\<forall>a \<in> set (after k). strcmp (node_name d a) name < 0"
  shows "(\<exists>a \<in> set (addrs t). node_name d a = name \<and>
      find_loop fuel d (link_of k) (ctx_parent k) name = Some (Inr a)) \<or>
    (\<forall>a \<in> set (addrs t). node_name d a \<noteq> name) \<and>
    (\<exists>k'. plug t k = plug Lf k' \<and>
      find_loop fuel d (link_of k) (ctx_parent k) name = Some (Inl (ctx_parent k', link_of k')) \<and>
      (\<forall>a \<in> set (before k'). strcmp name (node_name d a) < 0) \<and> (\<forall>a \<in> set (after k'). strcmp (node_name d a) name < 0))"
  using assms
proof (induction t arbitrary: k fuel)
  case Lf
  then obtain f where "fuel = Suc f" by (cases fuel) auto
  with Lf load_link_of [of "d_tree d" Lf k] show ?case by auto
next
  case (Nd l c a r)
  obtain f where f: "fuel = Suc f" using Nd(5) by (cases fuel) auto
  have a: "a \<noteq> 0" "d_entries d a = Some \<lparr>n_name = Some (node_name d a), n_idx = node_idx d a\<rparr>"
    using Nd(3,4) zip_rep_tree [of "d_tree d" "Nd l c a r" k] by (auto simp: zip_rep_def named_def)
  have ld: "load_link (d_tree d) (link_of k) = Some a" using load_link_of [OF Nd(3)] by simp
  have so: "\<forall>b \<in> set (addrs r). strcmp (node_name d b) (node_name d a) < 0" "\<forall>b \<in> set (addrs l). strcmp (node_name d a) (node_name d b) < 0"
    using Nd(6) by (auto simp: sorted_wrt_append)
  consider "node_name d a = name" | "strcmp (node_name d a) name < 0" | "strcmp (node_name d a) name > 0"
    by (metis linorder_cases strcmp_0)
  then show ?case
  proof cases
    case 1
    then show ?thesis using f a ld by auto
  next
    case 2
    let ?k = "FL c a r # k"
    have step: "find_loop fuel d (link_of k) (ctx_parent k) name = find_loop f d (link_of ?k) (ctx_parent ?k) name"
      using 2 f a ld by simp
    have out: "\<forall>b \<in> set (a # addrs r). node_name d b \<noteq> name"
      using 2 so strcmp_trans [of _ "node_name d a" name] strcmp_self by (metis less_irrefl set_ConsD)
    have "(\<exists>b \<in> set (addrs l). node_name d b = name \<and> find_loop f d (link_of ?k) (ctx_parent ?k) name = Some (Inr b)) \<or>
      (\<forall>b \<in> set (addrs l). node_name d b \<noteq> name) \<and>
      (\<exists>k'. plug l ?k = plug Lf k' \<and>
        find_loop f d (link_of ?k) (ctx_parent ?k) name = Some (Inl (ctx_parent k', link_of k')) \<and>
        (\<forall>a \<in> set (before k'). strcmp name (node_name d a) < 0) \<and> (\<forall>a \<in> set (after k'). strcmp (node_name d a) name < 0))"
      using Nd(3-8) 2 f so strcmp_trans [of _ "node_name d a" name] by (intro Nd(1)) (auto simp: sorted_wrt_append)
    then show ?thesis using out step by auto
  next
    case 3
    let ?k = "FR c a l # k"
    have lt: "strcmp name (node_name d a) < 0" using 3 strcmp_swap [of name "node_name d a"] by simp
    have step: "find_loop fuel d (link_of k) (ctx_parent k) name = find_loop f d (link_of ?k) (ctx_parent ?k) name"
      using 3 f a ld by simp
    have out: "\<forall>b \<in> set (a # addrs l). node_name d b \<noteq> name"
      using lt so strcmp_trans [of name "node_name d a"] strcmp_self by (metis less_irrefl set_ConsD)
    have "(\<exists>b \<in> set (addrs r). node_name d b = name \<and> find_loop f d (link_of ?k) (ctx_parent ?k) name = Some (Inr b)) \<or>
      (\<forall>b \<in> set (addrs r). node_name d b \<noteq> name) \<and>
      (\<exists>k'. plug r ?k = plug Lf k' \<and>
        find_loop f d (link_of ?k) (ctx_parent ?k) name = Some (Inl (ctx_parent k', link_of k')) \<and>
        (\<forall>a \<in> set (before k'). strcmp name (node_name d a) < 0) \<and> (\<forall>a \<in> set (after k'). strcmp (node_name d a) name < 0))"
      using Nd(3-8) lt f so strcmp_trans [of name "node_name d a"] by (intro Nd(2)) (auto simp: sorted_wrt_append)
    then show ?thesis using out step by auto
  qed
qed


section \<open>The abstract cache\<close>

text \<open>The names with their indices, the least recently used first.\<close>

type_synonym lru = "(bytes \<times> int) list"

definition lru_of :: "HevMappedDNS \<Rightarrow> addr list \<Rightarrow> lru" where
  "lru_of d L = map (\<lambda>a. (node_name d a, node_idx d a)) L"

definition lru_find :: "int \<Rightarrow> bytes \<Rightarrow> lru \<Rightarrow> lru \<times> int" where
  "lru_find mx name c = (case map_of c name of
      Some i \<Rightarrow> (remove1 (name, i) c @ [(name, i)], i)
    | None \<Rightarrow> if int (length c) < mx then (c @ [(name, int (length c))], int (length c))
        else (tl c @ [(name, snd (hd c))], snd (hd c)))"

definition lru_lookup :: "int \<Rightarrow> lru \<Rightarrow> lru \<times> bytes option" where
  "lru_lookup i c = (case List.find (\<lambda>e. snd e = i) c of
      Some e \<Rightarrow> (remove1 e c @ [e], Some (fst e)) | None \<Rightarrow> (c, None))"

lemma node_cong: "d_entries d' = d_entries d \<Longrightarrow> node_name d' = node_name d \<and> node_idx d' = node_idx d \<and> named d' = named d"
  by (auto simp: node_name_def node_idx_def named_def fun_eq_iff)

lemma records_rep_cong:
  assumes "set L' = set L" "length L' = length L" "d_use d' = d_use d" "d_max d' = d_max d"
    "d_records d' = d_records d" "d_entries d' = d_entries d"
  shows "records_rep d' L' = records_rep d L"
  using assms node_cong [of d' d] by (simp add: records_rep_def)

lemma map_remove1_inj: "inj_on f (insert a (set xs)) \<Longrightarrow> map f (remove1 a xs) = remove1 (f a) (map f xs)"
  by (induction xs) (auto simp: inj_on_def)

lemma touch_refines:
  assumes r: "dns_rep d T L" and a: "a \<in> set L"
  shows "\<exists>l. touch d a = Some (d\<lparr>d_list := l\<rparr>) \<and> dns_rep (d\<lparr>d_list := l\<rparr>) T (remove1 a L @ [a])"
proof -
  have lr: "list_rep (d_list d) L" and dL: "distinct L" using r by (auto simp: dns_rep_def nodes_rep_def list_rep_def)
  obtain l1 l2 where l1: "hev_list_del (d_list d) a = Some l1" and l2: "hev_list_add_tail l1 a = Some l2"
      "list_rep l2 (remove1 a L @ [a])"
    using hq.move_to_tail [OF lr a] by blast
  let ?d = "d\<lparr>d_list := l2\<rparr>"
  have c: "node_name ?d = node_name d" "node_idx ?d = node_idx d" "named ?d = named d" using node_cong [of ?d d] by auto
  have s: "set (remove1 a L @ [a]) = set L" "length (remove1 a L @ [a]) = length L"
    using a dL by (auto simp: length_remove1) (metis Suc_pred length_pos_if_in_set)
  have "nodes_rep ?d T (remove1 a L @ [a])" using r l2(2) s(1) c unfolding dns_rep_def nodes_rep_def by simp
  moreover have "records_rep ?d (remove1 a L @ [a])" 
    using r s records_rep_cong [of "remove1 a L @ [a]" L ?d d] by (simp add: dns_rep_def)
  ultimately show ?thesis using l1 l2 by (auto simp: touch_def dns_rep_def)
qed

lemma node_name_inj: 
  assumes "nodes_rep d T L" shows "inj_on (node_name d) (set L)"
proof -
  have "distinct (map (node_name d) (addrs T))"
    using assms unfolding nodes_rep_def distinct_conv_nth sorted_wrt_iff_nth_less
    by (metis (no_types, lifting) length_map linorder_neqE_nat nth_map order_less_irrefl strcmp_self)
  then show ?thesis using assms by (auto simp: distinct_map nodes_rep_def)
qed

lemma lru_of_distinct:
  assumes "dns_rep d T L" shows "distinct (map fst (lru_of d L))" "distinct (map snd (lru_of d L))" "distinct L"
proof -
  show dL: "distinct L" using assms by (auto simp: dns_rep_def nodes_rep_def list_rep_def)
  have "inj_on (node_name d) (set L)" using assms node_name_inj by (auto simp: dns_rep_def)
  then show "distinct (map fst (lru_of d L))" using dL by (simp add: lru_of_def distinct_map comp_def)
  have "inj_on (node_idx d) (set L)" using assms 
    by (intro inj_on_inverseI [where g = "\<lambda>i. d_records d ! nat i"]) (auto simp: dns_rep_def records_rep_def)
  then show "distinct (map snd (lru_of d L))" using dL by (simp add: lru_of_def distinct_map comp_def)
qed

lemma lru_of_remove1:
  assumes "dns_rep d T L" "a \<in> set L"
  shows "lru_of d (remove1 a L) = remove1 (node_name d a, node_idx d a) (lru_of d L)"
proof -
  have "inj_on (\<lambda>a. (node_name d a, node_idx d a)) (set L)" 
    using node_name_inj assms by (auto simp: dns_rep_def inj_on_def)
  then show ?thesis using assms(2) by (simp add: lru_of_def map_remove1_inj insert_absorb)
qed

lemma map_of_lru:
  assumes "dns_rep d T L" "a \<in> set L" shows "map_of (lru_of d L) (node_name d a) = Some (node_idx d a)"
  using assms lru_of_distinct(1) [OF assms(1)] by (auto simp: lru_of_def intro!: map_of_is_SomeI)

lemma find_existing:
  assumes r: "dns_rep d T L" and a: "a \<in> set L" "node_name d a = name"
    and f: "find_loop (dns_fuel d) d RootLink 0 name = Some (Inr a)"
  shows "\<exists>d' L'. hev_mapped_dns_find al d name = Some (d', node_idx d a) \<and> dns_rep d' T L' \<and>
    lru_find (d_max d) name (lru_of d L) = (lru_of d' L', node_idx d a) \<and>
    d_max d' = d_max d \<and> d_net d' = d_net d \<and> d_mask d' = d_mask d"
proof -
  obtain l where l: "touch d a = Some (d\<lparr>d_list := l\<rparr>)" "dns_rep (d\<lparr>d_list := l\<rparr>) T (remove1 a L @ [a])"
    using touch_refines [OF r a(1)] by blast
  have n: "named d a" using r a by (auto simp: dns_rep_def nodes_rep_def)
  have "lru_of (d\<lparr>d_list := l\<rparr>) (remove1 a L @ [a]) = remove1 (name, node_idx d a) (lru_of d L) @ [(name, node_idx d a)]"
    using lru_of_remove1 [OF r a(1)] a(2) node_cong [of "d\<lparr>d_list := l\<rparr>" d] by (simp add: lru_of_def)
  with l f n map_of_lru [OF r a(1)] a(2) show ?thesis
    by (intro exI [of _ "d\<lparr>d_list := l\<rparr>"] exI [of _ "remove1 a L @ [a]"])
       (simp add: hev_mapped_dns_find_def lru_find_def named_def)
qed

section \<open>A new name\<close>

lemma insert_new:
  assumes r: "nodes_rep d T L" and T: "T = plug Lf k"
    and cmp: "\<forall>a \<in> set (before k). strcmp name (node_name d a) < 0" "\<forall>a \<in> set (after k). strcmp (node_name d a) name < 0"
    and na: "na \<noteq> 0" "aligned na" "na \<notin> set L" and f: "length k < fuel"
    and d1: "d1 = hev_mapped_dns_node_alloc d (na, True) name"
  shows "\<exists>t l T'. do { t \<leftarrow> hev_rbtree_node_link (d_tree d1) na (ctx_parent k) (link_of k);
      hev_rbtree_insert_color fuel t na } = Some t \<and> hev_list_add_tail (d_list d1) na = Some l \<and>
      nodes_rep (d1\<lparr>d_tree := t, d_list := l\<rparr>) T' (L @ [na])"
proof -
  have tr: "tree_rep (d_tree d) T" "is_rbt T" and lr: "list_rep (d_list d) L" and s: "set (addrs T) = set L"
    and dm: "dom (d_entries d) = set L" and nd: "\<forall>a \<in> set L. named d a"
    and so: "sorted_wrt (\<lambda>a b. strcmp (node_name d b) (node_name d a) < 0) (addrs T)"
    using r by (auto simp: nodes_rep_def)
  have out: "na \<notin> set (addrs T)" using s na by simp
  have "tree_rep (d_tree d1) T" using tr out na d1 by (auto simp: hev_mapped_dns_node_alloc_def tree_rep_def)
  then obtain t T' where t: "do { t \<leftarrow> hev_rbtree_node_link (d_tree d1) na (ctx_parent k) (link_of k);
      hev_rbtree_insert_color fuel t na } = Some t" "tree_rep t T'" "is_rbt T'" "addrs T' = before k @ na # after k"
    using insert_refines [of "d_tree d1" k na fuel] T tr(2) na out f d1
    by (auto simp: hev_mapped_dns_node_alloc_def)
  have "list_rep (d_list d1) L" using lr na d1 by (auto simp: hev_mapped_dns_node_alloc_def list_rep_def)
  then obtain l where l: "hev_list_add_tail (d_list d1) na = Some l" "list_rep l (L @ [na])"
    using add_tail_rep [of "d_list d1" L na] na d1 by (auto simp: hev_mapped_dns_node_alloc_def)
  let ?d = "d1\<lparr>d_tree := t, d_list := l\<rparr>"
  have en: "d_entries ?d = (d_entries d)(na \<mapsto> \<lparr>n_name = Some name, n_idx = 0\<rparr>)"
    using d1 na by (simp add: hev_mapped_dns_node_alloc_def)
  have node_name: "node_name ?d na = name" "\<And>a. a \<noteq> na \<Longrightarrow> node_name ?d a = node_name d a" using en by (auto simp: node_name_def)
  have nd': "named ?d na" "\<And>a. a \<noteq> na \<Longrightarrow> named ?d a = named d a" using en by (auto simp: named_def node_name_def node_idx_def)
  have bt: "na \<notin> set (before k)" "na \<notin> set (after k)" using out T by auto
  have nmk: "node_name ?d a = node_name d a" if "a \<in> set (before k) \<union> set (after k)" for a
    using that bt by (intro node_name(2)) auto
  have "sorted_wrt (\<lambda>a b. strcmp (node_name ?d b) (node_name ?d a) < 0) (before k @ after k) =
      sorted_wrt (\<lambda>a b. strcmp (node_name d b) (node_name d a) < 0) (before k @ after k)"
    by (intro sorted_wrt_cong_on) (simp add: nmk)
  then have "sorted_wrt (\<lambda>a b. strcmp (node_name ?d b) (node_name ?d a) < 0) (addrs T')"
    using so T cmp t(4) node_name(1) nmk by (simp add: sorted_wrt_append)
  moreover have "set (addrs T') = set (L @ [na])" using t(4) s T by auto
  moreover have "dom (d_entries ?d) = set (L @ [na])" using en dm by auto
  moreover have "named ?d a" if "a \<in> set (L @ [na])" for a
    using that nd nd' by (cases "a = na") auto
  ultimately have "nodes_rep ?d T' (L @ [na])" using t l unfolding nodes_rep_def by simp
  then show ?thesis using t l by blast
qed

lemma erase_oldest:
  assumes r: "nodes_rep d T (x # L)" and f: "length (addrs T) \<le> fuel"
  shows "\<exists>t l d' T'. hev_rbtree_erase fuel (d_tree d) x = Some t \<and> hev_list_del (d_list d) x = Some l \<and>
     hev_mapped_dns_node_free (d\<lparr>d_tree := t, d_list := l\<rparr>) x = Some d' \<and> nodes_rep d' T' L \<and>
     d_entries d' = (d_entries d)(x := None) \<and> d_use d' = d_use d \<and> d_max d' = d_max d \<and>
     d_net d' = d_net d \<and> d_mask d' = d_mask d \<and> d_records d' = d_records d"
proof -
  have tr: "tree_rep (d_tree d) T" "is_rbt T" and lr: "list_rep (d_list d) (x # L)" and s: "set (addrs T) = set (x # L)"
    and dm: "dom (d_entries d) = set (x # L)" and nd: "\<forall>a \<in> set (x # L). named d a"
    and so: "sorted_wrt (\<lambda>a b. strcmp (node_name d b) (node_name d a) < 0) (addrs T)" and dT: "distinct (addrs T)"
    using r by (auto simp: nodes_rep_def tree_rep_def)
  have xL: "x \<notin> set L" using lr by (simp add: list_rep_def)
  obtain t T' where t: "hev_rbtree_erase fuel (d_tree d) x = Some t" "tree_rep t T'" "is_rbt T'" "addrs T' = remove1 x (addrs T)"
    using erase_refines [OF tr _ f, of x] s by auto
  obtain l where l: "hev_list_del (d_list d) x = Some l" "list_rep l L"
    using del_rep_remove1 [OF lr, of x] by auto
  let ?d = "d\<lparr>d_tree := t, d_list := l\<rparr>"
  let ?d' = "?d\<lparr>d_entries := (d_entries d)(x := None), d_tree := t\<lparr>nodes := (nodes t)(x := None)\<rparr>,
     d_list := l\<lparr>lnodes := (lnodes l)(x := None)\<rparr>\<rparr>"
  have fr: "hev_mapped_dns_node_free ?d x = Some ?d'"
    using nd by (simp add: hev_mapped_dns_node_free_def named_def)
  have set: "set (addrs T') = set L" using t(4) s dT xL by (auto simp: set_remove1_eq)
  have node_name: "\<And>a. a \<in> set L \<Longrightarrow> node_name ?d' a = node_name d a \<and> named ?d' a = named d a"
    using xL by (auto simp: node_name_def named_def node_idx_def)
  have "sorted_wrt (\<lambda>a b. strcmp (node_name d b) (node_name d a) < 0) (addrs T')"
    using so t(4) by (simp add: sorted_wrt_remove1)
  then have "sorted_wrt (\<lambda>a b. strcmp (node_name ?d' b) (node_name ?d' a) < 0) (addrs T')"
    using node_name set by (subst sorted_wrt_cong_on [where Q = "\<lambda>a b. strcmp (node_name d b) (node_name d a) < 0"]) auto
  moreover have "tree_rep (d_tree ?d') T'" using t(2) set xL by (auto simp: tree_rep_def)
  moreover have "list_rep (d_list ?d') L" using l(2) xL by (auto simp: list_rep_def)
  moreover have "dom (d_entries ?d') = set L" using dm xL by auto
  moreover have "\<forall>a \<in> set L. named ?d' a" using nd node_name by auto
  ultimately have "nodes_rep ?d' T' L" using t(3) set by (simp add: nodes_rep_def)
  then show ?thesis using t(1) l(1) fr by (intro exI [of _ t] exI [of _ l] exI [of _ ?d'] exI [of _ T']) simp
qed

lemma set_idx_rep:
  assumes r: "nodes_rep d T L" and a: "a \<in> set L"
  shows "\<exists>d'. set_idx d a i = Some d' \<and> nodes_rep d' T L \<and> node_name d' = node_name d \<and> node_idx d' = (node_idx d)(a := i) \<and>
     d_use d' = d_use d \<and> d_max d' = d_max d \<and> d_net d' = d_net d \<and> d_mask d' = d_mask d \<and>
     d_records d' = d_records d"
proof -
  have n: "d_entries d a = Some \<lparr>n_name = Some (node_name d a), n_idx = node_idx d a\<rparr>"
    using r a by (auto simp: nodes_rep_def named_def)
  let ?d = "d\<lparr>d_entries := (d_entries d)(a \<mapsto> \<lparr>n_name = Some (node_name d a), n_idx = i\<rparr>)\<rparr>"
  have node_name: "node_name ?d = node_name d" "node_idx ?d = (node_idx d)(a := i)" using n by (auto simp: node_name_def node_idx_def fun_eq_iff)
  then have "named d b \<Longrightarrow> named ?d b" for b by (auto simp: named_def)
  with r a node_name have "nodes_rep ?d T L" by (auto simp: nodes_rep_def)
  then show ?thesis using n node_name by (simp add: set_idx_def)
qed

lemma store_record_ok:
  "0 \<le> idx \<Longrightarrow> nat idx < length (d_records self) \<Longrightarrow>
     store_record self idx node = Some (self\<lparr>d_records := (d_records self)[nat idx := node]\<rparr>)"
  by (simp add: store_record_def)

text \<open>The two ways a new node gets its index.\<close>

lemma records_room:
  assumes "records_rep d L" "d_use d < d_max d" "na \<notin> set L"
    and "d_use d' = d_use d + 1" "d_max d' = d_max d" "d_records d' = (d_records d)[length L := na]"
    and "node_idx d' na = d_use d" "\<And>a. a \<in> set L \<Longrightarrow> node_idx d' a = node_idx d a"
  shows "records_rep d' (L @ [na])"
  using assms by (auto simp: records_rep_def nth_list_update less_Suc_eq nat_less_iff)

lemma records_full:
  assumes "records_rep d (x # L)" "na \<notin> set (x # L)" "distinct (x # L)"
    and "d_use d' = d_use d" "d_max d' = d_max d" "d_records d' = (d_records d)[nat (node_idx d x) := na]"
    and "node_idx d' na = node_idx d x" "\<And>a. a \<in> set L \<Longrightarrow> node_idx d' a = node_idx d a"
  shows "records_rep d' (L @ [na])"
proof -
  have x: "0 \<le> node_idx d x" "node_idx d x < d_use d" and use: "d_use d = int (Suc (length L))" "d_use d \<le> d_max d"
    "length (d_records d) = nat (d_max d)"
    and A: "\<And>a. a \<in> set L \<Longrightarrow> 0 \<le> node_idx d a \<and> node_idx d a < d_use d \<and> d_records d ! nat (node_idx d a) = a"
    and B: "\<And>i. i < Suc (length L) \<Longrightarrow> d_records d ! i \<in> set (x # L) \<and> node_idx d (d_records d ! i) = int i"
    and C: "\<And>i. i < length (d_records d) \<Longrightarrow> Suc (length L) \<le> i \<Longrightarrow> d_records d ! i = 0"
    and X: "d_records d ! nat (node_idx d x) = x"
    using assms(1) by (auto simp: records_rep_def)
  have ne: "nat (node_idx d a) \<noteq> nat (node_idx d x)" if "a \<in> set L" for a
    using A [OF that] X assms(3) that by auto
  have "0 \<le> node_idx d' a \<and> node_idx d' a < d_use d' \<and> d_records d' ! nat (node_idx d' a) = a" if "a \<in> set (L @ [na])" for a
  proof (cases "a = na")
    case True
    then show ?thesis using assms(4,6,7) x use by simp
  next
    case False
    then have "a \<in> set L" using that by simp
    then show ?thesis using A [of a] ne [of a] assms(4,6,8) by simp
  qed
  moreover have "d_records d' ! i \<in> set (L @ [na]) \<and> node_idx d' (d_records d' ! i) = int i" if "i < length (L @ [na])" for i
  proof (cases "i = nat (node_idx d x)")
    case True
    then show ?thesis using assms(6,7) x use by (auto simp: nth_list_update)
  next
    case False
    then have "d_records d ! i \<in> set L" using B [of i] that x by auto
    then show ?thesis using False B [of i] that assms(6,8) by auto
  qed
  moreover have "d_records d' ! i = 0" if "i < length (d_records d')" "length (L @ [na]) \<le> i" for i
    using that C [of i] assms(6) x use by (auto simp: nth_list_update)
  ultimately show ?thesis using assms(4-6) use by (simp add: records_rep_def)
qed

text \<open>What \<open>malloc\<close> and \<open>strdup\<close> promise: null, or an aligned block that holds no live node.\<close>

definition alloc_ok :: "allocation \<Rightarrow> HevMappedDNS \<Rightarrow> bool" where
  "alloc_ok al d \<longleftrightarrow> (fst al \<noteq> 0 \<longrightarrow> aligned (fst al) \<and> d_entries d (fst al) = None) \<and> snd al"

definition same_net :: "HevMappedDNS \<Rightarrow> HevMappedDNS \<Rightarrow> bool" where
  "same_net d d' \<longleftrightarrow> d_max d' = d_max d \<and> d_net d' = d_net d \<and> d_mask d' = d_mask d"

lemma node_alloc_fields [simp]:
  "d_use (hev_mapped_dns_node_alloc d al name) = d_use d" "d_max (hev_mapped_dns_node_alloc d al name) = d_max d"
  "d_net (hev_mapped_dns_node_alloc d al name) = d_net d" "d_mask (hev_mapped_dns_node_alloc d al name) = d_mask d"
  "d_records (hev_mapped_dns_node_alloc d al name) = d_records d"
  by (auto simp: hev_mapped_dns_node_alloc_def split: prod.splits)

lemma node_alloc_entries:
  "na \<noteq> 0 \<Longrightarrow> d_entries (hev_mapped_dns_node_alloc d (na, True) name) =
     (d_entries d)(na \<mapsto> \<lparr>n_name = Some name, n_idx = 0\<rparr>)"
  by (simp add: hev_mapped_dns_node_alloc_def)

lemma find_new:
  assumes r: "dns_rep d T L" and mx: "1 \<le> d_max d" and T: "T = plug Lf k"
    and cmp: "\<forall>a \<in> set (before k). strcmp name (node_name d a) < 0" "\<forall>a \<in> set (after k). strcmp (node_name d a) name < 0"
    and na: "na \<noteq> 0" "aligned na" "d_entries d na = None" and new: "\<forall>a \<in> set L. node_name d a \<noteq> name"
    and f: "find_loop (dns_fuel d) d RootLink 0 name = Some (Inl (ctx_parent k, link_of k))"
  shows "\<exists>d' T' L' i. hev_mapped_dns_find (na, True) d name = Some (d', i) \<and> dns_rep d' T' L' \<and>
    lru_find (d_max d) name (lru_of d L) = (lru_of d' L', i) \<and> same_net d d'"
proof -
  have nr: "nodes_rep d T L" and rr: "records_rep d L" using r by (auto simp: dns_rep_def)
  have naL: "na \<notin> set L" using na(3) nr by (auto simp: nodes_rep_def)
  have use: "d_use d = int (length L)" "length (d_records d) = nat (d_max d)" using rr by (auto simp: records_rep_def)
  have lT: "length (addrs T) = length L" using tree_length [OF nr] .
  then have fk: "length k < dns_fuel d" using length_ctx [of k] T use by (simp add: dns_fuel_def)
  let ?d1 = "hev_mapped_dns_node_alloc d (na, True) name"
  obtain t1 t l T1 where t: "hev_rbtree_node_link (d_tree ?d1) na (ctx_parent k) (link_of k) = Some t1"
    "hev_rbtree_insert_color (dns_fuel d) t1 na = Some t" "hev_list_add_tail (d_list ?d1) na = Some l"
    "nodes_rep (?d1\<lparr>d_tree := t, d_list := l\<rparr>) T1 (L @ [na])"
    using insert_new [OF nr T cmp na(1,2) naL fk refl] by (auto simp: Option.bind_eq_Some_conv)
  let ?d2 = "?d1\<lparr>d_tree := t, d_list := l\<rparr>"
  have nm2: "node_name ?d2 a = (if a = na then name else node_name d a)" "node_idx ?d2 a = (if a = na then 0 else node_idx d a)" for a
    using na(1) by (auto simp: node_name_def node_idx_def node_alloc_entries)
  have mo: "map_of (lru_of d L) name = None" using new by (auto simp: lru_of_def map_of_eq_None_iff)
  show ?thesis
  proof (cases "d_use d < d_max d")
    case True
    let ?d3 = "?d2\<lparr>d_use := d_use d + 1, d_records := (d_records d)[length L := na]\<rparr>"
    have "nodes_rep ?d3 T1 (L @ [na])" using t(4) node_cong [of ?d3 ?d2] by (simp add: nodes_rep_def)
    then obtain d' where d': "set_idx ?d3 na (d_use d) = Some d'" "nodes_rep d' T1 (L @ [na])" "node_name d' = node_name ?d3"
      "node_idx d' = (node_idx ?d3)(na := d_use d)" "d_use d' = d_use d + 1" "d_max d' = d_max d" "d_net d' = d_net d"
      "d_mask d' = d_mask d" "d_records d' = (d_records d)[length L := na]"
      using set_idx_rep [of ?d3 T1 "L @ [na]" na "d_use d"] by auto
    have e: "node_name ?d3 = node_name ?d2" "node_idx ?d3 = node_idx ?d2" using node_cong [of ?d3 ?d2] by auto
    have "records_rep d' (L @ [na])"
      using d' e naL by (intro records_room [OF rr True naL]) (auto simp: nm2)
    moreover have "lru_of d' (L @ [na]) = lru_of d L @ [(name, int (length L))]"
      using d'(3,4) e naL use by (auto simp: lru_of_def nm2)
    moreover have "hev_mapped_dns_find (na, True) d name = Some (d', d_use d)"
      using f na(1) t True d'(1) use mx by (simp add: hev_mapped_dns_find_def store_record_ok)
    ultimately show ?thesis
      using d' mo True use by (intro exI [of _ d'] exI [of _ T1] exI [of _ "L @ [na]"])
        (simp add: dns_rep_def lru_find_def lru_of_def same_net_def)
  next
    case False
    then have full: "d_use d = d_max d" using rr by (simp add: records_rep_def)
    then obtain x L0 where L: "L = x # L0" using use mx by (cases L) auto
    have fl: "length (addrs T1) \<le> dns_fuel d" using tree_length [OF t(4)] use by (simp add: dns_fuel_def)
    have xn: "x \<noteq> na" using naL L by auto
    have dL: "distinct (x # L0)" using nr L by (auto simp: nodes_rep_def list_rep_def)
    have hd: "hev_list_first l = x"
      using t(4) L list_rep_first [of l "x # L0 @ [na]"] by (auto simp: nodes_rep_def)
    have x0: "d_entries ?d2 x = Some \<lparr>n_name = Some (node_name d x), n_idx = node_idx d x\<rparr>"
      using nr L xn na(1) by (auto simp: nodes_rep_def named_def node_alloc_entries)
    obtain t' l' d3 T3 where e: "hev_rbtree_erase (dns_fuel d) t x = Some t'" "hev_list_del l x = Some l'"
      "hev_mapped_dns_node_free (?d2\<lparr>d_tree := t', d_list := l'\<rparr>) x = Some d3" "nodes_rep d3 T3 (L0 @ [na])"
      "d_entries d3 = (d_entries ?d2)(x := None)" "d_use d3 = d_use d" "d_max d3 = d_max d" "d_net d3 = d_net d"
      "d_mask d3 = d_mask d" "d_records d3 = d_records d"
      using erase_oldest [of ?d2 T1 x "L0 @ [na]" "dns_fuel d"] t(4) L fl by auto
    have ixx: "0 \<le> node_idx d x" "node_idx d x < d_use d" using rr L by (auto simp: records_rep_def)
    let ?d4 = "d3\<lparr>d_records := (d_records d)[nat (node_idx d x) := na]\<rparr>"
    have e4: "node_name ?d4 a = node_name ?d2 a" "node_idx ?d4 a = node_idx ?d2 a" if "a \<noteq> x" for a
      using that e(5) by (auto simp: node_name_def node_idx_def)
    have "nodes_rep ?d4 T3 (L0 @ [na])" using e(4) node_cong [of ?d4 d3] by (simp add: nodes_rep_def)
    then obtain d' where d': "set_idx ?d4 na (node_idx d x) = Some d'" "nodes_rep d' T3 (L0 @ [na])" "node_name d' = node_name ?d4"
      "node_idx d' = (node_idx ?d4)(na := node_idx d x)" "d_use d' = d_use d" "d_max d' = d_max d" "d_net d' = d_net d"
      "d_mask d' = d_mask d" "d_records d' = (d_records d)[nat (node_idx d x) := na]"
      using set_idx_rep [of ?d4 T3 "L0 @ [na]" na "node_idx d x"] e by auto
    have nx: "a \<noteq> x" "a \<noteq> na" if "a \<in> set L0" for a using that dL naL L by auto
    have "records_rep d' (L0 @ [na])"
      using d' nx naL L dL by (intro records_full [OF rr [unfolded L]]) (auto simp: e4 nm2)
    moreover have "lru_of d' (L0 @ [na]) = tl (lru_of d L) @ [(name, node_idx d x)]"
      using d'(3,4) nx L xn by (auto simp: lru_of_def e4 nm2)
    moreover have "hev_mapped_dns_find (na, True) d name = Some (d', node_idx d x)"
      using f na(1) t full d'(1) use ixx hd x0 e
      by (simp add: hev_mapped_dns_find_def store_record_ok)
    ultimately show ?thesis
      using d' mo full use L by (intro exI [of _ d'] exI [of _ T3] exI [of _ "L0 @ [na]"])
        (simp add: dns_rep_def lru_find_def lru_of_def same_net_def)
  qed
qed

section \<open>The operations refine the cache\<close>

lemma lru_names: "fst ` set (lru_of d L) = node_name d ` set L"
  by (auto simp: lru_of_def image_iff)

lemma find_refines:
  assumes r: "dns_rep d T L" and mx: "1 \<le> d_max d" and al: "alloc_ok al d"
    and ok: "name \<in> fst ` set (lru_of d L) \<or> fst al \<noteq> 0"
  shows "\<exists>d' T' L' i. hev_mapped_dns_find al d name = Some (d', i) \<and> dns_rep d' T' L' \<and>
    lru_find (d_max d) name (lru_of d L) = (lru_of d' L', i) \<and> same_net d d'"
proof -
  have nr: "nodes_rep d T L" and use: "d_use d = int (length L)" using r by (auto simp: dns_rep_def records_rep_def)
  have T: "tree_rep (d_tree d) (plug T [])" "\<forall>a \<in> set (addrs T). named d a"
    "sorted_wrt (\<lambda>a b. strcmp (node_name d b) (node_name d a) < 0) (addrs T)" "set (addrs T) = set L"
    using nr by (auto simp: nodes_rep_def)
  have f: "depth T < dns_fuel d" using depth_le_addrs [of T] tree_length [OF nr] use by (simp add: dns_fuel_def)
  consider a where "a \<in> set L" "node_name d a = name" "find_loop (dns_fuel d) d RootLink 0 name = Some (Inr a)"
    | k where "\<forall>a \<in> set L. node_name d a \<noteq> name" "T = plug Lf k"
      "find_loop (dns_fuel d) d RootLink 0 name = Some (Inl (ctx_parent k, link_of k))"
      "\<forall>a \<in> set (before k). strcmp name (node_name d a) < 0" "\<forall>a \<in> set (after k). strcmp (node_name d a) name < 0"
    using find_loop_refines [OF T(1,2) f T(3), of name] T(4) by auto
  then show ?thesis
  proof cases
    case 1
    then show ?thesis using find_existing [OF r 1, of al] unfolding same_net_def by blast
  next
    case 2
    then have "fst al \<noteq> 0" using ok by (auto simp: lru_names)
    then show ?thesis
      using find_new [OF r mx 2(2,4,5) _ _ _ 2(1,3), of "fst al"] al by (cases al) (auto simp: alloc_ok_def)
  qed
qed

lemma find_no_memory:
  assumes r: "dns_rep d T L" and "name \<notin> fst ` set (lru_of d L)"
  shows "hev_mapped_dns_find (0, dup) d name = Some (d, - 1)"
proof -
  have nr: "nodes_rep d T L" and use: "d_use d = int (length L)" using r by (auto simp: dns_rep_def records_rep_def)
  have T: "tree_rep (d_tree d) (plug T [])" "\<forall>a \<in> set (addrs T). named d a"
    "sorted_wrt (\<lambda>a b. strcmp (node_name d b) (node_name d a) < 0) (addrs T)" "set (addrs T) = set L"
    using nr by (auto simp: nodes_rep_def)
  have f: "depth T < dns_fuel d" using depth_le_addrs [of T] tree_length [OF nr] use by (simp add: dns_fuel_def)
  from find_loop_refines [OF T(1,2) f T(3), of name] obtain k where
    "find_loop (dns_fuel d) d RootLink 0 name = Some (Inl (ctx_parent k, link_of k))"
    using T(4) assms(2) by (auto simp: lru_names)
  then show ?thesis by (simp add: hev_mapped_dns_find_def)
qed

lemma find_snd:
  "distinct (map snd xs) \<Longrightarrow> e \<in> set xs \<Longrightarrow> List.find (\<lambda>x. snd x = snd e) xs = Some e"
  by (induction xs) (auto simp: rev_image_eqI)

lemma find_lru_idx:
  assumes "dns_rep d T L" "a \<in> set L"
  shows "List.find (\<lambda>e. snd e = node_idx d a) (lru_of d L) = Some (node_name d a, node_idx d a)"
  using find_snd [OF lru_of_distinct(2) [OF assms(1)], of "(node_name d a, node_idx d a)"] assms(2)
  by (auto simp: lru_of_def)

lemma lookup_refines:
  assumes r: "dns_rep d T L" and idx: "idx = sint (ip AND NOT (d_mask d))" "0 \<le> idx"
  shows "\<exists>d' L' w. hev_mapped_dns_lookup d ip = Some (d', w) \<and> dns_rep d' T L' \<and>
    lru_lookup idx (lru_of d L) = (lru_of d' L', w) \<and> same_net d d'"
proof (cases "idx < d_use d")
  case True
  have rr: "records_rep d L" using r by (simp add: dns_rep_def)
  let ?a = "d_records d ! nat idx"
  have use: "d_use d = int (length L)" "d_use d \<le> d_max d" "length (d_records d) = nat (d_max d)"
    using rr by (auto simp: records_rep_def)
  have a: "?a \<in> set L" "node_idx d ?a = idx" using rr True idx(2) by (auto simp: records_rep_def nat_less_iff)
  have "?a \<noteq> 0" using r a(1) list_rep_nonzero by (auto simp: dns_rep_def nodes_rep_def)
  obtain l where l: "touch d ?a = Some (d\<lparr>d_list := l\<rparr>)" "dns_rep (d\<lparr>d_list := l\<rparr>) T (remove1 ?a L @ [?a])"
    using touch_refines [OF r a(1)] by blast
  have n: "named d ?a" using r a by (auto simp: dns_rep_def nodes_rep_def)
  have "lru_of (d\<lparr>d_list := l\<rparr>) (remove1 ?a L @ [?a]) = remove1 (node_name d ?a, idx) (lru_of d L) @ [(node_name d ?a, idx)]"
    using lru_of_remove1 [OF r a(1)] a(2) node_cong [of "d\<lparr>d_list := l\<rparr>" d] by (simp add: lru_of_def)
  then show ?thesis
    using l True idx use n find_lru_idx [OF r a(1)] a(2) \<open>?a \<noteq> 0\<close>
    by (intro exI [of _ "d\<lparr>d_list := l\<rparr>"] exI [of _ "remove1 ?a L @ [?a]"])
       (simp add: hev_mapped_dns_lookup_def load_record_def lru_lookup_def named_def same_net_def)
next
  case False
  have rr: "records_rep d L" using r by (simp add: dns_rep_def)
  have "List.find (\<lambda>e. snd e = idx) (lru_of d L) = None"
    using False rr by (auto simp: find_None_iff lru_of_def records_rep_def)
  moreover have "hev_mapped_dns_lookup d ip = Some (d, None)"
    using False rr idx
    by (auto simp: hev_mapped_dns_lookup_def load_record_def records_rep_def Let_def nat_less_iff le_nat_iff)
  ultimately show ?thesis using r
    by (intro exI [of _ d] exI [of _ L] exI [of _ None]) (simp add: lru_lookup_def same_net_def)
qed

lemma new_refines:
  assumes "hev_mapped_dns_new ok net msk mx = Some d" "0 \<le> mx"
  shows "dns_rep d Lf [] \<and> d_max d = mx \<and> d_net d = net \<and> d_mask d = msk \<and> mx \<le> sint (NOT msk)"
  using assms
  by (auto simp: hev_mapped_dns_new_def hev_mapped_dns_construct_def dns_rep_def nodes_rep_def records_rep_def
      tree_rep_def is_rbt_def Let_def split: if_splits)

text \<open>Every node is freed once, and none is read after it is freed.\<close>

lemma destruct_loop_frees:
  assumes "lseg (lnodes (d_list d)) p L 0" "distinct L" "set L \<subseteq> dom (d_entries d)" "length L < fuel"
  shows "\<exists>d'. destruct_loop fuel d (hd0 L 0) = Some d' \<and> d_entries d' = (d_entries d) |` (- set L)"
  using assms
proof (induction L arbitrary: d p fuel)
  case Nil
  then show ?case by (cases fuel) (auto simp: restrict_map_def)
next
  case (Cons x L)
  obtain f where f: "fuel = Suc f" using Cons(5) by (cases fuel) auto
  obtain v where v: "d_entries d x = Some v" using Cons(4) by auto
  let ?d = "d\<lparr>d_entries := (d_entries d)(x := None),
       d_tree := (d_tree d)\<lparr>nodes := (nodes (d_tree d))(x := None)\<rparr>,
       d_list := (d_list d)\<lparr>lnodes := (lnodes (d_list d))(x := None)\<rparr>\<rparr>"
  have "lseg (lnodes (d_list ?d)) x L 0" using Cons(2,3) by simp
  then have "\<exists>d'. destruct_loop f ?d (hd0 L 0) = Some d' \<and> d_entries d' = (d_entries ?d) |` (- set L)"
    by (rule Cons(1)) (use Cons(3-5) f in auto)
  moreover have "destruct_loop fuel d x = destruct_loop f ?d (hd0 L 0)"
    using Cons(2) f v by (simp add: hev_list_node_next_def hev_mapped_dns_node_free_def)
  moreover have "(d_entries ?d) |` (- set L) = (d_entries d) |` (- set (x # L))"
    by (auto simp: restrict_map_def fun_eq_iff)
  ultimately show ?case by auto
qed

lemma destruct_refines:
  assumes "dns_rep d T L"
  shows "\<exists>d'. hev_mapped_dns_destruct d = Some d' \<and> d_entries d' = Map.empty"
proof -
  have l: "list_rep (d_list d) L" "dom (d_entries d) = set L" "d_use d = int (length L)"
    using assms by (auto simp: dns_rep_def nodes_rep_def records_rep_def)
  then have "\<exists>d'. destruct_loop (dns_fuel d) d (hd0 L 0) = Some d' \<and> d_entries d' = (d_entries d) |` (- set L)"
    by (intro destruct_loop_frees) (auto simp: list_rep_def dns_fuel_def)
  then show ?thesis
    using l by (auto simp: hev_mapped_dns_destruct_def list_rep_first restrict_map_def fun_eq_iff dom_def)
qed

section \<open>The state of a mapped DNS instance\<close>

definition dns_state :: "HevMappedDNS \<Rightarrow> lru \<Rightarrow> bool" where
  "dns_state d c \<longleftrightarrow> (\<exists>T L. dns_rep d T L \<and> lru_of d L = c)"

definition lru_ok :: "int \<Rightarrow> lru \<Rightarrow> bool" where
  "lru_ok mx c \<longleftrightarrow> distinct (map fst c) \<and> distinct (map snd c) \<and> int (length c) \<le> mx \<and>
     (\<forall>e \<in> set c. 0 \<le> snd e \<and> snd e < int (length c))"

lemma dns_state_ok: "dns_state d c \<Longrightarrow> lru_ok (d_max d) c"
  using lru_of_distinct
  by (fastforce simp: dns_state_def lru_ok_def dns_rep_def records_rep_def lru_of_def)

lemma find_state:
  assumes "dns_state d c" "1 \<le> d_max d" "alloc_ok al d" "name \<in> fst ` set c \<or> fst al \<noteq> 0"
    "lru_find (d_max d) name c = (c', i)"
  shows "\<exists>d'. hev_mapped_dns_find al d name = Some (d', i) \<and> dns_state d' c' \<and> same_net d d'"
  using assms find_refines unfolding dns_state_def by (metis prod.inject)

lemma find_state_no_memory:
  assumes "dns_state d c" "name \<notin> fst ` set c"
  shows "hev_mapped_dns_find (0, dup) d name = Some (d, - 1)"
  using assms find_no_memory unfolding dns_state_def by blast

lemma lookup_state:
  assumes "dns_state d c" "0 \<le> sint (ip AND NOT (d_mask d))"
    "lru_lookup (sint (ip AND NOT (d_mask d))) c = (c', w)"
  shows "\<exists>d'. hev_mapped_dns_lookup d ip = Some (d', w) \<and> dns_state d' c' \<and> same_net d d'"
  using assms lookup_refines unfolding dns_state_def by (metis prod.inject)

section \<open>Facts about the cache\<close>

lemma lru_find_Some:
  "map_of c name = Some i \<Longrightarrow> lru_find mx name c = (remove1 (name, i) c @ [(name, i)], i)"
  by (simp add: lru_find_def)

lemma lru_find_last: "lru_find mx name c = (c', i) \<Longrightarrow> \<exists>c0. c' = c0 @ [(name, i)]"
  by (auto simp: lru_find_def split: option.splits if_splits)

lemma lru_lookup_hit:
  assumes "distinct (map snd c)" "(name, i) \<in> set c"
  shows "lru_lookup i c = (remove1 (name, i) c @ [(name, i)], Some name)"
  using find_snd [OF assms] by (simp add: lru_lookup_def)

text \<open>\<open>recent n e c\<close>: at most \<open>n\<close> entries were used after \<open>e\<close>.\<close>

definition recent :: "nat \<Rightarrow> bytes \<times> int \<Rightarrow> lru \<Rightarrow> bool" where
  "recent n e c \<longleftrightarrow> (\<exists>us vs. c = us @ e # vs \<and> length vs \<le> n)"

lemma recentI: "c = us @ e # vs \<Longrightarrow> length vs \<le> n \<Longrightarrow> recent n e c"
  by (auto simp: recent_def)

lemma recent_mono: "recent n e c \<Longrightarrow> n \<le> m \<Longrightarrow> recent m e c"
  by (auto simp: recent_def [of n] intro: recentI)

lemma lru_find_None:
  "map_of c name = None \<Longrightarrow> lru_find mx name c =
     (if int (length c) < mx then (c @ [(name, int (length c))], int (length c))
      else (tl c @ [(name, snd (hd c))], snd (hd c)))"
  by (simp add: lru_find_def)

lemma recent_move:
  assumes "recent n e c" "distinct c" "x \<in> set c" shows "recent (Suc n) e (remove1 x c @ [x])"
proof -
  obtain us vs where c: "c = us @ e # vs" "length vs \<le> n" using assms by (auto simp: recent_def)
  consider "x \<in> set us" | "x = e" | "x \<in> set vs" "x \<noteq> e" "x \<notin> set us" using assms c by auto
  then show ?thesis
  proof cases
    case 1
    then have "remove1 x c @ [x] = remove1 x us @ e # (vs @ [x])" using c by (simp add: remove1_append)
    then show ?thesis using c by (intro recentI [of _ "remove1 x us" _ "vs @ [x]"]) auto
  next
    case 2
    then have "remove1 x c @ [x] = (us @ vs) @ e # []" using c assms(2) by (auto simp: remove1_append)
    then show ?thesis unfolding recent_def by (metis le0 list.size(3))
  next
    case 3
    then have "remove1 x c @ [x] = us @ e # (remove1 x vs @ [x])" using c by (auto simp: remove1_append)
    moreover have "length (remove1 x vs @ [x]) \<le> Suc n" using c 3 by (simp add: length_remove1)
    ultimately show ?thesis unfolding recent_def by blast
  qed
qed

lemma recent_find:
  assumes "recent n e c" "lru_ok mx c" "int (Suc n) < mx" "lru_find mx name c = (c', i)"
  shows "recent (Suc n) e c'"
proof (cases "map_of c name")
  case (Some j)
  then have "(name, j) \<in> set c" by (rule map_of_SomeD)
  moreover have "distinct c" using assms(2) by (auto simp: lru_ok_def distinct_map)
  ultimately show ?thesis using recent_move [OF assms(1)] assms(4) Some by (auto simp: lru_find_Some)
next
  case None
  obtain us vs where c: "c = us @ e # vs" "length vs \<le> n" using assms by (auto simp: recent_def)
  note find = assms(4) [unfolded lru_find_None [OF None]]
  show ?thesis
  proof (cases "int (length c) < mx")
    case True
    then show ?thesis using c find by (intro recentI [of _ us _ "vs @ [(name, i)]"]) auto
  next
    case False
    then have "us \<noteq> []" using c assms(3) by auto
    then show ?thesis using c find False by (intro recentI [of _ "tl us" _ "vs @ [(name, i)]"]) auto
  qed
qed

lemma recent_lookup:
  assumes "recent n e c" "lru_ok mx c" "lru_lookup j c = (c', w)"
  shows "recent (Suc n) e c'"
proof -
  have "distinct c" using assms(2) by (auto simp: lru_ok_def distinct_map)
  with assms show ?thesis
    by (auto simp: lru_lookup_def find_Some_iff intro!: recent_move split: option.splits)
       (metis le_SucI recent_def)
qed

section \<open>The contract of the name cache\<close>

text \<open>What the clients of mapped DNS (the DNS message handler and the sessions that turn an
  address back into a name) rely on: every answered request is a step of the cache.\<close>

locale name_cache =
  fixes st :: "'s \<Rightarrow> lru \<Rightarrow> bool"
    and cap :: "'s \<Rightarrow> int"
    and find_rel :: "'s \<Rightarrow> bytes \<Rightarrow> 's \<Rightarrow> int \<Rightarrow> bool"
    and look_rel :: "'s \<Rightarrow> int \<Rightarrow> 's \<Rightarrow> bytes option \<Rightarrow> bool"
  assumes st_ok: "st s c \<Longrightarrow> lru_ok (cap s) c"
    and find_law: "find_rel s name s' i \<Longrightarrow> st s c \<Longrightarrow>
      (i = - 1 \<and> s' = s) \<or> (\<exists>c'. lru_find (cap s) name c = (c', i) \<and> st s' c' \<and> cap s' = cap s)"
    and look_law: "look_rel s j s' w \<Longrightarrow> st s c \<Longrightarrow>
      \<exists>c'. lru_lookup j c = (c', w) \<and> st s' c' \<and> cap s' = cap s"
begin

inductive step :: "'s \<Rightarrow> 's \<Rightarrow> bool" where
  step_find: "find_rel s name s' i \<Longrightarrow> step s s'"
| step_look: "look_rel s j s' w \<Longrightarrow> step s s'"

lemma step_recent:
  assumes "step s s'" "st s c" "recent n e c" "int (Suc n) < cap s"
  shows "\<exists>c'. st s' c' \<and> recent (Suc n) e c' \<and> cap s' = cap s"
  using assms(1)
proof cases
  case (step_find name i)
  from find_law [OF this assms(2)] show ?thesis
  proof
    assume "i = - 1 \<and> s' = s"
    moreover have "recent (Suc n) e c" using assms(3) by (rule recent_mono) simp
    ultimately show ?thesis using assms(2) by blast
  next
    assume "\<exists>c'. lru_find (cap s) name c = (c', i) \<and> st s' c' \<and> cap s' = cap s"
    then show ?thesis using recent_find [OF assms(3) st_ok [OF assms(2)] assms(4)] by blast
  qed
next
  case (step_look j w)
  from look_law [OF this assms(2)] show ?thesis
    using recent_lookup [OF assms(3) st_ok [OF assms(2)]] by blast
qed

lemma steps_recent:
  assumes "(step ^^ n) s s'" "st s c" "recent 0 e c" "int n < cap s"
  shows "\<exists>c'. st s' c' \<and> recent n e c' \<and> cap s' = cap s"
  using assms
proof (induction n arbitrary: s')
  case (Suc n)
  then obtain s1 where "(step ^^ n) s s1" "step s1 s'" by auto
  then show ?case using Suc step_recent [of s1 s'] by (metis Suc_lessD of_nat_less_iff order_less_trans lessI)
qed auto

lemma find_recent:
  assumes "find_rel s name s' i" "st s c" "i \<noteq> - 1"
  shows "\<exists>c'. st s' c' \<and> recent 0 (name, i) c' \<and> cap s' = cap s"
proof -
  obtain c' where c': "lru_find (cap s) name c = (c', i)" "st s' c'" "cap s' = cap s"
    using find_law [OF assms(1,2)] assms(3) by auto
  obtain c0 where "c' = c0 @ [(name, i)]" using lru_find_last [OF c'(1)] by blast
  then have "recent 0 (name, i) c'" by (intro recentI [of _ c0 _ "[]"]) auto
  with c' show ?thesis by blast
qed

lemma mapping_survives:
  assumes "find_rel s name s1 i" "st s c" "i \<noteq> - 1" "(step ^^ n) s1 s2" "int n < cap s"
    "look_rel s2 i s3 w"
  shows "w = Some name"
proof -
  obtain c1 where c1: "st s1 c1" "recent 0 (name, i) c1" "cap s1 = cap s"
    using find_recent [OF assms(1-3)] by blast
  obtain c2 where c2: "st s2 c2" "recent n (name, i) c2"
    using steps_recent [OF assms(4) c1(1,2)] assms(5) c1(3) by auto
  have "(name, i) \<in> set c2" using c2(2) by (auto simp: recent_def)
  then show ?thesis
    using look_law [OF assms(6) c2(1)] lru_lookup_hit [of c2 name i] st_ok [OF c2(1)] by (auto simp: lru_ok_def)
qed

end

text \<open>The requests of the C code.\<close>

definition dns_find_rel :: "HevMappedDNS \<Rightarrow> bytes \<Rightarrow> HevMappedDNS \<Rightarrow> int \<Rightarrow> bool" where
  "dns_find_rel d name d' i \<longleftrightarrow>
     (\<exists>al. alloc_ok al d \<and> 1 \<le> d_max d \<and> hev_mapped_dns_find al d name = Some (d', i))"

definition dns_look_rel :: "HevMappedDNS \<Rightarrow> int \<Rightarrow> HevMappedDNS \<Rightarrow> bytes option \<Rightarrow> bool" where
  "dns_look_rel d j d' w \<longleftrightarrow>
     (\<exists>ip. j = sint (ip AND NOT (d_mask d)) \<and> 0 \<le> j \<and> hev_mapped_dns_lookup d ip = Some (d', w))"

lemma dns_find_law:
  assumes "dns_find_rel d name d' i" "dns_state d c"
  shows "(i = - 1 \<and> d' = d) \<or> (\<exists>c'. lru_find (d_max d) name c = (c', i) \<and> dns_state d' c' \<and> same_net d d')"
proof -
  obtain al where al: "alloc_ok al d" "1 \<le> d_max d" "hev_mapped_dns_find al d name = Some (d', i)"
    using assms(1) by (auto simp: dns_find_rel_def)
  show ?thesis
  proof (cases "name \<in> fst ` set c \<or> fst al \<noteq> 0")
    case True
    obtain c' j where "lru_find (d_max d) name c = (c', j)" by fastforce
    then show ?thesis using find_state [OF assms(2) al(2,1) True] al(3) by auto
  next
    case False
    then show ?thesis using find_state_no_memory [OF assms(2), of name "snd al"] al(3) by (cases al) auto
  qed
qed

lemma dns_look_law:
  assumes "dns_look_rel d j d' w" "dns_state d c"
  shows "\<exists>c'. lru_lookup j c = (c', w) \<and> dns_state d' c' \<and> same_net d d'"
proof -
  obtain ip where ip: "j = sint (ip AND NOT (d_mask d))" "0 \<le> j" "hev_mapped_dns_lookup d ip = Some (d', w)"
    using assms(1) by (auto simp: dns_look_rel_def)
  obtain c' v where "lru_lookup j c = (c', v)" by fastforce
  then show ?thesis using lookup_state [OF assms(2), of ip] ip by auto
qed

interpretation dns: name_cache dns_state d_max dns_find_rel dns_look_rel
proof
  fix d c
  show "dns_state d c \<Longrightarrow> lru_ok (d_max d) c" by (rule dns_state_ok)
next
  fix d name d' i c
  show "dns_find_rel d name d' i \<Longrightarrow> dns_state d c \<Longrightarrow>
      (i = - 1 \<and> d' = d) \<or> (\<exists>c'. lru_find (d_max d) name c = (c', i) \<and> dns_state d' c' \<and> d_max d' = d_max d)"
    using dns_find_law unfolding same_net_def by blast
next
  fix d j d' w c
  show "dns_look_rel d j d' w \<Longrightarrow> dns_state d c \<Longrightarrow>
      \<exists>c'. lru_lookup j c = (c', w) \<and> dns_state d' c' \<and> d_max d' = d_max d"
    using dns_look_law unfolding same_net_def by blast
qed

section \<open>Addresses and indices\<close>

text \<open>The netmask of a mapped network: the network bits are ones, the host bits \<open>k\<close> zeros.\<close>

definition mapped_net :: "HevMappedDNS \<Rightarrow> nat \<Rightarrow> bool" where
  "mapped_net d k \<longleftrightarrow> k \<le> 31 \<and> NOT (d_mask d) = mask k \<and> d_net d AND mask k = 0 \<and>
     1 \<le> d_max d \<and> d_max d \<le> sint (NOT (d_mask d))"

lemma sint_mask31: "k \<le> 31 \<Longrightarrow> sint (mask k :: u32) = 2 ^ k - 1"
proof -
  assume k: "k \<le> 31"
  have "(2::int) ^ k \<le> 2 ^ 31" using k by (intro power_increasing) auto
  then have lt: "(mask k :: int) < 2 ^ 31" by (simp add: mask_eq_exp_minus_1)
  have "- (2 ^ 31) \<le> (0::int)" "0 \<le> (mask k :: int)" by simp_all
  then have "- (2 ^ 31) \<le> (mask k :: int)" by (rule order_trans)
  with lt have "signed_take_bit 31 (mask k :: int) = mask k" by (intro signed_take_bit_int_eq_self)
  moreover have "sint (mask k :: u32) = signed_take_bit 31 (uint (mask k :: u32))" by (simp add: sint_uint)
  moreover have "uint (mask k :: u32) = mask k" using k by transfer (simp add: take_bit_of_mask min_def)
  ultimately show ?thesis by (simp add: mask_eq_exp_minus_1)
qed

lemma host_index:
  assumes n: "mapped_net d k" and i: "0 \<le> i" "i < d_max d"
  shows "sint ((d_net d OR word_of_int i) AND NOT (d_mask d)) = i"
proof -
  have k: "k \<le> 31" and m: "NOT (d_mask d) = mask k" and nt: "d_net d AND mask k = 0"
    using n by (auto simp: mapped_net_def)
  have ik: "i < 2 ^ k" using n i sint_mask31 [OF k] m by (simp add: mapped_net_def)
  have "(2::int) ^ k \<le> 2 ^ 31" using k by (intro power_increasing) auto
  then have i31: "i < 2 ^ 31" using ik by linarith
  have "(d_net d OR word_of_int i) AND mask k = (word_of_int i :: u32) AND mask k"
    using nt by (simp add: bit.conj_disj_distrib2)
  also have "\<dots> = take_bit k (word_of_int i)" by (simp add: take_bit_eq_mask)
  also have "\<dots> = word_of_int (take_bit k i)" by transfer (simp add: min.commute)
  also have "take_bit k i = i" using i ik by (simp add: take_bit_int_eq_self)
  finally have e: "(d_net d OR word_of_int i) AND NOT (d_mask d) = word_of_int i" using m by simp
  have "sint (word_of_int i :: u32) = signed_take_bit 31 i" by (simp add: sint_uint unsigned_of_int signed_take_bit_take_bit)
  also have "\<dots> = i" using i i31 by (intro signed_take_bit_int_eq_self) auto
  finally show ?thesis using e by simp
qed

lemma step_same_net:
  assumes "dns.step d d'" "dns_state d c" shows "(\<exists>c'. dns_state d' c') \<and> same_net d d'"
  using assms(1)
proof cases
  case (step_find name i)
  then show ?thesis using dns_find_law [OF step_find assms(2)] assms(2) by (auto simp: same_net_def)
next
  case (step_look j w)
  then show ?thesis using dns_look_law [OF step_look assms(2)] by blast
qed

lemma steps_same_net:
  assumes "(dns.step ^^ n) d d'" "dns_state d c" shows "(\<exists>c'. dns_state d' c') \<and> same_net d d'"
  using assms
proof (induction n arbitrary: d')
  case 0
  then show ?case by (auto simp: same_net_def)
next
  case (Suc n)
  then obtain d1 where "(dns.step ^^ n) d d1" "dns.step d1 d'" by auto
  then show ?case using Suc step_same_net [of d1 d'] by (fastforce simp: same_net_def)
qed

lemma lru_find_bounds:
  assumes "lru_find mx name c = (c', i)" "lru_ok mx c" "1 \<le> mx"
  shows "0 \<le> i \<and> i < mx"
proof (cases "map_of c name")
  case None
  show ?thesis
  proof (cases "int (length c) < mx")
    case True
    then show ?thesis using assms(1) None by (auto simp: lru_find_None)
  next
    case False
    then have "hd c \<in> set c" using assms by (cases c) auto
    then show ?thesis using assms False None by (auto simp: lru_find_None lru_ok_def)
  qed
next
  case (Some j)
  then show ?thesis using assms map_of_SomeD [OF Some] by (auto simp: lru_find_Some lru_ok_def)
qed

section \<open>Properties\<close>

text \<open>C6. \<open>hev_mapped_dns_find\<close> implements one request of the least-recently-used cache: it
  returns (never failing on the heap) the index the cache assigns to the name, which is the
  name's own, the next unused one, or that of the least recently used name; and with no
  memory for a new name it returns \<open>-1\<close> and changes nothing.\<close>

theorem mapped_dns_find_refines:
  assumes "dns_state d c" "1 \<le> d_max d" "alloc_ok al d"
  shows "(if name \<in> fst ` set c \<or> fst al \<noteq> 0
     then \<exists>d'. hev_mapped_dns_find al d name = Some (d', snd (lru_find (d_max d) name c)) \<and>
       dns_state d' (fst (lru_find (d_max d) name c)) \<and> same_net d d' \<and>
       0 \<le> snd (lru_find (d_max d) name c) \<and> snd (lru_find (d_max d) name c) < d_max d
     else hev_mapped_dns_find al d name = Some (d, - 1))"
proof (cases "name \<in> fst ` set c \<or> fst al \<noteq> 0")
  case True
  obtain c' i where ci: "lru_find (d_max d) name c = (c', i)" by fastforce
  then show ?thesis
    using True find_state [OF assms True ci] lru_find_bounds [OF ci dns_state_ok [OF assms(1)] assms(2)] by auto
next
  case False
  then show ?thesis using find_state_no_memory [OF assms(1), of name "snd al"] by (cases al) auto
qed

text \<open>C5. A mapping that was handed out survives the next \<open>max - 1\<close> requests, whatever they
  are: looking the address \<open>net | idx\<close> up after fewer than \<open>max\<close> other calls gives the name.\<close>

theorem mapped_dns_roundtrip:
  assumes "dns_state d c" "mapped_net d k" "alloc_ok al d"
    and "hev_mapped_dns_find al d name = Some (d1, i)" "i \<noteq> - 1"
    and "(dns.step ^^ n) d1 d2" "int n < d_max d"
  shows "\<exists>d3. hev_mapped_dns_lookup d2 (d_net d OR word_of_int i) = Some (d3, Some name)"
proof -
  have "1 \<le> d_max d" using assms(2) by (simp add: mapped_net_def)
  then have f: "dns_find_rel d name d1 i" using assms(3,4) unfolding dns_find_rel_def by blast
  obtain c1 where c1: "lru_find (d_max d) name c = (c1, i)" "dns_state d1 c1" "same_net d d1"
    using dns_find_law [OF f assms(1)] assms(5) by blast
  obtain c2 where c2: "dns_state d2 c2" "same_net d1 d2" using steps_same_net [OF assms(6) c1(2)] by blast
  have i: "0 \<le> i" "i < d_max d"
    using lru_find_bounds [OF c1(1) dns_state_ok [OF assms(1)]] assms(2) by (auto simp: mapped_net_def)
  have m: "d_mask d2 = d_mask d" using c1 c2 by (simp add: same_net_def)
  have j: "sint ((d_net d OR word_of_int i) AND NOT (d_mask d2)) = i" using host_index [OF assms(2) i] m by simp
  obtain c' w where "lru_lookup i c2 = (c', w)" by fastforce
  then obtain d3 where d3: "hev_mapped_dns_lookup d2 (d_net d OR word_of_int i) = Some (d3, w)"
    using lookup_state [OF c2(1), of "d_net d OR word_of_int i" c' w] j i by auto
  then have "dns_look_rel d2 i d3 w" unfolding dns_look_rel_def
    using j i by (intro exI [of _ "d_net d OR word_of_int i"]) simp
  then have "w = Some name" using dns.mapping_survives [OF f assms(1,5,6,7)] by blast
  with d3 show ?thesis by blast
qed



text \<open>A small network for the witnesses: 198.18.0.0/15 with room for two names.\<close>

lemma example_dns:
  "\<exists>d. hev_mapped_dns_new True 0xC6120000 0xFFFE0000 2 = Some d \<and> dns_state d [] \<and> mapped_net d 17 \<and>
     d_max d = 2 \<and> d_net d = 0xC6120000 \<and> d_entries d = Map.empty"
proof -
  have s: "sint (NOT 0xFFFE0000 :: u32) = 131071" by simp
  obtain d where d: "hev_mapped_dns_new True 0xC6120000 0xFFFE0000 2 = Some d"
    using s by (simp add: hev_mapped_dns_new_def hev_mapped_dns_construct_def)
  then have "d_entries d = Map.empty"
    using s by (auto simp: hev_mapped_dns_new_def hev_mapped_dns_construct_def)
  moreover have "dns_state d []" "d_max d = 2" "d_net d = 0xC6120000" "d_mask d = 0xFFFE0000"
    using new_refines [OF d] by (auto simp: dns_state_def lru_of_def)
  ultimately show ?thesis using d s by (auto simp: mapped_net_def mask_eq_exp_minus_1)
qed

lemma mapped_dns_find_refines_witness:
  "\<exists>d d'. hev_mapped_dns_new True 0xC6120000 0xFFFE0000 2 = Some d \<and>
     hev_mapped_dns_find (16, True) d [97] = Some (d', 0) \<and> dns_state d' [([97], 0)]"
proof -
  obtain d where d: "hev_mapped_dns_new True 0xC6120000 0xFFFE0000 2 = Some d" "dns_state d []" "d_max d = 2"
    "d_entries d = Map.empty"
    using example_dns by blast
  have "alloc_ok (16, True) d" using d by (simp add: alloc_ok_def aligned_def)
  then show ?thesis using mapped_dns_find_refines [OF d(2), of "(16, True)" "[97]"] d by (auto simp: lru_find_def)
qed

lemma mapped_dns_roundtrip_witness:
  "\<exists>d d1 d3. hev_mapped_dns_new True 0xC6120000 0xFFFE0000 2 = Some d \<and>
     hev_mapped_dns_find (16, True) d [97] = Some (d1, 0) \<and>
     hev_mapped_dns_lookup d1 0xC6120000 = Some (d3, Some [97])"
proof -
  obtain d where d: "hev_mapped_dns_new True 0xC6120000 0xFFFE0000 2 = Some d" "dns_state d []" "d_max d = 2"
    "d_entries d = Map.empty" "mapped_net d 17" "d_net d = 0xC6120000"
    using example_dns by blast
  have al: "alloc_ok (16, True) d" using d by (simp add: alloc_ok_def aligned_def)
  obtain d1 where d1: "hev_mapped_dns_find (16, True) d [97] = Some (d1, 0)"
    using find_state [OF d(2) _ al] d by (auto simp: lru_find_def)
  have "(dns.step ^^ 0) d1 d1" by simp
  from mapped_dns_roundtrip [OF d(2,5) al d1 _ this] d d1 show ?thesis by auto
qed


end
