(* ===== verification/DNSMessage.thy ===== *)
theory DNSMessage
  imports MappedDNSCache
begin

text \<open>
  The DNS message handler \<open>hev_mapped_dns_handle\<close>: its accesses stay inside the buffers for
  every message, and on an address query it answers with the mapped address of the name.
\<close>


section \<open>Buffers\<close>

lemma rd_ok: "i < length b \<Longrightarrow> rd b i = Some (b ! i)"
  by (simp add: rd_def)

lemma wr_ok: "i < length b \<Longrightarrow> wr b i v = Some (b[i := v])"
  by (simp add: wr_def)

lemma load16_ok: "i + 1 < length b \<Longrightarrow> load16 b i = Some (ucast (b ! i) OR push_bit 8 (ucast (b ! (i + 1))))"
  by (simp add: load16_def rd_ok)

lemma store16_ok:
  "i + 1 < length b \<Longrightarrow> store16 b i v = Some (b[i := ucast v, i + 1 := ucast (drop_bit 8 v)])"
  by (simp add: store16_def wr_ok)

lemma read_u16_ok: "i + 1 < length b \<Longrightarrow> read_u16 b i = Some (push_bit 8 (ucast (b ! i)) OR ucast (b ! (i + 1)))"
  by (simp add: read_u16_def rd_ok)

lemma write_u16_ok:
  "i + 1 < length b \<Longrightarrow> write_u16 b i v = Some (b[i := ucast (drop_bit 8 v), i + 1 := ucast v])"
  by (simp add: write_u16_def wr_ok)

lemma write_u32_ok:
  "i + 3 < length b \<Longrightarrow> write_u32 b i v = Some (b[i := ucast (drop_bit 24 v), i + 1 := ucast (drop_bit 16 v),
     i + 2 := ucast (drop_bit 8 v), i + 3 := ucast v])"
  by (simp add: write_u32_def wr_ok)

lemmas buf_ok = rd_ok wr_ok load16_ok store16_ok read_u16_ok write_u16_ok write_u32_ok

lemma u16_high_0:
  fixes hi lo :: u8
  assumes "push_bit 8 (ucast hi :: u16) OR ucast lo = 1" shows "hi = 0"
proof (rule bit_word_eqI)
  fix n assume n: "n < LENGTH(8)"
  have "bit (push_bit 8 (ucast hi :: u16) OR ucast lo) (n + 8) = bit (1 :: u16) (n + 8)" using assms by simp
  then show "bit hi n = bit (0 :: u8) n" using n by (simp add: bit_simps bit_1_iff)
qed

section \<open>Parsing is memory safe\<close>

lemma label_loop_safe:
  assumes "off < length rb" "qlen \<le> length rb"
  shows "\<exists>rb' r. label_loop qlen rb off = Some (rb', r) \<and> length rb' = length rb \<and>
    (\<forall>off'. r = Some off' \<longrightarrow> off \<le> off' \<and> off' < length rb \<and> rb' ! off' = 0)"
  using assms
proof (induction qlen rb off rule: label_loop.induct)
  case (1 qlen rb off)
  let ?o = "off + 1 + unat (rb ! off)"
  consider "rb ! off = 0" | "rb ! off \<noteq> 0" "?o \<ge> qlen" | "rb ! off \<noteq> 0" "?o < qlen" by fastforce
  then show ?case
  proof cases
    case 3
    then have "\<exists>rb' r. label_loop qlen (rb[off := 46]) ?o = Some (rb', r) \<and> length rb' = length (rb[off := 46]) \<and>
      (\<forall>off'. r = Some off' \<longrightarrow> ?o \<le> off' \<and> off' < length (rb[off := 46]) \<and> rb' ! off' = 0)"
      using 1(2,3) by (intro 1(1)) auto
    then show ?thesis using 1(2) 3 by (subst label_loop.simps) (fastforce simp: Let_def)
  qed (use 1(2) in \<open>auto simp: label_loop.simps [of qlen rb off] Let_def\<close>)
qed

lemma cstr_ok: "i \<le> j \<Longrightarrow> j < length b \<Longrightarrow> b ! j = 0 \<Longrightarrow> \<exists>s. cstr b i = Some s"
proof -
  assume "i \<le> j" "j < length b" "b ! j = 0"
  then have "0 = drop i b ! (j - i)" "j - i < length (drop i b)" by auto
  then have "0 \<in> set (drop i b)" by (metis nth_mem)
  then show ?thesis by (simp add: cstr_def Let_def)
qed

text \<open>What the allocator promises in every state.\<close>

definition allocator_ok :: "(HevMappedDNS \<Rightarrow> allocation) \<Rightarrow> bool" where
  "allocator_ok al \<longleftrightarrow> (\<forall>d. alloc_ok (al d) d)"

lemma find_total:
  assumes "dns_state d c" "1 \<le> d_max d" "alloc_ok al d"
  shows "\<exists>d' i c'. hev_mapped_dns_find al d name = Some (d', i) \<and> dns_state d' c' \<and> same_net d d'"
proof (cases "name \<in> fst ` set c \<or> fst al \<noteq> 0")
  case True
  obtain c' i where "lru_find (d_max d) name c = (c', i)" by fastforce
  then show ?thesis using find_state [OF assms True] by blast
next
  case False
  then show ?thesis
    using find_state_no_memory [OF assms(1), of name "snd al"] assms(1) by (cases al) (auto simp: same_net_def)
qed

lemma question_loop_safe:
  assumes "dns_state d c" "1 \<le> d_max d" "allocator_ok al" "off \<le> qlen" "qlen < length rb"
  shows "\<exists>d' rb' r c'. question_loop al qlen n d rb off ips = Some (d', rb', r) \<and> length rb' = length rb \<and>
    dns_state d' c' \<and> same_net d d' \<and> (\<forall>off' ips'. r = Some (off', ips') \<longrightarrow> off \<le> off' \<and> off' \<le> qlen)"
  using assms
proof (induction n arbitrary: d c rb off ips)
  case 0
  then show ?case by (auto simp: same_net_def)
next
  case (Suc n)
  obtain rb1 r1 where l: "label_loop qlen rb off = Some (rb1, r1)" "length rb1 = length rb"
    "\<And>off'. r1 = Some off' \<Longrightarrow> off \<le> off' \<and> off' < length rb \<and> rb1 ! off' = 0"
    using label_loop_safe [of off rb qlen] Suc(5,6) by auto
  show ?case
  proof (cases "\<exists>o1. r1 = Some o1 \<and> o1 + 4 < qlen")
    case False
    then show ?thesis using l Suc(2) by (cases r1) (auto simp: same_net_def Let_def)
  next
    case True
    then obtain o1 where o: "r1 = Some o1" "o1 + 4 < qlen" "off \<le> o1" "rb1 ! o1 = 0" using l(3) by blast
    let ?q1 = "push_bit 8 (ucast (rb1 ! (o1 + 1)) :: u16) OR ucast (rb1 ! (o1 + 2))"
    let ?q2 = "push_bit 8 (ucast (rb1 ! (o1 + 3)) :: u16) OR ucast (rb1 ! (o1 + 4))"
    have q: "read_u16 rb1 (o1 + 1) = Some ?q1" "read_u16 rb1 (o1 + 3) = Some ?q2"
      using o l Suc(6) by (simp_all add: read_u16_ok eval_nat_numeral)
    have "\<exists>d1 c1 ips1. (if ?q1 = 1 \<and> ?q2 = 1 then do {
               name \<leftarrow> cstr rb1 (off + 1);
               (self, idx) \<leftarrow> hev_mapped_dns_find (al d) d name;
               Some (self, if idx \<ge> 0 then ips @ [(d_net self OR word_of_int idx, off)] else ips) }
             else Some (d, ips)) = Some (d1, ips1) \<and> dns_state d1 c1 \<and> same_net d d1"
    proof (cases "?q1 = 1 \<and> ?q2 = 1")
      case True
      then have "rb1 ! (o1 + 1) = 0" using u16_high_0 by blast
      then obtain name where "cstr rb1 (off + 1) = Some name"
        using cstr_ok [of "off + 1" "o1 + 1" rb1] o l Suc(6) by auto
      moreover obtain d1 i c1 where "hev_mapped_dns_find (al d) d name = Some (d1, i)" "dns_state d1 c1" "same_net d d1"
        using find_total [OF Suc(2,3), of "al d" name] Suc(4) by (auto simp: allocator_ok_def)
      ultimately show ?thesis using True by auto
    next
      case False
      then show ?thesis using Suc(2) by (auto simp: same_net_def)
    qed
    then obtain d1 c1 ips1 where s: "(if ?q1 = 1 \<and> ?q2 = 1 then do {
               name \<leftarrow> cstr rb1 (off + 1);
               (self, idx) \<leftarrow> hev_mapped_dns_find (al d) d name;
               Some (self, if idx \<ge> 0 then ips @ [(d_net self OR word_of_int idx, off)] else ips) }
             else Some (d, ips)) = Some (d1, ips1)" "dns_state d1 c1" "same_net d d1" by blast
    have eq: "question_loop al qlen (Suc n) d rb off ips = question_loop al qlen n d1 rb1 (o1 + 5) ips1"
      using l(1) o(1,2) q s(1) by (simp add: Let_def eval_nat_numeral)
    have "\<exists>d' rb' r c'. question_loop al qlen n d1 rb1 (o1 + 5) ips1 = Some (d', rb', r) \<and> length rb' = length rb1 \<and>
      dns_state d' c' \<and> same_net d1 d' \<and> (\<forall>off' ips'. r = Some (off', ips') \<longrightarrow> o1 + 5 \<le> off' \<and> off' \<le> qlen)"
      using s Suc(3,4,6) o l by (intro Suc(1)) (auto simp: same_net_def)
    then show ?thesis using eq s(3) l(2) o(3) by (fastforce simp: same_net_def)
  qed
qed

section \<open>Answers\<close>

definition be16 :: "u16 \<Rightarrow> bytes" where
  "be16 v = [ucast (drop_bit 8 v), ucast v]"

definition be32 :: "u32 \<Rightarrow> bytes" where
  "be32 v = [ucast (drop_bit 24 v), ucast (drop_bit 16 v), ucast (drop_bit 8 v), ucast v]"

text \<open>The resource record of one answer: a pointer to the question's name, type A, class IN,
  a time to live of one second and the address.\<close>

definition answer :: "u32 \<times> nat \<Rightarrow> bytes" where
  "answer e = [0xc0, of_nat (snd e)] @ be16 1 @ be16 1 @ be32 1 @ be16 4 @ be32 (fst e)"

lemma length_answer [simp]: "length (answer e) = 16"
  by (simp add: answer_def be16_def be32_def)

lemma write_at_snoc:
  assumes "off + length bs < length b"
  shows "(write_at b off bs)[off + length bs := v] = write_at b off (bs @ [v])"
  using assms by (simp add: write_at_def list_update_append Cons_nth_drop_Suc [symmetric])

lemma wr_write_at:
  "j = off + length bs \<Longrightarrow> j < length b \<Longrightarrow> wr (write_at b off bs) j v = Some (write_at b off (bs @ [v]))"
  by (simp add: wr_def write_at_snoc)

lemma write_u16_write_at:
  "j = off + length bs \<Longrightarrow> j + 1 < length b \<Longrightarrow>
     write_u16 (write_at b off bs) j v = Some (write_at b off (bs @ be16 v))"
  by (simp add: write_u16_def wr_write_at be16_def)

lemma write_u32_write_at:
  "j = off + length bs \<Longrightarrow> j + 3 < length b \<Longrightarrow>
     write_u32 (write_at b off bs) j v = Some (write_at b off (bs @ be32 v))"
  by (simp add: write_u32_def wr_write_at be32_def)

lemma write_at_write_at:
  assumes "off + length xs + length ys \<le> length b"
  shows "write_at (write_at b off xs) (off + length xs) ys = write_at b off (xs @ ys)"
  using assms by (simp add: write_at_def ac_simps)

lemma answer_step:
  assumes "off + 16 \<le> slen" "slen \<le> length sb"
  shows "answer_loop slen sb off (e # ips) = answer_loop slen (write_at sb off (answer e)) (off + 16) ips"
proof -
  obtain ip ipo where e: "e = (ip, ipo)" by (cases e)
  have "wr sb off 0xc0 = Some (write_at sb off [0xc0])"
    using wr_write_at [of off off "[]" sb "0xc0"] assms by simp
  then show ?thesis
    using assms e by (simp add: wr_write_at write_u16_write_at write_u32_write_at be16_def [of 1] be32_def [of 1]
        be16_def [of 4] answer_def be32_def [of ip])
qed

lemma answer_loop_eq:
  assumes "off + 16 * length ips \<le> slen" "slen \<le> length sb"
  shows "answer_loop slen sb off ips =
    Some (write_at sb off (concat (map answer ips)), Some (off + 16 * length ips))"
  using assms
proof (induction ips arbitrary: sb off)
  case (Cons e ips)
  have "answer_loop slen (write_at sb off (answer e)) (off + 16) ips =
    Some (write_at (write_at sb off (answer e)) (off + 16) (concat (map answer ips)), Some (off + 16 + 16 * length ips))"
    using Cons(2,3) by (intro Cons(1)) auto
  moreover have "length (concat (map answer ips)) = 16 * length ips" by (induction ips) auto
  ultimately show ?case
    using Cons(2,3) write_at_write_at [of off "answer e" "concat (map answer ips)" sb] by (simp add: answer_step)
qed simp

lemma answer_loop_short:
  assumes "slen < off + 16 * length ips" "off \<le> slen" "slen \<le> length sb"
  shows "\<exists>sb'. answer_loop slen sb off ips = Some (sb', None) \<and> length sb' = length sb"
  using assms
proof (induction ips arbitrary: sb off)
  case (Cons e ips)
  show ?case
  proof (cases "off + 16 \<le> slen")
    case True
    then have "\<exists>sb'. answer_loop slen (write_at sb off (answer e)) (off + 16) ips = Some (sb', None) \<and>
      length sb' = length (write_at sb off (answer e))"
      using Cons(2-4) by (intro Cons(1)) auto
    then show ?thesis using True Cons(4) by (auto simp: answer_step)
  next
    case False
    then show ?thesis by (cases e) auto
  qed
qed simp

lemma answer_loop_safe:
  assumes "off \<le> slen" "slen \<le> length sb"
  shows "\<exists>sb' r. answer_loop slen sb off ips = Some (sb', r) \<and> length sb' = length sb \<and>
    (\<forall>off'. r = Some off' \<longrightarrow> off \<le> off' \<and> off' \<le> slen)"
proof (cases "off + 16 * length ips \<le> slen")
  case True
  moreover have "length (concat (map answer ips)) = 16 * length ips" by (induction ips) auto
  ultimately show ?thesis using answer_loop_eq [of off ips slen sb] assms by auto
next
  case False
  then show ?thesis using answer_loop_short [of slen off ips sb] assms by auto
qed

section \<open>The handler\<close>

lemma handle_safe:
  assumes "dns_state d c" "1 \<le> d_max d" "allocator_ok al"
    and "12 \<le> qlen" "qlen < length req" "slen \<le> length res"
  shows "\<exists>d' req' res' r c'. hev_mapped_dns_handle al d req qlen res slen = Some (d', req', res', r) \<and>
    dns_state d' c' \<and> same_net d d' \<and> length req' = length req \<and> length res' = length res \<and>
    (r = - 1 \<or> 12 \<le> r \<and> r \<le> int slen)"
proof (cases "slen < qlen")
  case True
  then show ?thesis using assms(1) by (auto simp: hev_mapped_dns_handle_def same_net_def)
next
  case False
  let ?qd = "ntohs (ucast (req ! 4) OR push_bit 8 (ucast (req ! 5)))"
  let ?req = "req[4 := ucast ?qd, 5 := ucast (drop_bit 8 ?qd)]"
  obtain d1 req1 r1 c1 where q: "question_loop al qlen (unat ?qd) d ?req 12 [] = Some (d1, req1, r1)"
    "length req1 = length req" "dns_state d1 c1" "same_net d d1"
    "\<And>off' ips'. r1 = Some (off', ips') \<Longrightarrow> 12 \<le> off' \<and> off' \<le> qlen"
    using question_loop_safe [OF assms(1-4), of ?req "unat ?qd" "[]"] assms(5) by fastforce
  let ?res0 = "write_at res 0 (take qlen req)"
  let ?fl = "ntohs (ucast (?res0 ! 2) OR push_bit 8 (ucast (?res0 ! 3)))"
  let ?res = "?res0[2 := ucast ?fl, 3 := ucast (drop_bit 8 ?fl), 8 := 0, 9 := 0, 6 := 0, 7 := 0, 10 := 0, 11 := 0]"
  have len: "length ?res0 = length res" using assms False by simp
  have eq: "hev_mapped_dns_handle al d req qlen res slen = (if ?qd > 32 then Some (d, ?req, ?res, - 1)
    else do {
         (self, req, r) \<leftarrow> question_loop al qlen (unat ?qd) d ?req 12 [];
         case r of None \<Rightarrow> Some (self, req, ?res, - 1)
         | Some (off, ips) \<Rightarrow> do {
             (res, r) \<leftarrow> answer_loop slen ?res off ips;
             case r of None \<Rightarrow> Some (self, req, res, - 1)
             | Some off \<Rightarrow> do {
                 fl \<leftarrow> load16 res 2;
                 res \<leftarrow> store16 res 2 (ntohs (fl OR 0x8000 OR drop_bit 1 (fl AND 0x100)));
                 res \<leftarrow> store16 res 6 (ntohs (of_nat (length ips)));
                 Some (self, req, res, int off) } } })"
    using assms False len by (simp add: hev_mapped_dns_handle_def load16_ok store16_ok Let_def)
  show ?thesis
  proof (cases "?qd > 32")
    case True
    then show ?thesis using eq assms(1) len by (auto simp: same_net_def)
  next
    case qd: False
    show ?thesis
    proof (cases r1)
      case None
      then show ?thesis using eq qd q len by (auto simp: q(1))
    next
      case (Some oi)
      obtain off ips where oi: "oi = (off, ips)" by (cases oi)
      obtain res1 r2 where a: "answer_loop slen ?res off ips = Some (res1, r2)" "length res1 = length res"
        "\<And>off'. r2 = Some off' \<Longrightarrow> off \<le> off' \<and> off' \<le> slen"
        using answer_loop_safe [of off slen ?res ips] q(5) [of off ips] Some oi False assms(6) len by auto
      then show ?thesis
        using eq qd q Some oi assms False by (cases r2) (fastforce simp: load16_ok store16_ok)+
    qed
  qed
qed

section \<open>An address query\<close>

definition enc_name :: "bytes list \<Rightarrow> bytes" where
  "enc_name ls = concat (map (\<lambda>l. of_nat (length l) # l) ls)"

definition dotted :: "bytes list \<Rightarrow> bytes" where
  "dotted ls = concat (map (\<lambda>l. 46 # l) ls)"

text \<open>Labels as in a DNS message: not empty, at most 63 bytes, here without zero bytes.\<close>

definition valid_labels :: "bytes list \<Rightarrow> bool" where
  "valid_labels ls \<longleftrightarrow> (\<forall>l \<in> set ls. l \<noteq> [] \<and> length l \<le> 63 \<and> 0 \<notin> set l)"

text \<open>A query with one question of type A and class IN.\<close>

definition a_query :: "u16 \<Rightarrow> u16 \<Rightarrow> bytes list \<Rightarrow> bytes" where
  "a_query ident fl ls = be16 ident @ be16 fl @ [0, 1, 0, 0, 0, 0, 0, 0] @ enc_name ls @ [0, 0, 1, 0, 1]"

text \<open>Its response: the response bit is set, recursion is available when it was desired.\<close>

definition a_response :: "u16 \<Rightarrow> u16 \<Rightarrow> bytes list \<Rightarrow> u32 \<Rightarrow> bytes" where
  "a_response ident fl ls ip = be16 ident @ be16 (fl OR 0x8000 OR drop_bit 1 (fl AND 0x100)) @
     [0, 1, 0, 1, 0, 0, 0, 0] @ enc_name ls @ [0, 0, 1, 0, 1] @ answer (ip, 12)"

lemma length_enc_dotted [simp]: "length (dotted ls) = length (enc_name ls)"
  by (induction ls) (auto simp: enc_name_def dotted_def)

lemma label_loop_valid:
  assumes "valid_labels ls" "length pre + length (enc_name ls) < qlen"
  shows "label_loop qlen (pre @ enc_name ls @ 0 # rest) (length pre) =
    Some (pre @ dotted ls @ 0 # rest, Some (length pre + length (enc_name ls)))"
  using assms
proof (induction ls arbitrary: pre)
  case Nil
  then show ?case by (subst label_loop.simps) (simp add: enc_name_def dotted_def)
next
  case (Cons l ls)
  let ?c = "of_nat (length l) :: u8"
  have l: "l \<noteq> []" "length l \<le> 63" using Cons(2) by (auto simp: valid_labels_def)
  have u: "unat ?c = length l" using l(2) by (simp add: unat_of_nat take_bit_nat_eq_self)
  then have c: "?c \<noteq> 0" using l(1) by (metis length_0_conv unat_0)
  have e: "enc_name (l # ls) = ?c # l @ enc_name ls" "dotted (l # ls) = 46 # l @ dotted ls"
    by (simp_all add: enc_name_def dotted_def)
  have "label_loop qlen ((pre @ 46 # l) @ enc_name ls @ 0 # rest) (length (pre @ 46 # l)) =
    Some ((pre @ 46 # l) @ dotted ls @ 0 # rest, Some (length (pre @ 46 # l) + length (enc_name ls)))"
    using Cons(2,3) e by (intro Cons(1)) (auto simp: valid_labels_def)
  moreover have "(pre @ ?c # l @ enc_name ls @ 0 # rest)[length pre := 46] = (pre @ 46 # l) @ enc_name ls @ 0 # rest"
    by simp
  ultimately show ?case
    using c u e Cons(3) by (subst label_loop.simps) (simp add: Let_def ac_simps)
qed

lemma dotted_no_zero: "valid_labels ls \<Longrightarrow> 0 \<notin> set (dotted ls)"
  by (induction ls) (auto simp: dotted_def valid_labels_def)

lemma cstr_at:
  assumes "length pre = i" "0 \<notin> set s" shows "cstr (pre @ s @ 0 # rest) i = Some s"
proof -
  have "takeWhile (\<lambda>c. c \<noteq> 0) (s @ 0 # rest) = s"
    using assms(2) by (subst takeWhile_append2) auto
  with assms show ?thesis by (simp add: cstr_def)
qed

lemma ntohs_bytes:
  "(ucast (ntohs v) :: u8) = ucast (drop_bit 8 v)" "(ucast (drop_bit 8 (ntohs v)) :: u8) = ucast v"
  by (rule bit_word_eqI; auto simp: ntohs_def bit_simps)+

lemma bytes_join: "ucast (ucast v :: u8) OR push_bit 8 (ucast (ucast (drop_bit 8 v) :: u8)) = (v :: u16)"
  by (rule bit_word_eqI) (auto simp: bit_simps)

lemma bytes_join_be: "ucast (ucast (drop_bit 8 v) :: u8) OR push_bit 8 (ucast (ucast v :: u8)) = ntohs (v :: u16)"
  by (rule bit_word_eqI) (auto simp: ntohs_def bit_simps dest: bit_imp_le_length)

lemma ntohs_ntohs [simp]: "ntohs (ntohs v) = v"
  by (rule bit_word_eqI) (auto simp: ntohs_def bit_simps)

lemma write_at_tail: "length xs = n \<Longrightarrow> write_at (xs @ zs) n ys = xs @ ys @ drop (length ys) zs"
  by (auto simp: write_at_def)

lemma take_exact: "length xs = n \<Longrightarrow> take n (xs @ ys) = xs"
  by simp

lemma question_loop_query:
  assumes ls: "valid_labels ls" "ls \<noteq> []" and pre: "length pre = 12"
    and f: "hev_mapped_dns_find (al d) d (tl (dotted ls)) = Some (d', i)" "0 \<le> i"
    and q: "qlen = 17 + length (enc_name ls)"
  shows "question_loop al qlen 1 d (pre @ enc_name ls @ [0, 0, 1, 0, 1] @ pad) 12 [] =
    Some (d', pre @ dotted ls @ [0, 0, 1, 0, 1] @ pad, Some (qlen, [(d_net d' OR word_of_int i, 12)]))"
proof -
  let ?n = "length (enc_name ls)"
  have ll: "label_loop qlen (pre @ enc_name ls @ [0, 0, 1, 0, 1] @ pad) 12 =
    Some (pre @ dotted ls @ [0, 0, 1, 0, 1] @ pad, Some (12 + ?n))"
    using label_loop_valid [OF ls(1), of pre qlen "[0, 1, 0, 1] @ pad"] pre q by simp
  let ?rb = "pre @ dotted ls @ [0, 0, 1, 0, 1] @ pad"
  have nth: "?rb ! (12 + ?n + j) = ([0, 0, 1, 0, 1] @ pad) ! j" for j
    using pre by (simp add: nth_append)
  have r: "read_u16 ?rb (13 + ?n) = Some 1" "read_u16 ?rb (15 + ?n) = Some 1"
    using nth [of 1] nth [of 2] nth [of 3] nth [of 4] pre
    by (simp_all add: read_u16_ok add.commute eval_nat_numeral)
  have "dotted ls = 46 # tl (dotted ls)" using ls(2) by (cases ls) (auto simp: dotted_def)
  then have rb: "?rb = (pre @ [46]) @ tl (dotted ls) @ 0 # [0, 1, 0, 1] @ pad" by (metis append.assoc append_Cons append_Nil)
  have "0 \<notin> set (tl (dotted ls))" using dotted_no_zero [OF ls(1)] by (cases "dotted ls") auto
  then have "cstr ?rb 13 = Some (tl (dotted ls))"
    unfolding rb by (intro cstr_at) (use pre in simp_all)
  with ll r f q show ?thesis by (simp add: Let_def add.commute eval_nat_numeral)
qed

lemma handle_query:
  assumes ls: "valid_labels ls" "ls \<noteq> []"
    and f: "hev_mapped_dns_find (al d) d (tl (dotted ls)) = Some (d', i)" "0 \<le> i"
    and q: "qlen = length (a_query ident fl ls)" and s: "qlen + 16 \<le> slen" "slen \<le> length res"
  shows "\<exists>req' res'. hev_mapped_dns_handle al d (a_query ident fl ls @ pad) qlen res slen =
      Some (d', req', res', int (qlen + 16)) \<and>
    take (qlen + 16) res' = a_response ident fl ls (d_net d' OR word_of_int i)"
proof -
  let ?n = "length (enc_name ls)"
  let ?E = "enc_name ls @ [0, 0, 1, 0, 1]"
  have qn: "qlen = 17 + ?n" using q by (simp add: a_query_def be16_def)
  let ?a = "(d_net d' OR word_of_int i, 12) :: u32 \<times> nat"
  let ?pre = "be16 ident @ be16 fl @ [1, 0, 0, 0, 0, 0, 0, 0]"
  have ql: "question_loop al qlen 1 d (?pre @ ?E @ pad) 12 [] =
    Some (d', ?pre @ dotted ls @ [0, 0, 1, 0, 1] @ pad, Some (qlen, [?a]))"
    using question_loop_query [of ls ?pre al d d' i qlen pad] ls f qn by (simp add: be16_def)
  have w0: "write_at res 0 (a_query ident fl ls) = a_query ident fl ls @ drop qlen res"
    using q by (simp add: write_at_def)
  let ?res = "\<lambda>v an. be16 ident @ [ucast v, ucast (drop_bit 8 v), 0, 1] @ an @ [0, 0, 0, 0] @ ?E"
  let ?new = "ntohs (fl OR 0x8000 OR drop_bit 1 (fl AND 0x100))"
  have len: "length (?res fl [0, 0]) = qlen" using qn by (simp add: be16_def)
  have "answer_loop slen (?res fl [0, 0] @ drop qlen res) qlen [?a] =
    Some (write_at (?res fl [0, 0] @ drop qlen res) qlen (concat (map answer [?a])), Some (qlen + 16 * length [?a]))"
    by (rule answer_loop_eq) (use s len in simp_all)
  then have al: "answer_loop slen (?res fl [0, 0] @ drop qlen res) qlen [?a] =
    Some (?res fl [0, 0] @ answer ?a @ drop (qlen + 16) res, Some (qlen + 16))"
    unfolding write_at_tail [OF len] by (simp add: add.commute)
  have an: "(ucast (ntohs 1) :: u8) = 0" "(ucast (drop_bit 8 (ntohs 1)) :: u8) = 1"
    by (simp_all add: ntohs_bytes)
  let ?R = "drop qlen res" and ?Q = "a_query ident fl ls"
  have L1: "load16 (?Q @ pad) 4 = Some (ntohs 1)" and S1: "store16 (?Q @ pad) 4 1 = Some (?pre @ ?E @ pad)"
    by (simp_all add: load16_ok store16_ok a_query_def be16_def numeral_eq_Suc ntohs_def)
  have L2: "load16 (?Q @ ?R) 2 = Some (ntohs fl)"
    by (simp add: load16_ok a_query_def be16_def bytes_join_be)
  have S2: "store16 (?Q @ ?R) 2 fl = Some (?res fl [0, 0] @ ?R)"
    by (simp add: store16_ok a_query_def be16_def numeral_eq_Suc)
  have S3: "store16 (?res fl [0, 0] @ ?R) 8 0 = Some (?res fl [0, 0] @ ?R)"
    "store16 (?res fl [0, 0] @ ?R) 6 0 = Some (?res fl [0, 0] @ ?R)"
    "store16 (?res fl [0, 0] @ ?R) 10 0 = Some (?res fl [0, 0] @ ?R)"
    by (simp_all add: store16_ok be16_def numeral_eq_Suc)
  let ?A = "answer ?a @ drop (qlen + 16) res"
  have L3: "load16 (?res fl [0, 0] @ ?A) 2 = Some fl"
    by (simp add: load16_ok be16_def bytes_join)
  have S4: "store16 (?res fl [0, 0] @ ?A) 2 ?new = Some (?res ?new [0, 0] @ ?A)"
    and S5: "store16 (?res ?new [0, 0] @ ?A) 6 (ntohs 1) = Some (?res ?new [0, 1] @ ?A)"
    using an by (simp_all add: store16_ok be16_def numeral_eq_Suc)
  have "hev_mapped_dns_handle al d (a_query ident fl ls @ pad) qlen res slen =
      Some (d', ?pre @ dotted ls @ [0, 0, 1, 0, 1] @ pad,
        ?res ?new [0, 1] @ answer ?a @ drop (qlen + 16) res, int (qlen + 16))"
    using ql al w0 q qn s L1 S1 L2 S2 S3 L3 S4 S5
    by (simp add: hev_mapped_dns_handle_def Let_def del: question_loop.simps answer_loop.simps)
  moreover have "take (qlen + 16) ((?res ?new [0, 1] @ answer ?a) @ drop (qlen + 16) res) = ?res ?new [0, 1] @ answer ?a"
    using qn by (intro take_exact) (simp add: be16_def)
  moreover have "?res ?new [0, 1] @ answer ?a = a_response ident fl ls (d_net d' OR word_of_int i)"
    by (simp add: a_response_def be16_def ntohs_bytes)
  ultimately show ?thesis by (simp only: append.assoc) blast
qed

section \<open>Properties\<close>

text \<open>C4. \<open>hev_mapped_dns_handle\<close> answers an address query: the response is the query with
  the response bits, one answer and the address \<open>net | idx\<close> of the name's index, and
  looking that address up gives the dotted name back.\<close>

theorem mapped_dns_answers_query:
  assumes "dns_state d c" "mapped_net d k" "allocator_ok al"
    and "tl (dotted ls) \<in> fst ` set c \<or> fst (al d) \<noteq> 0"
    and "valid_labels ls" "ls \<noteq> []" "qlen = length (a_query ident fl ls)"
    and "qlen + 16 \<le> slen" "slen \<le> length res"
  shows "\<exists>d' i req' res'. 0 \<le> i \<and> i < d_max d \<and>
     hev_mapped_dns_handle al d (a_query ident fl ls @ pad) qlen res slen = Some (d', req', res', int (qlen + 16)) \<and>
     take (qlen + 16) res' = a_response ident fl ls (d_net d OR word_of_int i) \<and>
     (\<exists>d3. hev_mapped_dns_lookup d' (d_net d OR word_of_int i) = Some (d3, Some (tl (dotted ls))))"
proof -
  have mx: "1 \<le> d_max d" and al: "alloc_ok (al d) d" using assms(2,3) by (auto simp: mapped_net_def allocator_ok_def)
  obtain c' i where ci: "lru_find (d_max d) (tl (dotted ls)) c = (c', i)" by fastforce
  obtain d' where d': "hev_mapped_dns_find (al d) d (tl (dotted ls)) = Some (d', i)" "dns_state d' c'" "same_net d d'"
    using find_state [OF assms(1) mx al assms(4) ci] by blast
  have i: "0 \<le> i" "i < d_max d" using lru_find_bounds [OF ci dns_state_ok [OF assms(1)] mx] by auto
  have net: "d_net d' = d_net d" "d_mask d' = d_mask d" using d'(3) by (auto simp: same_net_def)
  have "(tl (dotted ls), i) \<in> set c'" using lru_find_last [OF ci] by auto
  then have "lru_lookup i c' = (remove1 (tl (dotted ls), i) c' @ [(tl (dotted ls), i)], Some (tl (dotted ls)))"
    using dns_state_ok [OF d'(2)] by (intro lru_lookup_hit) (auto simp: lru_ok_def)
  then have "\<exists>d3. hev_mapped_dns_lookup d' (d_net d OR word_of_int i) = Some (d3, Some (tl (dotted ls)))"
    using lookup_state [OF d'(2), of "d_net d OR word_of_int i"] host_index [OF assms(2) i] i net by auto
  moreover obtain req' res' where
    "hev_mapped_dns_handle al d (a_query ident fl ls @ pad) qlen res slen = Some (d', req', res', int (qlen + 16))"
    "take (qlen + 16) res' = a_response ident fl ls (d_net d' OR word_of_int i)"
    using handle_query [of ls al d d' i qlen ident fl slen res pad] d'(1) i(1) assms(5-9) by blast
  ultimately show ?thesis using i net by auto
qed


text \<open>An allocator for the witnesses.\<close>

definition pick :: "HevMappedDNS \<Rightarrow> allocation" where
  "pick d = (case List.find (\<lambda>a. d_entries d a = None) [16, 32, 48] of Some a \<Rightarrow> (a, True) | None \<Rightarrow> (0, True))"

lemma pick_ok: "allocator_ok pick"
  by (auto simp: allocator_ok_def alloc_ok_def pick_def aligned_def split: option.splits if_splits)

lemma mapped_dns_answers_query_witness:
  "\<exists>d d' req' res'. hev_mapped_dns_new True 0xC6120000 0xFFFE0000 2 = Some d \<and>
     hev_mapped_dns_handle pick d (a_query 7 0x100 [[97]] @ [0]) 19 (replicate 512 0) 512 = Some (d', req', res', 35) \<and>
     (\<exists>d3. hev_mapped_dns_lookup d' 0xC6120000 = Some (d3, Some [97]) \<or>
           hev_mapped_dns_lookup d' 0xC6120001 = Some (d3, Some [97]))"
proof -
  obtain d where d: "hev_mapped_dns_new True 0xC6120000 0xFFFE0000 2 = Some d" "dns_state d []" "d_max d = 2"
    "d_entries d = Map.empty" "mapped_net d 17" "d_net d = 0xC6120000"
    using example_dns by blast
  have "fst (pick d) \<noteq> 0" using d(4) by (simp add: pick_def)
  moreover have "valid_labels [[97]]" "tl (dotted [[97]]) = [97]" "length (a_query 7 0x100 [[97]]) = 19"
    by (simp_all add: valid_labels_def dotted_def a_query_def be16_def enc_name_def)
  ultimately obtain d' i req' res' where h: "0 \<le> i" "i < 2"
    "hev_mapped_dns_handle pick d (a_query 7 0x100 [[97]] @ [0]) 19 (replicate 512 0) 512 = Some (d', req', res', 35)"
    "\<exists>d3. hev_mapped_dns_lookup d' (0xC6120000 OR word_of_int i) = Some (d3, Some [97])"
    using mapped_dns_answers_query [OF d(2,5) pick_ok, of "[[97]]" 19 7 "0x100" 512 "replicate 512 0" "[0]"] d
    by auto
  moreover have "i = 0 \<or> i = 1" using h by auto
  ultimately show ?thesis using d by auto
qed


end
