(* ===== verification/Socks5Addr.thy ===== *)
theory Socks5Addr
  imports DNSMessage
begin

text \<open>
  SOCKS5 addresses (\<open>hev-socks5-proto.h\<close>, \<open>hev-socks5-misc.c\<close>, \<open>hev-utils.c\<close>). A
  \<open>HevSocks5Addr\<close> is a packed struct that the code sends as it is, so it is modelled by its
  memory: a block of bytes with the type at offset 0, the address (or the length of the name)
  at 1 and, for names, the characters at 2. Ports are kept as the 16 bit value that lies in
  memory (network byte order read by a little endian host). The functions of the C library
  that parse and resolve names are arguments.
\<close>

section \<open>Constants and types\<close>

definition HEV_SOCKS5_VERSION_5 :: u8 where "HEV_SOCKS5_VERSION_5 = 5"
definition HEV_SOCKS5_AUTH_METHOD_NONE :: u8 where "HEV_SOCKS5_AUTH_METHOD_NONE = 0"
definition HEV_SOCKS5_AUTH_METHOD_USER :: u8 where "HEV_SOCKS5_AUTH_METHOD_USER = 2"
definition HEV_SOCKS5_AUTH_METHOD_DENY :: u8 where "HEV_SOCKS5_AUTH_METHOD_DENY = 255"
definition HEV_SOCKS5_AUTH_VERSION_1 :: u8 where "HEV_SOCKS5_AUTH_VERSION_1 = 1"
definition HEV_SOCKS5_REQ_CMD_CONNECT :: u8 where "HEV_SOCKS5_REQ_CMD_CONNECT = 1"
definition HEV_SOCKS5_REQ_CMD_UDP_ASC :: u8 where "HEV_SOCKS5_REQ_CMD_UDP_ASC = 3"
definition HEV_SOCKS5_REQ_CMD_FWD_UDP :: u8 where "HEV_SOCKS5_REQ_CMD_FWD_UDP = 5"
definition HEV_SOCKS5_RES_REP_SUCC :: u8 where "HEV_SOCKS5_RES_REP_SUCC = 0"
definition HEV_SOCKS5_RES_REP_FAIL :: u8 where "HEV_SOCKS5_RES_REP_FAIL = 1"
definition HEV_SOCKS5_RES_REP_HOST :: u8 where "HEV_SOCKS5_RES_REP_HOST = 4"
definition HEV_SOCKS5_RES_REP_IMPL :: u8 where "HEV_SOCKS5_RES_REP_IMPL = 7"
definition HEV_SOCKS5_RES_REP_ADDR :: u8 where "HEV_SOCKS5_RES_REP_ADDR = 8"
definition HEV_SOCKS5_ADDR_TYPE_IPV4 :: u8 where "HEV_SOCKS5_ADDR_TYPE_IPV4 = 1"
definition HEV_SOCKS5_ADDR_TYPE_IPV6 :: u8 where "HEV_SOCKS5_ADDR_TYPE_IPV6 = 4"
definition HEV_SOCKS5_ADDR_TYPE_NAME :: u8 where "HEV_SOCKS5_ADDR_TYPE_NAME = 3"

lemmas socks5_consts = HEV_SOCKS5_VERSION_5_def HEV_SOCKS5_AUTH_METHOD_NONE_def
  HEV_SOCKS5_AUTH_METHOD_USER_def HEV_SOCKS5_AUTH_METHOD_DENY_def HEV_SOCKS5_AUTH_VERSION_1_def
  HEV_SOCKS5_REQ_CMD_CONNECT_def HEV_SOCKS5_REQ_CMD_UDP_ASC_def HEV_SOCKS5_REQ_CMD_FWD_UDP_def
  HEV_SOCKS5_RES_REP_SUCC_def HEV_SOCKS5_RES_REP_FAIL_def HEV_SOCKS5_RES_REP_HOST_def
  HEV_SOCKS5_RES_REP_IMPL_def HEV_SOCKS5_RES_REP_ADDR_def
  HEV_SOCKS5_ADDR_TYPE_IPV4_def HEV_SOCKS5_ADDR_TYPE_IPV6_def HEV_SOCKS5_ADDR_TYPE_NAME_def

text \<open>The size of the struct: type, length and 258 bytes of name and port.\<close>

definition sizeof_addr :: nat where "sizeof_addr = 260"

datatype HevSocks5AddrFamily = FAMILY_IPV4 | FAMILY_IPV6 | FAMILY_UNSPEC

text \<open>A 16 bit value as it lies in memory.\<close>

definition le16 :: "u16 \<Rightarrow> bytes" where
  "le16 v = [ucast v, ucast (drop_bit 8 v)]"

definition of_le16 :: "u8 \<Rightarrow> u8 \<Rightarrow> u16" where
  "of_le16 a b = ucast a OR push_bit 8 (ucast b)"

record sockaddr_in6 =
  sin6_port :: u16
  sin6_addr :: bytes

definition port_at :: "bytes \<Rightarrow> nat \<Rightarrow> u16" where
  "port_at a i = of_le16 (a ! i) (a ! (i + 1))"

section \<open>Building addresses\<close>

definition hev_socks5_addr_len :: "bytes \<Rightarrow> int" where
  "hev_socks5_addr_len a =
     (if a ! 0 = HEV_SOCKS5_ADDR_TYPE_IPV4 then 7
      else if a ! 0 = HEV_SOCKS5_ADDR_TYPE_IPV6 then 19
      else if a ! 0 = HEV_SOCKS5_ADDR_TYPE_NAME then 4 + uint (a ! 1)
      else - 1)"

text \<open>\<open>strncpy (dst, src, n)\<close> copies at most \<open>n\<close> characters and pads with zeros.\<close>

definition strncpy :: "bytes \<Rightarrow> nat \<Rightarrow> bytes \<Rightarrow> nat \<Rightarrow> bytes" where
  "strncpy d off src n = write_at d off (take n src @ replicate (n - length src) 0)"

text \<open>\<open>strlen\<close> runs until a zero byte, which has to lie in the struct.\<close>

definition strlen_at :: "bytes \<Rightarrow> nat \<Rightarrow> nat option" where
  "strlen_at b i = map_option length (cstr b i)"

definition hev_socks5_addr_from_name :: "bytes \<Rightarrow> bytes \<Rightarrow> u16 \<Rightarrow> (bytes \<times> int) option" where
  "hev_socks5_addr_from_name a name port = do {
     let a = a[0 := HEV_SOCKS5_ADDR_TYPE_NAME];
     let a = strncpy a 2 name 256;
     n \<leftarrow> strlen_at a 2;
     let len = (of_nat n :: u8);
     let a = a[1 := len];
     let a = write_at a (2 + unat len) (le16 port);
     Some (a, 4 + uint len) }"

definition hev_socks5_addr_from_ipv4 :: "bytes \<Rightarrow> bytes \<Rightarrow> u16 \<Rightarrow> bytes \<times> int" where
  "hev_socks5_addr_from_ipv4 a ipv4 port =
     (write_at (write_at (a[0 := HEV_SOCKS5_ADDR_TYPE_IPV4]) 1 (take 4 ipv4)) 5 (le16 port), 7)"

definition hev_socks5_addr_from_ipv6 :: "bytes \<Rightarrow> bytes \<Rightarrow> u16 \<Rightarrow> bytes \<times> int" where
  "hev_socks5_addr_from_ipv6 a ipv6 port =
     (write_at (write_at (a[0 := HEV_SOCKS5_ADDR_TYPE_IPV6]) 1 (take 16 ipv6)) 17 (le16 port), 19)"

definition IN6_IS_ADDR_V4MAPPED :: "bytes \<Rightarrow> bool" where
  "IN6_IS_ADDR_V4MAPPED ip \<longleftrightarrow> take 12 ip = replicate 10 0 @ [0xff, 0xff]"

definition hev_socks5_addr_from_sockaddr6 :: "bytes \<Rightarrow> sockaddr_in6 \<Rightarrow> bytes \<times> int" where
  "hev_socks5_addr_from_sockaddr6 a saddr =
     (if IN6_IS_ADDR_V4MAPPED (sin6_addr saddr) then
        (write_at (write_at (a[0 := HEV_SOCKS5_ADDR_TYPE_IPV4]) 5 (le16 (sin6_port saddr))) 1
           (drop 12 (sin6_addr saddr)), 7)
      else (write_at (write_at (a[0 := HEV_SOCKS5_ADDR_TYPE_IPV6]) 17 (le16 (sin6_port saddr))) 1
           (sin6_addr saddr), 19))"

section \<open>Resolving addresses\<close>

text \<open>\<open>inet_pton\<close> for the two families (\<open>None\<close>: not an address of the family) and
  \<open>hev_task_dns_getaddrinfo\<close> for a name and a wanted family (\<open>None\<close>: no result).\<close>

record resolver =
  inet_pton4 :: "bytes \<Rightarrow> bytes option"
  inet_pton6 :: "bytes \<Rightarrow> bytes option"
  getaddrinfo :: "bytes \<Rightarrow> HevSocks5AddrFamily \<Rightarrow> (HevSocks5AddrFamily \<times> bytes) option"

definition hev_socks5_ipv4_into_sockaddr6 :: "bytes \<Rightarrow> sockaddr_in6 \<Rightarrow> sockaddr_in6" where
  "hev_socks5_ipv4_into_sockaddr6 a saddr =
     saddr\<lparr>sin6_port := port_at a 5, sin6_addr := replicate 10 0 @ [0xff, 0xff] @ take 4 (drop 1 a)\<rparr>"

definition hev_socks5_ipv6_into_sockaddr6 :: "bytes \<Rightarrow> sockaddr_in6 \<Rightarrow> sockaddr_in6" where
  "hev_socks5_ipv6_into_sockaddr6 a saddr =
     saddr\<lparr>sin6_port := port_at a 17, sin6_addr := take 16 (drop 1 a)\<rparr>"

definition hev_socks5_name_resolve_ipv4 :: "resolver \<Rightarrow> bytes \<Rightarrow> sockaddr_in6 \<Rightarrow> sockaddr_in6 \<times> int" where
  "hev_socks5_name_resolve_ipv4 rs name saddr =
     (let saddr = saddr\<lparr>sin6_addr := write_at (sin6_addr saddr) 0 (replicate 10 0)\<rparr> in
      case inet_pton4 rs name of None \<Rightarrow> (saddr, - 1)
      | Some ip \<Rightarrow> (saddr\<lparr>sin6_addr := write_at (write_at (sin6_addr saddr) 12 ip) 10 [0xff, 0xff]\<rparr>, 0))"

definition hev_socks5_name_resolve_ipv6 :: "resolver \<Rightarrow> bytes \<Rightarrow> sockaddr_in6 \<Rightarrow> sockaddr_in6 \<times> int" where
  "hev_socks5_name_resolve_ipv6 rs name saddr =
     (case inet_pton6 rs name of None \<Rightarrow> (saddr, - 1)
      | Some ip \<Rightarrow> (saddr\<lparr>sin6_addr := write_at (sin6_addr saddr) 0 ip\<rparr>, 0))"

definition hev_socks5_name_resolve_name ::
  "resolver \<Rightarrow> bytes \<Rightarrow> sockaddr_in6 \<Rightarrow> HevSocks5AddrFamily \<Rightarrow> sockaddr_in6 \<times> HevSocks5AddrFamily \<times> int" where
  "hev_socks5_name_resolve_name rs name saddr family =
     (case getaddrinfo rs name family of None \<Rightarrow> (saddr, family, - 1)
      | Some (FAMILY_IPV4, ip) \<Rightarrow>
          (saddr\<lparr>sin6_addr := write_at (write_at (write_at (sin6_addr saddr) 0 (replicate 10 0)) 10 [0xff, 0xff]) 12 ip\<rparr>,
           FAMILY_IPV4, 0)
      | Some (FAMILY_IPV6, ip) \<Rightarrow> (saddr\<lparr>sin6_addr := write_at (sin6_addr saddr) 0 ip\<rparr>, FAMILY_IPV6, 0)
      | Some (FAMILY_UNSPEC, ip) \<Rightarrow> (saddr, family, - 1))"

definition hev_socks5_name_into_sockaddr6 ::
  "resolver \<Rightarrow> bytes \<Rightarrow> u16 \<Rightarrow> sockaddr_in6 \<Rightarrow> HevSocks5AddrFamily \<Rightarrow> sockaddr_in6 \<times> HevSocks5AddrFamily \<times> int" where
  "hev_socks5_name_into_sockaddr6 rs name port saddr family =
     (let saddr = saddr\<lparr>sin6_port := ntohs port\<rparr>;
          (saddr, res) = hev_socks5_name_resolve_ipv4 rs name saddr in
      if res = 0 then (saddr, FAMILY_IPV4, 0) else
      let (saddr, res) = hev_socks5_name_resolve_ipv6 rs name saddr in
      if res = 0 then (saddr, FAMILY_IPV6, 0) else
      hev_socks5_name_resolve_name rs name saddr family)"

text \<open>The name copied into a local buffer is a C string, so it ends at its first zero byte.\<close>

definition hev_socks5_addr_into_sockaddr6 ::
  "resolver \<Rightarrow> bytes \<Rightarrow> sockaddr_in6 \<Rightarrow> HevSocks5AddrFamily \<Rightarrow> sockaddr_in6 \<times> HevSocks5AddrFamily \<times> int" where
  "hev_socks5_addr_into_sockaddr6 rs a saddr family =
     (if a ! 0 = HEV_SOCKS5_ADDR_TYPE_IPV4 then (hev_socks5_ipv4_into_sockaddr6 a saddr, FAMILY_IPV4, 0)
      else if a ! 0 = HEV_SOCKS5_ADDR_TYPE_IPV6 then (hev_socks5_ipv6_into_sockaddr6 a saddr, FAMILY_IPV6, 0)
      else if a ! 0 = HEV_SOCKS5_ADDR_TYPE_NAME then
        (let len = unat (a ! 1); name = takeWhile (\<lambda>c. c \<noteq> 0) (take len (drop 2 a)); port = port_at a (2 + len) in
         hev_socks5_name_into_sockaddr6 rs name (ntohs port) saddr family)
      else (saddr, family, - 1))"

section \<open>Addresses of the network stack\<close>

text \<open>An \<open>ip_addr_t\<close> of lwIP; an unknown type tag is \<open>IpOther\<close>.\<close>

datatype ip_addr = IpV4 bytes | IpV6 bytes | IpOther

text \<open>\<open>ntohl\<close> of the four address bytes.\<close>

definition ip4_host :: "bytes \<Rightarrow> u32" where
  "ip4_host b = push_bit 24 (ucast (b ! 0)) OR push_bit 16 (ucast (b ! 1)) OR push_bit 8 (ucast (b ! 2)) OR ucast (b ! 3)"

text \<open>The mapped DNS instance is the singleton of the process, \<open>None\<close> when there is none.\<close>

definition hev_socks5_addr_from_lwip ::
  "HevMappedDNS option \<Rightarrow> bytes \<Rightarrow> ip_addr \<Rightarrow> u16 \<Rightarrow> (HevMappedDNS option \<times> bytes \<times> int) option" where
  "hev_socks5_addr_from_lwip dns a ip port = (case ip of
      IpV4 b \<Rightarrow> do {
        (dns, name) \<leftarrow> (case dns of None \<Rightarrow> Some (None, None)
          | Some d \<Rightarrow> do { (d, name) \<leftarrow> hev_mapped_dns_lookup d (ip4_host b); Some (Some d, name) });
        case name of
          Some nm \<Rightarrow> do { (a, _) \<leftarrow> hev_socks5_addr_from_name a nm (ntohs port); Some (dns, a, 0) }
        | None \<Rightarrow> Some (dns, fst (hev_socks5_addr_from_ipv4 a b (ntohs port)), 0) }
    | IpV6 b \<Rightarrow> Some (dns, fst (hev_socks5_addr_from_ipv6 a b (ntohs port)), 0)
    | IpOther \<Rightarrow> Some (dns, a, - 1))"

definition hev_socks5_addr_into_lwip :: "bytes \<Rightarrow> (ip_addr \<times> u16) option" where
  "hev_socks5_addr_into_lwip a =
     (if a ! 0 = HEV_SOCKS5_ADDR_TYPE_IPV4 then Some (IpV4 (take 4 (drop 1 a)), ntohs (port_at a 5))
      else if a ! 0 = HEV_SOCKS5_ADDR_TYPE_IPV6 then Some (IpV6 (take 16 (drop 1 a)), ntohs (port_at a 17))
      else None)"

section \<open>The wire format\<close>

text \<open>A destination and its encoding in requests, replies and datagram headers.\<close>

datatype dest = Ipv4 bytes u16 | Ipv6 bytes u16 | Domain bytes u16

fun dest_ok :: "dest \<Rightarrow> bool" where
  "dest_ok (Ipv4 ip p) \<longleftrightarrow> length ip = 4"
| "dest_ok (Ipv6 ip p) \<longleftrightarrow> length ip = 16"
| "dest_ok (Domain nm p) \<longleftrightarrow> length nm \<le> 255 \<and> 0 \<notin> set nm"

text \<open>The port in host byte order is sent in network byte order.\<close>

fun wire :: "dest \<Rightarrow> bytes" where
  "wire (Ipv4 ip p) = [HEV_SOCKS5_ADDR_TYPE_IPV4] @ ip @ be16 p"
| "wire (Ipv6 ip p) = [HEV_SOCKS5_ADDR_TYPE_IPV6] @ ip @ be16 p"
| "wire (Domain nm p) = [HEV_SOCKS5_ADDR_TYPE_NAME, of_nat (length nm)] @ nm @ be16 p"

lemma le16_ntohs [simp]: "le16 (ntohs p) = be16 p"
  by (simp add: le16_def be16_def ntohs_bytes)

lemma length_le16 [simp]: "length (le16 p) = 2" "length (be16 p) = 2"
  by (simp_all add: le16_def be16_def)

lemma of_le16_be16: "of_le16 (be16 p ! 0) (be16 p ! 1) = ntohs p"
  by (simp add: of_le16_def be16_def bytes_join_be)

lemma of_le16_le16: "of_le16 (le16 p ! 0) (le16 p ! 1) = p"
  by (simp add: of_le16_def le16_def bytes_join)

lemma port_at_append: "length xs = i \<Longrightarrow> port_at (xs @ le16 p @ ys) i = p"
  using of_le16_le16 [of p] by (simp add: port_at_def nth_append)

lemma port_at_be16: "length xs = i \<Longrightarrow> port_at (xs @ be16 p @ ys) i = ntohs p"
  using port_at_append [of xs i "ntohs p" ys] by simp

lemma length_wire: "dest_ok d \<Longrightarrow> int (length (wire d)) = hev_socks5_addr_len (wire d @ r)"
  by (cases d) (auto simp: hev_socks5_addr_len_def socks5_consts unat_of_nat uint_nat take_bit_nat_eq_self)

lemma wire_bound: "dest_ok d \<Longrightarrow> length (wire d) \<le> 259"
  by (cases d) auto

section \<open>Building addresses\<close>

lemma write_at_prefix:
  assumes "length xs = n" "n + length ys \<le> length (xs @ zs)"
  shows "write_at (xs @ zs) n ys = xs @ ys @ drop (length ys) zs"
  using assms by (simp add: write_at_def)

lemma from_ipv4_eq:
  assumes "length ip = 4" "7 \<le> length a"
  shows "hev_socks5_addr_from_ipv4 a ip (ntohs p) = (wire (Ipv4 ip p) @ drop 7 a, 7)"
proof -
  obtain x a' where a: "a = x # a'" using assms by (cases a) auto
  have "write_at ([1] @ a') 1 ip = [1] @ ip @ drop 4 a'" using assms by (subst write_at_prefix) (auto simp: a)
  moreover have "write_at (([1] @ ip) @ drop 4 a') 5 (be16 p) = ([1] @ ip) @ be16 p @ drop 2 (drop 4 a')"
    using assms a by (subst write_at_prefix) auto
  ultimately show ?thesis
    using assms by (simp add: hev_socks5_addr_from_ipv4_def a socks5_consts)
qed

lemma from_ipv6_eq:
  assumes "length ip = 16" "19 \<le> length a"
  shows "hev_socks5_addr_from_ipv6 a ip (ntohs p) = (wire (Ipv6 ip p) @ drop 19 a, 19)"
proof -
  obtain x a' where a: "a = x # a'" using assms by (cases a) auto
  have "write_at ([4] @ a') 1 ip = [4] @ ip @ drop 16 a'" using assms by (subst write_at_prefix) (auto simp: a)
  moreover have "write_at (([4] @ ip) @ drop 16 a') 17 (be16 p) = ([4] @ ip) @ be16 p @ drop 2 (drop 16 a')"
    using assms a by (subst write_at_prefix) auto
  ultimately show ?thesis
    using assms by (simp add: hev_socks5_addr_from_ipv6_def a socks5_consts)
qed

lemma from_name_eq:
  assumes nm: "length nm \<le> 255" "0 \<notin> set nm" and a: "length a = sizeof_addr"
  shows "\<exists>r. hev_socks5_addr_from_name a nm (ntohs p) = Some (wire (Domain nm p) @ r, 4 + int (length nm)) \<and>
    length (wire (Domain nm p) @ r) = sizeof_addr"
proof -
  have "length a = 260" using a by (simp add: sizeof_addr_def)
  then obtain x y b where ab: "a = x # y # b" "length b = 258" by (cases a; cases "tl a") auto
  let ?z = "replicate (256 - length nm) (0 :: u8)"
  have "256 - length nm = Suc (255 - length nm)" using nm(1) by simp
  then have z: "?z = 0 # replicate (255 - length nm) 0" by simp
  have "strncpy (3 # y # b) 2 nm 256 = [3, y] @ (nm @ ?z) @ drop 256 b"
    using nm ab write_at_prefix [of "[3, y]" 2 "nm @ ?z" b] by (simp add: strncpy_def)
  then have s: "strncpy (a[0 := 3]) 2 nm 256 = [3, y] @ nm @ 0 # (replicate (255 - length nm) 0 @ drop 256 b)" (is "_ = ?s")
    using z by (simp add: ab)
  have c: "strlen_at ?s 2 = Some (length nm)"
    using cstr_at [of "[3, y]" 2 nm] nm(2) by (simp add: strlen_at_def)
  have u: "unat (of_nat (length nm) :: u8) = length nm" "uint (of_nat (length nm) :: u8) = int (length nm)"
    using nm(1) by (simp_all add: unat_of_nat uint_nat take_bit_nat_eq_self)
  have "write_at ([3, of_nat (length nm)] @ nm @ 0 # (replicate (255 - length nm) 0 @ drop 256 b)) (2 + length nm) (be16 p) =
    ([3, of_nat (length nm)] @ nm) @ be16 p @ drop 2 (0 # (replicate (255 - length nm) 0 @ drop 256 b))"
    using nm ab write_at_prefix [of "[3, of_nat (length nm)] @ nm" "2 + length nm" "be16 p" "0 # (replicate (255 - length nm) 0 @ drop 256 b)"]
    by simp
  then have "hev_socks5_addr_from_name a nm (ntohs p) =
      Some (wire (Domain nm p) @ drop 2 (0 # (replicate (255 - length nm) 0 @ drop 256 b)), 4 + int (length nm))"
    using s c u by (simp add: hev_socks5_addr_from_name_def socks5_consts Let_def)
  then show ?thesis using nm ab by (intro exI conjI) (auto simp: sizeof_addr_def)
qed

lemma from_sockaddr6_eq:
  assumes "length (sin6_addr sa) = 16" "19 \<le> length a"
  shows "hev_socks5_addr_from_sockaddr6 a sa =
    (if IN6_IS_ADDR_V4MAPPED (sin6_addr sa)
     then (wire (Ipv4 (drop 12 (sin6_addr sa)) (ntohs (sin6_port sa))) @ drop 7 a, 7)
     else (wire (Ipv6 (sin6_addr sa) (ntohs (sin6_port sa))) @ drop 19 a, 19))"
proof -
  obtain x a' where a: "a = x # a'" using assms by (cases a) auto
  let ?p = "le16 (sin6_port sa)" and ?ip = "sin6_addr sa"
  have w: "le16 (sin6_port sa) = be16 (ntohs (sin6_port sa))" using le16_ntohs [of "ntohs (sin6_port sa)"] by simp
  have swap: "write_at (write_at (t # a') (1 + length ip) ?p) 1 ip = t # ip @ ?p @ drop (length ip + 2) a'"
    if "length ip + 2 \<le> length a'" for t ip
    using that by (simp add: write_at_def ac_simps drop_Cons')
  show ?thesis
    using assms swap [of "drop 12 ?ip" 1] swap [of ?ip 4] w
    by (simp add: hev_socks5_addr_from_sockaddr6_def a socks5_consts)
qed

section \<open>Resolving addresses\<close>

lemma into_sockaddr6_ipv4:
  "dest_ok (Ipv4 ip p) \<Longrightarrow> hev_socks5_addr_into_sockaddr6 rs (wire (Ipv4 ip p) @ r) sa f =
     (sa\<lparr>sin6_port := ntohs p, sin6_addr := replicate 10 0 @ [0xff, 0xff] @ ip\<rparr>, FAMILY_IPV4, 0)"
  using port_at_be16 [of "1 # ip" 5 p r]
  by (simp add: hev_socks5_addr_into_sockaddr6_def hev_socks5_ipv4_into_sockaddr6_def socks5_consts)

lemma into_sockaddr6_ipv6:
  "dest_ok (Ipv6 ip p) \<Longrightarrow> hev_socks5_addr_into_sockaddr6 rs (wire (Ipv6 ip p) @ r) sa f =
     (sa\<lparr>sin6_port := ntohs p, sin6_addr := ip\<rparr>, FAMILY_IPV6, 0)"
  using port_at_be16 [of "4 # ip" 17 p r]
  by (simp add: hev_socks5_addr_into_sockaddr6_def hev_socks5_ipv6_into_sockaddr6_def socks5_consts)

lemma into_sockaddr6_name:
  assumes "dest_ok (Domain nm p)"
  shows "hev_socks5_addr_into_sockaddr6 rs (wire (Domain nm p) @ r) sa f = hev_socks5_name_into_sockaddr6 rs nm p sa f"
proof -
  have u: "unat (of_nat (length nm) :: u8) = length nm" using assms by (simp add: unat_of_nat take_bit_nat_eq_self)
  have tw: "takeWhile (\<lambda>c. c \<noteq> 0) nm = nm" using assms by (auto simp: takeWhile_eq_all_conv)
  show ?thesis
    using u port_at_be16 [of "3 # of_nat (length nm) # nm" "2 + length nm" p r]
    by (simp add: hev_socks5_addr_into_sockaddr6_def socks5_consts tw)
qed

text \<open>What \<open>inet_pton\<close> and \<open>getaddrinfo\<close> promise about the sizes of their results.\<close>

definition resolver_ok :: "resolver \<Rightarrow> bool" where
  "resolver_ok rs \<longleftrightarrow> (\<forall>n ip. inet_pton4 rs n = Some ip \<longrightarrow> length ip = 4) \<and>
     (\<forall>n ip. inet_pton6 rs n = Some ip \<longrightarrow> length ip = 16) \<and>
     (\<forall>n f ip. getaddrinfo rs n f = Some (FAMILY_IPV4, ip) \<longrightarrow> length ip = 4) \<and>
     (\<forall>n f ip. getaddrinfo rs n f = Some (FAMILY_IPV6, ip) \<longrightarrow> length ip = 16)"

lemma name_into_sockaddr6_ok:
  assumes "resolver_ok rs" "length (sin6_addr sa) = 16"
    "hev_socks5_name_into_sockaddr6 rs nm p sa f = (sa', f', res)"
  shows "length (sin6_addr sa') = 16 \<and> sin6_port sa' = ntohs p \<and> (res = 0 \<or> res = - 1) \<and>
    (res = 0 \<longrightarrow> f' = FAMILY_IPV4 \<and> IN6_IS_ADDR_V4MAPPED (sin6_addr sa') \<or> f' = FAMILY_IPV6)"
proof -
  obtain ip0 where ip0: "sin6_addr sa = ip0" "length ip0 = 16" using assms(2) by blast
  have w: "length (write_at (write_at (write_at ip0 0 (replicate 10 0)) 10 [0xff, 0xff]) 12 ip) = 16"
    "IN6_IS_ADDR_V4MAPPED (write_at (write_at (write_at ip0 0 (replicate 10 0)) 10 [0xff, 0xff]) 12 ip)"
    "write_at (write_at (write_at ip0 0 (replicate 10 0)) 12 ip) 10 [0xff, 0xff] =
     write_at (write_at (write_at ip0 0 (replicate 10 0)) 10 [0xff, 0xff]) 12 ip" if "length ip = 4" for ip :: bytes
    using ip0 that by (simp_all add: write_at_def IN6_IS_ADDR_V4MAPPED_def)
  have i: "write_at (write_at ip0 0 (replicate 10 0)) 0 (replicate 10 0) = write_at ip0 0 (replicate 10 0)"
    by (simp add: write_at_def)
  show ?thesis
    using assms(1,3) ip0 w i
    by (auto simp: hev_socks5_name_into_sockaddr6_def hev_socks5_name_resolve_ipv4_def
        hev_socks5_name_resolve_ipv6_def hev_socks5_name_resolve_name_def resolver_ok_def Let_def
        split: option.splits HevSocks5AddrFamily.splits prod.splits)
qed

section \<open>Properties\<close>

text \<open>C31. A socket address survives the way through a SOCKS5 address: what
  \<open>hev_socks5_addr_from_sockaddr6\<close> writes, \<open>hev_socks5_addr_into_sockaddr6\<close> reads back to the
  same port and address (mapped IPv4 addresses as such), and the returned length is the
  length of the encoding.\<close>

theorem socks5_addr_sockaddr_roundtrip:
  assumes "length (sin6_addr sa) = 16" "length a = sizeof_addr"
    "hev_socks5_addr_from_sockaddr6 a sa = (a', n)"
  shows "hev_socks5_addr_into_sockaddr6 rs a' sa0 f = (sa0\<lparr>sin6_port := sin6_port sa, sin6_addr := sin6_addr sa\<rparr>,
      if IN6_IS_ADDR_V4MAPPED (sin6_addr sa) then FAMILY_IPV4 else FAMILY_IPV6, 0) \<and>
    n = hev_socks5_addr_len a' \<and> length a' = sizeof_addr"
proof (cases "IN6_IS_ADDR_V4MAPPED (sin6_addr sa)")
  case True
  let ?d = "Ipv4 (drop 12 (sin6_addr sa)) (ntohs (sin6_port sa))"
  have a': "a' = wire ?d @ drop 7 a" "n = 7" using from_sockaddr6_eq [of sa a] assms True by (auto simp: sizeof_addr_def)
  have "sin6_addr sa = replicate 10 0 @ [0xff, 0xff] @ drop 12 (sin6_addr sa)"
    using True append_take_drop_id [of 12 "sin6_addr sa"] by (metis IN6_IS_ADDR_V4MAPPED_def append.assoc)
  then show ?thesis
    using True a' into_sockaddr6_ipv4 [of "drop 12 (sin6_addr sa)" "ntohs (sin6_port sa)" rs "drop 7 a" sa0 f]
      length_wire [of ?d "drop 7 a"] assms(1,2) by (auto simp: sizeof_addr_def)
next
  case False
  let ?d = "Ipv6 (sin6_addr sa) (ntohs (sin6_port sa))"
  have a': "a' = wire ?d @ drop 19 a" "n = 19" using from_sockaddr6_eq [of sa a] assms False by (auto simp: sizeof_addr_def)
  then show ?thesis
    using False into_sockaddr6_ipv6 [of "sin6_addr sa" "ntohs (sin6_port sa)" rs "drop 19 a" sa0 f]
      length_wire [of ?d "drop 19 a"] assms(1,2) by (auto simp: sizeof_addr_def)
qed

text \<open>Addresses of the network stack outside the mapped network survive the way through a
  SOCKS5 address.\<close>

lemma socks5_addr_lwip_roundtrip:
  assumes "ip = IpV4 b \<and> length b = 4 \<or> ip = IpV6 b \<and> length b = 16" "length a = sizeof_addr"
    and "case dns of None \<Rightarrow> True | Some d \<Rightarrow> \<exists>d'. hev_mapped_dns_lookup d (ip4_host b) = Some (d', None)"
  shows "\<exists>dns' a'. hev_socks5_addr_from_lwip dns a ip port = Some (dns', a', 0) \<and>
    hev_socks5_addr_into_lwip a' = Some (ip, port) \<and> length a' = sizeof_addr"
  using assms(1)
proof
  assume ip: "ip = IpV4 b \<and> length b = 4"
  then have "hev_socks5_addr_into_lwip (wire (Ipv4 b port) @ drop 7 a) = Some (IpV4 b, port)"
    using port_at_be16 [of "1 # b" 5 port "drop 7 a"] by (simp add: hev_socks5_addr_into_lwip_def socks5_consts)
  then show ?thesis
    using ip assms(2,3) from_ipv4_eq [of b a port]
    by (auto simp: hev_socks5_addr_from_lwip_def sizeof_addr_def split: option.splits)
next
  assume ip: "ip = IpV6 b \<and> length b = 16"
  then have "hev_socks5_addr_into_lwip (wire (Ipv6 b port) @ drop 19 a) = Some (IpV6 b, port)"
    using port_at_be16 [of "4 # b" 17 port "drop 19 a"] by (simp add: hev_socks5_addr_into_lwip_def socks5_consts)
  then show ?thesis
    using ip assms(2) from_ipv6_eq [of b a port] by (auto simp: hev_socks5_addr_from_lwip_def sizeof_addr_def)
qed

text \<open>A connection to a mapped address is requested by name: when mapped DNS knows the
  address, the SOCKS5 address is the encoding of the name it was given for and of the port, and
  resolving it hands exactly that name and port to the resolver.\<close>

theorem socks5_addr_mapped_name:
  assumes "hev_mapped_dns_lookup d (ip4_host b) = Some (d', Some nm)"
    and "length nm \<le> 255" "0 \<notin> set nm" "length a = sizeof_addr"
  shows "\<exists>a' r. hev_socks5_addr_from_lwip (Some d) a (IpV4 b) port = Some (Some d', a', 0) \<and>
    a' = wire (Domain nm port) @ r \<and> hev_socks5_addr_len a' = int (length (wire (Domain nm port))) \<and>
    hev_socks5_addr_into_sockaddr6 rs a' sa f = hev_socks5_name_into_sockaddr6 rs nm port sa f"
proof -
  obtain r where r: "hev_socks5_addr_from_name a nm (ntohs port) = Some (wire (Domain nm port) @ r, 4 + int (length nm))"
    using from_name_eq [OF assms(2-4)] by blast
  then have "hev_socks5_addr_from_lwip (Some d) a (IpV4 b) port = Some (Some d', wire (Domain nm port) @ r, 0)"
    using assms(1) by (simp add: hev_socks5_addr_from_lwip_def)
  then show ?thesis
    using length_wire [of "Domain nm port" r] into_sockaddr6_name [of nm port rs r sa f] assms(2,3) by auto
qed

definition no_resolver :: resolver where
  "no_resolver = \<lparr>inet_pton4 = \<lambda>_. None, inet_pton6 = \<lambda>_. None, getaddrinfo = \<lambda>_ _. None\<rparr>"

lemma socks5_addr_sockaddr_roundtrip_witness:
  "hev_socks5_addr_into_sockaddr6 no_resolver (fst (hev_socks5_addr_from_sockaddr6 (replicate 260 0)
     \<lparr>sin6_port = 0x5000, sin6_addr = replicate 16 1\<rparr>)) \<lparr>sin6_port = 0, sin6_addr = replicate 16 0\<rparr> FAMILY_UNSPEC =
     (\<lparr>sin6_port = 0x5000, sin6_addr = replicate 16 1\<rparr>, FAMILY_IPV6, 0)"
proof -
  have "\<not> IN6_IS_ADDR_V4MAPPED (replicate 16 1)" by (simp add: IN6_IS_ADDR_V4MAPPED_def numeral_eq_Suc)
  then show ?thesis
    using socks5_addr_sockaddr_roundtrip [of "\<lparr>sin6_port = 0x5000, sin6_addr = replicate 16 1\<rparr>" "replicate 260 0" _ _ no_resolver]
    by (simp add: sizeof_addr_def prod_eq_iff)
qed

lemma socks5_addr_mapped_name_witness:
  "\<exists>d d' a' r. hev_socks5_addr_from_lwip (Some d) (replicate 260 0) (IpV4 [198, 18, 0, 0]) 80 = Some (Some d', a', 0) \<and>
     a' = wire (Domain [97] 80) @ r"
proof -
  obtain d where d: "dns_state d []" "mapped_net d 17" "d_max d = 2" "d_net d = 0xC6120000" "d_entries d = Map.empty"
    using example_dns by blast
  have "alloc_ok (16, True) d" using d by (simp add: alloc_ok_def aligned_def)
  then obtain d1 where d1: "dns_state d1 [([97], 0)]" "same_net d d1"
    using find_state [OF d(1), of "(16, True)" "[97]" "[([97], 0)]" 0] d(3) by (auto simp: lru_find_def)
  have "ip4_host [198, 18, 0, 0] = d_net d OR word_of_int 0" using d(4) by (simp add: ip4_host_def)
  moreover have "sint ((d_net d OR word_of_int 0) AND NOT (d_mask d1)) = 0"
    using host_index [OF d(2), of 0] d(3) d1(2) by (simp add: same_net_def)
  moreover have "lru_lookup 0 [([97], 0)] = ([([97], 0)], Some [97])" by (simp add: lru_lookup_def)
  ultimately obtain d2 where "hev_mapped_dns_lookup d1 (ip4_host [198, 18, 0, 0]) = Some (d2, Some [97])"
    using lookup_state [OF d1(1), of "ip4_host [198, 18, 0, 0]"] by auto
  from socks5_addr_mapped_name [OF this, of "replicate 260 0" 80 no_resolver "\<lparr>sin6_port = 0, sin6_addr = []\<rparr>" FAMILY_UNSPEC]
  obtain a' r where "hev_socks5_addr_from_lwip (Some d1) (replicate 260 0) (IpV4 [198, 18, 0, 0]) 80 = Some (Some d2, a', 0)"
    "a' = wire (Domain [97] 80) @ r"
    unfolding sizeof_addr_def by force
  then show ?thesis by blast
qed

end
