(* ===== verification/TaskIO.thy ===== *)
theory TaskIO
  imports Socks5Addr
begin

text \<open>
  The socket input and output the SOCKS5 code runs on: the descriptors of the process, the
  system calls on them and the cooperative loops of \<open>hev-task-io-socket.c\<close> with the yielder of
  \<open>hev-socks5-misc.c\<close>. What the other side and the kernel do is a script per descriptor: each
  attempt to receive, to send or to connect consumes events of it, and a \<open>Wait\<close> event is an
  attempt that would block and becomes possible after the given number of milliseconds. An
  exhausted receive script is the end of the stream, an exhausted send script accepts
  everything. The outcomes of the other fallible calls are scripts too; an exhausted script
  succeeds.
\<close>

section \<open>The state of the process\<close>

datatype rxev = Chunk bytes | RWait nat | REof | RErr
datatype txev = Accept nat | TWait nat | TErr
datatype cxev = COk | CIsConn | CWait nat | CErr
datatype dgev = Dgrams "(sockaddr_in6 \<times> bytes) list" | DWait nat | DErr

record net =
  n_open :: "int list"
  n_task :: "int set"
  n_rx :: "int \<Rightarrow> rxev list"
  n_tx :: "int \<Rightarrow> txev list"
  n_out :: "int \<Rightarrow> bytes"
  n_drx :: "int \<Rightarrow> dgev list"
  n_dtx :: "int \<Rightarrow> txev list"
  n_dout :: "int \<Rightarrow> (sockaddr_in6 option \<times> bytes) list"
  n_names :: "sockaddr_in6 option list"
  n_cx :: "cxev list"
  n_sys :: "bool list"
  n_mem :: "bool list"
  n_live :: int
  n_again :: bool

text \<open>\<open>n_again\<close> tells whether \<open>errno\<close> is \<open>EAGAIN\<close>; a call that succeeds leaves it alone.\<close>

section \<open>System calls\<close>

definition syscall :: "net \<Rightarrow> net \<times> int" where
  "syscall nt = (case n_sys nt of [] \<Rightarrow> (nt, 0)
     | b # bs \<Rightarrow> (nt\<lparr>n_sys := bs, n_again := n_again nt \<and> b\<rparr>, if b then 0 else - 1))"

definition hev_malloc :: "net \<Rightarrow> net \<times> bool" where
  "hev_malloc nt = (case n_mem nt of [] \<Rightarrow> (nt\<lparr>n_live := n_live nt + 1\<rparr>, True)
     | b # bs \<Rightarrow> (nt\<lparr>n_mem := bs, n_live := n_live nt + (if b then 1 else 0)\<rparr>, b))"

definition hev_free :: "net \<Rightarrow> net" where
  "hev_free nt = nt\<lparr>n_live := n_live nt - 1\<rparr>"

text \<open>A new descriptor is the lowest one not in use.\<close>

definition lowest_fd :: "int list \<Rightarrow> int" where
  "lowest_fd fds = int (hd (filter (\<lambda>i. int i \<notin> set fds) [0..<Suc (length fds)]))"

definition hev_task_io_socket_socket :: "net \<Rightarrow> net \<times> int" where
  "hev_task_io_socket_socket nt = (case syscall nt of (nt, res) \<Rightarrow>
     if res < 0 then (nt, - 1)
     else let fd = lowest_fd (n_open nt) in (nt\<lparr>n_open := fd # n_open nt\<rparr>, fd))"

definition sys_close :: "net \<Rightarrow> int \<Rightarrow> net" where
  "sys_close nt fd = nt\<lparr>n_open := remove1 fd (n_open nt)\<rparr>"

text \<open>\<open>hev_task_add_fd\<close> fails when the descriptor is already registered; the code then calls
  \<open>hev_task_mod_fd\<close>, so that it is registered in both cases.\<close>

definition hev_task_add_fd :: "net \<Rightarrow> int \<Rightarrow> net" where
  "hev_task_add_fd nt fd = nt\<lparr>n_task := insert fd (n_task nt)\<rparr>"

definition hev_task_del_fd :: "net \<Rightarrow> int \<Rightarrow> net" where
  "hev_task_del_fd nt fd = nt\<lparr>n_task := n_task nt - {fd}\<rparr>"

definition drop_fd :: "net \<Rightarrow> int \<Rightarrow> net" where
  "drop_fd nt fd = sys_close (hev_task_del_fd nt fd) fd"

definition sys_getsockname :: "net \<Rightarrow> net \<times> sockaddr_in6 option" where
  "sys_getsockname nt = (case n_names nt of [] \<Rightarrow> (nt\<lparr>n_again := False\<rparr>, None)
     | a # as \<Rightarrow> (nt\<lparr>n_names := as, n_again := n_again nt \<and> a \<noteq> None\<rparr>, a))"

section \<open>Waiting\<close>

datatype HevTaskYieldType = HEV_TASK_YIELD | HEV_TASK_WAITIO

text \<open>\<open>hev_task_sleep\<close> returns what is left of the time when the task is woken after \<open>d\<close>
  milliseconds, and zero when the time has passed.\<close>

definition hev_task_sleep :: "int \<Rightarrow> nat \<Rightarrow> int" where
  "hev_task_sleep t d = (if int d < t then t - int d else 0)"

definition hev_socks5_task_io_yielder :: "HevTaskYieldType \<Rightarrow> int \<Rightarrow> nat \<Rightarrow> int" where
  "hev_socks5_task_io_yielder type timeout d =
     (if type = HEV_TASK_YIELD then 0
      else if timeout < 0 then 0
      else if hev_task_sleep timeout d \<le> 0 then - 1 else 0)"

section \<open>Receiving\<close>

text \<open>The result of a partly successful loop.\<close>

definition partial :: "bool \<Rightarrow> nat \<Rightarrow> int \<Rightarrow> int" where
  "partial waitall n s = (if waitall \<and> n \<noteq> 0 then int n else s)"

text \<open>The loop of \<open>hev_task_io_socket_recv\<close>: \<open>len\<close> bytes are wanted and \<open>got\<close> have been
  received. The results are the remaining script, the bytes, the returned value and the
  new \<open>errno\<close>.\<close>

fun recv_loop :: "bool \<Rightarrow> bool \<Rightarrow> int \<Rightarrow> nat \<Rightarrow> bytes \<Rightarrow> bool \<Rightarrow> rxev list \<Rightarrow> rxev list \<times> bytes \<times> int \<times> bool" where
  "recv_loop waitall dontwait t len got ag [] = ([], got, partial waitall (length got) 0, ag)"
| "recv_loop waitall dontwait t len got ag (REof # es) = (REof # es, got, partial waitall (length got) 0, ag)"
| "recv_loop waitall dontwait t len got ag (RErr # es) = (es, got, partial waitall (length got) (- 1), False)"
| "recv_loop waitall dontwait t len got ag (RWait d # es) =
     (if dontwait then (es, got, partial waitall (length got) (- 1), True)
      else if hev_socks5_task_io_yielder HEV_TASK_WAITIO t d \<noteq> 0
      then (RWait (d - nat t) # es, got, if got \<noteq> [] then int (length got) else - 2, True)
      else recv_loop waitall dontwait t len got True es)"
| "recv_loop waitall dontwait t len got ag (Chunk bs # es) =
     (if bs = [] then recv_loop waitall dontwait t len got ag es else
      let k = min (len - length got) (length bs); got' = got @ take k bs;
          rest = (if k < length bs then Chunk (drop k bs) # es else es) in
      if \<not> waitall then (rest, got', int k, ag)
      else if k = 0 then (rest, got', int (length got), ag)
      else if length got' < len then recv_loop waitall dontwait t len got' ag es
      else (rest, got', int (length got'), ag))"

definition task_recv :: "bool \<Rightarrow> bool \<Rightarrow> int \<Rightarrow> net \<Rightarrow> int \<Rightarrow> nat \<Rightarrow> net \<times> bytes \<times> int" where
  "task_recv waitall dontwait t nt fd len =
     (case recv_loop waitall dontwait t len [] (n_again nt) (n_rx nt fd) of (es, got, res, ag) \<Rightarrow>
        (nt\<lparr>n_rx := (n_rx nt)(fd := es), n_again := ag\<rparr>, got, res))"

text \<open>The call with \<open>MSG_WAITALL\<close>.\<close>

abbreviation hev_task_io_socket_recv :: "int \<Rightarrow> net \<Rightarrow> int \<Rightarrow> nat \<Rightarrow> net \<times> bytes \<times> int" where
  "hev_task_io_socket_recv \<equiv> task_recv True False"

section \<open>Sending\<close>

text \<open>The loop of \<open>hev_task_io_socket_sendmsg\<close> with \<open>MSG_WAITALL\<close>: the vectors that are left,
  how many bytes were sent, and the bytes the kernel took so far.\<close>

fun iov_advance :: "bytes list \<Rightarrow> nat \<Rightarrow> bytes list" where
  "iov_advance [] s = []"
| "iov_advance (v # vs) s = (if s < length v then drop s v # vs else iov_advance vs (s - length v))"

definition iov_len :: "bytes list \<Rightarrow> nat" where
  "iov_len iov = length (concat iov)"

fun send_loop :: "int \<Rightarrow> bytes list \<Rightarrow> bytes \<Rightarrow> bool \<Rightarrow> txev list \<Rightarrow> txev list \<times> bytes \<times> int \<times> bool" where
  "send_loop t iov done ag [] = ([], done @ concat iov, int (length done + iov_len iov), ag)"
| "send_loop t iov done ag (TErr # es) = (es, done, if done \<noteq> [] then int (length done) else - 1, False)"
| "send_loop t iov done ag (TWait d # es) =
     (if hev_socks5_task_io_yielder HEV_TASK_WAITIO t d \<noteq> 0
      then (TWait (d - nat t) # es, done, if done \<noteq> [] then int (length done) else - 2, True)
      else send_loop t iov done True es)"
| "send_loop t iov done ag (Accept n # es) =
     (if n = 0 then send_loop t iov done ag es else
      if iov_len iov \<le> n then (es, done @ concat iov, int (length done + iov_len iov), ag)
      else send_loop t (iov_advance iov n) (done @ take n (concat iov)) ag es)"

definition hev_task_io_socket_sendmsg :: "int \<Rightarrow> net \<Rightarrow> int \<Rightarrow> bytes list \<Rightarrow> net \<times> int" where
  "hev_task_io_socket_sendmsg t nt fd iov =
     (case send_loop t iov [] (n_again nt) (n_tx nt fd) of (es, sent, res, ag) \<Rightarrow>
        (nt\<lparr>n_tx := (n_tx nt)(fd := es), n_out := (n_out nt)(fd := n_out nt fd @ sent), n_again := ag\<rparr>, res))"

definition hev_task_io_socket_send :: "int \<Rightarrow> net \<Rightarrow> int \<Rightarrow> bytes \<Rightarrow> net \<times> int" where
  "hev_task_io_socket_send t nt fd buf = hev_task_io_socket_sendmsg t nt fd [buf]"

section \<open>Connecting\<close>

fun connect_loop :: "int \<Rightarrow> bool \<Rightarrow> cxev list \<Rightarrow> cxev list \<times> int \<times> bool" where
  "connect_loop t ag [] = ([], 0, ag)"
| "connect_loop t ag (COk # es) = (es, 0, ag)"
| "connect_loop t ag (CIsConn # es) = (es, 0, False)"
| "connect_loop t ag (CErr # es) = (es, - 1, False)"
| "connect_loop t ag (CWait d # es) =
     (if hev_socks5_task_io_yielder HEV_TASK_WAITIO t d \<noteq> 0 then (es, - 2, False) else connect_loop t False es)"

definition hev_task_io_socket_connect :: "int \<Rightarrow> net \<Rightarrow> int \<Rightarrow> sockaddr_in6 \<Rightarrow> net \<times> int" where
  "hev_task_io_socket_connect t nt fd addr =
     (case connect_loop t (n_again nt) (n_cx nt) of (es, res, ag) \<Rightarrow> (nt\<lparr>n_cx := es, n_again := ag\<rparr>, res))"

section \<open>New sockets\<close>

datatype socktype = SOCK_STREAM | SOCK_DGRAM

text \<open>The failure of the call that sets the receive buffer size of a datagram socket is ignored.\<close>

definition hev_socks5_socket :: "net \<Rightarrow> socktype \<Rightarrow> net \<times> int" where
  "hev_socks5_socket nt type = (
     case hev_task_io_socket_socket nt of (nt, fd) \<Rightarrow>
     if fd < 0 then (nt, - 1) else
     case syscall nt of (nt, res) \<Rightarrow>
     if res < 0 then (sys_close nt fd, - 1) else
     let nt = hev_task_add_fd nt fd;
         nt = (if type = SOCK_DGRAM then fst (syscall nt) else nt) in
     (nt, fd))"


section \<open>Byte streams\<close>

text \<open>What a task that waits at most \<open>t\<close> milliseconds at a time can receive: the bytes before
  the end of the stream, an error or a longer pause.\<close>

fun avail :: "int \<Rightarrow> rxev list \<Rightarrow> bytes" where
  "avail t [] = []"
| "avail t (Chunk bs # es) = bs @ avail t es"
| "avail t (RWait d # es) = (if t < 0 \<or> int d < t then avail t es else [])"
| "avail t (REof # es) = []"
| "avail t (RErr # es) = []"

lemma yielder_zero_iff: "hev_socks5_task_io_yielder HEV_TASK_WAITIO t d = 0 \<longleftrightarrow> t < 0 \<or> int d < t"
  by (simp add: hev_socks5_task_io_yielder_def hev_task_sleep_def)

lemma recv_loop_ok:
  assumes "length got < len" "len \<le> length got + length (avail t es)"
  shows "\<exists>es' ag'. recv_loop True False t len got ag es =
    (es', got @ take (len - length got) (avail t es), int len, ag') \<and> avail t es' = drop (len - length got) (avail t es)"
  using assms
proof (induction es arbitrary: got ag)
  case (Cons e es)
  show ?case
  proof (cases e)
    case (Chunk bs)
    show ?thesis
    proof (cases "length got + length bs < len")
      case True
      then have "min (len - length got) (length bs) = length bs" by simp
      then show ?thesis
        using Cons.IH [of "got @ bs" ag] Cons.IH [of got ag] Cons.prems True Chunk
        by (auto simp: Let_def)
    next
      case False
      then have "min (len - length got) (length bs) = len - length got" by simp
      then show ?thesis
        using Cons.prems Chunk False by (auto simp: Let_def)
    qed
  qed (use Cons.IH [of got True] Cons.prems yielder_zero_iff in \<open>auto split: if_splits\<close>)
qed simp

lemma recv_loop_short:
  assumes "length got < len" "length got + length (avail t es) < len"
  shows "\<exists>es' got' r ag'. recv_loop True False t len got ag es = (es', got', r, ag') \<and> r < int len"
  using assms
proof (induction es arbitrary: got ag)
  case (Cons e es)
  show ?case
  proof (cases e)
    case (Chunk bs)
    then have "min (len - length got) (length bs) = length bs" using Cons.prems by simp
    then show ?thesis
      using Cons.IH [of "got @ bs" ag] Cons.IH [of got ag] Cons.prems Chunk
      by (auto simp: Let_def)
  qed (use Cons.IH [of got True] Cons.prems in \<open>auto simp: partial_def yielder_zero_iff\<close>)
qed (simp add: partial_def)

section \<open>Sending\<close>

lemma concat_iov_advance: "concat (iov_advance iov s) = drop s (concat iov)"
  by (induction iov s rule: iov_advance.induct) auto

text \<open>A descriptor on which sending never fails and never takes longer than the timeout.\<close>

definition tx_open :: "int \<Rightarrow> txev list \<Rightarrow> bool" where
  "tx_open t es \<longleftrightarrow> (\<forall>e \<in> set es. case e of Accept _ \<Rightarrow> True | TWait d \<Rightarrow> t < 0 \<or> int d < t | TErr \<Rightarrow> False)"

lemma send_loop_ok:
  assumes "tx_open t es"
  shows "\<exists>es' ag'. send_loop t iov sent ag es = (es', sent @ concat iov, int (length sent + iov_len iov), ag') \<and> tx_open t es'"
  using assms
proof (induction t iov sent ag es rule: send_loop.induct)
  case (3 t iov sent ag d es)
  then show ?case by (auto simp: tx_open_def yielder_zero_iff)
next
  case (4 t iov sent ag n es)
  then have "tx_open t es" by (simp add: tx_open_def)
  moreover have "sent @ take n (concat iov) @ concat (iov_advance iov n) = sent @ concat iov"
    by (simp add: concat_iov_advance)
  moreover have "\<not> iov_len iov \<le> n \<Longrightarrow> n + iov_len (iov_advance iov n) = iov_len iov"
    by (simp add: iov_len_def concat_iov_advance)
  ultimately show ?case using 4 by (auto simp: iov_len_def min_def)
qed (auto simp: tx_open_def)

text \<open>Whatever happens, the bytes sent are a prefix of the message, and the returned value is
  their number unless it is negative.\<close>

lemma send_loop_prefix:
  "send_loop t iov sent ag es = (es', out, r, ag') \<Longrightarrow>
     \<exists>k. out = sent @ take k (concat iov) \<and> (0 \<le> r \<longrightarrow> r = int (length out)) \<and> (r < 0 \<longrightarrow> out = [])"
proof (induction t iov sent ag es arbitrary: out r rule: send_loop.induct)
  case (1 t iov sent ag)
  then show ?case by (auto simp: iov_len_def intro: exI [of _ "length (concat iov)"])
next
  case (2 t iov sent ag es)
  then show ?case by (auto split: if_splits intro: exI [of _ 0])
next
  case (3 t iov sent ag d es)
  then show ?case by (auto split: if_splits intro: exI [of _ 0])
next
  case (4 t iov sent ag n es)
  consider "n = 0" | "n \<noteq> 0" "iov_len iov \<le> n" | "n \<noteq> 0" "\<not> iov_len iov \<le> n" by blast
  then show ?case
  proof cases
    case 1
    then show ?thesis using "4.IH"(1) "4.prems" by simp
  next
    case 2
    then show ?thesis using "4.prems" by (auto simp: iov_len_def intro: exI [of _ "length (concat iov)"])
  next
    case 3
    have "\<exists>k. out = (sent @ take n (concat iov)) @ take k (concat (iov_advance iov n)) \<and>
      (0 \<le> r \<longrightarrow> r = int (length out)) \<and> (r < 0 \<longrightarrow> out = [])"
      by (rule "4.IH"(2) [OF 3]) (use 3 "4.prems" in simp)
    then obtain k where "out = (sent @ take n (concat iov)) @ take k (concat (iov_advance iov n))"
      "0 \<le> r \<longrightarrow> r = int (length out)" "r < 0 \<longrightarrow> out = []"
      by blast
    then show ?thesis
      by (intro exI [of _ "n + k"]) (simp add: concat_iov_advance take_add)
  qed
qed

section \<open>Descriptors\<close>

lemma lowest_fd: "lowest_fd fds \<notin> set fds \<and> 0 \<le> lowest_fd fds"
proof -
  have "\<exists>i \<in> set [0..<Suc (length fds)]. int i \<notin> set fds"
  proof (rule ccontr)
    assume "\<not> ?thesis"
    then have "\<forall>i < Suc (length fds). int i \<in> set fds" by (auto simp: less_Suc_eq)
    then have "int ` {0..<Suc (length fds)} \<subseteq> set fds" by auto
    then have "card (int ` {0..<Suc (length fds)}) \<le> card (set fds)" by (intro card_mono) auto
    then show False using card_length [of fds] by (simp add: card_image)
  qed
  then have "filter (\<lambda>i. int i \<notin> set fds) [0..<Suc (length fds)] \<noteq> []"
    by (simp only: filter_empty_conv) blast
  then have "hd (filter (\<lambda>i. int i \<notin> set fds) [0..<Suc (length fds)]) \<in> set (filter (\<lambda>i. int i \<notin> set fds) [0..<Suc (length fds)])"
    by (rule hd_in_set)
  then show ?thesis by (simp only: lowest_fd_def) auto
qed


lemma lowest_fd_neg [simp]: "\<not> lowest_fd fds < 0" "lowest_fd fds \<notin> set fds"
  using lowest_fd [of fds] by auto

lemma syscall_cases:
  obtains s a where "syscall nt = (nt\<lparr>n_sys := s, n_again := a\<rparr>, 0)"
  | s where "syscall nt = (nt\<lparr>n_sys := s, n_again := False\<rparr>, - 1)"
proof (cases "n_sys nt")
  case Nil
  then have "syscall nt = (nt\<lparr>n_sys := [], n_again := n_again nt\<rparr>, 0)" by (simp add: syscall_def)
  then show ?thesis by (rule that(1))
next
  case (Cons b bs)
  then have "syscall nt = (nt\<lparr>n_sys := bs, n_again := n_again nt \<and> b\<rparr>, if b then 0 else - 1)"
    by (simp add: syscall_def)
  then have "syscall nt = (nt\<lparr>n_sys := bs, n_again := n_again nt\<rparr>, 0) \<or> syscall nt = (nt\<lparr>n_sys := bs, n_again := False\<rparr>, - 1)"
    by (cases b) simp_all
  then show ?thesis using that by blast
qed

text \<open>A new socket is a fresh descriptor that is open and registered with the task; a failure
  leaves no descriptor behind.\<close>

lemma hev_socks5_socket_cases:
  obtains s a where "hev_socks5_socket nt ty = (nt\<lparr>n_sys := s, n_again := a\<rparr>, - 1)"
  | fd s a where "hev_socks5_socket nt ty =
      (nt\<lparr>n_open := fd # n_open nt, n_task := insert fd (n_task nt), n_sys := s, n_again := a\<rparr>, fd)"
      "0 \<le> fd" "fd \<notin> set (n_open nt)"
proof (cases rule: syscall_cases [of nt])
  case (1 s a)
  note first = 1
  let ?nt = "nt\<lparr>n_sys := s, n_again := a, n_open := lowest_fd (n_open nt) # n_open nt\<rparr>"
  have s0: "hev_task_io_socket_socket nt = (?nt, lowest_fd (n_open nt))"
    using 1 by (simp add: hev_task_io_socket_socket_def Let_def)
  show ?thesis
  proof (cases rule: syscall_cases [of ?nt])
    case (1 s' a')
    let ?fd = "lowest_fd (n_open nt)"
    let ?n = "nt\<lparr>n_open := ?fd # n_open nt, n_sys := s', n_again := a', n_task := insert ?fd (n_task nt)\<rparr>"
    obtain s'' a'' where "fst (syscall ?n) = nt\<lparr>n_open := ?fd # n_open nt, n_task := insert ?fd (n_task nt), n_sys := s'', n_again := a''\<rparr>"
      by (cases rule: syscall_cases [of ?n]) auto
    then have "hev_socks5_socket nt ty = (nt\<lparr>n_open := ?fd # n_open nt, n_task := insert ?fd (n_task nt),
        n_sys := if ty = SOCK_DGRAM then s'' else s', n_again := if ty = SOCK_DGRAM then a'' else a'\<rparr>, ?fd)"
      using s0 1 by (cases ty) (simp_all add: hev_socks5_socket_def hev_task_add_fd_def Let_def)
    then show ?thesis using that(2) lowest_fd [of "n_open nt"] by blast
  next
    case (2 s')
    then show ?thesis
      using s0 that(1) by (auto simp: hev_socks5_socket_def sys_close_def)
  qed
next
  case (2 s)
  then show ?thesis
    using that(1) [where s = s and a = False] by (simp add: hev_socks5_socket_def hev_task_io_socket_socket_def)
qed

section \<open>The interface of a stream\<close>

text \<open>What the protocol code relies on when it reads: a request for \<open>n\<close> bytes returns \<open>n\<close> and
  exactly the next \<open>n\<close> bytes when the stream has them, in whatever pieces they come, and some
  other value when it has not.\<close>

locale byte_stream =
  fixes recv :: "'s \<Rightarrow> nat \<Rightarrow> 's \<times> bytes \<times> int"
    and stream :: "'s \<Rightarrow> bytes"
  assumes recv_ok: "0 < n \<Longrightarrow> n \<le> length (stream s) \<Longrightarrow>
      \<exists>s'. recv s n = (s', take n (stream s), int n) \<and> stream s' = drop n (stream s)"
    and recv_short: "length (stream s) < n \<Longrightarrow> \<exists>s' bs r. recv s n = (s', bs, r) \<and> r \<noteq> int n"
begin

lemma recv_cases:
  assumes "0 < n"
  obtains (short) s' bs r where "recv s n = (s', bs, r)" "r \<noteq> int n" "length (stream s) < n"
  | (full) s' bs where "recv s n = (s', bs, int n)" "length bs = n" "stream s = bs @ stream s'"
proof (cases "length (stream s) < n")
  case True
  then obtain s' bs r where "recv s n = (s', bs, r)" "r \<noteq> int n" using recv_short by blast
  then show ?thesis using short True by blast
next
  case False
  then obtain s' where "recv s n = (s', take n (stream s), int n)" "stream s' = drop n (stream s)"
    using recv_ok [of n s] assms by auto
  then show ?thesis using full [of s' "take n (stream s)"] False by simp
qed

end

lemma task_recv_ok:
  assumes "0 < n" "n \<le> length (avail t (n_rx nt fd))"
  shows "\<exists>es ag. hev_task_io_socket_recv t nt fd n =
      (nt\<lparr>n_rx := (n_rx nt)(fd := es), n_again := ag\<rparr>, take n (avail t (n_rx nt fd)), int n) \<and>
      avail t es = drop n (avail t (n_rx nt fd))"
proof -
  obtain es ag where "recv_loop True False t n [] (n_again nt) (n_rx nt fd) = (es, take n (avail t (n_rx nt fd)), int n, ag)"
    "avail t es = drop n (avail t (n_rx nt fd))"
    using recv_loop_ok [of "[]" n t "n_rx nt fd" "n_again nt"] assms by auto
  then show ?thesis by (intro exI [of _ es] exI [of _ ag]) (simp add: task_recv_def)
qed

lemma task_recv_short:
  assumes "length (avail t (n_rx nt fd)) < n"
  shows "\<exists>es ag bs r. hev_task_io_socket_recv t nt fd n = (nt\<lparr>n_rx := (n_rx nt)(fd := es), n_again := ag\<rparr>, bs, r) \<and> r < int n"
proof -
  obtain es bs r ag where "recv_loop True False t n [] (n_again nt) (n_rx nt fd) = (es, bs, r, ag)" "r < int n"
    using recv_loop_short [of "[]" n t "n_rx nt fd" "n_again nt"] assms by auto
  then show ?thesis by (auto simp: task_recv_def)
qed

interpretation tcp: byte_stream "\<lambda>nt n. hev_task_io_socket_recv t nt fd n" "\<lambda>nt. avail t (n_rx nt fd)" for t fd
proof
  fix n :: nat and nt :: net assume n: "0 < n" "n \<le> length (avail t (n_rx nt fd))"
  show "\<exists>s'. hev_task_io_socket_recv t nt fd n = (s', take n (avail t (n_rx nt fd)), int n) \<and>
      avail t (n_rx s' fd) = drop n (avail t (n_rx nt fd))"
    using task_recv_ok [OF n] by fastforce
next
  fix n :: nat and nt :: net assume "length (avail t (n_rx nt fd)) < n"
  then show "\<exists>s' bs r. hev_task_io_socket_recv t nt fd n = (s', bs, r) \<and> r \<noteq> int n"
    using task_recv_short by blast
qed

lemma sendmsg_ok:
  assumes "tx_open t (n_tx nt fd)"
  shows "\<exists>es ag. hev_task_io_socket_sendmsg t nt fd iov =
      (nt\<lparr>n_tx := (n_tx nt)(fd := es), n_out := (n_out nt)(fd := n_out nt fd @ concat iov), n_again := ag\<rparr>, int (iov_len iov)) \<and>
      tx_open t es"
proof -
  obtain es ag where "send_loop t iov [] (n_again nt) (n_tx nt fd) = (es, concat iov, int (iov_len iov), ag)" "tx_open t es"
    using send_loop_ok [OF assms, of iov "[]" "n_again nt"] by auto
  then show ?thesis by (intro exI [of _ es] exI [of _ ag]) (simp add: hev_task_io_socket_sendmsg_def)
qed

lemma sendmsg_any:
  obtains es k ag r where "hev_task_io_socket_sendmsg t nt fd iov =
      (nt\<lparr>n_tx := (n_tx nt)(fd := es), n_out := (n_out nt)(fd := n_out nt fd @ take k (concat iov)), n_again := ag\<rparr>, r)"
proof -
  obtain es out r ag where s: "send_loop t iov [] (n_again nt) (n_tx nt fd) = (es, out, r, ag)"
    by (rule prod_cases4)
  obtain k where "out = take k (concat iov)" using send_loop_prefix [OF s] by auto
  then have "hev_task_io_socket_sendmsg t nt fd iov =
      (nt\<lparr>n_tx := (n_tx nt)(fd := es), n_out := (n_out nt)(fd := n_out nt fd @ take k (concat iov)), n_again := ag\<rparr>, r)"
    using s by (simp add: hev_task_io_socket_sendmsg_def)
  then show ?thesis by (rule that)
qed

end
