(* ===== verification/Socks5Client.thy ===== *)
theory Socks5Client
  imports TaskIO
begin

text \<open>
  The SOCKS5 object (\<open>hev-socks5.c\<close>), the client (\<open>hev-socks5-client.c\<close>) and its two
  subclasses (\<open>hev-socks5-client-tcp.c\<close>, \<open>hev-socks5-client-udp.c\<close>). An object is a record
  that its subclasses extend, a class is a record of its virtual functions. A call that
  dereferences a null pointer or reads beyond a block has the result \<open>None\<close>.
\<close>

section \<open>The settings of hev-socks5-misc.c\<close>

record misc =
  connect_timeout :: int
  tcp_timeout :: int
  udp_timeout :: int
  task_stack_size :: int
  udp_recv_buffer_size :: int
  udp_copy_buffer_nums :: int

definition misc_init :: misc where
  "misc_init = \<lparr>connect_timeout = 10000, tcp_timeout = 300000, udp_timeout = 60000,
     task_stack_size = 8192, udp_recv_buffer_size = 512 * 1024, udp_copy_buffer_nums = 10\<rparr>"

definition hev_socks5_set_connect_timeout :: "misc \<Rightarrow> int \<Rightarrow> misc" where
  "hev_socks5_set_connect_timeout m v = m\<lparr>connect_timeout := v\<rparr>"

definition hev_socks5_set_tcp_timeout :: "misc \<Rightarrow> int \<Rightarrow> misc" where
  "hev_socks5_set_tcp_timeout m v = m\<lparr>tcp_timeout := v\<rparr>"

definition hev_socks5_set_udp_timeout :: "misc \<Rightarrow> int \<Rightarrow> misc" where
  "hev_socks5_set_udp_timeout m v = m\<lparr>udp_timeout := v\<rparr>"

definition hev_socks5_set_task_stack_size :: "misc \<Rightarrow> int \<Rightarrow> misc" where
  "hev_socks5_set_task_stack_size m v = m\<lparr>task_stack_size := v\<rparr>"

definition hev_socks5_set_udp_recv_buffer_size :: "misc \<Rightarrow> int \<Rightarrow> misc" where
  "hev_socks5_set_udp_recv_buffer_size m v = m\<lparr>udp_recv_buffer_size := v\<rparr>"

definition hev_socks5_set_udp_copy_buffer_nums :: "misc \<Rightarrow> int \<Rightarrow> misc" where
  "hev_socks5_set_udp_copy_buffer_nums m v = m\<lparr>udp_copy_buffer_nums := v\<rparr>"

section \<open>The SOCKS5 object\<close>

datatype HevSocks5Type = TYPE_NONE | TYPE_TCP | TYPE_UDP_IN_TCP | TYPE_UDP_IN_UDP

record HevSocks5 =
  s_fd :: int
  s_timeout :: int
  s_udp_associated :: bool
  s_type :: HevSocks5Type
  s_addr_family :: HevSocks5AddrFamily

type_synonym 's bindfn = "net \<Rightarrow> 's \<Rightarrow> int \<Rightarrow> sockaddr_in6 \<Rightarrow> net \<times> int"

definition hev_socks5_set_timeout :: "'a HevSocks5_scheme \<Rightarrow> int \<Rightarrow> 'a HevSocks5_scheme" where
  "hev_socks5_set_timeout self t = self\<lparr>s_timeout := t\<rparr>"

definition hev_socks5_get_timeout :: "'a HevSocks5_scheme \<Rightarrow> int" where
  "hev_socks5_get_timeout self = s_timeout self"

definition hev_socks5_set_addr_family :: "'a HevSocks5_scheme \<Rightarrow> HevSocks5AddrFamily \<Rightarrow> 'a HevSocks5_scheme" where
  "hev_socks5_set_addr_family self f = self\<lparr>s_addr_family := f\<rparr>"

definition hev_socks5_get_addr_family :: "'a HevSocks5_scheme \<Rightarrow> HevSocks5AddrFamily" where
  "hev_socks5_get_addr_family self = s_addr_family self"

definition hev_socks5_bind :: "'s bindfn" where
  "hev_socks5_bind nt self sock dest = (nt, 0)"

definition hev_socks5_construct :: "'a HevSocks5_scheme \<Rightarrow> HevSocks5Type \<Rightarrow> 'a HevSocks5_scheme" where
  "hev_socks5_construct self type =
     self\<lparr>s_fd := - 1, s_timeout := - 1, s_type := type, s_addr_family := FAMILY_UNSPEC\<rparr>"

text \<open>The object itself is freed.\<close>

definition hev_socks5_destruct :: "net \<Rightarrow> 'a HevSocks5_scheme \<Rightarrow> net" where
  "hev_socks5_destruct nt self =
     hev_free (if 0 \<le> s_fd self then drop_fd nt (s_fd self) else nt)"

lemmas socks5_accessors = hev_socks5_set_timeout_def hev_socks5_get_timeout_def
  hev_socks5_set_addr_family_def hev_socks5_get_addr_family_def

section \<open>The client\<close>

record HevSocks5Client = HevSocks5 +
  c_user :: "bytes option"
  c_pass :: "bytes option"

text \<open>The virtual functions: the bind hook of every SOCKS5 object and the two of clients. A method
  that calls the bind hook of its own object gets it as an argument.\<close>

record 's HevSocks5ClientClass =
  k_binder :: "'s bindfn"
  get_upstream_addr :: "net \<Rightarrow> 's \<Rightarrow> net \<times> 's \<times> bytes option"
  set_upstream_addr :: "'s bindfn \<Rightarrow> net \<Rightarrow> 's \<Rightarrow> bytes \<Rightarrow> net \<times> 's \<times> int"

definition has_creds :: "'a HevSocks5Client_scheme \<Rightarrow> bool" where
  "has_creds self \<longleftrightarrow> c_user self \<noteq> None \<and> c_pass self \<noteq> None"

definition hev_socks5_client_write_auth_methods :: "net \<Rightarrow> 'a HevSocks5Client_scheme \<Rightarrow> net \<times> int" where
  "hev_socks5_client_write_auth_methods nt self =
     (let m = (if has_creds self then HEV_SOCKS5_AUTH_METHOD_USER else HEV_SOCKS5_AUTH_METHOD_NONE) in
      case hev_task_io_socket_send (s_timeout self) nt (s_fd self) [HEV_SOCKS5_VERSION_5, 1, m] of (nt, res) \<Rightarrow>
      if res \<le> 0 then (nt, - 1) else (nt, 0))"

definition hev_socks5_client_write_auth_creds :: "net \<Rightarrow> 'a HevSocks5Client_scheme \<Rightarrow> net \<times> int" where
  "hev_socks5_client_write_auth_creds nt self =
     (case (c_user self, c_pass self) of
        (Some user, Some pass) \<Rightarrow>
          (let ub1 = of_nat (length user) :: u8; ub2 = of_nat (length pass) :: u8 in
           case hev_task_io_socket_sendmsg (s_timeout self) nt (s_fd self)
             [[HEV_SOCKS5_AUTH_VERSION_1, ub1], take (unat ub1) user, [ub2], take (unat ub2) pass] of (nt, res) \<Rightarrow>
           if res \<le> 0 then (nt, - 1) else (nt, 0))
      | _ \<Rightarrow> (nt, 0))"

definition request_cmd :: "HevSocks5Type \<Rightarrow> u8 option" where
  "request_cmd type = (case type of TYPE_TCP \<Rightarrow> Some HEV_SOCKS5_REQ_CMD_CONNECT
     | TYPE_UDP_IN_TCP \<Rightarrow> Some HEV_SOCKS5_REQ_CMD_FWD_UDP
     | TYPE_UDP_IN_UDP \<Rightarrow> Some HEV_SOCKS5_REQ_CMD_UDP_ASC
     | TYPE_NONE \<Rightarrow> None)"

definition hev_socks5_client_write_request ::
  "'a HevSocks5Client_scheme HevSocks5ClientClass \<Rightarrow> net \<Rightarrow> 'a HevSocks5Client_scheme \<Rightarrow>
   (net \<times> 'a HevSocks5Client_scheme \<times> int) option" where
  "hev_socks5_client_write_request klass nt self =
     (case request_cmd (s_type self) of None \<Rightarrow> Some (nt, self, - 1)
      | Some cmd \<Rightarrow>
        (case get_upstream_addr klass nt self of
           (nt, self, None) \<Rightarrow> None
         | (nt, self, Some addr) \<Rightarrow>
           if addr = [] then None else
           let addrlen = hev_socks5_addr_len addr in
           if addrlen < 0 then Some (nt, self, - 1)
           else if int (length addr) < addrlen then None
           else case hev_task_io_socket_sendmsg (s_timeout self) nt (s_fd self)
               [[HEV_SOCKS5_VERSION_5, cmd, 0], take (nat addrlen) addr] of (nt, ret) \<Rightarrow>
             if ret \<le> 0 then Some (nt, self, - 1) else Some (hev_free nt, self, 0)))"

definition hev_socks5_client_read_auth_method :: "net \<Rightarrow> 'a HevSocks5Client_scheme \<Rightarrow> net \<times> int" where
  "hev_socks5_client_read_auth_method nt self =
     (case hev_task_io_socket_recv (s_timeout self) nt (s_fd self) 2 of (nt, auth, res) \<Rightarrow>
      if res \<noteq> 2 then (nt, - 1)
      else if auth ! 0 \<noteq> HEV_SOCKS5_VERSION_5 then (nt, - 1)
      else (nt, uint (auth ! 1)))"

definition hev_socks5_client_read_auth_creds :: "net \<Rightarrow> 'a HevSocks5Client_scheme \<Rightarrow> net \<times> int" where
  "hev_socks5_client_read_auth_creds nt self =
     (case hev_task_io_socket_recv (s_timeout self) nt (s_fd self) 2 of (nt, bs, ret) \<Rightarrow>
      if ret \<noteq> 2 then (nt, - 1)
      else if bs ! 0 \<noteq> HEV_SOCKS5_AUTH_VERSION_1 then (nt, - 1)
      else if bs ! 1 \<noteq> HEV_SOCKS5_RES_REP_SUCC then (nt, - 1)
      else (nt, 0))"

definition hev_socks5_client_read_response ::
  "'a HevSocks5Client_scheme HevSocks5ClientClass \<Rightarrow> net \<Rightarrow> 'a HevSocks5Client_scheme \<Rightarrow>
   net \<times> 'a HevSocks5Client_scheme \<times> int" where
  "hev_socks5_client_read_response klass nt self =
     (case hev_task_io_socket_recv (s_timeout self) nt (s_fd self) 4 of (nt, bs, ret) \<Rightarrow>
      if ret \<noteq> 4 then (nt, self, - 1)
      else if bs ! 0 \<noteq> HEV_SOCKS5_VERSION_5 then (nt, self, - 1)
      else if bs ! 1 \<noteq> HEV_SOCKS5_RES_REP_SUCC then (nt, self, - 1)
      else if bs ! 3 \<noteq> HEV_SOCKS5_ADDR_TYPE_IPV4 \<and> bs ! 3 \<noteq> HEV_SOCKS5_ADDR_TYPE_IPV6 then (nt, self, - 1)
      else let addrlen = (if bs ! 3 = HEV_SOCKS5_ADDR_TYPE_IPV4 then 6 else 18) in
      case hev_task_io_socket_recv (s_timeout self) nt (s_fd self) addrlen of (nt, addr, ret) \<Rightarrow>
      if ret \<noteq> int addrlen then (nt, self, - 1)
      else case set_upstream_addr klass (k_binder klass) nt self (bs ! 3 # addr) of (nt, self, ret) \<Rightarrow>
      if ret < 0 then (nt, self, - 1) else (nt, self, 0))"

text \<open>\<open>saddr\<close> is the uninitialised local variable the name is resolved into.\<close>

definition hev_socks5_client_connect ::
  "misc \<Rightarrow> resolver \<Rightarrow> 'a HevSocks5Client_scheme HevSocks5ClientClass \<Rightarrow> sockaddr_in6 \<Rightarrow> net \<Rightarrow>
   'a HevSocks5Client_scheme \<Rightarrow> bytes \<Rightarrow> u16 \<Rightarrow> net \<times> 'a HevSocks5Client_scheme \<times> int" where
  "hev_socks5_client_connect m rs klass saddr nt self addr port =
     (let self = hev_socks5_set_timeout self (connect_timeout m) in
      case hev_socks5_name_into_sockaddr6 rs addr port saddr (hev_socks5_get_addr_family self) of (saddr, family, res) \<Rightarrow>
      if res < 0 then (nt, self, - 1) else
      case hev_socks5_socket nt SOCK_STREAM of (nt, fd) \<Rightarrow>
      if fd < 0 then (nt, self, - 1) else
      case k_binder klass nt self fd saddr of (nt, res) \<Rightarrow>
      if res < 0 then (drop_fd nt fd, self, - 1) else
      case hev_task_io_socket_connect (s_timeout self) nt fd saddr of (nt, res) \<Rightarrow>
      if res < 0 then (drop_fd nt fd, self, - 1) else
      (nt, hev_socks5_set_addr_family (self\<lparr>s_fd := fd\<rparr>) family, 0))"

definition hev_socks5_client_handshake_standard ::
  "'a HevSocks5Client_scheme HevSocks5ClientClass \<Rightarrow> net \<Rightarrow> 'a HevSocks5Client_scheme \<Rightarrow>
   (net \<times> 'a HevSocks5Client_scheme \<times> int) option" where
  "hev_socks5_client_handshake_standard klass nt self =
     (let (nt, res) = hev_socks5_client_write_auth_methods nt self in
      if res < 0 then Some (nt, self, - 1) else
      let (nt, res) = hev_socks5_client_read_auth_method nt self in
      if res < 0 then Some (nt, self, - 1) else
      let (nt, res) =
        (if res = uint HEV_SOCKS5_AUTH_METHOD_USER then
           (let (nt, res) = hev_socks5_client_write_auth_creds nt self in
            if res < 0 then (nt, - 1) else
            let (nt, res) = hev_socks5_client_read_auth_creds nt self in
            if res < 0 then (nt, - 1) else (nt, 0))
         else if res \<noteq> uint HEV_SOCKS5_AUTH_METHOD_NONE then (nt, - 1 :: int) else (nt, 0)) in
      if res < 0 then Some (nt, self, - 1) else
      do {
        (nt, self, res) \<leftarrow> hev_socks5_client_write_request klass nt self;
        if res < 0 then Some (nt, self, - 1) else
        let (nt, self, res) = hev_socks5_client_read_response klass nt self in
        if res < 0 then Some (nt, self, - 1) else Some (nt, self, 0) })"

definition hev_socks5_client_handshake_pipeline ::
  "'a HevSocks5Client_scheme HevSocks5ClientClass \<Rightarrow> net \<Rightarrow> 'a HevSocks5Client_scheme \<Rightarrow>
   (net \<times> 'a HevSocks5Client_scheme \<times> int) option" where
  "hev_socks5_client_handshake_pipeline klass nt self =
     (let (nt, res) = hev_socks5_client_write_auth_methods nt self in
      if res < 0 then Some (nt, self, - 1) else
      let (nt, res) = hev_socks5_client_write_auth_creds nt self in
      if res < 0 then Some (nt, self, - 1) else
      do {
        (nt, self, res) \<leftarrow> hev_socks5_client_write_request klass nt self;
        if res < 0 then Some (nt, self, - 1) else
        let (nt, res) = hev_socks5_client_read_auth_method nt self in
        if res < 0 then Some (nt, self, - 1) else
        let (nt, res) =
          (if res = uint HEV_SOCKS5_AUTH_METHOD_USER then
             (let (nt, res) = hev_socks5_client_read_auth_creds nt self in
              if res < 0 then (nt, - 1) else (nt, 0))
           else if res \<noteq> uint HEV_SOCKS5_AUTH_METHOD_NONE then (nt, - 1 :: int) else (nt, 0)) in
        if res < 0 then Some (nt, self, - 1) else
        let (nt, self, res) = hev_socks5_client_read_response klass nt self in
        if res < 0 then Some (nt, self, - 1) else Some (nt, self, 0) })"

definition hev_socks5_client_handshake ::
  "misc \<Rightarrow> 'a HevSocks5Client_scheme HevSocks5ClientClass \<Rightarrow> net \<Rightarrow> 'a HevSocks5Client_scheme \<Rightarrow> bool \<Rightarrow>
   (net \<times> 'a HevSocks5Client_scheme \<times> int) option" where
  "hev_socks5_client_handshake m klass nt self pipeline = do {
     let self = hev_socks5_set_timeout self (tcp_timeout m);
     (nt, self, res) \<leftarrow> (if pipeline then hev_socks5_client_handshake_pipeline klass nt self
        else hev_socks5_client_handshake_standard klass nt self);
     let self = (if s_type self = TYPE_UDP_IN_TCP \<or> s_type self = TYPE_UDP_IN_UDP
        then hev_socks5_set_timeout self (udp_timeout m) else self);
     Some (nt, self, res) }"

definition hev_socks5_client_set_auth ::
  "'a HevSocks5Client_scheme \<Rightarrow> bytes option \<Rightarrow> bytes option \<Rightarrow> 'a HevSocks5Client_scheme" where
  "hev_socks5_client_set_auth self user pass = self\<lparr>c_user := user, c_pass := pass\<rparr>"

definition hev_socks5_client_construct :: "'a HevSocks5Client_scheme \<Rightarrow> HevSocks5Type \<Rightarrow> 'a HevSocks5Client_scheme" where
  "hev_socks5_client_construct self type = hev_socks5_construct self type"

definition hev_socks5_client_destruct :: "net \<Rightarrow> 'a HevSocks5Client_scheme \<Rightarrow> net" where
  "hev_socks5_client_destruct nt self = hev_socks5_destruct nt self"

section \<open>The TCP client\<close>

record HevSocks5ClientTCP = HevSocks5Client +
  t_addr :: "bytes option"

definition zero_client_tcp :: HevSocks5ClientTCP where
  "zero_client_tcp = \<lparr>s_fd = 0, s_timeout = 0, s_udp_associated = False, s_type = TYPE_NONE,
     s_addr_family = FAMILY_UNSPEC, c_user = None, c_pass = None, t_addr = None\<rparr>"

definition hev_socks5_client_tcp_get_upstream_addr ::
  "net \<Rightarrow> 'a HevSocks5ClientTCP_scheme \<Rightarrow> net \<times> 'a HevSocks5ClientTCP_scheme \<times> bytes option" where
  "hev_socks5_client_tcp_get_upstream_addr nt self = (nt, self\<lparr>t_addr := None\<rparr>, t_addr self)"

definition hev_socks5_client_tcp_set_upstream_addr ::
  "'a HevSocks5ClientTCP_scheme bindfn \<Rightarrow> net \<Rightarrow> 'a HevSocks5ClientTCP_scheme \<Rightarrow> bytes \<Rightarrow>
   net \<times> 'a HevSocks5ClientTCP_scheme \<times> int" where
  "hev_socks5_client_tcp_set_upstream_addr b nt self addr = (nt, self, 0)"

text \<open>The copy of the address takes its length from the address; a negative length asks the
  allocator for an enormous block, which it refuses.\<close>

definition hev_socks5_client_tcp_construct ::
  "net \<Rightarrow> 'a HevSocks5ClientTCP_scheme \<Rightarrow> bytes \<Rightarrow> net \<times> 'a HevSocks5ClientTCP_scheme \<times> int" where
  "hev_socks5_client_tcp_construct nt self addr =
     (let self = hev_socks5_client_construct self TYPE_TCP; res = hev_socks5_addr_len addr in
      if res < 0 then (nt, self, - 1) else
      case hev_malloc nt of (nt, ok) \<Rightarrow>
      if \<not> ok then (nt, self, - 1) else (nt, self\<lparr>t_addr := Some (take (nat res) addr)\<rparr>, 0))"

definition client_tcp_new :: "net \<Rightarrow> bytes \<Rightarrow> net \<times> HevSocks5ClientTCP option" where
  "client_tcp_new nt addr =
     (case hev_malloc nt of (nt, ok) \<Rightarrow>
      if \<not> ok then (nt, None) else
      case hev_socks5_client_tcp_construct nt zero_client_tcp addr of (nt, self, res) \<Rightarrow>
      if res < 0 then (hev_free nt, None) else (nt, Some self))"

text \<open>\<open>buf\<close> is the uninitialised local address.\<close>

definition hev_socks5_client_tcp_new_name :: "net \<Rightarrow> bytes \<Rightarrow> bytes \<Rightarrow> u16 \<Rightarrow> (net \<times> HevSocks5ClientTCP option) option" where
  "hev_socks5_client_tcp_new_name nt buf name port = do {
     (addr, _) \<leftarrow> hev_socks5_addr_from_name buf name port;
     Some (client_tcp_new nt addr) }"

definition hev_socks5_client_tcp_new_ipv4 :: "net \<Rightarrow> bytes \<Rightarrow> bytes \<Rightarrow> u16 \<Rightarrow> net \<times> HevSocks5ClientTCP option" where
  "hev_socks5_client_tcp_new_ipv4 nt buf ipv4 port = client_tcp_new nt (fst (hev_socks5_addr_from_ipv4 buf ipv4 port))"

definition hev_socks5_client_tcp_new_ipv6 :: "net \<Rightarrow> bytes \<Rightarrow> bytes \<Rightarrow> u16 \<Rightarrow> net \<times> HevSocks5ClientTCP option" where
  "hev_socks5_client_tcp_new_ipv6 nt buf ipv6 port = client_tcp_new nt (fst (hev_socks5_addr_from_ipv6 buf ipv6 port))"

definition hev_socks5_client_tcp_destruct :: "net \<Rightarrow> 'a HevSocks5ClientTCP_scheme \<Rightarrow> net" where
  "hev_socks5_client_tcp_destruct nt self =
     hev_socks5_client_destruct (if t_addr self \<noteq> None then hev_free nt else nt) self"

definition hev_socks5_client_tcp_class :: "'a HevSocks5ClientTCP_scheme HevSocks5ClientClass" where
  "hev_socks5_client_tcp_class = \<lparr>k_binder = hev_socks5_bind,
     get_upstream_addr = hev_socks5_client_tcp_get_upstream_addr,
     set_upstream_addr = hev_socks5_client_tcp_set_upstream_addr\<rparr>"

section \<open>The UDP client\<close>

record HevSocks5ClientUDP = HevSocks5Client +
  u_fd :: int

definition zero_client_udp :: HevSocks5ClientUDP where
  "zero_client_udp = \<lparr>s_fd = 0, s_timeout = 0, s_udp_associated = False, s_type = TYPE_NONE,
     s_addr_family = FAMILY_UNSPEC, c_user = None, c_pass = None, u_fd = 0\<rparr>"

definition hev_socks5_client_udp_get_upstream_addr ::
  "net \<Rightarrow> 'a HevSocks5ClientUDP_scheme \<Rightarrow> net \<times> 'a HevSocks5ClientUDP_scheme \<times> bytes option" where
  "hev_socks5_client_udp_get_upstream_addr nt self =
     (case hev_socks5_get_addr_family self of
        FAMILY_IPV4 \<Rightarrow> (case hev_malloc nt of (nt, ok) \<Rightarrow>
          (nt, self, if ok then Some ((replicate 7 0)[0 := HEV_SOCKS5_ADDR_TYPE_IPV4]) else None))
      | FAMILY_IPV6 \<Rightarrow> (case hev_malloc nt of (nt, ok) \<Rightarrow>
          (nt, self, if ok then Some ((replicate 19 0)[0 := HEV_SOCKS5_ADDR_TYPE_IPV6]) else None))
      | FAMILY_UNSPEC \<Rightarrow> (nt, self, None))"

definition hev_socks5_client_udp_set_upstream_addr ::
  "resolver \<Rightarrow> sockaddr_in6 \<Rightarrow> 'a HevSocks5ClientUDP_scheme bindfn \<Rightarrow> net \<Rightarrow> 'a HevSocks5ClientUDP_scheme \<Rightarrow> bytes \<Rightarrow>
   net \<times> 'a HevSocks5ClientUDP_scheme \<times> int" where
  "hev_socks5_client_udp_set_upstream_addr rs saddr b nt self addr =
     (if s_type self \<noteq> TYPE_UDP_IN_UDP then (nt, self, 0) else
      case hev_socks5_addr_into_sockaddr6 rs addr saddr (hev_socks5_get_addr_family self) of (saddr, family, res) \<Rightarrow>
      if res < 0 then (nt, self, - 1) else
      case hev_socks5_socket nt SOCK_DGRAM of (nt, fd) \<Rightarrow>
      if fd < 0 then (nt, self, - 1) else
      case b nt self fd saddr of (nt, res) \<Rightarrow>
      if res < 0 then (drop_fd nt fd, self, - 1) else
      case hev_task_io_socket_connect (s_timeout self) nt fd saddr of (nt, res) \<Rightarrow>
      if res < 0 then (drop_fd nt fd, self, - 1) else
      (nt, self\<lparr>s_udp_associated := True, u_fd := fd\<rparr>, 0))"

definition hev_socks5_client_udp_get_fd :: "'a HevSocks5ClientUDP_scheme \<Rightarrow> int" where
  "hev_socks5_client_udp_get_fd self =
     (case s_type self of TYPE_UDP_IN_TCP \<Rightarrow> s_fd self | TYPE_UDP_IN_UDP \<Rightarrow> u_fd self | _ \<Rightarrow> - 1)"

definition hev_socks5_client_udp_construct :: "'a HevSocks5ClientUDP_scheme \<Rightarrow> HevSocks5Type \<Rightarrow> 'a HevSocks5ClientUDP_scheme" where
  "hev_socks5_client_udp_construct self type = (hev_socks5_client_construct self type)\<lparr>u_fd := - 1\<rparr>"

definition hev_socks5_client_udp_new :: "net \<Rightarrow> HevSocks5Type \<Rightarrow> net \<times> HevSocks5ClientUDP option" where
  "hev_socks5_client_udp_new nt type =
     (case hev_malloc nt of (nt, ok) \<Rightarrow>
      if \<not> ok then (nt, None) else (nt, Some (hev_socks5_client_udp_construct zero_client_udp type)))"

definition hev_socks5_client_udp_destruct :: "net \<Rightarrow> 'a HevSocks5ClientUDP_scheme \<Rightarrow> net" where
  "hev_socks5_client_udp_destruct nt self =
     hev_socks5_client_destruct (if 0 \<le> u_fd self then drop_fd nt (u_fd self) else nt) self"

definition hev_socks5_client_udp_class :: "resolver \<Rightarrow> sockaddr_in6 \<Rightarrow> 'a HevSocks5ClientUDP_scheme HevSocks5ClientClass" where
  "hev_socks5_client_udp_class rs saddr = \<lparr>k_binder = hev_socks5_bind,
     get_upstream_addr = hev_socks5_client_udp_get_upstream_addr,
     set_upstream_addr = hev_socks5_client_udp_set_upstream_addr rs saddr\<rparr>"

end
