(* ===== verification/ClientHandshake.thy ===== *)
theory ClientHandshake
  imports Socks5Client
begin

text \<open>
  The handshake of the SOCKS5 client as a dialogue: the messages it sends, the replies it
  accepts (as parsers of the byte stream of the server) and, for every step, that the code
  sends and consumes exactly these. The pieces in which the bytes arrive do not matter.
\<close>

section \<open>Messages and replies\<close>

text \<open>What the client sends, and the replies it accepts.\<close>

definition hello_msg :: "'a HevSocks5Client_scheme \<Rightarrow> bytes" where
  "hello_msg self = [5, 1, if has_creds self then 2 else 0]"

definition creds_msg :: "'a HevSocks5Client_scheme \<Rightarrow> bytes" where
  "creds_msg self = (case (c_user self, c_pass self) of
     (Some u, Some p) \<Rightarrow> [1, of_nat (length u)] @ u @ [of_nat (length p)] @ p | _ \<Rightarrow> [])"

definition creds_ok :: "'a HevSocks5Client_scheme \<Rightarrow> bool" where
  "creds_ok self \<longleftrightarrow> (\<forall>u \<in> set_option (c_user self). length u < 256) \<and> (\<forall>p \<in> set_option (c_pass self). length p < 256)"

fun parse_method :: "bytes \<Rightarrow> (u8 \<times> bytes) option" where
  "parse_method (v # m # r) = (if v = 5 then Some (m, r) else None)"
| "parse_method _ = None"

fun parse_creds :: "bytes \<Rightarrow> bytes option" where
  "parse_creds (v # rp # r) = (if v = 1 \<and> rp = 0 then Some r else None)"
| "parse_creds _ = None"

fun parse_auth :: "bytes \<Rightarrow> (u8 \<times> bytes) option" where
  "parse_auth s = (case parse_method s of None \<Rightarrow> None
     | Some (m, r) \<Rightarrow> if m = 2 then map_option (Pair m) (parse_creds r) else if m = 0 then Some (m, r) else None)"

fun parse_response :: "bytes \<Rightarrow> (bytes \<times> bytes) option" where
  "parse_response (v # rp # rsv # atype # r) =
     (let n = (if atype = 1 then 6 else 18) in
      if v = 5 \<and> rp = 0 \<and> (atype = 1 \<or> atype = 4) \<and> n \<le> length r then Some (atype # take n r, drop n r) else None)"
| "parse_response _ = None"

section \<open>The state of a connection\<close>

text \<open>On \<open>fd\<close> the bytes \<open>out\<close> have been sent, \<open>s\<close> can be received and sending works.\<close>

definition conn :: "int \<Rightarrow> int \<Rightarrow> net \<Rightarrow> bytes \<Rightarrow> bytes \<Rightarrow> bool" where
  "conn t fd nt out s \<longleftrightarrow> n_out nt fd = out \<and> avail t (n_rx nt fd) = s \<and> tx_open t (n_tx nt fd)"

text \<open>Only the traffic on \<open>fd\<close> differs between two states; only that and the allocator.\<close>

definition io_only :: "int \<Rightarrow> net \<Rightarrow> net \<Rightarrow> bool" where
  "io_only fd nt nt' \<longleftrightarrow> (\<exists>rx tx out ag. nt' = nt\<lparr>n_rx := (n_rx nt)(fd := rx), n_tx := (n_tx nt)(fd := tx),
     n_out := (n_out nt)(fd := out), n_again := ag\<rparr>)"

definition io_mem :: "int \<Rightarrow> net \<Rightarrow> net \<Rightarrow> bool" where
  "io_mem fd nt nt' \<longleftrightarrow> (\<exists>rx tx out mem live ag. nt' = nt\<lparr>n_rx := (n_rx nt)(fd := rx), n_tx := (n_tx nt)(fd := tx),
     n_out := (n_out nt)(fd := out), n_mem := mem, n_live := live, n_again := ag\<rparr>)"

lemma io_only_refl [simp]: "io_only fd nt nt"
  unfolding io_only_def
  by (intro exI [of _ "n_rx nt fd"] exI [of _ "n_tx nt fd"] exI [of _ "n_out nt fd"] exI [of _ "n_again nt"]) simp

lemma io_only_trans [trans]: "io_only fd nt nt' \<Longrightarrow> io_only fd nt' nt'' \<Longrightarrow> io_only fd nt nt''"
  by (force simp: io_only_def)

lemma io_only_fields:
  assumes "io_only fd nt nt'"
  shows "n_open nt' = n_open nt" "n_task nt' = n_task nt" "n_sys nt' = n_sys nt" "n_cx nt' = n_cx nt"
    "n_mem nt' = n_mem nt" "n_live nt' = n_live nt"
  using assms by (auto simp: io_only_def)

lemma io_only_sendI: "io_only fd nt (nt\<lparr>n_tx := (n_tx nt)(fd := es), n_out := (n_out nt)(fd := bs), n_again := ag\<rparr>)"
  unfolding io_only_def by (intro exI [of _ "n_rx nt fd"] exI [of _ es] exI [of _ bs] exI [of _ ag]) simp

lemma io_only_recvI: "io_only fd nt (nt\<lparr>n_rx := (n_rx nt)(fd := es), n_again := ag\<rparr>)"
  unfolding io_only_def by (intro exI [of _ es] exI [of _ "n_tx nt fd"] exI [of _ "n_out nt fd"] exI [of _ ag]) simp

lemma io_mem_only: "io_only fd nt nt' \<Longrightarrow> io_mem fd nt (nt'\<lparr>n_mem := mem, n_live := live\<rparr>)"
  unfolding io_only_def io_mem_def
  by (elim exE, rule_tac x = rx in exI, rule_tac x = tx in exI, rule_tac x = out in exI,
      rule_tac x = mem in exI, rule_tac x = live in exI, rule_tac x = ag in exI) simp

lemma io_only_mem: "io_only fd nt nt' \<Longrightarrow> io_mem fd nt nt'"
  using io_mem_only [where nt' = nt' and mem = "n_mem nt'" and live = "n_live nt'"] by simp

lemma io_mem_free: "io_only fd nt nt' \<Longrightarrow> io_mem fd nt (hev_free nt')"
  using io_mem_only [where nt' = nt' and mem = "n_mem nt'" and live = "n_live nt' - 1"] by (simp add: hev_free_def)

lemma io_mem_trans [trans]: "io_mem fd nt nt' \<Longrightarrow> io_mem fd nt' nt'' \<Longrightarrow> io_mem fd nt nt''"
  by (force simp: io_mem_def)

lemma io_mem_fields:
  assumes "io_mem fd nt nt'"
  shows "n_open nt' = n_open nt" "n_task nt' = n_task nt" "n_sys nt' = n_sys nt" "n_cx nt' = n_cx nt"
  using assms by (auto simp: io_mem_def)

lemma conn_free [simp]: "conn t fd (hev_free nt) out s \<longleftrightarrow> conn t fd nt out s"
  by (simp add: conn_def hev_free_def)

lemma conn_mem [simp]: "conn t fd (nt\<lparr>n_mem := mem, n_live := live\<rparr>) out s \<longleftrightarrow> conn t fd nt out s"
  by (simp add: conn_def)

lemma sendmsg_conn:
  assumes "conn t fd nt out s"
  shows "\<exists>nt'. hev_task_io_socket_sendmsg t nt fd iov = (nt', int (iov_len iov)) \<and> io_only fd nt nt' \<and> conn t fd nt' (out @ concat iov) s"
proof -
  obtain es ag where "hev_task_io_socket_sendmsg t nt fd iov =
      (nt\<lparr>n_tx := (n_tx nt)(fd := es), n_out := (n_out nt)(fd := n_out nt fd @ concat iov), n_again := ag\<rparr>, int (iov_len iov))"
    "tx_open t es"
    using sendmsg_ok assms unfolding conn_def by blast
  then show ?thesis using assms io_only_sendI [where fd = fd and nt = nt and es = es and ag = ag] by (auto simp: conn_def)
qed

lemma recv_conn:
  assumes "conn t fd nt out s" "0 < n"
  obtains (short) nt' bs r s' where "hev_task_io_socket_recv t nt fd n = (nt', bs, r)" "r \<noteq> int n" "length s < n"
      "io_only fd nt nt'" "conn t fd nt' out s'"
  | (full) nt' bs s' where "hev_task_io_socket_recv t nt fd n = (nt', bs, int n)" "length bs = n" "s = bs @ s'"
      "io_only fd nt nt'" "conn t fd nt' out s'"
proof (cases "length s < n")
  case True
  then obtain es ag bs r where "hev_task_io_socket_recv t nt fd n = (nt\<lparr>n_rx := (n_rx nt)(fd := es), n_again := ag\<rparr>, bs, r)" "r < int n"
    using task_recv_short [of t nt fd n] assms by (auto simp: conn_def)
  then show ?thesis using short [where bs = bs and r = r and s' = "avail t es"] True assms io_only_recvI [where fd = fd and nt = nt and es = es and ag = ag] by (simp add: conn_def)
next
  case False
  then obtain es ag where "hev_task_io_socket_recv t nt fd n = (nt\<lparr>n_rx := (n_rx nt)(fd := es), n_again := ag\<rparr>, take n s, int n)" "avail t es = drop n s"
    using task_recv_ok [of n t nt fd] assms by (auto simp: conn_def)
  then show ?thesis using full [where bs = "take n s" and s' = "drop n s"] False assms io_only_recvI [where fd = fd and nt = nt and es = es and ag = ag] by (simp add: conn_def)
qed

section \<open>The steps of the handshake\<close>

lemma write_auth_methods_conn:
  assumes "conn (s_timeout self) (s_fd self) nt out s"
  shows "\<exists>nt'. hev_socks5_client_write_auth_methods nt self = (nt', 0) \<and> io_only (s_fd self) nt nt' \<and>
    conn (s_timeout self) (s_fd self) nt' (out @ hello_msg self) s"
  using sendmsg_conn [OF assms, of "[hello_msg self]"]
  by (auto simp: hev_socks5_client_write_auth_methods_def hev_task_io_socket_send_def hello_msg_def socks5_consts iov_len_def)

lemma write_auth_creds_conn:
  assumes "conn (s_timeout self) (s_fd self) nt out s" "creds_ok self"
  shows "\<exists>nt'. hev_socks5_client_write_auth_creds nt self = (nt', 0) \<and> io_only (s_fd self) nt nt' \<and>
    conn (s_timeout self) (s_fd self) nt' (out @ creds_msg self) s"
proof (cases "has_creds self")
  case True
  then obtain u p where up: "c_user self = Some u" "c_pass self = Some p" by (auto simp: has_creds_def)
  then have "unat (of_nat (length u) :: u8) = length u" "unat (of_nat (length p) :: u8) = length p"
    using assms(2) by (simp_all add: creds_ok_def unat_of_nat take_bit_nat_eq_self)
  then show ?thesis
    using sendmsg_conn [OF assms(1), of "[[1, of_nat (length u)], u, [of_nat (length p)], p]"] up
    by (auto simp: hev_socks5_client_write_auth_creds_def creds_msg_def socks5_consts iov_len_def Let_def)
next
  case False
  then show ?thesis
    using assms(1) by (auto simp: hev_socks5_client_write_auth_creds_def creds_msg_def has_creds_def split: option.splits)
qed

lemma parse_method_append:
  "length bs = 2 \<Longrightarrow> parse_method (bs @ s) = (if bs ! 0 = 5 then Some (bs ! 1, s) else None)"
  by (cases bs; cases "tl bs") auto

lemma parse_creds_append:
  "length bs = 2 \<Longrightarrow> parse_creds (bs @ s) = (if bs ! 0 = 1 \<and> bs ! 1 = 0 then Some s else None)"
  by (cases bs; cases "tl bs") auto

lemma parse_short: "length s < 2 \<Longrightarrow> parse_method s = None" "length s < 2 \<Longrightarrow> parse_creds s = None"
  "length s < 4 \<Longrightarrow> parse_response s = None"
  by (cases s rule: parse_method.cases; simp; fail | cases s rule: parse_response.cases; simp; fail)+

lemma read_auth_method_conn:
  assumes "conn (s_timeout self) (s_fd self) nt out s"
  shows "\<exists>nt' s'. hev_socks5_client_read_auth_method nt self = (nt', case parse_method s of None \<Rightarrow> - 1 | Some (m, r) \<Rightarrow> uint m) \<and>
    io_only (s_fd self) nt nt' \<and> conn (s_timeout self) (s_fd self) nt' out s' \<and> (\<forall>m r. parse_method s = Some (m, r) \<longrightarrow> s' = r)"
  by (cases rule: recv_conn [OF assms, of 2, simplified])
    (auto simp: hev_socks5_client_read_auth_method_def parse_short parse_method_append socks5_consts)

lemma read_auth_creds_conn:
  assumes "conn (s_timeout self) (s_fd self) nt out s"
  shows "\<exists>nt' s'. hev_socks5_client_read_auth_creds nt self = (nt', if parse_creds s = None then - 1 else 0) \<and>
    io_only (s_fd self) nt nt' \<and> conn (s_timeout self) (s_fd self) nt' out s' \<and> (\<forall>r. parse_creds s = Some r \<longrightarrow> s' = r)"
  by (cases rule: recv_conn [OF assms, of 2, simplified])
    (auto simp: hev_socks5_client_read_auth_creds_def parse_short parse_creds_append socks5_consts)


lemma parse_response_append:
  "length bs = 4 \<Longrightarrow> parse_response (bs @ s) =
     (let n = (if bs ! 3 = 1 then 6 else 18) in
      if bs ! 0 = 5 \<and> bs ! 1 = 0 \<and> (bs ! 3 = 1 \<or> bs ! 3 = 4) \<and> n \<le> length s then Some (bs ! 3 # take n s, drop n s) else None)"
  by (cases "bs @ s" rule: parse_response.cases) (auto simp: Let_def length_Suc_conv numeral_eq_Suc)

lemma read_response_conn:
  assumes c: "conn (s_timeout self) (s_fd self) nt out s"
  shows "\<exists>nt' s'. hev_socks5_client_read_response klass nt self =
      (case parse_response s of None \<Rightarrow> (nt', self, - 1)
       | Some (a, r) \<Rightarrow> (case set_upstream_addr klass (k_binder klass) nt' self a of (nt2, self2, ret) \<Rightarrow>
           (nt2, self2, if ret < 0 then - 1 else 0))) \<and>
    io_only (s_fd self) nt nt' \<and> conn (s_timeout self) (s_fd self) nt' out s' \<and> (\<forall>a r. parse_response s = Some (a, r) \<longrightarrow> s' = r)"
proof (cases rule: recv_conn [OF c, of 4, simplified])
  case (1 nt1 bs r s1)
  then show ?thesis by (auto simp: hev_socks5_client_read_response_def parse_short)
next
  case (2 nt1 bs s1)
  let ?n = "if bs ! 3 = 1 then 6 else 18 :: nat"
  show ?thesis
  proof (cases "bs ! 0 = 5 \<and> bs ! 1 = 0 \<and> (bs ! 3 = 1 \<or> bs ! 3 = 4)")
    case False
    then show ?thesis using 2
      by (auto simp: hev_socks5_client_read_response_def parse_response_append socks5_consts Let_def)
  next
    case True
    have n: "0 < ?n" by simp
    show ?thesis
    proof (cases rule: recv_conn [OF 2(5) n])
      case (1 nt2 as r s2)
      with \<open>hev_task_io_socket_recv (s_timeout self) nt (s_fd self) 4 = (nt1, bs, 4)\<close> \<open>s = bs @ s1\<close> \<open>length bs = 4\<close>
        \<open>io_only (s_fd self) nt nt1\<close> True io_only_trans [of "s_fd self" nt nt1 nt2]
      show ?thesis by (auto simp: hev_socks5_client_read_response_def parse_response_append socks5_consts Let_def split: if_splits)
    next
      case (2 nt2 as s2)
      with \<open>hev_task_io_socket_recv (s_timeout self) nt (s_fd self) 4 = (nt1, bs, 4)\<close> \<open>s = bs @ s1\<close> \<open>length bs = 4\<close>
        \<open>io_only (s_fd self) nt nt1\<close> True io_only_trans [of "s_fd self" nt nt1 nt2]
      show ?thesis
        by (intro exI [of _ nt2] exI [of _ s2])
          (auto simp: hev_socks5_client_read_response_def parse_response_append socks5_consts Let_def split: if_splits prod.splits)
    qed
  qed
qed

definition request_msg :: "'a HevSocks5_scheme \<Rightarrow> dest \<Rightarrow> bytes" where
  "request_msg self d = [5, case s_type self of TYPE_TCP \<Rightarrow> 1 | TYPE_UDP_IN_TCP \<Rightarrow> 5 | _ \<Rightarrow> 3, 0] @ wire d"

lemma write_request_conn:
  assumes g: "get_upstream_addr klass nt self = (nt1, self1, Some (wire d))"
    and s1: "s_fd self1 = s_fd self" "s_timeout self1 = s_timeout self" "s_type self \<noteq> TYPE_NONE"
    and d: "dest_ok d" and c: "conn (s_timeout self) (s_fd self) nt1 out s"
  shows "\<exists>nt'. hev_socks5_client_write_request klass nt self = Some (hev_free nt', self1, 0) \<and>
    io_only (s_fd self) nt1 nt' \<and> conn (s_timeout self) (s_fd self) nt' (out @ request_msg self d) s"
proof -
  have len: "hev_socks5_addr_len (wire d) = int (length (wire d))" using length_wire [OF d, of "[]"] by simp
  have "wire d \<noteq> []" by (cases d) auto
  then show ?thesis
    using sendmsg_conn [OF c, of "[[5, case s_type self of TYPE_TCP \<Rightarrow> 1 | TYPE_UDP_IN_TCP \<Rightarrow> 5 | _ \<Rightarrow> 3, 0], wire d]"] g s1 len
    by (cases "s_type self")
      (auto simp: hev_socks5_client_write_request_def request_cmd_def request_msg_def socks5_consts iov_len_def Let_def)
qed


section \<open>The handshake\<close>

text \<open>The address of the request is at hand: the class gives it without touching the
  connection.\<close>

definition upstream :: "'a HevSocks5Client_scheme HevSocks5ClientClass \<Rightarrow> net \<Rightarrow> 'a HevSocks5Client_scheme \<Rightarrow>
    'a HevSocks5Client_scheme \<Rightarrow> dest \<Rightarrow> bool" where
  "upstream klass nt self self1 d \<longleftrightarrow> dest_ok d \<and> s_type self \<noteq> TYPE_NONE \<and>
     s_fd self1 = s_fd self \<and> s_timeout self1 = s_timeout self \<and>
     (\<forall>nt'. n_mem nt' = n_mem nt \<longrightarrow> (\<exists>mem live. get_upstream_addr klass nt' self = (nt'\<lparr>n_mem := mem, n_live := live\<rparr>, self1, Some (wire d))))"

lemma write_request_upstream:
  assumes u: "upstream klass nt self self1 d" "io_only (s_fd self) nt nt0" and c: "conn (s_timeout self) (s_fd self) nt0 out s"
  shows "\<exists>nt'. hev_socks5_client_write_request klass nt0 self = Some (nt', self1, 0) \<and>
    io_mem (s_fd self) nt nt' \<and> conn (s_timeout self1) (s_fd self1) nt' (out @ request_msg self d) s"
proof -
  obtain mem live where g: "get_upstream_addr klass nt0 self = (nt0\<lparr>n_mem := mem, n_live := live\<rparr>, self1, Some (wire d))" (is "_ = (?n, _)")
    using u(1) io_only_fields(5) [OF u(2)] unfolding upstream_def by blast
  have u': "s_fd self1 = s_fd self" "s_timeout self1 = s_timeout self" "s_type self \<noteq> TYPE_NONE" "dest_ok d"
    using u by (auto simp: upstream_def)
  obtain nt' where n: "hev_socks5_client_write_request klass nt0 self = Some (hev_free nt', self1, 0)"
    "io_only (s_fd self) ?n nt'" "conn (s_timeout self) (s_fd self) nt' (out @ request_msg self d) s"
    using write_request_conn [OF g u'] c by auto
  have "io_mem (s_fd self) nt ?n" using u(2) by (rule io_mem_only)
  also have "io_mem (s_fd self) ?n (hev_free nt')" using n(2) by (rule io_mem_free)
  finally show ?thesis using n u' by auto
qed

definition finish :: "'a HevSocks5Client_scheme HevSocks5ClientClass \<Rightarrow> net \<Rightarrow> 'a HevSocks5Client_scheme \<Rightarrow> bytes \<Rightarrow>
    net \<times> 'a HevSocks5Client_scheme \<times> int" where
  "finish klass nt self s = (case parse_response s of None \<Rightarrow> (nt, self, - 1)
     | Some (a, r) \<Rightarrow> (case set_upstream_addr klass (k_binder klass) nt self a of (nt2, self2, ret) \<Rightarrow>
           (nt2, self2, if ret < 0 then - 1 else 0)))"

lemma read_response_finish:
  assumes "conn (s_timeout self) (s_fd self) nt out s"
  shows "\<exists>nt' s'. hev_socks5_client_read_response klass nt self = finish klass nt' self s \<and>
    io_only (s_fd self) nt nt' \<and> conn (s_timeout self) (s_fd self) nt' out s' \<and> (\<forall>a r. parse_response s = Some (a, r) \<longrightarrow> s' = r)"
  using read_response_conn [OF assms, of klass] unfolding finish_def .

lemma finish_status:
  "(let (nt2, self2, res) = finish klass nt self s in if res < 0 then Some (nt2, self2, - 1) else Some (nt2, self2, 0)) =
     Some (finish klass nt self s)"
  by (auto simp: finish_def split: option.splits prod.splits)

text \<open>The bytes sent when the server chose method \<open>m\<close>.\<close>

definition auth_msgs :: "'a HevSocks5Client_scheme \<Rightarrow> u8 \<Rightarrow> bytes" where
  "auth_msgs self m = hello_msg self @ (if m = 2 then creds_msg self else [])"

lemma uint_u8_inject: "uint (m :: u8) = 2 \<longleftrightarrow> m = 2" "uint (m :: u8) = 0 \<longleftrightarrow> m = 0"
  by (simp_all add: word_uint_eq_iff)

lemma uint_u8_nonneg: "\<not> uint (m :: u8) < 0"
  by simp

lemma standard_auth_fails:
  assumes c: "conn (s_timeout self) (s_fd self) nt out s" "creds_ok self" and p: "parse_auth s = None"
  shows "\<exists>nt' out' s'. hev_socks5_client_handshake_standard klass nt self = Some (nt', self, - 1) \<and>
    io_only (s_fd self) nt nt' \<and> conn (s_timeout self) (s_fd self) nt' out' s' \<and>
    (out' = out @ hello_msg self \<or> out' = out @ hello_msg self @ creds_msg self \<and> (\<exists>r. parse_method s = Some (2, r)))"
proof -
  let ?c = "conn (s_timeout self) (s_fd self)" and ?io = "io_only (s_fd self)"
  obtain nt1 where 1: "hev_socks5_client_write_auth_methods nt self = (nt1, 0)" "?io nt nt1" "?c nt1 (out @ hello_msg self) s"
    using write_auth_methods_conn [OF c(1)] by blast
  obtain nt2 s2 where 2: "hev_socks5_client_read_auth_method nt1 self = (nt2, case parse_method s of None \<Rightarrow> - 1 | Some (m, r) \<Rightarrow> uint m)"
    "?io nt1 nt2" "?c nt2 (out @ hello_msg self) s2" "\<forall>m r. parse_method s = Some (m, r) \<longrightarrow> s2 = r"
    using read_auth_method_conn [OF 1(3)] by blast
  have io2: "?io nt nt2" using 1(2) 2(2) by (rule io_only_trans)
  show ?thesis
  proof (cases "\<exists>r. parse_method s = Some (2, r)")
    case False
    then have "hev_socks5_client_handshake_standard klass nt self = Some (nt2, self, - 1)"
      using 1 2 p by (auto simp: hev_socks5_client_handshake_standard_def uint_u8_inject socks5_consts split: option.splits)
    then show ?thesis using io2 2(3) by blast
  next
    case True
    then obtain r where r: "parse_method s = Some (2, r)" "s2 = r" "parse_creds r = None" using 2(4) p by auto
    obtain nt3 where 3: "hev_socks5_client_write_auth_creds nt2 self = (nt3, 0)" "?io nt2 nt3" "?c nt3 (out @ hello_msg self @ creds_msg self) r"
      using write_auth_creds_conn [OF 2(3) c(2)] r by auto
    obtain nt4 s4 where 4: "hev_socks5_client_read_auth_creds nt3 self = (nt4, - 1)" "?io nt3 nt4" "?c nt4 (out @ hello_msg self @ creds_msg self) s4"
      using read_auth_creds_conn [OF 3(3)] r by auto
    have "hev_socks5_client_handshake_standard klass nt self = Some (nt4, self, - 1)"
      using 1 2 3 4 r by (simp add: hev_socks5_client_handshake_standard_def uint_u8_inject socks5_consts)
    then show ?thesis using io_only_trans [OF io_only_trans [OF io2 3(2)] 4(2)] 4(3) r(1) by blast
  qed
qed

lemma standard_auth_ok:
  assumes c: "conn (s_timeout self) (s_fd self) nt out s" "creds_ok self" and p: "parse_auth s = Some (m, r)"
    and u: "upstream klass nt self self1 d"
  shows "\<exists>nt' s'. hev_socks5_client_handshake_standard klass nt self = Some (finish klass nt' self1 r) \<and>
    io_mem (s_fd self) nt nt' \<and> conn (s_timeout self) (s_fd self) nt' (out @ auth_msgs self m @ request_msg self d) s' \<and>
    (\<forall>a r'. parse_response r = Some (a, r') \<longrightarrow> s' = r')"
proof -
  let ?c = "conn (s_timeout self) (s_fd self)" and ?io = "io_only (s_fd self)"
  have u': "s_fd self1 = s_fd self" "s_timeout self1 = s_timeout self" using u by (auto simp: upstream_def)
  obtain nt1 where 1: "hev_socks5_client_write_auth_methods nt self = (nt1, 0)" "?io nt nt1" "?c nt1 (out @ hello_msg self) s"
    using write_auth_methods_conn [OF c(1)] by blast
  obtain nt2 s2 where 2: "hev_socks5_client_read_auth_method nt1 self = (nt2, case parse_method s of None \<Rightarrow> - 1 | Some (m, r) \<Rightarrow> uint m)"
    "?io nt1 nt2" "?c nt2 (out @ hello_msg self) s2" "\<forall>m r. parse_method s = Some (m, r) \<longrightarrow> s2 = r"
    using read_auth_method_conn [OF 1(3)] by blast
  have io2: "?io nt nt2" using 1(2) 2(2) by (rule io_only_trans)
  obtain nt3 where 3: "?io nt nt3" "?c nt3 (out @ auth_msgs self m) r"
    and eq: "hev_socks5_client_handshake_standard klass nt self = (do {
        (nt, self, res) \<leftarrow> hev_socks5_client_write_request klass nt3 self;
        if res < 0 then Some (nt, self, - 1) else
        let (nt, self, res) = hev_socks5_client_read_response klass nt self in
        if res < 0 then Some (nt, self, - 1) else Some (nt, self, 0) })"
  proof (cases "m = 2")
    case True
    then obtain r1 where r: "parse_method s = Some (2, r1)" "s2 = r1" "parse_creds r1 = Some r"
      using 2(4) p by (auto split: option.splits if_splits)
    obtain nt3 where 3: "hev_socks5_client_write_auth_creds nt2 self = (nt3, 0)" "?io nt2 nt3" "?c nt3 (out @ hello_msg self @ creds_msg self) r1"
      using write_auth_creds_conn [OF 2(3) c(2)] r by auto
    obtain nt4 where 4: "hev_socks5_client_read_auth_creds nt3 self = (nt4, 0)" "?io nt3 nt4" "?c nt4 (out @ hello_msg self @ creds_msg self) r"
      using read_auth_creds_conn [OF 3(3)] r by auto
    show thesis
      by (rule that [OF io_only_trans [OF io_only_trans [OF io2 3(2)] 4(2)]])
        (use 1 2 3 4 r True in \<open>simp_all add: hev_socks5_client_handshake_standard_def uint_u8_inject socks5_consts auth_msgs_def\<close>)
  next
    case False
    then have r: "parse_method s = Some (0, r)" "m = 0" "s2 = r" using 2(4) p by (auto split: option.splits if_splits)
    show thesis
      by (rule that [OF io2])
        (use 1 2 r in \<open>simp_all add: hev_socks5_client_handshake_standard_def uint_u8_inject socks5_consts auth_msgs_def\<close>)
  qed
  obtain nt4 where 4: "hev_socks5_client_write_request klass nt3 self = Some (nt4, self1, 0)" "io_mem (s_fd self) nt nt4"
    "?c nt4 (out @ auth_msgs self m @ request_msg self d) r"
    using write_request_upstream [OF u 3] u' by auto
  obtain nt5 s5 where 5: "hev_socks5_client_read_response klass nt4 self1 = finish klass nt5 self1 r"
    "?io nt4 nt5" "?c nt5 (out @ auth_msgs self m @ request_msg self d) s5" "\<forall>a r'. parse_response r = Some (a, r') \<longrightarrow> s5 = r'"
    using read_response_finish [of self1 nt4 "out @ auth_msgs self m @ request_msg self d" r klass] 4(3) u' by auto
  have "hev_socks5_client_handshake_standard klass nt self = Some (finish klass nt5 self1 r)"
    using eq 4 5(1) finish_status [of klass nt5 self1 r] by simp
  then show ?thesis using 5 io_mem_trans [OF 4(2) io_only_mem [OF 5(2)]] by blast
qed

lemma pipeline_run:
  assumes c: "conn (s_timeout self) (s_fd self) nt out s" "creds_ok self"
    and u: "upstream klass nt self self1 d"
  shows "\<exists>nt' s'. hev_socks5_client_handshake_pipeline klass nt self =
      Some (case parse_auth s of None \<Rightarrow> (nt', self1, - 1) | Some (m, r) \<Rightarrow> finish klass nt' self1 r) \<and>
    io_mem (s_fd self) nt nt' \<and> conn (s_timeout self) (s_fd self) nt' (out @ hello_msg self @ creds_msg self @ request_msg self d) s' \<and>
    (\<forall>m r a r'. parse_auth s = Some (m, r) \<longrightarrow> parse_response r = Some (a, r') \<longrightarrow> s' = r')"
proof -
  let ?c = "conn (s_timeout self) (s_fd self)" and ?io = "io_only (s_fd self)"
  let ?out = "out @ hello_msg self @ creds_msg self @ request_msg self d"
  have u': "s_fd self1 = s_fd self" "s_timeout self1 = s_timeout self" using u by (auto simp: upstream_def)
  obtain nt1 where 1: "hev_socks5_client_write_auth_methods nt self = (nt1, 0)" "?io nt nt1" "?c nt1 (out @ hello_msg self) s"
    using write_auth_methods_conn [OF c(1)] by blast
  obtain nt2 where 2: "hev_socks5_client_write_auth_creds nt1 self = (nt2, 0)" "?io nt1 nt2" "?c nt2 (out @ hello_msg self @ creds_msg self) s"
    using write_auth_creds_conn [OF 1(3) c(2)] by auto
  obtain nt3 where 3: "hev_socks5_client_write_request klass nt2 self = Some (nt3, self1, 0)" "io_mem (s_fd self) nt nt3" "?c nt3 ?out s"
    using write_request_upstream [OF u io_only_trans [OF 1(2) 2(2)] 2(3)] u' by auto
  obtain nt4 s4 where 4: "hev_socks5_client_read_auth_method nt3 self1 = (nt4, case parse_method s of None \<Rightarrow> - 1 | Some (m, r) \<Rightarrow> uint m)"
    "?io nt3 nt4" "?c nt4 ?out s4" "\<forall>m r. parse_method s = Some (m, r) \<longrightarrow> s4 = r"
    using read_auth_method_conn [of self1 nt3 ?out s] 3(3) u' by auto
  have io4: "io_mem (s_fd self) nt nt4" using 3(2) io_only_mem [OF 4(2)] by (rule io_mem_trans)
  show ?thesis
  proof (cases "\<exists>r. parse_method s = Some (2, r) \<and> parse_creds r = None")
    case True
    then obtain r nt5 s5 where r: "parse_method s = Some (2, r)" "parse_creds r = None"
      and 5: "hev_socks5_client_read_auth_creds nt4 self1 = (nt5, - 1)" "?io nt4 nt5" "?c nt5 ?out s5"
      using read_auth_creds_conn [of self1 nt4 ?out s4] 4(3,4) u' by auto
    have "hev_socks5_client_handshake_pipeline klass nt self = Some (nt5, self1, - 1)"
      using 1 2 3 4 5 r by (simp add: hev_socks5_client_handshake_pipeline_def uint_u8_inject socks5_consts)
    then show ?thesis using r 5 io_mem_trans [OF io4 io_only_mem [OF 5(2)]] by auto
  next
    case noc: False
    show ?thesis
    proof (cases "parse_auth s")
      case None
      then have "hev_socks5_client_handshake_pipeline klass nt self = Some (nt4, self1, - 1)"
        using 1 2 3 4 noc by (auto simp: hev_socks5_client_handshake_pipeline_def uint_u8_inject socks5_consts split: option.splits if_splits)
      then show ?thesis using None io4 4(3) by auto
    next
      case (Some mr)
      then obtain m r where mr: "parse_auth s = Some (m, r)" by (cases mr) auto
      obtain nt5 where 5: "io_mem (s_fd self) nt nt5" "?c nt5 ?out r"
        and eq: "hev_socks5_client_handshake_pipeline klass nt self =
          (let (nt, self, res) = hev_socks5_client_read_response klass nt5 self1 in
           if res < 0 then Some (nt, self, - 1) else Some (nt, self, 0))"
      proof (cases "m = 2")
        case True
        then obtain r1 where r: "parse_method s = Some (2, r1)" "s4 = r1" "parse_creds r1 = Some r"
          using 4(4) mr by (auto split: option.splits if_splits)
        obtain nt5 where 5: "hev_socks5_client_read_auth_creds nt4 self1 = (nt5, 0)" "?io nt4 nt5" "?c nt5 ?out r"
          using read_auth_creds_conn [of self1 nt4 ?out s4] 4(3) r u' by auto
        show thesis
          by (rule that [OF io_mem_trans [OF io4 io_only_mem [OF 5(2)]]])
            (use 1 2 3 4 5 r in \<open>simp_all add: hev_socks5_client_handshake_pipeline_def uint_u8_inject socks5_consts\<close>)
      next
        case False
        then have r: "parse_method s = Some (0, r)" "s4 = r" using 4(4) mr by (auto split: option.splits if_splits)
        show thesis
          by (rule that [OF io4])
            (use 1 2 3 4 r in \<open>simp_all add: hev_socks5_client_handshake_pipeline_def uint_u8_inject socks5_consts\<close>)
      qed
      obtain nt6 s6 where 6: "hev_socks5_client_read_response klass nt5 self1 = finish klass nt6 self1 r"
        "?io nt5 nt6" "?c nt6 ?out s6" "\<forall>a r'. parse_response r = Some (a, r') \<longrightarrow> s6 = r'"
        using read_response_finish [of self1 nt5 ?out r klass] 5(2) u' by auto
      have "hev_socks5_client_handshake_pipeline klass nt self = Some (finish klass nt6 self1 r)"
        using eq 6(1) finish_status [of klass nt6 self1 r] by simp
      then show ?thesis using mr 6 io_mem_trans [OF 5(1) io_only_mem [OF 6(2)]] by auto
    qed
  qed
qed

end
