(* ===== verification/ClientLife.thy ===== *)
theory ClientLife
  imports ClientHandshake "HOL-Library.Multiset"
begin

text \<open>
  The life of a SOCKS5 client inside a session: the contract of a client class as a locale,
  its interpretations on the classes of the program, and that whatever the network does, no
  run leaves a descriptor behind. The handshake theorems for TCP clients are here too.
\<close>

section \<open>Sessions as clients\<close>

text \<open>The part of a session that talks to the SOCKS5 server (\<open>hev-socks5-session.c\<close> and the
  virtual functions that \<open>hev-socks5-session-tcp.c\<close> and \<open>hev-socks5-session-udp.c\<close>
  override). The splicer of the session is an argument.\<close>

record HevConfigServer =
  srv_user :: "bytes option"
  srv_pass :: "bytes option"
  srv_mark :: u32
  srv_udp_in_udp :: bool
  srv_port :: u16
  srv_pipeline :: bool
  srv_udp_addr :: bytes
  srv_addr :: bytes

definition set_sock_mark :: "net \<Rightarrow> int \<Rightarrow> u32 \<Rightarrow> net \<times> int" where
  "set_sock_mark nt fd mark = syscall nt"

text \<open>\<open>hev_socks5_session_tcp_bind\<close> and \<open>hev_socks5_session_udp_bind\<close>, which are the same.\<close>

definition hev_socks5_session_bind :: "HevConfigServer \<Rightarrow> 's bindfn" where
  "hev_socks5_session_bind srv nt self fd dest =
     (if srv_mark srv \<noteq> 0 then
        (case set_sock_mark nt fd (srv_mark srv) of (nt, res) \<Rightarrow> if res < 0 then (nt, - 1) else (nt, 0))
      else (nt, 0))"

definition hev_socks5_session_tcp_class :: "HevConfigServer \<Rightarrow> 'a HevSocks5ClientTCP_scheme HevSocks5ClientClass" where
  "hev_socks5_session_tcp_class srv = hev_socks5_client_tcp_class\<lparr>k_binder := hev_socks5_session_bind srv\<rparr>"

definition hev_socks5_addr_get_port :: "bytes \<Rightarrow> u16" where
  "hev_socks5_addr_get_port addr =
     (if addr ! 0 = HEV_SOCKS5_ADDR_TYPE_IPV4 then port_at addr 5
      else if addr ! 0 = HEV_SOCKS5_ADDR_TYPE_IPV6 then port_at addr 17
      else if addr ! 0 = HEV_SOCKS5_ADDR_TYPE_NAME then port_at addr (2 + unat (addr ! 1))
      else 0)"

text \<open>The address lies in a struct of the full size whose other bytes are not initialised. The
  configured name fits its buffer, so that the struct has room for it.\<close>

definition hev_socks5_session_udp_set_upstream_addr ::
  "HevConfigServer \<Rightarrow> resolver \<Rightarrow> sockaddr_in6 \<Rightarrow> 'a HevSocks5ClientUDP_scheme bindfn \<Rightarrow> net \<Rightarrow> 'a HevSocks5ClientUDP_scheme \<Rightarrow> bytes \<Rightarrow>
   net \<times> 'a HevSocks5ClientUDP_scheme \<times> int" where
  "hev_socks5_session_udp_set_upstream_addr srv rs saddr b nt self addr =
     (if srv_udp_in_udp srv \<and> srv_udp_addr srv \<noteq> [] then
        (let port = hev_socks5_addr_get_port addr in
         case hev_socks5_addr_from_name (addr @ replicate (sizeof_addr - length addr) 0) (take 255 (srv_udp_addr srv)) port of
           None \<Rightarrow> (nt, self, - 1)
         | Some (addr, _) \<Rightarrow> hev_socks5_client_udp_set_upstream_addr rs saddr b nt self addr)
      else hev_socks5_client_udp_set_upstream_addr rs saddr b nt self addr)"

definition hev_socks5_session_udp_class ::
  "HevConfigServer \<Rightarrow> resolver \<Rightarrow> sockaddr_in6 \<Rightarrow> 'a HevSocks5ClientUDP_scheme HevSocks5ClientClass" where
  "hev_socks5_session_udp_class srv rs saddr = (hev_socks5_client_udp_class rs saddr)\<lparr>
     k_binder := hev_socks5_session_bind srv,
     set_upstream_addr := hev_socks5_session_udp_set_upstream_addr srv rs saddr\<rparr>"

definition hev_socks5_session_run ::
  "misc \<Rightarrow> resolver \<Rightarrow> 'a HevSocks5Client_scheme HevSocks5ClientClass \<Rightarrow> sockaddr_in6 \<Rightarrow> HevConfigServer \<Rightarrow>
   (net \<Rightarrow> 'a HevSocks5Client_scheme \<Rightarrow> (net \<times> 'a HevSocks5Client_scheme) option) \<Rightarrow>
   net \<Rightarrow> 'a HevSocks5Client_scheme \<Rightarrow> (net \<times> 'a HevSocks5Client_scheme) option" where
  "hev_socks5_session_run m rs klass saddr srv splicer nt self =
     (case hev_socks5_client_connect m rs klass saddr nt self (srv_addr srv) (srv_port srv) of (nt, self, res) \<Rightarrow>
      if res < 0 then Some (nt, self) else
      let self = (if srv_user srv \<noteq> None \<and> srv_pass srv \<noteq> None
                  then hev_socks5_client_set_auth self (srv_user srv) (srv_pass srv) else self) in
      do {
        (nt, self, res) \<leftarrow> hev_socks5_client_handshake m klass nt self (srv_pipeline srv);
        if res < 0 then Some (nt, self) else splicer nt self })"

section \<open>Descriptor accounting\<close>

text \<open>The process has the descriptors \<open>B\<close>, of which \<open>T\<close> are registered with the task, and
  apart from them exactly \<open>fds\<close>, all of them registered.\<close>

definition acct :: "int list \<Rightarrow> int set \<Rightarrow> net \<Rightarrow> int list \<Rightarrow> bool" where
  "acct B T nt fds \<longleftrightarrow> mset (n_open nt) = mset (B @ fds) \<and> n_task nt = T \<union> set fds \<and>
     distinct (B @ fds) \<and> T \<subseteq> set B \<and> (\<forall>fd \<in> set fds. 0 \<le> fd)"

lemma acct_frame: "acct B T nt fds \<Longrightarrow> n_open nt' = n_open nt \<Longrightarrow> n_task nt' = n_task nt \<Longrightarrow> acct B T nt' fds"
  by (simp add: acct_def)

lemma acct_io: "acct B T nt fds \<Longrightarrow> io_only fd nt nt' \<Longrightarrow> acct B T nt' fds"
  using acct_frame io_only_fields(1,2) by blast

lemma acct_io_mem: "acct B T nt fds \<Longrightarrow> io_mem fd nt nt' \<Longrightarrow> acct B T nt' fds"
  using acct_frame io_mem_fields(1,2) by blast

lemma acct_free [simp]: "acct B T (hev_free nt) fds \<longleftrightarrow> acct B T nt fds"
  by (simp add: acct_def hev_free_def)

lemma acct_open: "acct B T nt fds \<Longrightarrow> set (n_open nt) = set B \<union> set fds"
  by (metis acct_def mset_eq_setD set_append)

lemma acct_perm: "acct B T nt fds \<Longrightarrow> mset fds' = mset fds \<Longrightarrow> acct B T nt fds'"
  using mset_eq_imp_distinct_iff [of fds' fds] mset_eq_setD [of fds' fds] by (auto simp: acct_def)

lemma acct_drop:
  assumes "acct B T nt (fd # fds)"
  shows "acct B T (drop_fd nt fd) fds"
proof -
  have "fd \<notin> set B" "fd \<notin> set fds" "fd \<notin> T" using assms by (auto simp: acct_def)
  then show ?thesis using assms by (auto simp: acct_def drop_fd_def sys_close_def hev_task_del_fd_def)
qed

lemma acct_socket:
  assumes "acct B T nt fds" "hev_socks5_socket nt ty = (nt', fd)"
  shows "(fd < 0 \<and> acct B T nt' fds) \<or> (0 \<le> fd \<and> acct B T nt' (fd # fds))"
proof (cases rule: hev_socks5_socket_cases [of nt ty])
  case (1 s a)
  then show ?thesis using assms by (auto simp: acct_def)
next
  case (2 fd' s a)
  then have "fd' \<notin> set B" "fd' \<notin> set fds" using acct_open [OF assms(1)] by auto
  then show ?thesis using assms 2 by (auto simp: acct_def)
qed

lemma acct_connect:
  "acct B T nt fds \<Longrightarrow> hev_task_io_socket_connect t nt fd sa = (nt', r) \<Longrightarrow> acct B T nt' fds"
  by (auto simp: acct_def hev_task_io_socket_connect_def split: prod.splits)

section \<open>What every step may touch\<close>

lemma recv_io: "task_recv w dw t nt fd n = (nt', bs, r) \<Longrightarrow> io_only fd nt nt'"
  by (auto simp: task_recv_def intro: io_only_recvI split: prod.splits)

lemma sendmsg_io: "hev_task_io_socket_sendmsg t nt fd iov = (nt', r) \<Longrightarrow> io_only fd nt nt'"
  by (auto simp: hev_task_io_socket_sendmsg_def intro: io_only_sendI split: prod.splits)

lemma write_auth_methods_io: "hev_socks5_client_write_auth_methods nt self = (nt', r) \<Longrightarrow> io_only (s_fd self) nt nt'"
  by (auto simp: hev_socks5_client_write_auth_methods_def hev_task_io_socket_send_def Let_def
      split: prod.splits if_splits dest: sendmsg_io)

lemma write_auth_creds_io: "hev_socks5_client_write_auth_creds nt self = (nt', r) \<Longrightarrow> io_only (s_fd self) nt nt'"
  by (auto simp: hev_socks5_client_write_auth_creds_def Let_def split: prod.splits if_splits option.splits dest: sendmsg_io)

lemma read_auth_method_io: "hev_socks5_client_read_auth_method nt self = (nt', r) \<Longrightarrow> io_only (s_fd self) nt nt'"
  by (auto simp: hev_socks5_client_read_auth_method_def split: prod.splits if_splits dest: recv_io)

lemma read_auth_creds_io: "hev_socks5_client_read_auth_creds nt self = (nt', r) \<Longrightarrow> io_only (s_fd self) nt nt'"
  by (auto simp: hev_socks5_client_read_auth_creds_def split: prod.splits if_splits dest: recv_io)

lemmas client_io = write_auth_methods_io write_auth_creds_io read_auth_method_io read_auth_creds_io

section \<open>The contract of a client class\<close>

text \<open>A class says which descriptors its objects own beside that of the base object
  (\<open>extra\<close>) and when an object may receive its upstream address (\<open>ready\<close>). Its functions keep
  the accounts.\<close>

locale client_class =
  fixes klass :: "'a HevSocks5Client_scheme HevSocks5ClientClass"
    and extra :: "'a HevSocks5Client_scheme \<Rightarrow> int list"
    and ready :: "'a HevSocks5Client_scheme \<Rightarrow> bool"
  assumes get_keeps: "get_upstream_addr klass nt self = (nt', self', a) \<Longrightarrow>
      io_mem (s_fd self) nt nt' \<and> s_fd self' = s_fd self \<and> extra self' = extra self \<and> ready self' = ready self"
    and set_keeps: "acct B T nt (extra self @ fds) \<Longrightarrow> ready self \<Longrightarrow>
      set_upstream_addr klass (k_binder klass) nt self addr = (nt', self', r) \<Longrightarrow>
      s_fd self' = s_fd self \<and> acct B T nt' (extra self' @ fds)"
    and bind_keeps: "k_binder klass nt self fd sa = (nt', r) \<Longrightarrow> n_open nt' = n_open nt \<and> n_task nt' = n_task nt"
    and extra_timeout: "extra (self\<lparr>s_timeout := t\<rparr>) = extra self" "ready (self\<lparr>s_timeout := t\<rparr>) = ready self"
    and extra_connect: "extra (self\<lparr>s_fd := fd, s_addr_family := f\<rparr>) = extra self"
      "ready (self\<lparr>s_fd := fd, s_addr_family := f\<rparr>) = ready self"
begin

definition owned :: "'a HevSocks5Client_scheme \<Rightarrow> int list" where
  "owned self = extra self @ (if 0 \<le> s_fd self then [s_fd self] else [])"

lemma connect_keeps:
  assumes a: "acct B T nt (owned self)" "s_fd self < 0"
    and c: "hev_socks5_client_connect m rs klass sa nt self name port = (nt', self', r)"
  shows "acct B T nt' (owned self') \<and> ready self' = ready self"
proof -
  let ?self = "self\<lparr>s_timeout := connect_timeout m\<rparr>"
  have x: "acct B T nt (extra self)" using a by (simp add: owned_def)
  have o: "owned ?self = extra self" using a(2) by (simp add: owned_def extra_timeout)
  obtain sa1 f r1 where 1: "hev_socks5_name_into_sockaddr6 rs name port sa (s_addr_family self) = (sa1, f, r1)"
    by (rule prod_cases3)
  obtain nt2 fd where 2: "hev_socks5_socket nt SOCK_STREAM = (nt2, fd)" by (rule prod.exhaust)
  obtain nt3 r3 where 3: "k_binder klass nt2 ?self fd sa1 = (nt3, r3)" by (rule prod.exhaust)
  obtain nt4 r4 where 4: "hev_task_io_socket_connect (connect_timeout m) nt3 fd sa1 = (nt4, r4)" by (rule prod.exhaust)
  have s: "(fd < 0 \<and> acct B T nt2 (extra self)) \<or> (0 \<le> fd \<and> acct B T nt2 (fd # extra self))"
    using acct_socket [OF x 2] .
  have b: "0 \<le> fd \<Longrightarrow> acct B T nt3 (fd # extra self)" using s bind_keeps [OF 3] acct_frame by (metis not_le)
  then have k: "0 \<le> fd \<Longrightarrow> acct B T nt4 (fd # extra self)" using acct_connect [OF _ 4] by blast
  then have e: "0 \<le> fd \<Longrightarrow> acct B T nt4 (extra self @ [fd])" by (rule acct_perm) auto
  have "owned (?self\<lparr>s_fd := fd, s_addr_family := f\<rparr>) = extra self @ [fd]" if "0 \<le> fd"
    using that by (simp only: owned_def extra_connect extra_timeout) simp
  then show ?thesis
    using c x s acct_drop [OF b] acct_drop [OF k] e o
    by (auto simp: hev_socks5_client_connect_def socks5_accessors Let_def extra_timeout extra_connect 1 2 3 4 split: if_splits)
qed

lemma write_request_keeps:
  assumes w: "hev_socks5_client_write_request klass nt self = Some (nt', self', r)"
  shows "io_mem (s_fd self) nt nt' \<and> s_fd self' = s_fd self \<and> extra self' = extra self \<and> ready self' = ready self"
proof -
  obtain nt1 self1 a where g: "get_upstream_addr klass nt self = (nt1, self1, a)" by (rule prod_cases3)
  note k = get_keeps [OF g]
  have "io_mem (s_fd self) nt1 nt2" "io_mem (s_fd self) nt1 (hev_free nt2)"
    if "hev_task_io_socket_sendmsg t nt1 (s_fd self) iov = (nt2, r2)" for t iov nt2 r2
    using sendmsg_io [OF that] io_only_mem io_mem_free by blast+
  then show ?thesis
    using w k io_only_mem [OF io_only_refl, of "s_fd self" nt] io_mem_trans [of "s_fd self" nt nt1]
    by (auto simp: hev_socks5_client_write_request_def g Let_def split: option.splits if_splits prod.splits)
qed

lemma read_response_keeps:
  assumes a: "acct B T nt (owned self)" "ready self"
    and r: "hev_socks5_client_read_response klass nt self = (nt', self', r)"
  shows "acct B T nt' (owned self')"
proof -
  obtain nt1 bs r1 where 1: "hev_task_io_socket_recv (s_timeout self) nt (s_fd self) 4 = (nt1, bs, r1)" by (rule prod_cases3)
  let ?n = "if bs ! 3 = HEV_SOCKS5_ADDR_TYPE_IPV4 then 6 else 18 :: nat"
  obtain nt2 ad r2 where 2: "hev_task_io_socket_recv (s_timeout self) nt1 (s_fd self) ?n = (nt2, ad, r2)" by (rule prod_cases3)
  obtain nt3 self3 r3 where 3: "set_upstream_addr klass (k_binder klass) nt2 self (bs ! 3 # ad) = (nt3, self3, r3)" by (rule prod_cases3)
  have a1: "acct B T nt1 (owned self)" using a(1) recv_io [OF 1] by (rule acct_io)
  have a2: "acct B T nt2 (owned self)" using a1 recv_io [OF 2] by (rule acct_io)
  then have "s_fd self3 = s_fd self \<and> acct B T nt3 (extra self3 @ (if 0 \<le> s_fd self then [s_fd self] else []))"
    using set_keeps [OF _ a(2) 3] by (simp add: owned_def)
  then have a3: "acct B T nt3 (owned self3)" by (auto simp: owned_def)
  from r show ?thesis
    unfolding hev_socks5_client_read_response_def 1 Let_def prod.case 2 3
    using a1 a2 a3 by (auto split: if_splits)
qed

lemma request_response_keeps:
  assumes a: "acct B T nt (owned self)" "ready self"
    and w: "hev_socks5_client_write_request klass nt self = Some (nt1, self1, r1)"
  shows "acct B T nt1 (owned self1)" "ready self1" "s_fd self1 = s_fd self"
    "hev_socks5_client_read_response klass nt1 self1 = (nt2, self2, r2) \<Longrightarrow> acct B T nt2 (owned self2)"
proof -
  note k = write_request_keeps [OF w]
  then show 1: "acct B T nt1 (owned self1)" "ready self1" "s_fd self1 = s_fd self"
    using a acct_io_mem by (auto simp: owned_def)
  show "acct B T nt2 (owned self2)" if "hev_socks5_client_read_response klass nt1 self1 = (nt2, self2, r2)"
    using read_response_keeps [OF 1(1,2) that] .
qed

lemma standard_keeps:
  assumes a: "acct B T nt (owned self)" "ready self"
    and h: "hev_socks5_client_handshake_standard klass nt self = Some (nt', self', r)"
  shows "acct B T nt' (owned self')"
proof -
  obtain nt1 r1 where 1: "hev_socks5_client_write_auth_methods nt self = (nt1, r1)" by (rule prod.exhaust)
  obtain nt2 r2 where 2: "hev_socks5_client_read_auth_method nt1 self = (nt2, r2)" by (rule prod.exhaust)
  obtain nt3 r3 where 3: "hev_socks5_client_write_auth_creds nt2 self = (nt3, r3)" by (rule prod.exhaust)
  obtain nt4 r4 where 4: "hev_socks5_client_read_auth_creds nt3 self = (nt4, r4)" by (rule prod.exhaust)
  have a1: "acct B T nt1 (owned self)" using a(1) client_io(1) [OF 1] by (rule acct_io)
  have a2: "acct B T nt2 (owned self)" using a1 client_io(3) [OF 2] by (rule acct_io)
  have a3: "acct B T nt3 (owned self)" using a2 client_io(2) [OF 3] by (rule acct_io)
  have a4: "acct B T nt4 (owned self)" using a3 client_io(4) [OF 4] by (rule acct_io)
  note k2 = request_response_keeps [OF a2 a(2)] and k4 = request_response_keeps [OF a4 a(2)]
  show ?thesis
    using h a1 a2 a3 a4
    by (auto simp: hev_socks5_client_handshake_standard_def Let_def 1 2 3 4 bind_eq_Some_conv
        split: if_splits prod.splits dest: k2 k4)
qed

lemma pipeline_keeps:
  assumes a: "acct B T nt (owned self)" "ready self"
    and h: "hev_socks5_client_handshake_pipeline klass nt self = Some (nt', self', r)"
  shows "acct B T nt' (owned self')"
proof -
  obtain nt1 r1 where 1: "hev_socks5_client_write_auth_methods nt self = (nt1, r1)" by (rule prod.exhaust)
  obtain nt2 r2 where 2: "hev_socks5_client_write_auth_creds nt1 self = (nt2, r2)" by (rule prod.exhaust)
  have a1: "acct B T nt1 (owned self)" using a(1) client_io(1) [OF 1] by (rule acct_io)
  have a2: "acct B T nt2 (owned self)" using a1 client_io(2) [OF 2] by (rule acct_io)
  show ?thesis
  proof (cases "r1 < 0 \<or> r2 < 0")
    case True
    then show ?thesis using h a1 a2 by (auto simp: hev_socks5_client_handshake_pipeline_def Let_def 1 2 split: if_splits)
  next
    case False
    then obtain nt3 self3 r3 where 3: "hev_socks5_client_write_request klass nt2 self = Some (nt3, self3, r3)"
      using h by (auto simp: hev_socks5_client_handshake_pipeline_def 1 2 bind_eq_Some_conv)
    note k = request_response_keeps [OF a2 a(2) 3]
    obtain nt4 r4 where 4: "hev_socks5_client_read_auth_method nt3 self3 = (nt4, r4)" by (rule prod.exhaust)
    obtain nt5 r5 where 5: "hev_socks5_client_read_auth_creds nt4 self3 = (nt5, r5)" by (rule prod.exhaust)
    have a4: "acct B T nt4 (owned self3)" using k(1) client_io(3) [OF 4] by (rule acct_io)
    have a5: "acct B T nt5 (owned self3)" using a4 client_io(4) [OF 5] by (rule acct_io)
    show ?thesis
      using h k a4 a5 False read_response_keeps [OF a4 k(2)] read_response_keeps [OF a5 k(2)]
      by (auto simp: hev_socks5_client_handshake_pipeline_def Let_def 1 2 3 4 5 split: if_splits prod.splits)
  qed
qed

lemma handshake_keeps:
  assumes a: "acct B T nt (owned self)" "ready self"
    and h: "hev_socks5_client_handshake m klass nt self pipeline = Some (nt', self', r)"
  shows "acct B T nt' (owned self')"
proof -
  let ?self = "self\<lparr>s_timeout := tcp_timeout m\<rparr>"
  have o: "owned (x\<lparr>s_timeout := t\<rparr>) = owned x" for x t by (simp add: owned_def extra_timeout)
  obtain nt1 self1 r1 where 1: "(if pipeline then hev_socks5_client_handshake_pipeline klass nt ?self
        else hev_socks5_client_handshake_standard klass nt ?self) = Some (nt1, self1, r1)"
    using h by (auto simp: hev_socks5_client_handshake_def socks5_accessors Let_def bind_eq_Some_conv)
  have "acct B T nt1 (owned self1)"
    using 1 a standard_keeps [of B T nt ?self nt1 self1 r1] pipeline_keeps [of B T nt ?self nt1 self1 r1]
    by (cases pipeline) (simp_all add: o extra_timeout)
  then show ?thesis
    using h 1 o by (cases pipeline) (auto simp: hev_socks5_client_handshake_def socks5_accessors Let_def split: if_splits)
qed

lemma session_run_keeps:
  assumes a: "acct B T nt (owned self)" "s_fd self < 0" "ready self"
    and auth: "\<And>x u p. extra (x\<lparr>c_user := u, c_pass := p\<rparr>) = extra x \<and> ready (x\<lparr>c_user := u, c_pass := p\<rparr>) = ready x"
    and sp: "\<And>nt1 self1 nt2 self2. splicer nt1 self1 = Some (nt2, self2) \<Longrightarrow> acct B T nt1 (owned self1) \<Longrightarrow> acct B T nt2 (owned self2)"
    and r: "hev_socks5_session_run m rs klass sa srv splicer nt self = Some (nt', self')"
  shows "acct B T nt' (owned self')"
proof -
  obtain nt1 self1 r1 where 1: "hev_socks5_client_connect m rs klass sa nt self (srv_addr srv) (srv_port srv) = (nt1, self1, r1)"
    by (rule prod_cases3)
  note k = connect_keeps [OF a(1,2) 1]
  let ?self = "if srv_user srv \<noteq> None \<and> srv_pass srv \<noteq> None
      then hev_socks5_client_set_auth self1 (srv_user srv) (srv_pass srv) else self1"
  have "owned (self1\<lparr>c_user := u, c_pass := p\<rparr>) = owned self1" for u p
    using auth [where x = self1] by (simp add: owned_def)
  then have o: "acct B T nt1 (owned ?self)" "ready ?self"
    using k a(3) auth [where x = self1] by (simp_all add: hev_socks5_client_set_auth_def)
  define x where "x = ?self"
  have r': "(if r1 < 0 then Some (nt1, self1) else
      do { (nt, self, res) \<leftarrow> hev_socks5_client_handshake m klass nt1 x (srv_pipeline srv);
           if res < 0 then Some (nt, self) else splicer nt self }) = Some (nt', self')"
    using r unfolding hev_socks5_session_run_def 1 prod.case Let_def x_def .
  show ?thesis
  proof (cases "r1 < 0")
    case True
    then show ?thesis using r' k by simp
  next
    case False
    then obtain nt2 self2 r2 where 2: "hev_socks5_client_handshake m klass nt1 x (srv_pipeline srv) = Some (nt2, self2, r2)"
      using r' by (auto simp: bind_eq_Some_conv)
    show ?thesis
      using r' False handshake_keeps [OF o [folded x_def] 2] sp [of nt2 self2 nt' self'] by (simp add: 2 split: if_splits)
  qed
qed

end

section \<open>The classes keep the contract\<close>

lemma bind_frame:
  "hev_socks5_session_bind srv nt self fd sa = (nt', r) \<Longrightarrow> n_open nt' = n_open nt \<and> n_task nt' = n_task nt"
  by (cases rule: syscall_cases [of nt]) (auto simp: hev_socks5_session_bind_def set_sock_mark_def split: if_splits)

lemma tcp_get_keeps:
  "hev_socks5_client_tcp_get_upstream_addr nt self = (nt', self', a) \<Longrightarrow> io_mem (s_fd self) nt nt' \<and> s_fd self' = s_fd self"
  using io_only_mem [OF io_only_refl, of "s_fd self" nt] by (auto simp: hev_socks5_client_tcp_get_upstream_addr_def)

interpretation ctcp: client_class hev_socks5_client_tcp_class "\<lambda>_. []" "\<lambda>_. True"
  by unfold_locales
    (auto simp: hev_socks5_client_tcp_class_def hev_socks5_client_tcp_set_upstream_addr_def hev_socks5_bind_def dest: tcp_get_keeps)

interpretation stcp: client_class "hev_socks5_session_tcp_class srv" "\<lambda>_. []" "\<lambda>_. True" for srv
  by unfold_locales
    (auto simp: hev_socks5_session_tcp_class_def hev_socks5_client_tcp_class_def hev_socks5_client_tcp_set_upstream_addr_def
      dest: tcp_get_keeps bind_frame)

definition udp_extra :: "'a HevSocks5ClientUDP_scheme \<Rightarrow> int list" where
  "udp_extra self = (if 0 \<le> u_fd self then [u_fd self] else [])"

lemma udp_set_keeps:
  assumes a: "acct B T nt (udp_extra self @ fds)" "u_fd self < 0"
    and b: "\<And>nt x fd sa nt' r. bnd nt x fd sa = (nt', r) \<Longrightarrow> n_open nt' = n_open nt \<and> n_task nt' = n_task nt"
    and s: "hev_socks5_client_udp_set_upstream_addr rs sa bnd nt self addr = (nt', self', r)"
  shows "s_fd self' = s_fd self \<and> acct B T nt' (udp_extra self' @ fds)"
proof -
  have x: "acct B T nt fds" using a by (simp add: udp_extra_def)
  obtain sa1 f r1 where 1: "hev_socks5_addr_into_sockaddr6 rs addr sa (s_addr_family self) = (sa1, f, r1)"
    by (rule prod_cases3)
  obtain nt2 fd where 2: "hev_socks5_socket nt SOCK_DGRAM = (nt2, fd)" by (rule prod.exhaust)
  obtain nt3 r3 where 3: "bnd nt2 self fd sa1 = (nt3, r3)" by (rule prod.exhaust)
  obtain nt4 r4 where 4: "hev_task_io_socket_connect (s_timeout self) nt3 fd sa1 = (nt4, r4)" by (rule prod.exhaust)
  have k0: "(fd < 0 \<and> acct B T nt2 fds) \<or> (0 \<le> fd \<and> acct B T nt2 (fd # fds))" using acct_socket [OF x 2] .
  have k: "acct B T nt3 (fd # fds)" if "0 \<le> fd" using k0 that acct_frame [of B T nt2 "fd # fds" nt3] b [OF 3] by auto
  have e: "acct B T nt4 (fd # fds)" if "0 \<le> fd"
  proof (rule acct_connect [OF _ 4])
    show "acct B T nt3 (fd # fds)" using k that by simp
  qed
  have d: "acct B T (drop_fd nt4 fd) fds" if "0 \<le> fd" using acct_drop [OF e [OF that]] .
  have d3: "acct B T (drop_fd nt3 fd) fds" if "0 \<le> fd" using acct_drop [OF k [OF that]] .
  show ?thesis
    using s a(2) x k0 e d d3
    by (auto simp: hev_socks5_client_udp_set_upstream_addr_def socks5_accessors udp_extra_def 1 2 3 4 split: if_splits)
qed

lemma udp_get_keeps:
  assumes "hev_socks5_client_udp_get_upstream_addr nt self = (nt', self', a)"
  shows "io_mem (s_fd self) nt nt' \<and> self' = self"
proof -
  have m: "io_mem (s_fd self) nt nt1" if "hev_malloc nt = (nt1, ok)" for nt1 ok
  proof -
    have "nt1 = nt\<lparr>n_mem := tl (n_mem nt), n_live := n_live nt1\<rparr>"
      using that by (auto simp: hev_malloc_def split: list.splits if_splits)
    then show ?thesis using io_mem_only [OF io_only_refl] by metis
  qed
  show ?thesis
    using assms m io_only_mem [OF io_only_refl, of "s_fd self" nt]
    by (auto simp: hev_socks5_client_udp_get_upstream_addr_def split: HevSocks5AddrFamily.splits prod.splits)
qed

interpretation cudp: client_class "hev_socks5_client_udp_class rs sa" udp_extra "\<lambda>self. u_fd self < 0" for rs sa
proof
  fix B T nt fds r addr nt' and self self' :: "'b HevSocks5ClientUDP_scheme"
  assume "acct B T nt (udp_extra self @ fds)" "u_fd self < 0"
    "set_upstream_addr (hev_socks5_client_udp_class rs sa) (k_binder (hev_socks5_client_udp_class rs sa)) nt self addr = (nt', self', r)"
  then show "s_fd self' = s_fd self \<and> acct B T nt' (udp_extra self' @ fds)"
    by (intro udp_set_keeps [where bnd = hev_socks5_bind and nt = nt and self = self])
      (auto simp: hev_socks5_client_udp_class_def hev_socks5_bind_def)
next
  fix nt nt' a and self self' :: "'b HevSocks5ClientUDP_scheme"
  assume "get_upstream_addr (hev_socks5_client_udp_class rs sa) nt self = (nt', self', a)"
  then show "io_mem (s_fd self) nt nt' \<and> s_fd self' = s_fd self \<and> udp_extra self' = udp_extra self \<and>
      (u_fd self' < 0) = (u_fd self < 0)"
    using udp_get_keeps [of nt self nt' self' a] by (simp add: hev_socks5_client_udp_class_def)
qed (simp_all add: hev_socks5_client_udp_class_def hev_socks5_bind_def udp_extra_def)

interpretation sudp: client_class "hev_socks5_session_udp_class srv rs sa" udp_extra "\<lambda>self. u_fd self < 0" for srv rs sa
proof
  fix B T nt fds r addr nt' and self self' :: "'b HevSocks5ClientUDP_scheme"
  assume a: "acct B T nt (udp_extra self @ fds)" "u_fd self < 0"
    "set_upstream_addr (hev_socks5_session_udp_class srv rs sa) (k_binder (hev_socks5_session_udp_class srv rs sa)) nt self addr = (nt', self', r)"
  have k: "s_fd self' = s_fd self \<and> acct B T nt' (udp_extra self' @ fds)"
    if "hev_socks5_client_udp_set_upstream_addr rs sa (hev_socks5_session_bind srv) nt self ad = (nt', self', r)" for ad
    using udp_set_keeps [OF a(1,2) bind_frame that] .
  show "s_fd self' = s_fd self \<and> acct B T nt' (udp_extra self' @ fds)"
    using a k by (simp add: hev_socks5_session_udp_class_def hev_socks5_session_udp_set_upstream_addr_def
        Let_def split: if_splits option.splits prod.splits)
next
  fix nt nt' a and self self' :: "'b HevSocks5ClientUDP_scheme"
  assume "get_upstream_addr (hev_socks5_session_udp_class srv rs sa) nt self = (nt', self', a)"
  then show "io_mem (s_fd self) nt nt' \<and> s_fd self' = s_fd self \<and> udp_extra self' = udp_extra self \<and>
      (u_fd self' < 0) = (u_fd self < 0)"
    using udp_get_keeps [of nt self nt' self' a]
    by (simp add: hev_socks5_session_udp_class_def hev_socks5_client_udp_class_def)
next
  fix nt nt' r fd sa' and self :: "'b HevSocks5ClientUDP_scheme"
  assume "k_binder (hev_socks5_session_udp_class srv rs sa) nt self fd sa' = (nt', r)"
  then show "n_open nt' = n_open nt \<and> n_task nt' = n_task nt"
    using bind_frame by (simp add: hev_socks5_session_udp_class_def)
qed (simp_all add: udp_extra_def)

section \<open>TCP clients\<close>

definition tcp_client :: "'a HevSocks5ClientTCP_scheme \<Rightarrow> dest \<Rightarrow> bool" where
  "tcp_client self d \<longleftrightarrow> s_type self = TYPE_TCP \<and> t_addr self = Some (wire d) \<and> dest_ok d \<and> creds_ok self"

lemma tcp_upstream:
  "tcp_client self d \<Longrightarrow> upstream hev_socks5_client_tcp_class nt self (self\<lparr>t_addr := None\<rparr>) d"
  unfolding upstream_def
proof (intro conjI allI impI)
  fix nt' :: net
  assume "tcp_client self d"
  then show "\<exists>mem live. get_upstream_addr hev_socks5_client_tcp_class nt' self =
      (nt'\<lparr>n_mem := mem, n_live := live\<rparr>, self\<lparr>t_addr := None\<rparr>, Some (wire d))"
    by (intro exI [of _ "n_mem nt'"] exI [of _ "n_live nt'"])
      (simp add: tcp_client_def hev_socks5_client_tcp_class_def hev_socks5_client_tcp_get_upstream_addr_def)
qed (simp_all add: tcp_client_def)

lemma tcp_finish [simp]:
  "finish hev_socks5_client_tcp_class nt self s = (nt, self, if parse_response s = None then - 1 else 0)"
  by (auto simp: finish_def hev_socks5_client_tcp_class_def hev_socks5_client_tcp_set_upstream_addr_def split: option.splits)

lemma msgs_timeout [simp]:
  "hello_msg (self\<lparr>s_timeout := t\<rparr>) = hello_msg self" "creds_msg (self\<lparr>s_timeout := t\<rparr>) = creds_msg self"
  "auth_msgs (self\<lparr>s_timeout := t\<rparr>) c = auth_msgs self c" "request_msg (self\<lparr>s_timeout := t\<rparr>) d = request_msg self d"
  "tcp_client (self\<lparr>s_timeout := t\<rparr>) d = tcp_client self d" "creds_ok (self\<lparr>s_timeout := t\<rparr>) = creds_ok self"
  by (simp_all add: hello_msg_def creds_msg_def auth_msgs_def request_msg_def tcp_client_def creds_ok_def has_creds_def)

text \<open>C26. The handshake of a TCP client, whatever the server sends and however its bytes are cut
  into pieces: the client greets, sends its credentials only when the server asked for them and
  its request only when the server has accepted it, and reports success exactly when the
  replies are well formed and positive. Then it has consumed the replies and nothing more, so
  that the payload that follows is untouched.\<close>

theorem client_tcp_handshake:
  assumes "tcp_client self d" "conn (tcp_timeout m) (s_fd self) nt out s"
  shows "\<exists>nt' self' res. hev_socks5_client_handshake m hev_socks5_client_tcp_class nt self False = Some (nt', self', res) \<and>
    n_open nt' = n_open nt \<and>
    (case parse_auth s of
       None \<Rightarrow> res = - 1 \<and> (n_out nt' (s_fd self) = out @ hello_msg self \<or>
         n_out nt' (s_fd self) = out @ hello_msg self @ creds_msg self \<and> (\<exists>r. parse_method s = Some (2, r)))
     | Some (c, r) \<Rightarrow> n_out nt' (s_fd self) = out @ auth_msgs self c @ request_msg self d \<and>
         (case parse_response r of None \<Rightarrow> res = - 1
          | Some (a, rest) \<Rightarrow> res = 0 \<and> avail (tcp_timeout m) (n_rx nt' (s_fd self)) = rest))"
proof -
  let ?self = "self\<lparr>s_timeout := tcp_timeout m\<rparr>"
  have t: "tcp_client ?self d" "s_type self = TYPE_TCP" using assms(1) by (simp_all add: tcp_client_def)
  have c: "conn (s_timeout ?self) (s_fd ?self) nt out s" "creds_ok ?self" using assms by (simp_all add: tcp_client_def)
  show ?thesis
  proof (cases "parse_auth s")
    case None
    then show ?thesis
      using standard_auth_fails [OF c None, of hev_socks5_client_tcp_class] t(2)
      by (auto simp: hev_socks5_client_handshake_def socks5_accessors conn_def dest: io_only_fields)
  next
    case (Some cr)
    then obtain c0 r where cr: "parse_auth s = Some (c0, r)" by (cases cr) auto
    obtain nt' s' where "hev_socks5_client_handshake_standard hev_socks5_client_tcp_class nt ?self =
        Some (nt', ?self\<lparr>t_addr := None\<rparr>, if parse_response r = None then - 1 else 0)"
      "io_mem (s_fd self) nt nt'" "conn (tcp_timeout m) (s_fd self) nt' (out @ auth_msgs self c0 @ request_msg self d) s'"
      "\<forall>a r'. parse_response r = Some (a, r') \<longrightarrow> s' = r'"
      using standard_auth_ok [OF c cr tcp_upstream [OF t(1)]] by auto
    then show ?thesis
      using t(2) cr io_mem_fields(1)
      by (cases "parse_response r") (auto simp: hev_socks5_client_handshake_def socks5_accessors conn_def simp del: parse_auth.simps)
  qed
qed



section \<open>No descriptor is left behind\<close>

definition fds_ok :: "net \<Rightarrow> bool" where
  "fds_ok nt \<longleftrightarrow> distinct (n_open nt) \<and> n_task nt \<subseteq> set (n_open nt)"

lemma acct_start: "fds_ok nt \<Longrightarrow> acct (n_open nt) (n_task nt) nt []"
  by (simp add: acct_def fds_ok_def)

lemma acct_end: "acct B T nt [] \<Longrightarrow> mset (n_open nt) = mset B \<and> n_task nt = T"
  by (simp add: acct_def)

lemma destruct_keeps:
  assumes "acct B T nt (fds @ (if 0 \<le> s_fd self then [s_fd self] else []))"
  shows "acct B T (hev_socks5_destruct nt self) fds"
proof (cases "0 \<le> s_fd self")
  case True
  then have "acct B T nt (s_fd self # fds)" using assms acct_perm [of B T nt "fds @ [s_fd self]" "s_fd self # fds"] by simp
  then show ?thesis using True acct_drop by (simp add: hev_socks5_destruct_def)
next
  case False
  then show ?thesis using assms by (simp add: hev_socks5_destruct_def)
qed




section \<open>Witnesses\<close>

text \<open>A process without descriptors whose first socket becomes \<open>fd\<close> 0.\<close>

definition quiet_net :: "(int \<Rightarrow> rxev list) \<Rightarrow> net" where
  "quiet_net rx = \<lparr>n_open = [], n_task = {}, n_rx = rx, n_tx = (\<lambda>_. []), n_out = (\<lambda>_. []), n_drx = (\<lambda>_. []),
     n_dtx = (\<lambda>_. []), n_dout = (\<lambda>_. []), n_names = [], n_cx = [], n_sys = [], n_mem = [], n_live = 0, n_again = False\<rparr>"

definition example_client :: HevSocks5ClientTCP where
  "example_client = zero_client_tcp\<lparr>s_type := TYPE_TCP, t_addr := Some (wire (Ipv4 [10, 0, 0, 1] 80))\<rparr>"

definition example_reply :: "rxev list" where
  "example_reply = [Chunk [5], RWait 10, Chunk [0, 5, 0, 0], Chunk [1, 0, 0, 0, 0, 0, 0, 42]]"

lemma example_conn: "conn 300000 0 (quiet_net (\<lambda>_. example_reply)) [] [5, 0, 5, 0, 0, 1, 0, 0, 0, 0, 0, 0, 42]"
  by (simp add: conn_def quiet_net_def example_reply_def tx_open_def)

lemma example_tcp_client: "tcp_client example_client (Ipv4 [10, 0, 0, 1] 80)"
  by (simp add: tcp_client_def example_client_def zero_client_tcp_def creds_ok_def)

lemma client_tcp_handshake_witness:
  "\<exists>nt' self'. hev_socks5_client_handshake misc_init hev_socks5_client_tcp_class (quiet_net (\<lambda>_. example_reply)) example_client False =
     Some (nt', self', 0) \<and> n_out nt' 0 = [5, 1, 0] @ [5, 1, 0] @ wire (Ipv4 [10, 0, 0, 1] 80) \<and>
     avail 300000 (n_rx nt' 0) = [42]"
proof -
  have "s_fd example_client = 0" "s_type example_client = TYPE_TCP" "tcp_timeout misc_init = 300000"
    "hello_msg example_client = [5, 1, 0]" "creds_msg example_client = []"
    by (simp_all add: example_client_def zero_client_tcp_def misc_init_def hello_msg_def creds_msg_def has_creds_def)
  then show ?thesis
    using client_tcp_handshake [OF example_tcp_client, of misc_init "quiet_net (\<lambda>_. example_reply)" "[]" "[5, 0, 5, 0, 0, 1, 0, 0, 0, 0, 0, 0, 42]"]
      example_conn
    by (auto simp: auth_msgs_def request_msg_def)
qed


definition example_server :: HevConfigServer where
  "example_server = \<lparr>srv_user = None, srv_pass = None, srv_mark = 0, srv_udp_in_udp = False, srv_port = 1080,
     srv_pipeline = False, srv_udp_addr = [], srv_addr = [120]\<rparr>"



end
