(* ===== verification/Authenticator.thy ===== *)
theory Authenticator
  imports RBTreeProps
begin

text \<open>
  Users and the authenticator of the SOCKS5 server (\<open>hev-socks5-user.c\<close>,
  \<open>hev-socks5-authenticator.c\<close>): a red-black tree of user objects ordered by the length and
  the bytes of their names. Users and the authenticator are reference counted objects. The
  live user objects are in \<open>a_users\<close>; their tree nodes are in the heap of the tree, at the
  same addresses. \<open>None\<close> is an access outside a live object or a loop out of fuel.
\<close>

section \<open>Users\<close>

record HevSocks5User =
  us_name :: bytes
  us_pass :: bytes
  us_ref :: nat

record HevSocks5Authenticator =
  a_tree :: HevRBTree
  a_users :: "addr \<rightharpoonup> HevSocks5User"
  a_ref :: nat

text \<open>The sign of \<open>memcmp\<close> on two blocks of the same length.\<close>

fun memcmp :: "bytes \<Rightarrow> bytes \<Rightarrow> int" where
  "memcmp (x # xs) (y # ys) = (if x = y then memcmp xs ys else uint x - uint y)"
| "memcmp _ _ = 0"

definition hev_socks5_user_construct :: "bytes \<Rightarrow> bytes \<Rightarrow> HevSocks5User" where
  "hev_socks5_user_construct name pass = \<lparr>us_name = name, us_pass = pass, us_ref = 1\<rparr>"

text \<open>\<open>self\<close> is what \<open>calloc\<close> returned.\<close>

definition hev_socks5_user_new :: "HevSocks5Authenticator \<Rightarrow> addr \<Rightarrow> bytes \<Rightarrow> bytes \<Rightarrow> HevSocks5Authenticator \<times> addr" where
  "hev_socks5_user_new a self name pass =
     (if self = 0 then (a, 0) else
      (a\<lparr>a_users := (a_users a)(self \<mapsto> hev_socks5_user_construct name pass),
         a_tree := (a_tree a)\<lparr>nodes := (nodes (a_tree a))(self \<mapsto> \<lparr>parent_color = 0, n_right = 0, n_left = 0\<rparr>)\<rparr>\<rparr>, self))"

definition hev_socks5_user_checker :: "HevSocks5User \<Rightarrow> bytes \<Rightarrow> int" where
  "hev_socks5_user_checker self pass =
     (if length (us_pass self) \<noteq> length pass then - 1
      else if memcmp (us_pass self) pass \<noteq> 0 then - 1
      else 0)"

definition hev_socks5_user_check :: "HevSocks5Authenticator \<Rightarrow> addr \<Rightarrow> bytes \<Rightarrow> int option" where
  "hev_socks5_user_check a self pass = do { u \<leftarrow> a_users a self; Some (hev_socks5_user_checker u pass) }"

definition hev_socks5_user_destruct :: "HevSocks5Authenticator \<Rightarrow> addr \<Rightarrow> HevSocks5Authenticator" where
  "hev_socks5_user_destruct a self =
     a\<lparr>a_users := (a_users a)(self := None), a_tree := (a_tree a)\<lparr>nodes := (nodes (a_tree a))(self := None)\<rparr>\<rparr>"

text \<open>\<open>hev_object_ref\<close> and \<open>hev_object_unref\<close> on a user.\<close>

definition user_ref :: "HevSocks5Authenticator \<Rightarrow> addr \<Rightarrow> HevSocks5Authenticator option" where
  "user_ref a self = do { u \<leftarrow> a_users a self; Some (a\<lparr>a_users := (a_users a)(self \<mapsto> u\<lparr>us_ref := us_ref u + 1\<rparr>)\<rparr>) }"

definition user_unref :: "HevSocks5Authenticator \<Rightarrow> addr \<Rightarrow> HevSocks5Authenticator option" where
  "user_unref a self = do { u \<leftarrow> a_users a self;
     Some (if us_ref u > 1 then a\<lparr>a_users := (a_users a)(self \<mapsto> u\<lparr>us_ref := us_ref u - 1\<rparr>)\<rparr>
       else hev_socks5_user_destruct a self) }"

section \<open>The authenticator\<close>

text \<open>The comparison the three loops make of a user's name with a name.\<close>

definition user_cmp :: "bytes \<Rightarrow> bytes \<Rightarrow> int" where
  "user_cmp this name =
     (if length this < length name then - 1
      else if length this > length name then 1
      else memcmp this name)"

text \<open>\<open>hev_socks5_authenticator_new\<close> with the memory of the process as it is; \<open>calloc\<close> zeroes
  the tree.\<close>

definition hev_socks5_authenticator_construct :: "HevSocks5Authenticator \<Rightarrow> HevSocks5Authenticator" where
  "hev_socks5_authenticator_construct a = a\<lparr>a_ref := 1\<rparr>"

definition hev_socks5_authenticator_new :: "bool \<Rightarrow> HevSocks5Authenticator option" where
  "hev_socks5_authenticator_new ok =
     (if \<not> ok then None else
      Some (hev_socks5_authenticator_construct \<lparr>a_tree = \<lparr>root = 0, nodes = Map.empty\<rparr>, a_users = Map.empty, a_ref = 0\<rparr>))"

fun add_loop :: "nat \<Rightarrow> HevSocks5Authenticator \<Rightarrow> link \<Rightarrow> addr \<Rightarrow> bytes \<Rightarrow> (addr \<times> link) option option" where
  "add_loop 0 a lnk parent name = None"
| "add_loop (Suc fuel) a lnk parent name = do {
     cur \<leftarrow> load_link (a_tree a) lnk;
     if cur = 0 then Some (Some (parent, lnk)) else do {
       this \<leftarrow> a_users a cur;
       let res = user_cmp (us_name this) name;
       if res < 0 then add_loop fuel a (LeftLink cur) cur name
       else if res > 0 then add_loop fuel a (RightLink cur) cur name
       else Some None } }"

definition hev_socks5_authenticator_add :: "nat \<Rightarrow> HevSocks5Authenticator \<Rightarrow> addr \<Rightarrow> (HevSocks5Authenticator \<times> int) option" where
  "hev_socks5_authenticator_add fuel a user = do {
     u \<leftarrow> a_users a user;
     r \<leftarrow> add_loop fuel a RootLink 0 (us_name u);
     case r of None \<Rightarrow> Some (a, - 1)
     | Some (parent, lnk) \<Rightarrow> do {
         t \<leftarrow> hev_rbtree_node_link (a_tree a) user parent lnk;
         t \<leftarrow> hev_rbtree_insert_color fuel t user;
         Some (a\<lparr>a_tree := t\<rparr>, 0) } }"

fun get_loop :: "nat \<Rightarrow> HevSocks5Authenticator \<Rightarrow> addr \<Rightarrow> bytes \<Rightarrow> addr option" where
  "get_loop 0 a node name = None"
| "get_loop (Suc fuel) a node name =
     (if node = 0 then Some 0 else do {
        this \<leftarrow> a_users a node;
        let res = user_cmp (us_name this) name;
        if res < 0 then do { n \<leftarrow> get_left (a_tree a) node; get_loop fuel a n name }
        else if res > 0 then do { n \<leftarrow> get_right (a_tree a) node; get_loop fuel a n name }
        else Some node })"

definition hev_socks5_authenticator_get :: "nat \<Rightarrow> HevSocks5Authenticator \<Rightarrow> bytes \<Rightarrow> addr option" where
  "hev_socks5_authenticator_get fuel a name = get_loop fuel a (root (a_tree a)) name"

definition hev_socks5_authenticator_del :: "nat \<Rightarrow> HevSocks5Authenticator \<Rightarrow> bytes \<Rightarrow> (HevSocks5Authenticator \<times> int) option" where
  "hev_socks5_authenticator_del fuel a name = do {
     node \<leftarrow> get_loop fuel a (root (a_tree a)) name;
     if node = 0 then Some (a, - 1) else do {
       t \<leftarrow> hev_rbtree_erase fuel (a_tree a) node;
       a \<leftarrow> user_unref (a\<lparr>a_tree := t\<rparr>) node;
       Some (a, 0) } }"

fun clear_loop :: "nat \<Rightarrow> nat \<Rightarrow> HevSocks5Authenticator \<Rightarrow> HevSocks5Authenticator option" where
  "clear_loop f 0 a = None"
| "clear_loop f (Suc n) a = do {
     x \<leftarrow> hev_rbtree_first f (a_tree a);
     if x = 0 then Some a else do {
       t \<leftarrow> hev_rbtree_erase f (a_tree a) x;
       a \<leftarrow> user_unref (a\<lparr>a_tree := t\<rparr>) x;
       clear_loop f n a } }"

definition hev_socks5_authenticator_clear :: "nat \<Rightarrow> HevSocks5Authenticator \<Rightarrow> HevSocks5Authenticator option" where
  "hev_socks5_authenticator_clear fuel a = clear_loop fuel fuel a"

definition hev_socks5_authenticator_destruct :: "nat \<Rightarrow> HevSocks5Authenticator \<Rightarrow> HevSocks5Authenticator option" where
  "hev_socks5_authenticator_destruct fuel a = hev_socks5_authenticator_clear fuel a"

definition auth_ref :: "HevSocks5Authenticator \<Rightarrow> HevSocks5Authenticator" where
  "auth_ref a = a\<lparr>a_ref := a_ref a + 1\<rparr>"

definition auth_unref :: "nat \<Rightarrow> HevSocks5Authenticator \<Rightarrow> HevSocks5Authenticator option" where
  "auth_unref fuel a = (if a_ref a > 1 then Some (a\<lparr>a_ref := a_ref a - 1\<rparr>)
     else hev_socks5_authenticator_destruct fuel (a\<lparr>a_ref := 0\<rparr>))"

section \<open>The order of names\<close>

lemma memcmp_0: "length x = length y \<Longrightarrow> memcmp x y = 0 \<longleftrightarrow> x = y"
  by (induction x y rule: list_induct2) (auto simp: word_uint_eq_iff)

lemma memcmp_swap: "memcmp y x = - memcmp x y"
  by (induction x y rule: memcmp.induct) auto

lemma memcmp_trans:
  "length x = length y \<Longrightarrow> length y = length z \<Longrightarrow> memcmp x y < 0 \<Longrightarrow> memcmp y z < 0 \<Longrightarrow> memcmp x z < 0"
  by (induction x y z rule: list_induct3) (auto split: if_splits)

lemma user_cmp_0 [simp]: "user_cmp x y = 0 \<longleftrightarrow> x = y"
  using memcmp_0 [of x y] by (auto simp: user_cmp_def)

lemma user_cmp_self [simp]: "user_cmp x x = 0"
  by simp

lemma user_cmp_swap: "user_cmp y x = - user_cmp x y"
  using memcmp_swap [of y x] by (auto simp: user_cmp_def)

lemma user_cmp_trans: "user_cmp x y < 0 \<Longrightarrow> user_cmp y z < 0 \<Longrightarrow> user_cmp x z < 0"
  using memcmp_trans [of x y z] by (auto simp: user_cmp_def split: if_splits)

lemma checker_iff: "hev_socks5_user_checker u p = (if us_pass u = p then 0 else - 1)"
  using memcmp_0 [of "us_pass u" p] by (auto simp: hev_socks5_user_checker_def)

section \<open>Representation\<close>

definition uname :: "HevSocks5Authenticator \<Rightarrow> addr \<Rightarrow> bytes" where
  "uname a x = us_name (the (a_users a x))"

definition upass :: "HevSocks5Authenticator \<Rightarrow> addr \<Rightarrow> bytes" where
  "upass a x = us_pass (the (a_users a x))"

text \<open>\<open>auth_rep a T\<close>: the tree of the authenticator is \<open>T\<close>, its users are live and their names
  decrease from left to right.\<close>

definition auth_rep :: "HevSocks5Authenticator \<Rightarrow> rbt \<Rightarrow> bool" where
  "auth_rep a T \<longleftrightarrow> tree_rep (a_tree a) T \<and> is_rbt T \<and> set (addrs T) \<subseteq> dom (a_users a) \<and>
     sorted_wrt (\<lambda>x y. user_cmp (uname a y) (uname a x) < 0) (addrs T)"

text \<open>The users by name, and their passwords.\<close>

definition users_of :: "HevSocks5Authenticator \<Rightarrow> addr list \<Rightarrow> bytes \<rightharpoonup> addr" where
  "users_of a xs = map_of (map (\<lambda>x. (uname a x, x)) xs)"

lemma live_user: "auth_rep a T \<Longrightarrow> x \<in> set (addrs T) \<Longrightarrow> \<exists>u. a_users a x = Some u \<and> us_name u = uname a x \<and> us_pass u = upass a x"
  by (auto simp: auth_rep_def uname_def upass_def)

lemma users_of_None: "users_of a xs n = None \<longleftrightarrow> (\<forall>x \<in> set xs. uname a x \<noteq> n)"
  by (auto simp: users_of_def map_of_eq_None_iff image_image)

lemma uname_inj: "sorted_wrt (\<lambda>x y. user_cmp (uname a y) (uname a x) < 0) xs \<Longrightarrow> distinct (map (uname a) xs)"
  by (induction xs) force+

lemma users_of_Some:
  assumes "sorted_wrt (\<lambda>x y. user_cmp (uname a y) (uname a x) < 0) xs" "x \<in> set xs" "uname a x = n"
  shows "users_of a xs n = Some x"
  unfolding users_of_def using assms uname_inj [OF assms(1)]
  by (intro map_of_is_SomeI) (auto simp: comp_def)

lemma get_loop_refines:
  assumes "rep (nodes (a_tree a)) par t" "set (addrs t) \<subseteq> dom (a_users a)" "depth t < fuel"
    "sorted_wrt (\<lambda>x y. user_cmp (uname a y) (uname a x) < 0) (addrs t)"
  shows "get_loop fuel a (root_of t) name = Some (case users_of a (addrs t) name of None \<Rightarrow> 0 | Some x \<Rightarrow> x)"
  using assms
proof (induction t arbitrary: par fuel)
  case Lf
  then obtain f where "fuel = Suc f" by (cases fuel) auto
  then show ?case by (simp add: users_of_def)
next
  case (Nd l c x r)
  obtain f where f: "fuel = Suc f" "depth l < f" "depth r < f" using Nd(5) by (cases fuel) auto
  obtain u where u: "a_users a x = Some u" "us_name u = uname a x" using Nd(4) by (auto simp: uname_def)
  have rp: "rep (nodes (a_tree a)) x l" "rep (nodes (a_tree a)) x r" "x \<noteq> 0"
    "get_left (a_tree a) x = Some (root_of l)" "get_right (a_tree a) x = Some (root_of r)"
    using Nd(3) by (auto simp: get_left_def get_right_def)
  have so: "sorted_wrt (\<lambda>x y. user_cmp (uname a y) (uname a x) < 0) (addrs l)" "sorted_wrt (\<lambda>x y. user_cmp (uname a y) (uname a x) < 0) (addrs r)"
    "\<forall>b \<in> set (addrs r). user_cmp (uname a b) (uname a x) < 0" "\<forall>b \<in> set (addrs l). user_cmp (uname a x) (uname a b) < 0"
    using Nd(6) by (auto simp: sorted_wrt_append)
  have split: "users_of a (addrs (Nd l c x r)) name = (case users_of a (addrs l) name of
      None \<Rightarrow> if uname a x = name then Some x else users_of a (addrs r) name | Some y \<Rightarrow> Some y)"
    by (auto simp: users_of_def map_add_def split: option.splits)
  consider "uname a x = name" | "user_cmp (uname a x) name < 0" | "user_cmp (uname a x) name > 0"
    by (metis linorder_cases user_cmp_0)
  then show ?case
  proof cases
    case 1
    then have "users_of a (addrs l) name = None" using so(4) by (force simp: users_of_None)
    then show ?thesis using 1 f u rp split by simp
  next
    case 2
    then have "users_of a (addrs r) name = None" "uname a x \<noteq> name"
      using so(3) user_cmp_trans [of _ "uname a x" name] by (force simp: users_of_None)+
    then show ?thesis
      using 2 f u rp split Nd(1) [OF rp(1) _ f(2) so(1)] Nd(4) by (auto split: option.splits)
  next
    case 3
    then have lt: "user_cmp name (uname a x) < 0" using user_cmp_swap [of name "uname a x"] by simp
    then have "users_of a (addrs l) name = None" "uname a x \<noteq> name"
      using so(4) user_cmp_trans [of name "uname a x"] by (force simp: users_of_None)+
    then show ?thesis
      using 3 f u rp split Nd(2) [OF rp(2) _ f(3) so(2)] Nd(4) by (auto split: option.splits)
  qed
qed

lemma get_refines:
  assumes "auth_rep a T" "length (addrs T) < fuel"
  shows "hev_socks5_authenticator_get fuel a name = Some (case users_of a (addrs T) name of None \<Rightarrow> 0 | Some x \<Rightarrow> x)"
  using get_loop_refines [of a 0 T fuel name] assms depth_le_addrs [of T]
  by (simp add: hev_socks5_authenticator_get_def auth_rep_def tree_rep_def)


text \<open>The place a new name belongs to: everything to the left is greater, everything to the
  right is smaller.\<close>

definition gap :: "HevSocks5Authenticator \<Rightarrow> bytes \<Rightarrow> ctx \<Rightarrow> bool" where
  "gap a name k \<longleftrightarrow> (\<forall>x \<in> set (before k). user_cmp name (uname a x) < 0) \<and> (\<forall>x \<in> set (after k). user_cmp (uname a x) name < 0)"

lemma add_loop_refines:
  assumes "tree_rep (a_tree a) (plug t k)" "set (addrs t) \<subseteq> dom (a_users a)" "depth t < fuel"
    "sorted_wrt (\<lambda>x y. user_cmp (uname a y) (uname a x) < 0) (addrs t)" "gap a name k"
  shows "(\<exists>x \<in> set (addrs t). uname a x = name) \<and> add_loop fuel a (link_of k) (ctx_parent k) name = Some None \<or>
    (\<forall>x \<in> set (addrs t). uname a x \<noteq> name) \<and> (\<exists>k'. plug t k = plug Lf k' \<and> gap a name k' \<and>
      add_loop fuel a (link_of k) (ctx_parent k) name = Some (Some (ctx_parent k', link_of k')))"
  using assms
proof (induction t arbitrary: k fuel)
  case Lf
  then obtain f where "fuel = Suc f" by (cases fuel) auto
  with Lf load_link_of [of "a_tree a" Lf k] show ?case by auto
next
  case (Nd l c x r)
  obtain f where f: "fuel = Suc f" "depth l < f" "depth r < f" using Nd(5) by (cases fuel) auto
  obtain u where u: "a_users a x = Some u" "us_name u = uname a x" using Nd(4) by (auto simp: uname_def)
  have x: "x \<noteq> 0" using Nd(3) zip_rep_tree [of "a_tree a" "Nd l c x r" k] by (auto simp: zip_rep_def)
  have ld: "load_link (a_tree a) (link_of k) = Some x" using load_link_of [OF Nd(3)] by simp
  have so: "sorted_wrt (\<lambda>x y. user_cmp (uname a y) (uname a x) < 0) (addrs l)" "sorted_wrt (\<lambda>x y. user_cmp (uname a y) (uname a x) < 0) (addrs r)"
    "\<forall>b \<in> set (addrs r). user_cmp (uname a b) (uname a x) < 0" "\<forall>b \<in> set (addrs l). user_cmp (uname a x) (uname a b) < 0"
    using Nd(6) by (auto simp: sorted_wrt_append)
  consider "uname a x = name" | "user_cmp (uname a x) name < 0" | "user_cmp (uname a x) name > 0"
    by (metis linorder_cases user_cmp_0)
  then show ?case
  proof cases
    case 1
    then show ?thesis using f u x ld by simp
  next
    case 2
    let ?k = "FL c x r # k"
    have "\<forall>b \<in> set (addrs r). uname a b \<noteq> name" "uname a x \<noteq> name"
      using 2 so(3) user_cmp_trans [of _ "uname a x" name] by (metis less_irrefl user_cmp_0)+
    moreover have "gap a name ?k" using Nd(7) 2 so(3) user_cmp_trans [of _ "uname a x" name] by (auto simp: gap_def)
    moreover have "add_loop fuel a (link_of k) (ctx_parent k) name = add_loop f a (link_of ?k) (ctx_parent ?k) name"
      using f u x ld 2 by simp
    ultimately show ?thesis
      using Nd(1) [of ?k f] Nd(3,4) f so(1) by auto
  next
    case 3
    let ?k = "FR c x l # k"
    have lt: "user_cmp name (uname a x) < 0" using 3 user_cmp_swap [of name "uname a x"] by simp
    have "\<forall>b \<in> set (addrs l). uname a b \<noteq> name" "uname a x \<noteq> name"
      using lt so(4) user_cmp_trans [of name "uname a x"] by (metis less_irrefl user_cmp_0)+
    moreover have "gap a name ?k" using Nd(7) lt so(4) user_cmp_trans [of name "uname a x"] by (auto simp: gap_def)
    moreover have "add_loop fuel a (link_of k) (ctx_parent k) name = add_loop f a (link_of ?k) (ctx_parent ?k) name"
      using f u x ld 3 by simp
    ultimately show ?thesis
      using Nd(2) [of ?k f] Nd(3,4) f so(2) by auto
  qed
qed

lemma uname_tree [simp]: "uname (a\<lparr>a_tree := t\<rparr>) = uname a" "upass (a\<lparr>a_tree := t\<rparr>) = upass a"
  by (simp_all add: uname_def upass_def fun_eq_iff)

lemma users_of_tree [simp]: "users_of (a\<lparr>a_tree := t\<rparr>) = users_of a"
  by (simp add: users_of_def fun_eq_iff)

lemma users_of_insert:
  assumes "x \<notin> set (xs @ ys)" "users_of a (xs @ ys) (uname a x) = None"
  shows "users_of a (xs @ x # ys) = (users_of a (xs @ ys))(uname a x \<mapsto> x)"
  using assms by (auto simp: users_of_def fun_eq_iff map_add_def split: option.splits)

lemma add_refines:
  assumes r: "auth_rep a T" and x: "a_users a x = Some u" "x \<noteq> 0" "aligned x" "x \<notin> set (addrs T)"
    and xd: "x \<in> dom (nodes (a_tree a))" and f: "length (addrs T) < fuel"
  shows "if users_of a (addrs T) (us_name u) \<noteq> None then hev_socks5_authenticator_add fuel a x = Some (a, - 1)
    else \<exists>t T'. hev_socks5_authenticator_add fuel a x = Some (a\<lparr>a_tree := t\<rparr>, 0) \<and> auth_rep (a\<lparr>a_tree := t\<rparr>) T' \<and>
      users_of a (addrs T') = (users_of a (addrs T))(us_name u \<mapsto> x) \<and> length (addrs T') = Suc (length (addrs T))"
proof -
  have n: "us_name u = uname a x" using x(1) by (simp add: uname_def)
  have tr: "tree_rep (a_tree a) T" "is_rbt T" and s: "set (addrs T) \<subseteq> dom (a_users a)"
    and so: "sorted_wrt (\<lambda>x y. user_cmp (uname a y) (uname a x) < 0) (addrs T)" using r by (auto simp: auth_rep_def)
  have "gap a (us_name u) []" by (simp add: gap_def)
  then have loop: "(\<exists>y \<in> set (addrs T). uname a y = us_name u) \<and> add_loop fuel a RootLink 0 (us_name u) = Some None \<or>
    (\<forall>y \<in> set (addrs T). uname a y \<noteq> us_name u) \<and>
    (\<exists>k'. T = plug Lf k' \<and> gap a (us_name u) k' \<and> add_loop fuel a RootLink 0 (us_name u) = Some (Some (ctx_parent k', link_of k')))"
    using add_loop_refines [of a T "[]" fuel "us_name u"] tr s so f depth_le_addrs [of T] by simp
  show ?thesis
  proof (cases "users_of a (addrs T) (us_name u) = None")
    case False
    then show ?thesis using loop x(1) by (auto simp: users_of_None hev_socks5_authenticator_add_def)
  next
    case True
    then obtain k where k: "T = plug Lf k" "gap a (us_name u) k" "add_loop fuel a RootLink 0 (us_name u) = Some (Some (ctx_parent k, link_of k))"
      using loop by (auto simp: users_of_None)
    have "length k < fuel" using f length_ctx [of k] k(1) by simp
    then obtain t T' where t: "do { s \<leftarrow> hev_rbtree_node_link (a_tree a) x (ctx_parent k) (link_of k); hev_rbtree_insert_color fuel s x } = Some t"
      "tree_rep t T'" "is_rbt T'" "addrs T' = before k @ x # after k"
      using insert_refines [of "a_tree a" k x fuel] tr x k(1) xd by (auto simp del: addrs_plug)
    have "hev_socks5_authenticator_add fuel a x = Some (a\<lparr>a_tree := t\<rparr>, 0)"
      using x(1) k(3) t(1) by (auto simp: hev_socks5_authenticator_add_def bind_eq_Some_conv)
    moreover have "sorted_wrt (\<lambda>x y. user_cmp (uname a y) (uname a x) < 0) (addrs T')"
      using so k t(4) n by (simp add: sorted_wrt_append gap_def)
    moreover have "set (addrs T') \<subseteq> dom (a_users a)" using t(4) k(1) s x(1) by auto
    moreover have "users_of a (addrs T') = (users_of a (addrs T))(us_name u \<mapsto> x)"
      using users_of_insert [of x "before k" "after k" a] True k(1) t(4) n x(4) by simp
    ultimately show ?thesis using True t k(1)
      by (simp add: auth_rep_def) (intro exI [of _ t] conjI refl exI [of _ T'], simp_all)
  qed
qed


lemma user_unref_rep:
  assumes t: "tree_rep t T" "is_rbt T" and x: "x \<notin> set (addrs T)" "a_users a x = Some u"
    and s: "set (addrs T) \<subseteq> dom (a_users a)" "sorted_wrt (\<lambda>x y. user_cmp (uname a y) (uname a x) < 0) (addrs T)"
  shows "\<exists>a'. user_unref (a\<lparr>a_tree := t\<rparr>) x = Some a' \<and> auth_rep a' T \<and> a_ref a' = a_ref a \<and>
    a_users a' = (a_users a)(x := if us_ref u > 1 then Some (u\<lparr>us_ref := us_ref u - 1\<rparr>) else None)"
proof -
  let ?v = "if us_ref u > 1 then Some (u\<lparr>us_ref := us_ref u - 1\<rparr>) else None"
  let ?t = "if us_ref u > 1 then t else t\<lparr>nodes := (nodes t)(x := None)\<rparr>"
  let ?a = "a\<lparr>a_tree := ?t, a_users := (a_users a)(x := ?v)\<rparr>"
  have eq: "user_unref (a\<lparr>a_tree := t\<rparr>) x = Some ?a"
    using x(2) by (simp add: user_unref_def hev_socks5_user_destruct_def)
  have nm: "uname ?a y = uname a y" if "y \<in> set (addrs T)" for y
    using that x(1) by (auto simp: uname_def)
  have "sorted_wrt (\<lambda>x y. user_cmp (uname ?a y) (uname ?a x) < 0) (addrs T) =
      sorted_wrt (\<lambda>x y. user_cmp (uname a y) (uname a x) < 0) (addrs T)"
    using nm by (intro sorted_wrt_cong_on) simp
  moreover have "tree_rep ?t T" using t(1) x(1) by (auto simp: tree_rep_def)
  moreover have "set (addrs T) \<subseteq> dom ((a_users a)(x := ?v))" using s(1) x(1) by auto
  ultimately have "auth_rep ?a T" using t(2) s(2) by (simp add: auth_rep_def)
  then show ?thesis using eq by (intro exI [of _ ?a]) simp
qed

lemma erase_unref:
  assumes r: "auth_rep a T" and x: "x \<in> set (addrs T)" "a_users a x = Some u" and f: "length (addrs T) \<le> fuel"
  shows "\<exists>t a' T'. hev_rbtree_erase fuel (a_tree a) x = Some t \<and> user_unref (a\<lparr>a_tree := t\<rparr>) x = Some a' \<and>
    auth_rep a' T' \<and> addrs T' = remove1 x (addrs T) \<and> a_ref a' = a_ref a \<and>
    a_users a' = (a_users a)(x := if us_ref u > 1 then Some (u\<lparr>us_ref := us_ref u - 1\<rparr>) else None)"
proof -
  have tr: "tree_rep (a_tree a) T" "is_rbt T" and s: "set (addrs T) \<subseteq> dom (a_users a)"
    and so: "sorted_wrt (\<lambda>x y. user_cmp (uname a y) (uname a x) < 0) (addrs T)" and di: "distinct (addrs T)"
    using r by (auto simp: auth_rep_def tree_rep_def)
  obtain t T' where t: "hev_rbtree_erase fuel (a_tree a) x = Some t" "tree_rep t T'" "is_rbt T'" "addrs T' = remove1 x (addrs T)"
    using erase_refines [OF tr x(1) f] by blast
  have "x \<notin> set (addrs T')" "set (addrs T') \<subseteq> dom (a_users a)" using t(4) di s by (auto dest: notin_set_remove1)
  moreover have "sorted_wrt (\<lambda>x y. user_cmp (uname a y) (uname a x) < 0) (addrs T')"
    using so t(4) by (simp add: sorted_wrt_remove1)
  ultimately show ?thesis using user_unref_rep [where t = t and T = T' and a = a and x = x and u = u] t x(2) by auto
qed


lemma users_of_cong: "(\<And>x. x \<in> set xs \<Longrightarrow> uname a x = uname b x) \<Longrightarrow> users_of a xs = users_of b xs"
  by (auto simp: users_of_def cong: map_cong)

lemma users_of_remove1:
  assumes "sorted_wrt (\<lambda>x y. user_cmp (uname a y) (uname a x) < 0) xs" "x \<in> set xs"
  shows "users_of a (remove1 x xs) = (users_of a xs)(uname a x := None)"
  using assms
proof (induction xs)
  case (Cons y ys)
  show ?case
  proof (cases "x = y")
    case True
    then have "users_of a ys (uname a x) = None" using Cons.prems by (force simp: users_of_None)
    then show ?thesis using True by (auto simp: users_of_def fun_eq_iff)
  next
    case False
    then have "uname a y \<noteq> uname a x" using Cons.prems by force
    moreover have "users_of a (remove1 x ys) = (users_of a ys)(uname a x := None)" using Cons False by auto
    ultimately show ?thesis using False by (auto simp: users_of_def fun_eq_iff)
  qed
qed simp

lemma del_refines:
  assumes r: "auth_rep a T" and f: "length (addrs T) < fuel"
  shows "case users_of a (addrs T) name of
      None \<Rightarrow> hev_socks5_authenticator_del fuel a name = Some (a, - 1)
    | Some x \<Rightarrow> \<exists>a' T'. hev_socks5_authenticator_del fuel a name = Some (a', 0) \<and> auth_rep a' T' \<and>
        addrs T' = remove1 x (addrs T) \<and> (\<forall>y. y \<noteq> x \<longrightarrow> a_users a' y = a_users a y)"
proof (cases "users_of a (addrs T) name")
  case None
  then show ?thesis using get_refines [OF r f, of name]
    by (simp add: hev_socks5_authenticator_del_def hev_socks5_authenticator_get_def)
next
  case (Some x)
  then have x: "x \<in> set (addrs T)" by (auto simp: users_of_def dest: map_of_SomeD)
  then obtain u where u: "a_users a x = Some u" using live_user [OF r] by blast
  have "x \<noteq> 0" using x r tree_rep_nonzero by (auto simp: auth_rep_def)
  then show ?thesis
    using Some get_refines [OF r f, of name] erase_unref [OF r x u, of fuel] f
    by (auto simp: hev_socks5_authenticator_del_def hev_socks5_authenticator_get_def)
qed

text \<open>Clearing takes every user out of the tree and drops the tree's reference to it.\<close>

lemma clear_loop_refines:
  assumes "auth_rep a T" "length (addrs T) < n" "length (addrs T) < fuel"
  shows "\<exists>a'. clear_loop fuel n a = Some a' \<and> auth_rep a' Lf \<and>
    (\<forall>y. a_users a' y = (case a_users a y of None \<Rightarrow> None | Some u \<Rightarrow>
       if y \<notin> set (addrs T) then Some u else if us_ref u > 1 then Some (u\<lparr>us_ref := us_ref u - 1\<rparr>) else None))"
  using assms
proof (induction "addrs T" arbitrary: a T n)
  case Nil
  then have "T = Lf" by (cases T) auto
  moreover obtain m where "n = Suc m" using Nil by (cases n) auto
  ultimately show ?case
    using Nil by (auto simp: hev_rbtree_first_def auth_rep_def tree_rep_def split: option.splits)
next
  case (Cons x xs)
  obtain m where m: "n = Suc m" using Cons.prems by (cases n) auto
  have "rb_rep fuel (a_tree a) (x # xs)" using Cons.prems Cons.hyps(2) by (auto simp: rb_rep_def auth_rep_def)
  then have first: "hev_rbtree_first fuel (a_tree a) = Some x" "x \<noteq> 0" "x \<notin> set xs"
    using rbt.first_law rbt.nodes_law by fastforce+
  have x: "x \<in> set (addrs T)" using Cons.hyps(2) by (metis list.set_intros(1))
  then obtain u where u: "a_users a x = Some u" using live_user [OF Cons.prems(1)] by blast
  obtain t a' T' where e: "hev_rbtree_erase fuel (a_tree a) x = Some t" "user_unref (a\<lparr>a_tree := t\<rparr>) x = Some a'"
    "auth_rep a' T'" "addrs T' = xs" "a_users a' = (a_users a)(x := if us_ref u > 1 then Some (u\<lparr>us_ref := us_ref u - 1\<rparr>) else None)"
    using erase_unref [OF Cons.prems(1) x u, of fuel] Cons.prems(3) Cons.hyps(2) by (metis less_imp_le remove1.simps(2))
  have len: "length (addrs T) = Suc (length xs)" using Cons.hyps(2) by (metis length_Cons)
  obtain a'' where "clear_loop fuel m a' = Some a''" "auth_rep a'' Lf"
    "\<forall>y. a_users a'' y = (case a_users a' y of None \<Rightarrow> None | Some u \<Rightarrow>
       if y \<notin> set (addrs T') then Some u else if us_ref u > 1 then Some (u\<lparr>us_ref := us_ref u - 1\<rparr>) else None)"
    using Cons.hyps(1) [OF e(4) [symmetric] e(3), of m] e(4) len Cons.prems m by auto
  then show ?case
    using first e(1,2,4,5) m u Cons.hyps(2) [symmetric]
    by (intro exI [of _ a'']) (auto split: option.splits)
qed

section \<open>The contract of a password table\<close>

text \<open>\<open>rep s M\<close>: the table holds the passwords \<open>M\<close>, by name.\<close>

locale password_table =
  fixes rep :: "'s \<Rightarrow> (bytes \<rightharpoonup> bytes) \<Rightarrow> bool"
    and fresh :: "'s \<Rightarrow> addr \<Rightarrow> bool"
    and enrol :: "'s \<Rightarrow> addr \<Rightarrow> bytes \<Rightarrow> bytes \<Rightarrow> ('s \<times> int) option"
    and revoke :: "'s \<Rightarrow> bytes \<Rightarrow> ('s \<times> int) option"
    and verify :: "'s \<Rightarrow> bytes \<Rightarrow> bytes \<Rightarrow> bool option"
    and room :: nat
  assumes finite_law: "rep s M \<Longrightarrow> finite (dom M)"
    and verify_law: "rep s M \<Longrightarrow> card (dom M) < room \<Longrightarrow> verify s n p = Some (M n = Some p)"
    and enrol_law: "rep s M \<Longrightarrow> card (dom M) < room \<Longrightarrow> fresh s x \<Longrightarrow>
      \<exists>s'. enrol s x n p = Some (s', if M n = None then 0 else - 1) \<and> rep s' (if M n = None then M(n \<mapsto> p) else M)"
    and revoke_law: "rep s M \<Longrightarrow> card (dom M) < room \<Longrightarrow>
      \<exists>s'. revoke s n = Some (s', if M n = None then - 1 else 0) \<and> rep s' (M(n := None))"
begin

lemma enrol_verify:
  assumes "rep s M" "card (dom M) + 1 < room" "fresh s x"
  shows "\<exists>s' r. enrol s x n p = Some (s', r) \<and> (r = 0 \<longleftrightarrow> M n = None) \<and>
    (\<forall>m q. verify s' m q = Some (if m = n \<and> r = 0 then q = p else M m = Some q))"
proof -
  obtain s' where s': "enrol s x n p = Some (s', if M n = None then 0 else - 1)" "rep s' (if M n = None then M(n \<mapsto> p) else M)"
    using enrol_law [of s M x n p] assms by auto
  have "card (dom (M(n \<mapsto> p))) < room" using assms finite_law [OF assms(1)] by (simp add: card_insert_if)
  then have "card (dom (if M n = None then M(n \<mapsto> p) else M)) < room" using assms(2) by auto
  then show ?thesis using s' verify_law [OF s'(2)] by (cases "M n") auto
qed

lemma revoke_verify:
  assumes "rep s M" "card (dom M) < room"
  shows "\<exists>s' r. revoke s n = Some (s', r) \<and> (r = 0 \<longleftrightarrow> M n \<noteq> None) \<and>
    (\<forall>m q. verify s' m q = Some (m \<noteq> n \<and> M m = Some q))"
proof -
  obtain s' where s': "revoke s n = Some (s', if M n = None then - 1 else 0)" "rep s' (M(n := None))"
    using revoke_law [OF assms] by blast
  have "card (dom (M(n := None))) \<le> card (dom M)" using finite_law [OF assms(1)] by (intro card_mono) auto
  then show ?thesis using s' verify_law [OF s'(2)] assms(2) by (cases "M n") auto
qed

end


definition passwords :: "HevSocks5Authenticator \<Rightarrow> addr list \<Rightarrow> bytes \<rightharpoonup> bytes" where
  "passwords a xs n = map_option (upass a) (users_of a xs n)"

definition auth_table :: "HevSocks5Authenticator \<Rightarrow> (bytes \<rightharpoonup> bytes) \<Rightarrow> bool" where
  "auth_table a M \<longleftrightarrow> (\<exists>T. auth_rep a T \<and> M = passwords a (addrs T))"

definition auth_fresh :: "HevSocks5Authenticator \<Rightarrow> addr \<Rightarrow> bool" where
  "auth_fresh a x \<longleftrightarrow> x \<noteq> 0 \<and> aligned x \<and> a_users a x = None"

text \<open>Enrolling creates a user and adds it; verifying looks the name up and checks the password.\<close>

definition auth_enrol :: "nat \<Rightarrow> HevSocks5Authenticator \<Rightarrow> addr \<Rightarrow> bytes \<Rightarrow> bytes \<Rightarrow> (HevSocks5Authenticator \<times> int) option" where
  "auth_enrol fuel a x n p = (case hev_socks5_user_new a x n p of (a, u) \<Rightarrow>
     if u = 0 then Some (a, - 1) else hev_socks5_authenticator_add fuel a u)"

definition auth_verify :: "nat \<Rightarrow> HevSocks5Authenticator \<Rightarrow> bytes \<Rightarrow> bytes \<Rightarrow> bool option" where
  "auth_verify fuel a n p = do {
     x \<leftarrow> hev_socks5_authenticator_get fuel a n;
     if x = 0 then Some False else do { r \<leftarrow> hev_socks5_user_check a x p; Some (0 \<le> r) } }"

lemma dom_passwords: "dom (passwords a xs) = uname a ` set xs"
  unfolding set_eq_iff domIff passwords_def map_option_is_None users_of_None by blast

lemma card_passwords:
  assumes "auth_rep a T" shows "card (dom (passwords a (addrs T))) = length (addrs T)"
proof -
  have "distinct (map (uname a) (addrs T))" using assms uname_inj by (simp add: auth_rep_def)
  then show ?thesis using distinct_card [of "map (uname a) (addrs T)"] dom_passwords [of a] by simp
qed

lemma verify_table:
  assumes "auth_rep a T" "length (addrs T) < fuel"
  shows "auth_verify fuel a n p = Some (passwords a (addrs T) n = Some p)"
proof (cases "users_of a (addrs T) n")
  case None
  then show ?thesis using get_refines [OF assms, of n] by (simp add: auth_verify_def passwords_def)
next
  case (Some x)
  then have x: "x \<in> set (addrs T)" by (auto simp: users_of_def dest: map_of_SomeD)
  then obtain u where "a_users a x = Some u" "us_pass u = upass a x" "x \<noteq> 0"
    using live_user [OF assms(1)] assms(1) tree_rep_nonzero unfolding auth_rep_def by blast
  then show ?thesis
    using Some get_refines [OF assms, of n] by (simp add: auth_verify_def hev_socks5_user_check_def checker_iff passwords_def)
qed

lemma enrol_table:
  assumes r: "auth_rep a T" and f: "length (addrs T) < fuel" and x: "auth_fresh a x"
  shows "\<exists>a' T'. auth_enrol fuel a x n p = Some (a', if passwords a (addrs T) n = None then 0 else - 1) \<and> auth_rep a' T' \<and>
    passwords a' (addrs T') = (if passwords a (addrs T) n = None then (passwords a (addrs T))(n \<mapsto> p) else passwords a (addrs T))"
proof -
  let ?u = "hev_socks5_user_construct n p"
  obtain a1 where a1: "hev_socks5_user_new a x n p = (a1, x)" "a_users a1 = (a_users a)(x \<mapsto> ?u)"
    "nodes (a_tree a1) = (nodes (a_tree a))(x \<mapsto> \<lparr>parent_color = 0, n_right = 0, n_left = 0\<rparr>)" "root (a_tree a1) = root (a_tree a)"
    using x by (simp add: hev_socks5_user_new_def auth_fresh_def)
  have out: "x \<notin> set (addrs T)" using x r by (auto simp: auth_fresh_def auth_rep_def)
  then have nm: "uname a1 y = uname a y" "upass a1 y = upass a y" if "y \<in> set (addrs T)" for y
    using that a1(2) by (auto simp: uname_def upass_def)
  have un: "us_name ?u = n" "uname a1 x = n" "upass a1 x = p" using a1(2) by (simp_all add: hev_socks5_user_construct_def uname_def upass_def)
  have "sorted_wrt (\<lambda>x y. user_cmp (uname a1 y) (uname a1 x) < 0) (addrs T) = sorted_wrt (\<lambda>x y. user_cmp (uname a y) (uname a x) < 0) (addrs T)"
    using nm by (intro sorted_wrt_cong_on) simp
  then have r1: "auth_rep a1 T" using r a1 out by (auto simp: auth_rep_def tree_rep_def)
  have us: "users_of a1 (addrs T) = users_of a (addrs T)" using nm by (intro users_of_cong) simp
  have up: "map_option (upass a1) (users_of a (addrs T) m) = map_option (upass a) (users_of a (addrs T) m)" for m
    using nm(2) by (cases "users_of a (addrs T) m") (auto simp: users_of_def dest!: map_of_SomeD)
  have add: "if users_of a1 (addrs T) n \<noteq> None then hev_socks5_authenticator_add fuel a1 x = Some (a1, - 1)
    else \<exists>t T'. hev_socks5_authenticator_add fuel a1 x = Some (a1\<lparr>a_tree := t\<rparr>, 0) \<and> auth_rep (a1\<lparr>a_tree := t\<rparr>) T' \<and>
      users_of a1 (addrs T') = (users_of a1 (addrs T))(n \<mapsto> x) \<and> length (addrs T') = Suc (length (addrs T))"
    using add_refines [OF r1, of x ?u fuel, unfolded un(1)] a1 x out f unfolding auth_fresh_def by simp
  show ?thesis
  proof (cases "users_of a (addrs T) n")
    case None
    then obtain t T' where t: "hev_socks5_authenticator_add fuel a1 x = Some (a1\<lparr>a_tree := t\<rparr>, 0)" "auth_rep (a1\<lparr>a_tree := t\<rparr>) T'"
      "users_of a1 (addrs T') = (users_of a (addrs T))(n \<mapsto> x)"
      using add us by auto
    have "passwords (a1\<lparr>a_tree := t\<rparr>) (addrs T') = (passwords a (addrs T))(n \<mapsto> p)"
      using t(3) un up by (auto simp: passwords_def fun_eq_iff)
    then show ?thesis
      using None t a1(1) x by (intro exI [of _ "a1\<lparr>a_tree := t\<rparr>"] exI [of _ T']) (auto simp: auth_enrol_def passwords_def auth_fresh_def)
  next
    case (Some y)
    have "passwords a1 (addrs T) = passwords a (addrs T)" using us up by (auto simp: passwords_def fun_eq_iff)
    then show ?thesis
      using Some add us a1(1) x r1 by (intro exI [of _ a1] exI [of _ T]) (auto simp: auth_enrol_def passwords_def auth_fresh_def)
  qed
qed

lemma revoke_table:
  assumes r: "auth_rep a T" and f: "length (addrs T) < fuel"
  shows "\<exists>a' T'. hev_socks5_authenticator_del fuel a n = Some (a', if passwords a (addrs T) n = None then - 1 else 0) \<and>
    auth_rep a' T' \<and> passwords a' (addrs T') = (passwords a (addrs T))(n := None)"
proof (cases "users_of a (addrs T) n")
  case None
  then have "(passwords a (addrs T))(n := None) = passwords a (addrs T)" by (auto simp: passwords_def fun_eq_iff)
  then show ?thesis using None del_refines [OF r f, of n] r by (auto simp: passwords_def)
next
  case (Some x)
  then have x: "x \<in> set (addrs T)" "uname a x = n" by (auto simp: users_of_def dest: map_of_SomeD)
  obtain a' T' where d: "hev_socks5_authenticator_del fuel a n = Some (a', 0)" "auth_rep a' T'"
    "addrs T' = remove1 x (addrs T)" "\<forall>y. y \<noteq> x \<longrightarrow> a_users a' y = a_users a y"
    using del_refines [OF r f, of n] Some by auto
  have so: "sorted_wrt (\<lambda>x y. user_cmp (uname a y) (uname a x) < 0) (addrs T)" "distinct (addrs T)" using r by (auto simp: auth_rep_def tree_rep_def)
  have nm: "uname a' y = uname a y" "upass a' y = upass a y" if "y \<in> set (addrs T')" for y
    using that d(3,4) so(2) by (auto simp: uname_def upass_def)
  have us: "users_of a' (addrs T') = (users_of a (addrs T))(n := None)"
    using users_of_cong [of "addrs T'" a' a] nm(1) users_of_remove1 [OF so(1) x(1)] d(3) x(2) by simp
  have "map_option (upass a') (users_of a' (addrs T') m) = map_option (upass a) (users_of a' (addrs T') m)" for m
    using nm(2) by (cases "users_of a' (addrs T') m") (auto simp: users_of_def dest!: map_of_SomeD)
  then have "passwords a' (addrs T') = (passwords a (addrs T))(n := None)"
    using us by (auto simp: passwords_def fun_eq_iff)
  then show ?thesis using d(1,2) Some by (auto simp: passwords_def)
qed

interpretation auth: password_table auth_table auth_fresh "auth_enrol fuel" "hev_socks5_authenticator_del fuel" "auth_verify fuel" fuel
  for fuel
proof
  fix a M assume "auth_table a M"
  then show "finite (dom M)" using dom_passwords by (auto simp: auth_table_def)
next
  fix a M n p assume "auth_table a M" "card (dom M) < fuel"
  then show "auth_verify fuel a n p = Some (M n = Some p)"
    using verify_table card_passwords by (auto simp: auth_table_def)
next
  fix a M n p x assume "auth_table a M" "card (dom M) < fuel" "auth_fresh a x"
  then show "\<exists>a'. auth_enrol fuel a x n p = Some (a', if M n = None then 0 else - 1) \<and> auth_table a' (if M n = None then M(n \<mapsto> p) else M)"
    using enrol_table [of a _ fuel x n p] card_passwords [of a] unfolding auth_table_def by fastforce
next
  fix a M n assume "auth_table a M" "card (dom M) < fuel"
  then show "\<exists>a'. hev_socks5_authenticator_del fuel a n = Some (a', if M n = None then - 1 else 0) \<and> auth_table a' (M(n := None))"
    using revoke_table [of a _ fuel n] card_passwords [of a] unfolding auth_table_def by fastforce
qed

section \<open>Properties\<close>

text \<open>C30. The authenticator is a password table: after adding a user, the name verifies with exactly
  the new password if the name was free (and the call reports the conflict otherwise), every
  other name verifies as before, and after deleting a name nobody passes under it.\<close>

theorem authenticator_table:
  assumes "auth_table a M" "card (dom M) + 1 < fuel" "auth_fresh a x"
  shows "(\<exists>a' r. auth_enrol fuel a x n p = Some (a', r) \<and> (r = 0 \<longleftrightarrow> M n = None) \<and>
      (\<forall>m q. auth_verify fuel a' m q = Some (if m = n \<and> r = 0 then q = p else M m = Some q))) \<and>
    (\<exists>a' r. hev_socks5_authenticator_del fuel a n = Some (a', r) \<and> (r = 0 \<longleftrightarrow> M n \<noteq> None) \<and>
      (\<forall>m q. auth_verify fuel a' m q = Some (m \<noteq> n \<and> M m = Some q)))"
  using auth.enrol_verify [OF assms] auth.revoke_verify [OF assms(1), of fuel n] assms(2) by simp

text \<open>Destroying an authenticator gives up exactly the references of its tree: users nobody
  else holds are freed, users that a connection still holds stay alive with one reference
  less, and users that were never added are untouched.\<close>

theorem authenticator_clear:
  assumes "auth_rep a T" "length (addrs T) < fuel"
  shows "\<exists>a'. hev_socks5_authenticator_clear fuel a = Some a' \<and> auth_rep a' Lf \<and>
    (\<forall>y. a_users a' y = (case a_users a y of None \<Rightarrow> None | Some u \<Rightarrow>
       if y \<notin> set (addrs T) then Some u else if us_ref u > 1 then Some (u\<lparr>us_ref := us_ref u - 1\<rparr>) else None))"
  using clear_loop_refines [OF assms(1,2,2)] by (simp add: hev_socks5_authenticator_clear_def)

definition empty_auth :: HevSocks5Authenticator where
  "empty_auth = \<lparr>a_tree = \<lparr>root = 0, nodes = Map.empty\<rparr>, a_users = Map.empty, a_ref = 1\<rparr>"

lemma empty_auth_rep: "auth_rep empty_auth Lf" "hev_socks5_authenticator_new True = Some empty_auth"
  by (simp_all add: auth_rep_def empty_auth_def tree_rep_def is_rbt_def hev_socks5_authenticator_new_def hev_socks5_authenticator_construct_def)

lemma empty_auth_table: "auth_table empty_auth Map.empty"
  unfolding auth_table_def by (intro exI [of _ Lf]) (simp add: empty_auth_rep passwords_def users_of_def fun_eq_iff)

lemma authenticator_table_witness:
  "\<exists>a'. auth_enrol 2 empty_auth 16 [97] [98] = Some (a', 0) \<and> auth_verify 2 a' [97] [98] = Some True \<and>
     auth_verify 2 a' [97] [99] = Some False"
proof -
  have "auth_fresh empty_auth 16" by (simp add: auth_fresh_def empty_auth_def aligned_def)
  then show ?thesis using authenticator_table [OF empty_auth_table, of 2 16 "[97]" "[98]"] by auto
qed

lemma authenticator_clear_witness: "\<exists>a'. hev_socks5_authenticator_clear 1 empty_auth = Some a' \<and> auth_rep a' Lf"
  using authenticator_clear [OF empty_auth_rep(1), of 1] by auto

end
