(* ===== verification/Socks5Server.thy ===== *)
theory Socks5Server
  imports ClientLife Authenticator
begin

text \<open>
  The SOCKS5 server (\<open>hev-socks5-server.c\<close>): authentication against the authenticator,
  request, connection or UDP association, reply. The state is the process's descriptors and
  the authenticator's store. The field that holds either the authenticator or, once the
  client is authenticated, its user is a union in the source and a sum here; using it as the
  wrong kind is \<open>None\<close>.
\<close>

section \<open>State\<close>

datatype server_obj = NoObj | ObjAuth | ObjUser addr

record HevSocks5Server = HevSocks5 +
  v_fd0 :: int
  v_fd1 :: int
  v_obj :: server_obj

type_synonym auth_store = HevSocks5Authenticator

definition zero_server :: HevSocks5Server where
  "zero_server = \<lparr>s_fd = 0, s_timeout = 0, s_udp_associated = False, s_type = TYPE_NONE,
     s_addr_family = FAMILY_UNSPEC, v_fd0 = 0, v_fd1 = 0, v_obj = NoObj\<rparr>"

definition hev_socks5_server_construct :: "'a HevSocks5Server_scheme \<Rightarrow> int \<Rightarrow> 'a HevSocks5Server_scheme" where
  "hev_socks5_server_construct self fd =
     (hev_socks5_construct self TYPE_NONE)\<lparr>s_fd := fd, v_fd0 := - 1, v_fd1 := - 1\<rparr>"

definition hev_socks5_server_new :: "net \<Rightarrow> int \<Rightarrow> net \<times> HevSocks5Server option" where
  "hev_socks5_server_new nt fd =
     (case hev_malloc nt of (nt, ok) \<Rightarrow>
      if \<not> ok then (nt, None) else (nt, Some (hev_socks5_server_construct zero_server fd)))"

text \<open>Dropping the reference an object field holds. A counter of zero means that the object is
  gone, so that taking a reference to it is a failure.\<close>

definition obj_unref :: "nat \<Rightarrow> auth_store \<Rightarrow> server_obj \<Rightarrow> auth_store option" where
  "obj_unref fuel a obj = (case obj of NoObj \<Rightarrow> Some a | ObjAuth \<Rightarrow> auth_unref fuel a | ObjUser u \<Rightarrow> user_unref a u)"

definition hev_socks5_server_set_auth ::
  "nat \<Rightarrow> auth_store \<Rightarrow> 'a HevSocks5Server_scheme \<Rightarrow> (auth_store \<times> 'a HevSocks5Server_scheme) option" where
  "hev_socks5_server_set_auth fuel a self = do {
     a \<leftarrow> (if v_obj self \<noteq> NoObj then obj_unref fuel a (v_obj self) else Some a);
     if a_ref a = 0 then None else Some (auth_ref a, self\<lparr>v_obj := ObjAuth\<rparr>) }"

section \<open>Authentication\<close>

definition hev_socks5_server_read_auth_method :: "net \<Rightarrow> 'a HevSocks5Server_scheme \<Rightarrow> net \<times> int" where
  "hev_socks5_server_read_auth_method nt self =
     (case hev_task_io_socket_recv (s_timeout self) nt (s_fd self) 2 of (nt, hdr, res) \<Rightarrow>
      if res \<noteq> 2 then (nt, - 1)
      else if hdr ! 0 \<noteq> HEV_SOCKS5_VERSION_5 then (nt, - 1)
      else case hev_task_io_socket_recv (s_timeout self) nt (s_fd self) (unat (hdr ! 1)) of (nt, methods, res) \<Rightarrow>
      if res \<noteq> uint (hdr ! 1) then (nt, - 1)
      else let method = (if v_obj self \<noteq> NoObj then HEV_SOCKS5_AUTH_METHOD_USER else HEV_SOCKS5_AUTH_METHOD_NONE) in
      (nt, if method \<in> set methods then uint method else - 1))"

definition hev_socks5_server_write_auth_method :: "net \<Rightarrow> 'a HevSocks5Server_scheme \<Rightarrow> int \<Rightarrow> net \<times> int" where
  "hev_socks5_server_write_auth_method nt self auth_method =
     (case hev_task_io_socket_send (s_timeout self) nt (s_fd self) [HEV_SOCKS5_VERSION_5, word_of_int auth_method] of (nt, res) \<Rightarrow>
      if res \<le> 0 then (nt, - 1) else (nt, 0))"

text \<open>The part of \<open>hev_socks5_server_read_auth_user\<close> after the name and the password are read.\<close>

definition server_login ::
  "nat \<Rightarrow> auth_store \<Rightarrow> 'a HevSocks5Server_scheme \<Rightarrow> bytes \<Rightarrow> bytes \<Rightarrow> (auth_store \<times> 'a HevSocks5Server_scheme \<times> int) option" where
  "server_login fuel a self name pass =
     (if v_obj self \<noteq> ObjAuth then None
      else do {
        user \<leftarrow> hev_socks5_authenticator_get fuel a name;
        if user = 0 then Some (a, self, - 1) else do {
          res \<leftarrow> hev_socks5_user_check a user pass;
          if res < 0 then Some (a, self, - 1) else do {
            a \<leftarrow> user_ref a user;
            a \<leftarrow> auth_unref fuel a;
            Some (a, self\<lparr>v_obj := ObjUser user\<rparr>, 0) } } })"

definition hev_socks5_server_read_auth_user ::
  "nat \<Rightarrow> net \<Rightarrow> auth_store \<Rightarrow> 'a HevSocks5Server_scheme \<Rightarrow> (net \<times> auth_store \<times> 'a HevSocks5Server_scheme \<times> int) option" where
  "hev_socks5_server_read_auth_user fuel nt a self =
     (case hev_task_io_socket_recv (s_timeout self) nt (s_fd self) 2 of (nt, hdr, res) \<Rightarrow>
      if res \<noteq> 2 then Some (nt, a, self, - 1)
      else if hdr ! 0 \<noteq> 1 then Some (nt, a, self, - 1)
      else let nlen = unat (hdr ! 1) in
      if nlen = 0 then Some (nt, a, self, - 1)
      else case hev_task_io_socket_recv (s_timeout self) nt (s_fd self) (nlen + 1) of (nt, name, res) \<Rightarrow>
      if res \<noteq> int nlen + 1 then Some (nt, a, self, - 1)
      else let plen = unat (name ! nlen) in
      if plen = 0 then Some (nt, a, self, - 1)
      else case hev_task_io_socket_recv (s_timeout self) nt (s_fd self) plen of (nt, pass, res) \<Rightarrow>
      if res \<noteq> int plen then Some (nt, a, self, - 1)
      else map_option (Pair nt) (server_login fuel a self (take nlen name) pass))"

definition hev_socks5_server_write_auth_user :: "net \<Rightarrow> 'a HevSocks5Server_scheme \<Rightarrow> int \<Rightarrow> net \<times> int" where
  "hev_socks5_server_write_auth_user nt self auth_res =
     (case hev_task_io_socket_send (s_timeout self) nt (s_fd self) [1, word_of_int auth_res] of (nt, res) \<Rightarrow>
      if res \<le> 0 then (nt, - 1) else (nt, 0))"

definition hev_socks5_server_auth ::
  "nat \<Rightarrow> net \<Rightarrow> auth_store \<Rightarrow> 'a HevSocks5Server_scheme \<Rightarrow> (net \<times> auth_store \<times> 'a HevSocks5Server_scheme \<times> int) option" where
  "hev_socks5_server_auth fuel nt a self =
     (let (nt, method) = hev_socks5_server_read_auth_method nt self;
          (nt, res) = hev_socks5_server_write_auth_method nt self method in
      if res < 0 then Some (nt, a, self, - 1)
      else if method = uint HEV_SOCKS5_AUTH_METHOD_NONE then Some (nt, a, self, 0)
      else if method = uint HEV_SOCKS5_AUTH_METHOD_USER then do {
        (nt, a, self, res) \<leftarrow> hev_socks5_server_read_auth_user fuel nt a self;
        let (nt, res2) = hev_socks5_server_write_auth_user nt self res in
        if (if res = 0 then res2 else if res2 = 0 then res else - 1) < 0 then Some (nt, a, self, - 1)
        else Some (nt, a, self, 0) }
      else Some (nt, a, self, - 1))"

section \<open>Request and reply\<close>

text \<open>The out parameters \<open>cmd\<close>, \<open>rep\<close> and \<open>addr\<close> keep their values on the branches that do not
  assign them. The bytes of the address lie in the request struct from its type on.\<close>

record request =
  q_cmd :: u8
  q_rep :: u8
  q_addr :: sockaddr_in6

definition hev_socks5_server_read_request ::
  "resolver \<Rightarrow> net \<Rightarrow> 'a HevSocks5Server_scheme \<Rightarrow> request \<Rightarrow> net \<times> 'a HevSocks5Server_scheme \<times> request \<times> int" where
  "hev_socks5_server_read_request rs nt self q =
     (case hev_task_io_socket_recv (s_timeout self) nt (s_fd self) 5 of (nt, req, res) \<Rightarrow>
      if res \<noteq> 5 then (nt, self, q, - 1)
      else if req ! 0 \<noteq> HEV_SOCKS5_VERSION_5 then (nt, self, q\<lparr>q_rep := HEV_SOCKS5_RES_REP_FAIL\<rparr>, 0)
      else if req ! 3 \<noteq> HEV_SOCKS5_ADDR_TYPE_IPV4 \<and> req ! 3 \<noteq> HEV_SOCKS5_ADDR_TYPE_IPV6 \<and> req ! 3 \<noteq> HEV_SOCKS5_ADDR_TYPE_NAME
      then (nt, self, q\<lparr>q_rep := HEV_SOCKS5_RES_REP_ADDR\<rparr>, 0)
      else let addrlen = (if req ! 3 = HEV_SOCKS5_ADDR_TYPE_IPV4 then 5
                          else if req ! 3 = HEV_SOCKS5_ADDR_TYPE_IPV6 then 17 else 2 + unat (req ! 4)) in
      case hev_task_io_socket_recv (s_timeout self) nt (s_fd self) addrlen of (nt, rest, res) \<Rightarrow>
      if res \<noteq> int addrlen then (nt, self, q\<lparr>q_rep := HEV_SOCKS5_RES_REP_ADDR\<rparr>, 0)
      else case hev_socks5_addr_into_sockaddr6 rs ([req ! 3, req ! 4] @ rest) (q_addr q) (hev_socks5_get_addr_family self) of
        (addr, family, res) \<Rightarrow>
      if res < 0 then (nt, self, q\<lparr>q_addr := addr, q_rep := HEV_SOCKS5_RES_REP_ADDR\<rparr>, 0)
      else (nt, hev_socks5_set_addr_family self family, q\<lparr>q_addr := addr, q_cmd := req ! 1\<rparr>, 0))"

text \<open>\<open>buf\<close> is the uninitialised address of the reply struct.\<close>

definition hev_socks5_server_write_response ::
  "bytes \<Rightarrow> net \<Rightarrow> 'a HevSocks5Server_scheme \<Rightarrow> u8 \<Rightarrow> sockaddr_in6 \<Rightarrow> net \<times> int" where
  "hev_socks5_server_write_response buf nt self rp addr =
     (case hev_socks5_addr_from_sockaddr6 buf addr of (a, n) \<Rightarrow>
      case hev_task_io_socket_send (s_timeout self) nt (s_fd self) ([HEV_SOCKS5_VERSION_5, rp, 0] @ take (nat n) a) of (nt, ret) \<Rightarrow>
      if ret \<le> 0 then (nt, - 1) else (nt, 0))"

section \<open>Serving a request\<close>

definition hev_socks5_server_connect ::
  "misc \<Rightarrow> net \<Rightarrow> 'a HevSocks5Server_scheme \<Rightarrow> sockaddr_in6 \<Rightarrow> net \<times> 'a HevSocks5Server_scheme \<times> int" where
  "hev_socks5_server_connect m nt self addr =
     (case hev_socks5_socket nt SOCK_STREAM of (nt, fd) \<Rightarrow>
      if fd < 0 then (nt, self, - 1) else
      case hev_socks5_bind nt self fd addr of (nt, res) \<Rightarrow>
      if res < 0 then (drop_fd nt fd, self, - 1) else
      let self = hev_socks5_set_timeout self (connect_timeout m) in
      case hev_task_io_socket_connect (s_timeout self) nt fd addr of (nt, res) \<Rightarrow>
      if res < 0 then (drop_fd nt fd, self, - 1) else
      let self = hev_socks5_set_timeout self (tcp_timeout m) in
      (nt, self\<lparr>v_fd0 := fd\<rparr>, 0))"

definition hev_socks5_server_udp_bind ::
  "net \<Rightarrow> 'a HevSocks5Server_scheme \<Rightarrow> int \<Rightarrow> sockaddr_in6 \<Rightarrow> net \<times> sockaddr_in6 \<times> int" where
  "hev_socks5_server_udp_bind nt self sock src =
     (case sys_getsockname nt of
        (nt, None) \<Rightarrow> (nt, src, - 1)
      | (nt, Some src) \<Rightarrow>
          let src = src\<lparr>sin6_port := 0\<rparr> in
          case syscall nt of (nt, res) \<Rightarrow>
          if res < 0 then (nt, src, - 1) else
          (case sys_getsockname nt of
             (nt, None) \<Rightarrow> (nt, src, - 1)
           | (nt, Some src) \<Rightarrow> (nt, src, 0)))"

text \<open>Without an address only the outgoing socket is made.\<close>

definition hev_socks5_server_bind ::
  "net \<Rightarrow> 'a HevSocks5Server_scheme \<Rightarrow> sockaddr_in6 option \<Rightarrow> net \<times> 'a HevSocks5Server_scheme \<times> sockaddr_in6 option \<times> int" where
  "hev_socks5_server_bind nt self addr =
     (case hev_socks5_socket nt SOCK_DGRAM of (nt, fd) \<Rightarrow>
      if fd < 0 then (nt, self, addr, - 1) else
      let self = self\<lparr>v_fd0 := fd\<rparr> in
      case addr of None \<Rightarrow> (nt, self, None, 0)
      | Some src \<Rightarrow>
          case hev_socks5_socket nt SOCK_DGRAM of (nt, fd) \<Rightarrow>
          if fd < 0 then (nt, self, Some src, - 1) else
          case syscall nt of (nt, res) \<Rightarrow>
          if res < 0 then (drop_fd nt fd, self, Some src, - 1) else
          case hev_socks5_server_udp_bind nt self fd src of (nt, src, res) \<Rightarrow>
          if res < 0 then (drop_fd nt fd, self, Some src, - 1) else
          (nt, self\<lparr>v_fd1 := fd\<rparr>, Some src, 0))"

text \<open>The part of the handshake between the request and the reply.\<close>

definition server_dispatch ::
  "misc \<Rightarrow> net \<Rightarrow> 'a HevSocks5Server_scheme \<Rightarrow> request \<Rightarrow> net \<times> 'a HevSocks5Server_scheme \<times> request" where
  "server_dispatch m nt self q =
     (if q_rep q \<noteq> HEV_SOCKS5_RES_REP_SUCC then (nt, self, q)
      else if q_cmd q = HEV_SOCKS5_REQ_CMD_CONNECT then
        (case hev_socks5_server_connect m nt self (q_addr q) of (nt, self, res) \<Rightarrow>
         (nt, self\<lparr>s_type := TYPE_TCP\<rparr>, if res < 0 then q\<lparr>q_rep := HEV_SOCKS5_RES_REP_HOST\<rparr> else q))
      else if q_cmd q = HEV_SOCKS5_REQ_CMD_UDP_ASC then
        (case hev_socks5_server_bind nt self (Some (q_addr q)) of (nt, self, addr, res) \<Rightarrow>
         (nt, self\<lparr>s_type := TYPE_UDP_IN_UDP\<rparr>,
          (if res < 0 then q\<lparr>q_rep := HEV_SOCKS5_RES_REP_FAIL\<rparr> else q)\<lparr>q_addr := (case addr of Some x \<Rightarrow> x | None \<Rightarrow> q_addr q)\<rparr>))
      else if q_cmd q = HEV_SOCKS5_REQ_CMD_FWD_UDP then
        (case hev_socks5_server_bind nt self None of (nt, self, _, res) \<Rightarrow>
         (nt, self\<lparr>s_type := TYPE_UDP_IN_TCP\<rparr>, if res < 0 then q\<lparr>q_rep := HEV_SOCKS5_RES_REP_FAIL\<rparr> else q))
      else (nt, self, q\<lparr>q_rep := HEV_SOCKS5_RES_REP_IMPL\<rparr>))"

text \<open>\<open>q0\<close> has the uninitialised locals.\<close>

definition hev_socks5_server_handshake ::
  "misc \<Rightarrow> resolver \<Rightarrow> nat \<Rightarrow> bytes \<Rightarrow> request \<Rightarrow> net \<Rightarrow> auth_store \<Rightarrow> 'a HevSocks5Server_scheme \<Rightarrow>
   (net \<times> auth_store \<times> 'a HevSocks5Server_scheme \<times> int) option" where
  "hev_socks5_server_handshake m rs fuel buf q0 nt a self = do {
     let self = hev_socks5_set_timeout self (tcp_timeout m);
     (nt, a, self, res) \<leftarrow> hev_socks5_server_auth fuel nt a self;
     if res < 0 then Some (nt, a, self, - 1) else
     let (nt, self, q, res) = hev_socks5_server_read_request rs nt self (q0\<lparr>q_rep := HEV_SOCKS5_RES_REP_SUCC\<rparr>) in
     if res < 0 then Some (nt, a, self, - 1) else
     let (nt, self, q) = server_dispatch m nt self q;
         (nt, res) = hev_socks5_server_write_response buf nt self (q_rep q) (q_addr q) in
     if res < 0 \<or> q_rep q \<noteq> HEV_SOCKS5_RES_REP_SUCC then Some (nt, a, self, - 1) else Some (nt, a, self, 0) }"

text \<open>The two splicers are arguments.\<close>

definition hev_socks5_server_service ::
  "misc \<Rightarrow> (net \<Rightarrow> 'a HevSocks5Server_scheme \<Rightarrow> int \<Rightarrow> net \<times> 'a HevSocks5Server_scheme) \<Rightarrow>
   (net \<Rightarrow> 'a HevSocks5Server_scheme \<Rightarrow> int \<Rightarrow> net \<times> 'a HevSocks5Server_scheme) \<Rightarrow>
   net \<Rightarrow> 'a HevSocks5Server_scheme \<Rightarrow> net \<times> 'a HevSocks5Server_scheme \<times> int" where
  "hev_socks5_server_service m tcp_splice udp_splice nt self =
     (case s_type self of
        TYPE_TCP \<Rightarrow> (case tcp_splice nt self (v_fd0 self) of (nt, self) \<Rightarrow> (nt, self, 0))
      | TYPE_NONE \<Rightarrow> (nt, self, - 1)
      | _ \<Rightarrow> (let self = hev_socks5_set_timeout self (udp_timeout m) in
              case udp_splice nt self (v_fd0 self) of (nt, self) \<Rightarrow> (nt, self, 0)))"

definition hev_socks5_server_run ::
  "misc \<Rightarrow> resolver \<Rightarrow> nat \<Rightarrow> bytes \<Rightarrow> request \<Rightarrow>
   (net \<Rightarrow> 'a HevSocks5Server_scheme \<Rightarrow> int \<Rightarrow> net \<times> 'a HevSocks5Server_scheme) \<Rightarrow>
   (net \<Rightarrow> 'a HevSocks5Server_scheme \<Rightarrow> int \<Rightarrow> net \<times> 'a HevSocks5Server_scheme) \<Rightarrow>
   net \<Rightarrow> auth_store \<Rightarrow> 'a HevSocks5Server_scheme \<Rightarrow> (net \<times> auth_store \<times> 'a HevSocks5Server_scheme \<times> int) option" where
  "hev_socks5_server_run m rs fuel buf q0 tcp_splice udp_splice nt a self = do {
     let nt = hev_task_add_fd nt (s_fd self);
     (nt, a, self, res) \<leftarrow> hev_socks5_server_handshake m rs fuel buf q0 nt a self;
     if res < 0 then Some (nt, a, self, - 1) else
     let (nt, self, res) = hev_socks5_server_service m tcp_splice udp_splice nt self in
     if res < 0 then Some (nt, a, self, - 1) else Some (nt, a, self, 0) }"

definition hev_socks5_server_get_fd :: "'a HevSocks5Server_scheme \<Rightarrow> int" where
  "hev_socks5_server_get_fd self =
     (case s_type self of TYPE_UDP_IN_TCP \<Rightarrow> s_fd self | TYPE_UDP_IN_UDP \<Rightarrow> v_fd1 self | _ \<Rightarrow> - 1)"

definition hev_socks5_server_destruct ::
  "nat \<Rightarrow> net \<Rightarrow> auth_store \<Rightarrow> 'a HevSocks5Server_scheme \<Rightarrow> (net \<times> auth_store) option" where
  "hev_socks5_server_destruct fuel nt a self = do {
     let nt = (if 0 \<le> v_fd0 self then drop_fd nt (v_fd0 self) else nt);
     let nt = (if 0 \<le> v_fd1 self then drop_fd nt (v_fd1 self) else nt);
     a \<leftarrow> obj_unref fuel a (v_obj self);
     Some (hev_socks5_destruct nt self, a) }"

text \<open>\<open>hev_socks5_tcp_splicer\<close>; \<open>io_splice\<close> is the copying loop of the task library.\<close>

definition hev_socks5_tcp_splicer ::
  "(net \<Rightarrow> int \<Rightarrow> int \<Rightarrow> int \<Rightarrow> net) \<Rightarrow> net \<Rightarrow> 'a HevSocks5_scheme \<Rightarrow> int \<Rightarrow> net \<times> int" where
  "hev_socks5_tcp_splicer io_splice nt self fd =
     (let cfd = s_fd self in
      if cfd < 0 then (nt, - 1) else
      let nt = hev_task_add_fd nt fd in (io_splice nt (s_timeout self) cfd fd, 0))"

end
