(* ===== verification/ServerSteps.thy ===== *)
theory ServerSteps
  imports Socks5Server
begin

text \<open>
  The steps of the SOCKS5 server: the messages it accepts as parsers of the client's byte
  stream, what each step sends and consumes, and which descriptors it makes. The server's
  authentication is proved against the table of passwords its authenticator stands for.
\<close>

section \<open>What the server accepts\<close>

fun parse_hello :: "bytes \<Rightarrow> (bytes \<times> bytes) option" where
  "parse_hello (v # n # r) = (if v = 5 \<and> unat n \<le> length r then Some (take (unat n) r, drop (unat n) r) else None)"
| "parse_hello _ = None"

text \<open>The method the server insists on, and whether the client offers it.\<close>

definition wanted :: "'a HevSocks5Server_scheme \<Rightarrow> u8" where
  "wanted self = (if v_obj self \<noteq> NoObj then 2 else 0)"

definition pick_method :: "u8 \<Rightarrow> bytes \<Rightarrow> bytes option" where
  "pick_method w s = (case parse_hello s of None \<Rightarrow> None | Some (ms, r) \<Rightarrow> if w \<in> set ms then Some r else None)"

fun parse_userpass :: "bytes \<Rightarrow> (bytes \<times> bytes \<times> bytes) option" where
  "parse_userpass (v # n # r) =
     (if v = 1 \<and> n \<noteq> 0 \<and> unat n + 1 \<le> length r then
        (let p = r ! unat n; r' = drop (unat n + 1) r in
         if p \<noteq> 0 \<and> unat p \<le> length r' then Some (take (unat n) r, take (unat p) r', drop (unat p) r') else None)
      else None)"
| "parse_userpass _ = None"

lemma parse_hello_append:
  "length bs = 2 \<Longrightarrow> parse_hello (bs @ s) =
     (if bs ! 0 = 5 \<and> unat (bs ! 1) \<le> length s then Some (take (unat (bs ! 1)) s, drop (unat (bs ! 1)) s) else None)"
  by (cases bs; cases "tl bs") auto

lemma parse_userpass_append:
  "length bs = 2 \<Longrightarrow> parse_userpass (bs @ s) =
     (if bs ! 0 = 1 \<and> bs ! 1 \<noteq> 0 \<and> unat (bs ! 1) + 1 \<le> length s then
        (let p = s ! unat (bs ! 1); r' = drop (unat (bs ! 1) + 1) s in
         if p \<noteq> 0 \<and> unat p \<le> length r' then Some (take (unat (bs ! 1)) s, take (unat p) r', drop (unat p) r') else None)
      else None)"
  by (cases bs; cases "tl bs") (auto simp: Let_def)

lemma server_parse_short: "length s < 2 \<Longrightarrow> parse_hello s = None" "length s < 2 \<Longrightarrow> parse_userpass s = None"
  by (cases s rule: parse_hello.cases; simp; fail)+

lemma recv_any_conn:
  assumes "conn t fd nt out s" "task_recv w dw t' nt fd n = (nt', bs, r)"
  shows "io_only fd nt nt' \<and> (\<exists>s'. conn t fd nt' out s')"
  using assms recv_io [OF assms(2)] by (auto simp: task_recv_def conn_def split: prod.splits)

lemma send_conn:
  assumes "conn t fd nt out s" "buf \<noteq> []"
  shows "\<exists>nt' r. hev_task_io_socket_send t nt fd buf = (nt', r) \<and> 0 < r \<and> io_only fd nt nt' \<and> conn t fd nt' (out @ buf) s"
  using sendmsg_conn [OF assms(1), of "[buf]"] assms(2)
  by (auto simp: hev_task_io_socket_send_def iov_len_def)

lemma uint_u8_bound: "int (unat (x :: u8)) = uint x"
  by simp

lemma u8_255: "(255 :: u8) = - 1"
  by simp

lemma recv_loop_zero: "recv_loop w dw t 0 got ag es = (es', bs, r, ag') \<Longrightarrow> bs = got"
  by (induction w dw t "0 :: nat" got ag es rule: recv_loop.induct) (auto simp: Let_def split: if_splits)

lemma recv_zero: "task_recv w dw t nt fd 0 = (nt', bs, r) \<Longrightarrow> bs = []"
  by (auto simp: task_recv_def split: prod.splits dest: recv_loop_zero)

section \<open>Authentication\<close>

lemma server_read_method_conn:
  assumes c: "conn (s_timeout self) (s_fd self) nt out s"
  shows "\<exists>nt' s'. hev_socks5_server_read_auth_method nt self =
      (nt', case pick_method (wanted self) s of None \<Rightarrow> - 1 | Some r \<Rightarrow> uint (wanted self)) \<and>
    io_only (s_fd self) nt nt' \<and> conn (s_timeout self) (s_fd self) nt' out s' \<and> (\<forall>r. pick_method (wanted self) s = Some r \<longrightarrow> s' = r)"
proof (cases rule: recv_conn [OF c, of 2, simplified])
  case (1 nt1 bs r s1)
  then show ?thesis by (auto simp: hev_socks5_server_read_auth_method_def pick_method_def server_parse_short)
next
  case (2 nt1 bs s1)
  note head = 2
  obtain nt2 ms r where 3: "hev_task_io_socket_recv (s_timeout self) nt1 (s_fd self) (unat (bs ! 1)) = (nt2, ms, r)"
    by (rule prod_cases3)
  obtain s2 where any: "io_only (s_fd self) nt1 nt2" "conn (s_timeout self) (s_fd self) nt2 out s2"
    using recv_any_conn [OF 2(5) 3] by blast
  have io: "io_only (s_fd self) nt nt2" using 2(4) any(1) by (rule io_only_trans)
  show ?thesis
  proof (cases "bs ! 0 = 5 \<and> 0 < unat (bs ! 1)")
    case True
    then have n: "0 < unat (bs ! 1)" by simp
    show ?thesis
    proof (cases rule: recv_conn [OF 2(5) n])
      case (1 nt3 ms' r' s3)
      then show ?thesis using 2 True io_only_trans [OF head(4) 1(4)]
        by (auto simp: hev_socks5_server_read_auth_method_def pick_method_def parse_hello_append socks5_consts)
    next
      case (2 nt3 ms' s3)
      then show ?thesis
        using head True io_only_trans [OF head(4) 2(4)]
        by (intro exI [of _ nt3] exI [of _ s3])
          (auto simp: hev_socks5_server_read_auth_method_def pick_method_def parse_hello_append socks5_consts wanted_def)
    qed
  next
    case False
    then have "pick_method (wanted self) s = None"
      using 2 by (cases "bs ! 1 = 0") (auto simp: pick_method_def parse_hello_append unat_eq_0)
    moreover have "ms = []" if "unat (bs ! 1) = 0" using 3 recv_zero that by metis
    then have "hev_socks5_server_read_auth_method nt self = (if bs ! 0 = 5 then nt2 else nt1, - 1)"
      using 2(1) 3 False by (auto simp: hev_socks5_server_read_auth_method_def socks5_consts)
    ultimately show ?thesis using io any 2(4,5) by (cases "bs ! 0 = 5") auto
  qed
qed

lemma write_auth_method_conn:
  assumes "conn (s_timeout self) (s_fd self) nt out s"
  shows "\<exists>nt'. hev_socks5_server_write_auth_method nt self m = (nt', 0) \<and> io_only (s_fd self) nt nt' \<and>
    conn (s_timeout self) (s_fd self) nt' (out @ [5, word_of_int m]) s"
  using send_conn [OF assms, of "[5, word_of_int m]"]
  by (auto simp: hev_socks5_server_write_auth_method_def socks5_consts)

lemma write_auth_user_conn:
  assumes "conn (s_timeout self) (s_fd self) nt out s"
  shows "\<exists>nt'. hev_socks5_server_write_auth_user nt self m = (nt', 0) \<and> io_only (s_fd self) nt nt' \<and>
    conn (s_timeout self) (s_fd self) nt' (out @ [1, word_of_int m]) s"
  using send_conn [OF assms, of "[1, word_of_int m]"]
  by (auto simp: hev_socks5_server_write_auth_user_def)

text \<open>Every user of the tree is referenced, at least by the tree.\<close>

definition auth_held :: "HevSocks5Authenticator \<Rightarrow> rbt \<Rightarrow> bool" where
  "auth_held a T \<longleftrightarrow> auth_rep a T \<and> (\<forall>x \<in> set (addrs T). \<forall>u. a_users a x = Some u \<longrightarrow> 0 < us_ref u)"

lemma auth_unref_rep:
  assumes "auth_rep a T" "length (addrs T) < fuel"
  shows "\<exists>a' T'. auth_unref fuel a = Some a' \<and> auth_rep a' T' \<and>
    (\<forall>y u. a_users a y = Some u \<and> (y \<in> set (addrs T) \<longrightarrow> 1 < us_ref u) \<longrightarrow> (\<exists>u'. a_users a' y = Some u' \<and> us_name u' = us_name u))"
proof (cases "1 < a_ref a")
  case True
  then show ?thesis using assms(1)
    by (intro exI [of _ "a\<lparr>a_ref := a_ref a - 1\<rparr>"] exI [of _ T])
      (auto simp: auth_unref_def auth_rep_def uname_def)
next
  case False
  have "auth_rep (a\<lparr>a_ref := 0\<rparr>) T" using assms(1) by (simp add: auth_rep_def uname_def)
  from clear_loop_refines [OF this assms(2,2)] obtain a' where "clear_loop fuel fuel (a\<lparr>a_ref := 0\<rparr>) = Some a'" "auth_rep a' Lf"
    "\<forall>y. a_users a' y = (case a_users a y of None \<Rightarrow> None | Some u \<Rightarrow>
       if y \<notin> set (addrs T) then Some u else if us_ref u > 1 then Some (u\<lparr>us_ref := us_ref u - 1\<rparr>) else None)" by auto
  then show ?thesis using False
    by (intro exI [of _ a'] exI [of _ Lf])
      (auto simp: auth_unref_def hev_socks5_authenticator_destruct_def hev_socks5_authenticator_clear_def)
qed

lemma server_login_table:
  assumes r: "auth_held a T" "length (addrs T) < fuel" and o: "v_obj self = ObjAuth"
  shows "\<exists>a' T' self' res. server_login fuel a self n p = Some (a', self', res) \<and> auth_rep a' T' \<and>
    (if passwords a (addrs T) n = Some p
     then res = 0 \<and> (\<exists>x u. self' = self\<lparr>v_obj := ObjUser x\<rparr> \<and> a_users a' x = Some u \<and> us_name u = n)
     else res = - 1 \<and> a' = a \<and> self' = self)"
proof (cases "users_of a (addrs T) n")
  case None
  then show ?thesis using get_refines [of a T fuel n] r o by (auto simp: server_login_def passwords_def auth_held_def)
next
  case (Some x)
  have rp: "auth_rep a T" using r(1) by (simp add: auth_held_def)
  have x: "x \<in> set (addrs T)" "uname a x = n" using Some by (auto simp: users_of_def dest: map_of_SomeD)
  then obtain u where u: "a_users a x = Some u" "us_name u = n" "us_pass u = upass a x" "x \<noteq> 0" "0 < us_ref u"
    using live_user [OF rp] r(1) tree_rep_nonzero unfolding auth_held_def auth_rep_def by metis
  have pw: "passwords a (addrs T) n = Some (us_pass u)" using Some u(3) by (simp add: passwords_def)
  let ?a = "a\<lparr>a_users := (a_users a)(x \<mapsto> u\<lparr>us_ref := us_ref u + 1\<rparr>)\<rparr>"
  have nm: "uname ?a y = uname a y" for y using u by (simp add: uname_def)
  have "auth_rep ?a T" using rp x(1) nm by (auto simp: auth_rep_def)
  from auth_unref_rep [OF this r(2)] obtain a' T' where a': "auth_unref fuel ?a = Some a'" "auth_rep a' T'"
    "\<exists>u'. a_users a' x = Some u' \<and> us_name u' = n" using u(2,5) by force
  have get: "hev_socks5_authenticator_get fuel a n = Some x" using get_refines [OF rp r(2), of n] Some by simp
  have ref: "user_ref a x = Some ?a" using u(1) by (simp add: user_ref_def)
  show ?thesis
  proof (cases "us_pass u = p")
    case True
    then show ?thesis using get ref a' u o pw
      by (intro exI [of _ a'] exI [of _ T'] exI [of _ "self\<lparr>v_obj := ObjUser x\<rparr>"] exI [of _ 0])
        (auto simp: server_login_def hev_socks5_user_check_def checker_iff)
  next
    case False
    then show ?thesis using get u o pw rp
      by (intro exI [of _ a] exI [of _ T] exI [of _ self] exI [of _ "- 1"])
        (auto simp: server_login_def hev_socks5_user_check_def checker_iff)
  qed
qed

lemma read_auth_user_conn:
  assumes c: "conn (s_timeout self) (s_fd self) nt out s"
  shows "\<exists>nt' s'. hev_socks5_server_read_auth_user fuel nt a self =
      (case parse_userpass s of None \<Rightarrow> Some (nt', a, self, - 1)
       | Some (n, p, r) \<Rightarrow> map_option (Pair nt') (server_login fuel a self n p)) \<and>
    io_only (s_fd self) nt nt' \<and> conn (s_timeout self) (s_fd self) nt' out s' \<and> (\<forall>n p r. parse_userpass s = Some (n, p, r) \<longrightarrow> s' = r)"
proof (cases rule: recv_conn [OF c, of 2, simplified])
  case (1 nt1 bs r s1)
  then show ?thesis by (auto simp: hev_socks5_server_read_auth_user_def server_parse_short)
next
  case (2 nt1 bs s1)
  note head = 2
  let ?n = "unat (bs ! 1)"
  show ?thesis
  proof (cases "bs ! 0 = 1 \<and> bs ! 1 \<noteq> 0")
    case False
    then show ?thesis using 2 by (auto simp: hev_socks5_server_read_auth_user_def parse_userpass_append unat_eq_zero)
  next
    case True
    then have n0: "?n \<noteq> 0" by (simp add: unat_eq_zero)
    show ?thesis
    proof (cases rule: recv_conn [OF 2(5), of "?n + 1", simplified])
      case (1 nt2 nm r2 s2)
      then show ?thesis using head True n0 io_only_trans [OF head(4) 1(4)]
        by (intro exI [of _ nt2] exI [of _ s2]) (auto simp: hev_socks5_server_read_auth_user_def parse_userpass_append Let_def)
    next
      case (2 nt2 nm s2)
      note name = 2
      have io2: "io_only (s_fd self) nt nt2" using io_only_trans [OF head(4) 2(4)] .
      have nm: "length nm = Suc ?n" "s1 = nm @ s2" using 2 by auto
      show ?thesis
      proof (cases "nm ! ?n = 0")
        case zero: True
        then show ?thesis using head 2 True n0 io2
          by (intro exI [of _ nt2] exI [of _ s2]) (auto simp: hev_socks5_server_read_auth_user_def parse_userpass_append Let_def nth_append)
      next
        case False
        then have p0: "0 < unat (nm ! ?n)" by (simp add: unat_gt_0)
        show ?thesis
        proof (cases rule: recv_conn [OF 2(5) p0])
          case (1 nt3 pw r3 s3)
          then show ?thesis using head name True n0 False p0 io_only_trans [OF io2 1(4)]
            by (intro exI [of _ nt3] exI [of _ s3]) (auto simp: hev_socks5_server_read_auth_user_def parse_userpass_append Let_def nth_append)
        next
          case (2 nt3 pw s3)
          then show ?thesis using head name True n0 False p0 io_only_trans [OF io2 2(4)]
            by (intro exI [of _ nt3] exI [of _ s3]) (auto simp: hev_socks5_server_read_auth_user_def parse_userpass_append Let_def nth_append)
        qed
      qed
    qed
  qed
qed

text \<open>What the server answers to a greeting and a login, and what it leaves unread when it lets the
  client in. \<open>w\<close> is the method it insists on and \<open>M\<close> the passwords.\<close>

definition auth_answer :: "u8 \<Rightarrow> (bytes \<rightharpoonup> bytes) \<Rightarrow> bytes \<Rightarrow> bytes \<times> bytes option" where
  "auth_answer w M s = (case pick_method w s of None \<Rightarrow> ([5, 255], None)
     | Some r \<Rightarrow> if w = 0 then ([5, 0], Some r) else
        (case parse_userpass r of None \<Rightarrow> ([5, 2, 1, 255], None)
         | Some (n, p, r') \<Rightarrow> if M n = Some p then ([5, 2, 1, 0], Some r') else ([5, 2, 1, 255], None)))"

definition auth_state :: "HevSocks5Authenticator \<Rightarrow> 'a HevSocks5Server_scheme \<Rightarrow> bool" where
  "auth_state a self \<longleftrightarrow> (case v_obj self of ObjUser x \<Rightarrow> a_users a x \<noteq> None | _ \<Rightarrow> True)"

lemma server_auth_conn:
  assumes r: "auth_held a T" "length (addrs T) < fuel" and o: "v_obj self = NoObj \<or> v_obj self = ObjAuth"
    and c: "conn (s_timeout self) (s_fd self) nt out s"
    and ans: "auth_answer (wanted self) (passwords a (addrs T)) s = (reply, rest)"
  shows "\<exists>nt' a' T' self' res s'. hev_socks5_server_auth fuel nt a self = Some (nt', a', self', res) \<and> auth_rep a' T' \<and>
    io_only (s_fd self) nt nt' \<and> conn (s_timeout self) (s_fd self) nt' (out @ reply) s' \<and>
    (case rest of None \<Rightarrow> res = - 1 \<and> a' = a \<and> self' = self
     | Some r \<Rightarrow> res = 0 \<and> s' = r \<and> (if v_obj self = NoObj then a' = a \<and> self' = self
         else \<exists>x u. self' = self\<lparr>v_obj := ObjUser x\<rparr> \<and> a_users a' x = Some u))"
proof -
  let ?w = "wanted self" and ?M = "passwords a (addrs T)"
  have rp: "auth_rep a T" using r(1) by (simp add: auth_held_def)
  obtain nt1 s1 where 1: "hev_socks5_server_read_auth_method nt self =
      (nt1, case pick_method ?w s of None \<Rightarrow> - 1 | Some r \<Rightarrow> uint ?w)" "io_only (s_fd self) nt nt1"
    "conn (s_timeout self) (s_fd self) nt1 out s1" "\<forall>r. pick_method ?w s = Some r \<longrightarrow> s1 = r"
    using server_read_method_conn [OF c] by blast
  define m where "m = (case pick_method ?w s of None \<Rightarrow> - 1 | Some r \<Rightarrow> uint ?w)"
  obtain nt2 where 2: "hev_socks5_server_write_auth_method nt1 self m = (nt2, 0)" "io_only (s_fd self) nt1 nt2"
    "conn (s_timeout self) (s_fd self) nt2 (out @ [5, word_of_int m]) s1"
    using write_auth_method_conn [OF 1(3)] by blast
  note io2 = io_only_trans [OF 1(2) 2(2)]
  show ?thesis
  proof (cases "pick_method ?w s")
    case None
    then have "m = - 1" "reply = [5, 255]" "rest = None" using ans by (auto simp: m_def auth_answer_def)
    then show ?thesis using 1(1) 2 io2 None rp
      by (intro exI [of _ nt2] exI [of _ a] exI [of _ T] exI [of _ self] exI [of _ "- 1"] exI [of _ s1])
        (simp add: hev_socks5_server_auth_def socks5_consts u8_255)
  next
    case (Some q)
    show ?thesis
    proof (cases "v_obj self = NoObj")
      case True
      then have w: "?w = 0" by (simp add: wanted_def)
      have "m = 0" using Some w by (simp add: m_def)
      moreover have "reply = [5, 0]" "rest = Some s1" using ans Some w 1(4) by (auto simp: auth_answer_def)
      ultimately show ?thesis using 1(1) 2 io2 Some rp True w
        by (intro exI [of _ nt2] exI [of _ a] exI [of _ T] exI [of _ self] exI [of _ "0"] exI [of _ s1])
          (simp add: hev_socks5_server_auth_def socks5_consts)
    next
      case False
      then have w: "?w = 2" "m = 2" "q = s1" "v_obj self = ObjAuth"
        using o Some 1(4) by (auto simp: m_def wanted_def)
      obtain nt3 s3 where 3: "hev_socks5_server_read_auth_user fuel nt2 a self =
          (case parse_userpass s1 of None \<Rightarrow> Some (nt3, a, self, - 1)
           | Some (n, p, r) \<Rightarrow> map_option (Pair nt3) (server_login fuel a self n p))" "io_only (s_fd self) nt2 nt3"
        "conn (s_timeout self) (s_fd self) nt3 (out @ [5, 2]) s3" "\<forall>n p r. parse_userpass s1 = Some (n, p, r) \<longrightarrow> s3 = r"
        using read_auth_user_conn [OF 2(3), of fuel a] w(2) by auto
      have "\<exists>a' T' self' res. hev_socks5_server_read_auth_user fuel nt2 a self = Some (nt3, a', self', res) \<and> auth_rep a' T' \<and>
          s_timeout self' = s_timeout self \<and> s_fd self' = s_fd self \<and> reply = [5, 2, 1, word_of_int res] \<and>
          (case rest of None \<Rightarrow> res = - 1 \<and> a' = a \<and> self' = self
           | Some r \<Rightarrow> res = 0 \<and> s3 = r \<and> (\<exists>x u. self' = self\<lparr>v_obj := ObjUser x\<rparr> \<and> a_users a' x = Some u))"
      proof (cases "parse_userpass s1")
        case None
        then show ?thesis using 3(1) rp ans Some w by (auto simp: auth_answer_def)
      next
        case (Some npr)
        obtain n p q where npr: "npr = (n, p, q)" by (rule prod_cases3)
        obtain a' T' self' res where l: "server_login fuel a self n p = Some (a', self', res)" "auth_rep a' T'"
          "if ?M n = Some p then res = 0 \<and> (\<exists>x u. self' = self\<lparr>v_obj := ObjUser x\<rparr> \<and> a_users a' x = Some u \<and> us_name u = n)
           else res = - 1 \<and> a' = a \<and> self' = self"
          using server_login_table [OF r w(4), of n p] by blast
        have rd: "hev_socks5_server_read_auth_user fuel nt2 a self = Some (nt3, a', self', res)"
          using 3(1) Some npr l(1) by simp
        have ps: "auth_answer ?w ?M s = (if ?M n = Some p then ([5, 2, 1, 0], Some q) else ([5, 2, 1, 255], None))"
          using \<open>pick_method ?w s = Some _\<close> Some npr w by (simp add: auth_answer_def)
        show ?thesis
        proof (cases "?M n = Some p")
          case True
          then obtain x u where x: "self' = self\<lparr>v_obj := ObjUser x\<rparr>" "a_users a' x = Some u" "res = 0" using l(3) by auto
          then show ?thesis using rd l(2) ps ans True 3(4) Some npr
            by (intro exI [of _ a'] exI [of _ T'] exI [of _ self'] exI [of _ res]) auto
        next
          case False
          then show ?thesis using rd l(2,3) ps ans
            by (intro exI [of _ a'] exI [of _ T'] exI [of _ self'] exI [of _ res]) auto
        qed
      qed
      then obtain a' T' self' res where 4: "hev_socks5_server_read_auth_user fuel nt2 a self = Some (nt3, a', self', res)" "auth_rep a' T'"
          "s_timeout self' = s_timeout self" "s_fd self' = s_fd self" "reply = [5, 2, 1, word_of_int res]"
          "case rest of None \<Rightarrow> res = - 1 \<and> a' = a \<and> self' = self
           | Some r \<Rightarrow> res = 0 \<and> s3 = r \<and> (\<exists>x u. self' = self\<lparr>v_obj := ObjUser x\<rparr> \<and> a_users a' x = Some u)"
        by blast
      obtain nt4 where 5: "hev_socks5_server_write_auth_user nt3 self' res = (nt4, 0)" "io_only (s_fd self) nt3 nt4"
        "conn (s_timeout self) (s_fd self) nt4 (out @ reply) s3"
        using write_auth_user_conn [of self' nt3 "out @ [5, 2]" s3 res] 3(3) 4(3-5) by auto
      have "res = 0 \<or> res = - 1" using 4(6) by (auto split: option.splits)
      then have "hev_socks5_server_auth fuel nt a self = Some (nt4, a', self', res)"
        using 1(1) 2 Some w 4(1) 5(1) by (auto simp: hev_socks5_server_auth_def socks5_consts m_def)
      then show ?thesis using 4(2,6) 5 io_only_trans [OF io2 io_only_trans [OF 3(2) 5(2)]] False
        by (intro exI [of _ nt4] exI [of _ a'] exI [of _ T'] exI [of _ self'] exI [of _ res] exI [of _ s3]) (simp split: option.splits)
    qed
  qed
qed

section \<open>The request\<close>

text \<open>What the server makes of a request: nothing when it is cut short, a reply code when it is
  malformed, and the command with the address bytes otherwise.\<close>

fun parse_request :: "bytes \<Rightarrow> (u8 + u8 \<times> bytes \<times> bytes) option" where
  "parse_request (v # c # x # t # l # r) =
     (if v \<noteq> 5 then Some (Inl 1)
      else if t \<noteq> 1 \<and> t \<noteq> 4 \<and> t \<noteq> 3 then Some (Inl 8)
      else let n = (if t = 1 then 5 else if t = 4 then 17 else 2 + unat l) in
        if length r < n then Some (Inl 8) else Some (Inr (c, t # l # take n r, drop n r)))"
| "parse_request _ = None"

lemma parse_request_short: "length s < 5 \<Longrightarrow> parse_request s = None"
  by (cases s rule: parse_request.cases) simp_all

lemma parse_request_append:
  assumes "length bs = 5"
  shows "parse_request (bs @ s) =
     (if bs ! 0 \<noteq> 5 then Some (Inl 1)
      else if bs ! 3 \<noteq> 1 \<and> bs ! 3 \<noteq> 4 \<and> bs ! 3 \<noteq> 3 then Some (Inl 8)
      else let n = (if bs ! 3 = 1 then 5 else if bs ! 3 = 4 then 17 else 2 + unat (bs ! 4)) in
        if length s < n then Some (Inl 8) else Some (Inr (bs ! 1, bs ! 3 # bs ! 4 # take n s, drop n s)))"
proof -
  obtain v c x t l where "bs = [v, c, x, t, l]" using assms by (auto simp: length_Suc_conv numeral_eq_Suc)
  then show ?thesis by (simp add: Let_def)
qed

lemma read_request_conn:
  assumes c: "conn (s_timeout self) (s_fd self) nt out s"
  shows "\<exists>nt' s'. hev_socks5_server_read_request rs nt self q =
      (case parse_request s of None \<Rightarrow> (nt', self, q, - 1)
       | Some (Inl e) \<Rightarrow> (nt', self, q\<lparr>q_rep := e\<rparr>, 0)
       | Some (Inr (cmd, a, r)) \<Rightarrow>
          (case hev_socks5_addr_into_sockaddr6 rs a (q_addr q) (s_addr_family self) of (addr, family, res) \<Rightarrow>
           if res < 0 then (nt', self, q\<lparr>q_addr := addr, q_rep := 8\<rparr>, 0)
           else (nt', self\<lparr>s_addr_family := family\<rparr>, q\<lparr>q_addr := addr, q_cmd := cmd\<rparr>, 0))) \<and>
    io_only (s_fd self) nt nt' \<and> conn (s_timeout self) (s_fd self) nt' out s' \<and>
    (\<forall>cmd a r. parse_request s = Some (Inr (cmd, a, r)) \<longrightarrow> s' = r)"
proof (cases rule: recv_conn [OF c, of 5, simplified])
  case (1 nt1 bs r s1)
  then show ?thesis by (auto simp: hev_socks5_server_read_request_def parse_request_short)
next
  case (2 nt1 bs s1)
  let ?n = "if bs ! 3 = 1 then 5 else if bs ! 3 = 4 then 17 else 2 + unat (bs ! 4)"
  show ?thesis
  proof (cases "bs ! 0 = 5 \<and> (bs ! 3 = 1 \<or> bs ! 3 = 4 \<or> bs ! 3 = 3)")
    case False
    then show ?thesis using 2
      by (auto simp: hev_socks5_server_read_request_def parse_request_append socks5_consts Let_def)
  next
    case True
    have n: "0 < ?n" by simp
    show ?thesis
    proof (cases rule: recv_conn [OF 2(5) n])
      case (1 nt2 as r s2)
      have "hev_socks5_server_read_request rs nt self q = (nt2, self, q\<lparr>q_rep := 8\<rparr>, 0)"
        using 2(1) 1(1,2) True by (auto simp: hev_socks5_server_read_request_def socks5_consts Let_def)
      moreover have "parse_request s = Some (Inl 8)"
        using 2(2,3) 1(3) True by (auto simp: parse_request_append Let_def)
      ultimately show ?thesis using 1(5) io_only_trans [OF 2(4) 1(4)] by auto
    next
      case (2 nt2 as s2)
      note head = \<open>hev_task_io_socket_recv _ nt _ 5 = _\<close> \<open>length bs = 5\<close> \<open>s = bs @ s1\<close> \<open>io_only _ nt nt1\<close>
      have ps: "parse_request s = Some (Inr (bs ! 1, bs ! 3 # bs ! 4 # as, s2))"
        using head(2,3) 2(2,3) True by (auto simp: parse_request_append Let_def)
      obtain addr family res where to: "hev_socks5_addr_into_sockaddr6 rs (bs ! 3 # bs ! 4 # as) (q_addr q) (s_addr_family self) = (addr, family, res)"
        by (rule prod_cases3)
      have "hev_socks5_server_read_request rs nt self q =
          (if res < 0 then (nt2, self, q\<lparr>q_addr := addr, q_rep := 8\<rparr>, 0)
           else (nt2, self\<lparr>s_addr_family := family\<rparr>, q\<lparr>q_addr := addr, q_cmd := bs ! 1\<rparr>, 0))"
        using head(1) 2(1) True to
        by (auto simp: hev_socks5_server_read_request_def socks5_consts socks5_accessors Let_def)
      then show ?thesis using ps to 2(5) io_only_trans [OF head(4) 2(4)] by auto
    qed
  qed
qed

text \<open>The reply.\<close>

definition reply_msg :: "u8 \<Rightarrow> sockaddr_in6 \<Rightarrow> bytes" where
  "reply_msg e sa = [5, e, 0] @ (if IN6_IS_ADDR_V4MAPPED (sin6_addr sa) then wire (Ipv4 (drop 12 (sin6_addr sa)) (ntohs (sin6_port sa)))
     else wire (Ipv6 (sin6_addr sa) (ntohs (sin6_port sa))))"

lemma write_response_conn:
  assumes "conn (s_timeout self) (s_fd self) nt out s" "length (sin6_addr sa) = 16" "length buf = sizeof_addr"
  shows "\<exists>nt'. hev_socks5_server_write_response buf nt self e sa = (nt', 0) \<and> io_only (s_fd self) nt nt' \<and>
    conn (s_timeout self) (s_fd self) nt' (out @ reply_msg e sa) s"
proof -
  obtain a n where an: "hev_socks5_addr_from_sockaddr6 buf sa = (a, n)" by (rule prod.exhaust)
  have "[HEV_SOCKS5_VERSION_5, e, 0] @ take (nat n) a = reply_msg e sa"
    using from_sockaddr6_eq [of sa buf] an assms(2,3)
    by (auto simp: reply_msg_def socks5_consts sizeof_addr_def split: if_splits)
  then show ?thesis using send_conn [OF assms(1), of "reply_msg e sa"] an
    by (auto simp: hev_socks5_server_write_response_def reply_msg_def)
qed

section \<open>Serving the request\<close>

text \<open>Making sockets, binding and connecting leave the traffic alone.\<close>

definition same_io :: "net \<Rightarrow> net \<Rightarrow> bool" where
  "same_io nt nt' \<longleftrightarrow> n_rx nt' = n_rx nt \<and> n_tx nt' = n_tx nt \<and> n_out nt' = n_out nt"

lemma same_io_refl [simp]: "same_io nt nt"
  by (simp add: same_io_def)

lemma same_io_trans [trans]: "same_io nt nt' \<Longrightarrow> same_io nt' nt'' \<Longrightarrow> same_io nt nt''"
  by (simp add: same_io_def)

lemma conn_same_io: "same_io nt nt' \<Longrightarrow> conn t fd nt' out s \<longleftrightarrow> conn t fd nt out s"
  by (simp add: same_io_def conn_def)

lemma same_io_socket: "hev_socks5_socket nt ty = (nt', fd) \<Longrightarrow> same_io nt nt'"
  by (cases rule: hev_socks5_socket_cases [of nt ty]) (auto simp: same_io_def)

lemma same_io_syscall: "syscall nt = (nt', r) \<Longrightarrow> same_io nt nt'"
  by (auto simp: syscall_def same_io_def split: list.splits)

lemma same_io_getsockname: "sys_getsockname nt = (nt', r) \<Longrightarrow> same_io nt nt'"
  by (auto simp: sys_getsockname_def same_io_def split: list.splits)

lemma same_io_connect: "hev_task_io_socket_connect t nt fd sa = (nt', r) \<Longrightarrow> same_io nt nt'"
  by (auto simp: hev_task_io_socket_connect_def same_io_def split: prod.splits)

lemma same_io_drop [simp]: "same_io nt (drop_fd nt' fd) = same_io nt nt'"
  by (simp add: same_io_def drop_fd_def sys_close_def hev_task_del_fd_def)

lemma acct_syscall: "syscall nt = (nt', r) \<Longrightarrow> acct B T nt' fds = acct B T nt fds"
  by (auto simp: syscall_def acct_def split: list.splits)

lemma acct_getsockname: "sys_getsockname nt = (nt', r) \<Longrightarrow> acct B T nt' fds = acct B T nt fds"
  by (auto simp: sys_getsockname_def acct_def split: list.splits)

definition srv_owned :: "'a HevSocks5Server_scheme \<Rightarrow> int list" where
  "srv_owned self = filter (\<lambda>fd. 0 \<le> fd) [v_fd0 self, v_fd1 self, s_fd self]"

lemma srv_owned_simps [simp]:
  "srv_owned (self\<lparr>s_timeout := t\<rparr>) = srv_owned self" "srv_owned (self\<lparr>s_type := ty\<rparr>) = srv_owned self"
  "srv_owned (self\<lparr>s_addr_family := f\<rparr>) = srv_owned self" "srv_owned (self\<lparr>v_obj := ob\<rparr>) = srv_owned self"
  "v_fd0 self < 0 \<Longrightarrow> 0 \<le> fd \<Longrightarrow> srv_owned (self\<lparr>v_fd0 := fd\<rparr>) = fd # srv_owned self"
  by (simp_all add: srv_owned_def)

lemma server_connect_keeps:
  assumes c: "hev_socks5_server_connect m nt self sa = (nt', self', r)"
  shows "same_io nt nt' \<and> s_fd self' = s_fd self \<and> (0 \<le> r \<longrightarrow> s_timeout self' = tcp_timeout m) \<and>
    (acct B T nt (srv_owned self) \<and> v_fd0 self < 0 \<longrightarrow> acct B T nt' (srv_owned self'))"
proof -
  obtain nt1 fd where 1: "hev_socks5_socket nt SOCK_STREAM = (nt1, fd)" by (rule prod.exhaust)
  obtain nt2 r2 where 2: "hev_task_io_socket_connect (connect_timeout m) nt1 fd sa = (nt2, r2)" by (rule prod.exhaust)
  have io: "same_io nt nt1" "same_io nt nt2" using same_io_socket [OF 1] same_io_connect [OF 2] same_io_trans by blast+
  have a: "acct B T nt (srv_owned self) \<Longrightarrow> (fd < 0 \<and> acct B T nt1 (srv_owned self)) \<or> (0 \<le> fd \<and> acct B T nt1 (fd # srv_owned self) \<and> acct B T nt2 (fd # srv_owned self))"
    using acct_socket [OF _ 1] acct_connect [OF _ 2] by blast
  show ?thesis using c io a acct_drop [of B T nt1 fd] acct_drop [of B T nt2 fd]
    by (auto simp: hev_socks5_server_connect_def hev_socks5_bind_def socks5_accessors Let_def 1 2 split: if_splits)
qed

lemma server_udp_bind_keeps:
  assumes "hev_socks5_server_udp_bind nt self fd sa = (nt', sa', r)"
  shows "same_io nt nt' \<and> acct B T nt' fds = acct B T nt fds"
proof -
  obtain nt1 a where 1: "sys_getsockname nt = (nt1, a)" by (rule prod.exhaust)
  obtain nt2 r2 where 2: "syscall nt1 = (nt2, r2)" by (rule prod.exhaust)
  obtain nt3 b where 3: "sys_getsockname nt2 = (nt3, b)" by (rule prod.exhaust)
  have "same_io nt nt1" "same_io nt nt2" "same_io nt nt3"
    using same_io_getsockname [OF 1] same_io_syscall [OF 2] same_io_getsockname [OF 3] same_io_trans by blast+
  then show ?thesis
    using assms acct_getsockname [OF 1] acct_syscall [OF 2] acct_getsockname [OF 3]
    by (auto simp: hev_socks5_server_udp_bind_def 1 2 3 Let_def split: option.splits if_splits)
qed

lemma server_bind_keeps:
  assumes c: "hev_socks5_server_bind nt self sa = (nt', self', sa', r)"
  shows "same_io nt nt' \<and> s_fd self' = s_fd self \<and> s_timeout self' = s_timeout self \<and>
    (acct B T nt (srv_owned self) \<and> v_fd0 self < 0 \<and> v_fd1 self < 0 \<longrightarrow> acct B T nt' (srv_owned self'))"
proof -
  obtain nt1 fd where 1: "hev_socks5_socket nt SOCK_DGRAM = (nt1, fd)" by (rule prod.exhaust)
  obtain nt2 fd2 where 2: "hev_socks5_socket nt1 SOCK_DGRAM = (nt2, fd2)" by (rule prod.exhaust)
  obtain nt3 r3 where 3: "syscall nt2 = (nt3, r3)" by (rule prod.exhaust)
  obtain nt4 sa4 r4 where 4: "hev_socks5_server_udp_bind nt3 (self\<lparr>v_fd0 := fd\<rparr>) fd2 (the sa) = (nt4, sa4, r4)" by (rule prod_cases3)
  note k4 = server_udp_bind_keeps [OF 4]
  have io: "same_io nt nt1" "same_io nt nt2" "same_io nt nt3" "same_io nt nt4"
    using same_io_socket [OF 1] same_io_socket [OF 2] same_io_syscall [OF 3] k4 same_io_trans by blast+
  let ?o = "if 0 \<le> s_fd self then [s_fd self] else []"
  have a1: "acct B T nt1 (fd # ?o)" if "acct B T nt ?o" "0 \<le> fd"
    using acct_socket [OF that(1) 1] that(2) by auto
  have a1': "acct B T nt1 ?o" if "acct B T nt ?o" "fd < 0"
    using acct_socket [OF that(1) 1] that(2) by auto
  have a2: "acct B T nt2 (fd2 # fd # ?o)" "acct B T nt3 (fd2 # fd # ?o)" "acct B T nt4 (fd2 # fd # ?o)"
    if "acct B T nt1 (fd # ?o)" "0 \<le> fd2"
    using acct_socket [OF that(1) 2] that(2) acct_syscall [OF 3] k4 by auto
  have a2': "acct B T nt2 (fd # ?o)" if "acct B T nt1 (fd # ?o)" "fd2 < 0"
    using acct_socket [OF that(1) 2] that(2) by auto
  have sw: "acct B T nt4 (fd # fd2 # ?o)" if "acct B T nt4 (fd2 # fd # ?o)" using that by (rule acct_perm) simp
  have "acct B T nt' (srv_owned self')" if "acct B T nt (srv_owned self)" "v_fd0 self < 0" "v_fd1 self < 0"
  proof -
    have o: "acct B T nt ?o" using that by (simp add: srv_owned_def split: if_splits)
    note a = a1 [OF o] a1' [OF o] a2 [OF a1 [OF o]] a2' [OF a1 [OF o]]
    show ?thesis using c that a 4 acct_drop [OF a(4)] acct_drop [OF a(5)] sw [OF a(5)]
      by (cases sa) (auto simp: hev_socks5_server_bind_def Let_def 1 2 3 4 srv_owned_def split: if_splits option.splits prod.splits)
  qed
  moreover have "same_io nt nt' \<and> s_fd self' = s_fd self \<and> s_timeout self' = s_timeout self"
    using c io 4 by (cases sa) (auto simp: hev_socks5_server_bind_def Let_def 1 2 3 4 split: if_splits option.splits prod.splits)
  ultimately show ?thesis by blast
qed

lemma server_dispatch_keeps:
  assumes d: "server_dispatch m nt self q = (nt', self', q')"
  shows "same_io nt nt' \<and> s_fd self' = s_fd self \<and>
    (s_timeout self = tcp_timeout m \<and> q_rep q' = 0 \<longrightarrow> s_timeout self' = tcp_timeout m) \<and>
    (acct B T nt (srv_owned self) \<and> v_fd0 self < 0 \<and> v_fd1 self < 0 \<longrightarrow> acct B T nt' (srv_owned self'))"
proof -
  obtain nt1 self1 r1 where 1: "hev_socks5_server_connect m nt self (q_addr q) = (nt1, self1, r1)" by (rule prod_cases3)
  obtain nt2 self2 sa2 r2 where 2: "hev_socks5_server_bind nt self (Some (q_addr q)) = (nt2, self2, sa2, r2)" by (rule prod_cases4)
  obtain nt3 self3 sa3 r3 where 3: "hev_socks5_server_bind nt self None = (nt3, self3, sa3, r3)" by (rule prod_cases4)
  note k = server_connect_keeps [OF 1, of B T] server_bind_keeps [OF 2, of B T] server_bind_keeps [OF 3, of B T]
  consider (bad) "q_rep q \<noteq> 0" | (tcp) "q_rep q = 0" "q_cmd q = 1" | (asc) "q_rep q = 0" "q_cmd q = 3"
    | (fwd) "q_rep q = 0" "q_cmd q = 5" | (other) "q_rep q = 0" "q_cmd q \<noteq> 1" "q_cmd q \<noteq> 3" "q_cmd q \<noteq> 5"
    by blast
  then show ?thesis
  proof cases
    case tcp
    then show ?thesis using d k(1) by (auto simp: server_dispatch_def socks5_consts 1 split: if_splits)
  next
    case asc
    then show ?thesis using d k(2) by (auto simp: server_dispatch_def socks5_consts 2)
  next
    case fwd
    then show ?thesis using d k(3) by (auto simp: server_dispatch_def socks5_consts 3)
  qed (use d in \<open>auto simp: server_dispatch_def socks5_consts\<close>)
qed

lemma server_read_auth_method_io: "hev_socks5_server_read_auth_method nt self = (nt', r) \<Longrightarrow> io_only (s_fd self) nt nt'"
  using io_only_trans
  by (fastforce simp: hev_socks5_server_read_auth_method_def Let_def split: prod.splits if_splits dest: recv_io)

lemma server_write_auth_method_io: "hev_socks5_server_write_auth_method nt self m = (nt', r) \<Longrightarrow> io_only (s_fd self) nt nt'"
  by (auto simp: hev_socks5_server_write_auth_method_def hev_task_io_socket_send_def split: prod.splits if_splits dest: sendmsg_io)

lemma server_write_auth_user_io: "hev_socks5_server_write_auth_user nt self m = (nt', r) \<Longrightarrow> io_only (s_fd self) nt nt'"
  by (auto simp: hev_socks5_server_write_auth_user_def hev_task_io_socket_send_def split: prod.splits if_splits dest: sendmsg_io)

lemma server_write_response_io: "hev_socks5_server_write_response buf nt self e sa = (nt', r) \<Longrightarrow> io_only (s_fd self) nt nt'"
  by (auto simp: hev_socks5_server_write_response_def hev_task_io_socket_send_def split: prod.splits if_splits dest: sendmsg_io)

lemma server_login_fields:
  "server_login fuel a self n p = Some (a', self', r) \<Longrightarrow> \<exists>ob. self' = self\<lparr>v_obj := ob\<rparr>"
  by (auto simp: server_login_def bind_eq_Some_conv split: if_splits intro: exI [of _ "v_obj self"])

lemma server_read_auth_user_io:
  assumes r: "hev_socks5_server_read_auth_user fuel nt a self = Some (nt', a', self', r)"
  shows "io_only (s_fd self) nt nt' \<and> (\<exists>ob. self' = self\<lparr>v_obj := ob\<rparr>)"
proof -
  let ?t = "s_timeout self" and ?fd = "s_fd self"
  obtain nt1 b1 r1 where 1: "hev_task_io_socket_recv ?t nt ?fd 2 = (nt1, b1, r1)" by (rule prod_cases3)
  obtain nt2 b2 r2 where 2: "hev_task_io_socket_recv ?t nt1 ?fd (unat (b1 ! 1) + 1) = (nt2, b2, r2)" by (rule prod_cases3)
  obtain nt3 b3 r3 where 3: "hev_task_io_socket_recv ?t nt2 ?fd (unat (b2 ! unat (b1 ! 1))) = (nt3, b3, r3)" by (rule prod_cases3)
  have io: "io_only ?fd nt nt1" "io_only ?fd nt nt2" "io_only ?fd nt nt3"
    using recv_io [OF 1] recv_io [OF 2] recv_io [OF 3] io_only_trans by blast+
  have "\<exists>ob. self = self\<lparr>v_obj := ob\<rparr>" by (rule exI [of _ "v_obj self"]) simp
  then show ?thesis
    using r io unfolding hev_socks5_server_read_auth_user_def 1 prod.case Let_def 2 3
    by (auto split: if_splits dest: server_login_fields)
qed

lemma server_auth_io:
  assumes r: "hev_socks5_server_auth fuel nt a self = Some (nt', a', self', r)"
  shows "io_only (s_fd self) nt nt' \<and> (\<exists>ob. self' = self\<lparr>v_obj := ob\<rparr>)"
proof -
  obtain nt1 me where 1: "hev_socks5_server_read_auth_method nt self = (nt1, me)" by (rule prod.exhaust)
  obtain nt2 r2 where 2: "hev_socks5_server_write_auth_method nt1 self me = (nt2, r2)" by (rule prod.exhaust)
  have io2: "io_only (s_fd self) nt nt2"
    using io_only_trans [OF server_read_auth_method_io [OF 1] server_write_auth_method_io [OF 2]] .
  have s: "\<exists>ob. self = self\<lparr>v_obj := ob\<rparr>" by (rule exI [of _ "v_obj self"]) simp
  show ?thesis
  proof (cases "hev_socks5_server_read_auth_user fuel nt2 a self")
    case None
    then show ?thesis using r io2 s by (auto simp: hev_socks5_server_auth_def 1 2 split: if_splits)
  next
    case (Some x)
    then obtain nt3 a3 self3 r3 where 3: "hev_socks5_server_read_auth_user fuel nt2 a self = Some (nt3, a3, self3, r3)"
      by (cases x) auto
    note k = server_read_auth_user_io [OF 3]
    obtain nt4 r4 where 4: "hev_socks5_server_write_auth_user nt3 self3 r3 = (nt4, r4)" by (rule prod.exhaust)
    have "s_fd self3 = s_fd self" using k by auto
    then have "io_only (s_fd self) nt nt4"
      using io_only_trans [OF io_only_trans [OF io2 conjunct1 [OF k]]] server_write_auth_user_io [OF 4] by simp
    then show ?thesis using r io2 k s 4 by (auto simp: hev_socks5_server_auth_def 1 2 3 split: if_splits)
  qed
qed

lemma server_read_request_io:
  assumes r: "hev_socks5_server_read_request rs nt self q = (nt', self', q', r)"
  shows "io_only (s_fd self) nt nt' \<and> (\<exists>f. self' = self\<lparr>s_addr_family := f\<rparr>)"
proof -
  let ?t = "s_timeout self" and ?fd = "s_fd self"
  obtain nt1 b1 r1 where 1: "hev_task_io_socket_recv ?t nt ?fd 5 = (nt1, b1, r1)" by (rule prod_cases3)
  let ?n = "if b1 ! 3 = HEV_SOCKS5_ADDR_TYPE_IPV4 then 5 else if b1 ! 3 = HEV_SOCKS5_ADDR_TYPE_IPV6 then 17 else 2 + unat (b1 ! 4)"
  obtain nt2 b2 r2 where 2: "hev_task_io_socket_recv ?t nt1 ?fd ?n = (nt2, b2, r2)" by (rule prod_cases3)
  have io: "io_only ?fd nt nt1" "io_only ?fd nt nt2"
    using recv_io [OF 1] recv_io [OF 2] io_only_trans by blast+
  have "\<exists>f. self = self\<lparr>s_addr_family := f\<rparr>" by (rule exI [of _ "s_addr_family self"]) simp
  then show ?thesis
    using r io unfolding hev_socks5_server_read_request_def 1 prod.case Let_def 2 socks5_accessors
    by (auto split: if_splits prod.splits)
qed

lemma server_handshake_keeps:
  assumes h: "hev_socks5_server_handshake m rs fuel buf q0 nt a self = Some (nt', a', self', r)"
    and "acct B T nt (srv_owned self)" "v_fd0 self < 0" "v_fd1 self < 0"
  shows "acct B T nt' (srv_owned self')"
proof -
  let ?self = "self\<lparr>s_timeout := tcp_timeout m\<rparr>"
  obtain nt1 a1 self1 r1 where 1: "hev_socks5_server_auth fuel nt a ?self = Some (nt1, a1, self1, r1)"
    using h by (auto simp: hev_socks5_server_handshake_def socks5_accessors bind_eq_Some_conv)
  obtain nt2 self2 q2 r2 where 2: "hev_socks5_server_read_request rs nt1 self1 (q0\<lparr>q_rep := HEV_SOCKS5_RES_REP_SUCC\<rparr>) = (nt2, self2, q2, r2)"
    by (rule prod_cases4)
  obtain nt3 self3 q3 where 3: "server_dispatch m nt2 self2 q2 = (nt3, self3, q3)" by (rule prod_cases3)
  obtain nt4 r4 where 4: "hev_socks5_server_write_response buf nt3 self3 (q_rep q3) (q_addr q3) = (nt4, r4)" by (rule prod.exhaust)
  have a1: "acct B T nt1 (srv_owned self1)" and f1: "v_fd0 self1 < 0" "v_fd1 self1 < 0"
    using server_auth_io [OF 1] assms(2-4) acct_io by auto
  have a2: "acct B T nt2 (srv_owned self2)" and f2: "v_fd0 self2 < 0" "v_fd1 self2 < 0"
    using server_read_request_io [OF 2] a1 f1 acct_io by auto
  have a3: "acct B T nt3 (srv_owned self3)"
    using server_dispatch_keeps [OF 3, of B T] a2 f2 by blast
  have a4: "acct B T nt4 (srv_owned self3)" using a3 server_write_response_io [OF 4] by (rule acct_io)
  show ?thesis using h a1 a2 a4
    by (auto simp: hev_socks5_server_handshake_def socks5_accessors 1 2 3 4 split: if_splits)
qed

end
