(* ===== verification/ServerProps.thy ===== *)
theory ServerProps
  imports ServerSteps
begin

text \<open>
  What the SOCKS5 server promises: whom it lets in, how it answers a request, that it leaves
  no descriptor behind, and that the client and the server of the code base understand each
  other.
\<close>

section \<open>Addresses of replies\<close>

lemma parse_request_addr:
  "parse_request s = Some (Inr (cmd, a, r)) \<Longrightarrow>
     (a ! 0 = 1 \<and> length a = 7) \<or> (a ! 0 = 4 \<and> length a = 19) \<or> a ! 0 = 3"
  by (cases s rule: parse_request.cases) (auto simp: Let_def split: if_splits)

lemma into_sockaddr6_length:
  assumes "resolver_ok rs" "length (sin6_addr sa) = 16"
    and "(a ! 0 = 1 \<and> length a = 7) \<or> (a ! 0 = 4 \<and> length a = 19) \<or> a ! 0 = 3"
    and to: "hev_socks5_addr_into_sockaddr6 rs a sa f = (sa', f', res)"
  shows "length (sin6_addr sa') = 16"
proof (cases "a ! 0 = 3")
  case True
  then show ?thesis using to name_into_sockaddr6_ok [OF assms(1,2)]
    by (auto simp: hev_socks5_addr_into_sockaddr6_def socks5_consts Let_def)
next
  case False
  then show ?thesis using assms(3) to
    by (auto simp: hev_socks5_addr_into_sockaddr6_def hev_socks5_ipv4_into_sockaddr6_def hev_socks5_ipv6_into_sockaddr6_def socks5_consts)
qed

text \<open>What \<open>getsockname\<close> reports has the size of an address.\<close>

definition names_ok :: "net \<Rightarrow> bool" where
  "names_ok nt \<longleftrightarrow> (\<forall>sa. Some sa \<in> set (n_names nt) \<longrightarrow> length (sin6_addr sa) = 16)"

lemma names_ok_io: "io_only fd nt nt' \<Longrightarrow> names_ok nt' = names_ok nt"
  by (auto simp: io_only_def names_ok_def)

lemma names_ok_socket: "hev_socks5_socket nt ty = (nt', fd) \<Longrightarrow> names_ok nt' = names_ok nt"
  by (cases rule: hev_socks5_socket_cases [of nt ty]) (auto simp: names_ok_def)

lemma names_ok_syscall: "syscall nt = (nt', r) \<Longrightarrow> names_ok nt' = names_ok nt"
  by (auto simp: syscall_def names_ok_def split: list.splits)

lemma names_ok_getsockname:
  "sys_getsockname nt = (nt', r) \<Longrightarrow> names_ok nt \<Longrightarrow> names_ok nt' \<and> (\<forall>sa. r = Some sa \<longrightarrow> length (sin6_addr sa) = 16)"
  by (auto simp: sys_getsockname_def names_ok_def split: list.splits)

lemma udp_bind_addr:
  assumes "hev_socks5_server_udp_bind nt self fd sa = (nt', sa', r)" "names_ok nt" "length (sin6_addr sa) = 16"
  shows "length (sin6_addr sa') = 16"
proof -
  obtain nt1 a where 1: "sys_getsockname nt = (nt1, a)" by (rule prod.exhaust)
  obtain nt2 r2 where 2: "syscall nt1 = (nt2, r2)" by (rule prod.exhaust)
  obtain nt3 b where 3: "sys_getsockname nt2 = (nt3, b)" by (rule prod.exhaust)
  show ?thesis
    using assms names_ok_getsockname [OF 1 assms(2)] names_ok_syscall [OF 2] names_ok_getsockname [OF 3]
    by (auto simp: hev_socks5_server_udp_bind_def 1 2 3 Let_def split: option.splits if_splits)
qed

lemma bind_addr:
  assumes b: "hev_socks5_server_bind nt self (Some sa) = (nt', self', sa', r)" and n: "names_ok nt" "length (sin6_addr sa) = 16"
  shows "\<exists>x. sa' = Some x \<and> length (sin6_addr x) = 16"
proof -
  obtain nt1 fd where 1: "hev_socks5_socket nt SOCK_DGRAM = (nt1, fd)" by (rule prod.exhaust)
  obtain nt2 fd2 where 2: "hev_socks5_socket nt1 SOCK_DGRAM = (nt2, fd2)" by (rule prod.exhaust)
  obtain nt3 r3 where 3: "syscall nt2 = (nt3, r3)" by (rule prod.exhaust)
  obtain nt4 sa4 r4 where 4: "hev_socks5_server_udp_bind nt3 (self\<lparr>v_fd0 := fd\<rparr>) fd2 sa = (nt4, sa4, r4)" by (rule prod_cases3)
  have "names_ok nt3" using n names_ok_socket [OF 1] names_ok_socket [OF 2] names_ok_syscall [OF 3] by simp
  then show ?thesis
    using b udp_bind_addr [OF 4 _ n(2)] n
    by (auto simp: hev_socks5_server_bind_def 1 2 3 4 Let_def split: if_splits)
qed

lemma dispatch_addr:
  assumes d: "server_dispatch m nt self q = (nt', self', q')" and n: "names_ok nt" "length (sin6_addr (q_addr q)) = 16"
  shows "length (sin6_addr (q_addr q')) = 16"
proof (cases "q_rep q = 0 \<and> q_cmd q = 3")
  case True
  then show ?thesis using d bind_addr [OF _ n] by (fastforce simp: server_dispatch_def socks5_consts split: prod.splits)
next
  case False
  then show ?thesis using d n by (auto simp: server_dispatch_def socks5_consts split: prod.splits if_splits)
qed

section \<open>The handshake\<close>

definition server_start :: "HevSocks5Authenticator \<Rightarrow> rbt \<Rightarrow> nat \<Rightarrow> 'a HevSocks5Server_scheme \<Rightarrow> bool" where
  "server_start a T fuel self \<longleftrightarrow> auth_held a T \<and> length (addrs T) < fuel \<and> (v_obj self = NoObj \<or> v_obj self = ObjAuth)"

lemma wanted_timeout [simp]: "wanted (self\<lparr>s_timeout := t\<rparr>) = wanted self"
  by (simp add: wanted_def)

lemma handshake_refused:
  assumes "server_start a T fuel self" "conn (tcp_timeout m) (s_fd self) nt out s"
    and "auth_answer (wanted self) (passwords a (addrs T)) s = (reply, None)"
  shows "\<exists>nt' self'. hev_socks5_server_handshake m rs fuel buf q0 nt a self = Some (nt', a, self', - 1) \<and>
    n_out nt' (s_fd self) = out @ reply \<and> n_open nt' = n_open nt"
  using server_auth_conn [of a T fuel "self\<lparr>s_timeout := tcp_timeout m\<rparr>" nt out s reply None] assms io_only_fields(1)
  by (auto simp: server_start_def hev_socks5_server_handshake_def socks5_accessors conn_def)

lemma handshake_request:
  assumes st: "server_start a T fuel self" and c: "conn (tcp_timeout m) (s_fd self) nt out s"
    and ans: "auth_answer (wanted self) (passwords a (addrs T)) s = (reply, Some r)"
    and len: "length buf = sizeof_addr" "length (sin6_addr (q_addr q0)) = 16" and rs: "resolver_ok rs" "names_ok nt"
  shows "\<exists>nt' a' self' res. hev_socks5_server_handshake m rs fuel buf q0 nt a self = Some (nt', a', self', res) \<and>
    (case parse_request r of
       None \<Rightarrow> res = - 1 \<and> n_out nt' (s_fd self) = out @ reply
     | Some (Inl e) \<Rightarrow> res = - 1 \<and> n_out nt' (s_fd self) = out @ reply @ reply_msg e (q_addr q0)
     | Some (Inr (cmd, ad, r')) \<Rightarrow>
         (case hev_socks5_addr_into_sockaddr6 rs ad (q_addr q0) (s_addr_family self) of (sa, f, ok) \<Rightarrow>
          if ok < 0 then res = - 1 \<and> n_out nt' (s_fd self) = out @ reply @ reply_msg 8 sa
          else \<exists>nt1 ob nt2 self2 q2. io_only (s_fd self) nt nt1 \<and>
            server_dispatch m nt1 (self\<lparr>s_timeout := tcp_timeout m, s_addr_family := f, v_obj := ob\<rparr>) (q0\<lparr>q_cmd := cmd, q_rep := 0, q_addr := sa\<rparr>) = (nt2, self2, q2) \<and>
            res = (if q_rep q2 = 0 then 0 else - 1) \<and>
            (s_timeout self2 = tcp_timeout m \<longrightarrow> n_out nt' (s_fd self) = out @ reply @ reply_msg (q_rep q2) (q_addr q2) \<and>
               avail (tcp_timeout m) (n_rx nt' (s_fd self)) = r') \<and>
            (q_rep q2 = 0 \<longrightarrow> s_timeout self2 = tcp_timeout m)))"
proof -
  let ?self = "self\<lparr>s_timeout := tcp_timeout m\<rparr>" and ?fd = "s_fd self" and ?c = "conn (tcp_timeout m) (s_fd self)"
  let ?q = "q0\<lparr>q_rep := HEV_SOCKS5_RES_REP_SUCC\<rparr>"
  obtain nt1 a1 self1 where 1: "hev_socks5_server_auth fuel nt a ?self = Some (nt1, a1, self1, 0)" "io_only ?fd nt nt1" "?c nt1 (out @ reply) r"
    using server_auth_conn [of a T fuel ?self nt out s reply "Some r"] st c ans by (auto simp: server_start_def)
  obtain ob where ob: "self1 = ?self\<lparr>v_obj := ob\<rparr>" using server_auth_io [OF 1(1)] by blast
  have f: "s_timeout self1 = tcp_timeout m" "s_fd self1 = ?fd" "s_addr_family self1 = s_addr_family self" "q_addr ?q = q_addr q0"
    by (simp_all add: ob)
  obtain nt2 s2 where 2: "hev_socks5_server_read_request rs nt1 self1 ?q =
      (case parse_request r of None \<Rightarrow> (nt2, self1, ?q, - 1)
       | Some (Inl e) \<Rightarrow> (nt2, self1, ?q\<lparr>q_rep := e\<rparr>, 0)
       | Some (Inr (cmd, a, r)) \<Rightarrow>
          (case hev_socks5_addr_into_sockaddr6 rs a (q_addr q0) (s_addr_family self) of (addr, family, res) \<Rightarrow>
           if res < 0 then (nt2, self1, ?q\<lparr>q_addr := addr, q_rep := 8\<rparr>, 0)
           else (nt2, self1\<lparr>s_addr_family := family\<rparr>, ?q\<lparr>q_addr := addr, q_cmd := cmd\<rparr>, 0)))"
    "io_only ?fd nt1 nt2" "?c nt2 (out @ reply) s2" "\<forall>cmd a r'. parse_request r = Some (Inr (cmd, a, r')) \<longrightarrow> s2 = r'"
    using read_request_conn [of self1 nt1 "out @ reply" r rs ?q, unfolded f, OF 1(3)] by blast
  have io: "io_only ?fd nt nt2" using 1(2) 2(2) by (rule io_only_trans)
  have h: "hev_socks5_server_handshake m rs fuel buf q0 nt a self = Some (n3, a1, sf2, if w < 0 \<or> q_rep q2 \<noteq> 0 then - 1 else 0)"
    if "hev_socks5_server_read_request rs nt1 self1 ?q = (n1, sf1, q1, 0)" "server_dispatch m n1 sf1 q1 = (n2, sf2, q2)"
      "hev_socks5_server_write_response buf n2 sf2 (q_rep q2) (q_addr q2) = (n3, w)" for n1 sf1 q1 n2 sf2 q2 n3 w
    using that by (auto simp: hev_socks5_server_handshake_def socks5_accessors 1(1) Let_def socks5_consts)
  have resp: "\<exists>nt'. hev_socks5_server_write_response buf nt2 self1 e sa = (nt', 0) \<and> n_out nt' ?fd = out @ reply @ reply_msg e sa"
    if "length (sin6_addr sa) = 16" for e sa
    using write_response_conn [of self1 nt2 "out @ reply" s2 sa buf e] 2(3) that len(1) ob by (auto simp: conn_def)
  have skip: "server_dispatch m nt2 self1 q = (nt2, self1, q)" if "q_rep q \<noteq> 0" for q
    using that by (simp add: server_dispatch_def socks5_consts)
  show ?thesis
  proof (cases "parse_request r")
    case None
    then show ?thesis using 1(1) 2 by (auto simp: hev_socks5_server_handshake_def socks5_accessors conn_def)
  next
    case (Some x)
    show ?thesis
    proof (cases x)
      case (Inl e)
      have "e \<noteq> 0" using Some Inl by (cases r rule: parse_request.cases) (auto simp: Let_def split: if_splits)
      then show ?thesis using h [OF _ skip] 2(1) Some Inl resp [of "q_addr q0" e] len(2) by force
    next
      case (Inr y)
      obtain cmd ad r' where y: "parse_request r = Some (Inr (cmd, ad, r'))" using Some Inr by (metis prod_cases3)
      obtain sa f ok where to: "hev_socks5_addr_into_sockaddr6 rs ad (q_addr q0) (s_addr_family self) = (sa, f, ok)" by (rule prod_cases3)
      have sa: "length (sin6_addr sa) = 16" using into_sockaddr6_length [OF rs(1) len(2) parse_request_addr [OF y] to] .
      show ?thesis
      proof (cases "ok < 0")
        case True
        then show ?thesis using h [OF _ skip] 2(1) y to resp [OF sa, of 8] by force
      next
        case False
        let ?q1 = "q0\<lparr>q_cmd := cmd, q_rep := 0, q_addr := sa\<rparr>"
        let ?self1 = "self\<lparr>s_timeout := tcp_timeout m, s_addr_family := f, v_obj := ob\<rparr>"
        obtain nt3 self3 q3 where 3: "server_dispatch m nt2 ?self1 ?q1 = (nt3, self3, q3)" by (rule prod_cases3)
        note k = server_dispatch_keeps [OF 3]
        have q3: "length (sin6_addr (q_addr q3)) = 16"
          using dispatch_addr [OF 3] rs(2) names_ok_io [OF io] sa by simp
        obtain nt4 r4 where 4: "hev_socks5_server_write_response buf nt3 self3 (q_rep q3) (q_addr q3) = (nt4, r4)" by (rule prod.exhaust)
        have c3: "?c nt3 (out @ reply) r'" using 2(3,4) y k conn_same_io by blast
        have w: "r4 = 0 \<and> n_out nt4 ?fd = out @ reply @ reply_msg (q_rep q3) (q_addr q3) \<and> avail (tcp_timeout m) (n_rx nt4 ?fd) = r'"
          if "s_timeout self3 = tcp_timeout m"
          using write_response_conn [of self3 nt3 "out @ reply" r' "q_addr q3" buf "q_rep q3"] c3 k that q3 len(1) 4 by (auto simp: conn_def)
        have e1: "self1\<lparr>s_addr_family := f\<rparr> = ?self1" "?q\<lparr>q_addr := sa, q_cmd := cmd\<rparr> = ?q1"
          by (simp_all add: ob socks5_consts)
        have "hev_socks5_server_read_request rs nt1 self1 ?q = (nt2, ?self1, ?q1, 0)"
          using 2(1) y to False e1 by simp
        from h [OF this 3 4] have hh: "hev_socks5_server_handshake m rs fuel buf q0 nt a self =
            Some (nt4, a1, self3, if r4 < 0 \<or> q_rep q3 \<noteq> 0 then - 1 else 0)"
          .
        have z: "q_rep q3 = 0 \<longrightarrow> s_timeout self3 = tcp_timeout m" using k by simp
        then have "(if r4 < 0 \<or> q_rep q3 \<noteq> 0 then - 1 else 0) = (if q_rep q3 = 0 then 0 else - 1 :: int)" using w by auto
        then show ?thesis using hh y to False 3 w z io
          by (intro exI [of _ nt4] exI [of _ a1] exI [of _ self3] exI [of _ "if q_rep q3 = 0 then 0 else - 1"]) (simp, blast)
      qed
    qed
  qed
qed

section \<open>Properties\<close>

text \<open>C33. The server's authentication, whatever the client sends and however its bytes are cut into
  pieces: it answers \<open>auth_answer\<close> and lets the client in exactly when the client offers the
  method the server insists on and, where that is a login, when the password is the one the
  authenticator's table has for the name. Then the object holds the user, who stays alive even
  if this was the last reference to the authenticator; otherwise nothing has changed.\<close>

theorem server_auth_correct:
  assumes "auth_held a T" "length (addrs T) < fuel" "v_obj self = NoObj \<or> v_obj self = ObjAuth"
    and "conn (s_timeout self) (s_fd self) nt out s"
    and "auth_answer (wanted self) (passwords a (addrs T)) s = (reply, rest)"
  shows "\<exists>nt' a' T' self' res s'. hev_socks5_server_auth fuel nt a self = Some (nt', a', self', res) \<and> auth_rep a' T' \<and>
    io_only (s_fd self) nt nt' \<and> conn (s_timeout self) (s_fd self) nt' (out @ reply) s' \<and>
    (case rest of None \<Rightarrow> res = - 1 \<and> a' = a \<and> self' = self
     | Some r \<Rightarrow> res = 0 \<and> s' = r \<and> (if v_obj self = NoObj then a' = a \<and> self' = self
         else \<exists>x u. self' = self\<lparr>v_obj := ObjUser x\<rparr> \<and> a_users a' x = Some u))"
  by (rule server_auth_conn [OF assms])

text \<open>C34. The server's handshake as a whole: a client that is not let in gets only the answer to its
  login; a malformed request gets its error code; a well formed one is carried out exactly as
  it was sent (command, resolved address), and the handshake succeeds exactly when that
  succeeded. The reply then is the success code with the address in use, and what the client
  sent after its request is still unread.\<close>

theorem server_handshake_correct:
  assumes "server_start a T fuel self" "conn (tcp_timeout m) (s_fd self) nt out s"
    and "auth_answer (wanted self) (passwords a (addrs T)) s = (reply, rest)"
    and "length buf = sizeof_addr" "length (sin6_addr (q_addr q0)) = 16" "resolver_ok rs" "names_ok nt"
  shows "\<exists>nt' a' self' res. hev_socks5_server_handshake m rs fuel buf q0 nt a self = Some (nt', a', self', res) \<and>
    (case rest of None \<Rightarrow> res = - 1 \<and> n_out nt' (s_fd self) = out @ reply
     | Some r \<Rightarrow>
    (case parse_request r of
       None \<Rightarrow> res = - 1 \<and> n_out nt' (s_fd self) = out @ reply
     | Some (Inl e) \<Rightarrow> res = - 1 \<and> n_out nt' (s_fd self) = out @ reply @ reply_msg e (q_addr q0)
     | Some (Inr (cmd, ad, r')) \<Rightarrow>
         (case hev_socks5_addr_into_sockaddr6 rs ad (q_addr q0) (s_addr_family self) of (sa, f, ok) \<Rightarrow>
          if ok < 0 then res = - 1 \<and> n_out nt' (s_fd self) = out @ reply @ reply_msg 8 sa
          else \<exists>nt1 ob nt2 self2 q2. io_only (s_fd self) nt nt1 \<and>
            server_dispatch m nt1 (self\<lparr>s_timeout := tcp_timeout m, s_addr_family := f, v_obj := ob\<rparr>) (q0\<lparr>q_cmd := cmd, q_rep := 0, q_addr := sa\<rparr>) = (nt2, self2, q2) \<and>
            res = (if q_rep q2 = 0 then 0 else - 1) \<and>
            (q_rep q2 = 0 \<longrightarrow> n_out nt' (s_fd self) = out @ reply @ reply_msg 0 (q_addr q2) \<and>
               avail (tcp_timeout m) (n_rx nt' (s_fd self)) = r'))))"
proof (cases rest)
  case None
  then show ?thesis using handshake_refused [OF assms(1,2)] assms(3) by fastforce
next
  case (Some r)
  from handshake_request [OF assms(1,2) assms(3) [unfolded Some] assms(4-7)]
  obtain nt' a' self' res where h: "hev_socks5_server_handshake m rs fuel buf q0 nt a self = Some (nt', a', self', res)"
    and c: "case parse_request r of
       None \<Rightarrow> res = - 1 \<and> n_out nt' (s_fd self) = out @ reply
     | Some (Inl e) \<Rightarrow> res = - 1 \<and> n_out nt' (s_fd self) = out @ reply @ reply_msg e (q_addr q0)
     | Some (Inr (cmd, ad, r')) \<Rightarrow>
         (case hev_socks5_addr_into_sockaddr6 rs ad (q_addr q0) (s_addr_family self) of (sa, f, ok) \<Rightarrow>
          if ok < 0 then res = - 1 \<and> n_out nt' (s_fd self) = out @ reply @ reply_msg 8 sa
          else \<exists>nt1 ob nt2 self2 q2. io_only (s_fd self) nt nt1 \<and>
            server_dispatch m nt1 (self\<lparr>s_timeout := tcp_timeout m, s_addr_family := f, v_obj := ob\<rparr>) (q0\<lparr>q_cmd := cmd, q_rep := 0, q_addr := sa\<rparr>) = (nt2, self2, q2) \<and>
            res = (if q_rep q2 = 0 then 0 else - 1) \<and>
            (s_timeout self2 = tcp_timeout m \<longrightarrow> n_out nt' (s_fd self) = out @ reply @ reply_msg (q_rep q2) (q_addr q2) \<and>
               avail (tcp_timeout m) (n_rx nt' (s_fd self)) = r') \<and>
            (q_rep q2 = 0 \<longrightarrow> s_timeout self2 = tcp_timeout m))" by blast
  show ?thesis
  proof (cases "parse_request r")
    case None
    then show ?thesis using h c Some by simp
  next
    case (Some x)
    show ?thesis
    proof (cases x)
      case (Inl e)
      then show ?thesis using h c Some \<open>rest = Some r\<close> by simp
    next
      case (Inr y)
      obtain cmd ad r' where y: "x = Inr (cmd, ad, r')" using Inr by (metis prod_cases3)
      obtain sa f ok where to: "hev_socks5_addr_into_sockaddr6 rs ad (q_addr q0) (s_addr_family self) = (sa, f, ok)" by (rule prod_cases3)
      show ?thesis using h c Some y to \<open>rest = Some r\<close> by (cases "ok < 0") (simp, fastforce)
    qed
  qed
qed


section \<open>Client and server together\<close>

definition creds_match :: "'a HevSocks5Client_scheme \<Rightarrow> (bytes \<rightharpoonup> bytes) \<Rightarrow> bool" where
  "creds_match c M \<longleftrightarrow> (case (c_user c, c_pass c) of (Some u, Some p) \<Rightarrow> u \<noteq> [] \<and> p \<noteq> [] \<and> M u = Some p | _ \<Rightarrow> True)"

definition method_of :: "'a HevSocks5Client_scheme \<Rightarrow> u8" where
  "method_of c = (if has_creds c then 2 else 0)"

definition login_reply :: "'a HevSocks5Client_scheme \<Rightarrow> bytes" where
  "login_reply c = (if has_creds c then [5, 2, 1, 0] else [5, 0])"

lemma auth_answer_client:
  assumes "creds_ok c" "creds_match c M"
  shows "auth_answer (method_of c) M (hello_msg c @ creds_msg c @ x) = (login_reply c, Some x)"
proof (cases "has_creds c")
  case True
  then obtain u p where up: "c_user c = Some u" "c_pass c = Some p" by (auto simp: has_creds_def)
  then have l: "unat (of_nat (length u) :: u8) = length u" "unat (of_nat (length p) :: u8) = length p"
    "u \<noteq> []" "p \<noteq> []" "M u = Some p"
    using assms by (simp_all add: creds_ok_def creds_match_def unat_of_nat take_bit_nat_eq_self)
  then have "(of_nat (length u) :: u8) \<noteq> 0" "(of_nat (length p) :: u8) \<noteq> 0" by (metis length_0_conv unat_0)+
  then show ?thesis using True up l
    by (simp add: auth_answer_def pick_method_def hello_msg_def creds_msg_def method_of_def login_reply_def Let_def nth_append)
next
  case False
  then show ?thesis
    by (auto simp: auth_answer_def pick_method_def hello_msg_def creds_msg_def method_of_def login_reply_def has_creds_def split: option.splits)
qed

lemma parse_request_client:
  assumes "dest_ok d" "s_type c = TYPE_TCP"
  shows "parse_request (request_msg c d @ x) = Some (Inr (1, wire d, x))"
proof (cases d)
  case (Ipv4 ip p)
  then obtain i0 i1 i2 i3 where "ip = [i0, i1, i2, i3]" using assms(1) by (auto simp: length_Suc_conv numeral_eq_Suc)
  then show ?thesis using Ipv4 assms(2) by (simp add: request_msg_def socks5_consts be16_def)
next
  case (Ipv6 ip p)
  then obtain i0 r where "ip = i0 # r" "length r = 15" using assms(1) by (cases ip) auto
  then show ?thesis using Ipv6 assms(2) by (simp add: request_msg_def socks5_consts be16_def)
next
  case (Domain nm p)
  then have "unat (of_nat (length nm) :: u8) = length nm" using assms(1) by (simp add: unat_of_nat take_bit_nat_eq_self)
  then show ?thesis using Domain assms(2) by (simp add: request_msg_def socks5_consts be16_def)
qed

lemma parse_auth_login: "parse_auth (login_reply c @ y) = Some (method_of c, y)"
  by (simp add: login_reply_def method_of_def)

lemma parse_response_reply:
  "length (sin6_addr sa) = 16 \<Longrightarrow> \<exists>a. parse_response (reply_msg 0 sa @ y) = Some (a, y)"
  by (auto simp: reply_msg_def socks5_consts be16_def)

lemma client_accepts:
  assumes c: "tcp_client c d" "conn (tcp_timeout m) (s_fd c) nt out s"
    and p: "parse_auth s = Some (method_of c, r)" "parse_response r = Some (a, rest)"
  shows "\<exists>nt' c'. hev_socks5_client_handshake m hev_socks5_client_tcp_class nt c pl = Some (nt', c', 0) \<and>
    n_out nt' (s_fd c) = out @ hello_msg c @ creds_msg c @ request_msg c d \<and> avail (tcp_timeout m) (n_rx nt' (s_fd c)) = rest"
proof -
  let ?c = "c\<lparr>s_timeout := tcp_timeout m\<rparr>"
  have t: "tcp_client ?c d" "s_type c = TYPE_TCP" using c(1) by (simp_all add: tcp_client_def)
  have k: "conn (s_timeout ?c) (s_fd ?c) nt out s" "creds_ok ?c" using c by (simp_all add: tcp_client_def)
  have am: "auth_msgs c (method_of c) = hello_msg c @ creds_msg c"
    by (auto simp: auth_msgs_def method_of_def creds_msg_def has_creds_def split: option.splits)
  obtain nt1 s1 where "hev_socks5_client_handshake_standard hev_socks5_client_tcp_class nt ?c = Some (nt1, ?c\<lparr>t_addr := None\<rparr>, 0)"
    "conn (tcp_timeout m) (s_fd c) nt1 (out @ hello_msg c @ creds_msg c @ request_msg c d) rest"
    using standard_auth_ok [OF k p(1) tcp_upstream [OF t(1)]] p(2) am by auto
  moreover obtain nt2 s2 where "hev_socks5_client_handshake_pipeline hev_socks5_client_tcp_class nt ?c = Some (nt2, ?c\<lparr>t_addr := None\<rparr>, 0)"
    "conn (tcp_timeout m) (s_fd c) nt2 (out @ hello_msg c @ creds_msg c @ request_msg c d) rest"
    using pipeline_run [OF k tcp_upstream [OF t(1)]] p by (auto simp del: parse_auth.simps)
  ultimately show ?thesis using t(2)
    by (cases pl) (auto simp: hev_socks5_client_handshake_def socks5_accessors conn_def)
qed

text \<open>C32. The client and the server of this code base understand each other: when the server,
  given the bytes a TCP client sends for its greeting, login and request, reports success, the
  client, plain or pipelined, given the bytes the server sent back, reports success too and has
  sent exactly these bytes. What either side sent behind its part of the dialogue is left to the
  other side's splicer.\<close>

theorem client_server_interop:
  assumes c: "tcp_client c d" "creds_match c (passwords a (addrs T))" "method_of c = wanted self"
    and s: "server_start a T fuel self" "conn (tcp_timeout m) (s_fd self) nt [] (hello_msg c @ creds_msg c @ request_msg c d @ up)"
    and len: "length buf = sizeof_addr" "length (sin6_addr (q_addr q0)) = 16" and rs: "resolver_ok rs" "names_ok nt"
    and h: "hev_socks5_server_handshake m rs fuel buf q0 nt a self = Some (nt', a', self', 0)"
    and k: "conn (tcp_timeout m) (s_fd c) ntc [] (n_out nt' (s_fd self) @ down)"
  shows "\<exists>ntc' c'. hev_socks5_client_handshake m hev_socks5_client_tcp_class ntc c pl = Some (ntc', c', 0) \<and>
    n_out ntc' (s_fd c) = hello_msg c @ creds_msg c @ request_msg c d \<and>
    avail (tcp_timeout m) (n_rx ntc' (s_fd c)) = down \<and> avail (tcp_timeout m) (n_rx nt' (s_fd self)) = up"
proof -
  have d: "dest_ok d" "s_type c = TYPE_TCP" "creds_ok c" using c(1) by (simp_all add: tcp_client_def)
  have ans: "auth_answer (wanted self) (passwords a (addrs T)) (hello_msg c @ creds_msg c @ request_msg c d @ up) =
      (login_reply c, Some (request_msg c d @ up))"
    using auth_answer_client [OF d(3) c(2)] c(3) by simp
  note pr = parse_request_client [OF d(1,2), of up]
  obtain sa f ok where to: "hev_socks5_addr_into_sockaddr6 rs (wire d) (q_addr q0) (s_addr_family self) = (sa, f, ok)" by (rule prod_cases3)
  have sa: "length (sin6_addr sa) = 16" using into_sockaddr6_length [OF rs(1) len(2) parse_request_addr [OF pr] to] .
  obtain nt1 ob nt2 self2 q2 where q: "io_only (s_fd self) nt nt1"
    "server_dispatch m nt1 (self\<lparr>s_timeout := tcp_timeout m, s_addr_family := f, v_obj := ob\<rparr>) (q0\<lparr>q_cmd := 1, q_rep := 0, q_addr := sa\<rparr>) = (nt2, self2, q2)"
    and out: "n_out nt' (s_fd self) = login_reply c @ reply_msg 0 (q_addr q2)" "avail (tcp_timeout m) (n_rx nt' (s_fd self)) = up"
    using handshake_request [OF s ans len rs] h pr to by (auto split: if_splits)
  have "length (sin6_addr (q_addr q2)) = 16" using dispatch_addr [OF q(2)] names_ok_io [OF q(1)] rs(2) sa by simp
  then obtain ad where "parse_response (reply_msg 0 (q_addr q2) @ down) = Some (ad, down)" using parse_response_reply by blast
  then show ?thesis
    using client_accepts [OF c(1) k, of "reply_msg 0 (q_addr q2) @ down" ad down pl] out parse_auth_login [of c] by simp
qed

section \<open>Witnesses\<close>

lemma empty_auth_held: "auth_held empty_auth Lf"
  by (simp add: auth_held_def empty_auth_rep)

lemma no_passwords: "passwords empty_auth [] = Map.empty"
  by (auto simp: passwords_def users_of_def)

definition example_srv :: HevSocks5Server where
  "example_srv = hev_socks5_server_construct zero_server 0"

lemma example_srv_fields: "s_fd example_srv = 0" "v_obj example_srv = NoObj" "wanted example_srv = 0"
  "s_addr_family example_srv = FAMILY_UNSPEC" "server_start empty_auth Lf 9 example_srv"
  by (simp_all add: example_srv_def hev_socks5_server_construct_def hev_socks5_construct_def zero_server_def wanted_def
      server_start_def empty_auth_held)

lemma server_auth_correct_witness:
  "\<exists>nt' a'. hev_socks5_server_auth 9 (quiet_net (\<lambda>_. [Chunk [5, 1, 2, 1, 1], Chunk [97, 1, 98]])) empty_auth
     (example_srv\<lparr>v_obj := ObjAuth\<rparr>) = Some (nt', a', example_srv\<lparr>v_obj := ObjAuth\<rparr>, - 1) \<and> n_out nt' 0 = [5, 2, 1, 255]"
proof -
  let ?s = "example_srv\<lparr>v_obj := ObjAuth\<rparr>" and ?nt = "quiet_net (\<lambda>_. [Chunk [5, 1, 2, 1, 1], Chunk [97, 1, 98]])"
  have c: "conn (s_timeout ?s) (s_fd ?s) ?nt [] [5, 1, 2, 1, 1, 97, 1, 98]"
    by (simp add: conn_def quiet_net_def tx_open_def)
  have "auth_answer (wanted ?s) (passwords empty_auth (addrs Lf)) [5, 1, 2, 1, 1, 97, 1, 98] = ([5, 2, 1, 255], None)"
    by (simp add: auth_answer_def pick_method_def wanted_def no_passwords Let_def)
  from server_auth_correct [OF empty_auth_held _ _ c this, of 9] show ?thesis
    by (auto simp: example_srv_fields conn_def)
qed

definition example_request :: request where
  "example_request = \<lparr>q_cmd = 0, q_rep = 0, q_addr = \<lparr>sin6_port = 0, sin6_addr = replicate 16 0\<rparr>\<rparr>"

definition example_dialogue :: bytes where
  "example_dialogue = [5, 1, 0] @ [] @ [5, 1, 0, 1, 10, 0, 0, 1, 0, 80] @ [42]"

lemma no_resolver_ok: "resolver_ok no_resolver"
  by (simp add: resolver_ok_def no_resolver_def)

lemma example_srv_conn: "conn (tcp_timeout misc_init) (s_fd example_srv) (quiet_net (\<lambda>_. [Chunk example_dialogue])) [] example_dialogue"
  by (simp add: conn_def quiet_net_def tx_open_def)

lemma example_answer: "auth_answer (wanted example_srv) (passwords empty_auth (addrs Lf)) example_dialogue =
    ([5, 0], Some [5, 1, 0, 1, 10, 0, 0, 1, 0, 80, 42])"
  by (simp add: auth_answer_def pick_method_def example_srv_fields example_dialogue_def)

lemma example_dispatch:
  assumes "server_dispatch misc_init nt1 self1 (example_request\<lparr>q_cmd := 1, q_rep := 0, q_addr := sa\<rparr>) = (nt2, self2, q2)"
    and "io_only 0 (quiet_net rx) nt1"
  shows "q_rep q2 = 0 \<and> q_addr q2 = sa"
proof -
  have "n_sys nt1 = []" "n_cx nt1 = []" using io_only_fields [OF assms(2)] by (simp_all add: quiet_net_def)
  then show ?thesis using assms(1)
    by (auto simp: server_dispatch_def socks5_consts hev_socks5_server_connect_def hev_socks5_socket_def hev_task_io_socket_socket_def
        syscall_def hev_socks5_bind_def hev_task_add_fd_def hev_task_io_socket_connect_def lowest_fd_neg Let_def split: if_splits)
qed

lemma example_net: "names_ok (quiet_net rx)" "length (sin6_addr (q_addr example_request)) = 16"
  "length (replicate sizeof_addr (0 :: u8)) = sizeof_addr"
  by (simp_all add: names_ok_def quiet_net_def example_request_def)

definition example_addr :: sockaddr_in6 where
  "example_addr = \<lparr>sin6_port = ntohs 80, sin6_addr = replicate 10 0 @ [0xff, 0xff] @ [10, 0, 0, 1]\<rparr>"

lemma example_into: "hev_socks5_addr_into_sockaddr6 no_resolver [1, 10, 0, 0, 1, 0, 80] (q_addr example_request) (s_addr_family example_srv) =
    (example_addr, FAMILY_IPV4, 0)"
  using into_sockaddr6_ipv4 [of "[10, 0, 0, 1]" 80 no_resolver "[]"]
  by (simp add: socks5_consts be16_def example_request_def example_addr_def)

lemma example_parse: "parse_request [5, 1, 0, 1, 10, 0, 0, 1, 0, 80, 42] = Some (Inr (1, [1, 10, 0, 0, 1, 0, 80], [42]))"
  by simp

lemma example_reply_msg: "reply_msg 0 example_addr = [5, 0, 0] @ wire (Ipv4 [10, 0, 0, 1] 80)"
  by (simp add: reply_msg_def example_addr_def IN6_IS_ADDR_V4MAPPED_def)

lemma server_handshake_correct_witness:
  "\<exists>nt' a' self'. hev_socks5_server_handshake misc_init no_resolver 9 (replicate sizeof_addr 0) example_request
     (quiet_net (\<lambda>_. [Chunk example_dialogue])) empty_auth example_srv = Some (nt', a', self', 0) \<and>
     n_out nt' 0 = [5, 0] @ [5, 0, 0] @ wire (Ipv4 [10, 0, 0, 1] 80) \<and> avail 300000 (n_rx nt' 0) = [42]"
proof -
  let ?nt = "quiet_net (\<lambda>_. [Chunk example_dialogue])"
  obtain nt' a' self' res nt1 ob nt2 self2 q2 where r: "hev_socks5_server_handshake misc_init no_resolver 9 (replicate sizeof_addr 0) example_request ?nt empty_auth example_srv =
      Some (nt', a', self', res)" "io_only 0 ?nt nt1"
    "server_dispatch misc_init nt1 (example_srv\<lparr>s_timeout := tcp_timeout misc_init, s_addr_family := FAMILY_IPV4, v_obj := ob\<rparr>)
       (example_request\<lparr>q_cmd := 1, q_rep := 0, q_addr := example_addr\<rparr>) = (nt2, self2, q2)"
    "res = (if q_rep q2 = 0 then 0 else - 1)"
    "q_rep q2 = 0 \<longrightarrow> n_out nt' 0 = [5, 0] @ reply_msg 0 (q_addr q2) \<and> avail (tcp_timeout misc_init) (n_rx nt' 0) = [42]"
    using server_handshake_correct [OF example_srv_fields(5) example_srv_conn example_answer example_net(3,2) no_resolver_ok example_net(1)]
    unfolding option.case example_parse sum.case prod.case example_into example_srv_fields(1) by auto
  then show ?thesis using example_dispatch [OF r(3,2)] example_reply_msg by (simp add: misc_init_def)
qed

lemma client_server_interop_witness:
  "\<exists>nt' a' self' ntc' c'. hev_socks5_server_handshake misc_init no_resolver 9 (replicate sizeof_addr 0) example_request
     (quiet_net (\<lambda>_. [Chunk example_dialogue])) empty_auth example_srv = Some (nt', a', self', 0) \<and>
     hev_socks5_client_handshake misc_init hev_socks5_client_tcp_class (quiet_net (\<lambda>_. [Chunk (n_out nt' 0 @ [7])])) example_client True = Some (ntc', c', 0) \<and>
     avail 300000 (n_rx ntc' 0) = [7]"
proof -
  let ?nt = "quiet_net (\<lambda>_. [Chunk example_dialogue])"
  obtain nt' a' self' res nt1 ob nt2 self2 q2 where r: "hev_socks5_server_handshake misc_init no_resolver 9 (replicate sizeof_addr 0) example_request ?nt empty_auth example_srv =
      Some (nt', a', self', res)" "io_only 0 ?nt nt1"
    "server_dispatch misc_init nt1 (example_srv\<lparr>s_timeout := tcp_timeout misc_init, s_addr_family := FAMILY_IPV4, v_obj := ob\<rparr>)
       (example_request\<lparr>q_cmd := 1, q_rep := 0, q_addr := example_addr\<rparr>) = (nt2, self2, q2)"
    "res = (if q_rep q2 = 0 then 0 else - 1)"
    using handshake_request [OF example_srv_fields(5) example_srv_conn example_answer example_net(3,2) no_resolver_ok example_net(1)]
    unfolding option.case example_parse sum.case prod.case example_into example_srv_fields(1) by auto
  then have h: "hev_socks5_server_handshake misc_init no_resolver 9 (replicate sizeof_addr 0) example_request ?nt empty_auth example_srv =
      Some (nt', a', self', 0)" using example_dispatch [OF r(3,2)] by simp
  have f: "s_fd example_client = 0" "s_type example_client = TYPE_TCP" "\<not> has_creds example_client" "tcp_timeout misc_init = 300000"
    "creds_match example_client M" "creds_msg example_client = []" for M
    by (simp_all add: example_client_def zero_client_tcp_def has_creds_def misc_init_def creds_match_def creds_msg_def)
  have s: "example_dialogue = hello_msg example_client @ creds_msg example_client @ request_msg example_client (Ipv4 [10, 0, 0, 1] 80) @ [42]"
    using f by (simp add: example_dialogue_def hello_msg_def request_msg_def socks5_consts be16_def)
  have k: "conn (tcp_timeout misc_init) (s_fd example_client) (quiet_net (\<lambda>_. [Chunk (n_out nt' (s_fd example_srv) @ [7])])) [] (n_out nt' (s_fd example_srv) @ [7])"
    by (simp add: conn_def quiet_net_def tx_open_def)
  have w: "method_of example_client = wanted example_srv" using f by (simp add: method_of_def example_srv_fields)
  from client_server_interop [OF example_tcp_client f(5) w example_srv_fields(5) example_srv_conn [unfolded s] example_net(3,2) no_resolver_ok example_net(1) h [unfolded s] k, of True]
  show ?thesis using h f(1,4) by (simp add: s [symmetric] example_srv_fields(1)) blast
qed


end
