(* ===== verification/Socks5UDP.thy ===== *)
theory Socks5UDP
  imports ServerProps
begin

text \<open>
  Relaying datagrams for a SOCKS5 client or server (\<open>hev-socks5-udp.c\<close>), either as frames
  inside the control connection or as datagrams with a header, and the batch calls of
  \<open>hev-task-io-socket.c\<close> it uses. A message is what the vectors point to: \<open>m_buf\<close> is the
  memory from the buffer pointer on, of which \<open>m_len\<close> bytes are the message, and \<open>m_addr\<close> the
  memory from the address pointer on. A pointer that was never assigned is \<open>AddrUninit\<close>;
  using it, or an element outside a vector, is undefined, which is the result \<open>None\<close>.
\<close>

section \<open>Messages\<close>

definition UDP_BUF_SIZE :: nat where "UDP_BUF_SIZE = 1500"

datatype udp_addr = AddrUninit | AddrNull | AddrAt bytes

record HevSocks5UDPMsg =
  m_addr :: udp_addr
  m_buf :: bytes
  m_len :: nat

type_synonym 's getfd = "'s \<Rightarrow> int"

section \<open>Batch input and output\<close>

text \<open>The yielder: a closed control connection ends the association.\<close>

definition udp_task_io_yielder ::
  "HevTaskYieldType \<Rightarrow> nat \<Rightarrow> net \<Rightarrow> 'a HevSocks5_scheme \<Rightarrow> net \<times> 'a HevSocks5_scheme \<times> int" where
  "udp_task_io_yielder type d nt self =
     (if s_type self = TYPE_UDP_IN_UDP then
        (case task_recv False True 0 nt (s_fd self) 1 of (nt, _, res) \<Rightarrow>
         if res = 0 \<or> res < 0 \<and> \<not> n_again nt then (nt, hev_socks5_set_timeout self 0, - 1)
         else (nt, self, hev_socks5_task_io_yielder type (s_timeout self) d))
      else (nt, self, hev_socks5_task_io_yielder type (s_timeout self) d))"

text \<open>\<open>recvmmsg\<close> takes as many datagrams as there are, one per buffer, cut to the buffers' sizes.
  A script that is used up is an error.\<close>

definition take_dgrams :: "nat list \<Rightarrow> (sockaddr_in6 \<times> bytes) list \<Rightarrow> (sockaddr_in6 \<times> bytes) list" where
  "take_dgrams caps ds = map (\<lambda>(c, sa, bs). (sa, take c bs)) (zip caps ds)"

fun recvmmsg_loop :: "bool \<Rightarrow> nat list \<Rightarrow> dgev list \<Rightarrow> net \<Rightarrow> 'a HevSocks5_scheme \<Rightarrow>
    dgev list \<times> net \<times> 'a HevSocks5_scheme \<times> (sockaddr_in6 \<times> bytes) list \<times> int" where
  "recvmmsg_loop dontwait caps [] nt self = ([], nt\<lparr>n_again := False\<rparr>, self, [], - 1)"
| "recvmmsg_loop dontwait caps (DErr # es) nt self = (es, nt\<lparr>n_again := False\<rparr>, self, [], - 1)"
| "recvmmsg_loop dontwait caps (DWait d # es) nt self =
     (if dontwait then (es, nt\<lparr>n_again := True\<rparr>, self, [], - 1)
      else case udp_task_io_yielder HEV_TASK_WAITIO d (nt\<lparr>n_again := True\<rparr>) self of (nt, self, res) \<Rightarrow>
        if res \<noteq> 0 then (DWait (d - nat (s_timeout self)) # es, nt, self, [], - 2)
        else recvmmsg_loop dontwait caps es nt self)"
| "recvmmsg_loop dontwait caps (Dgrams ds # es) nt self =
     (if caps = [] then (Dgrams ds # es, nt, self, [], 0)
      else if ds = [] then recvmmsg_loop dontwait caps es nt self
      else let got = take_dgrams caps ds in
        (if length caps < length ds then Dgrams (drop (length caps) ds) # es else es, nt, self, got, int (length got)))"

definition hev_task_io_socket_recvmmsg ::
  "bool \<Rightarrow> nat list \<Rightarrow> net \<Rightarrow> 'a HevSocks5_scheme \<Rightarrow> int \<Rightarrow> net \<times> 'a HevSocks5_scheme \<times> (sockaddr_in6 \<times> bytes) list \<times> int" where
  "hev_task_io_socket_recvmmsg dontwait caps nt self fd =
     (case recvmmsg_loop dontwait caps (n_drx nt fd) nt self of (es, nt, self, got, res) \<Rightarrow>
        (nt\<lparr>n_drx := (n_drx nt)(fd := es)\<rparr>, self, got, res))"

text \<open>\<open>sendmmsg\<close> with \<open>MSG_WAITALL\<close>: \<open>done\<close> are the datagrams sent so far, \<open>ms\<close> the others.\<close>

type_synonym dgram = "sockaddr_in6 option \<times> bytes"

fun sendmmsg_loop :: "dgram list \<Rightarrow> dgram list \<Rightarrow> txev list \<Rightarrow> net \<Rightarrow> 'a HevSocks5_scheme \<Rightarrow>
    txev list \<times> net \<times> 'a HevSocks5_scheme \<times> dgram list \<times> int" where
  "sendmmsg_loop done ms [] nt self = ([], nt, self, done @ ms, int (length done + length ms))"
| "sendmmsg_loop done ms (TErr # es) nt self =
     (es, nt\<lparr>n_again := False\<rparr>, self, done, if done \<noteq> [] then int (length done) else - 1)"
| "sendmmsg_loop done ms (TWait d # es) nt self =
     (case udp_task_io_yielder HEV_TASK_WAITIO d (nt\<lparr>n_again := True\<rparr>) self of (nt, self, res) \<Rightarrow>
      if res \<noteq> 0 then (TWait (d - nat (s_timeout self)) # es, nt, self, done, if done \<noteq> [] then int (length done) else - 2)
      else sendmmsg_loop done ms es nt self)"
| "sendmmsg_loop done ms (Accept k # es) nt self =
     (if k = 0 then sendmmsg_loop done ms es nt self
      else if length ms \<le> k then (es, nt, self, done @ ms, int (length done + length ms))
      else sendmmsg_loop (done @ take k ms) (drop k ms) es nt self)"

definition hev_task_io_socket_sendmmsg ::
  "dgram list \<Rightarrow> net \<Rightarrow> 'a HevSocks5_scheme \<Rightarrow> int \<Rightarrow> net \<times> 'a HevSocks5_scheme \<times> int" where
  "hev_task_io_socket_sendmmsg ms nt self fd =
     (case sendmmsg_loop [] ms (n_dtx nt fd) nt self of (es, nt, self, sent, res) \<Rightarrow>
        (nt\<lparr>n_dtx := (n_dtx nt)(fd := es), n_dout := (n_dout nt)(fd := n_dout nt fd @ sent)\<rparr>, self, res))"

section \<open>Sending\<close>

text \<open>The vectors of one message; the inner \<open>None\<close> is the address that has no length.\<close>

definition udp_tcp_iov :: "HevSocks5UDPMsg \<Rightarrow> bytes list option option" where
  "udp_tcp_iov msg = (case m_addr msg of
     AddrAt a \<Rightarrow> (let addrlen = hev_socks5_addr_len a in
       if addrlen \<le> 0 then Some None
       else Some (Some [be16 (of_nat (m_len msg)) @ [word_of_int (3 + addrlen)], take (nat addrlen) a, take (m_len msg) (m_buf msg)]))
   | _ \<Rightarrow> None)"

fun udp_iovs :: "(HevSocks5UDPMsg \<Rightarrow> bytes list option option) \<Rightarrow> HevSocks5UDPMsg list \<Rightarrow> bytes list list option option" where
  "udp_iovs f [] = Some (Some [])"
| "udp_iovs f (msg # ms) = do {
     v \<leftarrow> f msg;
     case v of None \<Rightarrow> Some None
     | Some v \<Rightarrow> do { vs \<leftarrow> udp_iovs f ms; Some (map_option ((#) v) vs) } }"

definition hev_socks5_udp_sendmmsg_tcp ::
  "'a HevSocks5_scheme getfd \<Rightarrow> net \<Rightarrow> 'a HevSocks5_scheme \<Rightarrow> HevSocks5UDPMsg list \<Rightarrow> (net \<times> 'a HevSocks5_scheme \<times> int) option" where
  "hev_socks5_udp_sendmmsg_tcp get_fd nt self msgv = do {
     iov \<leftarrow> udp_iovs udp_tcp_iov msgv;
     case iov of None \<Rightarrow> Some (nt, self, - 1)
     | Some iov \<Rightarrow>
        (case hev_task_io_socket_sendmsg (s_timeout self) nt (get_fd self) (concat iov) of (nt, res) \<Rightarrow>
         if res \<le> 0 then Some (nt, self, - 1) else Some (nt, self, int (length msgv))) }"

definition udp_udp_iov :: "HevSocks5UDPMsg \<Rightarrow> bytes list option option" where
  "udp_udp_iov msg = (case m_addr msg of
     AddrAt a \<Rightarrow> (let addrlen = hev_socks5_addr_len a in
       if addrlen \<le> 0 then Some None else Some (Some [[0, 0, 0], take (nat addrlen) a, take (m_len msg) (m_buf msg)]))
   | _ \<Rightarrow> None)"

definition hev_socks5_udp_sendmmsg_udp ::
  "'a HevSocks5_scheme getfd \<Rightarrow> net \<Rightarrow> 'a HevSocks5_scheme \<Rightarrow> HevSocks5UDPMsg list \<Rightarrow> (net \<times> 'a HevSocks5_scheme \<times> int) option" where
  "hev_socks5_udp_sendmmsg_udp get_fd nt self msgv = do {
     iov \<leftarrow> udp_iovs udp_udp_iov msgv;
     case iov of None \<Rightarrow> Some (nt, self, - 1)
     | Some iov \<Rightarrow> Some (hev_task_io_socket_sendmmsg (map (\<lambda>v. (None, concat v)) iov) nt self (get_fd self)) }"

definition hev_socks5_udp_sendmmsg ::
  "'a HevSocks5_scheme getfd \<Rightarrow> net \<Rightarrow> 'a HevSocks5_scheme \<Rightarrow> HevSocks5UDPMsg list \<Rightarrow> (net \<times> 'a HevSocks5_scheme \<times> int) option" where
  "hev_socks5_udp_sendmmsg get_fd nt self msgv =
     (case s_type self of
        TYPE_UDP_IN_TCP \<Rightarrow> hev_socks5_udp_sendmmsg_tcp get_fd nt self msgv
      | TYPE_UDP_IN_UDP \<Rightarrow> hev_socks5_udp_sendmmsg_udp get_fd nt self msgv
      | _ \<Rightarrow> Some (nt, self, - 1))"

section \<open>Receiving\<close>

text \<open>One turn of the loop that receives frames: the message, or the value returned. The length
  left in the buffer is a \<open>size_t\<close>.\<close>

definition recv_frame ::
  "bool \<Rightarrow> int \<Rightarrow> net \<Rightarrow> int \<Rightarrow> HevSocks5UDPMsg \<Rightarrow> net \<times> (HevSocks5UDPMsg + bool \<times> int)" where
  "recv_frame nonblock t nt fd msg =
     (case task_recv False nonblock t nt fd 5 of (nt, udp, res) \<Rightarrow>
      case (if 0 < res \<and> res < 5
            then (case task_recv True False t nt fd (nat (5 - res)) of (nt, udp2, res2) \<Rightarrow> (nt, udp @ udp2, res + res2))
            else (nt, udp, res)) of (nt, udp, res) \<Rightarrow>
      if res \<noteq> 5 then (nt, Inr (True, res))
      else if udp ! 2 < 5 then (nt, Inr (False, - 1))
      else let addrlen = unat (udp ! 2) - 3; datlen = unat (ntohs (of_le16 (udp ! 0) (udp ! 1))) in
      if (int (m_len msg) - int addrlen) mod 2 ^ 64 < int datlen then (nt, Inr (False, - 1))
      else case task_recv True False t nt fd (addrlen - 2 + datlen) of (nt, body, res) \<Rightarrow>
      if res \<noteq> int (addrlen - 2 + datlen) then (nt, Inr (False, res))
      else let mem = write_at (m_buf msg) 0 ([udp ! 3, udp ! 4] @ body) in
        (nt, Inl \<lparr>m_addr = AddrAt mem, m_buf = drop addrlen mem, m_len = datlen\<rparr>))"

text \<open>The loop: \<open>got\<close> are the messages received so far; the others keep what they were.\<close>

fun recvmmsg_tcp_loop ::
  "bool \<Rightarrow> int \<Rightarrow> int \<Rightarrow> HevSocks5UDPMsg list \<Rightarrow> HevSocks5UDPMsg list \<Rightarrow> net \<Rightarrow> net \<times> HevSocks5UDPMsg list \<times> int" where
  "recvmmsg_tcp_loop nonblock t fd got [] nt = (nt, got, int (length got))"
| "recvmmsg_tcp_loop nonblock t fd got (msg # ms) nt =
     (case recv_frame nonblock t nt fd msg of
        (nt, Inl msg') \<Rightarrow> recvmmsg_tcp_loop nonblock t fd (got @ [msg']) ms nt
      | (nt, Inr (brk, res)) \<Rightarrow> (nt, got @ msg # ms, if brk \<and> got \<noteq> [] then int (length got) else res))"

definition hev_socks5_udp_recvmmsg_tcp ::
  "'a HevSocks5_scheme getfd \<Rightarrow> bool \<Rightarrow> net \<Rightarrow> 'a HevSocks5_scheme \<Rightarrow> HevSocks5UDPMsg list \<Rightarrow>
   net \<times> 'a HevSocks5_scheme \<times> HevSocks5UDPMsg list \<times> int" where
  "hev_socks5_udp_recvmmsg_tcp get_fd nonblock nt self msgv =
     (case recvmmsg_tcp_loop nonblock (s_timeout self) (get_fd self) [] msgv nt of (nt, msgv, res) \<Rightarrow> (nt, self, msgv, res))"

text \<open>Taking a datagram apart; \<open>bs\<close> was received into the buffer of \<open>msg\<close>. \<open>None\<close> is a malformed
  datagram: the call then fails, and what it did to the vector does not matter.\<close>

definition split_dgram :: "HevSocks5UDPMsg \<Rightarrow> bytes \<Rightarrow> HevSocks5UDPMsg option" where
  "split_dgram msg bs =
     (let mem = write_at (m_buf msg) 0 bs; addrlen = hev_socks5_addr_len (drop 3 mem); len = length bs in
      if len < 4 then Some \<lparr>m_addr = AddrNull, m_buf = mem, m_len = 0\<rparr>
      else if addrlen \<le> 0 then None
      else if int len < 3 + addrlen then None
      else Some \<lparr>m_addr = AddrAt (drop 3 mem), m_buf = drop (3 + nat addrlen) mem, m_len = len - (3 + nat addrlen)\<rparr>)"

fun split_dgrams :: "HevSocks5UDPMsg list \<Rightarrow> bytes list \<Rightarrow> HevSocks5UDPMsg list option" where
  "split_dgrams ms [] = Some ms"
| "split_dgrams (msg # ms) (b # bs) = do { m \<leftarrow> split_dgram msg b; r \<leftarrow> split_dgrams ms bs; Some (m # r) }"
| "split_dgrams [] (b # bs) = None"

text \<open>\<open>mvec[0]\<close> is used even when there is no message, so \<open>num\<close> has to be positive before the
  association.\<close>

definition hev_socks5_udp_recvmmsg_udp ::
  "'a HevSocks5_scheme getfd \<Rightarrow> bool \<Rightarrow> net \<Rightarrow> 'a HevSocks5_scheme \<Rightarrow> HevSocks5UDPMsg list \<Rightarrow>
   (net \<times> 'a HevSocks5_scheme \<times> HevSocks5UDPMsg list \<times> int) option" where
  "hev_socks5_udp_recvmmsg_udp get_fd nonblock nt self msgv =
     (let fd = get_fd self in
      if \<not> s_udp_associated self \<and> msgv = [] then None else
      case hev_task_io_socket_recvmmsg nonblock (map m_len msgv) nt self fd of (nt, self, got, res) \<Rightarrow>
      if res \<le> 0 then Some (nt, self, msgv, res)
      else case (if \<not> s_udp_associated self then syscall nt else (nt, 0)) of (nt, ret) \<Rightarrow>
      if ret < 0 then Some (nt, self, msgv, - 1)
      else let self = self\<lparr>s_udp_associated := True\<rparr> in
      case split_dgrams msgv (map snd got) of
        None \<Rightarrow> Some (nt, self, msgv, - 1)
      | Some msgv \<Rightarrow> Some (nt, self, msgv, res))"

definition hev_socks5_udp_recvmmsg ::
  "'a HevSocks5_scheme getfd \<Rightarrow> bool \<Rightarrow> net \<Rightarrow> 'a HevSocks5_scheme \<Rightarrow> HevSocks5UDPMsg list \<Rightarrow>
   (net \<times> 'a HevSocks5_scheme \<times> HevSocks5UDPMsg list \<times> int) option" where
  "hev_socks5_udp_recvmmsg get_fd nonblock nt self msgv =
     (case s_type self of
        TYPE_UDP_IN_TCP \<Rightarrow> Some (hev_socks5_udp_recvmmsg_tcp get_fd nonblock nt self msgv)
      | TYPE_UDP_IN_UDP \<Rightarrow> hev_socks5_udp_recvmmsg_udp get_fd nonblock nt self msgv
      | _ \<Rightarrow> Some (nt, self, msgv, - 1))"

section \<open>Forwarding\<close>

text \<open>The destinations of a batch. The outer \<open>None\<close> is undefined, the inner one the branch that
  gives up. \<open>sa0\<close> is the uninitialised socket address.\<close>

fun fwd_dests ::
  "resolver \<Rightarrow> sockaddr_in6 \<Rightarrow> HevSocks5AddrFamily \<Rightarrow> HevSocks5UDPMsg list \<Rightarrow> nat \<Rightarrow> dgram list option option" where
  "fwd_dests rs sa0 family svec 0 = Some (Some [])"
| "fwd_dests rs sa0 family [] (Suc n) = None"
| "fwd_dests rs sa0 family (msg # svec) (Suc n) =
     (if m_len msg = 0 then Some None
      else case m_addr msg of AddrUninit \<Rightarrow> None | AddrNull \<Rightarrow> Some None
      | AddrAt a \<Rightarrow> (case hev_socks5_addr_into_sockaddr6 rs a sa0 family of (addr, _, ret) \<Rightarrow>
          if ret < 0 then Some None
          else do { r \<leftarrow> fwd_dests rs sa0 family svec n;
                    Some (map_option ((#) (Some addr, take (m_len msg) (m_buf msg))) r) }))"

text \<open>\<open>mem\<close> has what the buffers held before.\<close>

definition hev_socks5_udp_fwd_f ::
  "resolver \<Rightarrow> sockaddr_in6 \<Rightarrow> 'a HevSocks5_scheme getfd \<Rightarrow> 'a HevSocks5_scheme bindfn \<Rightarrow> net \<Rightarrow> 'a HevSocks5_scheme \<Rightarrow>
   int \<Rightarrow> bytes list \<Rightarrow> bool \<Rightarrow> (net \<times> 'a HevSocks5_scheme \<times> bool \<times> int) option" where
  "hev_socks5_udp_fwd_f rs sa0 get_fd bnd nt self fd mem isbound = do {
     let svec = map (\<lambda>b. \<lparr>m_addr = AddrUninit, m_buf = b, m_len = UDP_BUF_SIZE\<rparr>) mem;
     (nt, self, svec, res) \<leftarrow> hev_socks5_udp_recvmmsg get_fd True nt self svec;
     if res > 0 then do {
       dvec \<leftarrow> fwd_dests rs sa0 (hev_socks5_get_addr_family self) svec (nat res);
       (case dvec of None \<Rightarrow> Some (nt, self, isbound, - 1)
        | Some dvec \<Rightarrow>
            (case (if isbound then (nt, 0) else bnd nt self fd (the (fst (hd dvec)))) of (nt, ret) \<Rightarrow>
             if ret < 0 then Some (nt, self, isbound, - 1)
             else case hev_task_io_socket_sendmmsg dvec nt self fd of (nt, self, res) \<Rightarrow>
             Some (nt, self, True, if res \<le> 0 then (if res = - 1 \<and> n_again nt then 0 else - 1) else 1))) }
     else Some (nt, self, isbound, if res = - 1 \<and> n_again nt then 0 else - 1) }"

definition hev_socks5_udp_fwd_b ::
  "'a HevSocks5_scheme getfd \<Rightarrow> nat \<Rightarrow> net \<Rightarrow> 'a HevSocks5_scheme \<Rightarrow> int \<Rightarrow> (net \<times> 'a HevSocks5_scheme \<times> int) option" where
  "hev_socks5_udp_fwd_b get_fd num nt self fd = do {
     let (nt, self, got, res) = hev_task_io_socket_recvmmsg True (replicate num UDP_BUF_SIZE) nt self fd;
     (nt, self, res) \<leftarrow>
       (if res > 0 then
          hev_socks5_udp_sendmmsg get_fd nt self
            (map (\<lambda>(sa, bs). \<lparr>m_addr = AddrAt (fst (hev_socks5_addr_from_sockaddr6 (replicate 19 0) sa)), m_buf = bs, m_len = length bs\<rparr>) got)
        else Some (nt, self, res));
     Some (nt, self, if res \<le> 0 then (if res = - 1 \<and> n_again nt then 0 else - 1) else 1) }"

text \<open>The loop of the splicer. A wait ends after the next of the delays \<open>ws\<close>; when there is none
  left, nothing wakes the task before its time is up. \<open>stale\<close> has the contents of the buffers at each turn.\<close>

datatype 'r run = Finished 'r | Undefined | Unfinished

fun udp_splice_loop ::
  "nat \<Rightarrow> resolver \<Rightarrow> sockaddr_in6 \<Rightarrow> 'a HevSocks5_scheme getfd \<Rightarrow> 'a HevSocks5_scheme bindfn \<Rightarrow> nat \<Rightarrow> (nat \<Rightarrow> bytes list) \<Rightarrow>
   int \<Rightarrow> nat list \<Rightarrow> int \<Rightarrow> int \<Rightarrow> bool \<Rightarrow> net \<Rightarrow> 'a HevSocks5_scheme \<Rightarrow> (net \<times> 'a HevSocks5_scheme) run" where
  "udp_splice_loop 0 rs sa0 get_fd bnd num stale fd_b ws res_f res_b isbound nt self = Unfinished"
| "udp_splice_loop (Suc n) rs sa0 get_fd bnd num stale fd_b ws res_f res_b isbound nt self =
     (case (if res_f \<ge> 0 then hev_socks5_udp_fwd_f rs sa0 get_fd bnd nt self fd_b (stale n) isbound else Some (nt, self, isbound, res_f)) of
        None \<Rightarrow> Undefined
      | Some (nt, self, isbound, res_f) \<Rightarrow>
     (case (if res_b \<ge> 0 then hev_socks5_udp_fwd_b get_fd num nt self fd_b else Some (nt, self, res_b)) of
        None \<Rightarrow> Undefined
      | Some (nt, self, res_b) \<Rightarrow>
     if res_f > 0 \<or> res_b > 0 then
       (case udp_task_io_yielder HEV_TASK_YIELD 0 nt self of (nt, self, res) \<Rightarrow>
        if res \<noteq> 0 then Finished (nt, self)
        else udp_splice_loop n rs sa0 get_fd bnd num stale fd_b ws res_f res_b isbound nt self)
     else if res_f = 0 \<or> res_b = 0 then
       (case udp_task_io_yielder HEV_TASK_WAITIO (case ws of [] \<Rightarrow> nat (s_timeout self) | w # _ \<Rightarrow> w) nt self of (nt, self, res) \<Rightarrow>
        if res \<noteq> 0 then Finished (nt, self)
        else udp_splice_loop n rs sa0 get_fd bnd num stale fd_b (drop 1 ws) res_f res_b isbound nt self)
     else Finished (nt, self)))"

text \<open>\<open>hev_free\<close> at the end; the count of buffers is that of the settings.\<close>

definition hev_socks5_udp_splicer ::
  "nat \<Rightarrow> misc \<Rightarrow> resolver \<Rightarrow> sockaddr_in6 \<Rightarrow> 'a HevSocks5_scheme getfd \<Rightarrow> 'a HevSocks5_scheme bindfn \<Rightarrow> (nat \<Rightarrow> bytes list) \<Rightarrow>
   nat list \<Rightarrow> net \<Rightarrow> 'a HevSocks5_scheme \<Rightarrow> int \<Rightarrow> (net \<times> 'a HevSocks5_scheme \<times> int) run" where
  "hev_socks5_udp_splicer fuel m rs sa0 get_fd bnd stale ws nt self fd_b =
     (let num = nat (udp_copy_buffer_nums m) in
      case hev_malloc nt of (nt, ok) \<Rightarrow>
      if \<not> ok then Finished (nt, self, - 1) else
      let nt = hev_task_add_fd (hev_task_add_fd nt (get_fd self)) fd_b in
      case udp_splice_loop fuel rs sa0 get_fd bnd num stale fd_b ws 1 1 False nt self of
        Finished (nt, self) \<Rightarrow> Finished (hev_free nt, self, 0)
      | Undefined \<Rightarrow> Undefined
      | Unfinished \<Rightarrow> Unfinished)"

end
