(* ===== verification/UDPFrames.thy ===== *)
theory UDPFrames
  imports Socks5UDP
begin

text \<open>
  Datagrams inside the control connection and with a header: what one side sends the other
  side receives, whatever the pieces in which the bytes arrive.
\<close>

section \<open>Streams that keep going\<close>

text \<open>No pause of the other side is longer than the time-out.\<close>

definition smooth :: "int \<Rightarrow> rxev list \<Rightarrow> bool" where
  "smooth t es \<longleftrightarrow> (\<forall>d. RWait d \<in> set es \<longrightarrow> hev_socks5_task_io_yielder HEV_TASK_WAITIO t d = 0)"

lemma smooth_simps [simp]:
  "smooth t []" "smooth t (Chunk bs # es) = smooth t es" "smooth t (REof # es) = smooth t es" "smooth t (RErr # es) = smooth t es"
  "smooth t (RWait d # es) \<longleftrightarrow> hev_socks5_task_io_yielder HEV_TASK_WAITIO t d = 0 \<and> smooth t es"
  by (auto simp: smooth_def)

lemma recv_loop_smooth:
  "recv_loop w dw t n got ag es = (es', bs, r, ag') \<Longrightarrow> smooth t es \<Longrightarrow> smooth t es'"
  by (induction w dw t n got ag es rule: recv_loop.induct) (auto simp: Let_def split: if_splits)

lemma recv_loop_once:
  assumes "recv_loop False dw t n [] ag es = (es', bs, r, ag')" "smooth t es" "0 < n"
  shows "(0 < r \<and> r = int (length bs) \<and> length bs \<le> n \<and> avail t es = bs @ avail t es') \<or>
    (bs = [] \<and> r = - 1 \<and> ag' \<and> dw \<and> avail t es' = avail t es) \<or> (r \<le> 0 \<and> bs = [] \<and> avail t es = [])"
  using assms
proof (induction "False" dw t n "[] :: bytes" ag es rule: recv_loop.induct)
  case (5 dw t len ag bs0 es)
  then show ?case by (cases "bs0 = []") (auto simp: Let_def min_def split: if_splits)
qed (auto simp: partial_def yielder_zero_iff split: if_splits)

lemma recv_once:
  assumes "task_recv False dw t nt fd n = (nt', bs, r)" "smooth t (n_rx nt fd)" "0 < n"
  shows "(\<exists>es ag. nt' = nt\<lparr>n_rx := (n_rx nt)(fd := es), n_again := ag\<rparr> \<and> smooth t es) \<and>
    ((0 < r \<and> r = int (length bs) \<and> length bs \<le> n \<and> avail t (n_rx nt fd) = bs @ avail t (n_rx nt' fd)) \<or>
     (bs = [] \<and> r = - 1 \<and> n_again nt' \<and> dw \<and> avail t (n_rx nt' fd) = avail t (n_rx nt fd)) \<or>
     (r \<le> 0 \<and> bs = [] \<and> avail t (n_rx nt fd) = []))"
  using assms recv_loop_once [of dw t n "n_again nt" "n_rx nt fd"] recv_loop_smooth [of False dw t n "[]" "n_again nt" "n_rx nt fd"]
  by (auto simp: task_recv_def split: prod.splits)

lemma recv_all:
  assumes "n \<le> length (avail t (n_rx nt fd))" "0 < n" "smooth t (n_rx nt fd)"
  shows "\<exists>nt' es ag. task_recv True False t nt fd n = (nt', take n (avail t (n_rx nt fd)), int n) \<and>
    nt' = nt\<lparr>n_rx := (n_rx nt)(fd := es), n_again := ag\<rparr> \<and> smooth t es \<and> avail t es = drop n (avail t (n_rx nt fd))"
proof -
  obtain es ag where l: "recv_loop True False t n [] (n_again nt) (n_rx nt fd) = (es, take n (avail t (n_rx nt fd)), int n, ag)"
    "avail t es = drop n (avail t (n_rx nt fd))"
    using recv_loop_ok [of "[]" n t "n_rx nt fd" "n_again nt"] assms(1,2) by auto
  then show ?thesis using recv_loop_smooth [OF l(1) assms(3)]
    by (intro exI [of _ "nt\<lparr>n_rx := (n_rx nt)(fd := es), n_again := ag\<rparr>"] exI [of _ es] exI [of _ ag]) (simp add: task_recv_def)
qed

section \<open>Frames\<close>

text \<open>A datagram inside the control connection: its length, the length of the header and the
  address, the address and the data.\<close>

definition udp_frame :: "dest \<times> bytes \<Rightarrow> bytes" where
  "udp_frame = (\<lambda>(d, data). be16 (of_nat (length data)) @ [of_nat (3 + length (wire d))] @ wire d @ data)"

definition frame_ok :: "dest \<times> bytes \<Rightarrow> bool" where
  "frame_ok = (\<lambda>(d, data). dest_ok d \<and> 3 + length (wire d) < 256 \<and> length (wire d) + length data \<le> UDP_BUF_SIZE)"

text \<open>What a message says.\<close>

definition carries :: "HevSocks5UDPMsg \<Rightarrow> dest \<times> bytes \<Rightarrow> bool" where
  "carries msg = (\<lambda>(d, data). (\<exists>x. m_addr msg = AddrAt (wire d @ x)) \<and> m_len msg = length data \<and> (\<exists>y. m_buf msg = data @ y))"

lemma addr_len_wire: "dest_ok d \<Longrightarrow> hev_socks5_addr_len (wire d @ x) = int (length (wire d))"
  by (cases d) (auto simp: hev_socks5_addr_len_def socks5_consts unsigned_of_nat take_bit_nat_eq_self)

lemma length_wire_pos: "dest_ok d \<Longrightarrow> 4 \<le> length (wire d)"
  by (cases d) simp_all

lemma tcp_iov_frame:
  assumes "carries msg (d, data)" "dest_ok d"
  shows "\<exists>v. udp_tcp_iov msg = Some (Some v) \<and> concat v = udp_frame (d, data)"
proof -
  obtain x y where m: "m_addr msg = AddrAt (wire d @ x)" "m_buf msg = data @ y" "m_len msg = length data"
    using assms(1) by (auto simp: carries_def)
  have "wire d \<noteq> []" using length_wire_pos [OF assms(2)] by auto
  then show ?thesis using m addr_len_wire [OF assms(2), of x]
    by (simp add: udp_tcp_iov_def udp_frame_def Let_def)
qed

lemma tcp_iovs_frames:
  assumes "list_all2 carries msgs fs" "\<forall>f \<in> set fs. dest_ok (fst f)"
  shows "\<exists>vs. udp_iovs udp_tcp_iov msgs = Some (Some vs) \<and> concat (concat vs) = concat (map udp_frame fs)"
  using assms
proof (induction rule: list_all2_induct)
  case (Cons msg msgs f fs)
  obtain d data where f: "f = (d, data)" by (rule prod.exhaust)
  obtain v where "udp_tcp_iov msg = Some (Some v)" "concat v = udp_frame f"
    using tcp_iov_frame [of msg d data] Cons f by auto
  then show ?case using Cons by auto
qed simp

lemma sendmmsg_tcp_frames:
  assumes "list_all2 carries msgs fs" "\<forall>f \<in> set fs. dest_ok (fst f)" "fs \<noteq> []" "tx_open (s_timeout self) (n_tx nt (get_fd self))"
  shows "\<exists>nt'. hev_socks5_udp_sendmmsg_tcp get_fd nt self msgs = Some (nt', self, int (length msgs)) \<and>
    n_out nt' (get_fd self) = n_out nt (get_fd self) @ concat (map udp_frame fs) \<and> tx_open (s_timeout self) (n_tx nt' (get_fd self))"
proof -
  obtain vs where vs: "udp_iovs udp_tcp_iov msgs = Some (Some vs)" "concat (concat vs) = concat (map udp_frame fs)"
    using tcp_iovs_frames [OF assms(1,2)] by blast
  have "concat (map udp_frame fs) \<noteq> []" using assms(3) by (cases fs) (auto simp: udp_frame_def)
  then have pos: "0 < iov_len (concat vs)" using vs(2) by (simp add: iov_len_def)
  obtain es ag where "hev_task_io_socket_sendmsg (s_timeout self) nt (get_fd self) (concat vs) =
      (nt\<lparr>n_tx := (n_tx nt)(get_fd self := es), n_out := (n_out nt)(get_fd self := n_out nt (get_fd self) @ concat (concat vs)), n_again := ag\<rparr>, int (iov_len (concat vs)))"
    "tx_open (s_timeout self) es"
    using sendmsg_ok [OF assms(4), of "concat vs"] by blast
  then show ?thesis using vs pos by (auto simp: hev_socks5_udp_sendmmsg_tcp_def)
qed

section \<open>Receiving frames\<close>

lemma of_le16_be16': "be16 p = [a, b] \<Longrightarrow> ntohs (of_le16 a b) = p"
  using of_le16_be16 [of p] by simp

lemma frame_head:
  assumes "frame_ok (d, data)"
  shows "\<exists>l0 l1 t l r. udp_frame (d, data) = [l0, l1, of_nat (3 + length (wire d)), t, l] @ r @ data \<and> wire d = [t, l] @ r \<and>
    unat (ntohs (of_le16 l0 l1)) = length data \<and> unat (of_nat (3 + length (wire d)) :: u8) = 3 + length (wire d)"
proof -
  obtain t l r where w: "wire d = [t, l] @ r" using length_wire_pos [of d] assms by (cases "wire d"; cases "tl (wire d)") (auto simp: frame_ok_def)
  obtain l0 l1 where l: "be16 (of_nat (length data)) = [l0, l1]" by (simp add: be16_def)
  have n: "length data < 65536" "3 + length (wire d) < 256" using assms by (auto simp: frame_ok_def UDP_BUF_SIZE_def)
  then have "unat (of_nat (length data) :: u16) = length data" "unat (of_nat (3 + length (wire d)) :: u8) = 3 + length (wire d)"
    by (simp_all only: unat_of_nat take_bit_nat_eq_self) (simp_all add: take_bit_nat_eq_self)
  then show ?thesis using w l of_le16_be16' [OF l] by (auto simp: udp_frame_def)
qed


lemma recv_head:
  assumes r: "smooth t (n_rx nt fd)" "avail t (n_rx nt fd) = hd5 @ s" "length hd5 = 5"
    and c: "task_recv False nb t nt fd 5 = (nt1, b1, r1)"
    and d: "(if 0 < r1 \<and> r1 < 5 then (case task_recv True False t nt1 fd (nat (5 - r1)) of (nt, b2, r2) \<Rightarrow> (nt, b1 @ b2, r1 + r2)) else (nt1, b1, r1)) = (nt2, b, r)"
  shows "io_only fd nt nt2 \<and> smooth t (n_rx nt2 fd) \<and>
    (nb \<and> r = - 1 \<and> n_again nt2 \<and> avail t (n_rx nt2 fd) = hd5 @ s \<or> r = 5 \<and> b = hd5 \<and> avail t (n_rx nt2 fd) = s)"
proof -
  from recv_once [OF c r(1)] obtain es ag where nt1: "nt1 = nt\<lparr>n_rx := (n_rx nt)(fd := es), n_again := ag\<rparr>" "smooth t es"
    and cs: "(0 < r1 \<and> r1 = int (length b1) \<and> length b1 \<le> 5 \<and> hd5 @ s = b1 @ avail t es) \<or>
      (b1 = [] \<and> r1 = - 1 \<and> n_again nt1 \<and> nb \<and> avail t es = hd5 @ s)" using r(2,3) by auto
  note io = recv_io [OF c]
  from cs show ?thesis
  proof
    assume k: "0 < r1 \<and> r1 = int (length b1) \<and> length b1 \<le> 5 \<and> hd5 @ s = b1 @ avail t es"
    show ?thesis
    proof (cases "length b1 = 5")
      case True
      then show ?thesis using k d nt1 r(3) io by (auto simp: append_eq_append_conv)
    next
      case False
      let ?n = "5 - length b1"
      have av: "avail t es = drop (length b1) hd5 @ s" using k r(3)
        by (metis append_eq_append_conv_if append_eq_conv_conj drop_append length_append)
      have n: "nat (5 - r1) = ?n" "0 < ?n" "?n \<le> length (avail t (n_rx nt1 fd))" using k False nt1 av r(3) by auto
      obtain nt3 es3 ag3 where 3: "task_recv True False t nt1 fd ?n = (nt3, take ?n (avail t (n_rx nt1 fd)), int ?n)"
        "nt3 = nt1\<lparr>n_rx := (n_rx nt1)(fd := es3), n_again := ag3\<rparr>" "smooth t es3" "avail t es3 = drop ?n (avail t (n_rx nt1 fd))"
        using recv_all [OF n(3,2)] nt1 by auto
      have "b1 @ take ?n (avail t es) = hd5"
        using k av r(3) by (metis append_take_drop_id append_eq_append_conv length_append length_drop take_append take_all_iff take_0 append_Nil2 diff_self_eq_0 order_refl)
      moreover have "nt2 = nt3" "b = b1 @ take ?n (avail t es)" "r = 5" using k d 3(1) n nt1 by auto
      ultimately show ?thesis using 3 nt1 av r(3) io_only_trans [OF io recv_io [OF 3(1)]] by auto
    qed
  next
    assume "b1 = [] \<and> r1 = - 1 \<and> n_again nt1 \<and> nb \<and> avail t es = hd5 @ s"
    then show ?thesis using d nt1 io by auto
  qed
qed


lemma recv_frame_ok:
  assumes r: "smooth t (n_rx nt fd)" "avail t (n_rx nt fd) = udp_frame (d, data) @ s" "frame_ok (d, data)"
    and m: "m_len msg = UDP_BUF_SIZE" "length (m_buf msg) = UDP_BUF_SIZE"
    and c: "recv_frame nb t nt fd msg = (nt', res)"
  shows "io_only fd nt nt' \<and> smooth t (n_rx nt' fd) \<and>
    (nb \<and> res = Inr (True, - 1) \<and> n_again nt' \<and> avail t (n_rx nt' fd) = udp_frame (d, data) @ s \<or>
     (\<exists>msg'. res = Inl msg' \<and> carries msg' (d, data)) \<and> avail t (n_rx nt' fd) = s)"
proof -
  obtain l0 l1 h tt l r0 where f: "udp_frame (d, data) = [l0, l1, h, tt, l] @ r0 @ data" "wire d = [tt, l] @ r0"
    "unat (ntohs (of_le16 l0 l1)) = length data" "unat h = 3 + length (wire d)"
    using frame_head [OF r(3)] by blast
  let ?hd = "[l0, l1, h, tt, l]" and ?n = "length r0 + length data"
  obtain nt1 b1 r1 where 1: "task_recv False nb t nt fd 5 = (nt1, b1, r1)" by (rule prod_cases3)
  obtain nt2 b r2 where 2: "(if 0 < r1 \<and> r1 < 5 then (case task_recv True False t nt1 fd (nat (5 - r1)) of (nt, b2, r2) \<Rightarrow> (nt, b1 @ b2, r1 + r2)) else (nt1, b1, r1)) = (nt2, b, r2)"
    by (rule prod_cases3)
  have k: "io_only fd nt nt2" "smooth t (n_rx nt2 fd)"
    "nb \<and> r2 = - 1 \<and> n_again nt2 \<and> avail t (n_rx nt2 fd) = ?hd @ r0 @ data @ s \<or> r2 = 5 \<and> b = ?hd \<and> avail t (n_rx nt2 fd) = r0 @ data @ s"
    using recv_head [OF r(1) _ _ 1 2, of ?hd "r0 @ data @ s"] r(2) f(1) by auto
  show ?thesis
  proof (cases "r2 = 5")
    case False
    then have "nt' = nt2" "res = Inr (True, - 1)" using c k(3) unfolding recv_frame_def 1 prod.case 2 by auto
    then show ?thesis using k False f(1) by auto
  next
    case True
    then have b: "b = ?hd" "avail t (n_rx nt2 fd) = (r0 @ data) @ s" using k(3) by auto
    have w: "4 \<le> length (wire d)" "length (wire d) + length data \<le> 1500" "3 + length (wire d) < 256"
      using r(3) length_wire_pos [of d] by (auto simp: frame_ok_def UDP_BUF_SIZE_def)
    have n: "0 < ?n" "?n \<le> length (avail t (n_rx nt2 fd))" using w f(2) b(2) by auto
    obtain nt3 es ag where 3: "task_recv True False t nt2 fd ?n = (nt3, r0 @ data, int ?n)"
      "nt3 = nt2\<lparr>n_rx := (n_rx nt2)(fd := es), n_again := ag\<rparr>" "smooth t es" "avail t es = s"
      using recv_all [OF n(2,1) k(2)] b(2) by auto
    have h5: "\<not> h < 5" using f(4) w(1) by (simp add: word_less_nat_alt)
    have al: "unat h - 3 = Suc (Suc (length r0))" using f(2,4) by simp
    have "(1500 - int (Suc (Suc (length r0)))) mod 2 ^ 64 = 1500 - int (Suc (Suc (length r0)))"
      using w(2) f(2) by (intro mod_pos_pos_trivial) auto
    then have ck: "\<not> (int (m_len msg) - int (Suc (Suc (length r0)))) mod 2 ^ 64 < int (length data)"
      using w(2) f(2) m(1) by (simp add: UDP_BUF_SIZE_def)
    let ?mem = "write_at (m_buf msg) 0 ([tt, l] @ r0 @ data)"
    have eq: "recv_frame nb t nt fd msg = (nt3, Inl \<lparr>m_addr = AddrAt ?mem, m_buf = drop (Suc (Suc (length r0))) ?mem, m_len = length data\<rparr>)"
      unfolding recv_frame_def 1 prod.case 2 Let_def using True b(1) h5 al ck 3(1) f(3) by simp
    have mem: "?mem = wire d @ data @ drop (length (wire d) + length data) (m_buf msg)"
      using f(2) by (simp add: write_at_def)
    have "carries \<lparr>m_addr = AddrAt ?mem, m_buf = drop (Suc (Suc (length r0))) ?mem, m_len = length data\<rparr> (d, data)"
      using f(2) unfolding carries_def mem by simp
    then show ?thesis using c eq 3 io_only_trans [OF k(1) recv_io [OF 3(1)]] by auto
  qed
qed

definition udp_buffer :: "HevSocks5UDPMsg \<Rightarrow> bool" where
  "udp_buffer msg \<longleftrightarrow> m_len msg = UDP_BUF_SIZE \<and> length (m_buf msg) = UDP_BUF_SIZE"

lemma recv_frame_end:
  assumes "smooth t (n_rx nt fd)" "avail t (n_rx nt fd) = []" "recv_frame nb t nt fd msg = (nt', res)"
  shows "io_only fd nt nt' \<and> (\<exists>r. res = Inr (True, r))"
proof -
  obtain nt1 b1 r1 where 1: "task_recv False nb t nt fd 5 = (nt1, b1, r1)" by (rule prod_cases3)
  have "r1 \<le> 0" using recv_once [OF 1 assms(1)] assms(2) by auto
  then show ?thesis using assms(3) recv_io [OF 1] unfolding recv_frame_def 1 by auto
qed

lemma recvmmsg_tcp_loop_frames:
  assumes "smooth t (n_rx nt fd)" "avail t (n_rx nt fd) = concat (map udp_frame fs)" "\<forall>f \<in> set fs. frame_ok f" "\<forall>b \<in> set bufs. udp_buffer b"
    and "recvmmsg_tcp_loop nb t fd got bufs nt = (nt', msgv, res)" "got = [] \<longrightarrow> fs \<noteq> [] \<and> bufs \<noteq> []"
  shows "\<exists>j ms rest. io_only fd nt nt' \<and> j \<le> length bufs \<and> j \<le> length fs \<and> msgv = got @ ms @ rest \<and> list_all2 carries ms (take j fs) \<and>
    (j < length fs \<longrightarrow> avail t (n_rx nt' fd) = concat (map udp_frame (drop j fs))) \<and>
    (if got = [] \<and> j = 0 then nb \<and> res = - 1 \<and> n_again nt' else res = int (length got + j)) \<and>
    (\<not> nb \<longrightarrow> j = min (length fs) (length bufs))"
  using assms
proof (induction bufs arbitrary: got fs nt)
  case Nil
  then show ?case by (intro exI [of _ 0] exI [of _ "[]"] exI [of _ "[]"]) auto
next
  case (Cons b bufs)
  obtain nt1 x where 1: "recv_frame nb t nt fd b = (nt1, x)" by (rule prod.exhaust)
  show ?case
  proof (cases fs)
    case Nil
    then obtain r where "x = Inr (True, r)" "io_only fd nt nt1"
      using recv_frame_end [OF Cons.prems(1) _ 1] Cons.prems(2) by auto
    then show ?thesis using Cons.prems(5,6) 1 Nil
      by (intro exI [of _ 0] exI [of _ "[]"] exI [of _ "b # bufs"]) auto
  next
    case (Cons f fs')
    obtain d data where f: "f = (d, data)" by (rule prod.exhaust)
    have s: "avail t (n_rx nt fd) = udp_frame (d, data) @ concat (map udp_frame fs')" "frame_ok (d, data)"
      using Cons.prems(2,3) Cons f by auto
    have b: "m_len b = UDP_BUF_SIZE" "length (m_buf b) = UDP_BUF_SIZE" using Cons.prems(4) by (auto simp: udp_buffer_def)
    note k = recv_frame_ok [OF Cons.prems(1) s b 1]
    show ?thesis
    proof (cases x)
      case (Inr y)
      then have y: "nb" "y = (True, - 1)" "n_again nt1" "avail t (n_rx nt1 fd) = concat (map udp_frame fs)" "io_only fd nt nt1"
        using k Cons f by auto
      then show ?thesis using Cons.prems(5) 1 Inr Cons
        by (intro exI [of _ 0] exI [of _ "[]"] exI [of _ "b # bufs"]) auto
    next
      case (Inl msg)
      then have m: "carries msg f" "avail t (n_rx nt1 fd) = concat (map udp_frame fs')" "smooth t (n_rx nt1 fd)" "io_only fd nt nt1"
        using k f by auto
      have l: "recvmmsg_tcp_loop nb t fd (got @ [msg]) bufs nt1 = (nt', msgv, res)" using Cons.prems(5) 1 Inl by simp
      from Cons.IH [OF m(3,2) _ _ l] Cons.prems(3,4) Cons obtain j ms rest where j:
        "io_only fd nt1 nt'" "j \<le> length bufs" "j \<le> length fs'" "msgv = (got @ [msg]) @ ms @ rest" "list_all2 carries ms (take j fs')"
        "j < length fs' \<longrightarrow> avail t (n_rx nt' fd) = concat (map udp_frame (drop j fs'))"
        "res = int (length got + 1 + j)" "\<not> nb \<longrightarrow> j = min (length fs') (length bufs)" by auto
      show ?thesis
        by (intro exI [of _ "Suc j"] exI [of _ "msg # ms"] exI [of _ rest])
          (use j m(1) io_only_trans [OF m(4) j(1)] Cons in auto)
    qed
  qed
qed


section \<open>Datagrams\<close>

definition udp_dgram :: "dest \<times> bytes \<Rightarrow> bytes" where
  "udp_dgram = (\<lambda>(d, data). [0, 0, 0] @ wire d @ data)"

definition dgram_ok :: "dest \<times> bytes \<Rightarrow> bool" where
  "dgram_ok = (\<lambda>(d, data). dest_ok d \<and> 3 + length (wire d) + length data \<le> UDP_BUF_SIZE)"

lemma udp_iov_dgram:
  assumes "carries msg (d, data)" "dest_ok d"
  shows "\<exists>v. udp_udp_iov msg = Some (Some v) \<and> concat v = udp_dgram (d, data)"
proof -
  obtain x y where m: "m_addr msg = AddrAt (wire d @ x)" "m_buf msg = data @ y" "m_len msg = length data"
    using assms(1) by (auto simp: carries_def)
  have "wire d \<noteq> []" using length_wire_pos [OF assms(2)] by auto
  then show ?thesis using m addr_len_wire [OF assms(2), of x]
    by (simp add: udp_udp_iov_def udp_dgram_def Let_def)
qed

lemma udp_iovs_dgrams:
  assumes "list_all2 carries msgs fs" "\<forall>f \<in> set fs. dest_ok (fst f)"
  shows "\<exists>vs. udp_iovs udp_udp_iov msgs = Some (Some vs) \<and> map concat vs = map udp_dgram fs"
  using assms
proof (induction rule: list_all2_induct)
  case (Cons msg msgs f fs)
  obtain d data where f: "f = (d, data)" by (rule prod.exhaust)
  obtain v where "udp_udp_iov msg = Some (Some v)" "concat v = udp_dgram f"
    using udp_iov_dgram [of msg d data] Cons f by auto
  then show ?case using Cons by auto
qed simp

lemma split_dgram_ok:
  assumes "dgram_ok (d, data)" "udp_buffer b"
  shows "\<exists>msg. split_dgram b (udp_dgram (d, data)) = Some msg \<and> carries msg (d, data)"
proof -
  let ?r = "drop (length (udp_dgram (d, data))) (m_buf b)"
  have mem: "write_at (m_buf b) 0 (udp_dgram (d, data)) = [0, 0, 0] @ wire d @ data @ ?r"
    by (simp add: write_at_def udp_dgram_def)
  have w: "4 \<le> length (wire d)" "dest_ok d" using assms(1) length_wire_pos by (auto simp: dgram_ok_def)
  then have "wire d \<noteq> []" by auto
  moreover have "drop (3 + length (wire d)) ([0, 0, 0] @ wire d @ data @ ?r) = data @ ?r" by (simp add: numeral_3_eq_3)
  ultimately show ?thesis using addr_len_wire [OF w(2), of "data @ ?r"] w
    unfolding split_dgram_def mem Let_def by (auto simp: carries_def udp_dgram_def)
qed

lemma split_dgrams_ok:
  assumes "list_all2 (\<lambda>b f. udp_buffer b) bufs fs" "\<forall>f \<in> set fs. dgram_ok f"
  shows "\<exists>ms. split_dgrams bufs (map udp_dgram fs) = Some ms \<and> list_all2 carries ms fs"
  using assms
proof (induction rule: list_all2_induct)
  case (Cons b bufs f fs)
  obtain d data where f: "f = (d, data)" by (rule prod.exhaust)
  obtain msg where "split_dgram b (udp_dgram f) = Some msg" "carries msg f"
    using split_dgram_ok [of d data b] Cons f by auto
  then show ?case using Cons by auto
qed simp

lemma length_dgram: "dgram_ok f \<Longrightarrow> length (udp_dgram f) \<le> UDP_BUF_SIZE"
  by (auto simp: dgram_ok_def udp_dgram_def)

lemma take_dgrams_all:
  assumes "\<forall>f \<in> set fs. dgram_ok f" "length bufs = length fs"
  shows "take_dgrams (replicate (length fs) UDP_BUF_SIZE) (map (\<lambda>f. (sa, udp_dgram f)) fs) = map (\<lambda>f. (sa, udp_dgram f)) fs"
  using assms(1) length_dgram by (induction fs) (auto simp: take_dgrams_def)

text \<open>C37. Datagrams travel unchanged when they are relayed with a header: every batch that
  \<open>hev_socks5_udp_sendmmsg\<close> puts on the socket is taken apart by \<open>hev_socks5_udp_recvmmsg\<close> on the
  other side into the addresses and the data it was made from.\<close>

theorem udp_in_udp_roundtrip:
  assumes "s_type sndr = TYPE_UDP_IN_UDP" "s_type rcvr = TYPE_UDP_IN_UDP" "s_udp_associated rcvr"
    and "list_all2 carries msgs fs" "\<forall>f \<in> set fs. dgram_ok f" "fs \<noteq> []"
    and "n_dtx nt (gfd sndr) = []" "n_dout nt (gfd sndr) = []"
    and "\<forall>b \<in> set bufs. udp_buffer b" "length bufs = length fs"
  shows "\<exists>nt1. hev_socks5_udp_sendmmsg gfd nt sndr msgs = Some (nt1, sndr, int (length msgs)) \<and>
    (\<forall>nt2 es sa. n_drx nt2 (gfd2 rcvr) = Dgrams (map (\<lambda>(_, b). (sa, b)) (n_dout nt1 (gfd sndr))) # es \<longrightarrow>
      (\<exists>nt3 ms. hev_socks5_udp_recvmmsg gfd2 nb nt2 rcvr bufs = Some (nt3, rcvr, ms, int (length fs)) \<and>
        list_all2 carries ms fs \<and> n_drx nt3 (gfd2 rcvr) = es))"
proof -
  have "\<forall>f \<in> set fs. dest_ok (fst f)" using assms(5) by (auto simp: dgram_ok_def)
  from udp_iovs_dgrams [OF assms(4) this] obtain vs where vs: "udp_iovs udp_udp_iov msgs = Some (Some vs)" "map concat vs = map udp_dgram fs" by blast
  have len: "length msgs = length fs" "length vs = length fs" using assms(4) vs(2) list_all2_lengthD map_eq_imp_length_eq by blast+
  let ?out = "map (\<lambda>v. (None, concat v)) vs"
  let ?nt1 = "nt\<lparr>n_dtx := (n_dtx nt)(gfd sndr := []), n_dout := (n_dout nt)(gfd sndr := ?out)\<rparr>"
  have 1: "hev_socks5_udp_sendmmsg gfd nt sndr msgs = Some (?nt1, sndr, int (length msgs))"
    using vs(1) assms(1,7,8) len by (simp add: hev_socks5_udp_sendmmsg_def hev_socks5_udp_sendmmsg_udp_def hev_task_io_socket_sendmmsg_def)
  have out: "map (\<lambda>(_, b). (sa, b)) (n_dout ?nt1 (gfd sndr)) = map (\<lambda>f. (sa, udp_dgram f)) fs" for sa :: sockaddr_in6
    using arg_cong [OF vs(2), of "map (Pair sa)"] by (simp add: comp_def)
  have caps: "map m_len bufs = replicate (length fs) UDP_BUF_SIZE"
    using assms(9,10) by (auto simp: udp_buffer_def map_replicate_const [symmetric] intro!: map_cong nth_equalityI)
  obtain ms where ms: "split_dgrams bufs (map udp_dgram fs) = Some ms" "list_all2 carries ms fs"
    using split_dgrams_ok [of bufs fs] assms(5,9,10) by (auto simp: list_all2_conv_all_nth)
  have "\<exists>nt3. hev_socks5_udp_recvmmsg gfd2 nb nt2 rcvr bufs = Some (nt3, rcvr, ms, int (length fs)) \<and> n_drx nt3 (gfd2 rcvr) = es"
    if "n_drx nt2 (gfd2 rcvr) = Dgrams (map (\<lambda>(_, b). (sa, b)) (n_dout ?nt1 (gfd sndr))) # es" for nt2 es sa
  proof -
    have d: "n_drx nt2 (gfd2 rcvr) = Dgrams (map (\<lambda>f. (sa, udp_dgram f)) fs) # es" using that unfolding out .
    have r: "hev_task_io_socket_recvmmsg nb (map m_len bufs) nt2 rcvr (gfd2 rcvr) =
        (nt2\<lparr>n_drx := (n_drx nt2)(gfd2 rcvr := es)\<rparr>, rcvr, map (\<lambda>f. (sa, udp_dgram f)) fs, int (length fs))"
      using take_dgrams_all [OF assms(5,10), of sa] assms(6) unfolding hev_task_io_socket_recvmmsg_def d caps
      by (simp add: Let_def)
    have up: "rcvr\<lparr>s_udp_associated := True\<rparr> = rcvr" using assms(3) by simp
    show ?thesis using r ms(1) assms(2,3,6) up
      by (simp add: hev_socks5_udp_recvmmsg_def hev_socks5_udp_recvmmsg_udp_def Let_def comp_def)
  qed
  then show ?thesis using 1 ms(2) by blast
qed

end
