(* ===== verification/UDPRelay.thy ===== *)
theory UDPRelay
  imports UDPFrames
begin

text \<open>
  The relay of datagrams as a whole: that it ends, what it delivers in both directions, and
  what a truncated frame does to it.
\<close>

section \<open>What is left to receive\<close>

fun rx_size :: "rxev list \<Rightarrow> nat" where
  "rx_size [] = 0"
| "rx_size (Chunk bs # es) = Suc (length bs) + rx_size es"
| "rx_size (_ # es) = Suc (rx_size es)"

fun dg_size :: "dgev list \<Rightarrow> nat" where
  "dg_size [] = 0"
| "dg_size (Dgrams ds # es) = Suc (length ds) + dg_size es"
| "dg_size (_ # es) = Suc (dg_size es)"

definition left_at :: "net \<Rightarrow> int \<Rightarrow> nat" where
  "left_at nt fd = rx_size (n_rx nt fd) + dg_size (n_drx nt fd)"

text \<open>No script grows; that of \<open>fd\<close> gets shorter.\<close>

definition no_growth :: "net \<Rightarrow> net \<Rightarrow> bool" where
  "no_growth nt nt' \<longleftrightarrow> (\<forall>fd. left_at nt' fd \<le> left_at nt fd)"

definition progress :: "int \<Rightarrow> net \<Rightarrow> net \<Rightarrow> bool" where
  "progress fd nt nt' \<longleftrightarrow> no_growth nt nt' \<and> left_at nt' fd < left_at nt fd"

lemma no_growth_refl [simp]: "no_growth nt nt"
  by (simp add: no_growth_def)

lemma no_growth_trans [trans]: "no_growth nt nt' \<Longrightarrow> no_growth nt' nt'' \<Longrightarrow> no_growth nt nt''"
  unfolding no_growth_def using le_trans by blast

lemma progress_then: "progress fd nt nt' \<Longrightarrow> no_growth nt' nt'' \<Longrightarrow> progress fd nt nt''"
  unfolding progress_def no_growth_def using le_trans le_less_trans by blast

lemma then_progress: "no_growth nt nt' \<Longrightarrow> progress fd nt' nt'' \<Longrightarrow> progress fd nt nt''"
  unfolding progress_def no_growth_def using le_trans less_le_trans by blast

lemma left_at_other [simp]:
  "left_at (nt\<lparr>n_again := a\<rparr>) fd = left_at nt fd" "left_at (nt\<lparr>n_dtx := x\<rparr>) fd = left_at nt fd"
  "left_at (nt\<lparr>n_dout := y\<rparr>) fd = left_at nt fd"
  by (simp_all add: left_at_def)

lemma no_growth_other [simp]:
  "no_growth nt (nt'\<lparr>n_again := a\<rparr>) = no_growth nt nt'" "no_growth nt (nt'\<lparr>n_dtx := x\<rparr>) = no_growth nt nt'"
  "no_growth nt (nt'\<lparr>n_dout := y\<rparr>) = no_growth nt nt'" "no_growth (nt\<lparr>n_again := a\<rparr>) nt' = no_growth nt nt'"
  by (simp_all add: no_growth_def)

lemma recv_loop_size:
  "recv_loop w dw t n got ag es = (es', bs, r, ag') \<Longrightarrow> rx_size es' + length bs \<le> rx_size es + length got \<and> length got \<le> length bs"
  by (induction w dw t n got ag es rule: recv_loop.induct) (fastforce simp: Let_def min_def split: if_splits)+

lemma recv_growth:
  assumes "task_recv w dw t nt fd n = (nt', bs, r)"
  shows "no_growth nt nt' \<and> (bs \<noteq> [] \<longrightarrow> progress fd nt nt')"
proof -
  obtain es r' ag where l: "recv_loop w dw t n [] (n_again nt) (n_rx nt fd) = (es, bs, r', ag)"
    "nt' = nt\<lparr>n_rx := (n_rx nt)(fd := es), n_again := ag\<rparr>"
    using assms by (auto simp: task_recv_def split: prod.splits)
  have "rx_size es + length bs \<le> rx_size (n_rx nt fd)" using recv_loop_size [OF l(1)] by simp
  then show ?thesis using l(2) by (cases bs) (auto simp: no_growth_def progress_def left_at_def)
qed

lemma yielder_growth:
  assumes "udp_task_io_yielder ty d nt self = (nt', self', r)"
  shows "no_growth nt nt' \<and> (\<exists>t. self' = self\<lparr>s_timeout := t\<rparr> \<and> (0 \<le> s_timeout self \<longrightarrow> 0 \<le> t))"
proof -
  have "\<exists>t. self = self\<lparr>s_timeout := t\<rparr> \<and> (0 \<le> s_timeout self \<longrightarrow> 0 \<le> t)" by (rule exI [of _ "s_timeout self"]) simp
  then show ?thesis using assms
    by (auto simp: udp_task_io_yielder_def socks5_accessors split: if_splits prod.splits dest: recv_growth)
qed

text \<open>The only thing the relay changes in its object besides the association is the time-out.\<close>

definition same_ids :: "'a HevSocks5_scheme \<Rightarrow> 'a HevSocks5_scheme \<Rightarrow> bool" where
  "same_ids self self' \<longleftrightarrow> (\<exists>t b. self' = self\<lparr>s_timeout := t, s_udp_associated := b\<rparr> \<and> (0 \<le> s_timeout self \<longrightarrow> 0 \<le> t))"

lemma same_ids_refl [simp]: "same_ids self self"
  unfolding same_ids_def by (intro exI [of _ "s_timeout self"] exI [of _ "s_udp_associated self"]) simp

lemma same_ids_trans [trans]: "same_ids a b \<Longrightarrow> same_ids b c \<Longrightarrow> same_ids a c"
  unfolding same_ids_def by (elim exE conjE) (metis HevSocks5.select_convs(2) HevSocks5.surjective HevSocks5.update_convs(2,3))

lemma same_ids_nonneg: "same_ids self self' \<Longrightarrow> 0 \<le> s_timeout self \<Longrightarrow> 0 \<le> s_timeout self'"
  by (auto simp: same_ids_def)

lemma same_ids_timeout: "self' = self\<lparr>s_timeout := t\<rparr> \<Longrightarrow> (0 \<le> s_timeout self \<longrightarrow> 0 \<le> t) \<Longrightarrow> same_ids self self'"
  unfolding same_ids_def by (intro exI [of _ t] exI [of _ "s_udp_associated self"]) simp

lemma same_ids_assoc: "same_ids self (self\<lparr>s_udp_associated := b\<rparr>)"
  unfolding same_ids_def by (intro exI [of _ "s_timeout self"] exI [of _ b]) simp

lemma yielder_ids: "udp_task_io_yielder ty d nt self = (nt', self', r) \<Longrightarrow> no_growth nt nt' \<and> same_ids self self'"
  using yielder_growth same_ids_timeout by blast

lemma recvmmsg_loop_growth:
  assumes "recvmmsg_loop dw caps es nt self = (es', nt', self', got, r)"
  shows "no_growth nt nt' \<and> n_drx nt' = n_drx nt \<and> same_ids self self' \<and> dg_size es' + length got \<le> dg_size es \<and> (0 < r \<longrightarrow> got \<noteq> [])"
  using assms
proof (induction dw caps es nt self rule: recvmmsg_loop.induct)
  case (3 dw caps d es nt self)
  show ?case
  proof (cases dw)
    case True
    then show ?thesis using 3 by auto
  next
    case False
    obtain nt1 self1 r1 where y: "udp_task_io_yielder HEV_TASK_WAITIO d (nt\<lparr>n_again := True\<rparr>) self = (nt1, self1, r1)" by (rule prod_cases3)
    have k: "no_growth nt nt1" "same_ids self self1" using yielder_ids [OF y] by simp_all
    have dx: "n_drx nt1 = n_drx nt" using y
      by (auto simp: udp_task_io_yielder_def task_recv_def split: if_splits prod.splits)
    show ?thesis
    proof (cases "r1 \<noteq> 0")
      case True
      then show ?thesis using 3(2) False y k dx by auto
    next
      case z: False
      have "recvmmsg_loop dw caps es nt1 self1 = (es', nt', self', got, r)" using 3(2) False z y by simp
      from 3(1) [OF False y [symmetric] refl _ this] z k dx show ?thesis
        using no_growth_trans same_ids_trans by fastforce
    qed
  qed
next
  case (4 dw caps ds es nt self)
  show ?case
  proof (cases "caps = [] \<or> ds = []")
    case True
    then show ?thesis using 4 by (cases "caps = []") (auto split: if_splits)
  next
    case False
    then have e: "es' = (if length caps < length ds then Dgrams (drop (length caps) ds) # es else es)" "nt' = nt" "self' = self" "got = take_dgrams caps ds"
      using 4(2) by (auto simp: Let_def)
    have "length got = min (length caps) (length ds)" using e(4) by (simp add: take_dgrams_def)
    then show ?thesis using e(1-3) False by (cases got) (auto simp: min_def split: if_splits)
  qed
qed auto

lemma recvmmsg_growth:
  assumes "hev_task_io_socket_recvmmsg dw caps nt self fd = (nt', self', got, r)"
  shows "no_growth nt nt' \<and> same_ids self self' \<and> (0 < r \<longrightarrow> progress fd nt nt')"
proof -
  obtain es nt1 where l: "recvmmsg_loop dw caps (n_drx nt fd) nt self = (es, nt1, self', got, r)"
    "nt' = nt1\<lparr>n_drx := (n_drx nt1)(fd := es)\<rparr>"
    using assms by (auto simp: hev_task_io_socket_recvmmsg_def split: prod.splits)
  have k: "no_growth nt nt1" "n_drx nt1 = n_drx nt" "same_ids self self'" "dg_size es + length got \<le> dg_size (n_drx nt fd)" "0 < r \<longrightarrow> got \<noteq> []"
    using recvmmsg_loop_growth [OF l(1)] by auto
  have g: "no_growth nt nt'" unfolding no_growth_def
  proof
    fix x
    show "left_at nt' x \<le> left_at nt x" using k(1,2,4) l(2) by (auto simp: no_growth_def left_at_def dest: spec [of _ x])
  qed
  have "progress fd nt nt'" if "got \<noteq> []"
  proof -
    have "rx_size (n_rx nt1 fd) \<le> rx_size (n_rx nt fd)" using k(1,2) by (auto simp: no_growth_def left_at_def dest: spec [of _ fd])
    moreover have "dg_size es < dg_size (n_drx nt fd)" using k(4) that by (cases got) auto
    ultimately show ?thesis using g l(2) by (simp add: progress_def left_at_def)
  qed
  then show ?thesis using g k(3,5) by blast
qed

lemma sendmmsg_loop_growth:
  "sendmmsg_loop done ms es nt self = (es', nt', self', out, r) \<Longrightarrow> no_growth nt nt' \<and> same_ids self self'"
proof (induction "done" ms es nt self rule: sendmmsg_loop.induct)
  case (3 dn ms d es nt self)
  obtain nt1 self1 r1 where y: "udp_task_io_yielder HEV_TASK_WAITIO d (nt\<lparr>n_again := True\<rparr>) self = (nt1, self1, r1)" by (rule prod_cases3)
  have k: "no_growth nt nt1" "same_ids self self1" using yielder_ids [OF y] by simp_all
  show ?case
  proof (cases "r1 \<noteq> 0")
    case True
    then show ?thesis using 3(2) y k by auto
  next
    case False
    then have "sendmmsg_loop dn ms es nt1 self1 = (es', nt', self', out, r)" using 3(2) y by simp
    from 3(1) [OF y [symmetric] refl _ this] False k show ?thesis using no_growth_trans same_ids_trans by blast
  qed
qed (auto split: if_splits)

lemma sendmmsg_growth:
  "hev_task_io_socket_sendmmsg ms nt self fd = (nt', self', r) \<Longrightarrow> no_growth nt nt' \<and> same_ids self self'"
  by (auto simp: hev_task_io_socket_sendmmsg_def split: prod.splits dest: sendmmsg_loop_growth)

lemma sendmsg_growth: "hev_task_io_socket_sendmsg t nt fd iov = (nt', r) \<Longrightarrow> no_growth nt nt'"
  by (auto simp: hev_task_io_socket_sendmsg_def no_growth_def left_at_def split: prod.splits)

lemma udp_send_tcp_growth:
  assumes "hev_socks5_udp_sendmmsg_tcp get_fd nt self msgs = Some (nt', self', r)"
  shows "no_growth nt nt' \<and> same_ids self self'"
proof -
  obtain v where v: "udp_iovs udp_tcp_iov msgs = Some v" using assms by (auto simp: hev_socks5_udp_sendmmsg_tcp_def bind_eq_Some_conv)
  show ?thesis
  proof (cases v)
    case None
    then show ?thesis using assms v by (auto simp: hev_socks5_udp_sendmmsg_tcp_def)
  next
    case (Some iov)
    obtain nt1 r1 where 1: "hev_task_io_socket_sendmsg (s_timeout self) nt (get_fd self) (concat iov) = (nt1, r1)" by (rule prod.exhaust)
    then show ?thesis using assms v Some sendmsg_growth [OF 1] by (auto simp: hev_socks5_udp_sendmmsg_tcp_def split: if_splits)
  qed
qed

lemma udp_send_udp_growth:
  assumes "hev_socks5_udp_sendmmsg_udp get_fd nt self msgs = Some (nt', self', r)"
  shows "no_growth nt nt' \<and> same_ids self self'"
proof -
  obtain v where v: "udp_iovs udp_udp_iov msgs = Some v" using assms by (auto simp: hev_socks5_udp_sendmmsg_udp_def bind_eq_Some_conv)
  then show ?thesis using assms by (cases v) (auto simp: hev_socks5_udp_sendmmsg_udp_def dest: sendmmsg_growth)
qed

lemma udp_send_growth:
  "hev_socks5_udp_sendmmsg get_fd nt self msgs = Some (nt', self', r) \<Longrightarrow> no_growth nt nt' \<and> same_ids self self'"
  by (cases "s_type self") (auto simp: hev_socks5_udp_sendmmsg_def dest: udp_send_tcp_growth udp_send_udp_growth)

lemma recv_loop_ret: "recv_loop w dw t n got ag es = (es', bs, r, ag') \<Longrightarrow> r \<le> int (length bs)"
  by (induction w dw t n got ag es rule: recv_loop.induct) (auto simp: Let_def partial_def split: if_splits)

lemma recv_ret: "task_recv w dw t nt fd n = (nt', bs, r) \<Longrightarrow> 0 < r \<Longrightarrow> progress fd nt nt'"
  using recv_growth [of w dw t nt fd n nt' bs r] recv_loop_ret [of w dw t n "[]" "n_again nt" "n_rx nt fd"]
  by (force simp: task_recv_def split: prod.splits)

lemma recv_frame_growth:
  assumes "recv_frame nb t nt fd msg = (nt', x)"
  shows "no_growth nt nt' \<and> ((\<exists>m. x = Inl m) \<or> (\<exists>b r. x = Inr (b, r) \<and> 0 < r) \<longrightarrow> progress fd nt nt')"
proof -
  obtain nt1 b1 r1 where 1: "task_recv False nb t nt fd 5 = (nt1, b1, r1)" by (rule prod_cases3)
  show ?thesis
  proof (cases "0 < r1")
    case False
    then show ?thesis using assms recv_growth [OF 1] unfolding recv_frame_def 1 by auto
  next
    case True
    have p: "progress fd nt nt1" using recv_ret [OF 1 True] .
    obtain nt2 b2 r2 where 2: "(if 0 < r1 \<and> r1 < 5 then (case task_recv True False t nt1 fd (nat (5 - r1)) of (nt, b2, r2) \<Rightarrow> (nt, b1 @ b2, r1 + r2)) else (nt1, b1, r1)) = (nt2, b2, r2)"
      by (rule prod_cases3)
    have g2: "no_growth nt1 nt2"
    proof (cases "r1 < 5")
      case less: True
      obtain nt3 b3 r3 where 3: "task_recv True False t nt1 fd (nat (5 - r1)) = (nt3, b3, r3)" by (rule prod_cases3)
      then show ?thesis using 2 less True recv_growth [OF 3] by auto
    qed (use 2 in auto)
    let ?n = "unat (b2 ! 2) - 3 - 2 + unat (ntohs (of_le16 (b2 ! 0) (b2 ! 1)))"
    obtain nt4 b4 r4 where 4: "task_recv True False t nt2 fd ?n = (nt4, b4, r4)" by (rule prod_cases3)
    have g4: "no_growth nt1 nt4" using no_growth_trans [OF g2] recv_growth [OF 4] by blast
    have "nt' = nt2 \<or> nt' = nt4" using assms unfolding recv_frame_def 1 prod.case 2 Let_def 4 by (auto split: if_splits)
    then have "progress fd nt nt'" using progress_then [OF p] g2 g4 by blast
    then show ?thesis by (simp add: progress_def)
  qed
qed

lemma recvmmsg_tcp_growth:
  assumes "recvmmsg_tcp_loop nb t fd got ms nt = (nt', msgv, r)"
  shows "no_growth nt nt' \<and> (got = [] \<and> 0 < r \<longrightarrow> progress fd nt nt')"
  using assms
proof (induction ms arbitrary: got nt)
  case (Cons msg ms)
  obtain nt1 x where 1: "recv_frame nb t nt fd msg = (nt1, x)" by (rule prod.exhaust)
  note k = recv_frame_growth [OF 1]
  show ?case
  proof (cases x)
    case (Inl m)
    then have "recvmmsg_tcp_loop nb t fd (got @ [m]) ms nt1 = (nt', msgv, r)" using Cons.prems 1 by simp
    from Cons.IH [OF this] have "no_growth nt1 nt'" by blast
    then show ?thesis using k Inl progress_then no_growth_trans by blast
  next
    case (Inr y)
    obtain b r' where "y = (b, r')" by (rule prod.exhaust)
    then show ?thesis using Inr k Cons.prems 1 by auto
  qed
qed auto

lemma recvmmsg_udp_growth:
  assumes r: "hev_socks5_udp_recvmmsg_udp get_fd nb nt self msgv = Some (nt', self', msgv', r)"
  shows "no_growth nt nt' \<and> same_ids self self' \<and> (0 < r \<longrightarrow> progress (get_fd self) nt nt')"
proof -
  let ?fd = "get_fd self"
  obtain nt1 self1 got r1 where 1: "hev_task_io_socket_recvmmsg nb (map m_len msgv) nt self ?fd = (nt1, self1, got, r1)" by (rule prod_cases4)
  note k = recvmmsg_growth [OF 1]
  obtain nt2 r2 where 2: "(if \<not> s_udp_associated self1 then syscall nt1 else (nt1, 0)) = (nt2, r2)" by (rule prod.exhaust)
  have g2: "no_growth nt1 nt2" using 2
    by (auto simp: no_growth_def left_at_def syscall_def split: if_splits list.splits)
  have p2: "progress ?fd nt nt2" if "0 < r1" using progress_then [OF _ g2] k that by blast
  have i: "same_ids self (self1\<lparr>s_udp_associated := True\<rparr>)" using k same_ids_trans same_ids_assoc by blast
  have "(nt' = nt1 \<and> self' = self1 \<and> r \<le> 0) \<or> (nt' = nt2 \<and> 0 < r1 \<and> (self' = self1 \<or> self' = self1\<lparr>s_udp_associated := True\<rparr>))"
    using r unfolding hev_socks5_udp_recvmmsg_udp_def Let_def 1 prod.case 2
    by (auto split: if_splits option.splits)
  then show ?thesis using k p2 i by (auto simp: progress_def)
qed

lemma udp_recv_growth:
  assumes "hev_socks5_udp_recvmmsg get_fd nb nt self msgv = Some (nt', self', msgv', r)"
  shows "no_growth nt nt' \<and> same_ids self self' \<and> (0 < r \<longrightarrow> progress (get_fd self) nt nt')"
proof (cases "s_type self")
  case TYPE_UDP_IN_TCP
  then show ?thesis using assms recvmmsg_tcp_growth [of nb "s_timeout self" "get_fd self" "[]" msgv nt]
    by (auto simp: hev_socks5_udp_recvmmsg_def hev_socks5_udp_recvmmsg_tcp_def split: prod.splits)
next
  case TYPE_UDP_IN_UDP
  then show ?thesis using assms recvmmsg_udp_growth [of get_fd nb nt self msgv nt' self' msgv' r]
    by (simp add: hev_socks5_udp_recvmmsg_def)
qed (use assms in \<open>auto simp: hev_socks5_udp_recvmmsg_def\<close>)

section \<open>The end of the relay\<close>

text \<open>An endpoint of the relay: where its datagrams come from does not depend on the time-out or
  on the association, and its hook for new sockets leaves the traffic alone.\<close>

locale udp_endpoint =
  fixes get_fd :: "'a HevSocks5_scheme \<Rightarrow> int" and bnd :: "'a HevSocks5_scheme bindfn"
  assumes get_fd_timeout: "get_fd (self\<lparr>s_timeout := t\<rparr>) = get_fd self"
    and get_fd_assoc: "get_fd (self\<lparr>s_udp_associated := b\<rparr>) = get_fd self"
    and bnd_keeps: "bnd nt self fd sa = (nt', r) \<Longrightarrow> n_rx nt' = n_rx nt \<and> n_drx nt' = n_drx nt"
begin

lemma get_fd_ids: "same_ids self self' \<Longrightarrow> get_fd self' = get_fd self"
  by (auto simp: same_ids_def get_fd_timeout get_fd_assoc)

lemma bnd_growth: "bnd nt self fd sa = (nt', r) \<Longrightarrow> no_growth nt nt'"
  by (drule bnd_keeps) (simp add: no_growth_def left_at_def)

lemma fwd_f_growth:
  assumes f: "hev_socks5_udp_fwd_f rs sa0 get_fd bnd nt self fd mem b = Some (nt', self', b', r)"
  shows "no_growth nt nt' \<and> same_ids self self' \<and> (0 < r \<longrightarrow> progress (get_fd self) nt nt')"
proof -
  obtain nt1 self1 svec r1 where 1: "hev_socks5_udp_recvmmsg get_fd True nt self
      (map (\<lambda>b. \<lparr>m_addr = AddrUninit, m_buf = b, m_len = UDP_BUF_SIZE\<rparr>) mem) = Some (nt1, self1, svec, r1)"
    using f by (auto simp: hev_socks5_udp_fwd_f_def bind_eq_Some_conv)
  note k = udp_recv_growth [OF 1]
  show ?thesis
  proof (cases "0 < r1")
    case False
    then show ?thesis using f k by (auto simp: hev_socks5_udp_fwd_f_def 1 split: if_splits)
  next
    case True
    then have p: "progress (get_fd self) nt nt1" using k by blast
    obtain dv where 2: "fwd_dests rs sa0 (hev_socks5_get_addr_family self1) svec (nat r1) = Some dv"
      using f True by (auto simp: hev_socks5_udp_fwd_f_def 1 bind_eq_Some_conv)
    show ?thesis
    proof (cases dv)
      case None
      then show ?thesis using f True k p by (auto simp: hev_socks5_udp_fwd_f_def 1 2)
    next
      case (Some ms)
      obtain nt3 r3 where 3: "(if b then (nt1, 0) else bnd nt1 self1 fd (the (fst (hd ms)))) = (nt3, r3)" by (rule prod.exhaust)
      have g3: "no_growth nt1 nt3" using 3 bnd_growth by (cases b) auto
      obtain nt4 self4 r4 where 4: "hev_task_io_socket_sendmmsg ms nt3 self1 fd = (nt4, self4, r4)" by (rule prod_cases3)
      have g4: "no_growth nt1 nt4" "same_ids self self4"
        using no_growth_trans [OF g3] sendmmsg_growth [OF 4] k same_ids_trans by blast+
      have e: "(if r3 < 0 then Some (nt3, self1, b, - 1) else Some (nt4, self4, True, if r4 \<le> 0 then (if r4 = - 1 \<and> n_again nt4 then 0 else - 1) else 1)) = Some (nt', self', b', r)"
        using f True unfolding hev_socks5_udp_fwd_f_def Let_def 1 bind.bind_lunit prod.case by (cases "r3 < 0") (simp_all add: 2 Some 3 4)
      then have "progress (get_fd self) nt nt'" using progress_then [OF p] g3 g4(1) by (auto split: if_splits)
      then show ?thesis using e g4 k by (auto simp: progress_def split: if_splits)
    qed
  qed
qed

lemma fwd_b_growth:
  assumes f: "hev_socks5_udp_fwd_b get_fd num nt self fd = Some (nt', self', r)"
  shows "no_growth nt nt' \<and> same_ids self self' \<and> (0 < r \<longrightarrow> progress fd nt nt')"
proof -
  obtain nt1 self1 got r1 where 1: "hev_task_io_socket_recvmmsg True (replicate num UDP_BUF_SIZE) nt self fd = (nt1, self1, got, r1)"
    by (rule prod_cases4)
  note k = recvmmsg_growth [OF 1]
  let ?dv = "map (\<lambda>(sa, bs). \<lparr>m_addr = AddrAt (fst (hev_socks5_addr_from_sockaddr6 (replicate 19 0) sa)), m_buf = bs, m_len = length bs\<rparr>) got"
  show ?thesis
  proof (cases "0 < r1")
    case False
    then show ?thesis using f k by (auto simp: hev_socks5_udp_fwd_b_def 1 split: if_splits)
  next
    case True
    obtain nt2 self2 r2 where 2: "hev_socks5_udp_sendmmsg get_fd nt1 self1 ?dv = Some (nt2, self2, r2)"
      using f True by (auto simp: hev_socks5_udp_fwd_b_def 1 bind_eq_Some_conv)
    note k2 = udp_send_growth [OF 2]
    have "progress fd nt nt2" using k k2 True progress_then by blast
    moreover have "same_ids self self2" using k k2 same_ids_trans by blast
    moreover have "nt' = nt2" "self' = self2" using f True by (auto simp: hev_socks5_udp_fwd_b_def 1 2)
    ultimately show ?thesis by (simp add: progress_def)
  qed
qed

text \<open>What is left on the descriptors the relay reads.\<close>

definition left_over :: "int \<Rightarrow> 'a HevSocks5_scheme \<Rightarrow> net \<Rightarrow> nat" where
  "left_over fd_b self nt = (\<Sum>fd \<in> {s_fd self, get_fd self, fd_b}. left_at nt fd)"

lemma left_over_ids: "same_ids self self' \<Longrightarrow> left_over fd_b self' nt = left_over fd_b self nt"
  using get_fd_ids by (auto simp: left_over_def same_ids_def)

lemma left_over_growth: "no_growth nt nt' \<Longrightarrow> left_over fd_b self nt' \<le> left_over fd_b self nt"
  unfolding left_over_def no_growth_def by (intro sum_mono) blast

lemma left_over_progress:
  assumes "progress fd nt nt'" "fd = get_fd self \<or> fd = fd_b"
  shows "left_over fd_b self nt' < left_over fd_b self nt"
  unfolding left_over_def
proof (rule sum_strict_mono_ex1)
  show "\<forall>x \<in> {s_fd self, get_fd self, fd_b}. left_at nt' x \<le> left_at nt x" using assms(1) by (simp add: progress_def no_growth_def)
  show "\<exists>x \<in> {s_fd self, get_fd self, fd_b}. left_at nt' x < left_at nt x" using assms by (auto simp: progress_def)
qed simp

lemma splice_loop_ends:
  assumes "left_over fd_b self nt + length ws < fuel" "0 \<le> s_timeout self"
  shows "udp_splice_loop fuel rs sa0 get_fd bnd num stale fd_b ws res_f res_b b nt self \<noteq> Unfinished"
  using assms
proof (induction fuel arbitrary: ws res_f res_b b nt self)
  case (Suc n)
  let ?F = "if res_f \<ge> 0 then hev_socks5_udp_fwd_f rs sa0 get_fd bnd nt self fd_b (stale n) b else Some (nt, self, b, res_f)"
  show ?case
  proof (cases ?F)
    case None
    then show ?thesis by simp
  next
    case (Some x)
    obtain nt1 self1 b1 r1 where 1: "?F = Some (nt1, self1, b1, r1)" using Some by (cases x) auto
    have k1: "no_growth nt nt1" "same_ids self self1" "0 < r1 \<longrightarrow> progress (get_fd self) nt nt1"
      using 1 fwd_f_growth [of rs sa0 nt self fd_b "stale n" b nt1 self1 b1 r1] by (auto split: if_splits)
    let ?B = "if res_b \<ge> 0 then hev_socks5_udp_fwd_b get_fd num nt1 self1 fd_b else Some (nt1, self1, res_b)"
    show ?thesis
    proof (cases ?B)
      case None
      then show ?thesis using 1 by simp
    next
      case (Some y)
      obtain nt2 self2 r2 where 2: "?B = Some (nt2, self2, r2)" using Some by (cases y) auto
      have k2: "no_growth nt1 nt2" "same_ids self1 self2" "0 < r2 \<longrightarrow> progress fd_b nt1 nt2"
        using 2 fwd_b_growth [of num nt1 self1 fd_b nt2 self2 r2] by (auto split: if_splits)
      have ids: "same_ids self self2" using k1(2) k2(2) by (rule same_ids_trans)
      then have t2: "0 \<le> s_timeout self2" using Suc.prems(2) same_ids_nonneg by blast
      have step: "udp_splice_loop n rs sa0 get_fd bnd num stale fd_b ws' r1 r2 b1 nt3 self3 \<noteq> Unfinished"
        if "udp_task_io_yielder ty d nt2 self2 = (nt3, self3, 0)" "left_over fd_b self nt2 + length ws' < n" for ty d nt3 self3 ws'
      proof -
        have k3: "no_growth nt2 nt3" "same_ids self2 self3" using yielder_ids [OF that(1)] by auto
        have "left_over fd_b self3 nt3 = left_over fd_b self nt3" using left_over_ids [OF same_ids_trans [OF ids k3(2)]] .
        moreover have "left_over fd_b self nt3 \<le> left_over fd_b self nt2" using left_over_growth [OF k3(1)] .
        moreover have "0 \<le> s_timeout self3" using same_ids_nonneg [OF k3(2) t2] .
        ultimately show ?thesis using Suc.IH that(2) by simp
      qed
      have le: "left_over fd_b self nt2 \<le> left_over fd_b self nt"
        using left_over_growth no_growth_trans [OF k1(1) k2(1)] by blast
      show ?thesis
      proof (cases "0 < r1 \<or> 0 < r2")
        case True
        then have "left_over fd_b self nt2 < left_over fd_b self nt"
          using k1 k2 left_over_progress progress_then then_progress by blast
        then have lt: "left_over fd_b self nt2 + length ws < n" using Suc.prems(1) by simp
        obtain nt3 self3 r3 where 3: "udp_task_io_yielder HEV_TASK_YIELD 0 nt2 self2 = (nt3, self3, r3)" by (rule prod_cases3)
        show ?thesis using 1 2 3 True step [of HEV_TASK_YIELD 0 nt3 self3 ws] lt by (cases "r3 = 0") simp_all
      next
        case False
        let ?w = "case ws of [] \<Rightarrow> nat (s_timeout self2) | w # _ \<Rightarrow> w"
        obtain nt3 self3 r3 where 3: "udp_task_io_yielder HEV_TASK_WAITIO ?w nt2 self2 = (nt3, self3, r3)" by (rule prod_cases3)
        have "r3 \<noteq> 0" if "ws = []" using 3 that t2
          by (auto simp: udp_task_io_yielder_def yielder_zero_iff split: if_splits prod.splits)
        then have "left_over fd_b self nt2 + length (drop 1 ws) < n" if "r3 = 0"
          using Suc.prems(1) le that by (cases ws) auto
        then show ?thesis using 1 2 3 False step [of HEV_TASK_WAITIO ?w nt3 self3 "drop 1 ws"] by (cases "r3 = 0") simp_all
      qed
    qed
  qed
qed simp

end

text \<open>The UDP client and the server are endpoints.\<close>

interpretation uclient: udp_endpoint hev_socks5_client_udp_get_fd hev_socks5_bind
  by unfold_locales (auto simp: hev_socks5_client_udp_get_fd_def hev_socks5_bind_def split: HevSocks5Type.splits)

interpretation userver: udp_endpoint hev_socks5_server_get_fd hev_socks5_bind
  by unfold_locales (auto simp: hev_socks5_server_get_fd_def hev_socks5_bind_def split: HevSocks5Type.splits)


text \<open>A control connection that ends inside the header of a frame makes the server use an
  address it never set: \<open>hev_socks5_udp_recvmmsg\<close> then returns the number of bytes it got, which
  \<open>hev_socks5_udp_fwd_f\<close> takes for a number of messages.\<close>

theorem udp_truncated_header_undefined:
  assumes "s_type self = TYPE_UDP_IN_TCP" "n_rx nt (get_fd self) = [Chunk bs]" "0 < length bs" "length bs < 5" "mem \<noteq> []"
  shows "hev_socks5_udp_fwd_f rs sa0 get_fd bnd nt self fd mem b = None"
proof -
  let ?svec = "map (\<lambda>b. \<lparr>m_addr = AddrUninit, m_buf = b, m_len = UDP_BUF_SIZE\<rparr>) mem" and ?fd = "get_fd self"
  obtain b0 mem' where mem: "mem = b0 # mem'" using assms(5) by (cases mem) auto
  have r: "recv_frame True (s_timeout self) nt ?fd msg = (nt\<lparr>n_rx := (n_rx nt)(?fd := [])\<rparr>, Inr (True, int (length bs)))" for msg
    using assms(2-4) by (auto simp: recv_frame_def task_recv_def partial_def Let_def)
  have "hev_socks5_udp_recvmmsg get_fd True nt self ?svec = Some (nt\<lparr>n_rx := (n_rx nt)(?fd := [])\<rparr>, self, ?svec, int (length bs))"
    using assms(1) mem r by (simp add: hev_socks5_udp_recvmmsg_def hev_socks5_udp_recvmmsg_tcp_def)
  moreover obtain k where "length bs = Suc k" using assms(3) by (cases "length bs") auto
  then have "fwd_dests rs sa0 family ?svec (length bs) = None" for family
    using mem by (simp add: UDP_BUF_SIZE_def)
  ultimately show ?thesis using assms(3) by (simp add: hev_socks5_udp_fwd_f_def)
qed

section \<open>What the relay delivers\<close>

lemma into_sockaddr6_wire:
  "dest_ok d \<Longrightarrow> hev_socks5_addr_into_sockaddr6 rs (wire d @ x) sa f = hev_socks5_addr_into_sockaddr6 rs (wire d) sa f"
  using into_sockaddr6_ipv4 [of _ _ rs x sa f] into_sockaddr6_ipv4 [of _ _ rs "[]" sa f]
    into_sockaddr6_ipv6 [of _ _ rs x sa f] into_sockaddr6_ipv6 [of _ _ rs "[]" sa f]
    into_sockaddr6_name [of _ _ rs x sa f] into_sockaddr6_name [of _ _ rs "[]" sa f]
  by (cases d) (simp_all del: wire.simps)

definition resolve :: "resolver \<Rightarrow> sockaddr_in6 \<Rightarrow> HevSocks5AddrFamily \<Rightarrow> dest \<Rightarrow> sockaddr_in6 option" where
  "resolve rs sa0 family d = (case hev_socks5_addr_into_sockaddr6 rs (wire d) sa0 family of (sa, _, ret) \<Rightarrow> if ret < 0 then None else Some sa)"

lemma fwd_dests_ok:
  assumes "list_all2 carries ms fs" "\<forall>(d, data) \<in> set fs. dest_ok d \<and> data \<noteq> [] \<and> resolve rs sa0 family d \<noteq> None"
  shows "fwd_dests rs sa0 family (ms @ rest) (length fs) = Some (Some (map (\<lambda>(d, data). (resolve rs sa0 family d, data)) fs))"
  using assms
proof (induction rule: list_all2_induct)
  case (Cons msg ms f fs)
  obtain d data where f: "f = (d, data)" by (rule prod.exhaust)
  obtain x y where m: "m_addr msg = AddrAt (wire d @ x)" "m_buf msg = data @ y" "m_len msg = length data"
    using Cons(1) f by (auto simp: carries_def)
  obtain sa fm ret where to: "hev_socks5_addr_into_sockaddr6 rs (wire d) sa0 family = (sa, fm, ret)" by (rule prod_cases3)
  have d: "dest_ok d" "data \<noteq> []" "\<not> ret < 0" "resolve rs sa0 family d = Some sa" using Cons(4) f to by (auto simp: resolve_def split: if_splits)
  show ?case using Cons f m d to into_sockaddr6_wire [OF d(1), of rs x sa0 family] by simp
qed simp


text \<open>The destination a socket address is reported as.\<close>

definition peer_dest :: "sockaddr_in6 \<Rightarrow> dest" where
  "peer_dest sa = (if IN6_IS_ADDR_V4MAPPED (sin6_addr sa) then Ipv4 (drop 12 (sin6_addr sa)) (ntohs (sin6_port sa))
     else Ipv6 (sin6_addr sa) (ntohs (sin6_port sa)))"

lemma peer_dest_ok: "length (sin6_addr sa) = 16 \<Longrightarrow> dest_ok (peer_dest sa)"
  by (simp add: peer_dest_def)

lemma from_sockaddr6_peer:
  "length (sin6_addr sa) = 16 \<Longrightarrow> \<exists>x. fst (hev_socks5_addr_from_sockaddr6 (replicate 19 0) sa) = wire (peer_dest sa) @ x"
  using from_sockaddr6_eq [of sa "replicate 19 0"] by (auto simp: peer_dest_def split: if_splits)

text \<open>C39. From the peers to the client: every datagram that is there becomes a frame with the address
  it came from and its data, in order and without loss.\<close>

theorem udp_relay_backward:
  assumes "s_type self = TYPE_UDP_IN_TCP" "tx_open (s_timeout self) (n_tx nt (get_fd self))"
    and "n_drx nt fd = Dgrams ds # es" "ds \<noteq> []" "length ds \<le> num"
    and "\<forall>(sa, bs) \<in> set ds. length (sin6_addr sa) = 16 \<and> length bs \<le> UDP_BUF_SIZE"
  shows "\<exists>nt'. hev_socks5_udp_fwd_b get_fd num nt self fd = Some (nt', self, 1) \<and> n_drx nt' fd = es \<and>
    n_out nt' (get_fd self) = n_out nt (get_fd self) @ concat (map (\<lambda>(sa, bs). udp_frame (peer_dest sa, bs)) ds)"
proof -
  let ?nt1 = "nt\<lparr>n_drx := (n_drx nt)(fd := es)\<rparr>"
  let ?dv = "map (\<lambda>(sa, bs). \<lparr>m_addr = AddrAt (fst (hev_socks5_addr_from_sockaddr6 (replicate 19 0) sa)), m_buf = bs, m_len = length bs\<rparr>) ds"
  have tk: "take_dgrams (replicate num UDP_BUF_SIZE) ds = ds"
    using assms(5,6) unfolding take_dgrams_def
    by (induction ds arbitrary: num) (auto simp: zip_replicate1 take_Cons' split: nat.splits)
  have 1: "hev_task_io_socket_recvmmsg True (replicate num UDP_BUF_SIZE) nt self fd = (?nt1, self, ds, int (length ds))"
    using assms(3-5) tk by (cases num) (auto simp: hev_task_io_socket_recvmmsg_def Let_def)
  have c: "list_all2 carries ?dv (map (\<lambda>(sa, bs). (peer_dest sa, bs)) ds)"
    using assms(6) from_sockaddr6_peer by (auto simp: list_all2_map1 list_all2_map2 list_all2_same carries_def)
  have d: "\<forall>f \<in> set (map (\<lambda>(sa, bs). (peer_dest sa, bs)) ds). dest_ok (fst f)"
    using assms(6) peer_dest_ok by auto
  have "map (\<lambda>(sa, bs). (peer_dest sa, bs)) ds \<noteq> []" using assms(4) by simp
  from sendmmsg_tcp_frames [where self = self and nt = ?nt1 and get_fd = get_fd, OF c d this] assms(2)
  obtain nt' where 2: "hev_socks5_udp_sendmmsg_tcp get_fd ?nt1 self ?dv = Some (nt', self, int (length ds))"
    "n_out nt' (get_fd self) = n_out nt (get_fd self) @ concat (map (\<lambda>(sa, bs). udp_frame (peer_dest sa, bs)) ds)"
    by (auto simp: comp_def split_def)
  have "n_drx nt' = n_drx ?nt1" using 2(1)
    by (auto simp: hev_socks5_udp_sendmmsg_tcp_def hev_task_io_socket_sendmsg_def bind_eq_Some_conv split: option.splits prod.splits if_splits)
  then show ?thesis using 1 2 assms(1,4) by (auto simp: hev_socks5_udp_fwd_b_def hev_socks5_udp_sendmmsg_def)
qed

section \<open>Witnesses\<close>

definition example_relay :: HevSocks5Server where
  "example_relay = zero_server\<lparr>s_type := TYPE_UDP_IN_TCP, s_timeout := 60000\<rparr>"

definition example_dest :: dest where
  "example_dest = Ipv4 [10, 0, 0, 1] 53"

definition example_buffer :: HevSocks5UDPMsg where
  "example_buffer = \<lparr>m_addr = AddrUninit, m_buf = replicate 1500 0, m_len = 1500\<rparr>"

definition example_message :: HevSocks5UDPMsg where
  "example_message = \<lparr>m_addr = AddrAt (wire example_dest), m_buf = [7, 8], m_len = 2\<rparr>"

lemma example_frames: "frame_ok (example_dest, [7, 8])" "dgram_ok (example_dest, [7, 8])" "udp_buffer example_buffer"
  "carries example_message (example_dest, [7, 8])"
  by (simp_all add: frame_ok_def dgram_ok_def udp_buffer_def carries_def example_dest_def example_buffer_def example_message_def UDP_BUF_SIZE_def)

lemma example_relay_fields: "s_type example_relay = TYPE_UDP_IN_TCP" "s_timeout example_relay = 60000"
  "hev_socks5_server_get_fd example_relay = 0" "s_addr_family example_relay = FAMILY_UNSPEC"
  by (simp_all add: example_relay_def zero_server_def hev_socks5_server_get_fd_def)



lemma udp_truncated_header_undefined_witness:
  "hev_socks5_udp_fwd_f no_resolver example_addr hev_socks5_server_get_fd hev_socks5_bind (quiet_net (\<lambda>_. [Chunk [0, 2]])) example_relay 3 [replicate 1500 0] False = None"
  using udp_truncated_header_undefined [of example_relay "quiet_net (\<lambda>_. [Chunk [0, 2]])" hev_socks5_server_get_fd "[0, 2]" "[replicate 1500 0]"]
    example_relay_fields by (simp add: quiet_net_def)

lemma example_resolve: "resolve no_resolver example_addr FAMILY_UNSPEC example_dest \<noteq> None"
  using into_sockaddr6_ipv4 [of "[10, 0, 0, 1]" 53 no_resolver "[]"]
  by (simp add: resolve_def example_dest_def)


lemma udp_relay_backward_witness:
  "\<exists>nt'. hev_socks5_udp_fwd_b hev_socks5_server_get_fd 10 ((quiet_net (\<lambda>_. []))\<lparr>n_drx := (\<lambda>_. [Dgrams [(example_addr, [1, 2])]])\<rparr>) example_relay 3 =
     Some (nt', example_relay, 1) \<and> n_out nt' 0 = udp_frame (peer_dest example_addr, [1, 2])"
  using udp_relay_backward [where self = example_relay and get_fd = hev_socks5_server_get_fd and ds = "[(example_addr, [1, 2])]" and es = "[]" and num = 10
      and nt = "(quiet_net (\<lambda>_. []))\<lparr>n_drx := (\<lambda>_. [Dgrams [(example_addr, [1, 2])]])\<rparr>" and fd = 3]
    example_relay_fields
  by (auto simp: quiet_net_def tx_open_def example_addr_def UDP_BUF_SIZE_def)

lemma udp_in_udp_roundtrip_witness:
  "\<exists>nt1 nt3 ms. hev_socks5_udp_sendmmsg hev_socks5_server_get_fd (quiet_net (\<lambda>_. [])) (example_relay\<lparr>s_type := TYPE_UDP_IN_UDP\<rparr>) [example_message] =
       Some (nt1, example_relay\<lparr>s_type := TYPE_UDP_IN_UDP\<rparr>, 1) \<and>
     hev_socks5_udp_recvmmsg hev_socks5_server_get_fd False
       ((quiet_net (\<lambda>_. []))\<lparr>n_drx := (\<lambda>_. [Dgrams (map (\<lambda>(_, b). (example_addr, b)) (n_dout nt1 0))])\<rparr>)
       (example_relay\<lparr>s_type := TYPE_UDP_IN_UDP, s_udp_associated := True\<rparr>) [example_buffer] =
       Some (nt3, example_relay\<lparr>s_type := TYPE_UDP_IN_UDP, s_udp_associated := True\<rparr>, ms, 1) \<and> list_all2 carries ms [(example_dest, [7, 8])]"
proof -
  let ?s = "example_relay\<lparr>s_type := TYPE_UDP_IN_UDP\<rparr>" and ?r = "example_relay\<lparr>s_type := TYPE_UDP_IN_UDP, s_udp_associated := True\<rparr>"
  have g: "hev_socks5_server_get_fd ?s = 0" "hev_socks5_server_get_fd ?r = 0"
    by (simp_all add: hev_socks5_server_get_fd_def example_relay_def zero_server_def)
  obtain nt1 where 1: "hev_socks5_udp_sendmmsg hev_socks5_server_get_fd (quiet_net (\<lambda>_. [])) ?s [example_message] = Some (nt1, ?s, 1)"
    and 2: "\<And>nt2 es sa. n_drx nt2 0 = Dgrams (map (\<lambda>(_, b). (sa, b)) (n_dout nt1 0)) # es \<Longrightarrow>
      \<exists>nt3 ms. hev_socks5_udp_recvmmsg hev_socks5_server_get_fd False nt2 ?r [example_buffer] = Some (nt3, ?r, ms, 1) \<and> list_all2 carries ms [(example_dest, [7, 8])]"
    using udp_in_udp_roundtrip [where sndr = ?s and rcvr = ?r and msgs = "[example_message]" and fs = "[(example_dest, [7, 8])]"
        and bufs = "[example_buffer]" and gfd = hev_socks5_server_get_fd and ?gfd2.0 = hev_socks5_server_get_fd and nb = False and nt = "quiet_net (\<lambda>_. [])"]
      example_frames g by (fastforce simp: quiet_net_def)
  show ?thesis
    using 1 2 [of "(quiet_net (\<lambda>_. []))\<lparr>n_drx := (\<lambda>_. [Dgrams (map (\<lambda>(_, b). (example_addr, b)) (n_dout nt1 0))])\<rparr>" example_addr "[]"] by auto
qed

end
