(* ===== verification/SessionSet.thy ===== *)
theory SessionSet
  imports UDPRelay
begin

text \<open>
  The set of sessions of the tunnel (\<open>hev_socks5_tunnel_insert_session\<close>, \<open>..._update_session\<close> and
  \<open>..._delete_session\<close> of \<open>hev-socks5-tunnel.c\<close>), on the intrusive list of theory \<open>HevList\<close>,
  refined to the list of sessions in the order of their last activity.
\<close>

section \<open>The set of sessions\<close>

record HevSessionSet =
  session_set :: HevList
  session_count :: int

text \<open>The address returned is that of the session to terminate.\<close>

definition hev_socks5_tunnel_insert_session :: "int \<Rightarrow> HevSessionSet \<Rightarrow> addr \<Rightarrow> (HevSessionSet \<times> addr option) option" where
  "hev_socks5_tunnel_insert_session max_session_count ss node = do {
     l \<leftarrow> hev_list_add_tail (session_set ss) node;
     let ss = \<lparr>session_set = l, session_count = session_count ss + 1\<rparr>;
     if max_session_count = 0 \<or> session_count ss < max_session_count then Some (ss, None)
     else Some (ss, Some (hev_list_first (session_set ss))) }"

definition hev_socks5_tunnel_delete_session :: "HevSessionSet \<Rightarrow> addr \<Rightarrow> HevSessionSet option" where
  "hev_socks5_tunnel_delete_session ss node = do {
     l \<leftarrow> hev_list_del (session_set ss) node;
     Some \<lparr>session_set = l, session_count = session_count ss - 1\<rparr> }"

definition hev_socks5_tunnel_update_session :: "int \<Rightarrow> HevSessionSet \<Rightarrow> addr \<Rightarrow> HevSessionSet option" where
  "hev_socks5_tunnel_update_session max_session_count ss node =
     (if max_session_count = 0 then Some ss
      else do {
        l \<leftarrow> hev_list_del (session_set ss) node;
        l \<leftarrow> hev_list_add_tail l node;
        Some (ss\<lparr>session_set := l\<rparr>) })"

section \<open>The order of the sessions\<close>

definition sessions_rep :: "HevSessionSet \<Rightarrow> addr list \<Rightarrow> bool" where
  "sessions_rep ss xs \<longleftrightarrow> list_rep (session_set ss) xs \<and> session_count ss = int (length xs)"

definition nodes_of :: "HevSessionSet \<Rightarrow> addr set" where
  "nodes_of ss = dom (lnodes (session_set ss))"

text \<open>What a session does to the set, and what it means for the list of sessions, the least
  recently active one first.\<close>

datatype session_event = Insert addr | Update addr | Delete addr

fun set_step :: "int \<Rightarrow> HevSessionSet \<Rightarrow> session_event \<Rightarrow> (HevSessionSet \<times> addr option) option" where
  "set_step m ss (Insert a) = hev_socks5_tunnel_insert_session m ss a"
| "set_step m ss (Update a) = map_option (\<lambda>ss. (ss, None)) (hev_socks5_tunnel_update_session m ss a)"
| "set_step m ss (Delete a) = map_option (\<lambda>ss. (ss, None)) (hev_socks5_tunnel_delete_session ss a)"

fun spec_step :: "int \<Rightarrow> addr list \<Rightarrow> session_event \<Rightarrow> addr list \<times> addr option" where
  "spec_step m xs (Insert a) = (xs @ [a], if m = 0 \<or> int (length xs) + 1 < m then None else Some (hd (xs @ [a])))"
| "spec_step m xs (Update a) = (if m = 0 then xs else remove1 a xs @ [a], None)"
| "spec_step m xs (Delete a) = (remove1 a xs, None)"

text \<open>A session is inserted once, in memory of its own, and only acts while it is in the set.\<close>

fun event_ok :: "addr set \<Rightarrow> addr list \<Rightarrow> session_event \<Rightarrow> bool" where
  "event_ok A xs (Insert a) \<longleftrightarrow> a \<in> A \<and> a \<noteq> 0 \<and> a \<notin> set xs"
| "event_ok A xs (Update a) \<longleftrightarrow> a \<in> set xs"
| "event_ok A xs (Delete a) \<longleftrightarrow> a \<in> set xs"

fun set_run :: "int \<Rightarrow> HevSessionSet \<Rightarrow> session_event list \<Rightarrow> (HevSessionSet \<times> addr option list) option" where
  "set_run m ss [] = Some (ss, [])"
| "set_run m ss (e # es) = do { (ss, t) \<leftarrow> set_step m ss e; (ss, ts) \<leftarrow> set_run m ss es; Some (ss, t # ts) }"

fun spec_run :: "int \<Rightarrow> addr list \<Rightarrow> session_event list \<Rightarrow> addr list \<times> addr option list" where
  "spec_run m xs [] = (xs, [])"
| "spec_run m xs (e # es) = (case spec_step m xs e of (xs, t) \<Rightarrow> case spec_run m xs es of (xs, ts) \<Rightarrow> (xs, t # ts))"

fun events_ok :: "addr set \<Rightarrow> int \<Rightarrow> addr list \<Rightarrow> session_event list \<Rightarrow> bool" where
  "events_ok A m xs [] = True"
| "events_ok A m xs (e # es) \<longleftrightarrow> event_ok A xs e \<and> events_ok A m (fst (spec_step m xs e)) es"

lemma length_remove1_in: "a \<in> set xs \<Longrightarrow> Suc (length (remove1 a xs)) = length xs"
  by (induction xs) auto

lemma list_rep_hd: "list_rep l xs \<Longrightarrow> xs \<noteq> [] \<Longrightarrow> hev_list_first l = List.hd xs"
  by (cases xs) (auto simp: list_rep_first)

lemma set_step_refines:
  assumes r: "sessions_rep ss xs" and ok: "event_ok (nodes_of ss) xs e"
  shows "\<exists>ss'. set_step m ss e = Some (ss', snd (spec_step m xs e)) \<and> sessions_rep ss' (fst (spec_step m xs e)) \<and> nodes_of ss' = nodes_of ss"
proof (cases e)
  case (Insert a)
  then have "a \<in> dom (lnodes (session_set ss)) - {0} - set xs" using ok by (auto simp: nodes_of_def)
  then obtain l where l: "hev_list_add_tail (session_set ss) a = Some l" "list_rep l (xs @ [a])" "dom (lnodes l) = dom (lnodes (session_set ss))"
    using hq.add_law [of "session_set ss" xs a] r by (auto simp: sessions_rep_def)
  then show ?thesis using Insert r list_rep_hd [OF l(2)]
    by (auto simp: hev_socks5_tunnel_insert_session_def sessions_rep_def nodes_of_def Let_def)
next
  case (Update a)
  then have a: "a \<in> set xs" using ok by simp
  obtain l1 where l1: "hev_list_del (session_set ss) a = Some l1" "list_rep l1 (remove1 a xs)" "dom (lnodes l1) = dom (lnodes (session_set ss))"
    using hq.del_law [of "session_set ss" xs a] r a by (auto simp: sessions_rep_def)
  have "a \<in> dom (lnodes l1) - {0} - set (remove1 a xs)"
    using hq.rep_law [of "session_set ss" xs] r a l1(3) by (auto simp: sessions_rep_def)
  then obtain l2 where l2: "hev_list_add_tail l1 a = Some l2" "list_rep l2 (remove1 a xs @ [a])" "dom (lnodes l2) = dom (lnodes l1)"
    using hq.add_law [OF l1(2)] by blast
  have "int (length (remove1 a xs @ [a])) = int (length xs)" using length_remove1_in [OF a] by simp
  then show ?thesis using Update r l1 l2
    by (cases "m = 0") (auto simp: hev_socks5_tunnel_update_session_def sessions_rep_def nodes_of_def)
next
  case (Delete a)
  then have a: "a \<in> set xs" using ok by simp
  obtain l1 where l1: "hev_list_del (session_set ss) a = Some l1" "list_rep l1 (remove1 a xs)" "dom (lnodes l1) = dom (lnodes (session_set ss))"
    using hq.del_law [of "session_set ss" xs a] r a by (auto simp: sessions_rep_def)
  have "int (length (remove1 a xs)) = int (length xs) - 1" using length_remove1_in [OF a] by simp
  then show ?thesis using Delete r l1 by (auto simp: hev_socks5_tunnel_delete_session_def sessions_rep_def nodes_of_def)
qed

text \<open>C19. The sessions of the tunnel are kept in the order of their last activity: any run of
  insertions, activity and deletions follows no bad pointer, counts the sessions, and whenever a
  new session reaches the limit, the one that is terminated is the least recently active.\<close>

theorem session_set_refines:
  assumes "sessions_rep ss xs" "events_ok (nodes_of ss) m xs es"
  shows "\<exists>ss'. set_run m ss es = Some (ss', snd (spec_run m xs es)) \<and> sessions_rep ss' (fst (spec_run m xs es))"
  using assms
proof (induction es arbitrary: ss xs)
  case (Cons e es)
  obtain ss1 where 1: "set_step m ss e = Some (ss1, snd (spec_step m xs e))" "sessions_rep ss1 (fst (spec_step m xs e))" "nodes_of ss1 = nodes_of ss"
    using set_step_refines [of ss xs e m] Cons.prems by auto
  obtain ss2 where 2: "set_run m ss1 es = Some (ss2, snd (spec_run m (fst (spec_step m xs e)) es))"
    "sessions_rep ss2 (fst (spec_run m (fst (spec_step m xs e)) es))"
    using Cons.IH [OF 1(2)] Cons.prems(2) 1(3) by auto
  then show ?case using 1(1) by (auto simp: split_beta)
qed simp

definition example_sessions :: HevSessionSet where
  "example_sessions = \<lparr>session_set = \<lparr>head = 0, tail = 0, lnodes = [8 \<mapsto> \<lparr>l_next = 0, l_prev = 0\<rparr>, 16 \<mapsto> \<lparr>l_next = 0, l_prev = 0\<rparr>, 24 \<mapsto> \<lparr>l_next = 0, l_prev = 0\<rparr>]\<rparr>,
     session_count = 0\<rparr>"

text \<open>With a limit of three, the third session ends the second one: the first was active later.\<close>

lemma session_set_refines_witness:
  "\<exists>ss. set_run 3 example_sessions [Insert 8, Insert 16, Update 8, Insert 24, Delete 16] = Some (ss, [None, None, None, Some 16, None]) \<and>
     sessions_rep ss [8, 24]"
  using session_set_refines [of example_sessions "[]" 3 "[Insert 8, Insert 16, Update 8, Insert 24, Delete 16]"]
  by (simp add: example_sessions_def sessions_rep_def nodes_of_def)

end
