(* ===== verification/SessionUDP.thy ===== *)
theory SessionUDP
  imports SessionSet
begin

text \<open>
  The UDP session (\<open>hev-socks5-session-udp.c\<close>): the queue of datagrams of the application, the
  table of the names its peers were addressed by, and forwarding in both directions. The
  intrusive list of frames is the queue it implements (theory \<open>HevList\<close>). Of lwIP the session
  uses the packet buffers it is handed, the local address of its control block, and
  \<open>udp_sendfrom\<close>, whose results are a script; an exhausted script succeeds. Frames and packet
  buffers count as live allocations.
\<close>

section \<open>State\<close>

definition UDP_POOL_SIZE :: nat where "UDP_POOL_SIZE = 512"
definition NAME_SLOTS :: nat where "NAME_SLOTS = 16"
definition NAME_MAX :: nat where "NAME_MAX = 255"

text \<open>An IPv4 address is kept as its bytes. A packet buffer is the list of its segments.\<close>

record HevSocks5UDPNameMap =
  nm_name :: bytes
  nm_len :: u8
  nm_addr :: bytes
  nm_port :: u16

record HevSocks5UDPFrame =
  fr_addr :: bytes
  fr_data :: "bytes list"

record HevSocks5SessionUDP = HevSocks5ClientUDP +
  p_node :: addr
  p_frame_list :: "HevSocks5UDPFrame list"
  p_pcb :: bool
  p_frames :: int
  p_addr :: bytes
  p_port :: u16
  p_names :: "HevSocks5UDPNameMap list"
  p_names_next :: nat

record stack =
  l_set :: HevSessionSet
  l_sent :: "(ip_addr \<times> u16 \<times> bytes) list"
  l_errs :: "bool list"

definition zero_ip :: bytes where "zero_ip = [0, 0, 0, 0]"

definition zero_session_udp :: HevSocks5SessionUDP where
  "zero_session_udp = \<lparr>s_fd = 0, s_timeout = 0, s_udp_associated = False, s_type = TYPE_NONE, s_addr_family = FAMILY_UNSPEC,
     c_user = None, c_pass = None, u_fd = 0, p_node = 0, p_frame_list = [], p_pcb = False, p_frames = 0, p_addr = zero_ip, p_port = 0,
     p_names = replicate NAME_SLOTS \<lparr>nm_name = replicate (NAME_MAX + 1) 0, nm_len = 0, nm_addr = zero_ip, nm_port = 0\<rparr>, p_names_next = 0\<rparr>"

section \<open>The table of names\<close>

definition slot_matches :: "bytes \<Rightarrow> HevSocks5UDPNameMap \<Rightarrow> bool" where
  "slot_matches addr slot \<longleftrightarrow> nm_len slot = addr ! 1 \<and> take (unat (addr ! 1)) (nm_name slot) = take (unat (addr ! 1)) (drop 2 addr)"

text \<open>The loop over the slots: the index of the first one that matches.\<close>

fun find_slot :: "bytes \<Rightarrow> HevSocks5UDPNameMap list \<Rightarrow> nat option" where
  "find_slot addr [] = None"
| "find_slot addr (s # ss) = (if slot_matches addr s then Some 0 else map_option Suc (find_slot addr ss))"

definition name_map_learn ::
  "HevSocks5UDPNameMap list \<times> nat \<Rightarrow> bytes \<Rightarrow> bytes \<Rightarrow> u16 \<Rightarrow> HevSocks5UDPNameMap list \<times> nat" where
  "name_map_learn st addr ip port =
     (case st of (names, nxt) \<Rightarrow>
      let len = unat (addr ! 1) in
      if len = 0 \<or> len > NAME_MAX then (names, nxt)
      else case find_slot addr names of
        Some i \<Rightarrow> (names[i := (names ! i)\<lparr>nm_addr := ip, nm_port := port\<rparr>], nxt)
      | None \<Rightarrow> (names[nxt := (names ! nxt)\<lparr>nm_name := write_at (nm_name (names ! nxt)) 0 (take len (drop 2 addr)),
                                    nm_len := addr ! 1, nm_addr := ip, nm_port := port\<rparr>],
                 (nxt + 1) mod NAME_SLOTS))"

definition name_map_lookup :: "HevSocks5UDPNameMap list \<Rightarrow> bytes \<Rightarrow> (bytes \<times> u16) option" where
  "name_map_lookup names addr =
     (let len = unat (addr ! 1) in
      if len = 0 \<or> len > NAME_MAX then None
      else case find_slot addr names of
        Some i \<Rightarrow> Some (nm_addr (names ! i), nm_port (names ! i))
      | None \<Rightarrow> None)"

section \<open>From the application\<close>

text \<open>A datagram of the application for \<open>ip\<close> and \<open>port\<close>. \<open>buf\<close> is the uninitialised address of the
  frame; \<open>None\<close> for \<open>p\<close> tells that the control block is gone. The packet buffer belongs to the
  handler, which keeps it or frees it.\<close>

definition udp_recv_handler ::
  "HevMappedDNS option \<Rightarrow> bytes \<Rightarrow> ip_addr \<Rightarrow> u16 \<Rightarrow> net \<Rightarrow> 'a HevSocks5SessionUDP_scheme \<Rightarrow> bytes list option \<Rightarrow>
   (HevMappedDNS option \<times> net \<times> 'a HevSocks5SessionUDP_scheme) option" where
  "udp_recv_handler dns buf ip port nt self p =
     (case p of
        None \<Rightarrow> Some (dns, nt, hev_socks5_set_timeout self 0)
      | Some p \<Rightarrow>
        if p_frames self > int UDP_POOL_SIZE then Some (dns, hev_free nt, self)
        else case hev_malloc nt of (nt, ok) \<Rightarrow>
        if \<not> ok then Some (dns, hev_free nt, self)
        else do {
          (dns, addr, _) \<leftarrow> hev_socks5_addr_from_lwip dns buf ip port;
          let self = (if addr ! 0 = HEV_SOCKS5_ADDR_TYPE_NAME
            then (let ip4 = (case ip of IpV4 b \<Rightarrow> b | IpV6 b \<Rightarrow> take 4 b | IpOther \<Rightarrow> zero_ip);
                      (names, nxt) = name_map_learn (p_names self, p_names_next self) addr ip4 port in
                  self\<lparr>p_names := names, p_names_next := nxt, p_addr := ip4, p_port := port\<rparr>)
            else self);
          Some (dns, nt, self\<lparr>p_frames := p_frames self + 1, p_frame_list := p_frame_list self @ [\<lparr>fr_addr = addr, fr_data = p\<rparr>]\<rparr>) })"

text \<open>A message is the first segment of its packet buffer.\<close>

definition frame_msg :: "HevSocks5UDPFrame \<Rightarrow> HevSocks5UDPMsg" where
  "frame_msg fr = \<lparr>m_addr = AddrAt (fr_addr fr), m_buf = hd (fr_data fr), m_len = length (hd (fr_data fr))\<rparr>"

text \<open>Frames sent are taken off the list one by one; a list that ends early is undefined.\<close>

fun drop_frames :: "nat \<Rightarrow> net \<Rightarrow> 'a HevSocks5SessionUDP_scheme \<Rightarrow> (net \<times> 'a HevSocks5SessionUDP_scheme) option" where
  "drop_frames 0 nt self = Some (nt, self)"
| "drop_frames (Suc n) nt self =
     (case p_frame_list self of
        [] \<Rightarrow> None
      | fr # frs \<Rightarrow> drop_frames n (hev_free (hev_free nt)) (self\<lparr>p_frame_list := frs, p_frames := p_frames self - 1\<rparr>))"

definition hev_socks5_session_udp_fwd_f ::
  "net \<Rightarrow> 'a HevSocks5SessionUDP_scheme \<Rightarrow> nat \<Rightarrow> (net \<times> 'a HevSocks5SessionUDP_scheme \<times> int) option" where
  "hev_socks5_session_udp_fwd_f nt self num =
     (if p_frames self \<le> 0 then Some (nt, self, 0)
      else let n = min num (nat (p_frames self)) in
      if length (p_frame_list self) < n then None
      else do {
        (nt, self, res) \<leftarrow> hev_socks5_udp_sendmmsg hev_socks5_client_udp_get_fd nt self (map frame_msg (take n (p_frame_list self)));
        if res \<le> 0 then Some (nt, self, - 1)
        else do {
          (nt, self) \<leftarrow> drop_frames (nat res) nt self;
          Some (nt, self, 1) } })"

section \<open>To the application\<close>

text \<open>\<open>room\<close> is the number of bytes from the pointer to the end of all the buffers.\<close>

definition socks5_addr_is_inside_buf :: "udp_addr \<Rightarrow> nat \<Rightarrow> bool option" where
  "socks5_addr_is_inside_buf addr room =
     (case addr of
        AddrNull \<Rightarrow> Some False
      | AddrUninit \<Rightarrow> None
      | AddrAt a \<Rightarrow> Some (
          room \<noteq> 0 \<and>
          (if a ! 0 = HEV_SOCKS5_ADDR_TYPE_IPV4 then 7 \<le> room
           else if a ! 0 = HEV_SOCKS5_ADDR_TYPE_IPV6 then 19 \<le> room
           else if a ! 0 = HEV_SOCKS5_ADDR_TYPE_NAME then 2 \<le> room \<and> 4 + unat (a ! 1) \<le> room
           else False)))"

text \<open>The address a reply is given to the application as.\<close>

definition reply_source :: "'a HevSocks5SessionUDP_scheme \<Rightarrow> bytes \<Rightarrow> (ip_addr \<times> u16) option" where
  "reply_source self a =
     (if a ! 0 = HEV_SOCKS5_ADDR_TYPE_NAME then map_option (\<lambda>(ip, port). (IpV4 ip, port)) (name_map_lookup (p_names self) a)
      else if p_addr self \<noteq> zero_ip \<and> p_port self \<noteq> 0 \<and> a ! 0 = HEV_SOCKS5_ADDR_TYPE_IPV4 \<and> take 4 (drop 1 a) = p_addr self
      then Some (IpV4 (p_addr self), p_port self)
      else hev_socks5_addr_into_lwip a)"

definition udp_sendfrom :: "stack \<Rightarrow> ip_addr \<Rightarrow> u16 \<Rightarrow> bytes \<Rightarrow> stack \<times> bool" where
  "udp_sendfrom lw ip port bs =
     (case l_errs lw of
        [] \<Rightarrow> (lw\<lparr>l_sent := l_sent lw @ [(ip, port, bs)]\<rparr>, True)
      | ok # es \<Rightarrow> (lw\<lparr>l_errs := es, l_sent := l_sent lw @ (if ok then [(ip, port, bs)] else [])\<rparr>, ok))"

text \<open>The loop over the messages received: \<open>n\<close> turns are left, \<open>room\<close> bytes follow the first buffer
  of \<open>msgs\<close>.\<close>

fun fwd_b_loop ::
  "'a HevSocks5SessionUDP_scheme \<Rightarrow> nat \<Rightarrow> HevSocks5UDPMsg list \<Rightarrow> net \<Rightarrow> stack \<Rightarrow> (net \<times> stack \<times> int) option" where
  "fwd_b_loop self 0 msgs nt lw = Some (nt, lw, 1)"
| "fwd_b_loop self (Suc n) [] nt lw = None"
| "fwd_b_loop self (Suc n) (msg # msgs) nt lw = do {
     inside \<leftarrow> socks5_addr_is_inside_buf (m_addr msg) ((case m_addr msg of AddrAt a \<Rightarrow> length a | _ \<Rightarrow> 0) + UDP_BUF_SIZE * length msgs);
     if \<not> inside then fwd_b_loop self n msgs nt lw
     else case reply_source self (case m_addr msg of AddrAt a \<Rightarrow> a | _ \<Rightarrow> []) of
       None \<Rightarrow> fwd_b_loop self n msgs nt lw
     | Some (saddr, port) \<Rightarrow>
         (case hev_malloc nt of (nt, ok) \<Rightarrow>
          if \<not> ok then Some (nt, lw, - 1)
          else case udp_sendfrom lw saddr port (take (m_len msg) (m_buf msg)) of (lw, ok) \<Rightarrow>
          let nt = hev_free nt in
          if \<not> ok then Some (nt, lw, - 1) else fwd_b_loop self n msgs nt lw) }"

definition hev_socks5_session_udp_fwd_b ::
  "bytes list \<Rightarrow> net \<Rightarrow> stack \<Rightarrow> 'a HevSocks5SessionUDP_scheme \<Rightarrow> (net \<times> stack \<times> 'a HevSocks5SessionUDP_scheme \<times> int) option" where
  "hev_socks5_session_udp_fwd_b mem nt lw self = do {
     let msgv = map (\<lambda>b. \<lparr>m_addr = AddrNull, m_buf = b, m_len = UDP_BUF_SIZE\<rparr>) mem;
     (nt, self, msgv, res) \<leftarrow> hev_socks5_udp_recvmmsg hev_socks5_client_udp_get_fd True nt self msgv;
     if res \<le> 0 then Some (nt, lw, self, if res = - 1 \<and> n_again nt then 0 else - 1)
     else do {
       (nt, lw, res) \<leftarrow> fwd_b_loop self (nat res) msgv nt lw;
       Some (nt, lw, self, res) } }"

section \<open>The splicer\<close>

text \<open>The yielder of the session also moves it to the end of the tunnel's set of sessions.\<close>

definition session_udp_yielder ::
  "int \<Rightarrow> HevTaskYieldType \<Rightarrow> nat \<Rightarrow> net \<Rightarrow> stack \<Rightarrow> 'a HevSocks5SessionUDP_scheme \<Rightarrow>
   (net \<times> stack \<times> 'a HevSocks5SessionUDP_scheme \<times> int) option" where
  "session_udp_yielder max_session_count type d nt lw self =
     (case (if s_type self = TYPE_UDP_IN_UDP
            then (case task_recv False True 0 nt (s_fd self) 1 of (nt, _, res) \<Rightarrow> (nt, res = 0 \<or> res < 0 \<and> \<not> n_again nt))
            else (nt, False)) of (nt, closed) \<Rightarrow>
      if closed then Some (nt, lw, hev_socks5_set_timeout self 0, - 1)
      else do {
        let res = hev_socks5_task_io_yielder type (s_timeout self) d;
        ss \<leftarrow> hev_socks5_tunnel_update_session max_session_count (l_set lw) (p_node self);
        Some (nt, lw\<lparr>l_set := ss\<rparr>, self, res) })"

text \<open>What happens while the task yields: the delay after which it is woken, and the datagrams of
  the application that the network stack handed to the session meanwhile, in packet buffers it
  allocated.\<close>

type_synonym turn = "nat \<times> (ip_addr \<times> u16 \<times> bytes list option) list"

fun arrivals ::
  "bytes \<Rightarrow> HevMappedDNS option \<Rightarrow> net \<Rightarrow> 'a HevSocks5SessionUDP_scheme \<Rightarrow> (ip_addr \<times> u16 \<times> bytes list option) list \<Rightarrow>
   (HevMappedDNS option \<times> net \<times> 'a HevSocks5SessionUDP_scheme) option" where
  "arrivals buf dns nt self [] = Some (dns, nt, self)"
| "arrivals buf dns nt self ((ip, port, p) # as) = do {
     let nt = (case p of None \<Rightarrow> nt | Some _ \<Rightarrow> nt\<lparr>n_live := n_live nt + 1\<rparr>);
     (dns, nt, self) \<leftarrow> udp_recv_handler dns buf ip port nt self p;
     arrivals buf dns nt self as }"

fun session_udp_loop ::
  "nat \<Rightarrow> int \<Rightarrow> bytes \<Rightarrow> (nat \<Rightarrow> bytes list) \<Rightarrow> nat \<Rightarrow> turn list \<Rightarrow> int \<Rightarrow> int \<Rightarrow> HevMappedDNS option \<Rightarrow> net \<Rightarrow> stack \<Rightarrow>
   'a HevSocks5SessionUDP_scheme \<Rightarrow> (HevMappedDNS option \<times> net \<times> stack \<times> 'a HevSocks5SessionUDP_scheme) run" where
  "session_udp_loop 0 mx buf stale num ts res_f res_b dns nt lw self = Unfinished"
| "session_udp_loop (Suc k) mx buf stale num ts res_f res_b dns nt lw self =
     (case (if res_f \<ge> 0 then hev_socks5_session_udp_fwd_f nt self num else Some (nt, self, res_f)) of
        None \<Rightarrow> Undefined
      | Some (nt, self, res_f) \<Rightarrow>
     (case (if res_b \<ge> 0 then hev_socks5_session_udp_fwd_b (stale k) nt lw self else Some (nt, lw, self, res_b)) of
        None \<Rightarrow> Undefined
      | Some (nt, lw, self, res_b) \<Rightarrow>
     if res_f > 0 \<or> res_b > 0 \<or> res_f = 0 \<or> res_b = 0 then
       (let type = (if res_f > 0 \<or> res_b > 0 then HEV_TASK_YIELD else HEV_TASK_WAITIO);
            (d, as) = (case ts of [] \<Rightarrow> (nat (s_timeout self), []) | t # _ \<Rightarrow> t) in
        case session_udp_yielder mx type d nt lw self of
          None \<Rightarrow> Undefined
        | Some (nt, lw, self, res) \<Rightarrow>
        (case arrivals buf dns nt self as of
           None \<Rightarrow> Undefined
         | Some (dns, nt, self) \<Rightarrow>
           if res \<noteq> 0 then Finished (dns, nt, lw, self)
           else session_udp_loop k mx buf stale num (drop 1 ts) res_f res_b dns nt lw self))
     else Finished (dns, nt, lw, self)))"

definition hev_socks5_session_udp_splice ::
  "nat \<Rightarrow> misc \<Rightarrow> int \<Rightarrow> bytes \<Rightarrow> (nat \<Rightarrow> bytes list) \<Rightarrow> turn list \<Rightarrow> HevMappedDNS option \<Rightarrow> net \<Rightarrow> stack \<Rightarrow>
   'a HevSocks5SessionUDP_scheme \<Rightarrow> (HevMappedDNS option \<times> net \<times> stack \<times> 'a HevSocks5SessionUDP_scheme) run" where
  "hev_socks5_session_udp_splice fuel m mx buf stale ts dns nt lw self =
     session_udp_loop fuel mx buf stale (nat (udp_copy_buffer_nums m)) ts 1 1 dns
       (hev_task_add_fd nt (hev_socks5_client_udp_get_fd self)) lw self"

section \<open>Construction and destruction\<close>

definition hev_socks5_session_udp_construct :: "HevConfigServer \<Rightarrow> 'a HevSocks5SessionUDP_scheme \<Rightarrow> 'a HevSocks5SessionUDP_scheme" where
  "hev_socks5_session_udp_construct srv self =
     (hev_socks5_client_udp_construct self (if srv_udp_in_udp srv then TYPE_UDP_IN_UDP else TYPE_UDP_IN_TCP))\<lparr>p_pcb := True\<rparr>"

definition hev_socks5_session_udp_new :: "HevConfigServer \<Rightarrow> net \<Rightarrow> net \<times> HevSocks5SessionUDP option" where
  "hev_socks5_session_udp_new srv nt =
     (case hev_malloc nt of (nt, ok) \<Rightarrow>
      if \<not> ok then (nt, None) else (nt, Some (hev_socks5_session_udp_construct srv zero_session_udp)))"

text \<open>Each frame is freed with its packet buffer; then the control block is removed and the client destructed.\<close>

definition hev_socks5_session_udp_destruct :: "net \<Rightarrow> 'a HevSocks5SessionUDP_scheme \<Rightarrow> net" where
  "hev_socks5_session_udp_destruct nt self =
     hev_socks5_client_udp_destruct (foldl (\<lambda>nt _. hev_free (hev_free nt)) nt (p_frame_list self)) self"

end
