(* ===== verification/SessionNames.thy ===== *)
theory SessionNames
  imports SessionUDP
begin

text \<open>
  The table of names of a UDP session is a bounded queue of bindings: the round-robin array is
  refined to a list of bindings, with lookup, learning and how long a binding is kept.
\<close>

section \<open>The table of names as a bounded queue of entries\<close>

definition name_of :: "bytes \<Rightarrow> bytes" where
  "name_of addr = take (unat (addr ! 1)) (drop 2 addr)"

definition named :: "bytes \<Rightarrow> bool" where
  "named addr \<longleftrightarrow> addr ! 1 \<noteq> 0 \<and> 2 + unat (addr ! 1) \<le> length addr"

definition used :: "HevSocks5UDPNameMap \<Rightarrow> bool" where
  "used s \<longleftrightarrow> nm_len s \<noteq> 0"

definition slot_name :: "HevSocks5UDPNameMap \<Rightarrow> bytes" where
  "slot_name s = take (unat (nm_len s)) (nm_name s)"

definition entry :: "HevSocks5UDPNameMap \<Rightarrow> bytes \<times> bytes \<times> u16" where
  "entry s = (slot_name s, nm_addr s, nm_port s)"

text \<open>The slots from the next one to be replaced on: first those never used, then the others, the
  oldest first.\<close>

definition name_inv :: "HevSocks5UDPNameMap list \<times> nat \<Rightarrow> bool" where
  "name_inv = (\<lambda>(names, nxt). length names = NAME_SLOTS \<and> nxt < NAME_SLOTS \<and> (\<forall>s \<in> set names. length (nm_name s) = 256) \<and>
     (\<exists>us vs. rotate nxt names = us @ vs \<and> (\<forall>s \<in> set us. \<not> used s) \<and> (\<forall>s \<in> set vs. used s) \<and> distinct (map slot_name vs)))"

definition name_abs :: "HevSocks5UDPNameMap list \<times> nat \<Rightarrow> (bytes \<times> bytes \<times> u16) list" where
  "name_abs = (\<lambda>(names, nxt). map entry (filter used (rotate nxt names)))"

text \<open>The specification: a known name gets its new address, a new one is put at the end, and the
  oldest falls out when there are more than sixteen.\<close>

definition fifo_learn :: "('k \<times> 'v) list \<Rightarrow> 'k \<Rightarrow> 'v \<Rightarrow> ('k \<times> 'v) list" where
  "fifo_learn m k v = (if k \<in> fst ` set m then map (\<lambda>(k', v'). (k', if k' = k then v else v')) m
     else drop (length m - (NAME_SLOTS - 1)) m @ [(k, v)])"

lemma unat_u8: "unat (x :: u8) < 256"
proof -
  have "unat x < 2 ^ LENGTH(8)" by (rule unsigned_less)
  then show ?thesis by simp
qed

lemma length_name_of: "named a \<Longrightarrow> length (name_of a) = unat (a ! 1) \<and> 0 < unat (a ! 1)"
  by (auto simp: named_def name_of_def unat_gt_0)

lemma slot_matches_iff:
  assumes "named a" "length (nm_name s) = 256"
  shows "slot_matches a s \<longleftrightarrow> used s \<and> slot_name s = name_of a"
proof
  assume "slot_matches a s"
  then show "used s \<and> slot_name s = name_of a" using assms(1) by (auto simp: slot_matches_def used_def slot_name_def name_of_def named_def)
next
  assume r: "used s \<and> slot_name s = name_of a"
  have "length (slot_name s) = unat (nm_len s)" using assms(2) unat_u8 [of "nm_len s"] by (simp add: slot_name_def)
  then have "unat (nm_len s) = unat (a ! 1)" using r length_name_of [OF assms(1)] by simp
  then have "nm_len s = a ! 1" by (simp only: word_unat_eq_iff)
  then show "slot_matches a s" using r by (simp add: slot_matches_def slot_name_def name_of_def)
qed

lemma find_slot_Some: "find_slot a ss = Some i \<Longrightarrow> i < length ss \<and> slot_matches a (ss ! i)"
  by (induction ss arbitrary: i) (auto split: if_splits)

lemma find_slot_None: "find_slot a ss = None \<longleftrightarrow> (\<forall>s \<in> set ss. \<not> slot_matches a s)"
  by (induction ss) auto

lemma name_invI:
  assumes "length names = NAME_SLOTS" "nxt < NAME_SLOTS" "\<forall>s \<in> set names. length (nm_name s) = 256"
    "rotate nxt names = us @ vs" "\<forall>s \<in> set us. \<not> used s" "\<forall>s \<in> set vs. used s" "distinct (map slot_name vs)"
  shows "name_inv (names, nxt)"
  using assms by (auto simp: name_inv_def)

lemma name_inv_distinct:
  assumes "name_inv (names, nxt)"
  shows "distinct (map slot_name (filter used (rotate nxt names)))" "set (name_abs (names, nxt)) = entry ` {s \<in> set names. used s}"
proof -
  obtain us vs where r: "rotate nxt names = us @ vs" "\<forall>s \<in> set us. \<not> used s" "\<forall>s \<in> set vs. used s" "distinct (map slot_name vs)"
    using assms by (auto simp: name_inv_def)
  have "filter used us = []" "filter used vs = vs" using r(2,3) by (simp_all add: filter_empty_conv)
  then show "distinct (map slot_name (filter used (rotate nxt names)))" using r by simp
  show "set (name_abs (names, nxt)) = entry ` {s \<in> set names. used s}" by (auto simp: name_abs_def)
qed

lemma name_lookup_refines:
  assumes inv: "name_inv (names, nxt)" and a: "named a"
  shows "name_map_lookup names a = map_of (name_abs (names, nxt)) (name_of a)"
proof -
  have l: "0 < unat (a ! 1)" "unat (a ! 1) \<le> NAME_MAX" using length_name_of [OF a] unat_u8 [of "a ! 1"] by (auto simp: NAME_MAX_def)
  have len: "length (nm_name s) = 256" if "s \<in> set names" for s using inv that by (auto simp: name_inv_def)
  have d: "distinct (map fst (name_abs (names, nxt)))"
    using name_inv_distinct(1) [OF inv] by (simp add: name_abs_def entry_def comp_def)
  show ?thesis
  proof (cases "find_slot a names")
    case None
    then have "name_of a \<notin> fst ` set (name_abs (names, nxt))"
      using slot_matches_iff [OF a len] by (auto simp: find_slot_None name_inv_distinct(2) [OF inv] entry_def)
    then have "map_of (name_abs (names, nxt)) (name_of a) = None" by (simp add: map_of_eq_None_iff)
    then show ?thesis using None l by (simp add: name_map_lookup_def)
  next
    case (Some i)
    then have i: "i < length names" "slot_matches a (names ! i)" using find_slot_Some by auto
    then have "used (names ! i)" "slot_name (names ! i) = name_of a" using slot_matches_iff [OF a len] by auto
    then have "(name_of a, nm_addr (names ! i), nm_port (names ! i)) \<in> set (name_abs (names, nxt))"
      using i(1) unfolding name_inv_distinct(2) [OF inv] by (force simp: entry_def)
    then have "map_of (name_abs (names, nxt)) (name_of a) = Some (nm_addr (names ! i), nm_port (names ! i))" using d by simp
    then show ?thesis using Some l by (simp add: name_map_lookup_def)
  qed
qed

text \<open>Replacing the value of the one slot that matches.\<close>

lemma update_slot_map:
  assumes "i < length ss" "P (ss ! i)" "\<And>j. j < length ss \<Longrightarrow> P (ss ! j) \<Longrightarrow> j = i"
  shows "ss[i := f (ss ! i)] = map (\<lambda>s. if P s then f s else s) ss"
proof (rule nth_equalityI)
  fix j assume "j < length (ss[i := f (ss ! i)])"
  then have j: "j < length ss" by simp
  show "ss[i := f (ss ! i)] ! j = map (\<lambda>s. if P s then f s else s) ss ! j"
  proof (cases "j = i")
    case True
    then show ?thesis using assms(1,2) by simp
  next
    case False
    then have "\<not> P (ss ! j)" using assms(3) [OF j] by blast
    then show ?thesis using False j by simp
  qed
qed simp

lemma distinct_filter_nth:
  assumes "distinct (map f (filter P xs))" "i < length xs" "j < length xs" "P (xs ! i)" "P (xs ! j)" "f (xs ! i) = f (xs ! j)"
  shows "i = j"
  using assms
proof (induction xs arbitrary: i j)
  case (Cons x xs)
  have no: "f x \<noteq> f (xs ! k)" if "P x" "k < length xs" "P (xs ! k)" for k
  proof -
    have "f (xs ! k) \<in> f ` set (filter P xs)" using that by (intro imageI) simp
    then show ?thesis using Cons.prems(1) that(1) by auto
  qed
  have d: "distinct (map f (filter P xs))" using Cons.prems(1) by (simp split: if_splits)
  show ?case
  proof (cases i)
    case i: 0
    show ?thesis
    proof (cases j)
      case (Suc k)
      then show ?thesis using no [of k] Cons.prems i by simp
    qed (use i in simp)
  next
    case i: (Suc k)
    show ?thesis
    proof (cases j)
      case 0
      then show ?thesis using no [of k] Cons.prems i by simp
    next
      case (Suc l)
      then show ?thesis using Cons.IH [OF d, of k l] Cons.prems i by simp
    qed
  qed
qed simp

lemma mset_rotate_names: "mset (rotate n xs) = mset xs"
proof (induction n)
  case (Suc n)
  then show ?case by (cases "rotate n xs") auto
qed simp

lemma rotate_push:
  assumes "nxt < length ss"
  shows "rotate (Suc nxt mod length ss) (ss[nxt := x]) = tl (rotate nxt ss) @ [x]"
proof -
  obtain l y q where ss: "ss = l @ y # q" and l: "length l = nxt" 
    by (rule that [OF id_take_nth_drop [OF assms]]) (use assms in simp)
  have "rotate (Suc nxt mod length ss) (ss[nxt := x]) = rotate (Suc nxt) (ss[nxt := x])"
    using rotate_conv_mod [of "Suc nxt" "ss[nxt := x]"] by simp
  also have "\<dots> = rotate1 (rotate (length l) (l @ x # q))" by (simp add: ss l [symmetric])
  also have "\<dots> = q @ l @ [x]" by (simp only: rotate_append) simp
  also have "\<dots> = tl (rotate (length l) ss) @ [x]" unfolding ss by (simp only: rotate_append) simp
  finally show ?thesis by (simp only: l)
qed

lemma name_learn_refines:
  assumes inv: "name_inv (names, nxt)" and a: "named a"
  shows "name_inv (name_map_learn (names, nxt) a ip port) \<and>
    name_abs (name_map_learn (names, nxt) a ip port) = fifo_learn (name_abs (names, nxt)) (name_of a) (ip, port)"
proof -
  have l: "0 < unat (a ! 1)" "unat (a ! 1) \<le> NAME_MAX" "length (name_of a) = unat (a ! 1)"
    using length_name_of [OF a] unat_u8 [of "a ! 1"] by (auto simp: NAME_MAX_def)
  have len: "length (nm_name s) = 256" if "s \<in> set names" for s using inv that by (auto simp: name_inv_def)
  have n: "length names = NAME_SLOTS" "nxt < NAME_SLOTS" using inv by (auto simp: name_inv_def)
  obtain us vs where r: "rotate nxt names = us @ vs" "\<forall>s \<in> set us. \<not> used s" "\<forall>s \<in> set vs. used s" "distinct (map slot_name vs)"
    using inv by (auto simp: name_inv_def)
  have fu: "filter used us = []" "filter used vs = vs" using r(2,3) by (simp_all add: filter_empty_conv)
  have vs: "set vs \<subseteq> set names" using r(1) by (metis Un_upper2 set_append set_rotate)
  have abs: "name_abs (names, nxt) = map entry vs" by (simp add: name_abs_def r(1) fu)
  show ?thesis
  proof (cases "find_slot a names")
    case None
    let ?x = "(names ! nxt)\<lparr>nm_name := write_at (nm_name (names ! nxt)) 0 (take (unat (a ! 1)) (drop 2 a)), nm_len := a ! 1, nm_addr := ip, nm_port := port\<rparr>"
    have x: "length (nm_name ?x) = 256" "used ?x" "slot_name ?x = name_of a" "entry ?x = (name_of a, ip, port)"
      using len [of "names ! nxt"] n l unat_u8 [of "a ! 1"] a
      by (auto simp: used_def slot_name_def entry_def name_of_def write_at_def named_def)
    have eq: "name_map_learn (names, nxt) a ip port = (names[nxt := ?x], Suc nxt mod NAME_SLOTS)"
      using None l by (simp add: name_map_learn_def)
    have rot: "rotate (Suc nxt mod NAME_SLOTS) (names[nxt := ?x]) = tl (us @ vs) @ [?x]"
      using rotate_push [of nxt names ?x] n r(1) by simp
    have new: "name_of a \<notin> slot_name ` set vs"
      using None vs r(3) slot_matches_iff [OF a len] by (auto simp: find_slot_None)
    have cnt: "length us + length vs = NAME_SLOTS" using arg_cong [OF r(1), of length] n by simp
    have dr: "filter used (tl (us @ vs)) = drop (length vs - (NAME_SLOTS - 1)) vs"
    proof (cases us)
      case Nil
      then show ?thesis using cnt r(3) by (simp add: NAME_SLOTS_def drop_Suc filter_id_conv list.set_sel(2) in_set_dropD tl_drop [symmetric])
        (metis drop_0 drop_Suc filter_True in_set_dropD)
    next
      case (Cons u us')
      then show ?thesis using cnt r(2) fu by (auto simp: NAME_SLOTS_def filter_empty_conv)
    qed
    let ?us = "if us = [] then [] else tl us" and ?vs = "drop (length vs - (NAME_SLOTS - 1)) vs @ [?x]"
    have sp: "tl (us @ vs) @ [?x] = ?us @ ?vs"
      using cnt by (cases us) (auto simp: NAME_SLOTS_def drop_Suc)
    have "name_inv (names[nxt := ?x], Suc nxt mod NAME_SLOTS)"
    proof (rule name_invI [of _ _ ?us ?vs])
      show "length (names[nxt := ?x]) = NAME_SLOTS" "Suc nxt mod NAME_SLOTS < NAME_SLOTS" using n by (simp_all add: NAME_SLOTS_def)
      show "rotate (Suc nxt mod NAME_SLOTS) (names[nxt := ?x]) = ?us @ ?vs" using rot sp by simp
      show "\<forall>s \<in> set ?us. \<not> used s" using r(2) by (auto dest: list.set_sel(2))
      show "\<forall>s \<in> set ?vs. used s" using r(3) x(2) by (auto dest: in_set_dropD)
      have "distinct (drop (length vs - (NAME_SLOTS - 1)) (map slot_name vs))" using r(4) by (rule distinct_drop)
      then show "distinct (map slot_name ?vs)" using new x(3) by (auto simp: drop_map dest: in_set_dropD)
      show "\<forall>s \<in> set (names[nxt := ?x]). length (nm_name s) = 256" using len x(1) by (auto dest: set_update_subset_insert [THEN subsetD])
    qed
    moreover have "name_abs (names[nxt := ?x], Suc nxt mod NAME_SLOTS) = fifo_learn (name_abs (names, nxt)) (name_of a) (ip, port)"
    proof -
      have "name_abs (names[nxt := ?x], Suc nxt mod NAME_SLOTS) = map entry (filter used (tl (us @ vs) @ [?x]))"
        by (simp only: name_abs_def prod.case rot)
      also have "\<dots> = drop (length vs - (NAME_SLOTS - 1)) (map entry vs) @ [(name_of a, ip, port)]"
        using dr x(2,4) by (simp add: drop_map)
      also have "\<dots> = fifo_learn (map entry vs) (name_of a) (ip, port)"
        using new by (auto simp: fifo_learn_def entry_def image_image)
      finally show ?thesis by (simp only: abs)
    qed
    ultimately show ?thesis using eq by simp
  next
    case (Some i)
    then have i: "i < length names" "slot_matches a (names ! i)" using find_slot_Some by auto
    let ?f = "\<lambda>s. s\<lparr>nm_addr := ip, nm_port := port\<rparr>" and ?g = "\<lambda>s. if slot_matches a s then s\<lparr>nm_addr := ip, nm_port := port\<rparr> else s"
    have slot: "slot_matches a s \<longleftrightarrow> used s \<and> slot_name s = name_of a" if "s \<in> set names" for s
      using slot_matches_iff [OF a len [OF that]] .
    have "mset (filter used (rotate nxt names)) = mset (filter used names)" by (simp only: mset_filter mset_rotate_names)
    then have "mset (map slot_name (filter used (rotate nxt names))) = mset (map slot_name (filter used names))" by (simp only: mset_map)
    then have d: "distinct (map slot_name (filter used names))"
      using name_inv_distinct(1) [OF inv] mset_eq_imp_distinct_iff by blast
    have "j = i" if "j < length names" "slot_matches a (names ! j)" for j
    proof (rule distinct_filter_nth [OF d that(1) i(1)])
      show "used (names ! j)" "used (names ! i)" "slot_name (names ! j) = slot_name (names ! i)"
        using slot [of "names ! j"] slot [of "names ! i"] that i nth_mem by auto
    qed
    then have upd: "names[i := ?f (names ! i)] = map ?g names" using i by (intro update_slot_map)
    have eq: "name_map_learn (names, nxt) a ip port = (map ?g names, nxt)"
      using Some l unfolding upd [symmetric] by (simp add: name_map_learn_def)
    have rot: "rotate nxt (map ?g names) = map ?g us @ map ?g vs" by (simp add: rotate_map r(1))
    have g: "used (?g s) = used s" "slot_name (?g s) = slot_name s" "length (nm_name (?g s)) = length (nm_name s)" for s
      by (auto simp: used_def slot_name_def)
    have uf: "used (s\<lparr>nm_addr := ip, nm_port := port\<rparr>) = used s" for s by (simp add: used_def)
    have "name_inv (map ?g names, nxt)"
    proof (rule name_invI [of _ _ "map ?g us" "map ?g vs"])
      show "length (map ?g names) = NAME_SLOTS" "nxt < NAME_SLOTS" using n by simp_all
      show "\<forall>s \<in> set (map ?g names). length (nm_name s) = 256" using len by auto
      show "rotate nxt (map ?g names) = map ?g us @ map ?g vs" by (rule rot)
      show "\<forall>s \<in> set (map ?g us). \<not> used s" "\<forall>s \<in> set (map ?g vs). used s" using r(2,3) by (auto simp: used_def)
      show "distinct (map slot_name (map ?g vs))" using r(4) by (simp add: comp_def g(2) cong: map_cong)
    qed
    moreover have "name_abs (map ?g names, nxt) = fifo_learn (name_abs (names, nxt)) (name_of a) (ip, port)"
    proof -
      have "names ! i \<in> set (us @ vs)" using i(1) r(1) by (metis nth_mem set_rotate)
      then have known: "name_of a \<in> fst ` set (map entry vs)"
        using slot [of "names ! i"] i r(2) by (force simp: entry_def)
      have e: "entry (?g s) = (\<lambda>(k', v'). (k', if k' = name_of a then (ip, port) else v')) (entry s)" if "s \<in> set vs" for s
        using slot [of s] that vs r(3) by (auto simp: entry_def slot_name_def)
      have "filter used (map ?g us) = []" "filter used (map ?g vs) = map ?g vs"
        using r(2,3) by (auto simp: filter_empty_conv filter_id_conv uf)
      then have "filter used (map ?g us @ map ?g vs) = map ?g vs" by (simp only: filter_append append_Nil)
      then have "name_abs (map ?g names, nxt) = map entry (map ?g vs)" by (simp only: name_abs_def prod.case rot)
      also have "\<dots> = fifo_learn (map entry vs) (name_of a) (ip, port)" using known e by (simp add: fifo_learn_def)
      finally show ?thesis by (simp only: abs)
    qed
    ultimately show ?thesis using eq by simp
  qed
qed

section \<open>How long a name is remembered\<close>

lemma fifo_learn_keys: "distinct (map fst m) \<Longrightarrow> distinct (map fst (fifo_learn m k v))"
  by (auto simp: fifo_learn_def drop_map comp_def split_def dest: distinct_drop in_set_dropD)

lemma fifo_learn_length: "length m \<le> NAME_SLOTS \<Longrightarrow> length (fifo_learn m k v) \<le> NAME_SLOTS"
  by (auto simp: fifo_learn_def NAME_SLOTS_def)

lemma fifo_learn_new: "distinct (map fst m) \<Longrightarrow> \<exists>xs ys. fifo_learn m k v = xs @ (k, v) # ys \<and> k \<notin> fst ` set (xs @ ys)"
proof (cases "k \<in> fst ` set m")
  case True
  assume d: "distinct (map fst m)"
  from True obtain v0 where "(k, v0) \<in> set m" by auto
  then obtain xs ys where m: "m = xs @ (k, v0) # ys" by (auto simp: in_set_conv_decomp)
  have nk: "k \<notin> fst ` set xs \<union> fst ` set ys" using d m by auto
  then have n: "\<forall>x \<in> set xs. fst x \<noteq> k" "\<forall>x \<in> set ys. fst x \<noteq> k" by force+
  let ?f = "\<lambda>(k', v'). (k', if k' = k then v else v')"
  have "map ?f xs = xs" "map ?f ys = ys" using n by (auto simp: split_def intro!: map_idI)
  then have "fifo_learn m k v = xs @ (k, v) # ys" using True by (simp add: fifo_learn_def m)
  then show ?thesis using nk by - (rule exI [of _ xs], rule exI [of _ ys], auto)
next
  case False
  then show ?thesis by - (rule exI [of _ "drop (length m - (NAME_SLOTS - 1)) m"], rule exI [of _ "[]"], auto simp: fifo_learn_def dest: in_set_dropD)
qed

lemma fifo_learn_other:
  assumes "m = xs @ (k, v) # ys" "k \<notin> fst ` set (xs @ ys)" "length ys < NAME_SLOTS - 1" "k' \<noteq> k" "length m \<le> NAME_SLOTS"
  shows "\<exists>xs' ys'. fifo_learn m k' v' = xs' @ (k, v) # ys' \<and> k \<notin> fst ` set (xs' @ ys') \<and> length ys' \<le> Suc (length ys)"
proof (cases "k' \<in> fst ` set m")
  case True
  let ?f = "\<lambda>(k2, v2). (k2, if k2 = k' then v' else v2)"
  have "fifo_learn m k' v' = map ?f xs @ (k, v) # map ?f ys" using True assms(1,4) by (simp add: fifo_learn_def)
  moreover have "fst ` set (map ?f xs @ map ?f ys) = fst ` set (xs @ ys)" by (simp add: image_Un image_image split_def)
  ultimately show ?thesis using assms(2) by - (rule exI [of _ "map ?f xs"], rule exI [of _ "map ?f ys"], simp)
next
  case False
  let ?n = "length m - (NAME_SLOTS - 1)"
  have "?n \<le> length xs" using assms(1,3,5) by (auto simp: NAME_SLOTS_def)
  then have "fifo_learn m k' v' = drop ?n xs @ (k, v) # ys @ [(k', v')]" using False assms(1) by (simp add: fifo_learn_def)
  then show ?thesis using assms(2,4)
    by - (rule exI [of _ "drop ?n xs"], rule exI [of _ "ys @ [(k', v')]"], auto dest: in_set_dropD)
qed

lemma map_of_middle: "k \<notin> fst ` set xs \<Longrightarrow> map_of (xs @ (k, v) # ys) k = Some v"
  by (simp add: map_add_Some_iff map_of_eq_None_iff)

definition learns :: "('k \<times> 'v) list \<Rightarrow> ('k \<times> 'v) list \<Rightarrow> ('k \<times> 'v) list" where
  "learns m ls = foldl (\<lambda>m (k, v). fifo_learn m k v) m ls"

lemma learns_keeps:
  assumes "m = xs @ (k, v) # ys" "k \<notin> fst ` set (xs @ ys)" "length ys + length ls < NAME_SLOTS" "k \<notin> fst ` set ls" "length m \<le> NAME_SLOTS"
  shows "map_of (learns m ls) k = Some v"
  using assms
proof (induction ls arbitrary: m xs ys)
  case Nil
  then have "k \<notin> fst ` set xs" by auto
  then show ?case using map_of_middle [of k xs v ys] Nil(1) by (simp add: learns_def)
next
  case (Cons l ls)
  obtain k' v' where l: "l = (k', v')" by (rule prod.exhaust)
  obtain xs' ys' where f: "fifo_learn m k' v' = xs' @ (k, v) # ys'" "k \<notin> fst ` set (xs' @ ys')" "length ys' \<le> Suc (length ys)"
  proof -
    have "length ys < NAME_SLOTS - 1" "k' \<noteq> k" using Cons.prems(3,4) l by (auto simp: NAME_SLOTS_def)
    from fifo_learn_other [OF Cons.prems(1,2) this Cons.prems(5), of v'] show ?thesis using that by blast
  qed
  have "map_of (learns (fifo_learn m k' v') ls) k = Some v"
    using Cons.IH [OF f(1,2)] f(3) Cons.prems fifo_learn_length [OF Cons.prems(5)] by simp
  then show ?case by (simp add: learns_def l)
qed

text \<open>The learning of a session: the addresses that were named, each with where it was sent.\<close>

definition learn_all :: "HevSocks5UDPNameMap list \<times> nat \<Rightarrow> (bytes \<times> bytes \<times> u16) list \<Rightarrow> HevSocks5UDPNameMap list \<times> nat" where
  "learn_all st ls = foldl (\<lambda>st (a, ip, port). name_map_learn st a ip port) st ls"

lemma learn_all_refines:
  assumes "name_inv st" "\<forall>(a, ip, port) \<in> set ls. named a"
  shows "name_inv (learn_all st ls) \<and> name_abs (learn_all st ls) = learns (name_abs st) (map (\<lambda>(a, v). (name_of a, v)) ls)"
  using assms
proof (induction ls arbitrary: st)
  case (Cons l ls)
  obtain a ip port where l: "l = (a, ip, port)" by (rule prod_cases3)
  have a: "named a" using Cons.prems l by auto
  have r: "name_inv (name_map_learn st a ip port)" "name_abs (name_map_learn st a ip port) = fifo_learn (name_abs st) (name_of a) (ip, port)"
    using name_learn_refines [of "fst st" "snd st" a ip port] Cons.prems(1) a by simp_all
  have "\<forall>(a, ip, port) \<in> set ls. named a" using Cons.prems(2) by fastforce
  from Cons.IH [OF r(1) this] r(2) l show ?case by (simp add: learn_all_def learns_def)
qed (simp add: learn_all_def learns_def)

lemma zero_names: "name_inv (p_names zero_session_udp, p_names_next zero_session_udp)"
  "name_abs (p_names zero_session_udp, p_names_next zero_session_udp) = []"
proof -
  let ?s = "\<lparr>nm_name = replicate (NAME_MAX + 1) 0, nm_len = 0, nm_addr = zero_ip, nm_port = 0\<rparr> :: HevSocks5UDPNameMap"
  have "\<not> used ?s" "length (nm_name ?s) = 256" by (simp_all add: used_def NAME_MAX_def)
  then show "name_inv (p_names zero_session_udp, p_names_next zero_session_udp)"
    "name_abs (p_names zero_session_udp, p_names_next zero_session_udp) = []"
    by (auto simp: zero_session_udp_def NAME_SLOTS_def name_abs_def filter_empty_conv intro!: name_invI [where vs = "[]"])
qed

lemma names_length: "name_inv st \<Longrightarrow> length (name_abs st) \<le> NAME_SLOTS"
  by (cases st) (simp add: name_inv_def name_abs_def, metis length_filter_le length_rotate)

lemma names_keys: "name_inv st \<Longrightarrow> distinct (map fst (name_abs st))"
  using name_inv_distinct(1) [of "fst st" "snd st"] by (cases st) (simp add: name_abs_def entry_def comp_def)

text \<open>C20. The table of names of a UDP session is a bounded queue of bindings. However names are
  learnt and looked up, the round-robin array answers like the list of bindings in which a known
  name is rebound in place and a new one pushes out the oldest of sixteen; in particular a new
  name is answered with the address and port it was used with until sixteen other names have been
  learnt after it.\<close>

theorem session_names_fifo:
  assumes inv: "name_inv st" and named: "\<forall>(a, ip, port) \<in> set ls. named a" "named a"
  shows "name_map_lookup (fst (learn_all st ls)) a = map_of (learns (name_abs st) (map (\<lambda>(a, v). (name_of a, v)) ls)) (name_of a) \<and>
    (\<forall>us vs ip port. ls = us @ (a, ip, port) # vs \<and> name_map_lookup (fst (learn_all st us)) a = None \<and>
        length vs < NAME_SLOTS \<and> (\<forall>(a', v) \<in> set vs. name_of a' \<noteq> name_of a) \<longrightarrow>
      name_map_lookup (fst (learn_all st ls)) a = Some (ip, port))"
proof -
  have look: "name_map_lookup (fst (learn_all st ls)) a = map_of (learns (name_abs st) (map (\<lambda>(a, v). (name_of a, v)) ls)) (name_of a)"
    if "\<forall>(a, ip, port) \<in> set ls. named a" for ls
    using learn_all_refines [OF inv that] name_lookup_refines [of "fst (learn_all st ls)" "snd (learn_all st ls)" a] named(2) by simp
  have "name_map_lookup (fst (learn_all st ls)) a = Some (ip, port)"
    if ls: "ls = us @ (a, ip, port) # vs" and new: "name_map_lookup (fst (learn_all st us)) a = None"
      and len: "length vs < NAME_SLOTS" and other: "\<forall>(a', v) \<in> set vs. name_of a' \<noteq> name_of a" for us vs ip port
  proof -
    let ?n = "map (\<lambda>(a, v). (name_of a, v))" and ?m = "name_abs (learn_all st us)"
    have nu: "\<forall>(a, ip, port) \<in> set us. named a" using named(1) ls by simp
    note us = learn_all_refines [OF inv nu]
    have "map_of ?m (name_of a) = None" using look [OF nu] new us by simp
    then have "name_of a \<notin> fst ` set ?m" by (simp only: map_of_eq_None_iff not_False_eq_True)
    then have f: "fifo_learn ?m (name_of a) (ip, port) = drop (length ?m - (NAME_SLOTS - 1)) ?m @ (name_of a, ip, port) # []"
      and k: "name_of a \<notin> fst ` set (drop (length ?m - (NAME_SLOTS - 1)) ?m @ [])"
      by (auto simp: fifo_learn_def dest: in_set_dropD)
    have l: "length (fifo_learn ?m (name_of a) (ip, port)) \<le> NAME_SLOTS"
      by (rule fifo_learn_length, rule names_length, rule conjunct1 [OF us])
    have "name_of a \<notin> fst ` set (?n vs)" using other by (auto simp: split_def)
    from learns_keeps [OF f k _ this l] have "map_of (learns (fifo_learn ?m (name_of a) (ip, port)) (?n vs)) (name_of a) = Some (ip, port)"
      using len by simp
    then show ?thesis using look [OF named(1)] us by (simp add: learns_def ls)
  qed
  then show ?thesis using look [OF named(1)] by blast
qed

lemma session_names_fifo_witness:
  "name_map_lookup (fst (learn_all (p_names zero_session_udp, p_names_next zero_session_udp)
     [(wire (Domain [97] 80), [198, 18, 0, 1], 53), (wire (Domain [98] 80), [198, 18, 0, 2], 53)])) (wire (Domain [97] 443)) = Some ([198, 18, 0, 1], 53)"
proof -
  let ?ls = "[(wire (Domain [97] 80), [198, 18, 0, 1], 53), (wire (Domain [98] 80), [198, 18, 0, 2], 53)] :: (bytes \<times> bytes \<times> u16) list"
  have n: "\<forall>(a, ip, port) \<in> set ?ls. named a" "named (wire (Domain [97] 443))" by (simp_all add: named_def)
  show ?thesis using conjunct1 [OF session_names_fifo [OF zero_names(1) n]] unfolding zero_names(2)
    by (simp add: name_of_def learns_def fifo_learn_def NAME_SLOTS_def)
qed

end
