(* ===== verification/SessionUDPSteps.thy ===== *)
theory SessionUDPSteps
  imports SessionNames
begin

text \<open>
  What every step of a UDP session keeps: its invariant, the count of live allocations, and that
  no input grows. From this the bounds of its queue, the absence of leaks, and termination.
\<close>

section \<open>Memory accounting of the calls of a session\<close>

lemma recv_live: "task_recv w dw t nt fd n = (nt', bs, r) \<Longrightarrow> n_live nt' = n_live nt"
  by (auto simp: task_recv_def split: prod.splits)

lemma yielder_live: "udp_task_io_yielder ty d nt self = (nt', self', r) \<Longrightarrow> n_live nt' = n_live nt"
  by (auto simp: udp_task_io_yielder_def split: if_splits prod.splits dest: recv_live)

lemma recvmmsg_loop_live: "recvmmsg_loop dw caps es nt self = (es', nt', self', got, r) \<Longrightarrow> n_live nt' = n_live nt"
proof (induction dw caps es nt self rule: recvmmsg_loop.induct)
  case (3 dw caps d es nt self)
  obtain nt1 self1 r1 where y: "udp_task_io_yielder HEV_TASK_WAITIO d (nt\<lparr>n_again := True\<rparr>) self = (nt1, self1, r1)" by (rule prod_cases3)
  then show ?case using 3 yielder_live [OF y] by (auto split: if_splits)
qed (auto simp: Let_def split: if_splits)

lemma recvmmsg_live: "hev_task_io_socket_recvmmsg dw caps nt self fd = (nt', self', got, r) \<Longrightarrow> n_live nt' = n_live nt"
  by (auto simp: hev_task_io_socket_recvmmsg_def split: prod.splits dest: recvmmsg_loop_live)

lemma sendmmsg_loop_live: "sendmmsg_loop done ms es nt self = (es', nt', self', out, r) \<Longrightarrow> n_live nt' = n_live nt"
proof (induction "done" ms es nt self rule: sendmmsg_loop.induct)
  case (3 dn ms d es nt self)
  obtain nt1 self1 r1 where y: "udp_task_io_yielder HEV_TASK_WAITIO d (nt\<lparr>n_again := True\<rparr>) self = (nt1, self1, r1)" by (rule prod_cases3)
  then show ?case using 3 yielder_live [OF y] by (auto split: if_splits)
qed (auto split: if_splits)

lemma sendmmsg_live: "hev_task_io_socket_sendmmsg ms nt self fd = (nt', self', r) \<Longrightarrow> n_live nt' = n_live nt"
  by (auto simp: hev_task_io_socket_sendmmsg_def split: prod.splits dest: sendmmsg_loop_live)

lemma sendmsg_live: "hev_task_io_socket_sendmsg t nt fd iov = (nt', r) \<Longrightarrow> n_live nt' = n_live nt"
  by (auto simp: hev_task_io_socket_sendmsg_def split: prod.splits)

lemma udp_send_live:
  assumes "hev_socks5_udp_sendmmsg get_fd nt self msgs = Some (nt', self', r)"
  shows "n_live nt' = n_live nt"
proof (cases "s_type self")
  case TYPE_UDP_IN_TCP
  then obtain v where v: "udp_iovs udp_tcp_iov msgs = Some v" "hev_socks5_udp_sendmmsg_tcp get_fd nt self msgs = Some (nt', self', r)"
    using assms by (auto simp: hev_socks5_udp_sendmmsg_def hev_socks5_udp_sendmmsg_tcp_def bind_eq_Some_conv)
  then show ?thesis by (cases v) (auto simp: hev_socks5_udp_sendmmsg_tcp_def split: prod.splits if_splits dest: sendmsg_live)
next
  case TYPE_UDP_IN_UDP
  then obtain v where v: "udp_iovs udp_udp_iov msgs = Some v" "hev_socks5_udp_sendmmsg_udp get_fd nt self msgs = Some (nt', self', r)"
    using assms by (auto simp: hev_socks5_udp_sendmmsg_def hev_socks5_udp_sendmmsg_udp_def bind_eq_Some_conv)
  then show ?thesis by (cases v) (auto simp: hev_socks5_udp_sendmmsg_udp_def dest: sendmmsg_live)
qed (use assms in \<open>auto simp: hev_socks5_udp_sendmmsg_def\<close>)

lemma recv_frame_live:
  assumes "recv_frame nb t nt fd msg = (nt', x)"
  shows "n_live nt' = n_live nt"
proof -
  obtain nt1 b1 r1 where 1: "task_recv False nb t nt fd 5 = (nt1, b1, r1)" by (rule prod_cases3)
  obtain nt2 b2 r2 where 2: "(if 0 < r1 \<and> r1 < 5 then (case task_recv True False t nt1 fd (nat (5 - r1)) of (nt, b2, r2) \<Rightarrow> (nt, b1 @ b2, r1 + r2)) else (nt1, b1, r1)) = (nt2, b2, r2)"
    by (rule prod_cases3)
  have l2: "n_live nt2 = n_live nt" using 2 recv_live [OF 1] by (auto split: if_splits prod.splits dest: recv_live)
  let ?n = "unat (b2 ! 2) - 3 - 2 + unat (ntohs (of_le16 (b2 ! 0) (b2 ! 1)))"
  obtain nt4 b4 r4 where 4: "task_recv True False t nt2 fd ?n = (nt4, b4, r4)" by (rule prod_cases3)
  have "nt' = nt2 \<or> nt' = nt4" using assms unfolding recv_frame_def 1 prod.case 2 Let_def 4 by (auto split: if_splits)
  then show ?thesis using l2 recv_live [OF 4] by auto
qed

lemma recvmmsg_tcp_live: "recvmmsg_tcp_loop nb t fd got ms nt = (nt', msgv, r) \<Longrightarrow> n_live nt' = n_live nt"
proof (induction ms arbitrary: got nt)
  case (Cons msg ms)
  obtain nt1 x where 1: "recv_frame nb t nt fd msg = (nt1, x)" by (rule prod.exhaust)
  then show ?case using Cons recv_frame_live [OF 1] by (cases x) (auto split: if_splits)
qed simp

lemma syscall_live: "syscall nt = (nt', r) \<Longrightarrow> n_live nt' = n_live nt"
  by (auto simp: syscall_def split: list.splits)

lemma recvmmsg_udp_live:
  assumes r: "hev_socks5_udp_recvmmsg_udp get_fd nb nt self msgv = Some (nt', self', msgv', r)"
  shows "n_live nt' = n_live nt"
proof -
  obtain nt1 self1 got r1 where 1: "hev_task_io_socket_recvmmsg nb (map m_len msgv) nt self (get_fd self) = (nt1, self1, got, r1)" by (rule prod_cases4)
  obtain nt2 r2 where 2: "(if \<not> s_udp_associated self1 then syscall nt1 else (nt1, 0)) = (nt2, r2)" by (rule prod.exhaust)
  have l2: "n_live nt2 = n_live nt1" using 2 by (auto split: if_splits dest: syscall_live)
  have "nt' = nt1 \<or> nt' = nt2"
    using r unfolding hev_socks5_udp_recvmmsg_udp_def Let_def 1 prod.case 2 by (auto split: if_splits option.splits)
  then show ?thesis using l2 recvmmsg_live [OF 1] by auto
qed

lemma udp_recv_live:
  assumes "hev_socks5_udp_recvmmsg get_fd nb nt self msgv = Some (nt', self', msgv', r)"
  shows "n_live nt' = n_live nt"
proof (cases "s_type self")
  case TYPE_UDP_IN_TCP
  then show ?thesis using assms recvmmsg_tcp_live [of nb "s_timeout self" "get_fd self" "[]" msgv nt]
    by (auto simp: hev_socks5_udp_recvmmsg_def hev_socks5_udp_recvmmsg_tcp_def split: prod.splits)
next
  case TYPE_UDP_IN_UDP
  then show ?thesis using assms recvmmsg_udp_live [of get_fd nb nt self msgv nt' self' msgv' r]
    by (simp add: hev_socks5_udp_recvmmsg_def)
qed (use assms in \<open>auto simp: hev_socks5_udp_recvmmsg_def\<close>)

section \<open>The invariant of a session\<close>

definition session_ok :: "'a HevSocks5SessionUDP_scheme \<Rightarrow> bool" where
  "session_ok self \<longleftrightarrow> p_frames self = int (length (p_frame_list self)) \<and> p_frames self \<le> int UDP_POOL_SIZE + 1 \<and>
     name_inv (p_names self, p_names_next self)"

text \<open>Live allocations that are not frames or packet buffers of the queue.\<close>

definition others_live :: "net \<Rightarrow> 'a HevSocks5SessionUDP_scheme \<Rightarrow> int" where
  "others_live nt self = n_live nt - 2 * p_frames self"

lemma same_ids_session:
  fixes self self' :: "'a HevSocks5SessionUDP_scheme"
  assumes "same_ids self self'"
  shows "p_frames self' = p_frames self" "p_frame_list self' = p_frame_list self" "p_node self' = p_node self"
    "p_names self' = p_names self" "p_names_next self' = p_names_next self" "p_addr self' = p_addr self" "p_port self' = p_port self"
    "session_ok self' = session_ok self"
  using assms by (auto simp: same_ids_def session_ok_def)

lemma from_name_length:
  assumes "hev_socks5_addr_from_name a nm p = Some (a', r)" "length a = sizeof_addr"
  shows "length a' = sizeof_addr"
proof -
  let ?b = "strncpy (a[0 := HEV_SOCKS5_ADDR_TYPE_NAME]) 2 nm 256"
  have b: "length ?b = 260" using assms(2) by (simp add: strncpy_def sizeof_addr_def)
  obtain n where "a' = write_at (?b[1 := of_nat n]) (2 + unat (of_nat n :: u8)) (le16 p)"
    using assms(1) by (auto simp: hev_socks5_addr_from_name_def bind_eq_Some_conv Let_def)
  then show ?thesis using b unat_u8 [of "of_nat n"] by (simp add: le16_def sizeof_addr_def)
qed

lemma from_lwip_length:
  assumes "hev_socks5_addr_from_lwip dns a ip p = Some (dns', a', r)" "length a = sizeof_addr"
  shows "length a' = sizeof_addr"
proof (cases ip)
  case (IpV4 b)
  then show ?thesis using assms
    by (auto simp: hev_socks5_addr_from_lwip_def bind_eq_Some_conv hev_socks5_addr_from_ipv4_def le16_def sizeof_addr_def
        split: option.splits dest: from_name_length [unfolded sizeof_addr_def])
qed (use assms in \<open>auto simp: hev_socks5_addr_from_lwip_def hev_socks5_addr_from_ipv6_def le16_def sizeof_addr_def\<close>)

lemma learn_keeps:
  assumes "name_inv (names, nxt)" "length a = sizeof_addr"
  shows "name_inv (name_map_learn (names, nxt) a ip port)"
proof (cases "a ! 1 = 0")
  case True
  then show ?thesis using assms(1) by (simp add: name_map_learn_def)
next
  case False
  then have "named a" using assms(2) unat_u8 [of "a ! 1"] by (simp add: named_def sizeof_addr_def)
  then show ?thesis using name_learn_refines [OF assms(1)] by blast
qed

lemma handler_keeps:
  assumes h: "udp_recv_handler dns buf ip port nt self p = Some (dns', nt', self')"
    and ok: "session_ok self" "length buf = sizeof_addr"
  shows "session_ok self' \<and> others_live nt' self' = others_live nt self - (if p = None then 0 else 1) \<and>
    left_at nt' = left_at nt \<and> s_fd self' = s_fd self \<and> u_fd self' = u_fd self \<and> s_type self' = s_type self \<and>
    (0 \<le> s_timeout self \<longrightarrow> 0 \<le> s_timeout self')"
proof (cases p)
  case None
  then show ?thesis using h ok by (auto simp: udp_recv_handler_def session_ok_def others_live_def socks5_accessors)
next
  case (Some q)
  obtain nt1 b where m: "hev_malloc nt = (nt1, b)" by (rule prod.exhaust)
  have nt1: "n_live nt1 = n_live nt + (if b then 1 else 0)" "left_at nt1 = left_at nt"
    using m by (auto simp: hev_malloc_def left_at_def fun_eq_iff split: list.splits)
  have fr: "left_at (hev_free x) = left_at x" "n_live (hev_free x) = n_live x - 1" for x
    by (simp_all add: hev_free_def left_at_def fun_eq_iff)
  show ?thesis
  proof (cases "p_frames self > int UDP_POOL_SIZE \<or> \<not> b")
    case True
    then show ?thesis using h ok Some m nt1 fr by (auto simp: udp_recv_handler_def others_live_def split: if_splits)
  next
    case False
    obtain a r where f: "hev_socks5_addr_from_lwip dns buf ip port = Some (dns', a, r)"
      using h Some m False by (auto simp: udp_recv_handler_def bind_eq_Some_conv Let_def split: prod.splits)
    have la: "length a = sizeof_addr" using from_lwip_length [OF f ok(2)] .
    obtain ns nx where l: "name_map_learn (p_names self, p_names_next self) a
        (case ip of IpV4 b \<Rightarrow> b | IpV6 b \<Rightarrow> take 4 b | IpOther \<Rightarrow> zero_ip) port = (ns, nx)" by (rule prod.exhaust)
    have "name_inv (ns, nx)" using learn_keeps [OF _ la] ok(1) l unfolding session_ok_def by metis
    then show ?thesis using h Some m False f l nt1 ok(1)
      by (cases "a ! 0 = HEV_SOCKS5_ADDR_TYPE_NAME")
        (auto simp: udp_recv_handler_def Let_def session_ok_def others_live_def)
  qed
qed

text \<open>What every step of the session keeps.\<close>

definition session_keeps :: "net \<Rightarrow> 'a HevSocks5SessionUDP_scheme \<Rightarrow> net \<Rightarrow> 'a HevSocks5SessionUDP_scheme \<Rightarrow> bool" where
  "session_keeps nt self nt' self' \<longleftrightarrow> (session_ok self \<longrightarrow> session_ok self') \<and> others_live nt' self' = others_live nt self \<and>
     no_growth nt nt' \<and> s_fd self' = s_fd self \<and> u_fd self' = u_fd self \<and> s_type self' = s_type self \<and>
     (0 \<le> s_timeout self \<longrightarrow> 0 \<le> s_timeout self')"

lemma session_keeps_refl [simp]: "session_keeps nt self nt self"
  by (simp add: session_keeps_def)

lemma session_keeps_trans [trans]:
  "session_keeps nt self nt1 self1 \<Longrightarrow> session_keeps nt1 self1 nt2 self2 \<Longrightarrow> session_keeps nt self nt2 self2"
  unfolding session_keeps_def using no_growth_trans by auto

lemma keeps_same_ids:
  assumes "same_ids self self'" "n_live nt' = n_live nt" "no_growth nt nt'"
  shows "session_keeps nt self nt' self'"
  using assms same_ids_session [OF assms(1)] unfolding session_keeps_def others_live_def
  by (auto simp: same_ids_def)

lemma keeps_get_fd: "session_keeps nt self nt' self' \<Longrightarrow> hev_socks5_client_udp_get_fd self' = hev_socks5_client_udp_get_fd self"
  by (cases "s_type self") (simp_all add: session_keeps_def hev_socks5_client_udp_get_fd_def)

lemma arrivals_keeps:
  assumes "arrivals buf dns nt self as = Some (dns', nt', self')" "session_ok self" "length buf = sizeof_addr"
  shows "session_keeps nt self nt' self' \<and> left_at nt' = left_at nt"
  using assms
proof (induction as arbitrary: dns nt self)
  case (Cons a as)
  obtain ip port p where a: "a = (ip, port, p)" by (rule prod_cases3)
  let ?nt = "case p of None \<Rightarrow> nt | Some _ \<Rightarrow> nt\<lparr>n_live := n_live nt + 1\<rparr>"
  obtain dns1 nt1 self1 where 1: "udp_recv_handler dns buf ip port ?nt self p = Some (dns1, nt1, self1)"
    "arrivals buf dns1 nt1 self1 as = Some (dns', nt', self')"
    using Cons.prems(1) a by (auto simp: bind_eq_Some_conv Let_def)
  note k = handler_keeps [OF 1(1) Cons.prems(2,3)]
  have e: "left_at nt1 = left_at nt" "n_live ?nt = n_live nt + (if p = None then 0 else 1)"
    using k by (auto simp: left_at_def fun_eq_iff split: option.splits)
  have "session_keeps nt self nt1 self1"
    using k e by (auto simp: session_keeps_def no_growth_def others_live_def)
  then show ?case using Cons.IH [OF 1(2)] k e Cons.prems(3) session_keeps_trans by auto
qed simp

lemma session_yielder_is:
  "session_udp_yielder mx ty d nt lw self = Some (nt', lw', self', r) \<Longrightarrow> udp_task_io_yielder ty d nt self = (nt', self', r)"
  by (auto simp: session_udp_yielder_def udp_task_io_yielder_def Let_def bind_eq_Some_conv split: if_splits prod.splits)

lemma session_yielder_keeps:
  assumes "session_udp_yielder mx ty d nt lw self = Some (nt', lw', self', r)"
  shows "session_keeps nt self nt' self'"
  using session_yielder_is [OF assms] yielder_live yielder_ids keeps_same_ids by blast

lemma drop_frames_Some:
  "drop_frames n nt self = Some (nt', self') \<Longrightarrow> n \<le> length (p_frame_list self) \<and> n_live nt' = n_live nt - 2 * int n \<and> left_at nt' = left_at nt \<and>
     self' = self\<lparr>p_frame_list := drop n (p_frame_list self), p_frames := p_frames self - int n\<rparr>"
proof (induction n arbitrary: nt self)
  case (Suc n)
  then obtain fr frs where f: "p_frame_list self = fr # frs" by (auto split: list.splits)
  then show ?case using Suc.IH [of "hev_free (hev_free nt)" "self\<lparr>p_frame_list := frs, p_frames := p_frames self - 1\<rparr>"] Suc.prems
    by (auto simp: hev_free_def left_at_def fun_eq_iff)
qed simp

lemma fwd_f_keeps:
  assumes f: "hev_socks5_session_udp_fwd_f nt self num = Some (nt', self', r)" and ok: "session_ok self"
  shows "session_keeps nt self nt' self' \<and> (0 < r \<longrightarrow> p_frames self' < p_frames self) \<and> p_frames self' \<le> p_frames self"
proof (cases "p_frames self \<le> 0")
  case True
  then show ?thesis using f by (simp add: hev_socks5_session_udp_fwd_f_def)
next
  case False
  let ?ms = "map frame_msg (take (min num (nat (p_frames self))) (p_frame_list self))"
  obtain nt1 self1 r1 where 1: "hev_socks5_udp_sendmmsg hev_socks5_client_udp_get_fd nt self ?ms = Some (nt1, self1, r1)"
    using f False by (auto simp: hev_socks5_session_udp_fwd_f_def Let_def bind_eq_Some_conv split: if_splits)
  have i: "no_growth nt nt1" "same_ids self self1" using udp_send_growth [OF 1] by simp_all
  have k: "session_keeps nt self nt1 self1" using keeps_same_ids [OF i(2) udp_send_live [OF 1] i(1)] .
  have fr: "p_frames self1 = p_frames self" using same_ids_session(1) [OF i(2)] .
  show ?thesis
  proof (cases "r1 \<le> 0")
    case True
    then show ?thesis using f False 1 k fr by (auto simp: hev_socks5_session_udp_fwd_f_def Let_def split: if_splits)
  next
    case pos: False
    obtain nt2 self2 where 2: "drop_frames (nat r1) nt1 self1 = Some (nt2, self2)" "nt' = nt2" "self' = self2" "r = 1"
      using f False 1 pos by (auto simp: hev_socks5_session_udp_fwd_f_def Let_def bind_eq_Some_conv split: if_splits)
    note d = drop_frames_Some [OF 2(1)]
    have "session_ok self1" using k ok by (simp add: session_keeps_def)
    then have "session_keeps nt1 self1 nt2 self2"
      using d by (auto simp: session_keeps_def session_ok_def others_live_def no_growth_def)
    then show ?thesis using session_keeps_trans [OF k] 2 d fr pos by simp
  qed
qed

lemma fwd_b_loop_keeps:
  "fwd_b_loop self n msgs nt lw = Some (nt', lw', r) \<Longrightarrow> n_live nt' = n_live nt \<and> left_at nt' = left_at nt"
proof (induction n arbitrary: msgs nt lw)
  case (Suc n)
  then obtain msg ms where m: "msgs = msg # ms" by (cases msgs) auto
  obtain ins where i: "socks5_addr_is_inside_buf (m_addr msg) ((case m_addr msg of AddrAt a \<Rightarrow> length a | _ \<Rightarrow> 0) + UDP_BUF_SIZE * length ms) = Some ins"
    using Suc.prems m by (auto simp: bind_eq_Some_conv)
  let ?src = "reply_source self (case m_addr msg of AddrAt a \<Rightarrow> a | _ \<Rightarrow> [])"
  show ?case
  proof (cases "\<not> ins \<or> ?src = None")
    case True
    then have "fwd_b_loop self n ms nt lw = Some (nt', lw', r)" using Suc.prems m i by (cases ins) auto
    then show ?thesis by (rule Suc.IH)
  next
    case False
    then obtain sa port where s: "?src = Some (sa, port)" "ins" by auto
    obtain nt1 b where mm: "hev_malloc nt = (nt1, b)" by (rule prod.exhaust)
    obtain lw1 b1 where u: "udp_sendfrom lw sa port (take (m_len msg) (m_buf msg)) = (lw1, b1)" by (rule prod.exhaust)
    have n1: "n_live nt1 = n_live nt + (if b then 1 else 0)" "left_at nt1 = left_at nt" "n_live (hev_free nt1) = n_live nt1 - 1" "left_at (hev_free nt1) = left_at nt1"
      using mm by (auto simp: hev_malloc_def hev_free_def left_at_def fun_eq_iff split: list.splits)
    then show ?thesis using Suc.prems Suc.IH [of ms "hev_free nt1" lw1] m i s mm u by (auto simp: Let_def split: if_splits)
  qed
qed simp

lemma fwd_b_keeps:
  assumes f: "hev_socks5_session_udp_fwd_b mem nt lw self = Some (nt', lw', self', r)"
  shows "session_keeps nt self nt' self' \<and> p_frames self' = p_frames self \<and> (0 < r \<longrightarrow> progress (hev_socks5_client_udp_get_fd self) nt nt')"
proof -
  let ?ms = "map (\<lambda>b. \<lparr>m_addr = AddrNull, m_buf = b, m_len = UDP_BUF_SIZE\<rparr>) mem"
  obtain nt1 self1 msgv r1 where 1: "hev_socks5_udp_recvmmsg hev_socks5_client_udp_get_fd True nt self ?ms = Some (nt1, self1, msgv, r1)"
    using f by (auto simp: hev_socks5_session_udp_fwd_b_def bind_eq_Some_conv)
  note g = udp_recv_growth [OF 1]
  have k: "session_keeps nt self nt1 self1" "p_frames self1 = p_frames self"
    using g keeps_same_ids [of self self1 nt1 nt] udp_recv_live [OF 1] same_ids_session(1) [of self self1] by simp_all
  show ?thesis
  proof (cases "r1 \<le> 0")
    case True
    then show ?thesis using f 1 k by (auto simp: hev_socks5_session_udp_fwd_b_def split: if_splits)
  next
    case False
    have "do { (nt, lw, res) \<leftarrow> fwd_b_loop self1 (nat r1) msgv nt1 lw; Some (nt, lw, self1, res) } = Some (nt', lw', self', r)"
      using f False by (simp add: hev_socks5_session_udp_fwd_b_def 1)
    then obtain nt2 lw2 r2 where 2: "fwd_b_loop self1 (nat r1) msgv nt1 lw = Some (nt2, lw2, r2)" "nt' = nt2" "self' = self1"
      by (cases "fwd_b_loop self1 (nat r1) msgv nt1 lw") auto
    note l = fwd_b_loop_keeps [OF 2(1)]
    have "no_growth nt1 nt2" using l by (simp add: no_growth_def)
    then have "session_keeps nt1 self1 nt2 self1" using keeps_same_ids [of self1 self1 nt2 nt1] l by simp
    moreover have "progress (hev_socks5_client_udp_get_fd self) nt nt2" using g False l by (auto simp: progress_def no_growth_def)
    ultimately show ?thesis using session_keeps_trans [OF k(1)] 2 k(2) by simp
  qed
qed

section \<open>The splicer as a whole\<close>

lemma loop_keeps:
  assumes "session_udp_loop k mx buf stale num ts res_f res_b dns nt lw self = Finished (dns', nt', lw', self')"
    and "session_ok self" "length buf = sizeof_addr"
  shows "session_keeps nt self nt' self'"
  using assms
proof (induction k arbitrary: ts res_f res_b dns nt lw self)
  case (Suc k)
  let ?F = "if res_f \<ge> 0 then hev_socks5_session_udp_fwd_f nt self num else Some (nt, self, res_f)"
  obtain nt1 self1 f where 1: "?F = Some (nt1, self1, f)" using Suc.prems(1) by (cases ?F) auto
  have k1: "session_keeps nt self nt1 self1" using 1 fwd_f_keeps [of nt self num nt1 self1 f] Suc.prems(2) by (auto split: if_splits)
  let ?B = "if res_b \<ge> 0 then hev_socks5_session_udp_fwd_b (stale k) nt1 lw self1 else Some (nt1, lw, self1, res_b)"
  obtain nt2 lw2 self2 b where 2: "?B = Some (nt2, lw2, self2, b)" using Suc.prems(1) 1 by (cases ?B) auto
  have "session_keeps nt1 self1 nt2 self2" using 2 fwd_b_keeps [of "stale k" nt1 lw self1 nt2 lw2 self2 b] by (auto split: if_splits)
  then have k2: "session_keeps nt self nt2 self2" using session_keeps_trans [OF k1] by blast
  show ?case
  proof (cases "f > 0 \<or> b > 0 \<or> f = 0 \<or> b = 0")
    case False
    then show ?thesis using Suc.prems(1) 1 2 k2 by simp
  next
    case True
    let ?ty = "if f > 0 \<or> b > 0 then HEV_TASK_YIELD else HEV_TASK_WAITIO"
    obtain d as where t: "(case ts of [] \<Rightarrow> (nat (s_timeout self2), []) | t # _ \<Rightarrow> t) = (d, as)" by (rule prod.exhaust)
    obtain nt3 lw3 self3 r where 3: "session_udp_yielder mx ?ty d nt2 lw2 self2 = Some (nt3, lw3, self3, r)"
      using Suc.prems(1) 1 2 True t by (cases "session_udp_yielder mx ?ty d nt2 lw2 self2") (auto simp: Let_def)
    have k3: "session_keeps nt self nt3 self3" using session_keeps_trans [OF k2 session_yielder_keeps [OF 3]] .
    then have ok3: "session_ok self3" using Suc.prems(2) by (simp add: session_keeps_def)
    obtain dns4 nt4 self4 where 4: "arrivals buf dns nt3 self3 as = Some (dns4, nt4, self4)"
      using Suc.prems(1) 1 2 True t 3 by (cases "arrivals buf dns nt3 self3 as") (auto simp: Let_def)
    have k4: "session_keeps nt self nt4 self4" using session_keeps_trans [OF k3] arrivals_keeps [OF 4 ok3 Suc.prems(3)] by blast
    have e: "(if r \<noteq> 0 then Finished (dns4, nt4, lw3, self4) else session_udp_loop k mx buf stale num (drop 1 ts) f b dns4 nt4 lw3 self4) = Finished (dns', nt', lw', self')"
      using Suc.prems(1) 1 2 True t 3 4 by (simp add: Let_def)
    show ?thesis
    proof (cases "r = 0")
      case False
      then show ?thesis using e k4 by simp
    next
      case True
      have "session_ok self4" using k4 Suc.prems(2) by (simp add: session_keeps_def)
      from Suc.IH [OF _ this Suc.prems(3)] e True have "session_keeps nt4 self4 nt' self'" by simp
      then show ?thesis using session_keeps_trans [OF k4] by blast
    qed
  qed
qed simp

text \<open>The turns the loop can take: what is left to receive, the turns that bring something, and the
  frames that are or will be queued.\<close>

definition turns_left :: "turn list \<Rightarrow> net \<Rightarrow> 'a HevSocks5SessionUDP_scheme \<Rightarrow> nat" where
  "turns_left ts nt self = left_at nt (hev_socks5_client_udp_get_fd self) +
     (if ts = [] then nat (p_frames self) else length ts + UDP_POOL_SIZE + 1)"

lemma session_ok_frames: "session_ok self \<Longrightarrow> nat (p_frames self) \<le> UDP_POOL_SIZE + 1"
  by (simp add: session_ok_def)

lemma loop_ends:
  assumes "turns_left ts nt self < k" "0 \<le> s_timeout self" "session_ok self" "length buf = sizeof_addr"
  shows "session_udp_loop k mx buf stale num ts res_f res_b dns nt lw self \<noteq> Unfinished"
  using assms
proof (induction k arbitrary: ts res_f res_b dns nt lw self)
  case (Suc k)
  let ?F = "if res_f \<ge> 0 then hev_socks5_session_udp_fwd_f nt self num else Some (nt, self, res_f)"
  show ?case
  proof (cases ?F)
    case None
    then show ?thesis by simp
  next
    case (Some x)
    obtain nt1 self1 f where 1: "?F = Some (nt1, self1, f)" using Some by (cases x) auto
    have k1: "session_keeps nt self nt1 self1" "p_frames self1 \<le> p_frames self" "0 < f \<longrightarrow> p_frames self1 < p_frames self \<or> res_f < 0"
      using 1 fwd_f_keeps [of nt self num nt1 self1 f] Suc.prems(3) by (auto split: if_splits)
    let ?B = "if res_b \<ge> 0 then hev_socks5_session_udp_fwd_b (stale k) nt1 lw self1 else Some (nt1, lw, self1, res_b)"
    show ?thesis
    proof (cases ?B)
      case None
      then show ?thesis using 1 by simp
    next
      case (Some y)
      obtain nt2 lw2 self2 b where 2: "?B = Some (nt2, lw2, self2, b)" using Some by (cases y) auto
      have k2: "session_keeps nt1 self1 nt2 self2" "p_frames self2 = p_frames self1"
        "0 < b \<longrightarrow> progress (hev_socks5_client_udp_get_fd self1) nt1 nt2"
        using 2 fwd_b_keeps [of "stale k" nt1 lw self1 nt2 lw2 self2 b] by (auto split: if_splits)
      have kk: "session_keeps nt self nt2 self2" using session_keeps_trans [OF k1(1) k2(1)] .
      show ?thesis
      proof (cases "f > 0 \<or> b > 0 \<or> f = 0 \<or> b = 0")
        case False
        then show ?thesis using 1 2 by simp
      next
        case going: True
        let ?ty = "if f > 0 \<or> b > 0 then HEV_TASK_YIELD else HEV_TASK_WAITIO"
        obtain d as where t: "(case ts of [] \<Rightarrow> (nat (s_timeout self2), []) | t # _ \<Rightarrow> t) = (d, as)" by (rule prod.exhaust)
        show ?thesis
        proof (cases "session_udp_yielder mx ?ty d nt2 lw2 self2")
          case None
          then show ?thesis using 1 2 going t by (simp add: Let_def)
        next
          case (Some z)
          obtain nt3 lw3 self3 r where 3: "session_udp_yielder mx ?ty d nt2 lw2 self2 = Some (nt3, lw3, self3, r)" using Some by (cases z) auto
          have k3: "session_keeps nt self nt3 self3" using session_keeps_trans [OF kk session_yielder_keeps [OF 3]] .
          then have ok3: "session_ok self3" using Suc.prems(3) by (simp add: session_keeps_def)
          show ?thesis
          proof (cases "arrivals buf dns nt3 self3 as")
            case None
            then show ?thesis using 1 2 3 going t by (simp add: Let_def)
          next
            case (Some w)
            obtain dns4 nt4 self4 where 4: "arrivals buf dns nt3 self3 as = Some (dns4, nt4, self4)" using Some by (cases w) auto
            have k4: "session_keeps nt self nt4 self4" using session_keeps_trans [OF k3] arrivals_keeps [OF 4 ok3 Suc.prems(4)] by blast
            have e: "session_udp_loop (Suc k) mx buf stale num ts res_f res_b dns nt lw self =
              (if r \<noteq> 0 then Finished (dns4, nt4, lw3, self4) else session_udp_loop k mx buf stale num (drop 1 ts) f b dns4 nt4 lw3 self4)"
              using 1 2 going t 3 4 by (simp add: Let_def)
            show ?thesis
            proof (cases "r = 0")
              case False
              then show ?thesis using e by simp
            next
              case zero: True
              have ok4: "session_ok self4" "0 \<le> s_timeout self4" using k4 Suc.prems(2,3) by (auto simp: session_keeps_def)
              let ?fd = "hev_socks5_client_udp_get_fd self"
              have fd: "hev_socks5_client_udp_get_fd self4 = ?fd" "hev_socks5_client_udp_get_fd self1 = ?fd"
                using keeps_get_fd k4 k1(1) by blast+
              have le: "left_at nt4 ?fd \<le> left_at nt ?fd" using k4 by (simp add: session_keeps_def no_growth_def)
              have "turns_left (drop 1 ts) nt4 self4 < turns_left ts nt self"
              proof (cases ts)
                case (Cons u us)
                then show ?thesis using le session_ok_frames [OF ok4(1)] by (auto simp: turns_left_def fd)
              next
                case Nil
                have as: "as = []" "d = nat (s_timeout self2)" using t Nil by simp_all
                have t2: "0 \<le> s_timeout self2" using kk Suc.prems(2) by (simp add: session_keeps_def)
                have y: "udp_task_io_yielder ?ty d nt2 self2 = (nt3, self3, r)" using session_yielder_is [OF 3] .
                have ty: "f > 0 \<or> b > 0" using y zero as(2) t2
                  by (auto simp: udp_task_io_yielder_def yielder_zero_iff split: if_splits prod.splits)
                have s4: "nt4 = nt3" "self4 = self3" using 4 as(1) by simp_all
                have "no_growth nt2 nt3" "p_frames self3 = p_frames self2"
                  using yielder_ids [OF y] same_ids_session(1) [of self2 self3] by simp_all
                then have fr: "p_frames self4 = p_frames self1" "left_at nt4 ?fd \<le> left_at nt2 ?fd" using s4 k2(2) by (simp_all add: no_growth_def)
                have l2: "left_at nt2 ?fd \<le> left_at nt1 ?fd" "left_at nt1 ?fd \<le> left_at nt ?fd"
                  using k1(1) k2(1) by (simp_all add: session_keeps_def no_growth_def)
                have pos: "0 \<le> p_frames self4" using ok4(1) by (simp add: session_ok_def)
                have "b > 0 \<Longrightarrow> left_at nt2 ?fd < left_at nt1 ?fd" using k2(3) fd(2) by (simp add: progress_def)
                moreover have "f > 0 \<Longrightarrow> p_frames self1 < p_frames self" using k1(3) 1 by (auto split: if_splits)
                ultimately have "left_at nt4 ?fd + nat (p_frames self4) < left_at nt ?fd + nat (p_frames self)"
                  using ty fr l2 pos k1(2) by auto
                then show ?thesis using Nil by (simp add: turns_left_def fd)
              qed
              then have "turns_left (drop 1 ts) nt4 self4 < k" using Suc.prems(1) by simp
              from Suc.IH [OF this ok4(2,1) Suc.prems(4)] show ?thesis using e zero by simp
            qed
          qed
        qed
      qed
    qed
  qed
qed simp

lemma drop_fd_live: "n_live (drop_fd nt fd) = n_live nt"
  by (simp add: drop_fd_def sys_close_def hev_task_del_fd_def)

lemma free_live: "n_live (hev_free nt) = n_live nt - 1"
  by (simp add: hev_free_def)

lemma free_frames_live: "n_live (foldl (\<lambda>nt _. hev_free (hev_free nt)) nt frs) = n_live nt - 2 * int (length frs)"
  by (induction frs arbitrary: nt) (simp_all add: hev_free_def)

lemma destruct_live: "session_ok self \<Longrightarrow> n_live (hev_socks5_session_udp_destruct nt self) = others_live nt self - 1"
  by (simp add: hev_socks5_session_udp_destruct_def hev_socks5_client_udp_destruct_def hev_socks5_client_destruct_def hev_socks5_destruct_def
      free_live drop_fd_live free_frames_live session_ok_def others_live_def)

text \<open>C21. The queue of a UDP session is bounded and nothing leaks: whatever datagrams arrive while the
  splicer runs and whatever the server sends, at the end the count of frames is that of the queue
  and at most \<open>UDP_POOL_SIZE + 1\<close>, the table of names is well formed, and destruction frees every
  frame with its packet buffer, and the session itself.\<close>

theorem session_udp_bounded:
  assumes "hev_socks5_session_udp_splice fuel m mx buf stale ts dns nt lw self = Finished (dns', nt', lw', self')"
    and "session_ok self" "length buf = sizeof_addr"
  shows "p_frames self' = int (length (p_frame_list self')) \<and> length (p_frame_list self') \<le> UDP_POOL_SIZE + 1 \<and>
    name_inv (p_names self', p_names_next self') \<and>
    n_live (hev_socks5_session_udp_destruct nt' self') = n_live nt - 2 * p_frames self - 1"
proof -
  let ?nt = "hev_task_add_fd nt (hev_socks5_client_udp_get_fd self)"
  have k: "session_keeps ?nt self nt' self'"
    using loop_keeps [OF _ assms(2,3)] assms(1) unfolding hev_socks5_session_udp_splice_def by blast
  have "others_live ?nt self = others_live nt self" by (simp add: others_live_def hev_task_add_fd_def)
  then show ?thesis using k assms(2) destruct_live [of self' nt'] by (auto simp: session_keeps_def session_ok_def others_live_def)
qed


end
