(* ===== verification/SessionTCP.thy ===== *)
theory SessionTCP
  imports RingBuffer SessionUDPSteps
begin

text \<open>
  The TCP session of \<open>hev-socks5-session-tcp.c\<close>: segments from the application wait in a chain of packet
  buffers until they are written to the server (\<open>tcp_splice_f\<close>), bytes from the server go through the
  session's ring buffer to the network stack and stay there until the application has acknowledged them
  (\<open>tcp_splice_b\<close>, \<open>tcp_sent_handler\<close>). The splicer yields between turns; while it does, the stack calls
  the session's handlers, given here as the events of a turn. The control block belongs to lwIP: the
  record \<open>tcp_pcb\<close> holds what the session can see of it, that is, the bytes delivered, credited, written and
  acknowledged, and a script of the results of its calls.
\<close>

section \<open>The network stack's side\<close>

definition TCP_WND :: nat where "TCP_WND = 8 * 8191"

record tcp_pcb =
  tp_delivered :: bytes
  tp_recved :: nat
  tp_written :: bytes
  tp_acked :: nat
  tp_results :: "bool list"
  tp_shut :: bool
  tp_aborted :: bool

text \<open>Lengths are passed as \<open>u16_t\<close>. A call of \<open>tcp_write\<close> or \<open>tcp_output\<close> takes its result from the
  script; an exhausted script succeeds.\<close>

definition tcp_result :: "tcp_pcb \<Rightarrow> tcp_pcb \<times> bool" where
  "tcp_result pcb = (case tp_results pcb of [] \<Rightarrow> (pcb, True) | ok # rs \<Rightarrow> (pcb\<lparr>tp_results := rs\<rparr>, ok))"

definition tcp_write :: "tcp_pcb \<Rightarrow> bytes \<Rightarrow> tcp_pcb \<times> bool" where
  "tcp_write pcb bs = (case tcp_result pcb of (pcb, ok) \<Rightarrow>
     (if ok then pcb\<lparr>tp_written := tp_written pcb @ take (length bs mod 65536) bs\<rparr> else pcb, ok))"

definition tcp_recved :: "nat \<Rightarrow> tcp_pcb \<Rightarrow> tcp_pcb" where
  "tcp_recved n pcb = pcb\<lparr>tp_recved := tp_recved pcb + n mod 65536\<rparr>"

text \<open>\<open>pbuf_free_header\<close> on a chain, given as the list of its segments.\<close>

fun pbuf_free_loop :: "nat \<Rightarrow> bytes list \<Rightarrow> bytes list" where
  "pbuf_free_loop free_left [] = []"
| "pbuf_free_loop free_left (p # ps) =
     (if free_left = 0 then p # ps
      else if length p \<le> free_left then pbuf_free_loop (free_left - length p) ps
      else drop free_left p # ps)"

definition pbuf_free_header :: "bytes list \<Rightarrow> nat \<Rightarrow> bytes list" where
  "pbuf_free_header q sz = pbuf_free_loop (sz mod 65536) q"

definition tot_len :: "bytes list \<Rightarrow> nat" where
  "tot_len q = length (concat q) mod 65536"

section \<open>State\<close>

text \<open>An empty queue is the null pointer. \<open>q_pcb\<close> tells whether there is a control block; the block
  itself is the network stack's.\<close>

record HevSocks5SessionTCP = HevSocks5ClientTCP +
  q_node :: addr
  q_queue :: "bytes list"
  q_pcb :: bool
  q_buffer :: "HevRingBuffer option"
  q_eof :: bool

text \<open>What a session shares with the rest: the set of sessions, its control block, and whether the
  sending side of the connection to the server was shut down.\<close>

record tcp_env =
  e_set :: HevSessionSet
  e_pcb :: tcp_pcb
  e_fin :: bool

section \<open>From the application\<close>

text \<open>\<open>writev\<close> takes a prefix.\<close>

definition sys_writev :: "net \<Rightarrow> int \<Rightarrow> bytes \<Rightarrow> net \<times> int" where
  "sys_writev nt fd bs =
     (case n_tx nt fd of
        [] \<Rightarrow> (nt\<lparr>n_out := (n_out nt)(fd := n_out nt fd @ bs)\<rparr>, int (length bs))
      | Accept k # es \<Rightarrow>
          (nt\<lparr>n_tx := (n_tx nt)(fd := es), n_out := (n_out nt)(fd := n_out nt fd @ take k bs)\<rparr>, int (min k (length bs)))
      | TWait d # es \<Rightarrow> (nt\<lparr>n_tx := (n_tx nt)(fd := es), n_again := True\<rparr>, - 1)
      | TErr # es \<Rightarrow> (nt\<lparr>n_tx := (n_tx nt)(fd := es), n_again := False\<rparr>, - 1))"

definition tcp_splice_f ::
  "net \<Rightarrow> tcp_env \<Rightarrow> 'a HevSocks5SessionTCP_scheme \<Rightarrow> net \<times> tcp_env \<times> 'a HevSocks5SessionTCP_scheme \<times> int" where
  "tcp_splice_f nt env self =
     (let iov = take 64 (q_queue self) in
      if iov \<noteq> [] then
        (case sys_writev nt (s_fd self) (concat iov) of (nt, s) \<Rightarrow>
         if s \<le> 0 then (nt, env, self, if s < 0 \<and> n_again nt then 0 else - 1)
         else let q = pbuf_free_header (q_queue self) (nat s) in
           (nt\<lparr>n_live := n_live nt - int (length (q_queue self) - length q)\<rparr>,
            if q_pcb self then env\<lparr>e_pcb := tcp_recved (nat s) (e_pcb env)\<rparr> else env,
            self\<lparr>q_queue := q\<rparr>, 1))
      else if q_eof self then (nt, env\<lparr>e_fin := True\<rparr>, self, - 1)
      else (nt, env, self, 0))"

section \<open>To the application\<close>

text \<open>The two loops over the vectors.\<close>

fun write_iov :: "tcp_pcb \<Rightarrow> bytes list \<Rightarrow> tcp_pcb \<times> bool" where
  "write_iov pcb [] = (pcb, True)"
| "write_iov pcb (v # vs) = (case tcp_write pcb v of (pcb, ok) \<Rightarrow> case write_iov pcb vs of (pcb, oks) \<Rightarrow> (pcb, ok \<and> oks))"

text \<open>\<open>readv\<close> into the free part of the buffer.\<close>

definition tcp_receive :: "net \<Rightarrow> int \<Rightarrow> HevRingBuffer \<Rightarrow> net \<times> HevRingBuffer \<times> int" where
  "tcp_receive nt fd b =
     (let iov = hev_ring_buffer_writing b in
      if iov \<noteq> [] then
        (case task_recv False True 0 nt fd (iov_size iov) of (nt, bs, s) \<Rightarrow>
         if s \<le> 0 then (nt, b, if s < 0 \<and> n_again nt then 0 else - 1)
         else (nt, rb_push b bs, 1))
      else (nt, b, 0))"

definition tcp_splice_b ::
  "net \<Rightarrow> tcp_env \<Rightarrow> 'a HevSocks5SessionTCP_scheme \<Rightarrow> (net \<times> tcp_env \<times> 'a HevSocks5SessionTCP_scheme \<times> int) option" where
  "tcp_splice_b nt env self = do {
     b \<leftarrow> q_buffer self;
     let (nt, b, res) = tcp_receive nt (s_fd self) b;
     if \<not> q_pcb self then Some (nt, env, self\<lparr>q_buffer := Some b\<rparr>, - 1)
     else let iov = hev_ring_buffer_reading b in
     if iov \<noteq> [] then
       (case write_iov (e_pcb env) (map (\<lambda>(off, len). take len (drop off (rb_data b))) iov) of (pcb, ok) \<Rightarrow>
        case tcp_result pcb of (pcb, ok') \<Rightarrow>
        Some (nt, env\<lparr>e_pcb := pcb\<rparr>, self\<lparr>q_buffer := Some (hev_ring_buffer_read_finish b (iov_size iov))\<rparr>,
              if ok \<and> ok' then 1 else - 1))
     else Some (nt, (if res < 0 then env\<lparr>e_pcb := (e_pcb env)\<lparr>tp_shut := True\<rparr>\<rparr> else env), self\<lparr>q_buffer := Some b\<rparr>, res) }"

section \<open>The handlers\<close>

text \<open>The second component: \<open>ERR_OK\<close>, as opposed to \<open>ERR_WOULDBLOCK\<close>.\<close>

definition tcp_recv_handler :: "'a HevSocks5SessionTCP_scheme \<Rightarrow> bytes list option \<Rightarrow> 'a HevSocks5SessionTCP_scheme \<times> bool" where
  "tcp_recv_handler self p =
     (case p of
        Some p \<Rightarrow>
          if q_queue self = [] then (self\<lparr>q_queue := p\<rparr>, True)
          else if tot_len (q_queue self) > TCP_WND then (self, False)
          else (self\<lparr>q_queue := q_queue self @ p\<rparr>, True)
      | None \<Rightarrow> (self\<lparr>q_eof := True\<rparr>, True))"

definition tcp_sent_handler :: "'a HevSocks5SessionTCP_scheme \<Rightarrow> nat \<Rightarrow> 'a HevSocks5SessionTCP_scheme option" where
  "tcp_sent_handler self len = do {
     b \<leftarrow> q_buffer self;
     Some (self\<lparr>q_buffer := Some (hev_ring_buffer_read_release b len)\<rparr>) }"

definition tcp_err_handler :: "'a HevSocks5SessionTCP_scheme \<Rightarrow> 'a HevSocks5SessionTCP_scheme" where
  "tcp_err_handler self = hev_socks5_set_timeout (self\<lparr>q_pcb := False\<rparr>) 0"

text \<open>What the stack calls the handlers for. It stays inside the receive window it advertises,
  acknowledges only what it was given, and is silent after an error or, on the receiving
  side, after the end; an event against that does not happen. The stack allocates the segments it delivers.\<close>

datatype tcp_event = Recv "bytes list" | RecvEof | Sent nat | Err

definition tcp_event ::
  "tcp_event \<Rightarrow> net \<Rightarrow> tcp_env \<Rightarrow> 'a HevSocks5SessionTCP_scheme \<Rightarrow> (net \<times> tcp_env \<times> 'a HevSocks5SessionTCP_scheme) option" where
  "tcp_event ev nt env self =
     (if \<not> q_pcb self then Some (nt, env, self)
      else let pcb = e_pcb env in
      case ev of
        Recv p \<Rightarrow>
          if p = [] \<or> q_eof self \<or> length (tp_delivered pcb) + length (concat p) > tp_recved pcb + TCP_WND then Some (nt, env, self)
          else (case tcp_recv_handler self (Some p) of (self, ok) \<Rightarrow>
            if ok then Some (nt\<lparr>n_live := n_live nt + int (length p)\<rparr>, env\<lparr>e_pcb := pcb\<lparr>tp_delivered := tp_delivered pcb @ concat p\<rparr>\<rparr>, self)
            else Some (nt, env, self))
      | RecvEof \<Rightarrow> Some (nt, env, fst (tcp_recv_handler self None))
      | Sent n \<Rightarrow>
          if n > length (tp_written pcb) - tp_acked pcb \<or> n \<ge> 65536 then Some (nt, env, self)
          else do { self \<leftarrow> tcp_sent_handler self n; Some (nt, env\<lparr>e_pcb := pcb\<lparr>tp_acked := tp_acked pcb + n\<rparr>\<rparr>, self) }
      | Err \<Rightarrow> Some (nt, env, tcp_err_handler self))"

fun tcp_events ::
  "tcp_event list \<Rightarrow> net \<Rightarrow> tcp_env \<Rightarrow> 'a HevSocks5SessionTCP_scheme \<Rightarrow> (net \<times> tcp_env \<times> 'a HevSocks5SessionTCP_scheme) option" where
  "tcp_events [] nt env self = Some (nt, env, self)"
| "tcp_events (ev # evs) nt env self = do { (nt, env, self) \<leftarrow> tcp_event ev nt env self; tcp_events evs nt env self }"

section \<open>The splicer\<close>

text \<open>Yielding: a turn of the environment is the delay until the task runs again and the events
  meanwhile; when there is no turn left, nothing happens until the time is up.\<close>

type_synonym tcp_turn = "nat \<times> tcp_event list"

definition session_tcp_yielder ::
  "int \<Rightarrow> HevTaskYieldType \<Rightarrow> tcp_turn list \<Rightarrow> net \<Rightarrow> tcp_env \<Rightarrow> 'a HevSocks5SessionTCP_scheme \<Rightarrow>
   (net \<times> tcp_env \<times> 'a HevSocks5SessionTCP_scheme \<times> int) option" where
  "session_tcp_yielder max_session_count type ts nt env self =
     (case (case ts of [] \<Rightarrow> (nat (s_timeout self), []) | t # _ \<Rightarrow> t) of (d, evs) \<Rightarrow>
      let res = hev_socks5_task_io_yielder type (s_timeout self) d in do {
        (nt, env, self) \<leftarrow> tcp_events evs nt env self;
        ss \<leftarrow> hev_socks5_tunnel_update_session max_session_count (e_set env) (q_node self);
        Some (nt, env\<lparr>e_set := ss\<rparr>, self, res) })"

fun tcp_splice_loop ::
  "nat \<Rightarrow> int \<Rightarrow> tcp_turn list \<Rightarrow> int \<Rightarrow> int \<Rightarrow> net \<Rightarrow> tcp_env \<Rightarrow> 'a HevSocks5SessionTCP_scheme \<Rightarrow>
   (tcp_turn list \<times> net \<times> tcp_env \<times> 'a HevSocks5SessionTCP_scheme) run" where
  "tcp_splice_loop 0 mx ts res_f res_b nt env self = Unfinished"
| "tcp_splice_loop (Suc k) mx ts res_f res_b nt env self =
     (case (if res_f \<ge> 0 then tcp_splice_f nt env self else (nt, env, self, res_f)) of (nt, env, self, res_f) \<Rightarrow>
      case (if res_b \<ge> 0 then tcp_splice_b nt env self else Some (nt, env, self, res_b)) of
        None \<Rightarrow> Undefined
      | Some (nt, env, self, res_b) \<Rightarrow>
     if res_f > 0 \<or> res_b > 0 \<or> res_f = 0 \<or> res_b = 0 then
       (case session_tcp_yielder mx (if res_f > 0 \<or> res_b > 0 then HEV_TASK_YIELD else HEV_TASK_WAITIO) ts nt env self of
          None \<Rightarrow> Undefined
        | Some (nt, env, self, res) \<Rightarrow>
          if res < 0 then Finished (drop 1 ts, nt, env, self)
          else tcp_splice_loop k mx (drop 1 ts) res_f res_b nt env self)
     else Finished (ts, nt, env, self))"

text \<open>After the loop the session stays until the application has acknowledged the whole buffer.\<close>

fun tcp_drain_loop ::
  "nat \<Rightarrow> int \<Rightarrow> tcp_turn list \<Rightarrow> net \<Rightarrow> tcp_env \<Rightarrow> 'a HevSocks5SessionTCP_scheme \<Rightarrow> (net \<times> tcp_env \<times> 'a HevSocks5SessionTCP_scheme) run" where
  "tcp_drain_loop 0 mx ts nt env self = Unfinished"
| "tcp_drain_loop (Suc k) mx ts nt env self =
     (if \<not> q_pcb self then Finished (nt, env, self)
      else case q_buffer self of None \<Rightarrow> Undefined
      | Some b \<Rightarrow>
        if hev_ring_buffer_get_use_size b = 0 then Finished (nt, env, self)
        else case session_tcp_yielder mx HEV_TASK_WAITIO ts nt env self of
          None \<Rightarrow> Undefined
        | Some (nt, env, self, res) \<Rightarrow>
          if res < 0 then Finished (nt, env, self) else tcp_drain_loop k mx (drop 1 ts) nt env self)"

text \<open>\<open>stale\<close> is what the stack memory of the buffer held.\<close>

definition hev_socks5_session_tcp_splice ::
  "nat \<Rightarrow> nat \<Rightarrow> bytes \<Rightarrow> int \<Rightarrow> tcp_turn list \<Rightarrow> net \<Rightarrow> tcp_env \<Rightarrow> 'a HevSocks5SessionTCP_scheme \<Rightarrow>
   (net \<times> tcp_env \<times> 'a HevSocks5SessionTCP_scheme) run" where
  "hev_socks5_session_tcp_splice fuel tcp_buffer_size stale mx ts nt env self =
     (if \<not> q_pcb self then Finished (nt, env, self)
      else case tcp_splice_loop fuel mx ts 1 1 nt env (self\<lparr>q_buffer := Some (hev_ring_buffer_alloca tcp_buffer_size stale)\<rparr>) of
        Finished (ts, nt, env, self) \<Rightarrow> tcp_drain_loop fuel mx ts nt env self
      | Undefined \<Rightarrow> Undefined
      | Unfinished \<Rightarrow> Unfinished)"

section \<open>Construction and destruction\<close>

definition zero_session_tcp :: HevSocks5SessionTCP where
  "zero_session_tcp = \<lparr>s_fd = 0, s_timeout = 0, s_udp_associated = False, s_type = TYPE_NONE, s_addr_family = FAMILY_UNSPEC,
     c_user = None, c_pass = None, t_addr = None, q_node = 0, q_queue = [], q_pcb = False, q_buffer = None, q_eof = False\<rparr>"

text \<open>\<open>buf\<close> is the uninitialised address; \<open>ip\<close> and \<open>port\<close> are the local ones of the control block.\<close>

definition hev_socks5_session_tcp_construct ::
  "HevMappedDNS option \<Rightarrow> bytes \<Rightarrow> ip_addr \<Rightarrow> u16 \<Rightarrow> net \<Rightarrow> 'a HevSocks5SessionTCP_scheme \<Rightarrow>
   (HevMappedDNS option \<times> net \<times> 'a HevSocks5SessionTCP_scheme \<times> int) option" where
  "hev_socks5_session_tcp_construct dns buf ip port nt self = do {
     (dns, addr, res) \<leftarrow> hev_socks5_addr_from_lwip dns buf ip port;
     if res < 0 then Some (dns, nt, self, - 1)
     else case hev_socks5_client_tcp_construct nt self addr of (nt, self, res) \<Rightarrow>
       if res < 0 then Some (dns, nt, self, - 1) else Some (dns, nt, self\<lparr>q_pcb := True\<rparr>, 0) }"

definition hev_socks5_session_tcp_new ::
  "HevMappedDNS option \<Rightarrow> bytes \<Rightarrow> ip_addr \<Rightarrow> u16 \<Rightarrow> net \<Rightarrow> (HevMappedDNS option \<times> net \<times> HevSocks5SessionTCP option) option" where
  "hev_socks5_session_tcp_new dns buf ip port nt =
     (case hev_malloc nt of (nt, ok) \<Rightarrow>
      if \<not> ok then Some (dns, nt, None)
      else do {
        (dns, nt, self, res) \<leftarrow> hev_socks5_session_tcp_construct dns buf ip port nt zero_session_tcp;
        if res < 0 then Some (dns, hev_free nt, None) else Some (dns, nt, Some self) })"

definition hev_socks5_session_tcp_destruct :: "net \<Rightarrow> tcp_env \<Rightarrow> 'a HevSocks5SessionTCP_scheme \<Rightarrow> net \<times> tcp_env" where
  "hev_socks5_session_tcp_destruct nt env self =
     (hev_socks5_client_tcp_destruct (nt\<lparr>n_live := n_live nt - int (length (q_queue self))\<rparr>) self,
      if q_pcb self then env\<lparr>e_pcb := (e_pcb env)\<lparr>tp_aborted := True\<rparr>\<rparr> else env)"

end
