(* ===== verification/SessionTCPProps.thy ===== *)
theory SessionTCPProps
  imports SessionTCP
begin

text \<open>
  What a TCP session promises: the splicer returns, both byte streams pass through it in order and without loss, the
  receive window is credited with exactly the bytes passed on, and closing one direction waits for its bytes.
  The invariant \<open>tcp_ok\<close> ties the queue and the ring buffer to the streams; every part of a turn keeps it, and the
  weight of the bytes still to come bounds the number of turns.
\<close>

section \<open>The parts\<close>

lemma pbuf_free_loop_concat: "concat (pbuf_free_loop n q) = drop n (concat q)"
  by (induction n q rule: pbuf_free_loop.induct) auto

lemma pbuf_free_loop_length: "length (pbuf_free_loop n q) \<le> length q"
  by (induction n q rule: pbuf_free_loop.induct) auto

text \<open>All bytes that are still to come on a connection.\<close>

fun rx_bytes :: "rxev list \<Rightarrow> bytes" where
  "rx_bytes [] = []"
| "rx_bytes (Chunk bs # es) = bs @ rx_bytes es"
| "rx_bytes (_ # es) = rx_bytes es"

lemma recv_loop_bytes:
  assumes "recv_loop False dw t n [] ag es = (es', bs, r, ag')"
  shows "(dw \<longrightarrow> rx_bytes es = bs @ rx_bytes es') \<and> length bs \<le> n \<and> (0 < r \<longrightarrow> r = int (length bs)) \<and>
    (r \<le> 0 \<longrightarrow> bs = []) \<and> rx_size es' + length bs \<le> rx_size es"
  using assms
proof (induction "False" dw t n "[] :: bytes" ag es rule: recv_loop.induct)
  case (5 dw t len ag bs0 es)
  show ?case
  proof (cases "bs0 = []")
    case True
    then show ?thesis using 5 by auto
  next
    case False
    have "take (min len (length bs0)) bs0 @ (if len < length bs0 then drop len bs0 else []) = bs0" by (auto simp: min_def)
    then show ?thesis using "5.prems" False by (auto simp: Let_def min_def split: if_splits)
  qed
qed (auto simp: partial_def split: if_splits)

lemma readv_bytes:
  assumes "task_recv False True t nt fd n = (nt', bs, r)"
  shows "rx_bytes (n_rx nt fd) = bs @ rx_bytes (n_rx nt' fd) \<and> length bs \<le> n \<and> (0 < r \<longrightarrow> r = int (length bs)) \<and>
    (r \<le> 0 \<longrightarrow> bs = []) \<and> rx_size (n_rx nt' fd) + length bs \<le> rx_size (n_rx nt fd) \<and>
    n_out nt' = n_out nt \<and> n_tx nt' = n_tx nt \<and> n_live nt' = n_live nt"
  using assms recv_loop_bytes [of True t n "n_again nt" "n_rx nt fd"]
  by (auto simp: task_recv_def split: prod.splits)

lemma writev_prefix:
  assumes "sys_writev nt fd bs = (nt', r)"
  shows "(r \<le> 0 \<longrightarrow> n_out nt' = n_out nt) \<and> (0 < r \<longrightarrow> nat r \<le> length bs \<and> n_out nt' = (n_out nt)(fd := n_out nt fd @ take (nat r) bs)) \<and>
    n_rx nt' = n_rx nt \<and> n_live nt' = n_live nt"
  using assms by (auto simp: sys_writev_def min_def fun_upd_idem split: list.splits txev.splits if_splits)

lemma reading_size:
  assumes "rb_inv b"
  shows "iov_size (hev_ring_buffer_reading b) = rda_size b" "(hev_ring_buffer_reading b = []) = (rda_size b = 0)"
    "\<forall>(off, len) \<in> set (hev_ring_buffer_reading b). len \<le> max_size b"
proof -
  note v = rb_invD [OF assms]
  have up: "sz_sub (max_size b) (rp b) = max_size b - rp b" using v by simp
  have lo: "sz_sub (rda_size b) (max_size b - rp b) = rda_size b - (max_size b - rp b)" if "\<not> rda_size b \<le> max_size b - rp b"
    using v that by simp
  show "iov_size (hev_ring_buffer_reading b) = rda_size b" "(hev_ring_buffer_reading b = []) = (rda_size b = 0)"
    "\<forall>(off, len) \<in> set (hev_ring_buffer_reading b). len \<le> max_size b"
    using v up lo by (auto simp: hev_ring_buffer_reading_def Let_def iov_size_def)
qed

lemma write_iov_ok:
  assumes "False \<notin> set (tp_results pcb)" "\<forall>v \<in> set vs. length v < 65536"
  shows "\<exists>rs. write_iov pcb vs = (pcb\<lparr>tp_written := tp_written pcb @ concat vs, tp_results := rs\<rparr>, True) \<and> (False \<notin> set rs)"
  using assms
proof (induction vs arbitrary: pcb)
  case Nil
  then show ?case by (intro exI [of _ "tp_results pcb"]) simp
next
  case (Cons v vs)
  have v: "take (length v mod 65536) v = v" using Cons.prems(2) by simp
  obtain rs where w: "tcp_write pcb v = (pcb\<lparr>tp_written := tp_written pcb @ v, tp_results := rs\<rparr>, True)" "False \<notin> set rs"
  proof (cases "tp_results pcb")
    case Nil
    then show ?thesis using that [of "[]"] v by (simp add: tcp_write_def tcp_result_def)
  next
    case (Cons r rs)
    then have "r = True" "False \<notin> set rs" using Cons.prems(1) by auto
    then show ?thesis using that [of rs] v Cons by (simp add: tcp_write_def tcp_result_def)
  qed
  then show ?case using Cons.IH [of "pcb\<lparr>tp_written := tp_written pcb @ v, tp_results := rs\<rparr>"] Cons.prems(2) by auto
qed

lemma tcp_result_ok:
  assumes "False \<notin> set (tp_results pcb)"
  shows "\<exists>rs. tcp_result pcb = (pcb\<lparr>tp_results := rs\<rparr>, True) \<and> (False \<notin> set rs)"
proof (cases "tp_results pcb")
  case Nil
  then show ?thesis by (intro exI [of _ "[]"]) (simp add: tcp_result_def)
next
  case (Cons r rs)
  then have "r = True" "False \<notin> set rs" using assms by auto
  then show ?thesis using Cons by (intro exI [of _ rs]) (simp add: tcp_result_def)
qed

section \<open>The invariant\<close>

text \<open>With \<open>out\<close> the bytes written to the server and \<open>srv\<close> the bytes the server sends in all, counted
  from some point in time, and \<open>live\<close> the allocations that are not segments of the queue.\<close>

definition forward_ok :: "bytes \<Rightarrow> net \<Rightarrow> tcp_env \<Rightarrow> 'a HevSocks5SessionTCP_scheme \<Rightarrow> bool" where
  "forward_ok out nt env self \<longleftrightarrow>
     n_out nt (s_fd self) @ concat (q_queue self) = out @ tp_delivered (e_pcb env) \<and>
     length (concat (q_queue self)) \<le> TCP_WND \<and>
     (q_pcb self \<longrightarrow> tp_recved (e_pcb env) + length (concat (q_queue self)) = length (tp_delivered (e_pcb env))) \<and>
     (e_fin env \<longrightarrow> q_queue self = [] \<and> q_eof self)"

definition backward_ok :: "bytes \<Rightarrow> net \<Rightarrow> tcp_env \<Rightarrow> 'a HevSocks5SessionTCP_scheme \<Rightarrow> HevRingBuffer \<Rightarrow> bool" where
  "backward_ok srv nt env self b \<longleftrightarrow> rb_inv b \<and> max_size b < 65536 \<and> (False \<notin> set (tp_results (e_pcb env))) \<and>
     tp_written (e_pcb env) @ rb_readable b @ rx_bytes (n_rx nt (s_fd self)) = srv \<and>
     (q_pcb self \<longrightarrow> tp_acked (e_pcb env) \<le> length (tp_written (e_pcb env)) \<and> rb_inflight b = drop (tp_acked (e_pcb env)) (tp_written (e_pcb env))) \<and>
     (tp_shut (e_pcb env) \<longrightarrow> rb_readable b = [])"

definition tcp_ok :: "bytes \<Rightarrow> bytes \<Rightarrow> int \<Rightarrow> net \<Rightarrow> tcp_env \<Rightarrow> 'a HevSocks5SessionTCP_scheme \<Rightarrow> bool" where
  "tcp_ok out srv live nt env self \<longleftrightarrow> forward_ok out nt env self \<and> (\<exists>b. q_buffer self = Some b \<and> backward_ok srv nt env self b) \<and>
     n_live nt - int (length (q_queue self)) = live"

lemma take_drop_prefix: "n \<le> length a \<Longrightarrow> take n a @ drop n (a @ b) = a @ b"
  by simp

lemma splice_f_ok:
  assumes "tcp_splice_f nt env self = (nt', env', self', r)" "tcp_ok out srv live nt env self"
  shows "tcp_ok out srv live nt' env' self' \<and> s_fd self' = s_fd self \<and> s_timeout self' = s_timeout self \<and> q_node self' = q_node self \<and>
    q_pcb self' = q_pcb self \<and> q_buffer self' = q_buffer self \<and> e_set env' = e_set env \<and> n_rx nt' = n_rx nt \<and> tp_shut (e_pcb env') = tp_shut (e_pcb env) \<and>
    length (concat (q_queue self')) \<le> length (concat (q_queue self)) \<and> (0 < r \<longrightarrow> length (concat (q_queue self')) < length (concat (q_queue self)))"
proof (cases "take 64 (q_queue self) = []")
  case True
  then have q: "q_queue self = []" by simp
  have e: "nt' = nt" "self' = self" "r \<le> 0" "env' = (if q_eof self then env\<lparr>e_fin := True\<rparr> else env)"
    using assms(1) q by (auto simp: tcp_splice_f_def split: if_splits)
  have "tcp_ok out srv live nt env' self" using assms(2) q unfolding e(4) tcp_ok_def forward_ok_def backward_ok_def
    by (cases "q_eof self"; cases "e_fin env") simp_all
  then show ?thesis using e by simp
next
  case False
  let ?q = "q_queue self" and ?iov = "concat (take 64 (q_queue self))" and ?fd = "s_fd self"
  obtain nt1 s where w: "sys_writev nt ?fd ?iov = (nt1, s)" by (rule prod.exhaust)
  note p = writev_prefix [OF w]
  show ?thesis
  proof (cases "s \<le> 0")
    case True
    have e: "nt' = nt1" "env' = env" "self' = self" "r \<le> 0" using assms(1) False w True by (auto simp: tcp_splice_f_def split: if_splits)
    have "tcp_ok out srv live nt1 env self" using assms(2) p True unfolding tcp_ok_def forward_ok_def backward_ok_def by simp
    then show ?thesis using e p by simp
  next
    case pos: False
    let ?q' = "pbuf_free_header ?q (nat s)"
    have cat: "concat ?q = ?iov @ concat (drop 64 ?q)" by (simp only: concat_append [symmetric] append_take_drop_id)
    have s: "0 < nat s" "nat s \<le> length ?iov" "length ?iov \<le> length (concat ?q)" using p pos cat by auto
    have small: "nat s < 65536" using s assms(2) by (auto simp: tcp_ok_def forward_ok_def TCP_WND_def)
    have q': "concat ?q' = drop (nat s) (concat ?q)" "length ?q' \<le> length ?q"
      using small pbuf_free_loop_concat pbuf_free_loop_length by (simp_all add: pbuf_free_header_def)
    have tk: "take (nat s) ?iov @ drop (nat s) (concat ?q) = concat ?q" unfolding cat by (rule take_drop_prefix [OF s(2)])
    have e: "nt' = nt1\<lparr>n_live := n_live nt1 - int (length ?q - length ?q')\<rparr>" "self' = self\<lparr>q_queue := ?q'\<rparr>" "r = 1"
      "env' = (if q_pcb self then env\<lparr>e_pcb := tcp_recved (nat s) (e_pcb env)\<rparr> else env)"
      using assms(1) False w pos by (auto simp: tcp_splice_f_def Let_def)
    have fin: "\<not> e_fin env" using assms(2) False by (auto simp: tcp_ok_def forward_ok_def)
    have "forward_ok out nt' env' self'"
      using assms(2) p pos q' tk s small fin unfolding e by (auto simp: tcp_ok_def forward_ok_def tcp_recved_def)
    moreover have "\<exists>b. q_buffer self' = Some b \<and> backward_ok srv nt' env' self' b"
      using assms(2) p unfolding e by (auto simp: tcp_ok_def backward_ok_def tcp_recved_def)
    moreover have "n_live nt' - int (length (q_queue self')) = live"
      using assms(2) p q'(2) unfolding e by (auto simp: tcp_ok_def of_nat_diff)
    ultimately show ?thesis using e p q' s by (auto simp: tcp_ok_def tcp_recved_def)
  qed
qed

lemma gather_map: "concat (map (\<lambda>(off, len). take len (drop off d)) iov) = gather d iov"
  by (simp add: gather_def)

text \<open>Handing everything readable to the stack.\<close>

lemma hand_out_ok:
  assumes "rb_inv b" "max_size b < 65536" "False \<notin> set (tp_results pcb)"
  shows "\<exists>rs. (case write_iov pcb (map (\<lambda>(off, len). take len (drop off (rb_data b))) (hev_ring_buffer_reading b)) of (pcb, ok) \<Rightarrow>
      case tcp_result pcb of (pcb, ok') \<Rightarrow> (pcb, ok \<and> ok')) =
      (pcb\<lparr>tp_written := tp_written pcb @ rb_readable b, tp_results := rs\<rparr>, True) \<and> (False \<notin> set rs)"
proof -
  let ?vs = "map (\<lambda>(off, len). take len (drop off (rb_data b))) (hev_ring_buffer_reading b)"
  have "\<forall>v \<in> set ?vs. length v < 65536" using reading_size(3) [OF assms(1)] assms(2) by fastforce
  then obtain rs where w: "write_iov pcb ?vs = (pcb\<lparr>tp_written := tp_written pcb @ rb_readable b, tp_results := rs\<rparr>, True)" "False \<notin> set rs"
    using write_iov_ok [OF assms(3), of ?vs] unfolding gather_map rb_gather_reading [OF assms(1)] by blast
  obtain rs' where "tcp_result (pcb\<lparr>tp_written := tp_written pcb @ rb_readable b, tp_results := rs\<rparr>) =
      (pcb\<lparr>tp_written := tp_written pcb @ rb_readable b, tp_results := rs'\<rparr>, True)" "False \<notin> set rs'"
    using tcp_result_ok [of "pcb\<lparr>tp_written := tp_written pcb @ rb_readable b, tp_results := rs\<rparr>"] w(2) by auto
  then show ?thesis using w by auto
qed

lemma reading_nil: "rb_inv b \<Longrightarrow> hev_ring_buffer_reading b = [] \<longleftrightarrow> rb_readable b = []"
  using reading_size(2) [of b] rb_lengths(1) [of b] by (metis length_0_conv)

lemma hand_out_ring:
  assumes "rb_inv b"
  shows "rb_inv (hev_ring_buffer_read_finish b (rda_size b))" "rb_readable (hev_ring_buffer_read_finish b (rda_size b)) = []"
    "rb_inflight (hev_ring_buffer_read_finish b (rda_size b)) = rb_inflight b @ rb_readable b"
    "max_size (hev_ring_buffer_read_finish b n) = max_size b"
  using rb_read_finish_inv [OF assms, of "rda_size b"] rb_read_finish_abs [OF assms, of "rda_size b"] assms
  by (simp_all add: hev_ring_buffer_read_finish_def)

text \<open>The receiving half of \<open>tcp_splice_b\<close>.\<close>

lemma receive_ok:
  assumes "backward_ok srv nt env self b"
    and "tcp_receive nt (s_fd self) b = (nt', b', r)"
  shows "rb_inv b' \<and> max_size b' = max_size b \<and> rb_inflight b' = rb_inflight b \<and>
    rb_readable b' @ rx_bytes (n_rx nt' (s_fd self)) = rb_readable b @ rx_bytes (n_rx nt (s_fd self)) \<and>
    n_out nt' = n_out nt \<and> n_live nt' = n_live nt \<and> r \<le> 1 \<and>
    rx_size (n_rx nt' (s_fd self)) \<le> rx_size (n_rx nt (s_fd self)) \<and>
    (if 0 < r then rx_size (n_rx nt' (s_fd self)) < rx_size (n_rx nt (s_fd self)) \<and> rb_readable b' \<noteq> [] else b' = b)"
proof (cases "hev_ring_buffer_writing b = []")
  case True
  then have "nt' = nt" "b' = b" "r = 0" using assms(2) by (simp_all add: tcp_receive_def)
  then show ?thesis using assms(1) by (simp add: backward_ok_def)
next
  case False
  have inv: "rb_inv b" using assms(1) by (simp add: backward_ok_def)
  obtain nt1 bs s where 1: "task_recv False True 0 nt (s_fd self) (iov_size (hev_ring_buffer_writing b)) = (nt1, bs, s)" by (rule prod_cases3)
  note v = readv_bytes [OF 1]
  have len: "length bs \<le> rb_free b" using v rb_writing_size [OF inv] by simp
  show ?thesis
  proof (cases "s \<le> 0")
    case True
    have "nt' = nt1" "b' = b" "r \<le> 0" using assms(2) False 1 True by (auto simp: tcp_receive_def split: if_splits)
    then show ?thesis using v True inv by simp
  next
    case pos: False
    have e: "nt' = nt1" "b' = rb_push b bs" "r = 1" using assms(2) False 1 pos by (auto simp: tcp_receive_def)
    have "bs \<noteq> []" "0 < length bs" using v pos by auto
    moreover have "max_size (rb_push b bs) = max_size b" by (simp add: rb_push_def hev_ring_buffer_write_finish_def)
    ultimately show ?thesis unfolding e using rb_push_inv [OF inv len] rb_push_abs [OF inv len] v by (cases bs) auto
  qed
qed

text \<open>A byte read counts twice, bytes that wait to be handed out once.\<close>

definition weight :: "net \<Rightarrow> 'a HevSocks5SessionTCP_scheme \<Rightarrow> nat" where
  "weight nt self = 2 * rx_size (n_rx nt (s_fd self)) + (if rb_readable (the (q_buffer self)) = [] then 0 else 1)"

lemma splice_b_ok:
  assumes "tcp_ok out srv live nt env self" "\<not> tp_shut (e_pcb env)"
  shows "\<exists>nt' env' self' r. tcp_splice_b nt env self = Some (nt', env', self', r) \<and> tcp_ok out srv live nt' env' self' \<and>
    s_fd self' = s_fd self \<and> s_timeout self' = s_timeout self \<and> q_node self' = q_node self \<and> q_pcb self' = q_pcb self \<and> q_queue self' = q_queue self \<and>
    e_set env' = e_set env \<and> (tp_shut (e_pcb env') \<longrightarrow> r < 0) \<and> weight nt' self' \<le> weight nt self \<and> (0 < r \<longrightarrow> weight nt' self' < weight nt self)"
proof -
  obtain b where b: "q_buffer self = Some b" "backward_ok srv nt env self b" using assms(1) by (auto simp: tcp_ok_def)
  obtain nt1 b1 r1 where 1: "tcp_receive nt (s_fd self) b = (nt1, b1, r1)" by (rule prod_cases3)
  note k = receive_ok [OF b(2) 1]
  have fw: "forward_ok out nt1 env self" "n_live nt1 - int (length (q_queue self)) = live"
    using assms(1) k by (auto simp: tcp_ok_def forward_ok_def)
  show ?thesis
  proof (cases "q_pcb self")
    case False
    have "tcp_splice_b nt env self = Some (nt1, env, self\<lparr>q_buffer := Some b1\<rparr>, - 1)"
      using b(1) False by (simp add: tcp_splice_b_def 1)
    moreover have "backward_ok srv nt1 env (self\<lparr>q_buffer := Some b1\<rparr>) b1" using b(2) k False assms(2) by (simp add: backward_ok_def)
    moreover have "weight nt1 (self\<lparr>q_buffer := Some b1\<rparr>) \<le> weight nt self" using k b(1) by (auto simp: weight_def split: if_splits)
    ultimately show ?thesis using fw False assms(2) by (simp add: tcp_ok_def forward_ok_def)
  next
    case pcb: True
    show ?thesis
    proof (cases "hev_ring_buffer_reading b1 = []")
      case True
      let ?env = "if r1 < 0 then env\<lparr>e_pcb := (e_pcb env)\<lparr>tp_shut := True\<rparr>\<rparr> else env"
      have e: "tcp_splice_b nt env self = Some (nt1, ?env, self\<lparr>q_buffer := Some b1\<rparr>, r1)"
        using b(1) pcb True by (simp add: tcp_splice_b_def 1)
      have rd: "rb_readable b1 = []" using True reading_nil [of b1] k by blast
      have "backward_ok srv nt1 ?env (self\<lparr>q_buffer := Some b1\<rparr>) b1" using b(2) k rd pcb by (simp add: backward_ok_def)
      moreover have "forward_ok out nt1 ?env (self\<lparr>q_buffer := Some b1\<rparr>)" using fw(1) by (simp add: forward_ok_def)
      moreover have "\<not> 0 < r1" using k rd by (auto split: if_splits)
      moreover have "weight nt1 (self\<lparr>q_buffer := Some b1\<rparr>) \<le> weight nt self" using k rd b(1) by (simp add: weight_def)
      ultimately show ?thesis using e fw(2) assms(2) by (simp add: tcp_ok_def)
    next
      case False
      obtain rs where w: "(case write_iov (e_pcb env) (map (\<lambda>(off, len). take len (drop off (rb_data b1))) (hev_ring_buffer_reading b1)) of (pcb, ok) \<Rightarrow>
          case tcp_result pcb of (pcb, ok') \<Rightarrow> (pcb, ok \<and> ok')) =
          ((e_pcb env)\<lparr>tp_written := tp_written (e_pcb env) @ rb_readable b1, tp_results := rs\<rparr>, True)" "False \<notin> set rs"
        using hand_out_ok [of b1 "e_pcb env"] k b(2) by (auto simp: backward_ok_def)
      let ?pcb = "(e_pcb env)\<lparr>tp_written := tp_written (e_pcb env) @ rb_readable b1, tp_results := rs\<rparr>"
      let ?b = "hev_ring_buffer_read_finish b1 (rda_size b1)"
      have sz: "iov_size (hev_ring_buffer_reading b1) = rda_size b1" using reading_size(1) k by blast
      have e: "tcp_splice_b nt env self = Some (nt1, env\<lparr>e_pcb := ?pcb\<rparr>, self\<lparr>q_buffer := Some ?b\<rparr>, 1)"
        using b(1) pcb False w(1) by (auto simp: tcp_splice_b_def 1 sz split: prod.splits)
      note h = hand_out_ring [of b1]
      have "backward_ok srv nt1 (env\<lparr>e_pcb := ?pcb\<rparr>) (self\<lparr>q_buffer := Some ?b\<rparr>) ?b"
        using b(2) k h w(2) pcb assms(2) by (auto simp: backward_ok_def)
      moreover have "forward_ok out nt1 (env\<lparr>e_pcb := ?pcb\<rparr>) (self\<lparr>q_buffer := Some ?b\<rparr>)" using fw(1) by (simp add: forward_ok_def)
      moreover
      have "rx_size (n_rx nt1 (s_fd self)) < rx_size (n_rx nt (s_fd self)) \<or> rb_readable b \<noteq> []"
        using k False reading_nil [of b1] by (auto split: if_splits)
      then have "weight nt1 (self\<lparr>q_buffer := Some ?b\<rparr>) < weight nt self" using k h(2) b(1) by (auto simp: weight_def)
      ultimately show ?thesis using e fw(2) assms(2) by (simp add: tcp_ok_def)
    qed
  qed
qed

section \<open>Events\<close>

definition tcp_same :: "net \<Rightarrow> tcp_env \<Rightarrow> 'a HevSocks5SessionTCP_scheme \<Rightarrow> net \<Rightarrow> tcp_env \<Rightarrow> 'a HevSocks5SessionTCP_scheme \<Rightarrow> bool" where
  "tcp_same nt env self nt' env' self' \<longleftrightarrow> s_fd self' = s_fd self \<and> q_node self' = q_node self \<and> e_set env' = e_set env \<and>
     tp_shut (e_pcb env') = tp_shut (e_pcb env) \<and> weight nt' self' = weight nt self \<and> (0 \<le> s_timeout self \<longrightarrow> 0 \<le> s_timeout self')"

lemma tcp_same_refl [simp]: "tcp_same nt env self nt env self"
  by (simp add: tcp_same_def)

lemma tot_len_small: "length (concat q) \<le> TCP_WND \<Longrightarrow> \<not> TCP_WND < tot_len q"
  by (simp add: tot_len_def TCP_WND_def)

lemma event_ok:
  assumes "tcp_ok out srv live nt env self"
  shows "\<exists>nt' env' self'. tcp_event ev nt env self = Some (nt', env', self') \<and> tcp_ok out srv live nt' env' self' \<and> tcp_same nt env self nt' env' self'"
proof (cases "q_pcb self")
  case False
  then show ?thesis using assms by (simp add: tcp_event_def)
next
  case pcb: True
  obtain b where b: "q_buffer self = Some b" "backward_ok srv nt env self b" using assms by (auto simp: tcp_ok_def)
  have f: "forward_ok out nt env self" "n_live nt - int (length (q_queue self)) = live" using assms by (simp_all add: tcp_ok_def)
  show ?thesis
  proof (cases ev)
    case (Recv p)
    let ?pcb = "e_pcb env"
    show ?thesis
    proof (cases "p = [] \<or> q_eof self \<or> length (tp_delivered ?pcb) + length (concat p) > tp_recved ?pcb + TCP_WND")
      case True
      then show ?thesis using assms Recv pcb by (simp add: tcp_event_def)
    next
      case False
      let ?self = "self\<lparr>q_queue := q_queue self @ p\<rparr>" and ?env = "env\<lparr>e_pcb := ?pcb\<lparr>tp_delivered := tp_delivered ?pcb @ concat p\<rparr>\<rparr>"
      let ?nt = "nt\<lparr>n_live := n_live nt + int (length p)\<rparr>"
      have "tcp_recv_handler self (Some p) = (?self, True)"
        using tot_len_small f(1) by (auto simp: tcp_recv_handler_def forward_ok_def)
      then have e: "tcp_event ev nt env self = Some (?nt, ?env, ?self)" using Recv pcb False by (simp add: tcp_event_def Let_def)
      have "length (concat (q_queue self)) + length (concat p) \<le> TCP_WND" using False f(1) pcb by (simp add: forward_ok_def)
      then have "forward_ok out ?nt ?env ?self" using f(1) False by (auto simp: forward_ok_def)
      moreover have "backward_ok srv ?nt ?env ?self b" using b(2) by (simp add: backward_ok_def)
      ultimately show ?thesis using e f(2) b(1) by (simp add: tcp_ok_def tcp_same_def weight_def)
    qed
  next
    case RecvEof
    let ?self = "self\<lparr>q_eof := True\<rparr>"
    have "tcp_event ev nt env self = Some (nt, env, ?self)" using RecvEof pcb by (simp add: tcp_event_def tcp_recv_handler_def)
    moreover have "forward_ok out nt env ?self" "backward_ok srv nt env ?self b" using f(1) b(2) by (simp_all add: forward_ok_def backward_ok_def)
    ultimately show ?thesis using f(2) b(1) by (simp add: tcp_ok_def tcp_same_def weight_def)
  next
    case (Sent n)
    let ?pcb = "e_pcb env" and ?b = "hev_ring_buffer_read_release b n"
    show ?thesis
    proof (cases "n > length (tp_written ?pcb) - tp_acked ?pcb \<or> n \<ge> 65536")
      case True
      then show ?thesis using assms Sent pcb by (simp add: tcp_event_def)
    next
      case False
      let ?self = "self\<lparr>q_buffer := Some ?b\<rparr>" and ?env = "env\<lparr>e_pcb := ?pcb\<lparr>tp_acked := tp_acked ?pcb + n\<rparr>\<rparr>"
      have i: "rb_inv b" "rb_inflight b = drop (tp_acked ?pcb) (tp_written ?pcb)" "tp_acked ?pcb \<le> length (tp_written ?pcb)"
        using b(2) pcb by (simp_all add: backward_ok_def)
      have n: "n \<le> use_size b - rda_size b" using False i(2) rb_lengths(2) [of b] by simp
      note r = rb_read_release_inv [OF i(1) n] rb_read_release_abs [OF i(1) n]
      have e: "tcp_event ev nt env self = Some (nt, ?env, ?self)" using Sent pcb False b(1) by (simp add: tcp_event_def tcp_sent_handler_def Let_def)
      have "max_size ?b = max_size b" by (simp add: hev_ring_buffer_read_release_def Let_def)
      then have "backward_ok srv nt ?env ?self ?b" using b(2) r i False by (auto simp: backward_ok_def add.commute)
      moreover have "forward_ok out nt ?env ?self" using f(1) by (simp add: forward_ok_def)
      ultimately show ?thesis using e f(2) b(1) r(2) by (simp add: tcp_ok_def tcp_same_def weight_def)
    qed
  next
    case Err
    let ?self = "self\<lparr>q_pcb := False, s_timeout := 0\<rparr>"
    have "tcp_event ev nt env self = Some (nt, env, ?self)" using Err pcb by (simp add: tcp_event_def tcp_err_handler_def socks5_accessors)
    moreover have "forward_ok out nt env ?self" "backward_ok srv nt env ?self b" using f(1) b(2) by (simp_all add: forward_ok_def backward_ok_def)
    ultimately show ?thesis using f(2) b(1) by (simp add: tcp_ok_def tcp_same_def weight_def)
  qed
qed

lemma events_ok:
  "tcp_ok out srv live nt env self \<Longrightarrow>
   \<exists>nt' env' self'. tcp_events evs nt env self = Some (nt', env', self') \<and> tcp_ok out srv live nt' env' self' \<and> tcp_same nt env self nt' env' self'"
proof (induction evs arbitrary: nt env self)
  case (Cons ev evs)
  obtain nt1 env1 self1 where 1: "tcp_event ev nt env self = Some (nt1, env1, self1)" "tcp_ok out srv live nt1 env1 self1" "tcp_same nt env self nt1 env1 self1"
    using event_ok [OF Cons.prems] by blast
  obtain nt2 env2 self2 where 2: "tcp_events evs nt1 env1 self1 = Some (nt2, env2, self2)" "tcp_ok out srv live nt2 env2 self2" "tcp_same nt1 env1 self1 nt2 env2 self2"
    using Cons.IH [OF 1(2)] by blast
  then show ?case using 1 by (auto simp: tcp_same_def)
qed simp

section \<open>The loops\<close>

definition in_tcp_set :: "int \<Rightarrow> tcp_env \<Rightarrow> 'a HevSocks5SessionTCP_scheme \<Rightarrow> bool" where
  "in_tcp_set mx env self \<longleftrightarrow> mx = 0 \<or> (\<exists>xs. sessions_rep (e_set env) xs \<and> q_node self \<in> set xs)"

lemma update_in_tcp_set:
  assumes "in_tcp_set mx env self"
  shows "\<exists>ss. hev_socks5_tunnel_update_session mx (e_set env) (q_node self) = Some ss \<and> in_tcp_set mx (env\<lparr>e_set := ss\<rparr>) self"
proof (cases "mx = 0")
  case True
  then show ?thesis by (simp add: hev_socks5_tunnel_update_session_def in_tcp_set_def)
next
  case False
  then obtain xs where xs: "sessions_rep (e_set env) xs" "q_node self \<in> set xs" using assms by (auto simp: in_tcp_set_def)
  then obtain ss where "set_step mx (e_set env) (Update (q_node self)) = Some (ss, None)" "sessions_rep ss (remove1 (q_node self) xs @ [q_node self])"
    using set_step_refines [of "e_set env" xs "Update (q_node self)" mx] False by auto
  then show ?thesis by (auto simp: in_tcp_set_def)
qed

lemma tcp_yielder_ok:
  assumes "tcp_ok out srv live nt env self" "in_tcp_set mx env self" "0 \<le> s_timeout self"
  shows "\<exists>nt' env' self' r. session_tcp_yielder mx ty ts nt env self = Some (nt', env', self', r) \<and> tcp_ok out srv live nt' env' self' \<and>
    in_tcp_set mx env' self' \<and> 0 \<le> s_timeout self' \<and> s_fd self' = s_fd self \<and> tp_shut (e_pcb env') = tp_shut (e_pcb env) \<and> weight nt' self' = weight nt self \<and>
    (ts = [] \<longrightarrow> self' = self \<and> (ty = HEV_TASK_WAITIO \<longrightarrow> r < 0))"
proof -
  obtain d evs where t: "(case ts of [] \<Rightarrow> (nat (s_timeout self), []) | t # _ \<Rightarrow> t) = (d, evs)" by (rule prod.exhaust)
  obtain nt1 env1 self1 where 1: "tcp_events evs nt env self = Some (nt1, env1, self1)" "tcp_ok out srv live nt1 env1 self1" "tcp_same nt env self nt1 env1 self1"
    using events_ok [OF assms(1)] by blast
  have m: "in_tcp_set mx env1 self1" using assms(2) 1(3) by (auto simp: in_tcp_set_def tcp_same_def)
  obtain ss where ss: "hev_socks5_tunnel_update_session mx (e_set env1) (q_node self1) = Some ss" "in_tcp_set mx (env1\<lparr>e_set := ss\<rparr>) self1"
    using update_in_tcp_set [OF m] by blast
  let ?r = "hev_socks5_task_io_yielder ty (s_timeout self) d"
  have y: "session_tcp_yielder mx ty ts nt env self = Some (nt1, env1\<lparr>e_set := ss\<rparr>, self1, ?r)"
    using t 1(1) ss(1) by (simp add: session_tcp_yielder_def Let_def)
  have ok: "tcp_ok out srv live nt1 (env1\<lparr>e_set := ss\<rparr>) self1" using 1(2) by (simp add: tcp_ok_def forward_ok_def backward_ok_def)
  have "self1 = self \<and> (ty = HEV_TASK_WAITIO \<longrightarrow> ?r < 0)" if "ts = []"
  proof -
    have "d = nat (s_timeout self)" "evs = []" using t that by auto
    then show ?thesis using 1(1) assms(3) by (simp add: hev_socks5_task_io_yielder_def hev_task_sleep_def)
  qed
  then show ?thesis using y ok ss(2) 1(3) assms(3) by (auto simp: tcp_same_def)
qed

definition tcp_turns_left :: "tcp_turn list \<Rightarrow> net \<Rightarrow> 'a HevSocks5SessionTCP_scheme \<Rightarrow> nat" where
  "tcp_turns_left ts nt self = weight nt self + (if ts = [] then length (concat (q_queue self)) else length ts + TCP_WND)"

lemma tcp_ok_queue: "tcp_ok out srv live nt env self \<Longrightarrow> length (concat (q_queue self)) \<le> TCP_WND"
  by (simp add: tcp_ok_def forward_ok_def)

lemma tcp_loop_ok:
  assumes "tcp_turns_left ts nt self < k" "tcp_ok out srv live nt env self" "in_tcp_set mx env self" "0 \<le> s_timeout self"
    and "tp_shut (e_pcb env) \<longrightarrow> res_b < 0"
  shows "\<exists>ts' nt' env' self'. tcp_splice_loop k mx ts res_f res_b nt env self = Finished (ts', nt', env', self') \<and> tcp_ok out srv live nt' env' self' \<and>
    in_tcp_set mx env' self' \<and> 0 \<le> s_timeout self' \<and> s_fd self' = s_fd self \<and> length ts' \<le> length ts"
  using assms
proof (induction k arbitrary: ts res_f res_b nt env self)
  case (Suc k)
  let ?F = "if res_f \<ge> 0 then tcp_splice_f nt env self else (nt, env, self, res_f)"
  obtain nt1 env1 self1 f where 1: "?F = (nt1, env1, self1, f)" by (rule prod_cases4)
  have k1: "tcp_ok out srv live nt1 env1 self1" "s_fd self1 = s_fd self" "s_timeout self1 = s_timeout self" "in_tcp_set mx env1 self1"
    "tp_shut (e_pcb env1) = tp_shut (e_pcb env)" "weight nt1 self1 = weight nt self"
    "length (concat (q_queue self1)) \<le> length (concat (q_queue self))" "0 < f \<longrightarrow> length (concat (q_queue self1)) < length (concat (q_queue self))"
    using 1 splice_f_ok [of nt env self nt1 env1 self1 f out srv live] Suc.prems(2,3) by (auto simp: in_tcp_set_def weight_def split: if_splits)
  let ?B = "if res_b \<ge> 0 then tcp_splice_b nt1 env1 self1 else Some (nt1, env1, self1, res_b)"
  have "\<exists>nt2 env2 self2 b. ?B = Some (nt2, env2, self2, b) \<and> tcp_ok out srv live nt2 env2 self2 \<and> s_fd self2 = s_fd self1 \<and> s_timeout self2 = s_timeout self1 \<and>
    q_node self2 = q_node self1 \<and> q_queue self2 = q_queue self1 \<and> e_set env2 = e_set env1 \<and> (tp_shut (e_pcb env2) \<longrightarrow> b < 0) \<and>
    weight nt2 self2 \<le> weight nt1 self1 \<and> (0 < b \<longrightarrow> weight nt2 self2 < weight nt1 self1)"
  proof (cases "res_b \<ge> 0")
    case True
    then have "\<not> tp_shut (e_pcb env1)" using Suc.prems(5) k1(5) by auto
    from splice_b_ok [OF k1(1) this] show ?thesis using True by auto
  next
    case False
    then show ?thesis using k1(1) by simp
  qed
  then obtain nt2 env2 self2 b where 2: "?B = Some (nt2, env2, self2, b)" "tcp_ok out srv live nt2 env2 self2" "s_fd self2 = s_fd self1" "s_timeout self2 = s_timeout self1"
    "q_node self2 = q_node self1" "q_queue self2 = q_queue self1" "e_set env2 = e_set env1" "tp_shut (e_pcb env2) \<longrightarrow> b < 0"
    "weight nt2 self2 \<le> weight nt1 self1" "0 < b \<longrightarrow> weight nt2 self2 < weight nt1 self1" by (elim exE conjE)
  have m2: "in_tcp_set mx env2 self2" using k1(4) 2(5,7) by (simp add: in_tcp_set_def)
  have t2: "0 \<le> s_timeout self2" using Suc.prems(4) k1(3) 2(4) by simp
  show ?case
  proof (cases "f > 0 \<or> b > 0 \<or> f = 0 \<or> b = 0")
    case False
    then have "tcp_splice_loop (Suc k) mx ts res_f res_b nt env self = Finished (ts, nt2, env2, self2)" using 1 2(1) by simp
    then show ?thesis using 2(2,3) k1(2) m2 t2 by simp
  next
    case True
    let ?ty = "if f > 0 \<or> b > 0 then HEV_TASK_YIELD else HEV_TASK_WAITIO"
    obtain nt3 env3 self3 r where 3: "session_tcp_yielder mx ?ty ts nt2 env2 self2 = Some (nt3, env3, self3, r)" "tcp_ok out srv live nt3 env3 self3"
      "in_tcp_set mx env3 self3" "0 \<le> s_timeout self3" "s_fd self3 = s_fd self2" "tp_shut (e_pcb env3) = tp_shut (e_pcb env2)" "weight nt3 self3 = weight nt2 self2"
      "ts = [] \<longrightarrow> self3 = self2 \<and> (?ty = HEV_TASK_WAITIO \<longrightarrow> r < 0)"
      using tcp_yielder_ok [OF 2(2) m2 t2, of ?ty ts] by blast
    have e: "tcp_splice_loop (Suc k) mx ts res_f res_b nt env self =
      (if r < 0 then Finished (drop 1 ts, nt3, env3, self3) else tcp_splice_loop k mx (drop 1 ts) f b nt3 env3 self3)"
      using 1 2(1) 3(1) True by simp
    show ?thesis
    proof (cases "r < 0")
      case True
      then show ?thesis using e 3 2(3) k1(2) by simp
    next
      case False
      have "tcp_turns_left (drop 1 ts) nt3 self3 < tcp_turns_left ts nt self"
      proof (cases ts)
        case (Cons t us)
        then show ?thesis using tcp_ok_queue [OF 3(2)] 3(7) 2(9) k1(6) by (auto simp: tcp_turns_left_def)
      next
        case Nil
        then have "f > 0 \<or> b > 0" "self3 = self2" using 3(8) False by (auto split: if_splits)
        then show ?thesis using Nil 3(7) 2(6,9,10) k1(6,7,8) by (auto simp: tcp_turns_left_def)
      qed
      then have lt: "tcp_turns_left (drop 1 ts) nt3 self3 < k" using Suc.prems(1) by simp
      have sh: "tp_shut (e_pcb env3) \<longrightarrow> b < 0" using 3(6) 2(8) by simp
      obtain ts' nt' env' self' where "tcp_splice_loop k mx (drop 1 ts) f b nt3 env3 self3 = Finished (ts', nt', env', self')" "tcp_ok out srv live nt' env' self'"
        "in_tcp_set mx env' self'" "0 \<le> s_timeout self'" "s_fd self' = s_fd self3" "length ts' \<le> length (drop 1 ts)"
        using Suc.IH [OF lt 3(2-4) sh] by blast
      then show ?thesis using e False 3(5) 2(3) k1(2) by auto
    qed
  qed
qed simp

lemma tcp_drain_ok:
  assumes "length ts < k" "tcp_ok out srv live nt env self" "in_tcp_set mx env self" "0 \<le> s_timeout self"
  shows "\<exists>nt' env' self'. tcp_drain_loop k mx ts nt env self = Finished (nt', env', self') \<and> tcp_ok out srv live nt' env' self' \<and> s_fd self' = s_fd self"
  using assms
proof (induction k arbitrary: ts nt env self)
  case (Suc k)
  obtain b where b: "q_buffer self = Some b" using Suc.prems(2) by (auto simp: tcp_ok_def)
  show ?case
  proof (cases "\<not> q_pcb self \<or> hev_ring_buffer_get_use_size b = 0")
    case True
    then show ?thesis using Suc.prems(2) b by auto
  next
    case False
    obtain nt3 env3 self3 r where 3: "session_tcp_yielder mx HEV_TASK_WAITIO ts nt env self = Some (nt3, env3, self3, r)" "tcp_ok out srv live nt3 env3 self3"
      "in_tcp_set mx env3 self3" "0 \<le> s_timeout self3" "s_fd self3 = s_fd self" "ts = [] \<longrightarrow> r < 0"
      using tcp_yielder_ok [OF Suc.prems(2-4), of HEV_TASK_WAITIO ts] by blast
    have e: "tcp_drain_loop (Suc k) mx ts nt env self = (if r < 0 then Finished (nt3, env3, self3) else tcp_drain_loop k mx (drop 1 ts) nt3 env3 self3)"
      using False b 3(1) by simp
    show ?thesis
    proof (cases "r < 0")
      case True
      then show ?thesis using e 3 by simp
    next
      case False
      then have "length (drop 1 ts) < k" using 3(6) Suc.prems(1) by (cases ts) auto
      from Suc.IH [OF this 3(2-4)] show ?thesis using e False 3(5) by auto
    qed
  qed
qed simp

section \<open>A session\<close>

text \<open>The state in which a session starts to splice: the application's bytes so far wait in the queue,
  nothing was written to the application and its writes succeed, and both directions are open.\<close>

definition tcp_start :: "tcp_env \<Rightarrow> 'a HevSocks5SessionTCP_scheme \<Rightarrow> bool" where
  "tcp_start env self \<longleftrightarrow> q_pcb self \<and> tp_delivered (e_pcb env) = concat (q_queue self) \<and> tp_recved (e_pcb env) = 0 \<and>
     tp_written (e_pcb env) = [] \<and> tp_acked (e_pcb env) = 0 \<and> False \<notin> set (tp_results (e_pcb env)) \<and> \<not> tp_shut (e_pcb env) \<and>
     \<not> e_fin env \<and> length (concat (q_queue self)) \<le> TCP_WND"

definition tcp_turns_needed :: "tcp_turn list \<Rightarrow> net \<Rightarrow> 'a HevSocks5SessionTCP_scheme \<Rightarrow> nat" where
  "tcp_turns_needed ts nt self = 2 * rx_size (n_rx nt (s_fd self)) + length ts + TCP_WND"

lemma tcp_splice_ok:
  assumes "tcp_start env self" "in_tcp_set mx env self" "0 \<le> s_timeout self"
    and "0 < bufsz" "bufsz < 65536" "length stale = bufsz" "tcp_turns_needed ts nt self < fuel"
  shows "\<exists>nt' env' self'. hev_socks5_session_tcp_splice fuel bufsz stale mx ts nt env self = Finished (nt', env', self') \<and>
    tcp_ok (n_out nt (s_fd self)) (rx_bytes (n_rx nt (s_fd self))) (n_live nt - int (length (q_queue self))) nt' env' self' \<and> s_fd self' = s_fd self"
proof -
  let ?b = "hev_ring_buffer_alloca bufsz stale" and ?out = "n_out nt (s_fd self)" and ?srv = "rx_bytes (n_rx nt (s_fd self))"
  let ?live = "n_live nt - int (length (q_queue self))"
  define s0 where "s0 = self\<lparr>q_buffer := Some ?b\<rparr>"
  have b: "rb_inv ?b" "rb_readable ?b = []" "rb_inflight ?b = []" "max_size ?b = bufsz"
    using assms(4-6) rb_inv_alloca [of bufsz stale] by (simp_all add: SIZE_MOD_def) (simp add: hev_ring_buffer_alloca_def)
  have s: "s_fd s0 = s_fd self" "q_queue s0 = q_queue self" "q_pcb s0 = q_pcb self" "q_buffer s0 = Some ?b" "s_timeout s0 = s_timeout self" "q_node s0 = q_node self"
    by (simp_all add: s0_def)
  have "forward_ok ?out nt env s0" using assms(1) s by (simp add: forward_ok_def tcp_start_def)
  moreover have "backward_ok ?srv nt env s0 ?b" using assms(1,5) s b by (simp add: backward_ok_def tcp_start_def)
  ultimately have ok: "tcp_ok ?out ?srv ?live nt env s0" using s by (simp add: tcp_ok_def)
  have m: "in_tcp_set mx env s0" using assms(2) s by (simp add: in_tcp_set_def)
  have "tcp_turns_left ts nt s0 \<le> tcp_turns_needed ts nt self"
    using s b assms(1) by (simp add: tcp_turns_left_def tcp_turns_needed_def weight_def tcp_start_def)
  then have k: "tcp_turns_left ts nt s0 < fuel" using assms(7) by simp
  obtain ts1 nt1 env1 self1 where 1: "tcp_splice_loop fuel mx ts 1 1 nt env s0 = Finished (ts1, nt1, env1, self1)" "tcp_ok ?out ?srv ?live nt1 env1 self1"
    "in_tcp_set mx env1 self1" "0 \<le> s_timeout self1" "s_fd self1 = s_fd s0" "length ts1 \<le> length ts"
    using tcp_loop_ok [OF k ok m, of 1 1] assms(1,3) s by (auto simp: tcp_start_def)
  have k1: "length ts1 < fuel" using 1(6) assms(7) by (simp add: tcp_turns_needed_def)
  obtain nt2 env2 self2 where 2: "tcp_drain_loop fuel mx ts1 nt1 env1 self1 = Finished (nt2, env2, self2)" "tcp_ok ?out ?srv ?live nt2 env2 self2" "s_fd self2 = s_fd self1"
    using tcp_drain_ok [OF k1 1(2-4)] by blast
  have "hev_socks5_session_tcp_splice fuel bufsz stale mx ts nt env self = Finished (nt2, env2, self2)"
    using assms(1) 1(1) 2(1) by (simp add: hev_socks5_session_tcp_splice_def tcp_start_def s0_def [symmetric])
  then show ?thesis using 2 1(5) s(1) by simp
qed

text \<open>C10. The splicer of a TCP session returns: with a time-out that is not negative, it takes at most two
  turns for every byte the server may still send, one for every turn the environment takes and one for every byte of a receive
  window; no read of a missing buffer is met, the session stays in the set of sessions, and destruction then frees
  the packet buffers that are left.\<close>

theorem tcp_session_ends:
  assumes "tcp_start env self" "in_tcp_set mx env self" "0 \<le> s_timeout self"
    and "0 < bufsz" "bufsz < 65536" "length stale = bufsz" "tcp_turns_needed ts nt self < fuel"
  shows "\<exists>nt' env' self'. hev_socks5_session_tcp_splice fuel bufsz stale mx ts nt env self = Finished (nt', env', self') \<and>
    length (concat (q_queue self')) \<le> TCP_WND \<and>
    n_live (fst (hev_socks5_session_tcp_destruct nt' env' self')) =
      n_live nt - int (length (q_queue self)) - (if t_addr self' \<noteq> None then 2 else 1)"
proof -
  obtain nt' env' self' where r: "hev_socks5_session_tcp_splice fuel bufsz stale mx ts nt env self = Finished (nt', env', self')"
    "tcp_ok (n_out nt (s_fd self)) (rx_bytes (n_rx nt (s_fd self))) (n_live nt - int (length (q_queue self))) nt' env' self'"
    using tcp_splice_ok [OF assms] by blast
  then show ?thesis by (simp add: tcp_ok_def forward_ok_def hev_socks5_session_tcp_destruct_def hev_socks5_client_tcp_destruct_def
    hev_socks5_client_destruct_def hev_socks5_destruct_def free_live drop_fd_live)
qed



section \<open>Witnesses\<close>

definition example_tcp_session :: HevSocks5SessionTCP where
  "example_tcp_session = zero_session_tcp\<lparr>s_timeout := 10, q_node := 8, q_pcb := True, q_queue := [[1, 2], [3]]\<rparr>"

definition example_pcb :: tcp_pcb where
  "example_pcb = \<lparr>tp_delivered = [1, 2, 3], tp_recved = 0, tp_written = [], tp_acked = 0, tp_results = [True], tp_shut = False, tp_aborted = False\<rparr>"

definition example_tcp_env :: tcp_env where
  "example_tcp_env = \<lparr>e_set = example_sessions, e_pcb = example_pcb, e_fin = False\<rparr>"

definition example_tcp_net :: net where
  "example_tcp_net = (quiet_net (\<lambda>_. [Chunk [7, 8, 9], RWait 3, Chunk [10]]))\<lparr>n_live := 3\<rparr>"

definition example_tcp_turns :: "tcp_turn list" where
  "example_tcp_turns = [(1, [Recv [[4], [5, 6]], Sent 1]), (2, [Sent 1, RecvEof])]"

lemma example_tcp_start: "tcp_start example_tcp_env example_tcp_session" "0 \<le> s_timeout example_tcp_session"
  "tcp_turns_needed example_tcp_turns example_tcp_net example_tcp_session < 65600" "in_tcp_set 0 example_tcp_env example_tcp_session"
  by (simp_all add: tcp_start_def example_tcp_env_def example_pcb_def example_tcp_session_def zero_session_tcp_def TCP_WND_def in_tcp_set_def
    tcp_turns_needed_def example_tcp_turns_def example_tcp_net_def quiet_net_def)

lemma tcp_session_ends_witness:
  "\<exists>nt' env' self'. hev_socks5_session_tcp_splice 65600 4 [0, 0, 0, 0] 0 example_tcp_turns example_tcp_net example_tcp_env example_tcp_session = Finished (nt', env', self') \<and>
     n_live (fst (hev_socks5_session_tcp_destruct nt' env' self')) \<le> 0"
proof -
  have "n_live example_tcp_net = 3" "length (q_queue example_tcp_session) = 2"
    by (simp_all add: example_tcp_net_def example_tcp_session_def)
  then show ?thesis using tcp_session_ends [OF example_tcp_start(1,4,2), of 4 "[0, 0, 0, 0]" example_tcp_turns example_tcp_net 65600] example_tcp_start(3) by auto
qed


end
