(* ===== verification/TunnelFilter.thy ===== *)
theory TunnelFilter
  imports SessionTCPProps
begin

text \<open>
  The packet loop of the tunnel (\<open>lwip_io_task_entry\<close> of \<open>hev-socks5-tunnel.c\<close>): a packet read from the device is
  handed to the network stack, unless it is an IPv4 UDP packet the tunnel is set to refuse; that one is answered with an ICMP
  message, built with its two checksums by \<open>send_icmp_port_unreachable\<close>. Reading and writing the
  device are those of \<open>hev-tunnel.h\<close> on Linux.
\<close>

section \<open>State\<close>

text \<open>What the packet loop works on: the flags of the tunnel, its counters, its device, and the stack's side: the packets it
  was given and the results of giving it one (an exhausted script succeeds).\<close>

record HevTunnel =
  g_run :: bool
  g_reject_quic :: bool
  g_reject_non_dns_udp :: bool
  g_fd :: int
  g_tx_packets :: nat
  g_tx_bytes :: nat
  g_rx_packets :: nat
  g_rx_bytes :: nat
  g_stack :: "bytes list"
  g_input :: "bool list"

section \<open>Writing to the device\<close>

text \<open>One packet per \<open>write\<close>; the device takes the whole packet.\<close>

definition hev_tunnel_write :: "net \<Rightarrow> int \<Rightarrow> bytes \<Rightarrow> net \<times> int" where
  "hev_tunnel_write nt fd p =
     (case n_dtx nt fd of
        [] \<Rightarrow> (nt\<lparr>n_dout := (n_dout nt)(fd := n_dout nt fd @ [(None, p)])\<rparr>, int (length p))
      | Accept k # es \<Rightarrow>
          (nt\<lparr>n_dtx := (n_dtx nt)(fd := es), n_dout := (n_dout nt)(fd := n_dout nt fd @ [(None, p)])\<rparr>, int (length p))
      | TWait d # es \<Rightarrow> (nt\<lparr>n_dtx := (n_dtx nt)(fd := es), n_again := True\<rparr>, - 1)
      | TErr # es \<Rightarrow> (nt\<lparr>n_dtx := (n_dtx nt)(fd := es), n_again := False\<rparr>, - 1))"

datatype err_t = ERR_OK | ERR_WOULDBLOCK | ERR_IF

definition netif_output_handler :: "net \<Rightarrow> HevTunnel \<Rightarrow> bytes \<Rightarrow> net \<times> HevTunnel \<times> err_t" where
  "netif_output_handler nt g p =
     (case hev_tunnel_write nt (g_fd g) p of (nt, s) \<Rightarrow>
      if s \<le> 0 then (nt, g, if n_again nt then ERR_WOULDBLOCK else ERR_IF)
      else (nt, g\<lparr>g_rx_packets := sz_add (g_rx_packets g) 1, g_rx_bytes := sz_add (g_rx_bytes g) (nat s)\<rparr>, ERR_OK))"

section \<open>Recognising UDP packets\<close>

text \<open>A read outside the packet is a failure. The port is the second component.\<close>

definition byte_at :: "bytes \<Rightarrow> nat \<Rightarrow> u8 option" where
  "byte_at data i = (if i < length data then Some (data ! i) else None)"

definition parse_udp_packet :: "bytes \<Rightarrow> u16 \<Rightarrow> (u16 \<times> u16) option" where
  "parse_udp_packet data len =
     (if unat len < 28 then Some (0, 0)
      else do {
        b \<leftarrow> byte_at data 0;
        if drop_bit 4 b \<noteq> 4 then Some (0, 0)
        else let iphdr_len = ucast (b AND 0x0F) * 4 in
        if iphdr_len < 20 \<or> unat len < unat iphdr_len + 4 then Some (0, 0)
        else do {
          proto \<leftarrow> byte_at data 9;
          if proto \<noteq> 17 then Some (0, 0)
          else do {
            h \<leftarrow> byte_at data (unat iphdr_len + 2);
            l \<leftarrow> byte_at data (unat iphdr_len + 3);
            Some (iphdr_len, push_bit 8 (ucast h) OR ucast l) } } })"

section \<open>The refusal\<close>

text \<open>The Internet checksum: the 16-bit words are summed in 32 bits, an odd last byte counts as a high one, and the
  carries are folded in.\<close>

fun sum_words :: "u32 \<Rightarrow> bytes \<Rightarrow> u32" where
  "sum_words s [] = s"
| "sum_words s [a] = s + push_bit 8 (ucast a)"
| "sum_words s (a # b # bs) = sum_words (s + (push_bit 8 (ucast a) OR ucast b)) bs"

function fold_carry :: "u32 \<Rightarrow> u32" where
  "fold_carry s = (if drop_bit 16 s \<noteq> 0 then fold_carry ((s AND 0xFFFF) + drop_bit 16 s) else s)"
  by pat_completeness auto

lemma low16: "unat (s AND 0xFFFF) = unat s mod 65536" for s :: u32
proof -
  have "s AND 0xFFFF = take_bit 16 s" by (simp only: take_bit_eq_mask mask_eq_exp_minus_1) simp
  moreover have "unat (take_bit 16 s) = unat s mod 65536" by (simp add: take_bit_eq_mod unat_mod_distrib)
  ultimately show ?thesis by simp
qed

lemma high16: "unat (drop_bit 16 s) = unat s div 65536" for s :: u32
  by (simp add: drop_bit_eq_div unat_div_distrib)

lemma split_carry: "unat s = unat (drop_bit 16 s) * 65536 + unat (s AND 0xFFFF)" for s :: u32
  by (simp only: low16 high16 div_mult_mod_eq)

lemma unat_fold: "unat ((s AND 0xFFFF) + drop_bit 16 s) = unat (s AND 0xFFFF) + unat (drop_bit 16 s)" for s :: u32
proof -
  have "unat s < 2 ^ LENGTH(32)" by (rule unsigned_less)
  then have "unat (s AND 0xFFFF) + unat (drop_bit 16 s) < 2 ^ LENGTH(32)" using split_carry [of s] by simp
  then show ?thesis by (simp add: unat_word_ariths)
qed

termination fold_carry
proof (relation "measure unat")
  fix s :: u32
  assume "drop_bit 16 s \<noteq> 0"
  then have "0 < unat (drop_bit 16 s)" by (simp add: unat_gt_0)
  then show "((s AND 0xFFFF) + drop_bit 16 s, s) \<in> measure unat" using split_carry [of s] by (simp add: unat_fold)
qed simp

declare fold_carry.simps [simp del]

definition checksum :: "bytes \<Rightarrow> u16" where
  "checksum bs = ucast (NOT (fold_carry (sum_words 0 bs)) AND 0xFFFF)"

definition hi8 :: "u16 \<Rightarrow> u8" where
  "hi8 v = ucast (drop_bit 8 v AND 0xFF)"

definition lo8 :: "u16 \<Rightarrow> u8" where
  "lo8 v = ucast (v AND 0xFF)"

text \<open>The packet that is filled in.\<close>

definition icmp_packet :: "bytes \<Rightarrow> u16 \<Rightarrow> bytes" where
  "icmp_packet orig iphdr_len =
     (let icmp_data_len = iphdr_len + 8;
          icmp_total = 8 + icmp_data_len;
          ip_total = 20 + icmp_total;
          out = replicate (unat ip_total) 0;
          out = out[0 := 0x45, 2 := hi8 ip_total, 3 := lo8 ip_total, 8 := 64, 9 := 1];
          out = write_at out 12 (take 4 (drop 16 orig));
          out = write_at out 16 (take 4 (drop 12 orig));
          cksum = checksum (take 20 out);
          out = out[10 := hi8 cksum, 11 := lo8 cksum];
          out = out[20 := 3, 21 := 3];
          out = write_at out 28 (take (unat icmp_data_len) orig);
          cksum = checksum (take (unat icmp_total) (drop 20 out))
      in out[22 := hi8 cksum, 23 := lo8 cksum])"

definition send_icmp_port_unreachable :: "net \<Rightarrow> HevTunnel \<Rightarrow> bytes \<Rightarrow> u16 \<Rightarrow> u16 \<Rightarrow> net \<times> HevTunnel" where
  "send_icmp_port_unreachable nt g orig orig_len iphdr_len =
     (if orig_len < iphdr_len + 8 then (nt, g)
      else case hev_malloc nt of (nt, ok) \<Rightarrow>
        if \<not> ok then (nt, g)
        else case netif_output_handler nt g (icmp_packet orig iphdr_len) of (nt, g, _) \<Rightarrow> (hev_free nt, g))"

section \<open>The packet loop\<close>

text \<open>What a turn of the loop meets: a packet, a failure of the read, or the end of the tunnel, which clears the flag \<open>run\<close> while
  the task waits. The device cuts a packet to the buffer. A waiting task does not return (an exhausted script).\<close>

datatype tun_event = Packet bytes | Failed | Stopped

definition hev_tunnel_read :: "nat \<Rightarrow> tun_event \<Rightarrow> net \<Rightarrow> HevTunnel \<Rightarrow> net \<times> HevTunnel \<times> bytes option" where
  "hev_tunnel_read mtu ev nt g =
     (case hev_malloc nt of (nt, ok) \<Rightarrow>
      if \<not> ok then (nt, g, None)
      else case ev of
        Packet p \<Rightarrow> let p = take (mtu mod 65536) p in if p = [] then (hev_free nt, g, None) else (nt, g, Some p)
      | Failed \<Rightarrow> (hev_free nt, g, None)
      | Stopped \<Rightarrow> (hev_free nt, g\<lparr>g_run := False\<rparr>, None))"

text \<open>A packet the stack takes is the stack's to free.\<close>

definition netif_input :: "net \<Rightarrow> HevTunnel \<Rightarrow> bytes \<Rightarrow> net \<times> HevTunnel" where
  "netif_input nt g p =
     (case g_input g of
        [] \<Rightarrow> (nt, g\<lparr>g_stack := g_stack g @ [p]\<rparr>)
      | ok # rs \<Rightarrow> if ok then (nt, g\<lparr>g_input := rs, g_stack := g_stack g @ [p]\<rparr>) else (hev_free nt, g\<lparr>g_input := rs\<rparr>))"

definition lwip_io_turn :: "nat \<Rightarrow> tun_event \<Rightarrow> net \<Rightarrow> HevTunnel \<Rightarrow> (net \<times> HevTunnel) option" where
  "lwip_io_turn mtu ev nt g =
     (case hev_tunnel_read mtu ev nt g of
        (nt, g, None) \<Rightarrow> Some (nt, g)
      | (nt, g, Some buf) \<Rightarrow> do {
          let g = g\<lparr>g_tx_packets := sz_add (g_tx_packets g) 1, g_tx_bytes := sz_add (g_tx_bytes g) (length buf)\<rparr>;
          let len = (of_nat (length buf) :: u16);
          (iphdr_len, dst_port) \<leftarrow> parse_udp_packet buf len;
          if iphdr_len \<noteq> 0 \<and> ((g_reject_non_dns_udp g \<and> dst_port \<noteq> 53) \<or> (g_reject_quic g \<and> dst_port = 443)) then
            (case send_icmp_port_unreachable nt g buf len iphdr_len of (nt, g) \<Rightarrow> Some (hev_free nt, g))
          else Some (netif_input nt g buf) })"

fun lwip_io_task_entry :: "nat \<Rightarrow> tun_event list \<Rightarrow> net \<Rightarrow> HevTunnel \<Rightarrow> (net \<times> HevTunnel) option" where
  "lwip_io_task_entry mtu [] nt g = Some (nt, g)"
| "lwip_io_task_entry mtu (ev # evs) nt g =
     (if \<not> g_run g then Some (nt, g)
      else do { (nt, g) \<leftarrow> lwip_io_turn mtu ev nt g; lwip_io_task_entry mtu evs nt g })"

section \<open>The checksum\<close>

text \<open>The sum of the 16-bit words as a number.\<close>

fun word_sum :: "bytes \<Rightarrow> nat" where
  "word_sum [] = 0"
| "word_sum [a] = 256 * unat a"
| "word_sum (a # b # bs) = 256 * unat a + unat b + word_sum bs"

lemma unat_byte: "unat a < 256" for a :: u8
  using unsigned_less [where 'b=8, of a] by simp

lemma bit_byte: "bit a n \<Longrightarrow> n < 8" for a :: u8
  using bit_imp_le_length [where 'a=8, of a n] by simp

lemma unat_pair32: "unat (push_bit 8 (ucast a) OR ucast b :: u32) = 256 * unat a + unat b" for a b :: u8
proof -
  have "push_bit 8 (ucast a) AND (ucast b :: u32) = 0"
    by (rule bit_word_eqI) (auto simp: bit_simps dest: bit_byte)
  then have "push_bit 8 (ucast a) OR (ucast b :: u32) = push_bit 8 (ucast a) + ucast b"
    using word_plus_and_or [of "push_bit 8 (ucast a)" "ucast b :: u32"] by simp
  moreover have "unat (push_bit 8 (ucast a) :: u32) = 256 * unat a" "unat (ucast b :: u32) = unat b"
    using unat_byte [of a] unat_byte [of b] by (simp_all add: push_bit_eq_mult unat_word_ariths unsigned_ucast_eq take_bit_eq_mod)
  ultimately show ?thesis using unat_byte [of a] unat_byte [of b] by (simp add: unat_word_ariths)
qed

lemma unat_high32: "unat (push_bit 8 (ucast a) :: u32) = 256 * unat a" for a :: u8
  using unat_pair32 [of a 0] by simp

lemma word_sum_less: "word_sum bs \<le> 65535 * length bs"
proof (induction bs rule: word_sum.induct)
  case (2 a)
  then show ?case using unat_byte [of a] by simp
next
  case (3 a b bs)
  then show ?case using unat_byte [of a] unat_byte [of b] by simp
qed simp

lemma sum_words_unat: "unat s + word_sum bs < 2 ^ 32 \<Longrightarrow> unat (sum_words s bs) = unat s + word_sum bs"
proof (induction s bs rule: sum_words.induct)
  case (2 s a)
  then show ?case by (simp add: unat_word_ariths unat_high32)
next
  case (3 s a b bs)
  have "unat (s + (push_bit 8 (ucast a) OR ucast b)) = unat s + (256 * unat a + unat b)"
    using "3.prems" by (simp add: unat_word_ariths unat_pair32)
  then show ?case using 3 by simp
qed simp

lemma fold_carry_props: "unat (fold_carry s) < 65536 \<and> unat (fold_carry s) mod 65535 = unat s mod 65535 \<and> (fold_carry s = 0 \<longleftrightarrow> s = 0)"
proof (induction s rule: fold_carry.induct)
  case (1 s)
  show ?case
  proof (cases "drop_bit 16 s = 0")
    case True
    have "unat (s AND 0xFFFF) < 65536" by (simp add: low16)
    then show ?thesis using True split_carry [of s] by (simp add: fold_carry.simps [of s])
  next
    case False
    let ?s = "(s AND 0xFFFF) + drop_bit 16 s"
    have n: "unat (drop_bit 16 s) \<noteq> 0" using False by (simp add: unat_eq_0)
    have "?s \<noteq> 0" "s \<noteq> 0" using n unat_fold [of s] by auto
    moreover have "unat s mod 65535 = unat ?s mod 65535"
    proof -
      have "unat s = unat ?s + 65535 * unat (drop_bit 16 s)" using split_carry [of s] unat_fold [of s] by simp
      then show ?thesis by simp
    qed
    ultimately show ?thesis using 1 False by (simp add: fold_carry.simps [of s])
  qed
qed

text \<open>A receiver that sums a block with its checksum gets all ones.\<close>

definition checksum_valid :: "bytes \<Rightarrow> bool" where
  "checksum_valid bs \<longleftrightarrow> fold_carry (sum_words 0 bs) = 0xFFFF"

lemma checksum_unat:
  assumes "word_sum bs < 2 ^ 32"
  shows "(unat (checksum bs) + word_sum bs) mod 65535 = 0 \<and> 0 < unat (checksum bs) + word_sum bs"
proof -
  let ?f = "fold_carry (sum_words 0 bs)"
  have f: "unat ?f < 65536" "unat ?f mod 65535 = word_sum bs mod 65535" "?f = 0 \<longleftrightarrow> word_sum bs = 0"
    using fold_carry_props [of "sum_words 0 bs"] sum_words_unat [of 0 bs] assms by (auto simp: unat_eq_0 [symmetric])
  have "NOT ?f = - 1 - ?f" by (simp add: not_eq_complement)
  moreover have "unat (- 1 - ?f) = 4294967295 - unat ?f" by (simp add: unat_sub unsigned_minus_1_eq_mask mask_eq_exp_minus_1)
  ultimately have "unat (NOT ?f AND 0xFFFF) = (4294967295 - unat ?f) mod 65536" by (simp only: low16)
  also have "4294967295 - unat ?f = 65535 * 65536 + (65535 - unat ?f)" using f(1) by simp
  also have "(65535 * 65536 + (65535 - unat ?f)) mod 65536 = (65535 - unat ?f) mod 65536" by (rule mod_mult_self3)
  finally have "unat (NOT ?f AND 0xFFFF) = 65535 - unat ?f" by simp
  then have "unat (checksum bs) = 65535 - unat ?f" by (simp add: checksum_def unsigned_ucast_eq take_bit_eq_mod)
  then have c: "unat (checksum bs) = 65535 - unat ?f" .
  show ?thesis
  proof (cases "unat ?f = 65535")
    case True
    then have "word_sum bs mod 65535 = 0" "word_sum bs \<noteq> 0" using f(2,3) unat_eq_0 [of ?f] by auto
    then show ?thesis using c True by simp
  next
    case False
    then have "unat ?f = word_sum bs mod 65535" using f(1,2) by simp
    then have "\<exists>q. word_sum bs = 65535 * q + unat ?f" using mult_div_mod_eq [of 65535 "word_sum bs"] by metis
    then obtain q where "word_sum bs = 65535 * q + unat ?f" by (elim exE)
    then have "unat (checksum bs) + word_sum bs = 65535 * (q + 1)" using c f(1) False by simp
    then show ?thesis by simp
  qed
qed


text \<open>With the checksum's bytes in the place of two zero bytes.\<close>

lemma unat_hi_lo: "256 * unat (hi8 v) + unat (lo8 v) = unat v"
proof -
  have "v AND 0xFF = take_bit 8 v" for v :: u16 by (simp only: take_bit_eq_mask mask_eq_exp_minus_1) simp
  then have m: "unat (v AND 0xFF) = unat v mod 256" for v :: u16 by (simp add: take_bit_eq_mod unat_mod_distrib)
  have "unat v < 65536" using unsigned_less [where 'b=16, of v] by simp
  then have "unat (hi8 v) = unat v div 256" by (simp add: hi8_def unsigned_ucast_eq take_bit_eq_mod m drop_bit_eq_div unat_div_distrib)
  moreover have "unat (lo8 v) = unat v mod 256" by (simp add: lo8_def unsigned_ucast_eq take_bit_eq_mod m)
  ultimately show ?thesis by simp
qed

lemma word_sum_append: "even (length xs) \<Longrightarrow> word_sum (xs @ ys) = word_sum xs + word_sum ys"
  by (induction xs rule: word_sum.induct) auto

lemma checksum_filled:
  assumes "bs = xs @ 0 # 0 # ys" "even (length xs)" "length bs < 60000"
  shows "checksum_valid (xs @ hi8 (checksum bs) # lo8 (checksum bs) # ys)"
proof -
  let ?c = "checksum bs" and ?r = "xs @ hi8 (checksum bs) # lo8 (checksum bs) # ys"
  have s: "word_sum bs < 2 ^ 32" "word_sum ?r < 2 ^ 32" using word_sum_less [of bs] word_sum_less [of ?r] assms(1,3) by simp_all
  have "word_sum ?r = unat ?c + word_sum bs" using assms(1,2) unat_hi_lo [of ?c] by (simp add: word_sum_append)
  then have r: "word_sum ?r mod 65535 = 0" "0 < word_sum ?r" using checksum_unat [OF s(1)] by simp_all
  let ?f = "fold_carry (sum_words 0 ?r)"
  have w: "unat (sum_words 0 ?r) = word_sum ?r" using sum_words_unat [of 0 ?r] s(2) by simp
  then have "?f \<noteq> 0" "unat ?f < 65536" "unat ?f mod 65535 = 0" using fold_carry_props [of "sum_words 0 ?r"] r by (auto simp: unat_eq_0 [symmetric])
  then have "unat ?f = 65535" using unat_eq_0 [of ?f] mod_less [of "unat ?f" 65535] by fastforce
  then show ?thesis unfolding checksum_valid_def by (simp add: word_unat_eq_iff)
qed

section \<open>Which packets are refused\<close>

definition ihl :: "bytes \<Rightarrow> nat" where
  "ihl p = 4 * (unat (p ! 0) mod 16)"

definition udp_port :: "bytes \<Rightarrow> nat option" where
  "udp_port p = (if 28 \<le> length p \<and> unat (p ! 0) div 16 = 4 \<and> 20 \<le> ihl p \<and> ihl p + 4 \<le> length p \<and> p ! 9 = 17
     then Some (256 * unat (p ! (ihl p + 2)) + unat (p ! (ihl p + 3))) else None)"

definition refused :: "bool \<Rightarrow> bool \<Rightarrow> bytes \<Rightarrow> bool" where
  "refused non_dns quic p = (case udp_port p of None \<Rightarrow> False | Some port \<Rightarrow> non_dns \<and> port \<noteq> 53 \<or> quic \<and> port = 443)"

lemma low4: "unat (b AND 0x0F) = unat b mod 16" for b :: u8
proof -
  have "b AND 0x0F = take_bit 4 b" by (simp only: take_bit_eq_mask mask_eq_exp_minus_1) simp
  then show ?thesis by (simp add: take_bit_eq_mod unat_mod_distrib)
qed

lemma high4: "drop_bit 4 b = 4 \<longleftrightarrow> unat b div 16 = 4" for b :: u8
  by (simp add: word_unat_eq_iff drop_bit_eq_div unat_div_distrib)

lemma unat_ihl16: "unat (ucast (b AND 0x0F) * 4 :: u16) = 4 * (unat b mod 16)" for b :: u8
  by (simp add: unat_word_ariths unsigned_ucast_eq take_bit_eq_mod low4 mult.commute)

lemma unat_pair16: "unat (push_bit 8 (ucast a) OR ucast b :: u16) = 256 * unat a + unat b" for a b :: u8
proof -
  have "push_bit 8 (ucast a) AND (ucast b :: u16) = 0"
    by (rule bit_word_eqI) (auto simp: bit_simps dest: bit_byte)
  then have "push_bit 8 (ucast a) OR (ucast b :: u16) = push_bit 8 (ucast a) + ucast b"
    using word_plus_and_or [of "push_bit 8 (ucast a)" "ucast b :: u16"] by simp
  moreover have "unat (push_bit 8 (ucast a) :: u16) = 256 * unat a" "unat (ucast b :: u16) = unat b"
    using unat_byte [of a] unat_byte [of b] by (simp_all add: push_bit_eq_mult unat_word_ariths unsigned_ucast_eq take_bit_eq_mod)
  ultimately show ?thesis using unat_byte [of a] unat_byte [of b] by (simp add: unat_word_ariths)
qed

lemma parse_udp_packet_ok:
  assumes "length p < 65536"
  shows "\<exists>h port. parse_udp_packet p (of_nat (length p)) = Some (h, port) \<and>
    (case udp_port p of None \<Rightarrow> h = 0 | Some v \<Rightarrow> unat h = ihl p \<and> h \<noteq> 0 \<and> unat port = v)"
proof -
  have len: "unat (of_nat (length p) :: u16) = length p" using assms by (simp add: unat_of_nat)
  show ?thesis
  proof (cases "28 \<le> length p \<and> unat (p ! 0) div 16 = 4")
    case False
    then show ?thesis by (auto simp: parse_udp_packet_def len byte_at_def high4 udp_port_def)
  next
    case True
    let ?h = "ucast (p ! 0 AND 0x0F) * 4 :: u16"
    have h: "unat ?h = ihl p" by (simp only: unat_ihl16 ihl_def)
    have b0: "byte_at p 0 = Some (p ! 0)" "byte_at p 9 = Some (p ! 9)" using True by (auto simp: byte_at_def)
    have c: "?h < 20 \<longleftrightarrow> ihl p < 20" by (simp add: word_less_nat_alt h)
    show ?thesis
    proof (cases "20 \<le> ihl p \<and> ihl p + 4 \<le> length p \<and> p ! 9 = 17")
      case False
      then show ?thesis using True by (auto simp: parse_udp_packet_def len b0 high4 udp_port_def Let_def c h)
    next
      case in2: True
      let ?v = "push_bit 8 (ucast (p ! (ihl p + 2))) OR ucast (p ! (ihl p + 3)) :: u16"
      have b1: "byte_at p (ihl p + 2) = Some (p ! (ihl p + 2))" "byte_at p (ihl p + 3) = Some (p ! (ihl p + 3))" using in2 by (auto simp: byte_at_def)
      have "parse_udp_packet p (of_nat (length p)) = Some (?h, ?v)"
        using True in2 by (simp add: parse_udp_packet_def len b0 b1 high4 Let_def c h del: add_2_eq_Suc')
      moreover have "?h \<noteq> 0" using h in2 by (auto simp: unat_eq_0 [symmetric])
      moreover have "udp_port p = Some (unat ?v)" using True in2 unfolding unat_pair16 by (simp add: udp_port_def)
      ultimately show ?thesis using h by simp
    qed
  qed
qed

section \<open>What a refusal says\<close>

text \<open>An ICMP message "port unreachable" (RFC 792) from the destination of a packet to its source: a plain IPv4 header and the ICMP
  header with valid checksums, and the packet's header and the next eight bytes.\<close>

definition port_unreachable :: "bytes \<Rightarrow> bytes \<Rightarrow> bool" where
  "port_unreachable p out \<longleftrightarrow>
     length out = 28 + ihl p + 8 \<and>
     take 2 out = [0x45, 0] \<and> 256 * unat (out ! 2) + unat (out ! 3) = length out \<and> out ! 9 = 1 \<and>
     take 4 (drop 12 out) = take 4 (drop 16 p) \<and> take 4 (drop 16 out) = take 4 (drop 12 p) \<and>
     checksum_valid (take 20 out) \<and> checksum_valid (drop 20 out) \<and>
     take 2 (drop 20 out) = [3, 3] \<and> take 4 (drop 24 out) = [0, 0, 0, 0] \<and> drop 28 out = take (ihl p + 8) p"

lemma length_4: "length xs = 4 \<Longrightarrow> \<exists>a b c d. xs = [a, b, c, d]"
  by (cases xs rule: remdups_adj.cases; cases "tl (tl xs)") (auto simp: length_Suc_conv numeral_eq_Suc)

lemma icmp_packet_layout:
  assumes h: "unat h \<le> 60" and len: "unat h + 8 \<le> length p" "28 \<le> length p"
    and t: "t = (of_nat (28 + unat h + 8) :: u16)"
    and src: "take 4 (drop 16 p) = [a, b, c, d]" and dst: "take 4 (drop 12 p) = [a', b', c', d']"
    and ip: "ip = [0x45, 0, hi8 t, lo8 t, 0, 0, 0, 0, 64, 1, 0, 0, a, b, c, d, a', b', c', d']"
    and icmp: "icmp = [3, 3, 0, 0, 0, 0, 0, 0] @ take (unat h + 8) p"
  shows "icmp_packet p h = [0x45, 0, hi8 t, lo8 t, 0, 0, 0, 0, 64, 1, hi8 (checksum ip), lo8 (checksum ip), a, b, c, d, a', b', c', d'] @
    [3, 3, hi8 (checksum icmp), lo8 (checksum icmp), 0, 0, 0, 0] @ take (unat h + 8) p"
proof -
  have add: "unat (x + y) = unat x + unat y" if "unat x + unat y < 65536" for x y :: u16 using that by (simp add: unat_word_ariths)
  have 1: "unat (h + 8) = unat h + 8" using add [of h 8] h by simp
  have "unat (8 + (h + 8)) = unat (8 :: u16) + unat (h + 8)" by (rule add) (use h 1 in simp)
  then have 2: "unat (8 + (h + 8)) = 8 + (unat h + 8)" using 1 by simp
  have "unat (20 + (8 + (h + 8))) = unat (20 :: u16) + unat (8 + (h + 8))" by (rule add) (use h 2 in simp)
  then have 3: "unat (20 + (8 + (h + 8))) = 28 + (unat h + 8)" using 2 by simp
  have tn: "unat t = 28 + (unat h + 8)" unfolding t unat_of_nat using h by simp
  have tw: "20 + (8 + (h + 8)) = t" by (rule word_unat_eq_iff [THEN iffD2]) (simp only: 3 tn)
  note dn = 1 2
  let ?z = "replicate (unat h + 8) (0 :: u8)"
  have r: "replicate (unat t) (0 :: u8) = [0,0,0,0,0,0,0,0,0,0,0,0,0,0,0,0,0,0,0,0,0,0,0,0,0,0,0,0] @ ?z"
    unfolding tn replicate_add by (simp add: numeral_eq_Suc)
  show ?thesis
    unfolding icmp_packet_def Let_def tw r dn src dst
    using len by (simp add: write_at_def ip icmp min_absorb2 numeral_eq_Suc)
qed

lemma slice_4: "n + 4 \<le> length xs \<Longrightarrow> \<exists>a b c d. take 4 (drop n xs) = [a, b, c, d]"
  using length_4 [of "take 4 (drop n xs)"] by simp

lemma icmp_packet_ok:
  assumes h: "unat h = ihl p" and len: "ihl p + 8 \<le> length p" "28 \<le> length p"
  shows "port_unreachable p (icmp_packet p h)"
proof -
  obtain a b c d where src: "take 4 (drop 16 p) = [a, b, c, d]" using slice_4 [of 16 p] len by auto
  obtain a' b' c' d' where dst: "take 4 (drop 12 p) = [a', b', c', d']" using slice_4 [of 12 p] len by auto
  have h60: "unat h \<le> 60" unfolding h ihl_def using mod_less_divisor [of 16 "unat (p ! 0)"] by linarith
  define t :: u16 where "t = of_nat (28 + unat h + 8)"
  have t: "256 * unat (hi8 t) + unat (lo8 t) = 28 + unat h + 8"
    using h60 unfolding unat_hi_lo unfolding t_def unat_of_nat by simp
  define ip where "ip = [0x45, 0, hi8 t, lo8 t, 0, 0, 0, 0, 64, 1, 0, 0, a, b, c, d, a', b', c', d']"
  define icmp where "icmp = [3, 3, 0, 0, 0, 0, 0, 0] @ take (unat h + 8) p"
  let ?q = "take (unat h + 8) p"
  have lay: "icmp_packet p h = [0x45, 0, hi8 t, lo8 t, 0, 0, 0, 0, 64, 1, hi8 (checksum ip), lo8 (checksum ip), a, b, c, d, a', b', c', d'] @
    [3, 3, hi8 (checksum icmp), lo8 (checksum icmp), 0, 0, 0, 0] @ ?q"
    by (rule icmp_packet_layout [OF h60 _ len(2) t_def src dst ip_def icmp_def]) (use h len in simp)
  have q: "length ?q = unat h + 8" using h len by simp
  have v1: "checksum_valid ([0x45, 0, hi8 t, lo8 t, 0, 0, 0, 0, 64, 1] @ hi8 (checksum ip) # lo8 (checksum ip) # [a, b, c, d, a', b', c', d'])"
    by (rule checksum_filled) (simp_all add: ip_def)
  have v2: "checksum_valid ([3, 3] @ hi8 (checksum icmp) # lo8 (checksum icmp) # [0, 0, 0, 0] @ ?q)"
    by (rule checksum_filled) (use h60 in \<open>simp_all add: icmp_def\<close>)
  show ?thesis using v1 v2 q t src dst h unfolding port_unreachable_def lay by (simp add: numeral_eq_Suc)
qed

section \<open>The loop\<close>

text \<open>A packet that ends less than eight bytes behind its header is dropped without an answer.\<close>

definition answered :: "bytes \<Rightarrow> bool" where
  "answered p \<longleftrightarrow> ihl p + 8 \<le> length p"

fun packets :: "tun_event list \<Rightarrow> bytes list" where
  "packets [] = []"
| "packets (Packet p # evs) = p # packets evs"
| "packets (_ # evs) = packets evs"

lemma ihl_less: "ihl p \<le> 60"
  unfolding ihl_def using mod_less_divisor [of 16 "unat (p ! 0)"] by linarith

lemma refused_parse:
  assumes "length p < 65536"
  obtains h port where "parse_udp_packet p (of_nat (length p)) = Some (h, port)"
    "(h \<noteq> 0 \<and> (nd \<and> port \<noteq> 53 \<or> q \<and> port = 443)) = refused nd q p" "refused nd q p \<Longrightarrow> h = of_nat (ihl p) \<and> 28 \<le> length p"
proof -
  obtain h port where p: "parse_udp_packet p (of_nat (length p)) = Some (h, port)"
    "case udp_port p of None \<Rightarrow> h = 0 | Some v \<Rightarrow> unat h = ihl p \<and> h \<noteq> 0 \<and> unat port = v"
    using parse_udp_packet_ok [OF assms] by blast
  have e: "port = 53 \<longleftrightarrow> unat port = 53" "port = 443 \<longleftrightarrow> unat port = 443" by (simp_all add: word_unat_eq_iff)
  show ?thesis
  proof (rule that [OF p(1)])
    show "(h \<noteq> 0 \<and> (nd \<and> port \<noteq> 53 \<or> q \<and> port = 443)) = refused nd q p"
      using p(2) unfolding e by (auto simp: refused_def split: option.splits)
    assume r: "refused nd q p"
    then have "unat h = ihl p" using p(2) by (auto simp: refused_def split: option.splits)
    moreover have "h = of_nat (unat h)" by simp
    ultimately have "h = of_nat (ihl p)" by simp
    moreover have "28 \<le> length p" using r by (auto simp: refused_def udp_port_def split: option.splits if_splits)
    ultimately show "h = of_nat (ihl p) \<and> 28 \<le> length p" by simp
  qed
qed

text \<open>The loop's calls succeed, and the counters are in their range.\<close>

definition tunnel_open :: "net \<Rightarrow> HevTunnel \<Rightarrow> bool" where
  "tunnel_open nt g \<longleftrightarrow> g_run g \<and> n_dtx nt (g_fd g) = [] \<and> n_mem nt = [] \<and> g_input g = [] \<and>
     g_tx_packets g < SIZE_MOD \<and> g_tx_bytes g < SIZE_MOD \<and> g_rx_packets g < SIZE_MOD \<and> g_rx_bytes g < SIZE_MOD"

text \<open>What a stretch of the loop does with the packets it reads.\<close>

definition filtered :: "bytes list \<Rightarrow> net \<Rightarrow> HevTunnel \<Rightarrow> net \<Rightarrow> HevTunnel \<Rightarrow> bool" where
  "filtered ps nt g nt' g' \<longleftrightarrow>
     (let r = refused (g_reject_non_dns_udp g) (g_reject_quic g) in
      g_reject_non_dns_udp g' = g_reject_non_dns_udp g \<and> g_reject_quic g' = g_reject_quic g \<and> g_fd g' = g_fd g \<and>
      g_stack g' = g_stack g @ filter (\<lambda>p. \<not> r p) ps \<and>
      n_live nt' = n_live nt + int (length (filter (\<lambda>p. \<not> r p) ps)) \<and>
      g_tx_packets g' = (g_tx_packets g + length ps) mod SIZE_MOD \<and> g_tx_bytes g' = (g_tx_bytes g + length (concat ps)) mod SIZE_MOD \<and>
      (\<exists>outs. n_dout nt' (g_fd g) = n_dout nt (g_fd g) @ map (Pair None) outs \<and>
         list_all2 port_unreachable (filter (\<lambda>p. r p \<and> answered p) ps) outs \<and>
         g_rx_packets g' = (g_rx_packets g + length outs) mod SIZE_MOD \<and> g_rx_bytes g' = (g_rx_bytes g + length (concat outs)) mod SIZE_MOD))"

lemma filtered_refl: "tunnel_open nt g \<Longrightarrow> filtered [] nt g nt g"
  by (simp add: filtered_def tunnel_open_def)

lemma filtered_trans:
  assumes "filtered ps nt g nt1 g1" "filtered qs nt1 g1 nt2 g2" shows "filtered (ps @ qs) nt g nt2 g2"
proof -
  obtain o1 o2 where "n_dout nt1 (g_fd g) = n_dout nt (g_fd g) @ map (Pair None) o1"
     "list_all2 port_unreachable (filter (\<lambda>p. refused (g_reject_non_dns_udp g) (g_reject_quic g) p \<and> answered p) ps) o1"
     "g_rx_packets g1 = (g_rx_packets g + length o1) mod SIZE_MOD" "g_rx_bytes g1 = (g_rx_bytes g + length (concat o1)) mod SIZE_MOD"
     "n_dout nt2 (g_fd g) = n_dout nt1 (g_fd g) @ map (Pair None) o2"
     "list_all2 port_unreachable (filter (\<lambda>p. refused (g_reject_non_dns_udp g) (g_reject_quic g) p \<and> answered p) qs) o2"
     "g_rx_packets g2 = (g_rx_packets g1 + length o2) mod SIZE_MOD" "g_rx_bytes g2 = (g_rx_bytes g1 + length (concat o2)) mod SIZE_MOD"
    using assms by (auto simp: filtered_def Let_def)
  then have "\<exists>outs. n_dout nt2 (g_fd g) = n_dout nt (g_fd g) @ map (Pair None) outs \<and>
     list_all2 port_unreachable (filter (\<lambda>p. refused (g_reject_non_dns_udp g) (g_reject_quic g) p \<and> answered p) (ps @ qs)) outs \<and>
     g_rx_packets g2 = (g_rx_packets g + length outs) mod SIZE_MOD \<and> g_rx_bytes g2 = (g_rx_bytes g + length (concat outs)) mod SIZE_MOD"
    by (intro exI [of _ "o1 @ o2"]) (simp add: list_all2_appendI mod_add_left_eq add.assoc)
  then show ?thesis using assms by (simp add: filtered_def Let_def mod_add_left_eq add.assoc)
qed

lemma answer_ok:
  assumes "tunnel_open nt g" "answered p" "28 \<le> length p" "length p < 65536"
  shows "\<exists>nt' g'. send_icmp_port_unreachable nt g p (of_nat (length p)) (of_nat (ihl p)) = (nt', g') \<and> tunnel_open nt' g' \<and>
    n_live nt' = n_live nt \<and> g' = g\<lparr>g_rx_packets := g_rx_packets g', g_rx_bytes := g_rx_bytes g'\<rparr> \<and>
    (\<exists>out. port_unreachable p out \<and> n_dout nt' (g_fd g) = n_dout nt (g_fd g) @ [(None, out)] \<and>
      g_rx_packets g' = (g_rx_packets g + 1) mod SIZE_MOD \<and> g_rx_bytes g' = (g_rx_bytes g + length out) mod SIZE_MOD)"
proof -
  let ?h = "of_nat (ihl p) :: u16" and ?out = "icmp_packet p (of_nat (ihl p))"
  have h: "unat ?h = ihl p" using ihl_less [of p] by (simp add: unat_of_nat)
  have out: "port_unreachable p ?out" by (rule icmp_packet_ok [OF h]) (use assms in \<open>simp_all add: answered_def\<close>)
  then have pos: "?out \<noteq> []" by (auto simp: port_unreachable_def)
  have "unat (?h + 8) = ihl p + 8" using h ihl_less [of p] by (simp add: unat_word_ariths)
  then have n: "\<not> (of_nat (length p) :: u16) < ?h + 8" using assms(2,4) by (simp add: word_less_nat_alt unat_of_nat answered_def)
  define g' where "g' = g\<lparr>g_rx_packets := sz_add (g_rx_packets g) 1, g_rx_bytes := sz_add (g_rx_bytes g) (length ?out)\<rparr>"
  define nt' where "nt' = nt\<lparr>n_dout := (n_dout nt)(g_fd g := n_dout nt (g_fd g) @ [(None, ?out)])\<rparr>"
  have e: "send_icmp_port_unreachable nt g p (of_nat (length p)) ?h = (nt', g')"
    using n assms(1) pos by (simp add: send_icmp_port_unreachable_def hev_malloc_def tunnel_open_def netif_output_handler_def hev_tunnel_write_def
      hev_free_def g'_def nt'_def)
  have "tunnel_open nt' g'" using assms(1) by (simp add: tunnel_open_def g'_def nt'_def sz_add_def SIZE_MOD_def)
  moreover have "n_live nt' = n_live nt" "n_dout nt' (g_fd g) = n_dout nt (g_fd g) @ [(None, ?out)]" by (simp_all add: nt'_def)
  moreover have "g' = g\<lparr>g_rx_packets := g_rx_packets g', g_rx_bytes := g_rx_bytes g'\<rparr>"
    "g_rx_packets g' = (g_rx_packets g + 1) mod SIZE_MOD" "g_rx_bytes g' = (g_rx_bytes g + length ?out) mod SIZE_MOD"
    by (simp_all add: g'_def sz_add_def)
  ultimately show ?thesis using e out by blast
qed

lemma filtered_keeps: "filtered ps nt g nt' g' \<Longrightarrow> n_live nt'' = n_live nt \<Longrightarrow> n_dout nt'' = n_dout nt \<Longrightarrow> filtered ps nt'' g nt' g'"
  by (simp add: filtered_def)

lemma turn_ok:
  assumes "tunnel_open nt g" "ev \<noteq> Stopped" "\<forall>p \<in> set (packets [ev]). p \<noteq> [] \<and> length p \<le> mtu" "mtu < 65536"
  shows "\<exists>nt' g'. lwip_io_turn mtu ev nt g = Some (nt', g') \<and> tunnel_open nt' g' \<and> filtered (packets [ev]) nt g nt' g'"
proof (cases ev)
  case Failed
  then have "lwip_io_turn mtu ev nt g = Some (nt, g)"
    using assms(1) by (simp add: lwip_io_turn_def hev_tunnel_read_def hev_malloc_def tunnel_open_def hev_free_def)
  then show ?thesis using Failed assms(1) filtered_refl by simp
next
  case (Packet p)
  then have p: "p \<noteq> []" "length p \<le> mtu" "length p < 65536" using assms(3,4) by auto
  let ?nd = "g_reject_non_dns_udp g" and ?q = "g_reject_quic g"
  define nt1 where "nt1 = nt\<lparr>n_live := n_live nt + 1\<rparr>"
  define g1 where "g1 = g\<lparr>g_tx_packets := sz_add (g_tx_packets g) 1, g_tx_bytes := sz_add (g_tx_bytes g) (length p)\<rparr>"
  have open1: "tunnel_open nt1 g1" using assms(1) by (simp add: tunnel_open_def nt1_def g1_def sz_add_def SIZE_MOD_def)
  have g1: "g_reject_non_dns_udp g1 = ?nd" "g_reject_quic g1 = ?q" "g_fd g1 = g_fd g" "g_rx_packets g1 = g_rx_packets g" "g_rx_bytes g1 = g_rx_bytes g"
    "g_tx_packets g1 = (g_tx_packets g + 1) mod SIZE_MOD" "g_tx_bytes g1 = (g_tx_bytes g + length p) mod SIZE_MOD" "g_stack g1 = g_stack g" "g_input g1 = []"
    using assms(1) by (simp_all add: g1_def sz_add_def tunnel_open_def)
  have rd: "hev_tunnel_read mtu ev nt g = (nt1, g, Some p)"
    using Packet p assms(1,4) by (simp add: hev_tunnel_read_def hev_malloc_def tunnel_open_def nt1_def Let_def)
  obtain h port where pr: "parse_udp_packet p (of_nat (length p)) = Some (h, port)"
    "(h \<noteq> 0 \<and> (?nd \<and> port \<noteq> 53 \<or> ?q \<and> port = 443)) = refused ?nd ?q p" "refused ?nd ?q p \<Longrightarrow> h = of_nat (ihl p) \<and> 28 \<le> length p"
    using refused_parse [OF p(3), of ?nd ?q] by blast
  have e: "lwip_io_turn mtu ev nt g = (if refused ?nd ?q p
      then case send_icmp_port_unreachable nt1 g1 p (of_nat (length p)) h of (nt, g) \<Rightarrow> Some (hev_free nt, g) else Some (netif_input nt1 g1 p))"
    using pr(1,2) by (simp add: lwip_io_turn_def rd Let_def g1_def)
  show ?thesis
  proof (cases "refused ?nd ?q p")
    case False
    have ni: "netif_input nt1 g1 p = (nt1, g1\<lparr>g_stack := g_stack g @ [p]\<rparr>)" using g1 by (simp add: netif_input_def)
    have "tunnel_open nt1 (g1\<lparr>g_stack := g_stack g @ [p]\<rparr>)" using open1 by (simp add: tunnel_open_def)
    moreover have "filtered (packets [ev]) nt g nt1 (g1\<lparr>g_stack := g_stack g @ [p]\<rparr>)"
      using Packet False g1 assms(1) by (simp add: filtered_def nt1_def tunnel_open_def)
    ultimately show ?thesis using e False ni by simp
  next
    case True
    then have h: "h = of_nat (ihl p)" "28 \<le> length p" using pr(3) by simp_all
    show ?thesis
    proof (cases "answered p")
      case ans: True
      obtain nt2 g2 out where 2: "send_icmp_port_unreachable nt1 g1 p (of_nat (length p)) (of_nat (ihl p)) = (nt2, g2)" "tunnel_open nt2 g2"
        "n_live nt2 = n_live nt1" "g2 = g1\<lparr>g_rx_packets := g_rx_packets g2, g_rx_bytes := g_rx_bytes g2\<rparr>"
        "port_unreachable p out" "n_dout nt2 (g_fd g1) = n_dout nt1 (g_fd g1) @ [(None, out)]"
        "g_rx_packets g2 = (g_rx_packets g1 + 1) mod SIZE_MOD" "g_rx_bytes g2 = (g_rx_bytes g1 + length out) mod SIZE_MOD"
        using answer_ok [OF open1 ans h(2) p(3)] by blast
      obtain a b where g2: "g2 = g1\<lparr>g_rx_packets := a, g_rx_bytes := b\<rparr>" using 2(4) by blast
      have ex: "\<exists>outs. n_dout (hev_free nt2) (g_fd g) = n_dout nt (g_fd g) @ map (Pair None) outs \<and> list_all2 port_unreachable [p] outs \<and>
          g_rx_packets g2 = (g_rx_packets g + length outs) mod SIZE_MOD \<and> g_rx_bytes g2 = (g_rx_bytes g + length (concat outs)) mod SIZE_MOD"
        using 2(5-8) g1 by (intro exI [of _ "[out]"]) (simp add: hev_free_def nt1_def)
      have "filtered (packets [ev]) nt g (hev_free nt2) g2"
        using Packet True ans ex 2(3) g1 by (simp add: filtered_def g2 hev_free_def nt1_def)
      moreover have "tunnel_open (hev_free nt2) g2" using 2(2) by (simp add: tunnel_open_def hev_free_def)
      ultimately show ?thesis using e True h(1) 2(1) by simp
    next
      case False
      have "unat (of_nat (ihl p) :: u16) = ihl p" using ihl_less [of p] by (simp add: unat_of_nat)
      then have "unat (of_nat (ihl p) + 8 :: u16) = ihl p + 8" using ihl_less [of p] by (simp add: unat_word_ariths)
      then have "(of_nat (length p) :: u16) < of_nat (ihl p) + 8" using False p(3) by (simp add: word_less_nat_alt unat_of_nat answered_def)
      then have "send_icmp_port_unreachable nt1 g1 p (of_nat (length p)) h = (nt1, g1)" using h by (simp add: send_icmp_port_unreachable_def)
      moreover have "filtered (packets [ev]) nt g (hev_free nt1) g1"
        using Packet True False g1 assms(1) by (simp add: filtered_def nt1_def hev_free_def tunnel_open_def)
      moreover have "tunnel_open (hev_free nt1) g1" using open1 by (simp add: tunnel_open_def hev_free_def)
      ultimately show ?thesis using e True by simp
    qed
  qed
qed (use assms(2) in simp)

lemma packets_Cons: "packets (ev # evs) = packets [ev] @ packets evs"
  by (cases ev) simp_all

text \<open>C11. The packet loop refuses exactly the UDP packets it is set to refuse: while its calls succeed, it hands every
  other packet to the network stack, unchanged and in order; it answers every refused packet that carries a whole UDP header with one
  valid ICMP message "port unreachable" on the device, in order; no read leaves a packet; and the counters and live allocations are
  those of the packets read, written and handed on.\<close>

theorem tunnel_filters_packets:
  assumes "tunnel_open nt g" "Stopped \<notin> set evs" "\<forall>p \<in> set (packets evs). p \<noteq> [] \<and> length p \<le> mtu" "mtu < 65536"
  shows "\<exists>nt' g'. lwip_io_task_entry mtu evs nt g = Some (nt', g') \<and> filtered (packets evs) nt g nt' g'"
  using assms
proof (induction evs arbitrary: nt g)
  case Nil
  then show ?case using filtered_refl by simp
next
  case (Cons ev evs)
  have p: "\<forall>p \<in> set (packets [ev]). p \<noteq> [] \<and> length p \<le> mtu" "\<forall>p \<in> set (packets evs). p \<noteq> [] \<and> length p \<le> mtu"
    using Cons.prems(3) by (auto simp: packets_Cons [of ev evs] simp del: packets.simps)
  obtain nt1 g1 where 1: "lwip_io_turn mtu ev nt g = Some (nt1, g1)" "tunnel_open nt1 g1" "filtered (packets [ev]) nt g nt1 g1"
    using turn_ok [OF Cons.prems(1) _ p(1)] Cons.prems(2,4) by auto
  obtain nt2 g2 where 2: "lwip_io_task_entry mtu evs nt1 g1 = Some (nt2, g2)" "filtered (packets evs) nt1 g1 nt2 g2"
    using Cons.IH [OF 1(2) _ p(2)] Cons.prems(2,4) by auto
  have "g_run g" using Cons.prems(1) by (simp add: tunnel_open_def)
  then show ?case using 1(1) 2 filtered_trans [OF 1(3) 2(2)] by (simp add: packets_Cons [of ev evs] del: packets.simps)
qed

section \<open>Witness\<close>

definition example_tunnel :: HevTunnel where
  "example_tunnel = \<lparr>g_run = True, g_reject_quic = True, g_reject_non_dns_udp = False, g_fd = 5, g_tx_packets = 0, g_tx_bytes = 0,
     g_rx_packets = 0, g_rx_bytes = 0, g_stack = [], g_input = []\<rparr>"

text \<open>A QUIC packet and a DNS query, both from 10.0.0.1 to 1.2.3.4.\<close>

definition example_udp :: "u8 \<Rightarrow> u8 \<Rightarrow> bytes" where
  "example_udp hi lo = [0x45, 0, 0, 29, 0, 0, 0, 0, 64, 17, 0, 0, 10, 0, 0, 1, 1, 2, 3, 4, 0x30, 0x39, hi, lo, 0, 9, 0, 0, 0xAB]"

lemma tunnel_filters_packets_witness:
  "\<exists>nt' g' out. lwip_io_task_entry 1500 [Packet (example_udp 1 0xBB), Failed, Packet (example_udp 0 53)] (quiet_net (\<lambda>_. [])) example_tunnel = Some (nt', g') \<and>
     g_stack g' = [example_udp 0 53] \<and> n_dout nt' 5 = [(None, out)] \<and> port_unreachable (example_udp 1 0xBB) out \<and> g_rx_bytes g' = length out"
proof -
  let ?e = "[Packet (example_udp 1 0xBB), Failed, Packet (example_udp 0 53)]"
  have "tunnel_open (quiet_net (\<lambda>_. [])) example_tunnel" by (simp add: tunnel_open_def quiet_net_def example_tunnel_def SIZE_MOD_def)
  then obtain nt' g' where r: "lwip_io_task_entry 1500 ?e (quiet_net (\<lambda>_. [])) example_tunnel = Some (nt', g')"
    "filtered (packets ?e) (quiet_net (\<lambda>_. [])) example_tunnel nt' g'"
    using tunnel_filters_packets [of "quiet_net (\<lambda>_. [])" example_tunnel ?e 1500] by (auto simp: example_udp_def)
  have d: "udp_port (example_udp 1 0xBB) = Some 443" "udp_port (example_udp 0 53) = Some 53" "answered (example_udp 1 0xBB)"
    by (simp_all add: udp_port_def ihl_def example_udp_def answered_def)
  obtain outs where o: "n_dout nt' 5 = map (Pair None) outs" "list_all2 port_unreachable [example_udp 1 0xBB] outs"
    "g_rx_bytes g' = length (concat outs) mod SIZE_MOD" "g_stack g' = [example_udp 0 53]"
    using r(2) d by (auto simp: filtered_def Let_def refused_def example_tunnel_def quiet_net_def)
  then obtain out where out: "outs = [out]" "port_unreachable (example_udp 1 0xBB) out" by (auto simp: list_all2_Cons1)
  then have "length out = 56" by (simp add: port_unreachable_def ihl_def example_udp_def)
  then show ?thesis using r(1) o out by (simp add: SIZE_MOD_def)
qed

end
