(* ===== verification/Config.thy ===== *)
theory Config
  imports ClientLife Socks5UDP
begin

text \<open>
  The configuration (\<open>hev-config.c\<close>): a document of \<open>libyaml\<close> is parsed, section by section, into the
  program's settings. Strings go through buffers of fixed size, numbers through \<open>strtoul\<close> and \<open>strtol\<close>, whose behaviour on
  a machine with 64-bit \<open>long\<close> is written out, addresses through \<open>inet_pton\<close>. The parser that makes the document is an argument.
\<close>

section \<open>Documents\<close>

text \<open>A document of \<open>libyaml\<close> is the list of its nodes, which refer to each other by their position, from 1; 0 is no node.\<close>

datatype yaml_node =
    YAML_NO_NODE
  | YAML_SCALAR_NODE bytes
  | YAML_SEQUENCE_NODE "int list"
  | YAML_MAPPING_NODE "(int \<times> int) list"

type_synonym yaml_document = "yaml_node list"

definition yaml_document_get_node :: "yaml_document \<Rightarrow> int \<Rightarrow> yaml_node option" where
  "yaml_document_get_node doc index = (if 0 < index \<and> index \<le> int (length doc) then Some (doc ! (nat index - 1)) else None)"

definition yaml_document_get_root_node :: "yaml_document \<Rightarrow> yaml_node option" where
  "yaml_document_get_root_node doc = (if doc \<noteq> [] then Some (doc ! 0) else None)"

section \<open>The C library\<close>

text \<open>C strings are the bytes before the terminator. A buffer that was zero before holds, after
  \<open>strncpy\<close> with a count less than its size, at most that many bytes of the source.\<close>

definition c_string :: "bytes \<Rightarrow> bytes" where
  "c_string bs = takeWhile (\<lambda>b. b \<noteq> 0) bs"

definition copy_str :: "bytes \<Rightarrow> nat \<Rightarrow> bytes" where
  "copy_str src n = take n src"

definition ascii :: "string \<Rightarrow> bytes" where
  "ascii s = map of_char s"

definition tolower :: "u8 \<Rightarrow> u8" where
  "tolower c = (if 65 \<le> c \<and> c \<le> 90 then c + 32 else c)"

definition strcaseeq :: "bytes \<Rightarrow> bytes \<Rightarrow> bool" where
  "strcaseeq a b \<longleftrightarrow> map tolower a = map tolower b"

definition isspace :: "u8 \<Rightarrow> bool" where
  "isspace c \<longleftrightarrow> c = 32 \<or> 9 \<le> c \<and> c \<le> 13"

definition digit_value :: "u8 \<Rightarrow> nat" where
  "digit_value c = (let d = tolower c in
     if 48 \<le> d \<and> d \<le> 57 then unat (d - 48) else if 97 \<le> d \<and> d \<le> 122 then unat (d - 97) + 10 else 36)"

fun digits :: "nat \<Rightarrow> nat \<Rightarrow> bytes \<Rightarrow> nat" where
  "digits base v [] = v"
| "digits base v (c # cs) = (if digit_value c < base then digits base (v * base + digit_value c) cs else v)"

text \<open>The sign and the magnitude of a number; base 0 recognises \<open>0x\<close> and a leading zero.\<close>

definition scan_number :: "nat \<Rightarrow> bytes \<Rightarrow> bool \<times> nat" where
  "scan_number base str =
     (let s = dropWhile isspace str;
          neg = (s \<noteq> [] \<and> hd s = 45);
          s = (if s \<noteq> [] \<and> (hd s = 45 \<or> hd s = 43) then tl s else s);
          hex = (case s of a # x # d # _ \<Rightarrow> a = 48 \<and> (x = 120 \<or> x = 88) \<and> digit_value d < 16 | _ \<Rightarrow> False)
      in (neg, if base \<noteq> 0 then digits base 0 s
               else if hex then digits 16 0 (drop 2 s)
               else if s \<noteq> [] \<and> hd s = 48 then digits 8 0 s else digits 10 0 s))"

text \<open>\<open>unsigned long\<close> and \<open>long\<close> have 64 bits; out of range they saturate. Conversions to narrower types wrap.\<close>

definition strtoul :: "bytes \<Rightarrow> nat \<Rightarrow> nat" where
  "strtoul str base = (case scan_number base str of (neg, v) \<Rightarrow>
     if v \<ge> 2 ^ 64 then 2 ^ 64 - 1 else if neg then (2 ^ 64 - v) mod 2 ^ 64 else v)"

definition strtol :: "bytes \<Rightarrow> nat \<Rightarrow> int" where
  "strtol str base = (case scan_number base str of (neg, v) \<Rightarrow>
     if neg then max (- (2 ^ 63)) (- int v) else min (2 ^ 63 - 1) (int v))"

definition to_int :: "int \<Rightarrow> int" where
  "to_int v = (v + 2 ^ 31) mod 2 ^ 32 - 2 ^ 31"

text \<open>\<open>inet_pton\<close> for \<open>AF_INET\<close>: four decimal numbers below 256 without leading zeros. The
  result is the address as an integer in memory (little endian), as \<open>s_addr\<close> is.\<close>

fun pton4 :: "nat list \<Rightarrow> nat option \<Rightarrow> bytes \<Rightarrow> nat list option" where
  "pton4 octets cur [] = (case cur of Some v \<Rightarrow> if length octets = 3 then Some (octets @ [v]) else None | None \<Rightarrow> None)"
| "pton4 octets cur (c # cs) =
     (if 48 \<le> c \<and> c \<le> 57 then
        (case cur of
           None \<Rightarrow> pton4 octets (Some (unat (c - 48))) cs
         | Some v \<Rightarrow> if v = 0 \<or> v * 10 + unat (c - 48) > 255 then None else pton4 octets (Some (v * 10 + unat (c - 48))) cs)
      else if c = 46 then
        (case cur of None \<Rightarrow> None | Some v \<Rightarrow> if length octets = 3 then None else pton4 (octets @ [v]) None cs)
      else None)"

definition of_le :: "nat list \<Rightarrow> u32" where
  "of_le os = of_nat (foldr (\<lambda>v n. v + 256 * n) os 0)"

definition inet_pton4 :: "bytes \<Rightarrow> u32 \<Rightarrow> u32" where
  "inet_pton4 value dst = (case pton4 [] None value of Some os \<Rightarrow> of_le os | None \<Rightarrow> dst)"

definition ntohl :: "u32 \<Rightarrow> u32" where
  "ntohl v = of_le [unat v div 2 ^ 24, unat v div 2 ^ 16 mod 256, unat v div 2 ^ 8 mod 256, unat v mod 256]"

section \<open>State\<close>

record HevConfig =
  cf_tun_name :: bytes
  cf_tun_mtu :: u32
  cf_multi_queue :: bool
  cf_ipv4 :: bytes
  cf_ipv6 :: bytes
  cf_post_up :: bytes
  cf_pre_down :: bytes
  cf_srv :: HevConfigServer
  cf_mapdns_address :: u32
  cf_mapdns_port :: int
  cf_mapdns_network :: u32
  cf_mapdns_netmask :: u32
  cf_mapdns_cache_size :: int
  cf_log_file :: bytes
  cf_pid_file :: bytes
  cf_max_session_count :: int
  cf_task_stack_size :: int
  cf_tcp_buffer_size :: int
  cf_udp_recv_buffer_size :: int
  cf_udp_copy_buffer_nums :: int
  cf_connect_timeout :: int
  cf_tcp_timeout :: int
  cf_udp_timeout :: int
  cf_limit_nofile :: int
  cf_log_level :: int

definition HEV_LOGGER_DEBUG :: int where "HEV_LOGGER_DEBUG = 0"
definition HEV_LOGGER_INFO :: int where "HEV_LOGGER_INFO = 1"
definition HEV_LOGGER_WARN :: int where "HEV_LOGGER_WARN = 2"
definition HEV_LOGGER_ERROR :: int where "HEV_LOGGER_ERROR = 3"

definition config_init :: HevConfig where
  "config_init = \<lparr>cf_tun_name = [], cf_tun_mtu = 8500, cf_multi_queue = False, cf_ipv4 = [], cf_ipv6 = [], cf_post_up = [], cf_pre_down = [],
     cf_srv = \<lparr>srv_user = None, srv_pass = None, srv_mark = 0, srv_udp_in_udp = False, srv_port = 0, srv_pipeline = False, srv_udp_addr = [], srv_addr = []\<rparr>,
     cf_mapdns_address = 0, cf_mapdns_port = 0, cf_mapdns_network = 0, cf_mapdns_netmask = 0, cf_mapdns_cache_size = 0,
     cf_log_file = [], cf_pid_file = [], cf_max_session_count = 0, cf_task_stack_size = 86016, cf_tcp_buffer_size = 65536,
     cf_udp_recv_buffer_size = 524288, cf_udp_copy_buffer_nums = 10, cf_connect_timeout = 10000, cf_tcp_timeout = 300000,
     cf_udp_timeout = 60000, cf_limit_nofile = 65535, cf_log_level = HEV_LOGGER_WARN\<rparr>"

section \<open>The sections\<close>

text \<open>The loop that all sections share: the pairs of a mapping, up to the first whose key is not a scalar or whose value is no
  node; and the pairs of scalars, up to the first that is not one.\<close>

fun keyed_nodes :: "yaml_document \<Rightarrow> (int \<times> int) list \<Rightarrow> (bytes \<times> yaml_node) list" where
  "keyed_nodes doc [] = []"
| "keyed_nodes doc ((k, v) # ps) =
     (if k = 0 \<or> v = 0 then []
      else case (yaml_document_get_node doc k, yaml_document_get_node doc v) of
        (Some (YAML_SCALAR_NODE key), Some node) \<Rightarrow> (c_string key, node) # keyed_nodes doc ps
      | _ \<Rightarrow> [])"

fun scalar_pairs :: "(bytes \<times> yaml_node) list \<Rightarrow> (bytes \<times> bytes) list" where
  "scalar_pairs ((key, YAML_SCALAR_NODE value) # ns) = (key, c_string value) # scalar_pairs ns"
| "scalar_pairs _ = []"

definition hev_config_parse_tunnel_ipv4 :: "yaml_document \<Rightarrow> yaml_node option \<Rightarrow> HevConfig \<Rightarrow> HevConfig \<times> int" where
  "hev_config_parse_tunnel_ipv4 doc base cf =
     (case base of
        Some (YAML_MAPPING_NODE pairs) \<Rightarrow>
          (foldl (\<lambda>cf (key, value). if key = ascii ''address'' then cf\<lparr>cf_ipv4 := copy_str value 15\<rparr> else cf)
             cf (scalar_pairs (keyed_nodes doc pairs)), 0)
      | _ \<Rightarrow> (cf, - 1))"

definition hev_config_parse_tunnel_ipv6 :: "yaml_document \<Rightarrow> yaml_node option \<Rightarrow> HevConfig \<Rightarrow> HevConfig \<times> int" where
  "hev_config_parse_tunnel_ipv6 doc base cf =
     (case base of
        Some (YAML_MAPPING_NODE pairs) \<Rightarrow>
          (foldl (\<lambda>cf (key, value). if key = ascii ''address'' then cf\<lparr>cf_ipv6 := copy_str value 63\<rparr> else cf)
             cf (scalar_pairs (keyed_nodes doc pairs)), 0)
      | _ \<Rightarrow> (cf, - 1))"

definition tunnel_value :: "bytes \<Rightarrow> bytes \<Rightarrow> HevConfig \<Rightarrow> HevConfig" where
  "tunnel_value key value cf =
     (if key = ascii ''name'' then cf\<lparr>cf_tun_name := copy_str value 63\<rparr>
      else if key = ascii ''mtu'' then cf\<lparr>cf_tun_mtu := of_nat (strtoul value 10)\<rparr>
      else if key = ascii ''multi-queue'' then cf\<lparr>cf_multi_queue := \<not> strcaseeq value (ascii ''false'')\<rparr>
      else if key = ascii ''ipv4'' then cf\<lparr>cf_ipv4 := copy_str value 15\<rparr>
      else if key = ascii ''ipv6'' then cf\<lparr>cf_ipv6 := copy_str value 63\<rparr>
      else if key = ascii ''post-up-script'' then cf\<lparr>cf_post_up := copy_str value 63\<rparr>
      else if key = ascii ''pre-down-script'' then cf\<lparr>cf_pre_down := copy_str value 63\<rparr>
      else cf)"

definition hev_config_parse_tunnel :: "yaml_document \<Rightarrow> yaml_node option \<Rightarrow> HevConfig \<Rightarrow> HevConfig \<times> int" where
  "hev_config_parse_tunnel doc base cf =
     (case base of
        Some (YAML_MAPPING_NODE pairs) \<Rightarrow>
          (foldl (\<lambda>cf (key, node).
             case node of
               YAML_SCALAR_NODE value \<Rightarrow> tunnel_value key (c_string value) cf
             | _ \<Rightarrow> if key = ascii ''ipv4'' then fst (hev_config_parse_tunnel_ipv4 doc (Some node) cf)
                    else if key = ascii ''ipv6'' then fst (hev_config_parse_tunnel_ipv6 doc (Some node) cf) else cf)
             cf (keyed_nodes doc pairs), 0)
      | _ \<Rightarrow> (cf, - 1))"

record socks5_args =
  a_addr :: "bytes option"
  a_port :: "bytes option"
  a_udpm :: "bytes option"
  a_udpa :: "bytes option"
  a_user :: "bytes option"
  a_pass :: "bytes option"
  a_mark :: "bytes option"
  a_pipe :: "bytes option"

definition no_args :: socks5_args where
  "no_args = \<lparr>a_addr = None, a_port = None, a_udpm = None, a_udpa = None, a_user = None, a_pass = None, a_mark = None, a_pipe = None\<rparr>"

definition socks5_value :: "bytes \<Rightarrow> bytes \<Rightarrow> socks5_args \<Rightarrow> socks5_args" where
  "socks5_value key value a =
     (if key = ascii ''port'' then a\<lparr>a_port := Some value\<rparr>
      else if key = ascii ''address'' then a\<lparr>a_addr := Some value\<rparr>
      else if key = ascii ''udp'' then a\<lparr>a_udpm := Some value\<rparr>
      else if key = ascii ''udp-address'' then a\<lparr>a_udpa := Some value\<rparr>
      else if key = ascii ''pipeline'' then a\<lparr>a_pipe := Some value\<rparr>
      else if key = ascii ''username'' then a\<lparr>a_user := Some value\<rparr>
      else if key = ascii ''password'' then a\<lparr>a_pass := Some value\<rparr>
      else if key = ascii ''mark'' then a\<lparr>a_mark := Some value\<rparr>
      else a)"

text \<open>What the section sets in the server's settings once its values are complete.\<close>

definition socks5_set :: "socks5_args \<Rightarrow> bytes \<Rightarrow> bytes \<Rightarrow> HevConfigServer \<Rightarrow> HevConfigServer" where
  "socks5_set a port addr srv =
     (let srv = srv\<lparr>srv_addr := copy_str addr 255, srv_port := of_nat (strtoul port 10)\<rparr>;
          srv = (case a_pipe a of Some v \<Rightarrow> if strcaseeq v (ascii ''true'') then srv\<lparr>srv_pipeline := True\<rparr> else srv | None \<Rightarrow> srv);
          srv = (case a_udpm a of Some v \<Rightarrow> if strcaseeq v (ascii ''udp'') then srv\<lparr>srv_udp_in_udp := True\<rparr> else srv | None \<Rightarrow> srv);
          srv = (case a_udpa a of Some v \<Rightarrow> srv\<lparr>srv_udp_addr := copy_str v 255\<rparr> | None \<Rightarrow> srv);
          srv = (case (a_user a, a_pass a) of
                   (Some u, Some p) \<Rightarrow> srv\<lparr>srv_user := Some (copy_str u 255), srv_pass := Some (copy_str p 255)\<rparr>
                 | _ \<Rightarrow> srv)
      in case a_mark a of Some v \<Rightarrow> srv\<lparr>srv_mark := of_nat (strtoul v 0)\<rparr> | None \<Rightarrow> srv)"

definition hev_config_parse_socks5 :: "yaml_document \<Rightarrow> yaml_node option \<Rightarrow> HevConfig \<Rightarrow> HevConfig \<times> int" where
  "hev_config_parse_socks5 doc base cf =
     (case base of
        Some (YAML_MAPPING_NODE pairs) \<Rightarrow>
          (let a = foldl (\<lambda>a (key, value). socks5_value key value a) no_args (scalar_pairs (keyed_nodes doc pairs)) in
           case a_port a of
             None \<Rightarrow> (cf, - 1)
           | Some port \<Rightarrow> (case a_addr a of
               None \<Rightarrow> (cf, - 1)
             | Some addr \<Rightarrow> if (a_user a = None) \<noteq> (a_pass a = None) then (cf, - 1)
                 else (cf\<lparr>cf_srv := socks5_set a port addr (cf_srv cf)\<rparr>, 0)))
      | _ \<Rightarrow> (cf, - 1))"

definition mapdns_value :: "bytes \<Rightarrow> bytes \<Rightarrow> HevConfig \<Rightarrow> HevConfig" where
  "mapdns_value key value cf =
     (if key = ascii ''address'' then cf\<lparr>cf_mapdns_address := inet_pton4 value (cf_mapdns_address cf)\<rparr>
      else if key = ascii ''port'' then cf\<lparr>cf_mapdns_port := to_int (int (strtoul value 10))\<rparr>
      else if key = ascii ''network'' then cf\<lparr>cf_mapdns_network := inet_pton4 value (cf_mapdns_network cf)\<rparr>
      else if key = ascii ''netmask'' then cf\<lparr>cf_mapdns_netmask := inet_pton4 value (cf_mapdns_netmask cf)\<rparr>
      else if key = ascii ''cache-size'' then cf\<lparr>cf_mapdns_cache_size := to_int (int (strtoul value 10))\<rparr>
      else cf)"

definition hev_config_parse_mapdns :: "yaml_document \<Rightarrow> yaml_node option \<Rightarrow> HevConfig \<Rightarrow> HevConfig \<times> int" where
  "hev_config_parse_mapdns doc base cf =
     (case base of
        Some (YAML_MAPPING_NODE pairs) \<Rightarrow>
          (let cf = foldl (\<lambda>cf (key, value). mapdns_value key value cf) cf (scalar_pairs (keyed_nodes doc pairs))
           in (cf\<lparr>cf_mapdns_network := ntohl (cf_mapdns_network cf), cf_mapdns_netmask := ntohl (cf_mapdns_netmask cf)\<rparr>, 0))
      | _ \<Rightarrow> (cf, - 1))"

definition hev_config_parse_log_level :: "bytes \<Rightarrow> int" where
  "hev_config_parse_log_level value =
     (if value = ascii ''debug'' then HEV_LOGGER_DEBUG
      else if value = ascii ''info'' then HEV_LOGGER_INFO
      else if value = ascii ''error'' then HEV_LOGGER_ERROR
      else HEV_LOGGER_WARN)"

text \<open>The three time-outs are local variables of the section: for TCP, for UDP, for both.\<close>

type_synonym rw_timeouts = "int \<times> int \<times> int"

definition misc_value :: "bytes \<Rightarrow> bytes \<Rightarrow> HevConfig \<times> rw_timeouts \<Rightarrow> HevConfig \<times> rw_timeouts" where
  "misc_value key value st =
     (case st of (cf, tcp_rw, udp_rw, rw) \<Rightarrow>
      let n = to_int (int (strtoul value 10)) in
      if key = ascii ''task-stack-size'' then (cf\<lparr>cf_task_stack_size := n\<rparr>, tcp_rw, udp_rw, rw)
      else if key = ascii ''tcp-buffer-size'' then (cf\<lparr>cf_tcp_buffer_size := n\<rparr>, tcp_rw, udp_rw, rw)
      else if key = ascii ''udp-recv-buffer-size'' then (cf\<lparr>cf_udp_recv_buffer_size := n\<rparr>, tcp_rw, udp_rw, rw)
      else if key = ascii ''udp-copy-buffer-nums'' then (cf\<lparr>cf_udp_copy_buffer_nums := n\<rparr>, tcp_rw, udp_rw, rw)
      else if key = ascii ''max-session-count'' then (cf\<lparr>cf_max_session_count := n\<rparr>, tcp_rw, udp_rw, rw)
      else if key = ascii ''connect-timeout'' then (cf\<lparr>cf_connect_timeout := n\<rparr>, tcp_rw, udp_rw, rw)
      else if key = ascii ''read-write-timeout'' then (cf, tcp_rw, udp_rw, n)
      else if key = ascii ''tcp-read-write-timeout'' then (cf, n, udp_rw, rw)
      else if key = ascii ''udp-read-write-timeout'' then (cf, tcp_rw, n, rw)
      else if key = ascii ''pid-file'' then (cf\<lparr>cf_pid_file := copy_str value 1023\<rparr>, tcp_rw, udp_rw, rw)
      else if key = ascii ''log-file'' then (cf\<lparr>cf_log_file := copy_str value 1023\<rparr>, tcp_rw, udp_rw, rw)
      else if key = ascii ''log-level'' then (cf\<lparr>cf_log_level := hev_config_parse_log_level value\<rparr>, tcp_rw, udp_rw, rw)
      else if key = ascii ''limit-nofile'' then (cf\<lparr>cf_limit_nofile := to_int (strtol value 10)\<rparr>, tcp_rw, udp_rw, rw)
      else (cf, tcp_rw, udp_rw, rw))"

definition hev_config_parse_misc :: "yaml_document \<Rightarrow> yaml_node option \<Rightarrow> HevConfig \<Rightarrow> HevConfig \<times> int" where
  "hev_config_parse_misc doc base cf =
     (case base of
        Some (YAML_MAPPING_NODE pairs) \<Rightarrow>
          (case foldl (\<lambda>st (key, value). misc_value key value st) (cf, - 1, - 1, - 1) (scalar_pairs (keyed_nodes doc pairs)) of
             (cf, tcp_rw, udp_rw, rw) \<Rightarrow>
               let tcp_rw = (if tcp_rw \<le> 0 then rw else tcp_rw);
                   udp_rw = (if udp_rw \<le> 0 then rw else udp_rw);
                   cf = (if tcp_rw > 0 then cf\<lparr>cf_tcp_timeout := tcp_rw\<rparr> else cf);
                   cf = (if udp_rw > 0 then cf\<lparr>cf_udp_timeout := udp_rw\<rparr> else cf)
               in (cf, 0))
      | _ \<Rightarrow> (cf, - 1))"

section \<open>The document\<close>

fun parse_sections :: "yaml_document \<Rightarrow> (int \<times> int) list \<Rightarrow> HevConfig \<Rightarrow> HevConfig \<times> int" where
  "parse_sections doc [] cf = (cf, 0)"
| "parse_sections doc ((k, v) # ps) cf =
     (if k = 0 \<or> v = 0 then (cf, 0)
      else case yaml_document_get_node doc k of
        Some (YAML_SCALAR_NODE key) \<Rightarrow>
          (let key = c_string key; node = yaml_document_get_node doc v;
               (cf, res) = (if key = ascii ''tunnel'' then hev_config_parse_tunnel doc node cf
                            else if key = ascii ''socks5'' then hev_config_parse_socks5 doc node cf
                            else if key = ascii ''mapdns'' then hev_config_parse_mapdns doc node cf
                            else if key = ascii ''misc'' then hev_config_parse_misc doc node cf
                            else (cf, 0))
           in if res < 0 then (cf, - 1) else parse_sections doc ps cf)
      | _ \<Rightarrow> (cf, 0))"

definition TCP_SND_BUF :: int where "TCP_SND_BUF = 8 * 8191"
definition TASK_STACK_SIZE :: int where "TASK_STACK_SIZE = 20480"

text \<open>A signed overflow is a failure.\<close>

definition int_ok :: "int \<Rightarrow> int option" where
  "int_ok v = (if - (2 ^ 31) \<le> v \<and> v < 2 ^ 31 then Some v else None)"

definition fit_buffers :: "HevConfig \<Rightarrow> HevConfig option" where
  "fit_buffers cf = do {
     let tcp_buffer_size = (if cf_tcp_buffer_size cf > TCP_SND_BUF then TCP_SND_BUF else cf_tcp_buffer_size cf);
     udp_buffer_size \<leftarrow> int_ok (int UDP_BUF_SIZE * cf_udp_copy_buffer_nums cf);
     min_task_stack_size \<leftarrow> int_ok (TASK_STACK_SIZE + (if tcp_buffer_size > udp_buffer_size then tcp_buffer_size else udp_buffer_size));
     Some (cf\<lparr>cf_tcp_buffer_size := tcp_buffer_size,
              cf_task_stack_size := (if cf_task_stack_size cf < min_task_stack_size then min_task_stack_size else cf_task_stack_size cf)\<rparr>) }"

definition hev_config_parse_doc :: "yaml_document \<Rightarrow> HevConfig \<Rightarrow> (HevConfig \<times> int) option" where
  "hev_config_parse_doc doc cf =
     (case yaml_document_get_root_node doc of
        Some (YAML_MAPPING_NODE pairs) \<Rightarrow>
          (case parse_sections doc pairs cf of (cf, res) \<Rightarrow>
           if res < 0 then Some (cf, - 1) else do { cf \<leftarrow> fit_buffers cf; Some (cf, 0) })
      | _ \<Rightarrow> Some (cf, - 1))"

text \<open>The parser is \<open>libyaml\<close>'s: whether it can be made, and the document it loads, if it accepts the text; \<open>opened\<close>: whether the
  file can be read.\<close>

definition hev_config_init_from_file :: "bool \<Rightarrow> bool \<Rightarrow> yaml_document option \<Rightarrow> HevConfig \<Rightarrow> (HevConfig \<times> int) option" where
  "hev_config_init_from_file parser opened loaded cf =
     (if \<not> parser then Some (cf, - 1)
      else if \<not> opened then Some (cf, - 1)
      else case loaded of None \<Rightarrow> Some (cf, - 1) | Some doc \<Rightarrow> hev_config_parse_doc doc cf)"

definition hev_config_init_from_str :: "bool \<Rightarrow> yaml_document option \<Rightarrow> HevConfig \<Rightarrow> (HevConfig \<times> int) option" where
  "hev_config_init_from_str parser loaded cf =
     (if \<not> parser then Some (cf, - 1)
      else case loaded of None \<Rightarrow> Some (cf, - 1) | Some doc \<Rightarrow> hev_config_parse_doc doc cf)"

section \<open>Getters\<close>

definition hev_config_get_tunnel_name :: "HevConfig \<Rightarrow> bytes option" where
  "hev_config_get_tunnel_name cf = (if cf_tun_name cf = [] then None else Some (cf_tun_name cf))"

definition hev_config_get_tunnel_ipv4_address :: "HevConfig \<Rightarrow> bytes option" where
  "hev_config_get_tunnel_ipv4_address cf = (if cf_ipv4 cf = [] then None else Some (cf_ipv4 cf))"

definition hev_config_get_tunnel_ipv6_address :: "HevConfig \<Rightarrow> bytes option" where
  "hev_config_get_tunnel_ipv6_address cf = (if cf_ipv6 cf = [] then None else Some (cf_ipv6 cf))"

definition hev_config_get_tunnel_post_up_script :: "HevConfig \<Rightarrow> bytes option" where
  "hev_config_get_tunnel_post_up_script cf = (if cf_post_up cf = [] then None else Some (cf_post_up cf))"

definition hev_config_get_tunnel_pre_down_script :: "HevConfig \<Rightarrow> bytes option" where
  "hev_config_get_tunnel_pre_down_script cf = (if cf_pre_down cf = [] then None else Some (cf_pre_down cf))"

definition hev_config_get_misc_pid_file :: "HevConfig \<Rightarrow> bytes option" where
  "hev_config_get_misc_pid_file cf = (if cf_pid_file cf = [] then None else Some (cf_pid_file cf))"

definition hev_config_get_misc_log_file :: "HevConfig \<Rightarrow> bytes" where
  "hev_config_get_misc_log_file cf = (if cf_log_file cf = [] then ascii ''stderr'' else cf_log_file cf)"

section \<open>The type of a configuration\<close>

text \<open>A string that fits its buffer, and an \<open>int\<close>.\<close>

definition str_ok :: "nat \<Rightarrow> bytes \<Rightarrow> bool" where
  "str_ok n s \<longleftrightarrow> length s \<le> n \<and> 0 \<notin> set s"

definition is_int :: "int \<Rightarrow> bool" where
  "is_int v \<longleftrightarrow> - (2 ^ 31) \<le> v \<and> v < 2 ^ 31"

definition server_ok :: "HevConfigServer \<Rightarrow> bool" where
  "server_ok srv \<longleftrightarrow> str_ok 255 (srv_addr srv) \<and> str_ok 255 (srv_udp_addr srv) \<and>
     (case (srv_user srv, srv_pass srv) of (Some u, Some p) \<Rightarrow> str_ok 255 u \<and> str_ok 255 p | (None, None) \<Rightarrow> True | _ \<Rightarrow> False)"

definition config_ok :: "HevConfig \<Rightarrow> bool" where
  "config_ok cf \<longleftrightarrow> str_ok 63 (cf_tun_name cf) \<and> str_ok 15 (cf_ipv4 cf) \<and> str_ok 63 (cf_ipv6 cf) \<and> str_ok 1023 (cf_post_up cf) \<and> str_ok 1023 (cf_pre_down cf) \<and>
     server_ok (cf_srv cf) \<and> str_ok 1023 (cf_log_file cf) \<and> str_ok 1023 (cf_pid_file cf) \<and>
     is_int (cf_mapdns_port cf) \<and> is_int (cf_mapdns_cache_size cf) \<and> is_int (cf_max_session_count cf) \<and> is_int (cf_task_stack_size cf) \<and>
     is_int (cf_tcp_buffer_size cf) \<and> is_int (cf_udp_recv_buffer_size cf) \<and> is_int (cf_udp_copy_buffer_nums cf) \<and> is_int (cf_connect_timeout cf) \<and>
     0 < cf_tcp_timeout cf \<and> is_int (cf_tcp_timeout cf) \<and> 0 < cf_udp_timeout cf \<and> is_int (cf_udp_timeout cf) \<and> is_int (cf_limit_nofile cf) \<and>
     cf_log_level cf \<in> {HEV_LOGGER_DEBUG .. HEV_LOGGER_ERROR}"

text \<open>After a document was accepted the buffer of a TCP session fits the send buffer of the stack, and the
  stacks of the tasks hold the larger of the two kinds of buffers.\<close>

definition buffers_ok :: "HevConfig \<Rightarrow> bool" where
  "buffers_ok cf \<longleftrightarrow> cf_tcp_buffer_size cf \<le> TCP_SND_BUF \<and>
     TASK_STACK_SIZE + max (cf_tcp_buffer_size cf) (int UDP_BUF_SIZE * cf_udp_copy_buffer_nums cf) \<le> cf_task_stack_size cf"

lemma c_string_nonzero: "0 \<notin> set (c_string bs)"
  by (auto simp: c_string_def dest: set_takeWhileD)

lemma str_ok_strncpy [simp]: "0 \<notin> set s \<Longrightarrow> n \<le> m \<Longrightarrow> str_ok m (copy_str s n)"
  by (auto simp: str_ok_def copy_str_def dest: in_set_takeD)

lemma is_int_to_int [simp]: "is_int (to_int v)"
  by (simp add: is_int_def to_int_def)

lemma scalar_pairs_nonzero: "(k, v) \<in> set (scalar_pairs ns) \<Longrightarrow> 0 \<notin> set v"
  by (induction ns rule: scalar_pairs.induct) (auto simp: c_string_nonzero)

lemma foldl_keeps: "I st \<Longrightarrow> (\<And>st x. I st \<Longrightarrow> x \<in> set xs \<Longrightarrow> I (f st x)) \<Longrightarrow> I (foldl f st xs)"
  by (induction xs arbitrary: st) auto

lemma tunnel_value_ok: "config_ok cf \<Longrightarrow> 0 \<notin> set value \<Longrightarrow> config_ok (tunnel_value key value cf)"
  by (simp add: tunnel_value_def config_ok_def)

lemma config_ok_addresses:
  "config_ok cf \<Longrightarrow> str_ok 15 s \<Longrightarrow> config_ok (cf\<lparr>cf_ipv4 := s\<rparr>)"
  "config_ok cf \<Longrightarrow> str_ok 63 s \<Longrightarrow> config_ok (cf\<lparr>cf_ipv6 := s\<rparr>)"
  by (simp_all add: config_ok_def)

lemma ipv4_ok: "config_ok cf \<Longrightarrow> config_ok (fst (hev_config_parse_tunnel_ipv4 doc base cf))"
  unfolding hev_config_parse_tunnel_ipv4_def
  by (auto split: option.splits yaml_node.splits intro!: foldl_keeps [of config_ok] config_ok_addresses dest!: scalar_pairs_nonzero)

lemma ipv6_ok: "config_ok cf \<Longrightarrow> config_ok (fst (hev_config_parse_tunnel_ipv6 doc base cf))"
  unfolding hev_config_parse_tunnel_ipv6_def
  by (auto split: option.splits yaml_node.splits intro!: foldl_keeps [of config_ok] config_ok_addresses dest!: scalar_pairs_nonzero)

lemma tunnel_ok: "config_ok cf \<Longrightarrow> config_ok (fst (hev_config_parse_tunnel doc base cf))"
  unfolding hev_config_parse_tunnel_def
  by (auto split: option.splits yaml_node.splits intro!: foldl_keeps [of config_ok] tunnel_value_ok ipv4_ok ipv6_ok simp: c_string_nonzero)

definition args_ok :: "socks5_args \<Rightarrow> bool" where
  "args_ok a \<longleftrightarrow> (\<forall>v \<in> {a_addr a, a_udpa a, a_user a, a_pass a}. \<forall>s. v = Some s \<longrightarrow> 0 \<notin> set s)"

lemma socks5_value_ok: "args_ok a \<Longrightarrow> 0 \<notin> set value \<Longrightarrow> args_ok (socks5_value key value a)"
  by (simp add: socks5_value_def args_ok_def)

lemma socks5_set_ok:
  assumes "args_ok a" "a_addr a = Some addr" "server_ok srv" "(a_user a = None) = (a_pass a = None)"
  shows "server_ok (socks5_set a port addr srv)"
proof -
  have addr: "0 \<notin> set addr" "\<And>s. a_udpa a = Some s \<Longrightarrow> 0 \<notin> set s" "\<And>s. a_user a = Some s \<Longrightarrow> 0 \<notin> set s" "\<And>s. a_pass a = Some s \<Longrightarrow> 0 \<notin> set s"
    using assms(1,2) by (auto simp: args_ok_def)
  then show ?thesis using assms(3,4) by (cases "a_user a"; cases "a_pass a") (auto simp: socks5_set_def server_ok_def Let_def split: option.splits)
qed

lemma args_ok_no: "args_ok no_args"
  by (simp add: args_ok_def no_args_def)

lemma socks5_ok:
  assumes "config_ok cf" shows "config_ok (fst (hev_config_parse_socks5 doc base cf))"
proof -
  have "args_ok (foldl (\<lambda>a (key, value). socks5_value key value a) no_args (scalar_pairs ns))" for ns
    by (rule foldl_keeps) (auto simp: args_ok_no intro!: socks5_value_ok dest: scalar_pairs_nonzero)
  then show ?thesis
    using assms socks5_set_ok
    by (auto simp: hev_config_parse_socks5_def Let_def config_ok_def split: option.splits yaml_node.splits)
qed

lemma mapdns_value_ok: "config_ok cf \<Longrightarrow> config_ok (mapdns_value key value cf)"
  by (simp add: mapdns_value_def config_ok_def)

lemma config_ok_network: "config_ok cf \<Longrightarrow> config_ok (cf\<lparr>cf_mapdns_network := a, cf_mapdns_netmask := b\<rparr>)"
  by (simp add: config_ok_def)

lemma mapdns_ok: "config_ok cf \<Longrightarrow> config_ok (fst (hev_config_parse_mapdns doc base cf))"
  unfolding hev_config_parse_mapdns_def Let_def
  by (auto split: option.splits yaml_node.splits intro!: config_ok_network foldl_keeps [of config_ok] mapdns_value_ok)

definition misc_ok :: "HevConfig \<times> rw_timeouts \<Rightarrow> bool" where
  "misc_ok st \<longleftrightarrow> (case st of (cf, a, b, c) \<Rightarrow> config_ok cf \<and> is_int a \<and> is_int b \<and> is_int c)"

lemma log_level_ok: "hev_config_parse_log_level v \<in> {HEV_LOGGER_DEBUG .. HEV_LOGGER_ERROR}"
  by (simp add: hev_config_parse_log_level_def HEV_LOGGER_DEBUG_def HEV_LOGGER_INFO_def HEV_LOGGER_WARN_def HEV_LOGGER_ERROR_def)

lemma misc_value_ok:
  assumes "misc_ok st" "0 \<notin> set value" shows "misc_ok (misc_value key value st)"
proof -
  obtain cf a b c where st: "st = (cf, a, b, c)" by (rule prod_cases4)
  then have ok: "config_ok cf" "is_int a" "is_int b" "is_int c"
    using assms(1) by (simp_all add: misc_ok_def)
  show ?thesis unfolding st misc_value_def misc_ok_def Let_def using ok assms(2) log_level_ok [of "value"] by (simp add: config_ok_def)
qed

lemma misc_ok_timeouts: "config_ok cf \<Longrightarrow> is_int t \<Longrightarrow> 0 < t \<Longrightarrow> config_ok (cf\<lparr>cf_tcp_timeout := t\<rparr>)"
  "config_ok cf \<Longrightarrow> is_int t \<Longrightarrow> 0 < t \<Longrightarrow> config_ok (cf\<lparr>cf_udp_timeout := t\<rparr>)"
  by (simp_all add: config_ok_def)

lemma misc_section_ok:
  assumes "config_ok cf" shows "config_ok (fst (hev_config_parse_misc doc base cf))"
proof (cases "\<exists>pairs. base = Some (YAML_MAPPING_NODE pairs)")
  case True
  then obtain pairs where b: "base = Some (YAML_MAPPING_NODE pairs)" by blast
  let ?st = "foldl (\<lambda>st (key, value). misc_value key value st) (cf, - 1, - 1, - 1) (scalar_pairs (keyed_nodes doc pairs))"
  have "misc_ok ?st"
  proof (rule foldl_keeps)
    show "misc_ok (cf, - 1, - 1, - 1)" using assms by (simp add: misc_ok_def is_int_def)
  qed (auto intro!: misc_value_ok dest: scalar_pairs_nonzero)
  then obtain cf1 a b c where st: "?st = (cf1, a, b, c)" "config_ok cf1" "is_int a" "is_int b" "is_int c" by (auto simp: misc_ok_def)
  then show ?thesis unfolding hev_config_parse_misc_def b by (auto simp: Let_def intro!: misc_ok_timeouts)
qed (use assms in \<open>auto simp: hev_config_parse_misc_def split: option.splits yaml_node.splits\<close>)

lemma sections_ok: "config_ok cf \<Longrightarrow> config_ok (fst (parse_sections doc ps cf))"
proof (induction doc ps cf rule: parse_sections.induct)
  case (2 doc k v ps cf)
  show ?case
  proof (cases "k = 0 \<or> v = 0 \<or> (\<forall>key. yaml_document_get_node doc k \<noteq> Some (YAML_SCALAR_NODE key))")
    case True
    then show ?thesis using "2.prems" by (auto split: option.splits yaml_node.splits)
  next
    case False
    then obtain key0 where k: "yaml_document_get_node doc k = Some (YAML_SCALAR_NODE key0)" by blast
    let ?key = "c_string key0" and ?node = "yaml_document_get_node doc v"
    obtain cf1 res where 1: "(if ?key = ascii ''tunnel'' then hev_config_parse_tunnel doc ?node cf
                            else if ?key = ascii ''socks5'' then hev_config_parse_socks5 doc ?node cf
                            else if ?key = ascii ''mapdns'' then hev_config_parse_mapdns doc ?node cf
                            else if ?key = ascii ''misc'' then hev_config_parse_misc doc ?node cf
                            else (cf, 0)) = (cf1, res)" by (rule prod.exhaust)
    then have ok: "config_ok cf1"
      using "2.prems" tunnel_ok [of cf doc ?node] socks5_ok [of cf doc ?node] mapdns_ok [of cf doc ?node] misc_section_ok [of cf doc ?node]
      by (auto split: if_splits)
    have e: "parse_sections doc ((k, v) # ps) cf = (if res < 0 then (cf1, - 1) else parse_sections doc ps cf1)"
      using False k 1 by (simp add: Let_def)
    show ?thesis
    proof (cases "res < 0")
      case True
      then show ?thesis using e ok by simp
    next
      case res: False
      have "config_ok (fst (parse_sections doc ps cf1))"
        using "2.IH" [OF _ k refl refl refl refl 1 [symmetric] res ok] False by blast
      then show ?thesis using e res by simp
    qed
  qed
qed simp

lemma config_ok_buffers: "config_ok cf \<Longrightarrow> is_int a \<Longrightarrow> is_int b \<Longrightarrow> config_ok (cf\<lparr>cf_tcp_buffer_size := a, cf_task_stack_size := b\<rparr>)"
  by (simp add: config_ok_def)


section \<open>The server's settings\<close>

text \<open>The value of a key that is given several times is the last one.\<close>

definition setting :: "(bytes \<times> bytes) list \<Rightarrow> string \<Rightarrow> bytes option" where
  "setting kvs key = map_of (rev kvs) (ascii key)"

lemma setting_snoc: "setting (kvs @ [(k, v)]) key = (if k = ascii key then Some v else setting kvs key)"
  by (simp add: setting_def)

lemma ascii_keys: "distinct [ascii ''port'', ascii ''address'', ascii ''udp'', ascii ''udp-address'', ascii ''pipeline'', ascii ''username'', ascii ''password'', ascii ''mark'']"
  by (simp add: ascii_def)

lemma socks5_args_settings:
  "foldl (\<lambda>a (key, v). socks5_value key v a) no_args kvs =
     \<lparr>a_addr = setting kvs ''address'', a_port = setting kvs ''port'', a_udpm = setting kvs ''udp'', a_udpa = setting kvs ''udp-address'',
      a_user = setting kvs ''username'', a_pass = setting kvs ''password'', a_mark = setting kvs ''mark'', a_pipe = setting kvs ''pipeline''\<rparr>"
proof (induction kvs rule: rev_induct)
  case Nil
  then show ?case by (simp add: no_args_def setting_def)
next
  case (snoc kv kvs)
  obtain k v where kv: "kv = (k, v)" by (rule prod.exhaust)
  show ?case unfolding kv setting_snoc foldl_append snoc.IH using ascii_keys by (simp add: socks5_value_def)
qed

text \<open>The settings of the server as the documentation of the section gives them, over the settings before.\<close>

definition server_settings :: "(bytes \<times> bytes) list \<Rightarrow> bytes \<Rightarrow> bytes \<Rightarrow> HevConfigServer \<Rightarrow> HevConfigServer" where
  "server_settings kvs port addr srv =
     \<lparr>srv_user = (case setting kvs ''username'' of Some u \<Rightarrow> Some (take 255 u) | None \<Rightarrow> srv_user srv),
      srv_pass = (case setting kvs ''password'' of Some p \<Rightarrow> Some (take 255 p) | None \<Rightarrow> srv_pass srv),
      srv_mark = (case setting kvs ''mark'' of Some m \<Rightarrow> of_nat (strtoul m 0) | None \<Rightarrow> srv_mark srv),
      srv_udp_in_udp = (srv_udp_in_udp srv \<or> (\<exists>v. setting kvs ''udp'' = Some v \<and> strcaseeq v (ascii ''udp''))),
      srv_port = of_nat (strtoul port 10),
      srv_pipeline = (srv_pipeline srv \<or> (\<exists>v. setting kvs ''pipeline'' = Some v \<and> strcaseeq v (ascii ''true''))),
      srv_udp_addr = (case setting kvs ''udp-address'' of Some a \<Rightarrow> take 255 a | None \<Rightarrow> srv_udp_addr srv),
      srv_addr = take 255 addr\<rparr>"

lemma socks5_set_settings:
  assumes "(a_user a = None) = (a_pass a = None)" "a = \<lparr>a_addr = setting kvs ''address'', a_port = setting kvs ''port'', a_udpm = setting kvs ''udp'',
    a_udpa = setting kvs ''udp-address'', a_user = setting kvs ''username'', a_pass = setting kvs ''password'', a_mark = setting kvs ''mark'',
    a_pipe = setting kvs ''pipeline''\<rparr>"
  shows "socks5_set a port addr srv = server_settings kvs port addr srv"
proof -
  have f: "a_udpm a = setting kvs ''udp''" "a_udpa a = setting kvs ''udp-address''" "a_user a = setting kvs ''username''" "a_pass a = setting kvs ''password''"
    "a_mark a = setting kvs ''mark''" "a_pipe a = setting kvs ''pipeline''" using assms(2) by simp_all
  show ?thesis
    using assms(1) unfolding socks5_set_def server_settings_def Let_def copy_str_def f
    by (cases "setting kvs ''username''"; cases "setting kvs ''password''") (simp_all split: option.split)
qed

text \<open>The section of the SOCKS server: it is accepted exactly when the pairs of scalars before the
  first value that is none give a port and an address, and a user name exactly when they give a password; then the
  settings are those of the last value of every key, over the settings before, and nothing else is changed; otherwise nothing is
  changed at all.\<close>

theorem config_server_section:
  "hev_config_parse_socks5 doc (Some (YAML_MAPPING_NODE pairs)) cf =
     (let kvs = scalar_pairs (keyed_nodes doc pairs) in
      case (setting kvs ''port'', setting kvs ''address'') of
        (Some port, Some addr) \<Rightarrow>
          if (setting kvs ''username'' = None) = (setting kvs ''password'' = None)
          then (cf\<lparr>cf_srv := server_settings kvs port addr (cf_srv cf)\<rparr>, 0) else (cf, - 1)
      | _ \<Rightarrow> (cf, - 1))"
proof -
  define kvs where "kvs = scalar_pairs (keyed_nodes doc pairs)"
  define a where "a = foldl (\<lambda>a (key, value). socks5_value key value a) no_args kvs"
  note s = socks5_args_settings [of kvs, folded a_def]
  have f: "a_port a = setting kvs ''port''" "a_addr a = setting kvs ''address''" "a_user a = setting kvs ''username''" "a_pass a = setting kvs ''password''"
    unfolding s by simp_all
  have set: "socks5_set a port addr srv = server_settings kvs port addr srv" if "(setting kvs ''username'' = None) = (setting kvs ''password'' = None)" for port addr srv
    by (rule socks5_set_settings [OF _ s]) (use that f in simp)
  have e: "hev_config_parse_socks5 doc (Some (YAML_MAPPING_NODE pairs)) cf =
     (case a_port a of None \<Rightarrow> (cf, - 1) | Some port \<Rightarrow> (case a_addr a of None \<Rightarrow> (cf, - 1) | Some addr \<Rightarrow>
        if (a_user a = None) \<noteq> (a_pass a = None) then (cf, - 1) else (cf\<lparr>cf_srv := socks5_set a port addr (cf_srv cf)\<rparr>, 0)))"
    by (simp only: hev_config_parse_socks5_def option.case yaml_node.case Let_def kvs_def a_def)
  show ?thesis unfolding e f kvs_def [symmetric] Let_def
    by (cases "setting kvs ''port''"; cases "setting kvs ''address''"; cases "setting kvs ''username''"; cases "setting kvs ''password''") (simp_all add: set)
qed

section \<open>Witness\<close>

definition example_doc :: yaml_document where
  "example_doc = [YAML_MAPPING_NODE [(2, 3), (8, 9)], YAML_SCALAR_NODE (ascii ''socks5''), YAML_MAPPING_NODE [(4, 5), (6, 7)],
     YAML_SCALAR_NODE (ascii ''port''), YAML_SCALAR_NODE (ascii ''1080''), YAML_SCALAR_NODE (ascii ''address''), YAML_SCALAR_NODE (ascii ''127.0.0.1''),
     YAML_SCALAR_NODE (ascii ''misc''), YAML_MAPPING_NODE [(10, 11)], YAML_SCALAR_NODE (ascii ''tcp-buffer-size''), YAML_SCALAR_NODE (ascii ''70000'')]"

lemma example_config: "config_ok config_init"
  by (simp add: config_ok_def config_init_def str_ok_def server_ok_def is_int_def HEV_LOGGER_DEBUG_def HEV_LOGGER_WARN_def HEV_LOGGER_ERROR_def)

lemma example_numbers: "strtoul (ascii ''1080'') 10 = 1080" "strtoul (ascii ''70000'') 10 = 70000"
  by (simp_all add: strtoul_def scan_number_def ascii_def digit_value_def tolower_def isspace_def Let_def)

lemma c_string_ascii: "c_string (ascii ''socks5'') = ascii ''socks5''" "c_string (ascii ''misc'') = ascii ''misc''" "c_string (ascii ''port'') = ascii ''port''"
  "c_string (ascii ''address'') = ascii ''address''" "c_string (ascii ''1080'') = ascii ''1080''" "c_string (ascii ''127.0.0.1'') = ascii ''127.0.0.1''"
  "c_string (ascii ''tcp-buffer-size'') = ascii ''tcp-buffer-size''" "c_string (ascii ''70000'') = ascii ''70000''"
  by (simp_all add: c_string_def ascii_def)

lemma example_nodes:
  "yaml_document_get_root_node example_doc = Some (YAML_MAPPING_NODE [(2, 3), (8, 9)])"
  "yaml_document_get_node example_doc 2 = Some (YAML_SCALAR_NODE (ascii ''socks5''))" "yaml_document_get_node example_doc 3 = Some (YAML_MAPPING_NODE [(4, 5), (6, 7)])"
  "yaml_document_get_node example_doc 8 = Some (YAML_SCALAR_NODE (ascii ''misc''))" "yaml_document_get_node example_doc 9 = Some (YAML_MAPPING_NODE [(10, 11)])"
  "scalar_pairs (keyed_nodes example_doc [(4, 5), (6, 7)]) = [(ascii ''port'', ascii ''1080''), (ascii ''address'', ascii ''127.0.0.1'')]"
  "scalar_pairs (keyed_nodes example_doc [(10, 11)]) = [(ascii ''tcp-buffer-size'', ascii ''70000'')]"
  by (simp_all add: yaml_document_get_root_node_def yaml_document_get_node_def example_doc_def c_string_ascii)

lemma example_socks5:
  "hev_config_parse_socks5 example_doc (Some (YAML_MAPPING_NODE [(4, 5), (6, 7)])) config_init =
     (config_init\<lparr>cf_srv := (cf_srv config_init)\<lparr>srv_addr := ascii ''127.0.0.1'', srv_port := 1080\<rparr>\<rparr>, 0)"
proof -
  have "take 255 (ascii ''127.0.0.1'') = ascii ''127.0.0.1''" by (simp add: ascii_def)
  moreover have "ascii ''address'' \<noteq> ascii ''port''" by (simp add: ascii_def)
  ultimately show ?thesis
    by (simp add: hev_config_parse_socks5_def example_nodes socks5_value_def no_args_def socks5_set_def copy_str_def example_numbers Let_def del: keyed_nodes.simps)
qed

lemma example_misc:
  "hev_config_parse_misc example_doc (Some (YAML_MAPPING_NODE [(10, 11)])) cf = (cf\<lparr>cf_tcp_buffer_size := 70000\<rparr>, 0)"
proof -
  have "misc_value (ascii ''tcp-buffer-size'') (ascii ''70000'') (cf, - 1, - 1, - 1) = (cf\<lparr>cf_tcp_buffer_size := 70000\<rparr>, - 1, - 1, - 1)"
    by (simp add: misc_value_def example_numbers to_int_def Let_def) (simp add: ascii_def)
  then show ?thesis by (simp add: hev_config_parse_misc_def example_nodes Let_def del: keyed_nodes.simps)
qed

lemma example_parsed:
  "\<exists>cf. hev_config_parse_doc example_doc config_init = Some (cf, 0) \<and> cf_tcp_buffer_size cf = 65528 \<and> srv_port (cf_srv cf) = 1080 \<and> cf_mapdns_cache_size cf = 0"
proof -
  have "ascii ''socks5'' \<noteq> ascii ''tunnel''" "ascii ''misc'' \<noteq> ascii ''tunnel''" "ascii ''misc'' \<noteq> ascii ''socks5''" "ascii ''misc'' \<noteq> ascii ''mapdns''" by (simp_all add: ascii_def)
  then have "parse_sections example_doc [(2, 3), (8, 9)] config_init =
      ((config_init\<lparr>cf_srv := (cf_srv config_init)\<lparr>srv_addr := ascii ''127.0.0.1'', srv_port := 1080\<rparr>\<rparr>)\<lparr>cf_tcp_buffer_size := 70000\<rparr>, 0)"
    by (simp add: example_nodes c_string_ascii example_socks5 example_misc Let_def)
  then show ?thesis
    by (simp add: hev_config_parse_doc_def example_nodes fit_buffers_def int_ok_def UDP_BUF_SIZE_def TASK_STACK_SIZE_def TCP_SND_BUF_def config_init_def Let_def)
qed


end
