(* ===== verification/TunnelLife.thy ===== *)
theory TunnelLife
  imports Config "HOL-Library.Multiset"
begin

text \<open>
  Setting the tunnel up and taking it down (\<open>hev_socks5_tunnel_init\<close> and \<open>hev_socks5_tunnel_fini\<close> of
  \<open>hev-socks5-tunnel.c\<close> with the device calls of \<open>hev-tunnel-linux.c\<close>): the descriptors, tasks, control blocks and the
  mapped DNS that each step takes, what happens to them when a later step fails, and what finalising gives back.
  The scripts run when the device comes up or goes down are not modelled.
\<close>

section \<open>The Linux device\<close>

text \<open>Opening a file or a socket; a descriptor is the lowest that is free.\<close>

definition sys_open :: "net \<Rightarrow> net \<times> int" where
  "sys_open nt = (case syscall nt of (nt, res) \<Rightarrow>
     if res < 0 then (nt, - 1)
     else let fd = lowest_fd (n_open nt) in (nt\<lparr>n_open := fd # n_open nt\<rparr>, fd))"

definition hev_tunnel_open :: "net \<Rightarrow> net \<times> int" where
  "hev_tunnel_open nt =
     (case sys_open nt of (nt, fd) \<Rightarrow>
      if fd < 0 then (nt, - 1)
      else case syscall nt of (nt, res) \<Rightarrow> if res < 0 then (sys_close nt fd, res) else (nt, fd))"

definition hev_tunnel_close :: "net \<Rightarrow> int \<Rightarrow> net" where
  "hev_tunnel_close nt fd = sys_close nt fd"

definition hev_tunnel_set_mtu :: "net \<Rightarrow> net \<times> int" where
  "hev_tunnel_set_mtu nt =
     (case sys_open nt of (nt, fd) \<Rightarrow>
      if fd < 0 then (nt, - 1) else case syscall nt of (nt, res) \<Rightarrow> (sys_close nt fd, res))"

definition hev_tunnel_set_state :: "net \<Rightarrow> net \<times> int" where
  "hev_tunnel_set_state nt =
     (case sys_open nt of (nt, fd) \<Rightarrow>
      if fd < 0 then (nt, - 1)
      else case syscall nt of (nt, res) \<Rightarrow>
        if res < 0 then (sys_close nt fd, res)
        else case syscall nt of (nt, res) \<Rightarrow> (sys_close nt fd, res))"

text \<open>\<open>valid\<close>: \<open>inet_pton\<close> accepts the address; its result is that of the function when it does not. \<open>exists\<close>: a last call
  that fails does so because the setting exists.\<close>

definition hev_tunnel_set_ipv4 :: "bool \<Rightarrow> bool \<Rightarrow> net \<Rightarrow> net \<times> int" where
  "hev_tunnel_set_ipv4 valid exists nt =
     (case sys_open nt of (nt, fd) \<Rightarrow>
      if fd < 0 then (nt, - 1)
      else if \<not> valid then (sys_close nt fd, 0)
      else case syscall nt of (nt, res) \<Rightarrow>
        if res < 0 then (sys_close nt fd, res)
        else case syscall nt of (nt, res) \<Rightarrow> (sys_close nt fd, if res < 0 \<and> exists then 0 else res))"

definition hev_tunnel_set_ipv6 :: "bool \<Rightarrow> bool \<Rightarrow> net \<Rightarrow> net \<times> int" where
  "hev_tunnel_set_ipv6 valid exists nt =
     (case sys_open nt of (nt, fd) \<Rightarrow>
      if fd < 0 then (nt, - 1)
      else case syscall nt of (nt, res) \<Rightarrow>
        if res < 0 then (sys_close nt fd, res)
        else if \<not> valid then (sys_close nt fd, 0)
        else case syscall nt of (nt, res) \<Rightarrow> (sys_close nt fd, if res < 0 \<and> exists then 0 else res))"

section \<open>State\<close>

text \<open>The variables that hold resources. A task is there or not; a control block of lwIP is a number, 0 for the null pointer;
  \<open>z_pcbs\<close> are the blocks that are allocated, \<open>z_fresh\<close> is the next.\<close>

record TunnelVars =
  z_tun_fd :: int
  z_tun_fd_local :: bool
  z_event_fds :: "int \<times> int"
  z_task_event :: bool
  z_task_lwip_io :: bool
  z_task_lwip_timer :: bool
  z_tcp :: nat
  z_udp :: nat
  z_netif :: bool
  z_dns :: "HevMappedDNS option"
  z_stats :: "nat \<times> nat \<times> nat \<times> nat"
  z_reject_quic :: bool
  z_reject_non_dns_udp :: bool
  z_pcbs :: "nat set"
  z_fresh :: nat

definition tunnel_vars_init :: TunnelVars where
  "tunnel_vars_init = \<lparr>z_tun_fd = - 1, z_tun_fd_local = False, z_event_fds = (- 1, - 1), z_task_event = False, z_task_lwip_io = False,
     z_task_lwip_timer = False, z_tcp = 0, z_udp = 0, z_netif = False, z_dns = None, z_stats = (0, 0, 0, 0), z_reject_quic = True,
     z_reject_non_dns_udp = False, z_pcbs = {}, z_fresh = 1\<rparr>"

text \<open>What the calls of the initialisation depend on besides the settings: whether the addresses are valid, and whether they were
  set before.\<close>

record tunnel_sys =
  y_valid4 :: bool
  y_valid6 :: bool
  y_exists :: bool

section \<open>Initialisation\<close>

definition tunnel_init :: "int \<Rightarrow> HevConfig \<Rightarrow> tunnel_sys \<Rightarrow> net \<Rightarrow> TunnelVars \<Rightarrow> net \<times> TunnelVars \<times> int" where
  "tunnel_init extern_tun_fd cf y nt z =
     (if extern_tun_fd \<ge> 0 then
        (case syscall nt of (nt, res) \<Rightarrow> if res < 0 then (nt, z, - 1) else (nt, z\<lparr>z_tun_fd := extern_tun_fd\<rparr>, 0))
      else
        case hev_tunnel_open nt of (nt, fd) \<Rightarrow>
        let z = z\<lparr>z_tun_fd := fd\<rparr> in
        if fd < 0 then (nt, z, - 1) else
        case hev_tunnel_set_mtu nt of (nt, res) \<Rightarrow>
        if res < 0 then (nt, z, - 1) else
        case (if hev_config_get_tunnel_ipv4_address cf \<noteq> None then hev_tunnel_set_ipv4 (y_valid4 y) (y_exists y) nt else (nt, 0)) of (nt, res) \<Rightarrow>
        if res < 0 then (nt, z, - 1) else
        case (if hev_config_get_tunnel_ipv6_address cf \<noteq> None then hev_tunnel_set_ipv6 (y_valid6 y) (y_exists y) nt else (nt, 0)) of (nt, res) \<Rightarrow>
        if res < 0 then (nt, z, - 1) else
        case hev_tunnel_set_state nt of (nt, res) \<Rightarrow>
        if res < 0 then (nt, z, - 1) else (nt, z\<lparr>z_tun_fd_local := True\<rparr>, 0))"

definition tunnel_fini :: "net \<Rightarrow> TunnelVars \<Rightarrow> net \<times> TunnelVars" where
  "tunnel_fini nt z =
     (if \<not> z_tun_fd_local z then (nt, z)
      else (hev_tunnel_close nt (z_tun_fd z), z\<lparr>z_tun_fd_local := False, z_tun_fd := - 1\<rparr>))"

text \<open>lwIP has memory for the two control blocks.\<close>

definition gateway_init :: "TunnelVars \<Rightarrow> TunnelVars \<times> int" where
  "gateway_init z =
     (let t = z_fresh z; u = z_fresh z + 1 in
      (z\<lparr>z_netif := True, z_tcp := t, z_udp := u, z_pcbs := insert u (insert t (z_pcbs z)), z_fresh := z_fresh z + 2\<rparr>, 0))"

text \<open>Removing the null pointer is refused by lwIP; removing a block that is not allocated is undefined.\<close>

definition free_pcb :: "nat \<Rightarrow> TunnelVars \<Rightarrow> TunnelVars option" where
  "free_pcb p z = (if p = 0 then Some z else if p \<in> z_pcbs z then Some (z\<lparr>z_pcbs := z_pcbs z - {p}\<rparr>) else None)"

definition gateway_fini :: "TunnelVars \<Rightarrow> TunnelVars option" where
  "gateway_fini z = do {
     z \<leftarrow> free_pcb (z_udp z) z;
     z \<leftarrow> free_pcb (z_tcp z) z;
     Some (z\<lparr>z_netif := False\<rparr>) }"

definition event_task_init :: "net \<Rightarrow> TunnelVars \<Rightarrow> net \<times> TunnelVars \<times> int" where
  "event_task_init nt z =
     (case syscall nt of (nt, res) \<Rightarrow>
      if res < 0 then (nt, z, - 1) else
      let a = lowest_fd (n_open nt); b = lowest_fd (a # n_open nt);
          nt = nt\<lparr>n_open := b # a # n_open nt\<rparr>; z = z\<lparr>z_event_fds := (a, b)\<rparr> in
      case syscall nt of (nt, res) \<Rightarrow>
      if res < 0 then (nt, z, - 1) else
      case hev_malloc nt of (nt, ok) \<Rightarrow>
      if \<not> ok then (nt, z, - 1) else (nt, z\<lparr>z_task_event := True\<rparr>, 0))"

definition event_task_fini :: "net \<Rightarrow> TunnelVars \<Rightarrow> net \<times> TunnelVars" where
  "event_task_fini nt z =
     (let (nt, z) = (if z_task_event z then (hev_free nt, z\<lparr>z_task_event := False\<rparr>) else (nt, z));
          nt = (if fst (z_event_fds z) \<ge> 0 then sys_close nt (fst (z_event_fds z)) else nt);
          nt = (if snd (z_event_fds z) \<ge> 0 then sys_close nt (snd (z_event_fds z)) else nt)
      in (nt, z\<lparr>z_event_fds := (- 1, - 1)\<rparr>))"

definition lwip_io_task_init :: "net \<Rightarrow> TunnelVars \<Rightarrow> net \<times> TunnelVars \<times> int" where
  "lwip_io_task_init nt z = (case hev_malloc nt of (nt, ok) \<Rightarrow> if \<not> ok then (nt, z, - 1) else (nt, z\<lparr>z_task_lwip_io := True\<rparr>, 0))"

definition lwip_io_task_fini :: "net \<Rightarrow> TunnelVars \<Rightarrow> net \<times> TunnelVars" where
  "lwip_io_task_fini nt z = (if z_task_lwip_io z then (hev_free nt, z\<lparr>z_task_lwip_io := False\<rparr>) else (nt, z))"

definition lwip_timer_task_init :: "net \<Rightarrow> TunnelVars \<Rightarrow> net \<times> TunnelVars \<times> int" where
  "lwip_timer_task_init nt z = (case hev_malloc nt of (nt, ok) \<Rightarrow> if \<not> ok then (nt, z, - 1) else (nt, z\<lparr>z_task_lwip_timer := True\<rparr>, 0))"

definition lwip_timer_task_fini :: "net \<Rightarrow> TunnelVars \<Rightarrow> net \<times> TunnelVars" where
  "lwip_timer_task_fini nt z = (if z_task_lwip_timer z then (hev_free nt, z\<lparr>z_task_lwip_timer := False\<rparr>) else (nt, z))"

definition mapped_dns_init :: "HevConfig \<Rightarrow> net \<Rightarrow> TunnelVars \<Rightarrow> net \<times> TunnelVars \<times> int" where
  "mapped_dns_init cf nt z =
     (if cf_mapdns_cache_size cf = 0 then (nt, z, 0)
      else case hev_malloc nt of (nt, ok) \<Rightarrow>
        case hev_mapped_dns_new ok (cf_mapdns_network cf) (cf_mapdns_netmask cf) (cf_mapdns_cache_size cf) of
          None \<Rightarrow> (if ok then hev_free nt else nt, z, - 1)
        | Some dns \<Rightarrow> (nt, z\<lparr>z_dns := Some dns\<rparr>, 0))"

text \<open>Dropping the last reference frees the object; the names that were learnt are freed by its destructor (theory \<open>MappedDNSCache\<close>).\<close>

definition mapped_dns_fini :: "net \<Rightarrow> TunnelVars \<Rightarrow> net \<times> TunnelVars" where
  "mapped_dns_fini nt z = (if z_dns z \<noteq> None then (hev_free nt, z\<lparr>z_dns := None\<rparr>) else (nt, z))"

definition hev_socks5_tunnel_fini :: "net \<Rightarrow> TunnelVars \<Rightarrow> (net \<times> TunnelVars) option" where
  "hev_socks5_tunnel_fini nt z =
     (let (nt, z) = mapped_dns_fini nt z;
          (nt, z) = lwip_timer_task_fini nt z;
          (nt, z) = lwip_io_task_fini nt z;
          (nt, z) = event_task_fini nt z
      in do {
        z \<leftarrow> gateway_fini z;
        let (nt, z) = tunnel_fini nt z;
        Some (nt, z\<lparr>z_stats := (0, 0, 0, 0), z_reject_quic := True, z_reject_non_dns_udp := False\<rparr>) })"

text \<open>The steps up to the first that fails.\<close>

definition init_steps :: "int \<Rightarrow> HevConfig \<Rightarrow> tunnel_sys \<Rightarrow> net \<Rightarrow> TunnelVars \<Rightarrow> net \<times> TunnelVars \<times> int" where
  "init_steps tun_fd cf y nt z =
     (case tunnel_init tun_fd cf y nt z of (nt, z, res) \<Rightarrow>
      if res < 0 then (nt, z, - 1) else
      case gateway_init z of (z, res) \<Rightarrow>
      if res < 0 then (nt, z, - 1) else
      case event_task_init nt z of (nt, z, res) \<Rightarrow>
      if res < 0 then (nt, z, - 1) else
      case lwip_io_task_init nt z of (nt, z, res) \<Rightarrow>
      if res < 0 then (nt, z, - 1) else
      case lwip_timer_task_init nt z of (nt, z, res) \<Rightarrow>
      if res < 0 then (nt, z, - 1) else
      case mapped_dns_init cf nt z of (nt, z, res) \<Rightarrow>
      if res < 0 then (nt, z, - 1) else (nt, z, 0))"

definition hev_socks5_tunnel_init :: "int \<Rightarrow> HevConfig \<Rightarrow> tunnel_sys \<Rightarrow> net \<Rightarrow> TunnelVars \<Rightarrow> (net \<times> TunnelVars \<times> int) option" where
  "hev_socks5_tunnel_init tun_fd cf y nt z =
     (case init_steps tun_fd cf y nt z of (nt, z, res) \<Rightarrow>
      if res < 0 then do { (nt, z) \<leftarrow> hev_socks5_tunnel_fini nt z; Some (nt, z, - 1) } else Some (nt, z, 0))"

section \<open>Descriptors and allocations\<close>

definition same_res :: "net \<Rightarrow> net \<Rightarrow> bool" where
  "same_res nt nt' \<longleftrightarrow> n_open nt' = n_open nt \<and> n_live nt' = n_live nt"

lemma same_res_refl [simp]: "same_res nt nt"
  by (simp add: same_res_def)

lemma same_res_trans: "same_res a b \<Longrightarrow> same_res b c \<Longrightarrow> same_res a c"
  by (simp add: same_res_def)

lemma syscall_res: "syscall nt = (nt', res) \<Longrightarrow> same_res nt nt' \<and> (res = 0 \<or> res = - 1)"
  by (auto simp: syscall_def same_res_def split: list.splits if_splits)

lemma sys_open_res:
  assumes "sys_open nt = (nt', fd)"
  shows "(fd = - 1 \<and> same_res nt nt') \<or> (0 \<le> fd \<and> n_open nt' = fd # n_open nt \<and> n_live nt' = n_live nt)"
proof -
  obtain nt1 r where 1: "syscall nt = (nt1, r)" by (rule prod.exhaust)
  note s = syscall_res [OF 1]
  show ?thesis
  proof (cases "r < 0")
    case True
    then show ?thesis using assms 1 s by (simp add: sys_open_def)
  next
    case False
    then show ?thesis using assms 1 s by (auto simp: sys_open_def Let_def same_res_def lowest_fd_def)
  qed
qed

text \<open>A call on a socket of its own that is closed again.\<close>

lemma on_socket:
  assumes "\<And>nt1 fd. 0 \<le> fd \<Longrightarrow> n_open nt1 = fd # n_open nt \<Longrightarrow> n_live nt1 = n_live nt \<Longrightarrow>
      (case f nt1 fd of (nt2, res) \<Rightarrow> n_open nt2 = n_open nt1 \<and> n_live nt2 = n_live nt1)"
    and "(case sys_open nt of (nt1, fd) \<Rightarrow> if fd < 0 then (nt1, - 1) else (case f nt1 fd of (nt2, res) \<Rightarrow> (sys_close nt2 fd, res))) = (nt', r)"
  shows "same_res nt nt'"
proof -
  obtain nt1 fd where 1: "sys_open nt = (nt1, fd)" by (rule prod.exhaust)
  obtain nt2 r2 where 2: "f nt1 fd = (nt2, r2)" by (rule prod.exhaust)
  from sys_open_res [OF 1] show ?thesis
  proof
    assume "fd = - 1 \<and> same_res nt nt1"
    then show ?thesis using assms(2) 1 by simp
  next
    assume o: "0 \<le> fd \<and> n_open nt1 = fd # n_open nt \<and> n_live nt1 = n_live nt"
    then have "n_open nt2 = fd # n_open nt" "n_live nt2 = n_live nt" using assms(1) [of fd nt1] 2 by auto
    moreover have "nt' = sys_close nt2 fd" using assms(2) 1 2 o by simp
    ultimately show ?thesis by (simp add: same_res_def sys_close_def)
  qed
qed

lemma set_calls:
  "hev_tunnel_set_mtu nt = (nt', r) \<Longrightarrow> same_res nt nt'"
  "hev_tunnel_set_state nt = (nt', r) \<Longrightarrow> same_res nt nt'"
  "hev_tunnel_set_ipv4 v e nt = (nt', r) \<Longrightarrow> same_res nt nt'"
  "hev_tunnel_set_ipv6 v e nt = (nt', r) \<Longrightarrow> same_res nt nt'"
proof -
  have sc: "n_open (fst (syscall nt)) = n_open nt" "n_live (fst (syscall nt)) = n_live nt" for nt
    by (simp_all add: syscall_def split: list.split)
  assume "hev_tunnel_set_mtu nt = (nt', r)"
  then have "(case sys_open nt of (nt1, fd) \<Rightarrow> if fd < 0 then (nt1, - 1) else (case syscall nt1 of (nt2, res) \<Rightarrow> (sys_close nt2 fd, res))) = (nt', r)"
    by (simp add: hev_tunnel_set_mtu_def)
  from on_socket [OF _ this] show "same_res nt nt'" using sc by (simp add: case_prod_beta)
next
  have sc: "n_open (fst (syscall nt)) = n_open nt" "n_live (fst (syscall nt)) = n_live nt" for nt
    by (simp_all add: syscall_def split: list.split)
  assume "hev_tunnel_set_state nt = (nt', r)"
  then have "(case sys_open nt of (nt1, fd) \<Rightarrow> if fd < 0 then (nt1, - 1) else
      (case (if snd (syscall nt1) < 0 then syscall nt1 else syscall (fst (syscall nt1))) of (nt2, res) \<Rightarrow> (sys_close nt2 fd, res))) = (nt', r)"
    by (auto simp: hev_tunnel_set_state_def case_prod_beta split: if_splits)
  from on_socket [OF _ this] show "same_res nt nt'" using sc by (simp add: case_prod_beta)
next
  have sc: "n_open (fst (syscall nt)) = n_open nt" "n_live (fst (syscall nt)) = n_live nt" for nt
    by (simp_all add: syscall_def split: list.split)
  assume "hev_tunnel_set_ipv4 v e nt = (nt', r)"
  then have "(case sys_open nt of (nt1, fd) \<Rightarrow> if fd < 0 then (nt1, - 1) else
      (case (if \<not> v then (nt1, 0) else if snd (syscall nt1) < 0 then syscall nt1 else
         (fst (syscall (fst (syscall nt1))), if snd (syscall (fst (syscall nt1))) < 0 \<and> e then 0 else snd (syscall (fst (syscall nt1))))) of
       (nt2, res) \<Rightarrow> (sys_close nt2 fd, res))) = (nt', r)"
    by (auto simp: hev_tunnel_set_ipv4_def case_prod_beta split: if_splits)
  from on_socket [OF _ this] show "same_res nt nt'" using sc by (simp add: case_prod_beta)
next
  have sc: "n_open (fst (syscall nt)) = n_open nt" "n_live (fst (syscall nt)) = n_live nt" for nt
    by (simp_all add: syscall_def split: list.split)
  assume "hev_tunnel_set_ipv6 v e nt = (nt', r)"
  then have "(case sys_open nt of (nt1, fd) \<Rightarrow> if fd < 0 then (nt1, - 1) else
      (case (if snd (syscall nt1) < 0 then syscall nt1 else if \<not> v then (fst (syscall nt1), 0) else
         (fst (syscall (fst (syscall nt1))), if snd (syscall (fst (syscall nt1))) < 0 \<and> e then 0 else snd (syscall (fst (syscall nt1))))) of
       (nt2, res) \<Rightarrow> (sys_close nt2 fd, res))) = (nt', r)"
    by (auto simp: hev_tunnel_set_ipv6_def case_prod_beta split: if_splits)
  from on_socket [OF _ this] show "same_res nt nt'" using sc by (simp add: case_prod_beta)
qed

lemma hev_tunnel_open_res:
  assumes "hev_tunnel_open nt = (nt', fd)"
  shows "(fd = - 1 \<and> same_res nt nt') \<or> (0 \<le> fd \<and> n_open nt' = fd # n_open nt \<and> n_live nt' = n_live nt)"
proof -
  obtain nt1 f where 1: "sys_open nt = (nt1, f)" by (rule prod.exhaust)
  obtain nt2 r where 2: "syscall nt1 = (nt2, r)" by (rule prod.exhaust)
  show ?thesis using assms 1 2 sys_open_res [OF 1] syscall_res [OF 2]
    by (auto simp: hev_tunnel_open_def same_res_def sys_close_def split: if_splits)
qed

text \<open>What \<open>tunnel_init\<close> leaves: the device's descriptor, if it opened one.\<close>

lemma tunnel_init_res:
  assumes "tunnel_init ext cf y nt z = (nt', z', res)" "\<not> z_tun_fd_local z"
  shows "n_live nt' = n_live nt \<and> (res = 0 \<or> res = - 1) \<and> z' = z\<lparr>z_tun_fd := z_tun_fd z', z_tun_fd_local := (ext < 0 \<and> res = 0)\<rparr> \<and>
    mset (n_open nt') = mset (n_open nt) + (if ext < 0 \<and> 0 \<le> z_tun_fd z' then {#z_tun_fd z'#} else {#}) \<and> (ext < 0 \<and> res = 0 \<longrightarrow> 0 \<le> z_tun_fd z')"
proof (cases "0 \<le> ext")
  case True
  obtain nt1 r where 1: "syscall nt = (nt1, r)" by (rule prod.exhaust)
  show ?thesis using assms True 1 syscall_res [OF 1] by (auto simp: tunnel_init_def same_res_def split: if_splits)
next
  case False
  obtain nt1 fd where 1: "hev_tunnel_open nt = (nt1, fd)" by (rule prod.exhaust)
  let ?z = "z\<lparr>z_tun_fd := fd\<rparr>"
  show ?thesis
  proof (cases "fd < 0")
    case True
    then have "nt' = nt1" "z' = ?z" "res = - 1" using assms(1) False 1 by (simp_all add: tunnel_init_def)
    then show ?thesis using hev_tunnel_open_res [OF 1] True assms(2) False by (auto simp: same_res_def)
  next
    case pos: False
    have o: "0 \<le> fd" "n_open nt1 = fd # n_open nt" "n_live nt1 = n_live nt" using hev_tunnel_open_res [OF 1] pos by auto
    obtain nt2 r2 where 2: "hev_tunnel_set_mtu nt1 = (nt2, r2)" by (rule prod.exhaust)
    obtain nt3 r3 where 3: "(if hev_config_get_tunnel_ipv4_address cf \<noteq> None then hev_tunnel_set_ipv4 (y_valid4 y) (y_exists y) nt2 else (nt2, 0)) = (nt3, r3)" by (rule prod.exhaust)
    obtain nt4 r4 where 4: "(if hev_config_get_tunnel_ipv6_address cf \<noteq> None then hev_tunnel_set_ipv6 (y_valid6 y) (y_exists y) nt3 else (nt3, 0)) = (nt4, r4)" by (rule prod.exhaust)
    obtain nt5 r5 where 5: "hev_tunnel_set_state nt4 = (nt5, r5)" by (rule prod.exhaust)
    have s: "same_res nt1 nt2" "same_res nt2 nt3" "same_res nt3 nt4" "same_res nt4 nt5"
      using set_calls(1) [OF 2] set_calls(2) [OF 5] 3 4 set_calls(3,4) by (auto split: if_splits)
    then have t: "same_res nt1 nt3" "same_res nt1 nt4" "same_res nt1 nt5" by (blast intro: same_res_trans)+
    have e: "tunnel_init ext cf y nt z = (if r2 < 0 then (nt2, ?z, - 1) else if r3 < 0 then (nt3, ?z, - 1) else if r4 < 0 then (nt4, ?z, - 1)
        else if r5 < 0 then (nt5, ?z, - 1) else (nt5, ?z\<lparr>z_tun_fd_local := True\<rparr>, 0))"
      by (simp only: tunnel_init_def Let_def False pos if_False 1 2 3 4 5 prod.case)
    have "same_res nt1 nt' \<and> (res = - 1 \<and> z' = ?z \<or> res = 0 \<and> z' = ?z\<lparr>z_tun_fd_local := True\<rparr>)"
      using assms(1) s(1) t unfolding e by (simp split: if_splits)
    then show ?thesis using o False assms(2) by (auto simp: same_res_def)
  qed
qed

section \<open>Balance\<close>

text \<open>\<open>N\<close> are the descriptors and \<open>L\<close> the allocations that are not the tunnel's, \<open>P\<close> the control blocks that are not.\<close>

definition fds_of :: "TunnelVars \<Rightarrow> int multiset" where
  "fds_of z = (if z_tun_fd_local z then {#z_tun_fd z#} else {#}) +
     (if 0 \<le> fst (z_event_fds z) then {#fst (z_event_fds z)#} else {#}) + (if 0 \<le> snd (z_event_fds z) then {#snd (z_event_fds z)#} else {#})"

definition allocs_of :: "TunnelVars \<Rightarrow> int" where
  "allocs_of z = (if z_task_event z then 1 else 0) + (if z_task_lwip_io z then 1 else 0) + (if z_task_lwip_timer z then 1 else 0) +
     (if z_dns z \<noteq> None then 1 else 0)"

definition balanced :: "int multiset \<Rightarrow> int \<Rightarrow> net \<Rightarrow> TunnelVars \<Rightarrow> bool" where
  "balanced N L nt z \<longleftrightarrow> mset (n_open nt) = N + fds_of z \<and> n_live nt = L + allocs_of z"

definition pcbs_ok :: "nat set \<Rightarrow> TunnelVars \<Rightarrow> bool" where
  "pcbs_ok P z \<longleftrightarrow> finite P \<and> (\<forall>p \<in> z_pcbs z. p < z_fresh z) \<and> 0 < z_fresh z \<and> 0 \<notin> P \<and>
     (if z_netif z then 0 < z_tcp z \<and> 0 < z_udp z \<and> z_tcp z \<noteq> z_udp z \<and> z_tcp z \<notin> P \<and> z_udp z \<notin> P \<and> z_pcbs z = {z_tcp z, z_udp z} \<union> P
      else z_tcp z = 0 \<and> z_udp z = 0 \<and> z_pcbs z = P)"

definition down :: "TunnelVars \<Rightarrow> bool" where
  "down z \<longleftrightarrow> \<not> z_task_event z \<and> \<not> z_task_lwip_io z \<and> \<not> z_task_lwip_timer z \<and> z_event_fds z = (- 1, - 1) \<and> z_dns z = None \<and> \<not> z_netif z \<and> \<not> z_tun_fd_local z"

lemma sys_close_mset: "x \<in># M \<Longrightarrow> mset (n_open nt) = M \<Longrightarrow> mset (n_open (sys_close nt x)) = M - {#x#}"
  by (simp add: sys_close_def)

lemma gateway_fini_ok:
  assumes "pcbs_ok P z"
  shows "\<exists>z'. gateway_fini z = Some z' \<and> z' = z\<lparr>z_netif := False, z_pcbs := P\<rparr>"
proof (cases "z_netif z")
  case True
  then have p: "0 < z_tcp z" "0 < z_udp z" "z_tcp z \<noteq> z_udp z" "z_tcp z \<notin> P" "z_udp z \<notin> P" "z_pcbs z = {z_tcp z, z_udp z} \<union> P"
    using assms by (simp_all add: pcbs_ok_def)
  then have "({z_tcp z, z_udp z} \<union> P) - {z_udp z} - {z_tcp z} = P" by auto
  then show ?thesis using p by (auto simp: gateway_fini_def free_pcb_def)
next
  case False
  then show ?thesis using assms by (auto simp: gateway_fini_def free_pcb_def pcbs_ok_def)
qed

lemma fini_tasks:
  assumes "balanced N L nt z" "(nt1, z1) = mapped_dns_fini nt z" "(nt2, z2) = lwip_timer_task_fini nt1 z1" "(nt3, z3) = lwip_io_task_fini nt2 z2"
    "(nt4, z4) = event_task_fini nt3 z3" "0 \<le> fst (z_event_fds z) \<longleftrightarrow> 0 \<le> snd (z_event_fds z)"
  shows "balanced N L nt4 z4 \<and> z4 = z\<lparr>z_dns := None, z_task_lwip_timer := False, z_task_lwip_io := False, z_task_event := False, z_event_fds := (- 1, - 1)\<rparr>"
proof -
  obtain a b where ab: "z_event_fds z = (a, b)" by (rule prod.exhaust)
  have 1: "balanced N L nt1 z1" "z1 = z\<lparr>z_dns := None\<rparr>"
    using assms(1,2) by (auto simp: balanced_def mapped_dns_fini_def fds_of_def allocs_of_def hev_free_def split: if_splits)
  have 2: "balanced N L nt2 z2" "z2 = z1\<lparr>z_task_lwip_timer := False\<rparr>"
    using 1 assms(3) by (auto simp: balanced_def lwip_timer_task_fini_def fds_of_def allocs_of_def hev_free_def split: if_splits)
  have 3: "balanced N L nt3 z3" "z3 = z2\<lparr>z_task_lwip_io := False\<rparr>"
    using 2 assms(4) by (auto simp: balanced_def lwip_io_task_fini_def fds_of_def allocs_of_def hev_free_def split: if_splits)
  have ev: "z_event_fds z3 = (a, b)" "z_tun_fd_local z3 = z_tun_fd_local z" "z_tun_fd z3 = z_tun_fd z" using 1 2 3 ab by simp_all
  let ?nt = "if z_task_event z3 then hev_free nt3 else nt3" and ?z = "z3\<lparr>z_task_event := False\<rparr>"
  have b: "balanced N L ?nt ?z" using 3(1) by (auto simp: balanced_def fds_of_def allocs_of_def hev_free_def)
  let ?d = "if z_tun_fd_local z then {#z_tun_fd z#} else {#}"
  have m: "mset (n_open ?nt) = N + ?d + (if 0 \<le> a then {#a#} else {#}) + (if 0 \<le> b then {#b#} else {#})"
    using b ev by (simp add: balanced_def fds_of_def add.assoc)
  let ?nt1 = "if 0 \<le> a then sys_close ?nt a else ?nt" and ?nt2 = "\<lambda>nt1. if 0 \<le> b then sys_close nt1 b else nt1"
  have m1: "mset (n_open ?nt1) = N + ?d + (if 0 \<le> b then {#b#} else {#})"
  proof (cases "0 \<le> a")
    case True
    have "mset (n_open (sys_close ?nt a)) = (N + ?d + {#a#} + (if 0 \<le> b then {#b#} else {#})) - {#a#}"
      by (rule sys_close_mset) (use m True in simp_all)
    also have "\<dots> = N + ?d + (if 0 \<le> b then {#b#} else {#})" by (simp add: multiset_eq_iff)
    finally show ?thesis using True by simp
  qed (use m in simp)
  have m2: "mset (n_open (?nt2 ?nt1)) = N + ?d"
  proof (cases "0 \<le> b")
    case True
    have "mset (n_open (sys_close ?nt1 b)) = (N + ?d + {#b#}) - {#b#}"
      by (rule sys_close_mset) (use m1 True in simp_all)
    then show ?thesis using True by simp
  qed (use m1 in simp)
  have e: "event_task_fini nt3 z3 = (?nt2 ?nt1, ?z\<lparr>z_event_fds := (- 1, - 1)\<rparr>)" using ev by (simp add: event_task_fini_def Let_def)
  have live: "n_live (?nt2 ?nt1) = n_live ?nt" by (simp add: sys_close_def)
  have "balanced N L (?nt2 ?nt1) (?z\<lparr>z_event_fds := (- 1, - 1)\<rparr>)"
    using m2 b ev unfolding balanced_def live by (simp add: fds_of_def allocs_of_def)
  then show ?thesis using assms(5) 1 2 3 unfolding e by simp
qed

lemma fini_ok:
  assumes "balanced N L nt z" "pcbs_ok P z" "0 \<le> fst (z_event_fds z) \<longleftrightarrow> 0 \<le> snd (z_event_fds z)"
  shows "\<exists>nt' z'. hev_socks5_tunnel_fini nt z = Some (nt', z') \<and> mset (n_open nt') = N \<and> n_live nt' = L \<and> z_pcbs z' = P \<and> down z' \<and>
    z_tun_fd z' = (if z_tun_fd_local z then - 1 else z_tun_fd z)"
proof -
  obtain nt1 z1 where 1: "mapped_dns_fini nt z = (nt1, z1)" by (rule prod.exhaust)
  obtain nt2 z2 where 2: "lwip_timer_task_fini nt1 z1 = (nt2, z2)" by (rule prod.exhaust)
  obtain nt3 z3 where 3: "lwip_io_task_fini nt2 z2 = (nt3, z3)" by (rule prod.exhaust)
  obtain nt4 z4 where 4: "event_task_fini nt3 z3 = (nt4, z4)" by (rule prod.exhaust)
  note ft = fini_tasks [OF assms(1) 1 [symmetric] 2 [symmetric] 3 [symmetric] 4 [symmetric] assms(3)]
  note t = conjunct1 [OF ft] conjunct2 [OF ft]
  have p: "pcbs_ok P z4" using assms(2) unfolding t(2) by (simp add: pcbs_ok_def)
  let ?z5 = "z4\<lparr>z_netif := False, z_pcbs := P\<rparr>"
  have g: "gateway_fini z4 = Some ?z5" using gateway_fini_ok [OF p] by simp
  obtain nt6 z6 where 6: "tunnel_fini nt4 ?z5 = (nt6, z6)" by (rule prod.exhaust)
  have f: "hev_socks5_tunnel_fini nt z = Some (nt6, z6\<lparr>z_stats := (0, 0, 0, 0), z_reject_quic := True, z_reject_non_dns_udp := False\<rparr>)"
    using g by (simp add: hev_socks5_tunnel_fini_def 1 2 3 4 6 Let_def)
  have b: "mset (n_open nt4) = N + (if z_tun_fd_local z then {#z_tun_fd z#} else {#})" "n_live nt4 = L"
    using t by (simp_all add: balanced_def fds_of_def allocs_of_def)
  have "mset (n_open nt6) = N" "n_live nt6 = L"
    using 6 b t(2) by (auto simp: tunnel_fini_def hev_tunnel_close_def sys_close_def split: if_splits)
  moreover have "z6 = ?z5\<lparr>z_tun_fd_local := False, z_tun_fd := (if z_tun_fd_local z then - 1 else z_tun_fd z)\<rparr>"
    using 6 t(2) by (auto simp: tunnel_fini_def split: if_splits)
  ultimately show ?thesis using f t(2) by (simp add: down_def)
qed

section \<open>Starting and finalising\<close>

definition coming_up :: "int multiset \<Rightarrow> int \<Rightarrow> nat set \<Rightarrow> net \<Rightarrow> TunnelVars \<Rightarrow> bool" where
  "coming_up N L P nt z \<longleftrightarrow> balanced N L nt z \<and> pcbs_ok P z \<and> (0 \<le> fst (z_event_fds z) \<longleftrightarrow> 0 \<le> snd (z_event_fds z))"

lemma malloc_res: "hev_malloc nt = (nt', ok) \<Longrightarrow> n_open nt' = n_open nt \<and> n_live nt' = n_live nt + (if ok then 1 else 0)"
  by (auto simp: hev_malloc_def split: list.splits)

lemma lowest_nonneg: "0 \<le> lowest_fd fds"
  by (simp add: lowest_fd_def)

lemma event_init_up:
  assumes "event_task_init nt z = (nt', z', res)" "coming_up N L P nt z" "z_event_fds z = (- 1, - 1)" "\<not> z_task_event z"
  shows "coming_up N L P nt' z' \<and> (res = 0 \<or> res = - 1) \<and> z_task_lwip_io z' = z_task_lwip_io z \<and> z_task_lwip_timer z' = z_task_lwip_timer z \<and> z_dns z' = z_dns z \<and>
    z_tun_fd z' = z_tun_fd z \<and> z_tun_fd_local z' = z_tun_fd_local z"
proof -
  obtain nt1 r1 where 1: "syscall nt = (nt1, r1)" by (rule prod.exhaust)
  note s1 = syscall_res [OF 1]
  show ?thesis
  proof (cases "r1 < 0")
    case True
    then have "nt' = nt1" "z' = z" "res = - 1" using assms(1) 1 by (simp_all add: event_task_init_def)
    then show ?thesis using assms(2) s1 by (simp add: coming_up_def balanced_def same_res_def)
  next
    case False
    define a where "a = lowest_fd (n_open nt1)"
    define b where "b = lowest_fd (a # n_open nt1)"
    define nt2 where "nt2 = nt1\<lparr>n_open := b # a # n_open nt1\<rparr>"
    define z2 where "z2 = z\<lparr>z_event_fds := (a, b)\<rparr>"
    have ab: "0 \<le> a" "0 \<le> b" by (simp_all add: a_def b_def lowest_nonneg)
    have o: "n_open nt1 = n_open nt" "n_live nt1 = n_live nt" using s1 by (simp_all add: same_res_def)
    have k: "coming_up N L P nt2 z2"
      using assms(2,3) ab o by (simp add: coming_up_def balanced_def fds_of_def allocs_of_def pcbs_ok_def nt2_def z2_def)
    obtain nt3 r3 where 3: "syscall nt2 = (nt3, r3)" by (rule prod.exhaust)
    have k3: "coming_up N L P nt3 z2" using k syscall_res [OF 3] by (simp add: coming_up_def balanced_def same_res_def)
    obtain nt4 ok where 4: "hev_malloc nt3 = (nt4, ok)" by (rule prod.exhaust)
    have e: "event_task_init nt z = (if r3 < 0 then (nt3, z2, - 1) else if \<not> ok then (nt4, z2, - 1) else (nt4, z2\<lparr>z_task_event := True\<rparr>, 0))"
      by (simp only: event_task_init_def 1 prod.case False if_False Let_def a_def [symmetric] b_def [symmetric] nt2_def [symmetric] z2_def [symmetric] 3 4)
    have te: "\<not> z_task_event z2" using assms(4) by (simp add: z2_def)
    have k4: "\<not> ok \<Longrightarrow> coming_up N L P nt4 z2" "ok \<Longrightarrow> coming_up N L P nt4 (z2\<lparr>z_task_event := True\<rparr>)"
      using k3 malloc_res [OF 4] te by (simp_all add: coming_up_def balanced_def fds_of_def allocs_of_def pcbs_ok_def)
    show ?thesis using assms(1) k3 k4 unfolding e by (auto simp: z2_def split: if_splits)
  qed
qed

lemma coming_up_same: "coming_up N L P nt z \<Longrightarrow> n_open nt' = n_open nt \<Longrightarrow> n_live nt' = n_live nt \<Longrightarrow> coming_up N L P nt' z"
  by (simp add: coming_up_def balanced_def)

lemma coming_up_task:
  "coming_up N L P nt z \<Longrightarrow> n_open nt' = n_open nt \<Longrightarrow> n_live nt' = n_live nt + 1 \<Longrightarrow> \<not> z_task_lwip_io z \<Longrightarrow> coming_up N L P nt' (z\<lparr>z_task_lwip_io := True\<rparr>)"
  "coming_up N L P nt z \<Longrightarrow> n_open nt' = n_open nt \<Longrightarrow> n_live nt' = n_live nt + 1 \<Longrightarrow> \<not> z_task_lwip_timer z \<Longrightarrow> coming_up N L P nt' (z\<lparr>z_task_lwip_timer := True\<rparr>)"
  by (simp_all add: coming_up_def balanced_def fds_of_def allocs_of_def pcbs_ok_def)

lemma task_init_up:
  "lwip_io_task_init nt z = (nt', z', res) \<Longrightarrow> coming_up N L P nt z \<Longrightarrow> \<not> z_task_lwip_io z \<Longrightarrow>
     coming_up N L P nt' z' \<and> (res = 0 \<or> res = - 1) \<and> z_task_lwip_timer z' = z_task_lwip_timer z \<and> z_dns z' = z_dns z \<and>
     z_tun_fd z' = z_tun_fd z \<and> z_tun_fd_local z' = z_tun_fd_local z"
  "lwip_timer_task_init nt z = (nt', z', res) \<Longrightarrow> coming_up N L P nt z \<Longrightarrow> \<not> z_task_lwip_timer z \<Longrightarrow>
     coming_up N L P nt' z' \<and> (res = 0 \<or> res = - 1) \<and> z_dns z' = z_dns z \<and> z_tun_fd z' = z_tun_fd z \<and> z_tun_fd_local z' = z_tun_fd_local z"
proof -
  obtain nt1 ok where 1: "hev_malloc nt = (nt1, ok)" by (rule prod.exhaust)
  note m = malloc_res [OF 1]
  show "coming_up N L P nt' z' \<and> (res = 0 \<or> res = - 1) \<and> z_task_lwip_timer z' = z_task_lwip_timer z \<and> z_dns z' = z_dns z \<and>
       z_tun_fd z' = z_tun_fd z \<and> z_tun_fd_local z' = z_tun_fd_local z"
    if a: "lwip_io_task_init nt z = (nt', z', res)" "coming_up N L P nt z" "\<not> z_task_lwip_io z"
  proof (cases ok)
    case True
    then have "nt' = nt1" "z' = z\<lparr>z_task_lwip_io := True\<rparr>" "res = 0" using a(1) 1 by (simp_all add: lwip_io_task_init_def)
    then show ?thesis using coming_up_task(1) [OF a(2) _ _ a(3)] m True by simp
  next
    case False
    then have "nt' = nt1" "z' = z" "res = - 1" using a(1) 1 by (simp_all add: lwip_io_task_init_def)
    then show ?thesis using coming_up_same [OF a(2)] m False by simp
  qed
  show "coming_up N L P nt' z' \<and> (res = 0 \<or> res = - 1) \<and> z_dns z' = z_dns z \<and> z_tun_fd z' = z_tun_fd z \<and> z_tun_fd_local z' = z_tun_fd_local z"
    if a: "lwip_timer_task_init nt z = (nt', z', res)" "coming_up N L P nt z" "\<not> z_task_lwip_timer z"
  proof (cases ok)
    case True
    then have "nt' = nt1" "z' = z\<lparr>z_task_lwip_timer := True\<rparr>" "res = 0" using a(1) 1 by (simp_all add: lwip_timer_task_init_def)
    then show ?thesis using coming_up_task(2) [OF a(2) _ _ a(3)] m True by simp
  next
    case False
    then have "nt' = nt1" "z' = z" "res = - 1" using a(1) 1 by (simp_all add: lwip_timer_task_init_def)
    then show ?thesis using coming_up_same [OF a(2)] m False by simp
  qed
qed

lemma dns_init_up:
  assumes "mapped_dns_init cf nt z = (nt', z', res)" "coming_up N L P nt z" "z_dns z = None"
  shows "coming_up N L P nt' z' \<and> (res = 0 \<or> res = - 1) \<and> z_tun_fd z' = z_tun_fd z \<and> z_tun_fd_local z' = z_tun_fd_local z"
proof (cases "cf_mapdns_cache_size cf = 0")
  case True
  then show ?thesis using assms by (simp add: mapped_dns_init_def)
next
  case False
  obtain nt1 ok where 1: "hev_malloc nt = (nt1, ok)" by (rule prod.exhaust)
  note m = malloc_res [OF 1]
  show ?thesis
  proof (cases "hev_mapped_dns_new ok (cf_mapdns_network cf) (cf_mapdns_netmask cf) (cf_mapdns_cache_size cf)")
    case None
    then have "nt' = (if ok then hev_free nt1 else nt1)" "z' = z" "res = - 1" using assms(1) False 1 by (simp_all add: mapped_dns_init_def)
    then show ?thesis using assms(2) m by (simp add: coming_up_def balanced_def hev_free_def)
  next
    case (Some d)
    then have "ok" by (cases ok) (simp_all add: hev_mapped_dns_new_def)
    moreover have "nt' = nt1" "z' = z\<lparr>z_dns := Some d\<rparr>" "res = 0" using assms(1) False 1 Some by (simp_all add: mapped_dns_init_def)
    moreover have "coming_up N L P nt1 (z\<lparr>z_dns := Some d\<rparr>)" if "ok"
      using assms(2,3) m that by (simp add: coming_up_def balanced_def fds_of_def allocs_of_def pcbs_ok_def)
    ultimately show ?thesis by simp
  qed
qed

text \<open>The control blocks there are when the tunnel is down: none of them is its own. \<open>z_tcp\<close> and \<open>z_udp\<close> may still hold those of an
  earlier run.\<close>

definition free_to_start :: "TunnelVars \<Rightarrow> bool" where
  "free_to_start z \<longleftrightarrow> down z \<and> finite (z_pcbs z) \<and> (\<forall>p \<in> z_pcbs z. p < z_fresh z) \<and> 0 < z_fresh z \<and> 0 \<notin> z_pcbs z"

lemma init_steps_up:
  assumes "free_to_start z" "tunnel_init ext cf y nt z = (nt1, z1, 0)" "init_steps ext cf y nt z = (nt', z', res)"
  shows "coming_up (mset (n_open nt)) (n_live nt) (z_pcbs z) nt' z' \<and> (res = 0 \<or> res = - 1) \<and> z_tun_fd_local z' = (ext < 0) \<and> z_tun_fd z' = z_tun_fd z1"
proof -
  have dn: "\<not> z_tun_fd_local z" using assms(1) by (simp add: free_to_start_def down_def)
  obtain f where z1: "n_live nt1 = n_live nt" "z1 = z\<lparr>z_tun_fd := f, z_tun_fd_local := (ext < 0)\<rparr>"
    "mset (n_open nt1) = mset (n_open nt) + (if ext < 0 \<and> 0 \<le> f then {#f#} else {#})" "ext < 0 \<longrightarrow> 0 \<le> f"
    using tunnel_init_res [OF assms(2) dn] by auto
  let ?up = "coming_up (mset (n_open nt)) (n_live nt) (z_pcbs z)"
  define z2 where "z2 = fst (gateway_init z1)"
  have g: "gateway_init z1 = (z2, 0)" by (simp add: z2_def gateway_init_def Let_def)
  have z2: "z_event_fds z2 = (- 1, - 1)" "\<not> z_task_event z2" "\<not> z_task_lwip_io z2" "\<not> z_task_lwip_timer z2" "z_dns z2 = None" "z_tun_fd_local z2 = (ext < 0)" "z_tun_fd z2 = z_tun_fd z1"
    using assms(1) z1(2) by (simp_all add: z2_def gateway_init_def Let_def free_to_start_def down_def)
  have "pcbs_ok (z_pcbs z) z2"
    using assms(1) z1(2) by (auto simp: pcbs_ok_def z2_def gateway_init_def Let_def free_to_start_def)
  moreover have "balanced (mset (n_open nt)) (n_live nt) nt1 z2" using z1 z2 by (simp add: balanced_def fds_of_def allocs_of_def)
  ultimately have up2: "?up nt1 z2" using z2(1) by (simp add: coming_up_def)
  obtain nt3 z3 r3 where 3: "event_task_init nt1 z2 = (nt3, z3, r3)" by (rule prod_cases3)
  have up3: "?up nt3 z3" "r3 = 0 \<or> r3 = - 1" "\<not> z_task_lwip_io z3" "\<not> z_task_lwip_timer z3" "z_dns z3 = None" "z_tun_fd_local z3 = (ext < 0)" "z_tun_fd z3 = z_tun_fd z1"
    using event_init_up [OF 3 up2 z2(1,2)] z2 by simp_all
  obtain nt4 z4 r4 where 4: "lwip_io_task_init nt3 z3 = (nt4, z4, r4)" by (rule prod_cases3)
  have up4: "?up nt4 z4" "r4 = 0 \<or> r4 = - 1" "\<not> z_task_lwip_timer z4" "z_dns z4 = None" "z_tun_fd_local z4 = (ext < 0)" "z_tun_fd z4 = z_tun_fd z1"
    using task_init_up(1) [OF 4 up3(1,3)] up3 by simp_all
  obtain nt5 z5 r5 where 5: "lwip_timer_task_init nt4 z4 = (nt5, z5, r5)" by (rule prod_cases3)
  have up5: "?up nt5 z5" "r5 = 0 \<or> r5 = - 1" "z_dns z5 = None" "z_tun_fd_local z5 = (ext < 0)" "z_tun_fd z5 = z_tun_fd z1"
    using task_init_up(2) [OF 5 up4(1,3)] up4 by simp_all
  obtain nt6 z6 r6 where 6: "mapped_dns_init cf nt5 z5 = (nt6, z6, r6)" by (rule prod_cases3)
  have up6: "?up nt6 z6" "r6 = 0 \<or> r6 = - 1" "z_tun_fd_local z6 = (ext < 0)" "z_tun_fd z6 = z_tun_fd z1"
    using dns_init_up [OF 6 up5(1,3)] up5 by simp_all
  have e: "init_steps ext cf y nt z = (if r3 < 0 then (nt3, z3, - 1) else if r4 < 0 then (nt4, z4, - 1) else if r5 < 0 then (nt5, z5, - 1)
      else if r6 < 0 then (nt6, z6, - 1) else (nt6, z6, 0))"
    by (simp add: init_steps_def assms(2) g 3 4 5 6)
  show ?thesis using assms(3) up3 up4 up5 up6 unfolding e by (auto split: if_splits)
qed

lemma start_balanced:
  assumes "free_to_start z" "z_tcp z = 0 \<and> z_udp z = 0 \<or> snd (snd (tunnel_init ext cf y nt z)) = 0"
  shows "\<exists>nt' z' res. hev_socks5_tunnel_init ext cf y nt z = Some (nt', z', res) \<and>
    (if res = 0 then \<exists>nt'' z''. hev_socks5_tunnel_fini nt' z' = Some (nt'', z'') \<and> mset (n_open nt'') = mset (n_open nt) \<and> n_live nt'' = n_live nt \<and>
        z_pcbs z'' = z_pcbs z \<and> down z''
     else mset (n_open nt') = mset (n_open nt) + (if ext < 0 \<and> 0 \<le> z_tun_fd z' then {#z_tun_fd z'#} else {#}) \<and> n_live nt' = n_live nt \<and>
        z_pcbs z' = z_pcbs z \<and> down z')"
proof -
  obtain nt1 z1 r1 where 1: "tunnel_init ext cf y nt z = (nt1, z1, r1)" by (rule prod_cases3)
  have dn: "\<not> z_tun_fd_local z" "down z" using assms(1) by (simp_all add: free_to_start_def down_def)
  note t = tunnel_init_res [OF 1 dn(1)]
  show ?thesis
  proof (cases "r1 = 0")
    case True
    note 1 = 1 [unfolded True]
    obtain nt2 z2 r2 where 2: "init_steps ext cf y nt z = (nt2, z2, r2)" by (rule prod_cases3)
    have up: "coming_up (mset (n_open nt)) (n_live nt) (z_pcbs z) nt2 z2" "r2 = 0 \<or> r2 = - 1" "z_tun_fd_local z2 = (ext < 0)"
      using init_steps_up [OF assms(1) 1 2] by simp_all
    obtain nt3 z3 where 3: "hev_socks5_tunnel_fini nt2 z2 = Some (nt3, z3)" "mset (n_open nt3) = mset (n_open nt)" "n_live nt3 = n_live nt" "z_pcbs z3 = z_pcbs z" "down z3"
      "z_tun_fd z3 = (if z_tun_fd_local z2 then - 1 else z_tun_fd z2)"
      using fini_ok [of "mset (n_open nt)" "n_live nt" nt2 z2 "z_pcbs z"] up(1) unfolding coming_up_def by blast
    show ?thesis
    proof (cases "r2 = 0")
      case True
      then show ?thesis using 2 3 by (simp add: hev_socks5_tunnel_init_def)
    next
      case False
      then show ?thesis using 2 3 up by (simp add: hev_socks5_tunnel_init_def)
    qed
  next
    case False
    obtain f where z1: "z1 = z\<lparr>z_tun_fd := f, z_tun_fd_local := False\<rparr>" "r1 = - 1" "n_live nt1 = n_live nt"
      "mset (n_open nt1) = mset (n_open nt) + (if ext < 0 \<and> 0 \<le> f then {#f#} else {#})" using t False by auto
    let ?N = "mset (n_open nt) + (if ext < 0 \<and> 0 \<le> f then {#f#} else {#})"
    have "balanced ?N (n_live nt) nt1 z1" using z1 dn(2) by (simp add: balanced_def fds_of_def allocs_of_def down_def)
    moreover have "pcbs_ok (z_pcbs z) z1" using assms 1 False dn(2) z1(1) by (auto simp: pcbs_ok_def free_to_start_def down_def)
    moreover have "0 \<le> fst (z_event_fds z1) \<longleftrightarrow> 0 \<le> snd (z_event_fds z1)" using dn(2) z1(1) by (simp add: down_def)
    ultimately obtain nt3 z3 where 3: "hev_socks5_tunnel_fini nt1 z1 = Some (nt3, z3)" "mset (n_open nt3) = ?N" "n_live nt3 = n_live nt" "z_pcbs z3 = z_pcbs z" "down z3"
      "z_tun_fd z3 = (if z_tun_fd_local z1 then - 1 else z_tun_fd z1)"
      using fini_ok [of ?N "n_live nt" nt1 z1 "z_pcbs z"] by blast
    have "init_steps ext cf y nt z = (nt1, z1, - 1)" using 1 z1(2) by (simp add: init_steps_def)
    then show ?thesis using 3 z1 by (simp add: hev_socks5_tunnel_init_def)
  qed
qed

section \<open>A later start that fails\<close>

text \<open>\<open>gateway_fini\<close> leaves its pointers behind. When a later start already fails on the device, finalising removes the control blocks
  of the earlier run a second time.\<close>

lemma restart_undefined:
  assumes "free_to_start z" "z_tcp z \<notin> z_pcbs z" "z_udp z \<notin> z_pcbs z" "\<not> (z_tcp z = 0 \<and> z_udp z = 0)" "snd (snd (tunnel_init ext cf y nt z)) \<noteq> 0"
  shows "hev_socks5_tunnel_init ext cf y nt z = None"
proof -
  obtain nt1 z1 r1 where 1: "tunnel_init ext cf y nt z = (nt1, z1, r1)" by (rule prod_cases3)
  have d: "down z" "\<not> z_tun_fd_local z" using assms(1) by (simp_all add: free_to_start_def down_def)
  then have r: "r1 = - 1" "z1 = z\<lparr>z_tun_fd := z_tun_fd z1, z_tun_fd_local := False\<rparr>" using tunnel_init_res [OF 1 d(2)] assms(5) 1 by auto
  obtain f where "z1 = z\<lparr>z_tun_fd := f, z_tun_fd_local := False\<rparr>" using r(2) by blast
  then have "hev_socks5_tunnel_fini nt1 z1 = None"
    using assms(2-4) d by (cases "z_tcp z = 0"; cases "z_udp z = 0") (simp_all add: hev_socks5_tunnel_fini_def down_def mapped_dns_fini_def lwip_timer_task_fini_def lwip_io_task_fini_def event_task_fini_def
      gateway_fini_def free_pcb_def Let_def)
  then show ?thesis using 1 r(1) by (simp add: hev_socks5_tunnel_init_def init_steps_def)
qed


section \<open>Witness\<close>

definition example_sys :: tunnel_sys where
  "example_sys = \<lparr>y_valid4 = True, y_valid6 = True, y_exists = False\<rparr>"


end
