(* ===== verification/SessionUDPProps.thy ===== *)
theory SessionUDPProps
  imports SessionUDPSteps
begin

text \<open>
  What a UDP session delivers: replies to the application, queued datagrams to the server, and the
  exchange with a peer the application knows by a synthetic address.
\<close>

section \<open>Delivery to the application\<close>

text \<open>Where a reply from a destination appears to come from: a named peer at the address it was
  addressed by, the last named peer's address as it is, any other peer as the server reports it.\<close>

fun reply_dest :: "'a HevSocks5SessionUDP_scheme \<Rightarrow> dest \<Rightarrow> (ip_addr \<times> u16) option" where
  "reply_dest self (Domain nm p) = map_option (\<lambda>(ip, port). (IpV4 ip, port)) (map_of (name_abs (p_names self, p_names_next self)) nm)"
| "reply_dest self (Ipv4 ip p) = Some (if p_addr self \<noteq> zero_ip \<and> p_port self \<noteq> 0 \<and> ip = p_addr self then (IpV4 ip, p_port self) else (IpV4 ip, p))"
| "reply_dest self (Ipv6 ip p) = Some (IpV6 ip, p)"

definition delivery :: "'a HevSocks5SessionUDP_scheme \<Rightarrow> dest \<times> bytes \<Rightarrow> (ip_addr \<times> u16 \<times> bytes) option" where
  "delivery self = (\<lambda>(d, data). map_option (\<lambda>(ip, port). (ip, port, data)) (reply_dest self d))"

lemma name_abs_nonempty: "name_inv st \<Longrightarrow> [] \<notin> fst ` set (name_abs st)"
proof -
  assume "name_inv st"
  then have "\<forall>s \<in> set (rotate (snd st) (fst st)). length (nm_name s) = 256" by (cases st) (simp add: name_inv_def)
  moreover have "slot_name s \<noteq> []" if "used s" "length (nm_name s) = 256" for s
    using that by (auto simp: used_def slot_name_def unat_eq_0)
  ultimately show ?thesis by (cases st) (auto simp: name_abs_def entry_def, metis)
qed

lemma reply_source_wire:
  assumes "dest_ok d" "name_inv (p_names self, p_names_next self)"
  shows "reply_source self (wire d @ x) = reply_dest self d"
proof (cases d)
  case (Ipv4 ip p)
  have "port_at (wire (Ipv4 ip p) @ x) 5 = ntohs p" using port_at_be16 [of "1 # ip" 5 p x] Ipv4 assms(1) by (simp add: socks5_consts)
  then show ?thesis using Ipv4 assms(1) by (simp add: reply_source_def hev_socks5_addr_into_lwip_def socks5_consts)
next
  case (Ipv6 ip p)
  have "port_at (wire (Ipv6 ip p) @ x) 17 = ntohs p" using port_at_be16 [of "4 # ip" 17 p x] Ipv6 assms(1) by (simp add: socks5_consts)
  then show ?thesis using Ipv6 assms(1) by (simp add: reply_source_def hev_socks5_addr_into_lwip_def socks5_consts)
next
  case (Domain nm p)
  have l: "unat (of_nat (length nm) :: u8) = length nm" using assms(1) Domain by (simp add: unat_of_nat take_bit_nat_eq_self)
  have "name_map_lookup (p_names self) (wire d @ x) = map_of (name_abs (p_names self, p_names_next self)) nm"
  proof (cases "nm = []")
    case True
    then have "map_of (name_abs (p_names self, p_names_next self)) nm = None"
      using name_abs_nonempty [OF assms(2)] by (simp add: map_of_eq_None_iff)
    then show ?thesis using Domain True by (simp add: name_map_lookup_def)
  next
    case False
    then have n: "name_of (wire d @ x) = nm" "named (wire d @ x)" using Domain l
      by (auto simp: name_of_def named_def word_unat_eq_iff)
    then show ?thesis using name_lookup_refines [OF assms(2) n(2)] by simp
  qed
  then show ?thesis using Domain by (simp add: reply_source_def)
qed

lemma inside_wire:
  assumes "dest_ok d"
  shows "socks5_addr_is_inside_buf (AddrAt (wire d @ x)) (length (wire d @ x) + n) = Some True"
proof (cases d)
  case (Domain nm p)
  have "unat (of_nat (length nm) :: u8) = length nm" using assms Domain by (simp add: unat_of_nat take_bit_nat_eq_self)
  then show ?thesis using Domain by (simp add: socks5_addr_is_inside_buf_def socks5_consts)
qed (use assms in \<open>simp_all add: socks5_addr_is_inside_buf_def socks5_consts\<close>)

lemma fwd_b_loop_delivers:
  assumes "list_all2 carries ms fs" "\<forall>f \<in> set fs. dest_ok (fst f)" "name_inv (p_names self, p_names_next self)" "l_errs lw = []" "n_mem nt = []"
  shows "fwd_b_loop self (length ms) (ms @ rest) nt lw = Some (nt, lw\<lparr>l_sent := l_sent lw @ List.map_filter (delivery self) fs\<rparr>, 1)"
  using assms
proof (induction arbitrary: lw rule: list_all2_induct)
  case Nil
  then show ?case by (simp add: List.map_filter_simps)
next
  case (Cons msg ms f fs)
  obtain d data where f: "f = (d, data)" by (rule prod.exhaust)
  obtain x y where m: "m_addr msg = AddrAt (wire d @ x)" "m_buf msg = data @ y" "m_len msg = length data"
    using Cons.hyps f by (auto simp: carries_def)
  have d: "dest_ok d" "\<forall>f \<in> set fs. dest_ok (fst f)" using Cons.prems(1) f by auto
  have ins: "socks5_addr_is_inside_buf (m_addr msg) ((case m_addr msg of AddrAt a \<Rightarrow> length a | _ \<Rightarrow> 0) + UDP_BUF_SIZE * length (ms @ rest)) = Some True"
    unfolding m udp_addr.case by (rule inside_wire [OF d(1)])
  have src: "reply_source self (case m_addr msg of AddrAt a \<Rightarrow> a | _ \<Rightarrow> []) = reply_dest self d"
    unfolding m udp_addr.case by (rule reply_source_wire [OF d(1) Cons.prems(2)])
  have mem: "hev_malloc nt = (nt\<lparr>n_live := n_live nt + 1\<rparr>, True)" "hev_free (nt\<lparr>n_live := n_live nt + 1\<rparr>) = nt"
    using Cons.prems(4) by (simp_all add: hev_malloc_def hev_free_def)
  show ?case
  proof (cases "reply_dest self d")
    case None
    have "fwd_b_loop self (length (msg # ms)) ((msg # ms) @ rest) nt lw = fwd_b_loop self (length ms) (ms @ rest) nt lw"
      using ins src None by simp
    then show ?thesis using Cons.IH [OF d(2) Cons.prems(2-4)] None f by (simp add: delivery_def List.map_filter_simps)
  next
    case (Some s)
    obtain ip port where s: "s = (ip, port)" by (rule prod.exhaust)
    let ?lw = "lw\<lparr>l_sent := l_sent lw @ [(ip, port, data)]\<rparr>"
    have u: "udp_sendfrom lw ip port (take (m_len msg) (m_buf msg)) = (?lw, True)" using Cons.prems(3) m by (simp add: udp_sendfrom_def)
    have e: "l_errs ?lw = []" using Cons.prems(3) by simp
    have "fwd_b_loop self (length (msg # ms)) ((msg # ms) @ rest) nt lw = fwd_b_loop self (length ms) (ms @ rest) nt ?lw"
      using ins src Some s u mem by simp
    then show ?thesis using Cons.IH [OF d(2) Cons.prems(2) e Cons.prems(4)] Some s f by (simp add: delivery_def List.map_filter_simps)
  qed
qed


section \<open>Everything queued is sent\<close>

text \<open>A server that sends nothing: there is only waiting on its connection.\<close>

definition silent :: "rxev list \<Rightarrow> bool" where
  "silent es \<longleftrightarrow> (\<forall>e \<in> set es. case e of RWait _ \<Rightarrow> True | _ \<Rightarrow> False)"

lemma silent_recv:
  assumes "silent (n_rx nt fd)"
  shows "\<exists>es ag r. task_recv False True t nt fd n = (nt\<lparr>n_rx := (n_rx nt)(fd := es), n_again := ag\<rparr>, [], r) \<and> silent es \<and> r \<le> 0"
proof (cases "n_rx nt fd")
  case Nil
  then show ?thesis
    by (intro exI [of _ "[]"] exI [of _ "n_again nt"] exI [of _ 0]) (simp add: task_recv_def partial_def silent_def)
next
  case (Cons e es)
  then obtain d where "e = RWait d" "silent es" using assms by (cases e) (auto simp: silent_def)
  then show ?thesis using Cons by (auto simp: task_recv_def partial_def)
qed

lemma silent_fwd_b:
  assumes "s_type self = TYPE_UDP_IN_TCP" "silent (n_rx nt (s_fd self))"
  shows "\<exists>es ag r. hev_socks5_session_udp_fwd_b mem nt lw self =
    Some (nt\<lparr>n_rx := (n_rx nt)(s_fd self := es), n_again := ag\<rparr>, lw, self, r) \<and> silent es \<and> r \<le> 0"
proof (cases mem)
  case Nil
  have "nt\<lparr>n_rx := (n_rx nt)(s_fd self := n_rx nt (s_fd self)), n_again := n_again nt\<rparr> = nt" by simp
  then show ?thesis using Nil assms
    by (intro exI [of _ "n_rx nt (s_fd self)"] exI [of _ "n_again nt"] exI [of _ "- 1"])
      (simp add: hev_socks5_session_udp_fwd_b_def hev_socks5_udp_recvmmsg_def hev_socks5_udp_recvmmsg_tcp_def)
next
  case (Cons b bs)
  obtain es ag r where 1: "task_recv False True (s_timeout self) nt (s_fd self) 5 = (nt\<lparr>n_rx := (n_rx nt)(s_fd self := es), n_again := ag\<rparr>, [], r)"
    "silent es" "r \<le> 0" using silent_recv [OF assms(2)] by blast
  then have "recv_frame True (s_timeout self) nt (s_fd self) \<lparr>m_addr = AddrNull, m_buf = b, m_len = UDP_BUF_SIZE\<rparr> =
    (nt\<lparr>n_rx := (n_rx nt)(s_fd self := es), n_again := ag\<rparr>, Inr (True, r))" by (simp add: recv_frame_def)
  then show ?thesis using Cons assms(1) 1
    by (intro exI [of _ es] exI [of _ ag] exI [of _ "if r = - 1 \<and> ag then 0 else - 1"])
      (simp add: hev_socks5_session_udp_fwd_b_def hev_socks5_udp_recvmmsg_def hev_socks5_udp_recvmmsg_tcp_def hev_socks5_client_udp_get_fd_def)
qed

lemma drop_frames_ok:
  "n \<le> length (p_frame_list self) \<Longrightarrow> drop_frames n nt self = Some (nt\<lparr>n_live := n_live nt - 2 * int n\<rparr>,
     self\<lparr>p_frame_list := drop n (p_frame_list self), p_frames := p_frames self - int n\<rparr>)"
proof (induction n arbitrary: nt self)
  case (Suc n)
  then obtain fr frs where "p_frame_list self = fr # frs" by (cases "p_frame_list self") auto
  then show ?case using Suc by (simp add: hev_free_def algebra_simps)
qed simp

text \<open>A frame of the queue that stands for a destination and data.\<close>

definition queued :: "HevSocks5UDPFrame \<Rightarrow> dest \<times> bytes \<Rightarrow> bool" where
  "queued fr f \<longleftrightarrow> carries (frame_msg fr) f \<and> dest_ok (fst f)"

lemma queued_dests: "list_all2 queued frs fs \<Longrightarrow> \<forall>f \<in> set fs. dest_ok (fst f)"
  by (induction rule: list_all2_induct) (auto simp: queued_def)

lemma fwd_f_sends:
  assumes "s_type self = TYPE_UDP_IN_TCP" "session_ok self" "tx_open (s_timeout self) (n_tx nt (s_fd self))"
    and "list_all2 queued (p_frame_list self) fs" "fs \<noteq> []" "0 < num"
  shows "\<exists>nt'. hev_socks5_session_udp_fwd_f nt self num =
      Some (nt', self\<lparr>p_frame_list := drop num (p_frame_list self), p_frames := int (length (drop num (p_frame_list self)))\<rparr>, 1) \<and>
    n_out nt' (s_fd self) = n_out nt (s_fd self) @ concat (map udp_frame (take num fs)) \<and>
    tx_open (s_timeout self) (n_tx nt' (s_fd self)) \<and> n_rx nt' = n_rx nt"
proof -
  let ?n = "min num (length (p_frame_list self))" and ?fd = "s_fd self"
  have fd: "hev_socks5_client_udp_get_fd self = ?fd" using assms(1) by (simp add: hev_socks5_client_udp_get_fd_def)
  have len: "length (p_frame_list self) = length fs" using assms(4) by (rule list_all2_lengthD)
  have fr: "p_frames self = int (length fs)" using assms(2) len by (simp add: session_ok_def)
  have c: "list_all2 carries (map frame_msg (take ?n (p_frame_list self))) (take num fs)" "\<forall>f \<in> set (take num fs). dest_ok (fst f)"
  proof -
    have "list_all2 queued (take ?n (p_frame_list self)) (take ?n fs)" using assms(4) by (rule list_all2_takeI)
    moreover have "take ?n fs = take num fs" using len by (simp add: min_def)
    ultimately have q: "list_all2 queued (take ?n (p_frame_list self)) (take num fs)" by simp
    then show "list_all2 carries (map frame_msg (take ?n (p_frame_list self))) (take num fs)"
      unfolding list_all2_map1 by (rule list_all2_mono) (simp add: queued_def)
    from q show "\<forall>f \<in> set (take num fs). dest_ok (fst f)" by (rule queued_dests)
  qed
  have ne: "take num fs \<noteq> []" using assms(5,6) by simp
  obtain nt1 where 1: "hev_socks5_udp_sendmmsg_tcp hev_socks5_client_udp_get_fd nt self (map frame_msg (take ?n (p_frame_list self))) = Some (nt1, self, int ?n)"
    "n_out nt1 ?fd = n_out nt ?fd @ concat (map udp_frame (take num fs))" "tx_open (s_timeout self) (n_tx nt1 ?fd)"
    using sendmmsg_tcp_frames [OF c ne, of self nt hev_socks5_client_udp_get_fd] assms(3) fd by auto
  have rx: "n_rx nt1 = n_rx nt" using 1(1)
    by (auto simp: hev_socks5_udp_sendmmsg_tcp_def hev_task_io_socket_sendmsg_def bind_eq_Some_conv split: option.splits prod.splits if_splits)
  have "0 < length fs" using assms(5) by simp
  moreover have "hev_socks5_udp_sendmmsg hev_socks5_client_udp_get_fd nt self (map frame_msg (take (min num (nat (p_frames self))) (p_frame_list self))) = Some (nt1, self, int ?n)"
    using 1(1) assms(1) fr len by (simp add: hev_socks5_udp_sendmmsg_def)
  ultimately have "hev_socks5_session_udp_fwd_f nt self num = (do { (nt, self) \<leftarrow> drop_frames ?n nt1 self; Some (nt, self, 1) })"
    using fr len assms(6) by (simp add: hev_socks5_session_udp_fwd_f_def Let_def)
  moreover have "drop ?n (p_frame_list self) = drop num (p_frame_list self)" by (simp add: min_def)
  ultimately show ?thesis using 1 rx fr len
    by (intro exI [of _ "nt1\<lparr>n_live := n_live nt1 - 2 * int ?n\<rparr>"]) (simp add: drop_frames_ok of_nat_diff min_def)
qed

lemma fwd_f_empty: "session_ok self \<Longrightarrow> p_frame_list self = [] \<Longrightarrow> hev_socks5_session_udp_fwd_f nt self num = Some (nt, self, 0)"
  by (simp add: hev_socks5_session_udp_fwd_f_def session_ok_def)

text \<open>The session is in the set of sessions, so it can be moved to its end.\<close>

definition in_set_of_sessions :: "int \<Rightarrow> stack \<Rightarrow> 'a HevSocks5SessionUDP_scheme \<Rightarrow> bool" where
  "in_set_of_sessions mx lw self \<longleftrightarrow> mx = 0 \<or> (\<exists>xs. sessions_rep (l_set lw) xs \<and> p_node self \<in> set xs)"

lemma update_in_set:
  assumes "in_set_of_sessions mx lw self"
  shows "\<exists>ss. hev_socks5_tunnel_update_session mx (l_set lw) (p_node self) = Some ss \<and> in_set_of_sessions mx (lw\<lparr>l_set := ss\<rparr>) self"
proof (cases "mx = 0")
  case True
  then show ?thesis by (simp add: hev_socks5_tunnel_update_session_def in_set_of_sessions_def)
next
  case False
  then obtain xs where xs: "sessions_rep (l_set lw) xs" "p_node self \<in> set xs" using assms by (auto simp: in_set_of_sessions_def)
  then obtain ss where "set_step mx (l_set lw) (Update (p_node self)) = Some (ss, None)" "sessions_rep ss (remove1 (p_node self) xs @ [p_node self])"
    using set_step_refines [of "l_set lw" xs "Update (p_node self)" mx] False by auto
  then show ?thesis by (auto simp: in_set_of_sessions_def)
qed

lemma yielder_tcp:
  assumes "s_type self = TYPE_UDP_IN_TCP" "in_set_of_sessions mx lw self"
  shows "\<exists>lw'. session_udp_yielder mx ty d nt lw self = Some (nt, lw', self, hev_socks5_task_io_yielder ty (s_timeout self) d) \<and>
    in_set_of_sessions mx lw' self \<and> l_sent lw' = l_sent lw"
  using update_in_set [OF assms(2)] assms(1) by (auto simp: session_udp_yielder_def)

lemma loop_flushes:
  assumes "length fs < k" "s_type self = TYPE_UDP_IN_TCP" "session_ok self" "tx_open (s_timeout self) (n_tx nt (s_fd self))"
    and "list_all2 queued (p_frame_list self) fs" "0 < num" "silent (n_rx nt (s_fd self))" "in_set_of_sessions mx lw self" "0 \<le> s_timeout self" "0 \<le> res_f"
  shows "\<exists>nt' lw' self'. session_udp_loop k mx buf stale num [] res_f res_b dns nt lw self = Finished (dns, nt', lw', self') \<and>
    p_frame_list self' = [] \<and> n_out nt' (s_fd self) = n_out nt (s_fd self) @ concat (map udp_frame fs) \<and> l_sent lw' = l_sent lw"
  using assms
proof (induction k arbitrary: fs res_f res_b nt lw self)
  case (Suc k)
  let ?fd = "s_fd self" and ?t = "s_timeout self"
  have B: "\<exists>es ag r. (if res_b \<ge> 0 then hev_socks5_session_udp_fwd_b (stale k) nt1 lw self1 else Some (nt1, lw, self1, res_b)) =
      Some (nt1\<lparr>n_rx := (n_rx nt1)(s_fd self1 := es), n_again := ag\<rparr>, lw, self1, r) \<and> silent es \<and> r \<le> 0"
    if "s_type self1 = TYPE_UDP_IN_TCP" "silent (n_rx nt1 (s_fd self1))" for nt1 and self1 :: "'a HevSocks5SessionUDP_scheme"
  proof (cases "res_b \<ge> 0")
    case True
    then show ?thesis using silent_fwd_b [OF that, of "stale k" lw] by simp
  next
    case False
    have "nt1\<lparr>n_rx := (n_rx nt1)(s_fd self1 := n_rx nt1 (s_fd self1)), n_again := n_again nt1\<rparr> = nt1" by simp
    then show ?thesis using False that by (intro exI [of _ "n_rx nt1 (s_fd self1)"] exI [of _ "n_again nt1"] exI [of _ res_b]) simp
  qed
  show ?case
  proof (cases "fs = []")
    case True
    then have "p_frame_list self = []" using Suc.prems(5) by simp
    then have F: "hev_socks5_session_udp_fwd_f nt self num = Some (nt, self, 0)" using fwd_f_empty Suc.prems(3) by blast
    obtain es ag r where b: "(if res_b \<ge> 0 then hev_socks5_session_udp_fwd_b (stale k) nt lw self else Some (nt, lw, self, res_b)) =
        Some (nt\<lparr>n_rx := (n_rx nt)(?fd := es), n_again := ag\<rparr>, lw, self, r)" "r \<le> 0"
      using B [OF Suc.prems(2,7)] by blast
    let ?nt = "nt\<lparr>n_rx := (n_rx nt)(?fd := es), n_again := ag\<rparr>"
    obtain lw' where y: "session_udp_yielder mx HEV_TASK_WAITIO (nat ?t) ?nt lw self = Some (?nt, lw', self, hev_socks5_task_io_yielder HEV_TASK_WAITIO ?t (nat ?t))"
      "l_sent lw' = l_sent lw" using yielder_tcp [OF Suc.prems(2,8)] by blast
    have "hev_socks5_task_io_yielder HEV_TASK_WAITIO ?t (nat ?t) \<noteq> 0" using Suc.prems(9) by (simp add: yielder_zero_iff)
    then have "session_udp_loop (Suc k) mx buf stale num [] res_f res_b dns nt lw self = Finished (dns, ?nt, lw', self)"
      using F b y Suc.prems(10) by (simp add: Let_def)
    then show ?thesis using True y(2) \<open>p_frame_list self = []\<close> by simp
  next
    case False
    define s1 where "s1 = self\<lparr>p_frame_list := drop num (p_frame_list self), p_frames := int (length (drop num (p_frame_list self)))\<rparr>"
    obtain nt1 where F: "hev_socks5_session_udp_fwd_f nt self num = Some (nt1, s1, 1)"
      "n_out nt1 ?fd = n_out nt ?fd @ concat (map udp_frame (take num fs))" "tx_open ?t (n_tx nt1 ?fd)" "n_rx nt1 = n_rx nt"
      using fwd_f_sends [OF Suc.prems(2-5) False Suc.prems(6)] unfolding s1_def by blast
    have same: "s_fd s1 = ?fd" "s_timeout s1 = ?t" "s_type s1 = TYPE_UDP_IN_TCP" "p_node s1 = p_node self" "p_frame_list s1 = drop num (p_frame_list self)"
      using Suc.prems(2) by (simp_all add: s1_def)
    obtain es ag r where b: "(if res_b \<ge> 0 then hev_socks5_session_udp_fwd_b (stale k) nt1 lw s1 else Some (nt1, lw, s1, res_b)) =
        Some (nt1\<lparr>n_rx := (n_rx nt1)(s_fd s1 := es), n_again := ag\<rparr>, lw, s1, r)" "silent es" "r \<le> 0"
      using B [of s1 nt1] Suc.prems(7) F(4) same by auto
    let ?nt = "nt1\<lparr>n_rx := (n_rx nt1)(s_fd s1 := es), n_again := ag\<rparr>"
    have st: "s_type s1 = TYPE_UDP_IN_TCP" "in_set_of_sessions mx lw s1" using same Suc.prems(8) by (simp_all add: in_set_of_sessions_def)
    obtain lw' where y: "session_udp_yielder mx HEV_TASK_YIELD (nat (s_timeout s1)) ?nt lw s1 = Some (?nt, lw', s1, hev_socks5_task_io_yielder HEV_TASK_YIELD (s_timeout s1) (nat (s_timeout s1)))"
      "in_set_of_sessions mx lw' s1" "l_sent lw' = l_sent lw" using yielder_tcp [OF st] by blast
    have z: "hev_socks5_task_io_yielder HEV_TASK_YIELD (s_timeout s1) (nat (s_timeout s1)) = 0" by (simp add: hev_socks5_task_io_yielder_def)
    have e: "session_udp_loop (Suc k) mx buf stale num [] res_f res_b dns nt lw self = session_udp_loop k mx buf stale num [] 1 r dns ?nt lw' s1"
      using F(1) b(1) y(1) z Suc.prems(10) by (simp add: Let_def)
    have ok: "session_ok s1" using Suc.prems(3) by (auto simp: session_ok_def s1_def)
    have q: "list_all2 queued (p_frame_list s1) (drop num fs)" using Suc.prems(5) same by (simp add: list_all2_dropI)
    have len: "length (drop num fs) < k" using Suc.prems(1,6) False by (cases fs) auto
    have tx: "tx_open (s_timeout s1) (n_tx ?nt (s_fd s1))" "silent (n_rx ?nt (s_fd s1))" "0 \<le> s_timeout s1"
      using F(3) b(2) Suc.prems(9) same by simp_all
    obtain nt' lw2 self' where "session_udp_loop k mx buf stale num [] 1 r dns ?nt lw' s1 = Finished (dns, nt', lw2, self')" "p_frame_list self' = []"
      "n_out nt' (s_fd s1) = n_out ?nt (s_fd s1) @ concat (map udp_frame (drop num fs))" "l_sent lw2 = l_sent lw'"
      using Suc.IH [OF len st(1) ok tx(1) q Suc.prems(6) tx(2) y(2) tx(3), of 1 r] by auto
    moreover have "concat (map udp_frame (take num fs)) @ concat (map udp_frame (drop num fs)) = concat (map udp_frame fs)"
      by (simp only: concat_append [symmetric] map_append [symmetric] append_take_drop_id)
    ultimately show ?thesis using e F(2) y(3) same by simp
  qed
qed simp


section \<open>A named peer from end to end\<close>

lemma fifo_learn_lookup: "distinct (map fst m) \<Longrightarrow> map_of (fifo_learn m k v) k = Some v"
proof -
  assume d: "distinct (map fst m)"
  obtain xs ys where f: "fifo_learn m k v = xs @ (k, v) # ys" and k: "k \<notin> fst ` set (xs @ ys)"
    using fifo_learn_new [OF d, of k v] by (elim exE conjE)
  from k have "k \<notin> fst ` set xs" by auto
  then show ?thesis unfolding f by (rule map_of_middle)
qed

text \<open>C25. A peer that the application addresses by a synthetic address: its datagram is queued for the
  name behind the address, and whatever the server sends back under that name is delivered to
  the application from the synthetic address and port it used.\<close>

theorem session_udp_named_exchange:
  assumes "hev_mapped_dns_lookup d (ip4_host b) = Some (d', Some nm)" "nm \<noteq> []" "length nm \<le> 255" "0 \<notin> set nm"
    and "session_ok self" "p_frames self \<le> int UDP_POOL_SIZE" "length buf = sizeof_addr" "n_mem nt = []"
  shows "\<exists>nt' self' fr. udp_recv_handler (Some d) buf (IpV4 b) port nt self (Some [data]) = Some (Some d', nt', self') \<and>
    p_frame_list self' = p_frame_list self @ [fr] \<and> queued fr (Domain nm port, data) \<and> session_ok self' \<and>
    (\<forall>q reply. delivery self' (Domain nm q, reply) = Some (IpV4 b, port, reply))"
proof -
  obtain r where a: "hev_socks5_addr_from_name buf nm (ntohs port) = Some (wire (Domain nm port) @ r, 4 + int (length nm))"
    using from_name_eq [OF assms(3,4,7)] by blast
  let ?a = "wire (Domain nm port) @ r"
  have f: "hev_socks5_addr_from_lwip (Some d) buf (IpV4 b) port = Some (Some d', ?a, 0)"
    using a assms(1) by (simp add: hev_socks5_addr_from_lwip_def)
  have l: "unat (of_nat (length nm) :: u8) = length nm" using assms(3) by (simp add: unat_of_nat take_bit_nat_eq_self)
  have n: "named ?a" "name_of ?a = nm" using l assms(2) by (auto simp: named_def name_of_def word_unat_eq_iff)
  have inv: "name_inv (p_names self, p_names_next self)" using assms(5) by (simp add: session_ok_def)
  obtain ns nx where le: "name_map_learn (p_names self, p_names_next self) ?a b port = (ns, nx)" by (rule prod.exhaust)
  have abs: "name_abs (ns, nx) = fifo_learn (name_abs (p_names self, p_names_next self)) nm (b, port)"
    using name_learn_refines [OF inv n(1), of b port] le n(2) by simp
  have look: "map_of (name_abs (ns, nx)) nm = Some (b, port)" unfolding abs by (rule fifo_learn_lookup [OF names_keys [OF inv]])
  let ?fr = "\<lparr>fr_addr = ?a, fr_data = [data]\<rparr>"
  let ?self = "self\<lparr>p_names := ns, p_names_next := nx, p_addr := b, p_port := port, p_frames := p_frames self + 1, p_frame_list := p_frame_list self @ [?fr]\<rparr>"
  have h: "udp_recv_handler (Some d) buf (IpV4 b) port nt self (Some [data]) = Some (Some d', nt\<lparr>n_live := n_live nt + 1\<rparr>, ?self)"
    using assms(6,8) f le by (simp add: udp_recv_handler_def hev_malloc_def)
  have q: "queued ?fr (Domain nm port, data)" using assms(3,4) by (auto simp: queued_def carries_def frame_msg_def)
  have "session_ok ?self" using handler_keeps [OF h assms(5,7)] by blast
  moreover have "\<forall>q reply. delivery ?self (Domain nm q, reply) = Some (IpV4 b, port, reply)" using look by (simp add: delivery_def)
  ultimately show ?thesis using h q by (intro exI [of _ "nt\<lparr>n_live := n_live nt + 1\<rparr>"] exI [of _ ?self] exI [of _ ?fr]) simp
qed

section \<open>Witnesses\<close>

definition example_session :: HevSocks5SessionUDP where
  "example_session = zero_session_udp\<lparr>s_type := TYPE_UDP_IN_TCP, s_timeout := 60000, p_node := 8\<rparr>"

definition example_stack :: stack where
  "example_stack = \<lparr>l_set = example_sessions, l_sent = [], l_errs = []\<rparr>"

lemma example_session_ok: "session_ok example_session" "s_type example_session = TYPE_UDP_IN_TCP" "s_timeout example_session = 60000"
  "s_fd example_session = 0" "p_frames example_session = 0" "p_frame_list example_session = []"
  using zero_names by (simp_all add: example_session_def session_ok_def zero_session_udp_def)

definition example_queued :: HevSocks5SessionUDP where
  "example_queued = example_session\<lparr>p_frames := 1, p_frame_list := [\<lparr>fr_addr = wire example_dest, fr_data = [[7, 8]]\<rparr>]\<rparr>"

lemma example_queued_ok: "session_ok example_queued" "list_all2 queued (p_frame_list example_queued) [(example_dest, [7, 8])]"
  "s_type example_queued = TYPE_UDP_IN_TCP" "s_timeout example_queued = 60000" "s_fd example_queued = 0" "hev_socks5_client_udp_get_fd example_queued = 0"
  "p_frames example_queued = 1"
  using example_session_ok by (simp_all add: example_queued_def session_ok_def UDP_POOL_SIZE_def queued_def carries_def frame_msg_def example_dest_def hev_socks5_client_udp_get_fd_def)



lemma session_udp_bounded_witness:
  "\<exists>nt' lw' self'. hev_socks5_session_udp_splice 2 misc_init 0 (replicate 260 0) (\<lambda>_. []) [] None ((quiet_net (\<lambda>_. []))\<lparr>n_live := 3\<rparr>) example_stack example_queued =
     Finished (None, nt', lw', self') \<and> n_live (hev_socks5_session_udp_destruct nt' self') = 0"
proof -
  have "list_all2 queued (p_frame_list example_queued) [(example_dest, [7, 8])] \<and> silent (n_rx ((quiet_net (\<lambda>_. []))\<lparr>n_live := 3\<rparr>) 0)"
    using example_queued_ok by (simp add: quiet_net_def silent_def)
  then obtain nt' lw' self' where 1: "session_udp_loop 2 0 (replicate 260 0) (\<lambda>_. []) 10 [] 1 1 None (hev_task_add_fd ((quiet_net (\<lambda>_. []))\<lparr>n_live := 3\<rparr>) 0) example_stack example_queued =
      Finished (None, nt', lw', self')"
    using loop_flushes [of "[(example_dest, [7, 8])]" 2 example_queued "hev_task_add_fd ((quiet_net (\<lambda>_. []))\<lparr>n_live := 3\<rparr>) 0" 10 0 example_stack 1 "replicate 260 0" "\<lambda>_. []" 1 None]
      example_queued_ok by (auto simp: quiet_net_def tx_open_def in_set_of_sessions_def hev_task_add_fd_def)
  then have s: "hev_socks5_session_udp_splice 2 misc_init 0 (replicate 260 0) (\<lambda>_. []) [] None ((quiet_net (\<lambda>_. []))\<lparr>n_live := 3\<rparr>) example_stack example_queued =
      Finished (None, nt', lw', self')"
    using example_queued_ok by (simp add: hev_socks5_session_udp_splice_def misc_init_def)
  have "n_live ((quiet_net (\<lambda>_. []))\<lparr>n_live := 3\<rparr>) = 3" by (simp add: quiet_net_def)
  then show ?thesis using session_udp_bounded [OF s example_queued_ok(1)] s example_queued_ok by (simp add: sizeof_addr_def)
qed


lemma example_lookup: "\<exists>d d'. hev_mapped_dns_lookup d (ip4_host [198, 18, 0, 0]) = Some (d', Some [97])"
proof -
  obtain d where d: "dns_state d []" "mapped_net d 17" "d_max d = 2" "d_net d = 0xC6120000" "d_entries d = Map.empty"
    using example_dns by blast
  have "alloc_ok (16, True) d" using d by (simp add: alloc_ok_def aligned_def)
  then obtain d1 where d1: "dns_state d1 [([97], 0)]" "same_net d d1"
    using find_state [OF d(1), of "(16, True)" "[97]" "[([97], 0)]" 0] d(3) by (auto simp: lru_find_def)
  have "ip4_host [198, 18, 0, 0] = d_net d OR word_of_int 0" using d(4) by (simp add: ip4_host_def)
  moreover have "sint ((d_net d OR word_of_int 0) AND NOT (d_mask d1)) = 0"
    using host_index [OF d(2), of 0] d(3) d1(2) by (simp add: same_net_def)
  moreover have "lru_lookup 0 [([97], 0)] = ([([97], 0)], Some [97])" by (simp add: lru_lookup_def)
  ultimately show ?thesis using lookup_state [OF d1(1), of "ip4_host [198, 18, 0, 0]"] by auto
qed

lemma session_udp_named_exchange_witness:
  "\<exists>d d' nt' self' fr. udp_recv_handler (Some d) (replicate 260 0) (IpV4 [198, 18, 0, 0]) 53 (quiet_net (\<lambda>_. [])) example_session (Some [[1, 2]]) = Some (Some d', nt', self') \<and>
     queued fr (Domain [97] 53, [1, 2]) \<and> p_frame_list self' = [fr] \<and> delivery self' (Domain [97] 9, [3]) = Some (IpV4 [198, 18, 0, 0], 53, [3])"
proof -
  obtain d d' where d: "hev_mapped_dns_lookup d (ip4_host [198, 18, 0, 0]) = Some (d', Some [97])" using example_lookup by blast
  from session_udp_named_exchange [OF d, of example_session "replicate 260 0" "quiet_net (\<lambda>_. [])" 53 "[1, 2]"] example_session_ok
  have "\<exists>nt' self' fr. udp_recv_handler (Some d) (replicate 260 0) (IpV4 [198, 18, 0, 0]) 53 (quiet_net (\<lambda>_. [])) example_session (Some [[1, 2]]) = Some (Some d', nt', self') \<and>
     p_frame_list self' = p_frame_list example_session @ [fr] \<and> queued fr (Domain [97] 53, [1, 2]) \<and> session_ok self' \<and>
     (\<forall>q reply. delivery self' (Domain [97] q, reply) = Some (IpV4 [198, 18, 0, 0], 53, reply))"
    by (simp add: sizeof_addr_def quiet_net_def)
  then show ?thesis using example_session_ok(6) by fastforce
qed

end
