(* ===== verification/TunnelTasks.thy ===== *)
theory TunnelTasks
  imports TunnelLife SessionTCPProps SessionUDPProps
begin

text \<open>
  The running tunnel (\<open>hev-socks5-tunnel.c\<close>, \<open>hev-socks5-session.c\<close>): the handlers that lwIP calls for new connections
  and datagrams, the tasks of the sessions, of the timer and of the stop event, the set of sessions, the control blocks
  and the allocations, as one state. \<open>tunnel_step\<close> is what one event does to it, \<open>tunnel_run\<close> a sequence of events; then
  the invariant, the events that can happen, and the two faults. An operation that touches a session, a task or
  a control block that is not there is undefined.
\<close>

section \<open>State\<close>

text \<open>A task is in no queue until it is run; waking it then calls \<open>abort\<close>.\<close>

datatype HevTaskState = HEV_TASK_STOPPED | HEV_TASK_RUNNING | HEV_TASK_WAITING

datatype session = TcpSession HevSocks5SessionTCP | UdpSession HevSocks5SessionUDP

text \<open>What \<open>HevSocks5SessionData\<close> holds besides the node: the session and its task, null until it is set. \<open>d_pcb\<close> names
  the control block the session was made for.\<close>

record HevSocks5SessionData =
  d_self :: session
  d_task :: "HevTaskState option"
  d_pcb :: nat

text \<open>The control blocks of lwIP for UDP, apart from the one of the gateway, which listens: the peer, the local
  address of the last datagram, and the receiver with its argument.\<close>

datatype receiver = DnsReceiver | SessionReceiver addr

record udp_block =
  b_id :: nat
  b_remote :: "ip_addr \<times> u16"
  b_local :: "ip_addr \<times> u16"
  b_recv :: "receiver option"

record tunnel =
  g_run :: bool
  g_timer :: HevTaskState
  g_lw :: stack
  g_dns :: "HevMappedDNS option"
  g_net :: net
  g_data :: "addr \<rightharpoonup> HevSocks5SessionData"
  g_tcp :: "nat \<rightharpoonup> tcp_pcb"
  g_udp :: "udp_block list"

text \<open>What stays the same while the tunnel runs: the configuration, the allocator of the mapped DNS, and what
  uninitialised memory holds.\<close>

record surroundings =
  v_cf :: HevConfig
  v_al :: "HevMappedDNS \<Rightarrow> allocation"
  v_buf :: bytes
  v_block :: bytes

definition set_node :: "tunnel \<Rightarrow> addr \<Rightarrow> HevListNode option \<Rightarrow> tunnel" where
  "set_node t a n = (let ss = l_set (g_lw t); l = session_set ss in
     t\<lparr>g_lw := (g_lw t)\<lparr>l_set := ss\<lparr>session_set := l\<lparr>lnodes := (lnodes l)(a := n)\<rparr>\<rparr>\<rparr>\<rparr>)"

section \<open>Tasks\<close>

text \<open>The waking of a task that runs is skipped.\<close>

definition hev_task_wakeup :: "tunnel \<Rightarrow> addr \<Rightarrow> tunnel option" where
  "hev_task_wakeup t a = do {
     d \<leftarrow> g_data t a;
     task \<leftarrow> d_task d;
     if task = HEV_TASK_STOPPED then None
     else Some (t\<lparr>g_data := (g_data t)(a \<mapsto> d\<lparr>d_task := Some HEV_TASK_RUNNING\<rparr>)\<rparr>) }"

definition wakeup_timer :: "tunnel \<Rightarrow> tunnel option" where
  "wakeup_timer t = (if g_timer t = HEV_TASK_STOPPED then None else Some (t\<lparr>g_timer := HEV_TASK_RUNNING\<rparr>))"

definition hev_task_new :: "tunnel \<Rightarrow> tunnel \<times> bool" where
  "hev_task_new t = (case hev_malloc (g_net t) of (nt, ok) \<Rightarrow> (t\<lparr>g_net := nt\<rparr>, ok))"

definition hev_socks5_session_set_task :: "tunnel \<Rightarrow> addr \<Rightarrow> tunnel option" where
  "hev_socks5_session_set_task t a = do {
     d \<leftarrow> g_data t a;
     Some (t\<lparr>g_data := (g_data t)(a \<mapsto> d\<lparr>d_task := Some HEV_TASK_STOPPED\<rparr>)\<rparr>) }"

definition hev_task_run :: "tunnel \<Rightarrow> addr \<Rightarrow> tunnel option" where
  "hev_task_run t a = do {
     d \<leftarrow> g_data t a;
     task \<leftarrow> d_task d;
     Some (if task \<noteq> HEV_TASK_STOPPED then t
           else t\<lparr>g_data := (g_data t)(a \<mapsto> d\<lparr>d_task := Some HEV_TASK_RUNNING\<rparr>)\<rparr>) }"

section \<open>Sessions\<close>

fun session_set_timeout :: "int \<Rightarrow> session \<Rightarrow> session" where
  "session_set_timeout n (TcpSession self) = TcpSession (hev_socks5_set_timeout self n)"
| "session_set_timeout n (UdpSession self) = UdpSession (hev_socks5_set_timeout self n)"

fun session_timeout :: "session \<Rightarrow> int" where
  "session_timeout (TcpSession self) = s_timeout self"
| "session_timeout (UdpSession self) = s_timeout self"

definition hev_socks5_session_terminate :: "tunnel \<Rightarrow> addr \<Rightarrow> tunnel option" where
  "hev_socks5_session_terminate t a = do {
     d \<leftarrow> g_data t a;
     hev_task_wakeup (t\<lparr>g_data := (g_data t)(a \<mapsto> d\<lparr>d_self := session_set_timeout 0 (d_self d)\<rparr>)\<rparr>) a }"

text \<open>A new session lies in fresh memory: its node is in no list, and its task is not set.\<close>

fun session_at :: "addr \<Rightarrow> session \<Rightarrow> session" where
  "session_at a (TcpSession self) = TcpSession (self\<lparr>q_node := a\<rparr>)"
| "session_at a (UdpSession self) = UdpSession (self\<lparr>p_node := a\<rparr>)"

definition new_session :: "tunnel \<Rightarrow> addr \<Rightarrow> session \<Rightarrow> nat \<Rightarrow> tunnel" where
  "new_session t a s i = (set_node t a (Some \<lparr>l_next = 0, l_prev = 0\<rparr>))\<lparr>g_data := (g_data t)(a \<mapsto> \<lparr>d_self = session_at a s, d_task = None, d_pcb = i\<rparr>)\<rparr>"

text \<open>A control block of a connection that was just established; lwIP frees an aborted one.\<close>

definition new_tcp_pcb :: tcp_pcb where
  "new_tcp_pcb = \<lparr>tp_delivered = [], tp_recved = 0, tp_written = [], tp_acked = 0, tp_results = [], tp_shut = False, tp_aborted = False\<rparr>"

definition udp_remove :: "tunnel \<Rightarrow> nat \<Rightarrow> tunnel" where
  "udp_remove t i = t\<lparr>g_udp := filter (\<lambda>b. b_id b \<noteq> i) (g_udp t), g_net := hev_free (g_net t)\<rparr>"

text \<open>The last reference is given up: the session is destructed with its class, and its memory is gone.\<close>

definition hev_object_unref :: "tunnel \<Rightarrow> addr \<Rightarrow> tunnel option" where
  "hev_object_unref t a = do {
     d \<leftarrow> g_data t a;
     t \<leftarrow> (case d_self d of
        TcpSession self \<Rightarrow>
          if q_pcb self \<and> g_tcp t (d_pcb d) = None then None
          else
            let pcb = (case g_tcp t (d_pcb d) of Some pcb \<Rightarrow> pcb | None \<Rightarrow> new_tcp_pcb);
                (nt, env) = hev_socks5_session_tcp_destruct (g_net t) \<lparr>e_set = l_set (g_lw t), e_pcb = pcb, e_fin = False\<rparr> self in
            Some (t\<lparr>g_net := nt, g_tcp := (if tp_aborted (e_pcb env) then (g_tcp t)(d_pcb d := None) else g_tcp t)\<rparr>)
      | UdpSession self \<Rightarrow>
          let t = t\<lparr>g_net := hev_socks5_session_udp_destruct (g_net t) self\<rparr> in
          Some (if p_pcb self then udp_remove t (d_pcb d) else t));
     Some ((set_node t a None)\<lparr>g_data := (g_data t)(a := None)\<rparr>) }"

section \<open>The set of sessions\<close>

definition tunnel_insert_session :: "int \<Rightarrow> tunnel \<Rightarrow> addr \<Rightarrow> tunnel option" where
  "tunnel_insert_session mx t a = do {
     (ss, victim) \<leftarrow> hev_socks5_tunnel_insert_session mx (l_set (g_lw t)) a;
     let t = t\<lparr>g_lw := (g_lw t)\<lparr>l_set := ss\<rparr>\<rparr>;
     case victim of None \<Rightarrow> Some t | Some v \<Rightarrow> hev_socks5_session_terminate t v }"

text \<open>The part that the two handlers share: the session is there, its task is made, set, and run with
  \<open>hev_socks5_session_task_entry\<close>. The second component tells whether there was memory for the task.\<close>

definition start_session :: "int \<Rightarrow> tunnel \<Rightarrow> addr \<Rightarrow> (tunnel \<times> bool) option" where
  "start_session mx t a =
     (case hev_task_new t of (t, ok) \<Rightarrow>
      if \<not> ok then do { t \<leftarrow> hev_object_unref t a; Some (t, False) }
      else do {
        t \<leftarrow> hev_socks5_session_set_task t a;
        t \<leftarrow> tunnel_insert_session mx t a;
        t \<leftarrow> hev_task_run t a;
        t \<leftarrow> wakeup_timer t;
        Some (t, True) })"

section \<open>TCP\<close>

datatype err_t = ERR_OK | ERR_MEM | ERR_RST | ERR_ABRT

text \<open>\<open>ip\<close> and \<open>port\<close> are the local ones of the control block \<open>i\<close>, \<open>a\<close> is the address that the allocator has for the session.\<close>

definition tcp_accept_handler :: "surroundings \<Rightarrow> addr \<Rightarrow> nat \<Rightarrow> ip_addr \<Rightarrow> u16 \<Rightarrow> err_t \<Rightarrow> tunnel \<Rightarrow> (tunnel \<times> err_t) option" where
  "tcp_accept_handler v a i ip port err t =
     (if err \<noteq> ERR_OK then Some (t, err)
      else if \<not> g_run t then Some (t, ERR_RST)
      else do {
        (dns, nt, s) \<leftarrow> hev_socks5_session_tcp_new (g_dns t) (v_buf v) ip port (g_net t);
        let t = t\<lparr>g_dns := dns, g_net := nt\<rparr>;
        case s of
          None \<Rightarrow> Some (t, ERR_MEM)
        | Some self \<Rightarrow> do {
            (t, ok) \<leftarrow> start_session (cf_max_session_count (v_cf v)) (new_session t a (TcpSession self) i) a;
            Some (t, if ok then ERR_OK else ERR_MEM) } })"

definition tcp_abort :: "tunnel \<Rightarrow> nat \<Rightarrow> tunnel option" where
  "tcp_abort t i = (if g_tcp t i = None then None else Some (t\<lparr>g_tcp := (g_tcp t)(i := None)\<rparr>))"

text \<open>What lwIP does with the result of the handler: on every error but one it aborts the connection itself.\<close>

definition tcp_accepted :: "surroundings \<Rightarrow> addr \<Rightarrow> nat \<Rightarrow> ip_addr \<Rightarrow> u16 \<Rightarrow> tunnel \<Rightarrow> tunnel option" where
  "tcp_accepted v a i ip port t = do {
     (t, err) \<leftarrow> tcp_accept_handler v a i ip port ERR_OK (t\<lparr>g_tcp := (g_tcp t)(i \<mapsto> new_tcp_pcb)\<rparr>);
     if err \<noteq> ERR_OK \<and> err \<noteq> ERR_ABRT then tcp_abort t i else Some t }"

text \<open>An event of the connection of session \<open>a\<close>. A handler that takes the event also wakes the task, and after an error the
  session is terminated; lwIP has freed the control block then.\<close>

definition tcp_callback :: "addr \<Rightarrow> tcp_event \<Rightarrow> tunnel \<Rightarrow> tunnel option" where
  "tcp_callback a ev t = do {
     d \<leftarrow> g_data t a;
     case (d_self d, g_tcp t (d_pcb d)) of
       (TcpSession self, Some pcb) \<Rightarrow> do {
         (nt, env, self') \<leftarrow> tcp_event ev (g_net t) \<lparr>e_set = l_set (g_lw t), e_pcb = pcb, e_fin = False\<rparr> self;
         let t' = t\<lparr>g_net := nt, g_tcp := (g_tcp t)(d_pcb d := if ev = Err then None else Some (e_pcb env)),
                    g_data := (g_data t)(a \<mapsto> d\<lparr>d_self := TcpSession self'\<rparr>)\<rparr>;
         if self' = self \<and> e_pcb env = pcb then Some t
         else if ev = Err then hev_socks5_session_terminate t' a
         else hev_task_wakeup t' a }
     | _ \<Rightarrow> Some t }"

section \<open>UDP\<close>

text \<open>A datagram: source, destination, and the segments of its packet buffer; \<open>k_pad\<close> is the rest of the block of the first.\<close>

record datagram =
  k_src :: "ip_addr \<times> u16"
  k_dst :: "ip_addr \<times> u16"
  k_data :: "bytes list"
  k_pad :: bytes

definition pbuf_free :: "tunnel \<Rightarrow> tunnel" where
  "pbuf_free t = t\<lparr>g_net := hev_free (g_net t)\<rparr>"

text \<open>A query for the mapped DNS: the control block has served when it is answered.\<close>

definition dns_recv_handler :: "surroundings \<Rightarrow> udp_block \<Rightarrow> datagram \<Rightarrow> tunnel \<Rightarrow> tunnel option" where
  "dns_recv_handler v b k t =
     (case hev_malloc (g_net t) of (nt, ok) \<Rightarrow>
      let t = t\<lparr>g_net := nt\<rparr> in
      if \<not> ok then Some (udp_remove (pbuf_free t) (b_id b))
      else do {
        d \<leftarrow> g_dns t;
        (d, _, out, res) \<leftarrow> hev_mapped_dns_handle (v_al v) d (hd (k_data k) @ k_pad k) (length (hd (k_data k))) (v_block v) UDP_BUF_SIZE;
        let t = t\<lparr>g_dns := Some d\<rparr>;
        let t = (if res < 0 then t else t\<lparr>g_lw := fst (udp_sendfrom (g_lw t) (fst (b_local b)) (snd (b_local b)) (take (nat res) out))\<rparr>);
        let t = pbuf_free t;
        Some (udp_remove (pbuf_free t) (b_id b)) })"

text \<open>The first datagram of a peer: a block for it exists.\<close>

definition ip4_is :: "ip_addr \<Rightarrow> u32 \<Rightarrow> bool" where
  "ip4_is ip a = (case ip of IpV4 b \<Rightarrow> of_le (map unat b) = a | _ \<Rightarrow> False)"

definition set_recv :: "tunnel \<Rightarrow> nat \<Rightarrow> receiver \<Rightarrow> tunnel" where
  "set_recv t i r = t\<lparr>g_udp := map (\<lambda>b. if b_id b = i then b\<lparr>b_recv := Some r\<rparr> else b) (g_udp t)\<rparr>"

definition tunnel_udp_recv_handler :: "surroundings \<Rightarrow> addr \<Rightarrow> nat \<Rightarrow> ip_addr \<Rightarrow> u16 \<Rightarrow> tunnel \<Rightarrow> tunnel option" where
  "tunnel_udp_recv_handler v a i ip port t =
     (if \<not> g_run t then Some (udp_remove t i)
      else if g_dns t \<noteq> None \<and> cf_mapdns_port (v_cf v) = uint port \<and> ip4_is ip (cf_mapdns_address (v_cf v))
      then Some (set_recv t i DnsReceiver)
      else case hev_socks5_session_udp_new (cf_srv (v_cf v)) (g_net t) of (nt, s) \<Rightarrow>
        let t = t\<lparr>g_net := nt\<rparr> in
        case s of
          None \<Rightarrow> Some (udp_remove t i)
        | Some self \<Rightarrow> do {
            (t, _) \<leftarrow> start_session (cf_max_session_count (v_cf v)) (set_recv (new_session t a (UdpSession self) i) i (SessionReceiver a)) a;
            Some t })"

text \<open>A datagram for a session.\<close>

definition session_datagram :: "surroundings \<Rightarrow> addr \<Rightarrow> udp_block \<Rightarrow> datagram \<Rightarrow> tunnel \<Rightarrow> tunnel option" where
  "session_datagram v a b k t = do {
     d \<leftarrow> g_data t a;
     case d_self d of
       TcpSession _ \<Rightarrow> None
     | UdpSession self \<Rightarrow> do {
         (dns, nt, self') \<leftarrow> udp_recv_handler (g_dns t) (v_buf v) (fst (b_local b)) (snd (b_local b)) (g_net t) self (Some (k_data k));
         let t' = t\<lparr>g_dns := dns, g_net := nt, g_data := (g_data t)(a \<mapsto> d\<lparr>d_self := UdpSession self'\<rparr>)\<rparr>;
         if p_frames self' = p_frames self then Some t' else hev_task_wakeup t' a } }"

text \<open>The addresses of the gateway's interface, to which nothing is relayed.\<close>

definition own_address :: "ip_addr \<Rightarrow> bool" where
  "own_address ip = (case ip of IpV4 b \<Rightarrow> b = [127, 0, 0, 1] | IpV6 b \<Rightarrow> b = replicate 15 0 @ [1] | IpOther \<Rightarrow> False)"

text \<open>\<open>udp_input\<close> of lwIP, as far as the tunnel's control blocks go: all of them pretend to be the peer's destination. For
  an unknown peer a block is made and the gateway's receiver called; then the search begins again.\<close>

fun udp_again :: "nat \<Rightarrow> surroundings \<Rightarrow> addr \<Rightarrow> nat \<Rightarrow> datagram \<Rightarrow> tunnel \<Rightarrow> tunnel run" where
  "udp_again 0 v a i k t = Unfinished"
| "udp_again (Suc n) v a i k t =
     (case find (\<lambda>b. b_remote b = k_src k) (g_udp t) of
        Some b \<Rightarrow>
          let b' = b\<lparr>b_local := k_dst k\<rparr>;
              k' = k\<lparr>k_data := drop 8 (hd (k_data k)) # List.tl (k_data k)\<rparr>;
              t' = t\<lparr>g_udp := map (\<lambda>c. if b_id c = b_id b then b' else c) (g_udp t)\<rparr> in
          (case (case b_recv b of
              None \<Rightarrow> Some (pbuf_free t')
            | Some DnsReceiver \<Rightarrow> dns_recv_handler v b' k' t'
            | Some (SessionReceiver s) \<Rightarrow> session_datagram v s b' k' t') of
             None \<Rightarrow> Undefined
           | Some t \<Rightarrow> Finished t)
      | None \<Rightarrow>
          if own_address (fst (k_dst k)) then Finished (pbuf_free t)
          else (case hev_malloc (g_net t) of (nt, ok) \<Rightarrow>
            let t = t\<lparr>g_net := nt\<rparr> in
            if \<not> ok then Finished (pbuf_free t)
            else let b = \<lparr>b_id = i, b_remote = k_src k, b_local = (IpOther, 0), b_recv = None\<rparr> in
              (case tunnel_udp_recv_handler v a i (fst (k_dst k)) (snd (k_dst k)) (t\<lparr>g_udp := b # g_udp t\<rparr>) of
                 None \<Rightarrow> Undefined
               | Some t \<Rightarrow> udp_again n v a i k t)))"

definition udp_input :: "nat \<Rightarrow> surroundings \<Rightarrow> addr \<Rightarrow> nat \<Rightarrow> datagram \<Rightarrow> tunnel \<Rightarrow> tunnel run" where
  "udp_input n v a i k t =
     (let t = t\<lparr>g_net := (g_net t)\<lparr>n_live := n_live (g_net t) + 1\<rparr>\<rparr> in
      if length (hd (k_data k)) < 8 then Finished (pbuf_free t) else udp_again n v a i k t)"

section \<open>The ends of sessions and of the tunnel\<close>

text \<open>What follows \<open>hev_socks5_session_run\<close>; when the entry returns, the scheduler frees the task.\<close>

definition hev_socks5_session_task_entry :: "tunnel \<Rightarrow> addr \<Rightarrow> tunnel option" where
  "hev_socks5_session_task_entry t a = do {
     ss \<leftarrow> hev_socks5_tunnel_delete_session (l_set (g_lw t)) a;
     t \<leftarrow> hev_object_unref (t\<lparr>g_lw := (g_lw t)\<lparr>l_set := ss\<rparr>\<rparr>) a;
     Some (t\<lparr>g_net := hev_free (g_net t)\<rparr>) }"

text \<open>The event task after its read: the loop over the list of sessions.\<close>

fun terminate_loop :: "nat \<Rightarrow> tunnel \<Rightarrow> addr \<Rightarrow> tunnel run" where
  "terminate_loop 0 t node = Unfinished"
| "terminate_loop (Suc n) t node =
     (if node = 0 then Finished t
      else case hev_socks5_session_terminate t node of
        None \<Rightarrow> Undefined
      | Some t \<Rightarrow> (case hev_list_node_next (session_set (l_set (g_lw t))) node of
          None \<Rightarrow> Undefined
        | Some node \<Rightarrow> terminate_loop n t node))"

definition event_task_entry :: "nat \<Rightarrow> tunnel \<Rightarrow> tunnel run" where
  "event_task_entry n t = terminate_loop n (t\<lparr>g_run := False\<rparr>) (hev_list_first (session_set (l_set (g_lw t))))"

section \<open>The tunnel while it runs\<close>

text \<open>Tasks take turns only where they yield, and the callbacks of lwIP run inside the tasks that read the device or the timer; so
  what happens is a sequence of these events. \<open>Progress\<close> is what a session does by itself up to its next yield: it may change its
  own record, the state of the network and its control block. A session yields (\<open>Yield\<close>) to wait for I/O or to let others run, is woken by the
  scheduler (\<open>Wake\<close>), and returns into its splicer (\<open>Resume\<close>), which marks it as active; \<open>Tick\<close> is a round of the timer task.\<close>

datatype tunnel_event =
  Connect addr nat ip_addr u16
| Datagram addr nat datagram
| Callback addr tcp_event
| Progress addr session net "tcp_pcb option"
| Yield addr HevTaskState
| Wake addr
| Resume addr
| Tick
| Finish addr
| Quit

definition run_of :: "'a option \<Rightarrow> 'a run" where
  "run_of r = (case r of None \<Rightarrow> Undefined | Some x \<Rightarrow> Finished x)"

definition session_progress :: "addr \<Rightarrow> session \<Rightarrow> net \<Rightarrow> tcp_pcb option \<Rightarrow> tunnel \<Rightarrow> tunnel option" where
  "session_progress a s nt pcb t = do {
     d \<leftarrow> g_data t a;
     Some (t\<lparr>g_net := nt, g_data := (g_data t)(a \<mapsto> d\<lparr>d_self := s\<rparr>),
             g_tcp := (case (s, pcb) of (TcpSession _, Some pcb) \<Rightarrow> (g_tcp t)(d_pcb d \<mapsto> pcb) | _ \<Rightarrow> g_tcp t)\<rparr>) }"

definition session_yield :: "addr \<Rightarrow> HevTaskState \<Rightarrow> tunnel \<Rightarrow> tunnel option" where
  "session_yield a st t = do {
     d \<leftarrow> g_data t a;
     Some (t\<lparr>g_data := (g_data t)(a \<mapsto> d\<lparr>d_task := Some st\<rparr>)\<rparr>) }"

definition session_resume :: "surroundings \<Rightarrow> addr \<Rightarrow> tunnel \<Rightarrow> tunnel option" where
  "session_resume v a t = do {
     ss \<leftarrow> hev_socks5_tunnel_update_session (cf_max_session_count (v_cf v)) (l_set (g_lw t)) a;
     Some (t\<lparr>g_lw := (g_lw t)\<lparr>l_set := ss\<rparr>\<rparr>) }"

text \<open>The end of a round of the timer: it sleeps for a while or, when there is no session, until it is woken. After the stop the task
  ends.\<close>

definition lwip_timer_round :: "tunnel \<Rightarrow> tunnel" where
  "lwip_timer_round t = t\<lparr>g_timer := (if g_run t then HEV_TASK_WAITING else HEV_TASK_STOPPED)\<rparr>"

text \<open>The rounds of a datagram are bounded by the failing allocations to come, those of the event task by the sessions.\<close>

fun tunnel_step :: "surroundings \<Rightarrow> tunnel_event \<Rightarrow> tunnel \<Rightarrow> tunnel run" where
  "tunnel_step v (Connect a i ip port) t = run_of (tcp_accepted v a i ip port t)"
| "tunnel_step v (Datagram a i k) t = udp_input (length (n_mem (g_net t)) + 2) v a i k t"
| "tunnel_step v (Callback a ev) t = run_of (tcp_callback a ev t)"
| "tunnel_step v (Progress a s nt pcb) t = run_of (session_progress a s nt pcb t)"
| "tunnel_step v (Yield a st) t = run_of (session_yield a st t)"
| "tunnel_step v (Wake a) t = run_of (hev_task_wakeup t a)"
| "tunnel_step v (Resume a) t = run_of (session_resume v a t)"
| "tunnel_step v Tick t = Finished (lwip_timer_round t)"
| "tunnel_step v (Finish a) t = run_of (hev_socks5_session_task_entry t a)"
| "tunnel_step v Quit t = event_task_entry (nat (session_count (l_set (g_lw t))) + 1) t"

fun tunnel_run :: "surroundings \<Rightarrow> tunnel_event list \<Rightarrow> tunnel \<Rightarrow> tunnel run" where
  "tunnel_run v [] t = Finished t"
| "tunnel_run v (ev # evs) t = (case tunnel_step v ev t of Finished t \<Rightarrow> tunnel_run v evs t | Undefined \<Rightarrow> Undefined | Unfinished \<Rightarrow> Unfinished)"

text \<open>\<open>hev_socks5_tunnel_run\<close> hands the three tasks to the scheduler with an empty set of sessions.\<close>

definition hev_socks5_tunnel_run :: "HevMappedDNS option \<Rightarrow> net \<Rightarrow> tunnel" where
  "hev_socks5_tunnel_run dns nt = \<lparr>g_run = True, g_timer = HEV_TASK_RUNNING,
     g_lw = \<lparr>l_set = \<lparr>session_set = \<lparr>head = 0, tail = 0, lnodes = Map.empty\<rparr>, session_count = 0\<rparr>, l_sent = [], l_errs = []\<rparr>,
     g_dns = dns, g_net = nt, g_data = Map.empty, g_tcp = Map.empty, g_udp = []\<rparr>"

section \<open>What can go wrong\<close>

text \<open>The allocation after \<open>n\<close> others fails.\<close>

definition alloc_fails :: "net \<Rightarrow> nat \<Rightarrow> bool" where
  "alloc_fails nt n \<longleftrightarrow> n < length (n_mem nt) \<and> \<not> n_mem nt ! n"

text \<open>With a limit of one, the first session is terminated before its task runs.\<close>

definition wakes_itself :: "surroundings \<Rightarrow> tunnel \<Rightarrow> bool" where
  "wakes_itself v t \<longleftrightarrow> cf_max_session_count (v_cf v) \<noteq> 0 \<and> cf_max_session_count (v_cf v) \<le> 1 \<and> session_count (l_set (g_lw t)) = 0"

text \<open>The allocations for a new connection are its session, its address and its task; for a datagram of a new peer, the control block, the session and
  the task, again and again until all three succeed or the first of them fails.\<close>

fun udp_starts :: "bool list \<Rightarrow> bool" where
  "udp_starts (False # bs) = False"
| "udp_starts (True # False # bs) = udp_starts bs"
| "udp_starts (True # True # False # bs) = udp_starts bs"
| "udp_starts bs = True"

definition for_dns :: "surroundings \<Rightarrow> datagram \<Rightarrow> tunnel \<Rightarrow> bool" where
  "for_dns v k t \<longleftrightarrow> g_dns t \<noteq> None \<and> cf_mapdns_port (v_cf v) = uint (snd (k_dst k)) \<and> ip4_is (fst (k_dst k)) (cf_mapdns_address (v_cf v))"

definition known_peer :: "tunnel \<Rightarrow> datagram \<Rightarrow> bool" where
  "known_peer t k \<longleftrightarrow> (\<exists>b \<in> set (g_udp t). b_remote b = k_src k)"

fun fault :: "surroundings \<Rightarrow> tunnel_event \<Rightarrow> tunnel \<Rightarrow> bool" where
  "fault v (Connect a i ip port) t \<longleftrightarrow> g_run t \<and> \<not> alloc_fails (g_net t) 0 \<and> \<not> alloc_fails (g_net t) 1 \<and>
     (alloc_fails (g_net t) 2 \<or> wakes_itself v t)"
| "fault v (Datagram a i k) t \<longleftrightarrow> 8 \<le> length (hd (k_data k)) \<and> \<not> known_peer t k \<and> \<not> own_address (fst (k_dst k)) \<and> \<not> for_dns v k t \<and>
     udp_starts (n_mem (g_net t)) \<and> wakes_itself v t"
| "fault v _ t \<longleftrightarrow> False"

section \<open>The invariant\<close>

text \<open>What a session owns: itself, its task, and what hangs off it.\<close>

fun owned_by :: "session \<Rightarrow> int" where
  "owned_by (TcpSession self) = 2 + (if t_addr self \<noteq> None then 1 else 0) + int (length (q_queue self))"
| "owned_by (UdpSession self) = 3 + 2 * p_frames self"

definition all_owned :: "(addr \<rightharpoonup> HevSocks5SessionData) \<Rightarrow> int" where
  "all_owned ds = (\<Sum>a \<in> dom ds. owned_by (d_self (the (ds a))))"

definition startable :: "HevSocks5SessionData \<Rightarrow> bool" where
  "startable d \<longleftrightarrow> d_task d = Some HEV_TASK_RUNNING \<or> d_task d = Some HEV_TASK_WAITING"

text \<open>A session's control block is there and calls back this session.\<close>

definition session_at_ok :: "(nat \<rightharpoonup> tcp_pcb) \<Rightarrow> udp_block list \<Rightarrow> addr \<Rightarrow> HevSocks5SessionData \<Rightarrow> bool" where
  "session_at_ok tcp udp a d \<longleftrightarrow>
     (case d_self d of
        TcpSession self \<Rightarrow> q_node self = a \<and> (q_pcb self \<longleftrightarrow> d_pcb d \<in> dom tcp)
      | UdpSession self \<Rightarrow> p_node self = a \<and> p_pcb self \<and> session_ok self \<and>
          (\<exists>b \<in> set udp. b_id b = d_pcb d \<and> b_recv b = Some (SessionReceiver a)))"

definition tcp_owner :: "(addr \<rightharpoonup> HevSocks5SessionData) \<Rightarrow> nat \<Rightarrow> addr \<Rightarrow> bool" where
  "tcp_owner ds i a \<longleftrightarrow> (\<exists>d self. ds a = Some d \<and> d_pcb d = i \<and> d_self d = TcpSession self)"

definition udp_owner :: "(addr \<rightharpoonup> HevSocks5SessionData) \<Rightarrow> nat \<Rightarrow> addr \<Rightarrow> bool" where
  "udp_owner ds i a \<longleftrightarrow> (\<exists>d self. ds a = Some d \<and> d_pcb d = i \<and> d_self d = UdpSession self)"

text \<open>Every control block belongs to a live session, and no two sessions have the same one; \<open>I\<close> and \<open>J\<close> are blocks that no session
  has yet.\<close>

definition tcp_blocks :: "nat set \<Rightarrow> (nat \<rightharpoonup> tcp_pcb) \<Rightarrow> (nat \<Rightarrow> addr \<Rightarrow> bool) \<Rightarrow> bool" where
  "tcp_blocks I tcp own \<longleftrightarrow> (\<forall>i \<in> dom tcp - I. \<exists>a. own i a) \<and> (\<forall>i a a'. own i a \<and> own i a' \<longrightarrow> a = a') \<and> (\<forall>i a. own i a \<longrightarrow> i \<notin> I)"

definition udp_blocks :: "nat set \<Rightarrow> udp_block list \<Rightarrow> (nat \<Rightarrow> addr \<Rightarrow> bool) \<Rightarrow> bool" where
  "udp_blocks J udp own \<longleftrightarrow> distinct (map b_id udp) \<and> (\<forall>i a. own i a \<longrightarrow> i \<notin> J) \<and>
     (\<forall>b \<in> set udp. b_id b \<notin> J \<longrightarrow> (\<exists>a. b_recv b = Some (SessionReceiver a) \<and> own (b_id b) a))"

definition blocks_ok :: "nat set \<Rightarrow> nat set \<Rightarrow> (nat \<rightharpoonup> tcp_pcb) \<Rightarrow> udp_block list \<Rightarrow> (addr \<rightharpoonup> HevSocks5SessionData) \<Rightarrow> bool" where
  "blocks_ok I J tcp udp ds \<longleftrightarrow> tcp_blocks I tcp (tcp_owner ds) \<and> udp_blocks J udp (udp_owner ds)"

definition dns_ready :: "HevMappedDNS option \<Rightarrow> bool" where
  "dns_ready dns \<longleftrightarrow> (\<forall>d. dns = Some d \<longrightarrow> 1 \<le> d_max d \<and> 0 \<le> sint (NOT (d_mask d)) \<and> (\<exists>c. dns_state d c))"

text \<open>\<open>xs\<close> are the sessions in the set, \<open>zs\<close> those whose tasks run.\<close>

definition tunnel_core :: "int \<Rightarrow> tunnel \<Rightarrow> addr list \<Rightarrow> addr set \<Rightarrow> nat set \<Rightarrow> nat set \<Rightarrow> bool" where
  "tunnel_core base t xs zs I J \<longleftrightarrow>
     sessions_rep (l_set (g_lw t)) xs \<and> nodes_of (l_set (g_lw t)) = dom (g_data t) \<and> finite (dom (g_data t)) \<and>
     set xs \<union> zs \<subseteq> dom (g_data t) \<and> (\<forall>a d. a \<in> zs \<and> g_data t a = Some d \<longrightarrow> startable d) \<and>
     (\<forall>a d. g_data t a = Some d \<longrightarrow> a \<noteq> 0 \<and> session_at_ok (g_tcp t) (g_udp t) a d) \<and>
     blocks_ok I J (g_tcp t) (g_udp t) (g_data t) \<and> dns_ready (g_dns t) \<and>
     (g_run t \<longrightarrow> g_timer t \<noteq> HEV_TASK_STOPPED) \<and> n_live (g_net t) = base + all_owned (g_data t)"

text \<open>Between two events, every live session is in the set, its task runs, and every control block is a session's.\<close>

definition tunnel_inv :: "int \<Rightarrow> tunnel \<Rightarrow> addr list \<Rightarrow> bool" where
  "tunnel_inv base t xs \<longleftrightarrow> tunnel_core base t xs (set xs) {} {} \<and> dom (g_data t) = set xs"

text \<open>What holds of the surroundings.\<close>

definition surroundings_ok :: "surroundings \<Rightarrow> bool" where
  "surroundings_ok v \<longleftrightarrow> length (v_buf v) = sizeof_addr \<and> allocator_ok (v_al v) \<and> UDP_BUF_SIZE \<le> length (v_block v)"

section \<open>Which events can happen\<close>

text \<open>New sessions lie in fresh memory and have fresh control blocks. lwIP acknowledges only what a session has written, for which the
  session has a buffer. The names of the mapped DNS fit into an address, and a query has a full header. A session keeps to
  its own.\<close>

definition short_names :: "HevMappedDNS option \<Rightarrow> bool" where
  "short_names dns \<longleftrightarrow> (\<forall>d c. dns = Some d \<and> dns_state d c \<longrightarrow> (\<forall>(nm, i) \<in> set c. length nm \<le> 255 \<and> 0 \<notin> set nm))"

fun tunnel_event_ok :: "surroundings \<Rightarrow> tunnel_event \<Rightarrow> tunnel \<Rightarrow> bool" where
  "tunnel_event_ok v (Connect a i ip port) t \<longleftrightarrow> a \<noteq> 0 \<and> a \<notin> dom (g_data t) \<and> i \<notin> dom (g_tcp t) \<and>
     (\<forall>a. \<not> tcp_owner (g_data t) i a) \<and> short_names (g_dns t) \<and> ip \<noteq> IpOther"
| "tunnel_event_ok v (Datagram a i k) t \<longleftrightarrow> g_run t \<and> a \<noteq> 0 \<and> a \<notin> dom (g_data t) \<and> i \<notin> b_id ` set (g_udp t) \<and>
     short_names (g_dns t) \<and> k_data k \<noteq> [] \<and> fst (k_dst k) \<noteq> IpOther \<and> (for_dns v k t \<longrightarrow> 20 \<le> length (hd (k_data k)) \<and> k_pad k \<noteq> [])"
| "tunnel_event_ok v (Callback a ev) t \<longleftrightarrow> a \<in> dom (g_data t) \<and>
     (\<forall>n d self. ev = Sent n \<and> g_data t a = Some d \<and> d_self d = TcpSession self \<longrightarrow> q_buffer self \<noteq> None)"
| "tunnel_event_ok v (Progress a s nt pcb) t \<longleftrightarrow> (\<exists>d. g_data t a = Some d \<and>
     n_live nt - owned_by s = n_live (g_net t) - owned_by (d_self d) \<and>
     (case (d_self d, s) of
        (TcpSession self, TcpSession self') \<Rightarrow> q_node self' = q_node self \<and> q_pcb self' = q_pcb self \<and> (pcb = None \<longleftrightarrow> g_tcp t (d_pcb d) = None)
      | (UdpSession self, UdpSession self') \<Rightarrow> p_node self' = p_node self \<and> p_pcb self' = p_pcb self \<and> session_ok self'
      | _ \<Rightarrow> False))"
| "tunnel_event_ok v (Yield a st) t \<longleftrightarrow> a \<in> dom (g_data t) \<and> st \<noteq> HEV_TASK_STOPPED"
| "tunnel_event_ok v (Wake a) t \<longleftrightarrow> a \<in> dom (g_data t)"
| "tunnel_event_ok v (Resume a) t \<longleftrightarrow> a \<in> dom (g_data t)"
| "tunnel_event_ok v Tick t \<longleftrightarrow> True"
| "tunnel_event_ok v (Finish a) t \<longleftrightarrow> a \<in> dom (g_data t)"
| "tunnel_event_ok v Quit t \<longleftrightarrow> True"

end
