(* ===== verification/TunnelTasksInv.thy ===== *)
theory TunnelTasksInv
  imports TunnelTasks
begin

text \<open>
  How the parts of a step act on the invariant of the running tunnel: waking and terminating, making and giving up
  sessions and control blocks, inserting into the set, starting a session, and the new connection as a whole.
\<close>

section \<open>Sums\<close>

lemma all_owned_new:
  assumes "finite (dom ds)" "ds a = None" shows "all_owned (ds(a \<mapsto> d)) = all_owned ds + owned_by (d_self d)"
proof -
  have "(\<Sum>x \<in> dom ds. owned_by (d_self (the ((ds(a \<mapsto> d)) x)))) = all_owned ds"
    unfolding all_owned_def by (rule sum.cong) (use assms(2) in \<open>auto simp: domIff\<close>)
  then show ?thesis using assms by (simp add: all_owned_def domIff)
qed

lemma all_owned_del:
  assumes "finite (dom ds)" "ds a = Some d" shows "all_owned (ds(a := None)) = all_owned ds - owned_by (d_self d)"
proof -
  have f: "finite (dom (ds(a := None)))" using assms(1) by simp
  have "ds = (ds(a := None))(a \<mapsto> d)" using assms(2) by auto
  then have "all_owned ds = all_owned (ds(a := None)) + owned_by (d_self d)" using all_owned_new [OF f, of a d] by simp
  then show ?thesis by simp
qed

lemma all_owned_update:
  assumes "finite (dom ds)" "ds a = Some d" shows "all_owned (ds(a \<mapsto> d')) = all_owned ds - owned_by (d_self d) + owned_by (d_self d')"
proof -
  have "all_owned ((ds(a := None))(a \<mapsto> d')) = all_owned (ds(a := None)) + owned_by (d_self d')" using assms(1) by (intro all_owned_new) simp_all
  then show ?thesis using all_owned_del [OF assms] by simp
qed

section \<open>Changing a session\<close>

text \<open>A session keeps its kind and its control block.\<close>

definition same_place :: "HevSocks5SessionData \<Rightarrow> HevSocks5SessionData \<Rightarrow> bool" where
  "same_place d d' \<longleftrightarrow> d_pcb d' = d_pcb d \<and>
     (case (d_self d, d_self d') of (TcpSession _, TcpSession _) \<Rightarrow> True | (UdpSession _, UdpSession _) \<Rightarrow> True | _ \<Rightarrow> False)"

lemma same_place_owner:
  assumes "ds a = Some d" "same_place d d'"
  shows "tcp_owner (ds(a \<mapsto> d')) = tcp_owner ds" "udp_owner (ds(a \<mapsto> d')) = udp_owner ds"
  using assms by (auto simp: same_place_def tcp_owner_def udp_owner_def fun_eq_iff split: session.splits)

lemma same_place_blocks:
  assumes "ds a = Some d" "same_place d d'" shows "blocks_ok I J tcp udp (ds(a \<mapsto> d')) = blocks_ok I J tcp udp ds"
  using same_place_owner [of ds a d d'] assms by (simp add: blocks_ok_def)

lemma core_at: "tunnel_core base t xs zs I J \<Longrightarrow> g_data t a = Some d \<Longrightarrow> session_at_ok (g_tcp t) (g_udp t) a d"
  by (simp add: tunnel_core_def)

lemma core_session:
  assumes c: "tunnel_core base t xs zs I J" and d: "g_data t a = Some d" "same_place d d'"
    and ok: "session_at_ok (g_tcp t) (g_udp t) a d'" "a \<in> zs \<Longrightarrow> startable d'" "dns_ready dns"
    and live: "n_live nt = n_live (g_net t) + owned_by (d_self d') - owned_by (d_self d) + k"
  shows "tunnel_core (base + k) (t\<lparr>g_dns := dns, g_net := nt, g_data := (g_data t)(a \<mapsto> d')\<rparr>) xs zs I J"
  using c d(1) ok live same_place_blocks [of "g_data t" a d d' I J, OF d] all_owned_update [of "g_data t" a d d', OF _ d(1)]
  by (auto simp: tunnel_core_def)

text \<open>Only the task and the timeout.\<close>

lemma core_data:
  assumes "tunnel_core base t xs zs I J" "g_data t a = Some d" "same_place d d'"
    and "session_at_ok (g_tcp t) (g_udp t) a d'" "a \<in> zs \<Longrightarrow> startable d'" "owned_by (d_self d') = owned_by (d_self d)"
  shows "tunnel_core base (t\<lparr>g_data := (g_data t)(a \<mapsto> d')\<rparr>) xs zs I J"
  using assms(1,2,4,5,6) same_place_blocks [of "g_data t" a d d' I J, OF assms(2,3)] all_owned_update [of "g_data t" a d d', OF _ assms(2)]
  by (auto simp: tunnel_core_def)

lemma same_place_refl [simp]: "same_place d d"
  by (auto simp: same_place_def split: session.splits)

lemma session_at_ok_task [simp]: "session_at_ok tcp udp a (d\<lparr>d_task := x\<rparr>) = session_at_ok tcp udp a d"
  by (cases "d_self d") (simp_all add: session_at_ok_def)

lemma same_place_task [simp]: "same_place d (d\<lparr>d_task := x\<rparr>)"
  by (auto simp: same_place_def split: session.splits)

lemma core_wakeup:
  assumes "tunnel_core base t xs zs I J" "a \<in> zs"
  shows "\<exists>d. g_data t a = Some d \<and> hev_task_wakeup t a = Some (t\<lparr>g_data := (g_data t)(a \<mapsto> d\<lparr>d_task := Some HEV_TASK_RUNNING\<rparr>)\<rparr>) \<and>
    tunnel_core base (t\<lparr>g_data := (g_data t)(a \<mapsto> d\<lparr>d_task := Some HEV_TASK_RUNNING\<rparr>)\<rparr>) xs zs I J"
proof -
  obtain d where d: "g_data t a = Some d" "startable d" "session_at_ok (g_tcp t) (g_udp t) a d" using assms by (auto simp: tunnel_core_def)
  have "tunnel_core base (t\<lparr>g_data := (g_data t)(a \<mapsto> d\<lparr>d_task := Some HEV_TASK_RUNNING\<rparr>)\<rparr>) xs zs I J"
    by (rule core_data [OF assms(1) d(1)]) (use d in \<open>auto simp: startable_def\<close>)
  then show ?thesis using d by (auto simp: hev_task_wakeup_def startable_def)
qed

lemma session_timeout_keeps [simp]:
  "same_place d (d\<lparr>d_self := session_set_timeout n (d_self d)\<rparr>)" "owned_by (session_set_timeout n s) = owned_by s"
  "session_at_ok tcp udp a (d\<lparr>d_self := session_set_timeout n (d_self d)\<rparr>) = session_at_ok tcp udp a d"
  "startable (d\<lparr>d_self := s\<rparr>) = startable d"
  by (auto simp: same_place_def session_at_ok_def hev_socks5_set_timeout_def session_ok_def startable_def split: session.splits)
     (cases s; simp add: hev_socks5_set_timeout_def)+

definition terminated :: "HevSocks5SessionData \<Rightarrow> HevSocks5SessionData" where
  "terminated d = d\<lparr>d_self := session_set_timeout 0 (d_self d), d_task := Some HEV_TASK_RUNNING\<rparr>"

lemma core_terminate:
  assumes "tunnel_core base t xs zs I J" "a \<in> zs"
  shows "\<exists>d. g_data t a = Some d \<and> hev_socks5_session_terminate t a = Some (t\<lparr>g_data := (g_data t)(a \<mapsto> terminated d)\<rparr>) \<and>
    tunnel_core base (t\<lparr>g_data := (g_data t)(a \<mapsto> terminated d)\<rparr>) xs zs I J"
proof -
  obtain d where d: "g_data t a = Some d" "startable d" "session_at_ok (g_tcp t) (g_udp t) a d" using assms by (auto simp: tunnel_core_def)
  have "tunnel_core base (t\<lparr>g_data := (g_data t)(a \<mapsto> d\<lparr>d_self := session_set_timeout 0 (d_self d)\<rparr>)\<rparr>) xs zs I J"
    by (rule core_data [OF assms(1) d(1)]) (use d in simp_all)
  from core_wakeup [OF this assms(2)] show ?thesis using d(1)
    by (simp add: hev_socks5_session_terminate_def terminated_def)
qed

section \<open>Making and destroying sessions\<close>

lemma lnodes_set_node [simp]:
  "g_data (set_node t a n) = g_data t" "g_tcp (set_node t a n) = g_tcp t" "g_udp (set_node t a n) = g_udp t"
  "g_dns (set_node t a n) = g_dns t" "g_net (set_node t a n) = g_net t" "g_run (set_node t a n) = g_run t" "g_timer (set_node t a n) = g_timer t"
  by (simp_all add: set_node_def Let_def)

lemma sessions_rep_set_node: "a \<notin> set xs \<Longrightarrow> sessions_rep (l_set (g_lw (set_node t a n))) xs = sessions_rep (l_set (g_lw t)) xs"
  by (simp add: set_node_def Let_def sessions_rep_def list_rep_def)

lemma nodes_of_set_node:
  "nodes_of (l_set (g_lw (set_node t a n))) = (if n = None then nodes_of (l_set (g_lw t)) - {a} else insert a (nodes_of (l_set (g_lw t))))"
  by (auto simp: set_node_def Let_def nodes_of_def)

lemma tcp_blocks_new: "tcp_blocks (insert i I) tcp own \<Longrightarrow> i \<notin> I \<Longrightarrow> tcp_blocks I tcp (\<lambda>j b. own j b \<or> j = i \<and> b = a)"
  unfolding tcp_blocks_def by blast

definition receives :: "nat \<Rightarrow> receiver \<Rightarrow> udp_block list \<Rightarrow> udp_block list" where
  "receives i r udp = map (\<lambda>b. if b_id b = i then b\<lparr>b_recv := Some r\<rparr> else b) udp"

lemma receives_ids [simp]: "map b_id (receives i r udp) = map b_id udp" "map b_remote (receives i r udp) = map b_remote udp"
  by (induction udp) (simp_all add: receives_def)

lemma receives_cases:
  assumes "b \<in> set (receives i r udp)"
  obtains "b_id b = i" "b_recv b = Some r" | "b \<in> set udp" "b_id b \<noteq> i"
  using assms by (auto simp: receives_def split: if_splits)

lemma receives_other: "b \<in> set udp \<Longrightarrow> b_id b \<noteq> i \<Longrightarrow> b \<in> set (receives i r udp)"
  unfolding receives_def set_map by (rule image_eqI [of _ _ b]) simp_all

lemma receives_one: "i \<in> b_id ` set udp \<Longrightarrow> \<exists>b \<in> set (receives i r udp). b_id b = i \<and> b_recv b = Some r"
proof -
  assume "i \<in> b_id ` set udp"
  then obtain c where c: "c \<in> set udp" "b_id c = i" by blast
  then have "c\<lparr>b_recv := Some r\<rparr> \<in> set (receives i r udp)"
    unfolding receives_def set_map by (intro image_eqI [of _ _ c]) simp_all
  then show ?thesis using c(2) by (intro bexI [of _ "c\<lparr>b_recv := Some r\<rparr>"]) simp_all
qed

lemma udp_blocks_new:
  assumes "udp_blocks (insert i J) udp own" "i \<notin> J"
  shows "udp_blocks J (receives i (SessionReceiver a) udp) (\<lambda>j b. own j b \<or> j = i \<and> b = a)"
  unfolding udp_blocks_def receives_ids
proof (intro conjI ballI impI)
  show "distinct (map b_id udp)" using assms(1) by (simp add: udp_blocks_def)
  show "\<forall>j b. own j b \<or> j = i \<and> b = a \<longrightarrow> j \<notin> J" using assms by (auto simp: udp_blocks_def)
next
  fix b assume "b \<in> set (receives i (SessionReceiver a) udp)" "b_id b \<notin> J"
  then show "\<exists>aa. b_recv b = Some (SessionReceiver aa) \<and> (own (b_id b) aa \<or> b_id b = i \<and> aa = a)"
    by (cases rule: receives_cases) (use assms(1) in \<open>auto simp: udp_blocks_def\<close>)
qed

lemma session_at_receives:
  assumes "session_at_ok tcp udp a d" "\<And>self. d_self d = UdpSession self \<Longrightarrow> d_pcb d \<noteq> i"
  shows "session_at_ok tcp (receives i r udp) a d"
proof (cases "d_self d")
  case (UdpSession self)
  then obtain b where "b \<in> set udp" "b_id b = d_pcb d" "b_recv b = Some (SessionReceiver a)" using assms(1) by (auto simp: session_at_ok_def)
  moreover from this have "b \<in> set (receives i r udp)" using assms(2) UdpSession by (auto intro: receives_other)
  ultimately show ?thesis using assms(1) UdpSession by (auto simp: session_at_ok_def)
qed (use assms(1) in \<open>simp add: session_at_ok_def\<close>)

lemma set_recv_receives: "set_recv t i r = t\<lparr>g_udp := receives i r (g_udp t)\<rparr>"
  by (simp add: set_recv_def receives_def)

text \<open>A session appears, for a control block that was nobody's.\<close>

lemma core_new_tcp:
  assumes c: "tunnel_core base t xs zs (insert i I) J" and a: "g_data t a = None" "a \<noteq> 0" and i: "i \<in> dom (g_tcp t)" "i \<notin> I"
    and s: "q_pcb self" "q_queue self = []" "t_addr self \<noteq> None"
  shows "tunnel_core (base - 3) (new_session t a (TcpSession self) i) xs zs I J"
proof -
  let ?d = "\<lparr>d_self = TcpSession (self\<lparr>q_node := a\<rparr>), d_task = None, d_pcb = i\<rparr>"
  have n: "a \<notin> set xs" "a \<notin> zs" "finite (dom (g_data t))" using c a by (auto simp: tunnel_core_def domIff)
  have o: "tcp_owner ((g_data t)(a \<mapsto> ?d)) = (\<lambda>j b. tcp_owner (g_data t) j b \<or> j = i \<and> b = a)" "udp_owner ((g_data t)(a \<mapsto> ?d)) = udp_owner (g_data t)"
    using a(1) by (auto simp: tcp_owner_def udp_owner_def fun_eq_iff)
  have "blocks_ok I J (g_tcp t) (g_udp t) ((g_data t)(a \<mapsto> ?d))"
    using c i(2) tcp_blocks_new unfolding tunnel_core_def blocks_ok_def o by blast
  moreover have "all_owned ((g_data t)(a \<mapsto> ?d)) = all_owned (g_data t) + 3"
    using all_owned_new [OF n(3) a(1), of ?d] s by simp
  moreover have "session_at_ok (g_tcp t) (g_udp t) a ?d" using i(1) s(1) by (simp add: session_at_ok_def)
  ultimately show ?thesis using c a n
    by (auto simp: tunnel_core_def new_session_def sessions_rep_set_node nodes_of_set_node)
qed

lemma core_new_udp:
  assumes c: "tunnel_core base t xs zs I (insert i J)" and a: "g_data t a = None" "a \<noteq> 0" and i: "i \<in> b_id ` set (g_udp t)" "i \<notin> J"
    and s: "p_pcb self" "session_ok self" "p_frames self = 0"
  shows "tunnel_core (base - 3) (set_recv (new_session t a (UdpSession self) i) i (SessionReceiver a)) xs zs I J"
proof -
  let ?d = "\<lparr>d_self = UdpSession (self\<lparr>p_node := a\<rparr>), d_task = None, d_pcb = i\<rparr>"
  let ?u = "receives i (SessionReceiver a) (g_udp t)"
  have n: "a \<notin> set xs" "a \<notin> zs" "finite (dom (g_data t))" using c a by (auto simp: tunnel_core_def domIff)
  have o: "udp_owner ((g_data t)(a \<mapsto> ?d)) = (\<lambda>j b. udp_owner (g_data t) j b \<or> j = i \<and> b = a)" "tcp_owner ((g_data t)(a \<mapsto> ?d)) = tcp_owner (g_data t)"
    using a(1) by (auto simp: tcp_owner_def udp_owner_def fun_eq_iff)
  have free: "\<not> udp_owner (g_data t) i b" for b using c by (auto simp: tunnel_core_def blocks_ok_def udp_blocks_def)
  have b: "blocks_ok I J (g_tcp t) ?u ((g_data t)(a \<mapsto> ?d))"
    using c i(2) udp_blocks_new unfolding tunnel_core_def blocks_ok_def o by blast
  have "all_owned ((g_data t)(a \<mapsto> ?d)) = all_owned (g_data t) + 3"
    using all_owned_new [OF n(3) a(1), of ?d] s(3) by simp
  moreover have "session_at_ok (g_tcp t) ?u a ?d" using s receives_one [OF i(1)] by (simp add: session_at_ok_def session_ok_def)
  moreover have "session_at_ok (g_tcp t) ?u b d" if "g_data t b = Some d" for b d
    by (rule session_at_receives) (use c that free [of b] in \<open>auto simp: tunnel_core_def udp_owner_def\<close>)
  ultimately show ?thesis using c a n b
    by (auto simp: tunnel_core_def new_session_def set_recv_receives sessions_rep_set_node nodes_of_set_node)
qed

lemma mem_frames [simp]:
  "n_mem (hev_free nt) = n_mem nt" "n_mem (drop_fd nt fd) = n_mem nt"
  "n_mem (hev_socks5_destruct nt x) = n_mem nt"
  by (simp_all add: hev_free_def drop_fd_def sys_close_def hev_task_del_fd_def hev_socks5_destruct_def)

lemma tcp_destruct_net:
  "n_live (fst (hev_socks5_session_tcp_destruct nt env self)) = n_live nt - owned_by (TcpSession self) + 1"
  "n_mem (fst (hev_socks5_session_tcp_destruct nt env self)) = n_mem nt"
  "tp_aborted (e_pcb (snd (hev_socks5_session_tcp_destruct nt env self))) \<longleftrightarrow> q_pcb self \<or> tp_aborted (e_pcb env)"
  by (simp_all add: hev_socks5_session_tcp_destruct_def hev_socks5_client_tcp_destruct_def hev_socks5_client_destruct_def hev_socks5_destruct_def
      drop_fd_live free_live)

lemma foldl_free_mem: "n_mem (foldl (\<lambda>nt _. hev_free (hev_free nt)) nt frs) = n_mem nt"
  by (induction frs arbitrary: nt) simp_all

lemma udp_destruct_net:
  "session_ok self \<Longrightarrow> n_live (hev_socks5_session_udp_destruct nt self) = n_live nt - owned_by (UdpSession self) + 2"
  "n_mem (hev_socks5_session_udp_destruct nt self) = n_mem nt"
  by (simp_all add: destruct_live others_live_def)
     (simp add: hev_socks5_session_udp_destruct_def hev_socks5_client_udp_destruct_def hev_socks5_client_destruct_def foldl_free_mem)

lemma distinct_ids: "distinct (map b_id udp) \<Longrightarrow> b \<in> set udp \<Longrightarrow> c \<in> set udp \<Longrightarrow> b_id b = b_id c \<Longrightarrow> b = c"
  by (auto simp: distinct_map inj_on_def)

lemma owner_removed:
  assumes "ds a = Some d"
  shows "tcp_owner (ds(a := None)) = (\<lambda>j b. tcp_owner ds j b \<and> b \<noteq> a)" "udp_owner (ds(a := None)) = (\<lambda>j b. udp_owner ds j b \<and> b \<noteq> a)"
  using assms by (auto simp: tcp_owner_def udp_owner_def fun_eq_iff)

lemma tcp_blocks_removed:
  assumes "tcp_blocks I tcp own" "\<And>j. own j a \<longleftrightarrow> j = i" shows "tcp_blocks I (tcp(i := None)) (\<lambda>j b. own j b \<and> b \<noteq> a)"
  unfolding tcp_blocks_def
proof (intro conjI ballI)
  fix j assume "j \<in> dom (tcp(i := None)) - I"
  then have "j \<in> dom tcp - I" "j \<noteq> i" by (auto split: if_splits)
  then show "\<exists>b. own j b \<and> b \<noteq> a" using assms unfolding tcp_blocks_def by metis
qed (use assms(1) in \<open>auto simp: tcp_blocks_def\<close>)

lemma udp_session_block:
  assumes "tunnel_core base t xs zs I J" "g_data t a = Some d" "d_self d = UdpSession s"
  shows "\<exists>x \<in> set (g_udp t). b_id x = d_pcb d \<and> b_recv x = Some (SessionReceiver a)"
proof -
  have "session_at_ok (g_tcp t) (g_udp t) a d" using assms(1,2) by (simp add: tunnel_core_def)
  then show ?thesis using assms(3) by (auto simp: session_at_ok_def)
qed

text \<open>Two sessions never share a control block.\<close>

lemma udp_block_unique:
  assumes "tunnel_core base t xs zs I J" "g_data t a = Some d" "g_data t b = Some e" "d_self d = UdpSession s" "d_self e = UdpSession s'" "d_pcb d = d_pcb e"
  shows "a = b"
proof -
  obtain x where x: "x \<in> set (g_udp t)" "b_id x = d_pcb d" "b_recv x = Some (SessionReceiver a)"
    using udp_session_block [OF assms(1,2,4)] by blast
  obtain y where y: "y \<in> set (g_udp t)" "b_id y = d_pcb e" "b_recv y = Some (SessionReceiver b)"
    using udp_session_block [OF assms(1,3,5)] by blast
  have "distinct (map b_id (g_udp t))" using assms(1) by (simp add: tunnel_core_def blocks_ok_def udp_blocks_def)
  then have "x = y" by (rule distinct_ids) (use x y assms(6) in simp_all)
  then show ?thesis using x y by simp
qed

lemma tcp_block_unique:
  assumes "tunnel_core base t xs zs I J" "g_data t a = Some d" "g_data t b = Some e" "d_self d = TcpSession s" "d_self e = TcpSession s'" "d_pcb d = d_pcb e"
  shows "a = b"
proof -
  have "tcp_owner (g_data t) (d_pcb d) a" "tcp_owner (g_data t) (d_pcb d) b" using assms(2-6) by (auto simp: tcp_owner_def)
  then show ?thesis using assms(1) unfolding tunnel_core_def blocks_ok_def tcp_blocks_def by blast
qed

text \<open>Giving up the reference to a session that is in no list frees what it owns but its task.\<close>

lemma core_unref_tcp:
  assumes c: "tunnel_core base t xs zs I J" and d: "g_data t a = Some d" "d_self d = TcpSession self" and x: "a \<notin> set xs"
  shows "\<exists>t'. hev_object_unref t a = Some t' \<and> tunnel_core (base + 1) t' xs (zs - {a}) I J \<and> g_data t' = (g_data t)(a := None) \<and>
    g_udp t' = g_udp t \<and> g_run t' = g_run t \<and> g_dns t' = g_dns t \<and> n_mem (g_net t') = n_mem (g_net t) \<and>
    g_tcp t' = (g_tcp t)(d_pcb d := None)"
proof -
  have ok: "session_at_ok (g_tcp t) (g_udp t) a d" using c d(1) by (simp add: tunnel_core_def)
  have own: "tcp_owner (g_data t) j a \<longleftrightarrow> j = d_pcb d" for j using d by (auto simp: tcp_owner_def)
  let ?env = "\<lambda>pcb. \<lparr>e_set = l_set (g_lw t), e_pcb = pcb, e_fin = False\<rparr>"
  define pcb where "pcb = (case g_tcp t (d_pcb d) of Some pcb \<Rightarrow> pcb | None \<Rightarrow> new_tcp_pcb)"
  define t1 where "t1 = t\<lparr>g_net := fst (hev_socks5_session_tcp_destruct (g_net t) (?env pcb) self), g_tcp := (g_tcp t)(d_pcb d := None)\<rparr>"
  define t2 where "t2 = (set_node t1 a None)\<lparr>g_data := (g_data t)(a := None)\<rparr>"
  have q: "q_pcb self \<longleftrightarrow> d_pcb d \<in> dom (g_tcp t)" using ok d(2) by (simp add: session_at_ok_def)
  then have u: "hev_object_unref t a = Some t2"
    using d tcp_destruct_net(3) [of "g_net t" "?env pcb" self]
    by (cases "g_tcp t (d_pcb d)")
       (auto simp: hev_object_unref_def t1_def t2_def pcb_def split_beta Let_def fun_upd_idem new_tcp_pcb_def)
  have fin: "finite (dom (g_data t))" using c by (simp add: tunnel_core_def)
  have b: "blocks_ok I J (g_tcp t2) (g_udp t2) (g_data t2)"
  proof -
    have "tcp_blocks I (g_tcp t) (tcp_owner (g_data t))" "udp_blocks J (g_udp t) (udp_owner (g_data t))"
      using c by (simp_all add: tunnel_core_def blocks_ok_def)
    moreover have "udp_owner ((g_data t)(a := None)) = udp_owner (g_data t)" using d by (auto simp: udp_owner_def fun_eq_iff)
    ultimately show ?thesis
      using tcp_blocks_removed [of I "g_tcp t" "tcp_owner (g_data t)" a "d_pcb d", OF _ own] owner_removed(1) [of "g_data t" a d, OF d(1)]
      by (simp add: blocks_ok_def t1_def t2_def)
  qed
  have s: "session_at_ok (g_tcp t2) (g_udp t2) b e" if "g_data t2 b = Some e" for b e
  proof -
    have e: "g_data t b = Some e" "b \<noteq> a" using that by (auto simp: t2_def split: if_splits)
    then have "session_at_ok (g_tcp t) (g_udp t) b e" using c by (simp add: tunnel_core_def)
    moreover have "d_pcb e \<noteq> d_pcb d" if "d_self e = TcpSession s" for s using tcp_block_unique [OF c d(1) e(1) d(2) that] e(2) by auto
    ultimately show ?thesis by (cases "d_self e") (auto simp: session_at_ok_def t1_def t2_def)
  qed
  have "tunnel_core (base + 1) t2 xs (zs - {a}) I J"
    using c x b s fin all_owned_del [of "g_data t" a d, OF fin d(1)] d(2) tcp_destruct_net(1) [of "g_net t" "?env pcb" self]
    by (auto simp: tunnel_core_def t1_def t2_def sessions_rep_set_node nodes_of_set_node split: if_splits)
  then show ?thesis using u by (auto simp: t1_def t2_def tcp_destruct_net)
qed

lemma core_unref_udp:
  assumes c: "tunnel_core base t xs zs I J" and d: "g_data t a = Some d" "d_self d = UdpSession self" and x: "a \<notin> set xs"
  shows "\<exists>t'. hev_object_unref t a = Some t' \<and> tunnel_core (base + 1) t' xs (zs - {a}) I J \<and> g_data t' = (g_data t)(a := None) \<and>
    g_udp t' = filter (\<lambda>b. b_id b \<noteq> d_pcb d) (g_udp t) \<and> g_run t' = g_run t \<and> g_dns t' = g_dns t \<and> n_mem (g_net t') = n_mem (g_net t) \<and>
    g_tcp t' = g_tcp t"
proof -
  have ok: "p_pcb self" "session_ok self" using core_at [OF c d(1)] d(2) by (auto simp: session_at_ok_def)
  define t1 where "t1 = udp_remove (t\<lparr>g_net := hev_socks5_session_udp_destruct (g_net t) self\<rparr>) (d_pcb d)"
  define t2 where "t2 = (set_node t1 a None)\<lparr>g_data := (g_data t)(a := None)\<rparr>"
  have u: "hev_object_unref t a = Some t2"
    using d ok(1) by (simp add: hev_object_unref_def t1_def t2_def Let_def udp_remove_def)
  have fin: "finite (dom (g_data t))" using c by (simp add: tunnel_core_def)
  have o: "tcp_owner ((g_data t)(a := None)) = tcp_owner (g_data t)" using d by (auto simp: tcp_owner_def fun_eq_iff)
  have other: "udp_owner (g_data t) j b \<Longrightarrow> j \<noteq> d_pcb d \<Longrightarrow> b \<noteq> a" for j b using d by (auto simp: udp_owner_def)
  have b: "blocks_ok I J (g_tcp t2) (g_udp t2) (g_data t2)"
  proof -
    have u: "tcp_blocks I (g_tcp t) (tcp_owner (g_data t))" "udp_blocks J (g_udp t) (udp_owner (g_data t))"
      using c by (simp_all add: tunnel_core_def blocks_ok_def)
    have "udp_blocks J (filter (\<lambda>b. b_id b \<noteq> d_pcb d) (g_udp t)) (\<lambda>j b. udp_owner (g_data t) j b \<and> b \<noteq> a)"
      unfolding udp_blocks_def
    proof (intro conjI ballI impI)
      show "distinct (map b_id (filter (\<lambda>b. b_id b \<noteq> d_pcb d) (g_udp t)))" using u(2) by (simp add: udp_blocks_def distinct_map_filter)
      show "\<forall>j b. udp_owner (g_data t) j b \<and> b \<noteq> a \<longrightarrow> j \<notin> J" using u(2) by (auto simp: udp_blocks_def)
    next
      fix b assume "b \<in> set (filter (\<lambda>b. b_id b \<noteq> d_pcb d) (g_udp t))" "b_id b \<notin> J"
      then show "\<exists>aa. b_recv b = Some (SessionReceiver aa) \<and> udp_owner (g_data t) (b_id b) aa \<and> aa \<noteq> a"
        using u(2) other unfolding udp_blocks_def by fastforce
    qed
    then show ?thesis using u(1) o owner_removed(2) [of "g_data t" a d, OF d(1)]
      by (simp add: blocks_ok_def t1_def t2_def udp_remove_def)
  qed
  have s: "session_at_ok (g_tcp t2) (g_udp t2) b e" if "g_data t2 b = Some e" for b e
  proof -
    have e: "g_data t b = Some e" "b \<noteq> a" using that by (auto simp: t2_def split: if_splits)
    then have "session_at_ok (g_tcp t) (g_udp t) b e" using c by (simp add: tunnel_core_def)
    moreover have "d_pcb e \<noteq> d_pcb d" if "d_self e = UdpSession s" for s using udp_block_unique [OF c d(1) e(1) d(2) that] e(2) by auto
    ultimately show ?thesis by (cases "d_self e") (auto simp: session_at_ok_def t1_def t2_def udp_remove_def)
  qed
  have "tunnel_core (base + 1) t2 xs (zs - {a}) I J"
    using c x b s fin all_owned_del [of "g_data t" a d, OF fin d(1)] d(2) udp_destruct_net(1) [OF ok(2), of "g_net t"]
    by (auto simp: tunnel_core_def t1_def t2_def udp_remove_def sessions_rep_set_node nodes_of_set_node free_live split: if_splits)
  then show ?thesis using u by (auto simp: t1_def t2_def udp_destruct_net udp_remove_def)
qed

text \<open>What a session leaves of the UDP control blocks.\<close>

definition blocks_left :: "HevSocks5SessionData \<Rightarrow> udp_block list \<Rightarrow> udp_block list" where
  "blocks_left d udp = (case d_self d of TcpSession _ \<Rightarrow> udp | UdpSession _ \<Rightarrow> filter (\<lambda>b. b_id b \<noteq> d_pcb d) udp)"

definition pcbs_left :: "HevSocks5SessionData \<Rightarrow> (nat \<rightharpoonup> tcp_pcb) \<Rightarrow> (nat \<rightharpoonup> tcp_pcb)" where
  "pcbs_left d tcp = (case d_self d of TcpSession _ \<Rightarrow> tcp(d_pcb d := None) | UdpSession _ \<Rightarrow> tcp)"

lemma core_unref:
  assumes c: "tunnel_core base t xs zs I J" and d: "g_data t a = Some d" and x: "a \<notin> set xs"
  shows "\<exists>t'. hev_object_unref t a = Some t' \<and> tunnel_core (base + 1) t' xs (zs - {a}) I J \<and> g_data t' = (g_data t)(a := None) \<and>
    g_udp t' = blocks_left d (g_udp t) \<and> g_tcp t' = pcbs_left d (g_tcp t) \<and> g_run t' = g_run t \<and> g_dns t' = g_dns t \<and>
    n_mem (g_net t') = n_mem (g_net t)"
proof (cases "d_self d")
  case (TcpSession s)
  then show ?thesis using core_unref_tcp [OF c d TcpSession x] by (auto simp: blocks_left_def pcbs_left_def)
next
  case (UdpSession s)
  then show ?thesis using core_unref_udp [OF c d UdpSession x] by (auto simp: blocks_left_def pcbs_left_def)
qed

section \<open>Starting a session\<close>

lemma core_live:
  assumes "tunnel_core base t xs zs I J" "n_live nt = n_live (g_net t) + k"
  shows "tunnel_core (base + k) (t\<lparr>g_net := nt\<rparr>) xs zs I J"
  using assms by (simp add: tunnel_core_def)

lemma malloc_live: "hev_malloc nt = (nt', ok) \<Longrightarrow> n_live nt' = n_live nt + (if ok then 1 else 0)"
  by (auto simp: hev_malloc_def split: list.splits)

lemma malloc_mem: "hev_malloc nt = (nt', ok) \<Longrightarrow> ok \<longleftrightarrow> \<not> alloc_fails nt 0"
  "hev_malloc nt = (nt', ok) \<Longrightarrow> n_mem nt' = drop 1 (n_mem nt)" "hev_malloc nt = (nt', ok) \<Longrightarrow> alloc_fails nt' n \<longleftrightarrow> alloc_fails nt (Suc n)"
  by (auto simp: hev_malloc_def alloc_fails_def split: list.splits)

text \<open>With a limit, inserting a session terminates the one at the head of the list.\<close>

definition at_limit :: "int \<Rightarrow> addr list \<Rightarrow> bool" where
  "at_limit mx xs \<longleftrightarrow> mx \<noteq> 0 \<and> mx \<le> int (length xs) + 1"

definition insert_data :: "int \<Rightarrow> addr list \<Rightarrow> (addr \<rightharpoonup> HevSocks5SessionData) \<Rightarrow> (addr \<rightharpoonup> HevSocks5SessionData)" where
  "insert_data mx xs ds = (if at_limit mx xs \<and> xs \<noteq> [] then ds(hd xs \<mapsto> terminated (the (ds (hd xs)))) else ds)"

lemma terminate_stopped: "g_data t a = Some d \<Longrightarrow> d_task d = Some HEV_TASK_STOPPED \<Longrightarrow> hev_socks5_session_terminate t a = None"
  by (simp add: hev_socks5_session_terminate_def hev_task_wakeup_def)

lemma core_insert:
  assumes c: "tunnel_core base t xs zs I J" and a: "g_data t a = Some d" "d_task d = Some HEV_TASK_STOPPED" "a \<notin> set xs" and z: "set xs \<subseteq> zs"
  shows "(at_limit mx xs \<and> xs = [] \<longrightarrow> tunnel_insert_session mx t a = None) \<and>
    (\<not> (at_limit mx xs \<and> xs = []) \<longrightarrow> (\<exists>t'. tunnel_insert_session mx t a = Some t' \<and> tunnel_core base t' (xs @ [a]) zs I J \<and>
       t' = t\<lparr>g_lw := g_lw t', g_data := insert_data mx xs (g_data t)\<rparr> \<and> l_sent (g_lw t') = l_sent (g_lw t)))"
proof -
  have r: "sessions_rep (l_set (g_lw t)) xs" "nodes_of (l_set (g_lw t)) = dom (g_data t)" "a \<noteq> 0" using c a(1) by (auto simp: tunnel_core_def)
  have "event_ok (nodes_of (l_set (g_lw t))) xs (Insert a)" using r a by auto
  from set_step_refines [OF r(1) this, of mx] obtain ss where
    ss: "hev_socks5_tunnel_insert_session mx (l_set (g_lw t)) a = Some (ss, if at_limit mx xs then Some (hd (xs @ [a])) else None)"
      "sessions_rep ss (xs @ [a])" "nodes_of ss = nodes_of (l_set (g_lw t))"
    by (auto simp: at_limit_def not_less)
  let ?t = "t\<lparr>g_lw := (g_lw t)\<lparr>l_set := ss\<rparr>\<rparr>"
  have c1: "tunnel_core base ?t (xs @ [a]) zs I J" using c ss(2,3) a(1) by (auto simp: tunnel_core_def)
  show ?thesis
  proof (cases "at_limit mx xs")
    case False
    then show ?thesis using ss(1) c1 by (auto simp: tunnel_insert_session_def insert_data_def)
  next
    case True
    show ?thesis
    proof (cases xs)
      case Nil
      then show ?thesis using ss(1) True a terminate_stopped [of ?t a d] by (simp add: tunnel_insert_session_def)
    next
      case (Cons y ys)
      then have "y \<in> zs" using z by simp
      from core_terminate [OF c1 this] show ?thesis using Cons True ss(1)
        by (auto simp: tunnel_insert_session_def insert_data_def)
    qed
  qed
qed

lemma core_set_task:
  assumes "tunnel_core base t xs zs I J" "g_data t a = Some d" "a \<notin> zs"
  shows "tunnel_core base (t\<lparr>g_data := (g_data t)(a \<mapsto> d\<lparr>d_task := x\<rparr>)\<rparr>) xs zs I J"
  by (rule core_data [OF assms(1,2)]) (use core_at [OF assms(1,2)] assms(3) in simp_all)

lemma core_run:
  assumes "tunnel_core base t xs zs I J" "g_data t a = Some d" "startable d"
  shows "tunnel_core base t xs (insert a zs) I J"
  using assms by (auto simp: tunnel_core_def)

lemma core_timer:
  assumes "tunnel_core base t xs zs I J" "g_run t"
  shows "wakeup_timer t = Some (t\<lparr>g_timer := HEV_TASK_RUNNING\<rparr>) \<and> tunnel_core base (t\<lparr>g_timer := HEV_TASK_RUNNING\<rparr>) xs zs I J"
  using assms by (auto simp: tunnel_core_def wakeup_timer_def)

text \<open>Starting a session whose task is not made yet: without memory for the task the session is gone again; with the limit reached and
  no other session there it is woken before it runs; otherwise it joins the set.\<close>

lemma start_session_fails:
  assumes c: "tunnel_core base t xs zs I J" and d: "g_data t a = Some d" "a \<notin> set xs" and m: "alloc_fails (g_net t) 0"
  shows "\<exists>t'. start_session mx t a = Some (t', False) \<and> tunnel_core (base + 1) t' xs (zs - {a}) I J \<and> g_data t' = (g_data t)(a := None) \<and>
    g_udp t' = blocks_left d (g_udp t) \<and> g_tcp t' = pcbs_left d (g_tcp t) \<and> g_run t' = g_run t \<and> g_dns t' = g_dns t \<and>
    n_mem (g_net t') = drop 1 (n_mem (g_net t))"
proof -
  obtain nt where nt: "hev_malloc (g_net t) = (nt, False)" using malloc_mem(1) m by (metis (full_types) prod.exhaust)
  let ?t = "t\<lparr>g_net := nt\<rparr>"
  have c': "tunnel_core base ?t xs zs I J" using core_live [OF c, of nt 0] malloc_live [OF nt] by simp
  have "g_data ?t a = Some d" using d(1) by simp
  from core_unref [OF c' this d(2)] show ?thesis using nt malloc_mem(2) [OF nt] by (auto simp: start_session_def hev_task_new_def)
qed

lemma start_session_ok:
  assumes c: "tunnel_core base t xs (set xs) I J" and d: "g_data t a = Some d" "a \<notin> set xs" and m: "\<not> alloc_fails (g_net t) 0" and r: "g_run t"
  shows "(at_limit mx xs \<and> xs = [] \<longrightarrow> start_session mx t a = None) \<and>
    (\<not> (at_limit mx xs \<and> xs = []) \<longrightarrow> (\<exists>t'. start_session mx t a = Some (t', True) \<and> tunnel_core (base + 1) t' (xs @ [a]) (set (xs @ [a])) I J \<and>
       g_data t' = insert_data mx xs ((g_data t)(a \<mapsto> d\<lparr>d_task := Some HEV_TASK_RUNNING\<rparr>)) \<and> g_udp t' = g_udp t \<and> g_tcp t' = g_tcp t \<and> g_run t' \<and>
       g_dns t' = g_dns t \<and> n_mem (g_net t') = drop 1 (n_mem (g_net t)) \<and> l_sent (g_lw t') = l_sent (g_lw t)))"
proof -
  obtain nt where nt: "hev_malloc (g_net t) = (nt, True)" using malloc_mem(1) m by (metis (full_types) prod.exhaust)
  let ?d = "d\<lparr>d_task := Some HEV_TASK_STOPPED\<rparr>"
  let ?t = "t\<lparr>g_net := nt, g_data := (g_data t)(a \<mapsto> ?d)\<rparr>"
  have "tunnel_core (base + 1) (t\<lparr>g_net := nt\<rparr>) xs (set xs) I J" using core_live [OF c, of nt 1] malloc_live [OF nt] by simp
  then have c1: "tunnel_core (base + 1) ?t xs (set xs) I J" using core_set_task [of "base + 1" "t\<lparr>g_net := nt\<rparr>" xs "set xs" I J a d] d by simp
  have e: "start_session mx t a = do { t \<leftarrow> tunnel_insert_session mx ?t a; t \<leftarrow> hev_task_run t a; t \<leftarrow> wakeup_timer t; Some (t, True) }"
    using d(1) nt by (simp add: start_session_def hev_task_new_def hev_socks5_session_set_task_def)
  have da: "g_data ?t a = Some ?d" by simp
  have ins: "(at_limit mx xs \<and> xs = [] \<longrightarrow> tunnel_insert_session mx ?t a = None) \<and>
    (\<not> (at_limit mx xs \<and> xs = []) \<longrightarrow> (\<exists>t'. tunnel_insert_session mx ?t a = Some t' \<and> tunnel_core (base + 1) t' (xs @ [a]) (set xs) I J \<and>
       t' = ?t\<lparr>g_lw := g_lw t', g_data := insert_data mx xs (g_data ?t)\<rparr> \<and> l_sent (g_lw t') = l_sent (g_lw ?t)))"
    by (rule core_insert [OF c1 da]) (use d(2) in simp_all)
  show ?thesis
  proof (cases "at_limit mx xs \<and> xs = []")
    case True
    then have "tunnel_insert_session mx ?t a = None" using ins by blast
    then have "start_session mx t a = None" using e by simp
    with True show ?thesis by blast
  next
    case False
    then obtain t2 where t2: "tunnel_insert_session mx ?t a = Some t2" "tunnel_core (base + 1) t2 (xs @ [a]) (set xs) I J"
      "t2 = ?t\<lparr>g_lw := g_lw t2, g_data := insert_data mx xs (g_data ?t)\<rparr>" "l_sent (g_lw t2) = l_sent (g_lw ?t)" using ins by blast
    have at: "g_data t2 a = Some ?d" using d(2) by (subst t2(3)) (auto simp: insert_data_def)
    let ?t3 = "t2\<lparr>g_data := (g_data t2)(a \<mapsto> ?d\<lparr>d_task := Some HEV_TASK_RUNNING\<rparr>)\<rparr>"
    have run: "hev_task_run t2 a = Some ?t3" using at by (simp add: hev_task_run_def)
    have c3: "tunnel_core (base + 1) ?t3 (xs @ [a]) (set xs) I J" using core_set_task [OF t2(2) at d(2)] .
    have "tunnel_core (base + 1) ?t3 (xs @ [a]) (insert a (set xs)) I J" by (rule core_run [OF c3, of a "?d\<lparr>d_task := Some HEV_TASK_RUNNING\<rparr>"]) (simp_all add: startable_def)
    moreover have "g_run t2" using r by (subst t2(3)) simp
    ultimately have w: "wakeup_timer ?t3 = Some (?t3\<lparr>g_timer := HEV_TASK_RUNNING\<rparr>)"
      "tunnel_core (base + 1) (?t3\<lparr>g_timer := HEV_TASK_RUNNING\<rparr>) (xs @ [a]) (insert a (set xs)) I J" using core_timer by auto
    have "start_session mx t a = Some (?t3\<lparr>g_timer := HEV_TASK_RUNNING\<rparr>, True)" using e t2(1) run w(1) by simp
    moreover have "g_data ?t3 = insert_data mx xs ((g_data t)(a \<mapsto> d\<lparr>d_task := Some HEV_TASK_RUNNING\<rparr>))"
    proof -
      have "hd xs \<noteq> a" if "xs \<noteq> []" using d(2) that by (metis hd_in_set)
      moreover have "g_data t2 = insert_data mx xs (g_data ?t)" by (subst t2(3)) simp
      ultimately show ?thesis by (auto simp: insert_data_def fun_eq_iff)
    qed
    moreover have "g_udp t2 = g_udp t" "g_tcp t2 = g_tcp t" "g_dns t2 = g_dns t" "g_net t2 = nt" by (subst t2(3), simp)+
    ultimately show ?thesis using False w(2) malloc_mem(2) [OF nt] t2(4) \<open>g_run t2\<close> by simp
  qed
qed

section \<open>The mapped DNS\<close>

lemma index_nonneg:
  assumes "0 \<le> sint (NOT (m :: u32))" shows "0 \<le> sint (ip AND NOT m)"
proof -
  have "\<not> bit (NOT m) 31" using assms bit_last_iff [of "NOT m"] by (simp add: not_less)
  then have "\<not> bit (ip AND NOT m) 31" by (simp add: bit_and_iff)
  then show ?thesis using bit_last_iff [of "ip AND NOT m"] by (simp add: not_less)
qed

lemma lru_lookup_in: "lru_lookup i c = (c', Some nm) \<Longrightarrow> \<exists>j. (nm, j) \<in> set c"
  by (auto simp: lru_lookup_def find_Some_iff split: option.splits) (metis nth_mem prod.collapse)

lemma from_lwip_total:
  assumes "dns_ready dns" "short_names dns" "length buf = sizeof_addr" "ip \<noteq> IpOther"
  shows "\<exists>dns' a. hev_socks5_addr_from_lwip dns buf ip port = Some (dns', a, 0) \<and> dns_ready dns' \<and> 0 \<le> hev_socks5_addr_len a"
proof (cases ip)
  case (IpV4 b)
  have v4: "0 \<le> hev_socks5_addr_len (fst (hev_socks5_addr_from_ipv4 buf b p))" for p
    using assms(3) by (simp add: hev_socks5_addr_from_ipv4_def hev_socks5_addr_len_def write_at_def le16_def sizeof_addr_def nth_append)
  show ?thesis
  proof (cases dns)
    case None
    then show ?thesis using IpV4 v4 by (simp add: hev_socks5_addr_from_lwip_def dns_ready_def)
  next
    case (Some d)
    then obtain c where c: "dns_state d c" "0 \<le> sint (NOT (d_mask d))" "1 \<le> d_max d" using assms(1) by (auto simp: dns_ready_def)
    obtain c' w where w: "lru_lookup (sint (ip4_host b AND NOT (d_mask d))) c = (c', w)" by (rule prod.exhaust)
    obtain d' where d': "hev_mapped_dns_lookup d (ip4_host b) = Some (d', w)" "dns_state d' c'" "same_net d d'"
      using lookup_state [OF c(1) index_nonneg [OF c(2)] w] by blast
    have r: "dns_ready (Some d')" using c d' by (auto simp: dns_ready_def same_net_def)
    show ?thesis
    proof (cases w)
      case None
      then show ?thesis using IpV4 Some d' r v4 by (simp add: hev_socks5_addr_from_lwip_def)
    next
      case (Some nm)
      then have "length nm \<le> 255 \<and> 0 \<notin> set nm" using lru_lookup_in w assms(2) c(1) \<open>dns = Some d\<close> by (fastforce simp: short_names_def)
      then obtain r' where f: "hev_socks5_addr_from_name buf nm (ntohs port) = Some (wire (Domain nm port) @ r', 4 + int (length nm))"
        and "dest_ok (Domain nm port)" using from_name_eq [of nm buf port] assms(3) by auto
      then have "0 \<le> hev_socks5_addr_len (wire (Domain nm port) @ r')" using length_wire [of "Domain nm port" r'] by simp
      then show ?thesis using IpV4 Some d' r f \<open>dns = Some d\<close> by (simp add: hev_socks5_addr_from_lwip_def)
    qed
  qed
next
  case (IpV6 b)
  have "0 \<le> hev_socks5_addr_len (fst (hev_socks5_addr_from_ipv6 buf b (ntohs port)))"
    using assms(3) by (simp add: hev_socks5_addr_from_ipv6_def hev_socks5_addr_len_def write_at_def le16_def sizeof_addr_def nth_append)
  then show ?thesis using IpV6 assms(1) by (simp add: hev_socks5_addr_from_lwip_def)
qed (use assms(4) in simp)

section \<open>New connections\<close>

lemma session_tcp_new_total:
  assumes "dns_ready dns" "short_names dns" "length buf = sizeof_addr" "ip \<noteq> IpOther"
  shows "\<exists>dns' nt' s. hev_socks5_session_tcp_new dns buf ip port nt = Some (dns', nt', s) \<and> dns_ready dns' \<and>
    (if alloc_fails nt 0 \<or> alloc_fails nt 1 then s = None \<and> n_live nt' = n_live nt
     else (\<exists>self. s = Some self \<and> q_pcb self \<and> q_queue self = [] \<and> t_addr self \<noteq> None) \<and> n_live nt' = n_live nt + 2 \<and>
       (\<forall>n. alloc_fails nt' n \<longleftrightarrow> alloc_fails nt (Suc (Suc n))))"
proof -
  obtain nt1 ok1 where 1: "hev_malloc nt = (nt1, ok1)" by (rule prod.exhaust)
  obtain nt2 ok2 where 2: "hev_malloc nt1 = (nt2, ok2)" by (rule prod.exhaust)
  obtain dns' a where a: "hev_socks5_addr_from_lwip dns buf ip port = Some (dns', a, 0)" "dns_ready dns'" "0 \<le> hev_socks5_addr_len a"
    using from_lwip_total [OF assms] by blast
  have m: "ok1 \<longleftrightarrow> \<not> alloc_fails nt 0" "ok2 \<longleftrightarrow> \<not> alloc_fails nt 1" "alloc_fails nt2 n \<longleftrightarrow> alloc_fails nt (Suc (Suc n))" for n
    using malloc_mem [OF 1] malloc_mem [OF 2] by simp_all
  have l: "n_live nt1 = n_live nt + (if ok1 then 1 else 0)" "n_live nt2 = n_live nt1 + (if ok2 then 1 else 0)"
    using malloc_live [OF 1] malloc_live [OF 2] by simp_all
  show ?thesis
  proof (cases ok1)
    case False
    then show ?thesis using 1 m(1) l(1) assms(1) by (simp add: hev_socks5_session_tcp_new_def)
  next
    case ok1: True
    show ?thesis
    proof (cases ok2)
      case False
      then show ?thesis using ok1 1 2 a m l
        by (simp add: hev_socks5_session_tcp_new_def hev_socks5_session_tcp_construct_def hev_socks5_client_tcp_construct_def Let_def hev_free_def)
    next
      case True
      then show ?thesis using ok1 1 2 a m l
        by (simp add: hev_socks5_session_tcp_new_def hev_socks5_session_tcp_construct_def hev_socks5_client_tcp_construct_def Let_def
            hev_socks5_client_construct_def hev_socks5_construct_def zero_session_tcp_def)
    qed
  qed
qed

text \<open>A block that is nobody's yet comes, or goes.\<close>

lemma tcp_blocks_add:
  assumes "tcp_blocks I tcp own" "\<And>a. \<not> own i a" shows "tcp_blocks (insert i I) (tcp(i \<mapsto> p)) own"
proof -
  have "dom (tcp(i \<mapsto> p)) - insert i I \<subseteq> dom tcp - I" by auto
  then have "\<forall>j \<in> dom (tcp(i \<mapsto> p)) - insert i I. \<exists>a. own j a" using assms(1) unfolding tcp_blocks_def by blast
  moreover have "\<forall>j a. own j a \<longrightarrow> j \<notin> insert i I" using assms unfolding tcp_blocks_def by blast
  ultimately show ?thesis using assms(1) unfolding tcp_blocks_def by blast
qed

lemma tcp_blocks_drop:
  assumes "tcp_blocks (insert i I) tcp own" shows "tcp_blocks I (tcp(i := None)) own"
proof -
  have "dom (tcp(i := None)) - I \<subseteq> dom tcp - insert i I" by (auto split: if_splits)
  then have "\<forall>j \<in> dom (tcp(i := None)) - I. \<exists>a. own j a" using assms unfolding tcp_blocks_def by blast
  moreover have "\<forall>j a. own j a \<longrightarrow> j \<notin> I" using assms unfolding tcp_blocks_def by blast
  ultimately show ?thesis using assms unfolding tcp_blocks_def by blast
qed

lemma core_new_pcb:
  assumes "tunnel_core base t xs zs I J" "i \<notin> dom (g_tcp t)" "\<And>a. \<not> tcp_owner (g_data t) i a"
  shows "tunnel_core base (t\<lparr>g_tcp := (g_tcp t)(i \<mapsto> p)\<rparr>) xs zs (insert i I) J"
proof -
  have "session_at_ok ((g_tcp t)(i \<mapsto> p)) (g_udp t) a d" if "g_data t a = Some d" for a d
    using core_at [OF assms(1) that] assms(3) [of a] that by (cases "d_self d") (auto simp: session_at_ok_def tcp_owner_def)
  moreover have "tcp_blocks (insert i I) ((g_tcp t)(i \<mapsto> p)) (tcp_owner (g_data t))"
    using assms(1,3) by (intro tcp_blocks_add) (simp_all add: tunnel_core_def blocks_ok_def)
  ultimately show ?thesis using assms(1) by (auto simp: tunnel_core_def blocks_ok_def)
qed

lemma core_drop_pcb:
  assumes "tunnel_core base t xs zs (insert i I) J"
  shows "tunnel_core base (t\<lparr>g_tcp := (g_tcp t)(i := None)\<rparr>) xs zs I J"
proof -
  have no: "\<not> tcp_owner (g_data t) i a" for a using assms by (auto simp: tunnel_core_def blocks_ok_def tcp_blocks_def)
  have "session_at_ok ((g_tcp t)(i := None)) (g_udp t) a d" if "g_data t a = Some d" for a d
    using core_at [OF assms that] no [of a] that by (cases "d_self d") (auto simp: session_at_ok_def tcp_owner_def)
  moreover have "tcp_blocks I ((g_tcp t)(i := None)) (tcp_owner (g_data t))"
    using assms(1) by (intro tcp_blocks_drop) (simp add: tunnel_core_def blocks_ok_def)
  ultimately show ?thesis using assms(1) by (auto simp: tunnel_core_def blocks_ok_def)
qed

text \<open>The list of sessions after an event.\<close>

fun next_sessions :: "surroundings \<Rightarrow> tunnel_event \<Rightarrow> tunnel \<Rightarrow> addr list \<Rightarrow> addr list" where
  "next_sessions v (Connect a i ip port) t xs = (if g_run t \<and> \<not> alloc_fails (g_net t) 0 \<and> \<not> alloc_fails (g_net t) 1 then xs @ [a] else xs)"
| "next_sessions v (Datagram a i k) t xs =
     (if 8 \<le> length (hd (k_data k)) \<and> \<not> known_peer t k \<and> \<not> own_address (fst (k_dst k)) \<and> \<not> for_dns v k t \<and> udp_starts (n_mem (g_net t)) then xs @ [a] else xs)"
| "next_sessions v (Resume a) t xs = (if cf_max_session_count (v_cf v) = 0 then xs else remove1 a xs @ [a])"
| "next_sessions v (Finish a) t xs = remove1 a xs"
| "next_sessions v _ t xs = xs"

lemma wakes_at_limit: "tunnel_core base t xs zs I J \<Longrightarrow> wakes_itself v t \<longleftrightarrow> at_limit (cf_max_session_count (v_cf v)) xs \<and> xs = []"
  by (auto simp: wakes_itself_def at_limit_def tunnel_core_def sessions_rep_def)

lemma core_net_dns:
  assumes "tunnel_core base t xs zs I J" "n_live nt = n_live (g_net t) + k" "dns_ready dns"
  shows "tunnel_core (base + k) (t\<lparr>g_dns := dns, g_net := nt\<rparr>) xs zs I J"
  using assms by (simp add: tunnel_core_def)

lemma new_session_frames [simp]:
  "g_run (new_session t a s i) = g_run t" "g_net (new_session t a s i) = g_net t" "g_tcp (new_session t a s i) = g_tcp t"
  "g_udp (new_session t a s i) = g_udp t" "g_dns (new_session t a s i) = g_dns t"
  "g_data (new_session t a s i) = (g_data t)(a \<mapsto> \<lparr>d_self = session_at a s, d_task = None, d_pcb = i\<rparr>)"
  by (simp_all add: new_session_def)

lemma inv_intro: "tunnel_core base t xs (set xs) {} {} \<Longrightarrow> dom (g_data t) = set xs \<Longrightarrow> tunnel_inv base t xs"
  by (simp add: tunnel_inv_def)

lemma insert_data_dom: "set xs \<subseteq> dom ds \<Longrightarrow> dom (insert_data mx xs ds) = dom ds"
  by (cases xs) (auto simp: insert_data_def)

lemma connect_step:
  assumes inv: "tunnel_inv base t xs" and v: "surroundings_ok v" and ok: "tunnel_event_ok v (Connect a i ip port) t"
  shows "if fault v (Connect a i ip port) t then tcp_accepted v a i ip port t = None
    else \<exists>t'. tcp_accepted v a i ip port t = Some t' \<and> tunnel_inv base t' (next_sessions v (Connect a i ip port) t xs)"
proof -
  have c: "tunnel_core base t xs (set xs) {} {}" and dom: "dom (g_data t) = set xs" using inv by (simp_all add: tunnel_inv_def)
  have e: "a \<noteq> 0" "g_data t a = None" "a \<notin> set xs" "i \<notin> dom (g_tcp t)" "\<And>b. \<not> tcp_owner (g_data t) i b" "short_names (g_dns t)" "ip \<noteq> IpOther"
    using ok dom by (auto simp: domIff)
  let ?mx = "cf_max_session_count (v_cf v)"
  let ?t = "t\<lparr>g_tcp := (g_tcp t)(i \<mapsto> new_tcp_pcb)\<rparr>"
  have c0: "tunnel_core base ?t xs (set xs) {i} {}" using core_new_pcb [OF c e(4,5)] by simp
  have len: "length (v_buf v) = sizeof_addr" using v by (simp add: surroundings_ok_def)
  have dns: "dns_ready (g_dns t)" using c by (simp add: tunnel_core_def)
  show ?thesis
  proof (cases "g_run t")
    case False
    have "tunnel_inv base (?t\<lparr>g_tcp := (g_tcp ?t)(i := None)\<rparr>) xs"
      using core_drop_pcb [OF c0] dom by (intro inv_intro) simp_all
    then show ?thesis using False by (simp add: tcp_accepted_def tcp_accept_handler_def tcp_abort_def)
  next
    case run: True
    obtain dns' nt' s where s: "hev_socks5_session_tcp_new (g_dns t) (v_buf v) ip port (g_net t) = Some (dns', nt', s)" "dns_ready dns'"
      and s2: "if alloc_fails (g_net t) 0 \<or> alloc_fails (g_net t) 1 then s = None \<and> n_live nt' = n_live (g_net t)
        else (\<exists>self. s = Some self \<and> q_pcb self \<and> q_queue self = [] \<and> t_addr self \<noteq> None) \<and> n_live nt' = n_live (g_net t) + 2 \<and>
          (\<forall>n. alloc_fails nt' n \<longleftrightarrow> alloc_fails (g_net t) (Suc (Suc n)))"
      using session_tcp_new_total [OF dns e(6) len e(7), of port "g_net t"] by (elim exE conjE)
    let ?t1 = "?t\<lparr>g_dns := dns', g_net := nt'\<rparr>"
    show ?thesis
    proof (cases "alloc_fails (g_net t) 0 \<or> alloc_fails (g_net t) 1")
      case True
      then have c1: "tunnel_core base ?t1 xs (set xs) {i} {}" using core_net_dns [OF c0, of nt' 0] s2 s(2) by simp
      have "tunnel_inv base (?t1\<lparr>g_tcp := (g_tcp ?t1)(i := None)\<rparr>) xs"
        using core_drop_pcb [OF c1] dom by (intro inv_intro) simp_all
      then show ?thesis using run True s s2 by (elim disjE) (simp_all add: tcp_accepted_def tcp_accept_handler_def tcp_abort_def)
    next
      case False
      then obtain self where self: "s = Some self" "q_pcb self" "q_queue self = []" "t_addr self \<noteq> None"
        and live: "n_live nt' = n_live (g_net t) + 2" and m: "alloc_fails nt' 0 \<longleftrightarrow> alloc_fails (g_net t) 2" using s2 by (auto simp: numeral_2_eq_2)
      let ?t2 = "new_session ?t1 a (TcpSession self) i"
      have "tunnel_core (base + 2) ?t1 xs (set xs) {i} {}" using core_net_dns [OF c0, of nt' 2] live s(2) by simp
      then have "tunnel_core (base + 2 - 3) ?t2 xs (set xs) {} {}"
        by (rule core_new_tcp) (use e self in simp_all)
      then have c2: "tunnel_core (base - 1) ?t2 xs (set xs) {} {}" by simp
      let ?d = "\<lparr>d_self = session_at a (TcpSession self), d_task = None, d_pcb = i\<rparr>"
      have d: "g_data ?t2 a = Some ?d" by simp
      have h: "tcp_accepted v a i ip port t = do {
          (t, ok) \<leftarrow> start_session ?mx ?t2 a;
          if \<not> ok then tcp_abort t i else Some t }"
        using run s self by (simp add: tcp_accepted_def tcp_accept_handler_def split: bind_splits)
      show ?thesis
      proof (cases "alloc_fails (g_net t) 2")
        case fails: True
        then have "alloc_fails (g_net ?t2) 0" using m by simp
        from start_session_fails [OF c2 d e(3) this, of ?mx] obtain t' where
          t': "start_session ?mx ?t2 a = Some (t', False)" "g_tcp t' = pcbs_left ?d (g_tcp ?t2)" by blast
        have "g_tcp t' i = None" using t'(2) by (simp add: pcbs_left_def)
        then show ?thesis using h t'(1) run False fails by (simp add: tcp_abort_def)
      next
        case mem: False
        then have "\<not> alloc_fails (g_net ?t2) 0" "g_run ?t2" using m run by simp_all
        note st = start_session_ok [OF c2 d e(3) this, of ?mx]
        show ?thesis
        proof (cases "at_limit ?mx xs \<and> xs = []")
          case True
          then have "start_session ?mx ?t2 a = None" by (rule st [THEN conjunct1, THEN mp])
          moreover have "wakes_itself v t" using True wakes_at_limit [OF c, of v] by blast
          ultimately show ?thesis using h run False by simp
        next
          case go: False
          then obtain t' where t': "start_session ?mx ?t2 a = Some (t', True)" "tunnel_core (base - 1 + 1) t' (xs @ [a]) (set (xs @ [a])) {} {}"
            "g_data t' = insert_data ?mx xs ((g_data ?t2)(a \<mapsto> ?d\<lparr>d_task := Some HEV_TASK_RUNNING\<rparr>))"
            using st [THEN conjunct2, THEN mp, OF go] by blast
          have "set xs \<subseteq> dom ((g_data ?t2)(a \<mapsto> ?d\<lparr>d_task := Some HEV_TASK_RUNNING\<rparr>))" using dom by auto
          from insert_data_dom [OF this] have "dom (g_data t') = set (xs @ [a])" using dom t'(3) by simp
          then have "tunnel_inv base t' (xs @ [a])" using t'(2) by (intro inv_intro) simp_all
          moreover have "tcp_accepted v a i ip port t = Some t'" using h t'(1) by simp
          moreover have "\<not> wakes_itself v t" using go wakes_at_limit [OF c, of v] by blast
          ultimately show ?thesis using run False mem by simp
        qed
      qed
    qed
  qed
qed

section \<open>Datagrams\<close>

text \<open>A block that is nobody's comes, is given a receiver, or goes; a local address is noted.\<close>

lemma core_push_block:
  assumes "tunnel_core base t xs zs I J" "i \<notin> b_id ` set (g_udp t)" "b_id b = i"
  shows "tunnel_core base (t\<lparr>g_udp := b # g_udp t\<rparr>) xs zs I (insert i J)"
proof -
  have no: "\<not> udp_owner (g_data t) i a" for a
    using udp_session_block [OF assms(1)] assms(2) by (force simp: udp_owner_def)
  have "session_at_ok (g_tcp t) (b # g_udp t) a d" if "g_data t a = Some d" for a d
    using core_at [OF assms(1) that] by (cases "d_self d") (auto simp: session_at_ok_def)
  moreover have "udp_blocks (insert i J) (b # g_udp t) (udp_owner (g_data t))"
  proof -
    have u: "udp_blocks J (g_udp t) (udp_owner (g_data t))" using assms(1) by (simp add: tunnel_core_def blocks_ok_def)
    have "j \<noteq> i" if "udp_owner (g_data t) j a" for j a using no that by auto
    then show ?thesis using u assms(2,3) by (auto simp: udp_blocks_def)
  qed
  ultimately show ?thesis using assms(1) by (auto simp: tunnel_core_def blocks_ok_def)
qed

lemma core_set_recv:
  assumes "tunnel_core base t xs zs I (insert i J)"
  shows "tunnel_core base (set_recv t i r) xs zs I (insert i J)"
proof -
  have u: "udp_blocks (insert i J) (g_udp t) (udp_owner (g_data t))" using assms by (simp add: tunnel_core_def blocks_ok_def)
  have "udp_blocks (insert i J) (receives i r (g_udp t)) (udp_owner (g_data t))"
    unfolding udp_blocks_def receives_ids
  proof (intro conjI ballI impI)
    fix b assume "b \<in> set (receives i r (g_udp t))" "b_id b \<notin> insert i J"
    then show "\<exists>a. b_recv b = Some (SessionReceiver a) \<and> udp_owner (g_data t) (b_id b) a"
      by (cases rule: receives_cases) (use u in \<open>auto simp: udp_blocks_def\<close>)
  qed (use u in \<open>auto simp: udp_blocks_def\<close>)
  moreover have "session_at_ok (g_tcp t) (receives i r (g_udp t)) a d" if "g_data t a = Some d" for a d
    by (rule session_at_receives [OF core_at [OF assms that]]) (use u that in \<open>auto simp: udp_blocks_def udp_owner_def\<close>)
  ultimately show ?thesis using assms by (auto simp: tunnel_core_def blocks_ok_def set_recv_receives)
qed

lemma core_drop_block:
  assumes "tunnel_core base t xs zs I (insert i J)"
  shows "tunnel_core (base - 1) (udp_remove t i) xs zs I J"
proof -
  have u: "udp_blocks (insert i J) (g_udp t) (udp_owner (g_data t))" using assms by (simp add: tunnel_core_def blocks_ok_def)
  let ?u = "filter (\<lambda>b. b_id b \<noteq> i) (g_udp t)"
  have "distinct (map b_id ?u)" using u by (simp add: udp_blocks_def distinct_map_filter)
  then have "udp_blocks J ?u (udp_owner (g_data t))" using u unfolding udp_blocks_def by auto
  moreover have "session_at_ok (g_tcp t) ?u a d" if "g_data t a = Some d" for a d
  proof -
    have "d_pcb d \<noteq> i" if "d_self d = UdpSession s" for s using u \<open>g_data t a = Some d\<close> that by (auto simp: udp_blocks_def udp_owner_def)
    then show ?thesis using core_at [OF assms that] by (cases "d_self d") (auto simp: session_at_ok_def)
  qed
  ultimately show ?thesis using assms by (auto simp: tunnel_core_def blocks_ok_def udp_remove_def free_live)
qed

definition at_local :: "nat \<Rightarrow> ip_addr \<times> u16 \<Rightarrow> udp_block list \<Rightarrow> udp_block list" where
  "at_local i l udp = map (\<lambda>b. if b_id b = i then b\<lparr>b_local := l\<rparr> else b) udp"

lemma at_local_map [simp]: "map b_id (at_local i l udp) = map b_id udp" "map b_remote (at_local i l udp) = map b_remote udp"
  by (induction udp) (simp_all add: at_local_def)

lemma at_local_set: "(\<lambda>b. (b_id b, b_recv b)) ` set (at_local i l udp) = (\<lambda>b. (b_id b, b_recv b)) ` set udp"
  by (induction udp) (simp_all add: at_local_def)

lemma ex_block: "(\<exists>b \<in> set udp. b_id b = i \<and> b_recv b = r) \<longleftrightarrow> (i, r) \<in> (\<lambda>b. (b_id b, b_recv b)) ` set udp"
  by auto

lemma all_blocks: "(\<forall>b \<in> set udp. P (b_id b) (b_recv b)) \<longleftrightarrow> (\<forall>(i, r) \<in> (\<lambda>b. (b_id b, b_recv b)) ` set udp. P i r)"
  by auto

lemma core_local:
  assumes "tunnel_core base t xs zs I J"
  shows "tunnel_core base (t\<lparr>g_udp := at_local i l (g_udp t)\<rparr>) xs zs I J"
proof -
  have s: "session_at_ok tcp (at_local i l udp) a d = session_at_ok tcp udp a d" for tcp udp a d
    unfolding session_at_ok_def ex_block at_local_set ..
  have u: "udp_blocks J (at_local i l udp) own = udp_blocks J udp own" for J udp own
    unfolding udp_blocks_def at_local_map
      all_blocks [of _ "\<lambda>i r. i \<notin> J \<longrightarrow> (\<exists>a. r = Some (SessionReceiver a) \<and> own i a)"] at_local_set ..
  show ?thesis using assms by (simp add: tunnel_core_def blocks_ok_def s u)
qed

section \<open>A datagram for a session\<close>

lemma handler_total:
  assumes "dns_ready dns" "short_names dns" "length buf = sizeof_addr" "ip \<noteq> IpOther" "session_ok self"
  shows "\<exists>dns' nt' self'. udp_recv_handler dns buf ip port nt self (Some p) = Some (dns', nt', self') \<and> dns_ready dns' \<and>
    session_ok self' \<and> p_node self' = p_node self \<and> p_pcb self' = p_pcb self \<and>
    n_live nt' = n_live nt - 1 + 2 * (p_frames self' - p_frames self)"
proof -
  obtain dns' a where a: "hev_socks5_addr_from_lwip dns buf ip port = Some (dns', a, 0)" "dns_ready dns'"
    using from_lwip_total [OF assms(1-4)] by blast
  obtain nt1 ok where m: "hev_malloc nt = (nt1, ok)" by (rule prod.exhaust)
  have "\<exists>dns2 nt' self'. udp_recv_handler dns buf ip port nt self (Some p) = Some (dns2, nt', self') \<and> dns_ready dns2 \<and>
    p_node self' = p_node self \<and> p_pcb self' = p_pcb self"
    using a m assms(1) by (cases "p_frames self > int UDP_POOL_SIZE"; cases ok) (auto simp: udp_recv_handler_def Let_def split_beta)
  then obtain dns2 nt' self' where h: "udp_recv_handler dns buf ip port nt self (Some p) = Some (dns2, nt', self')" "dns_ready dns2"
    "p_node self' = p_node self" "p_pcb self' = p_pcb self" by blast
  then show ?thesis using handler_keeps [OF h(1) assms(5,3)] by (auto simp: others_live_def)
qed

lemma session_datagram_step:
  assumes c: "tunnel_core (base + 1) t xs zs I J" and z: "s \<in> zs" and u: "udp_owner (g_data t) i s"
    and v: "surroundings_ok v" "short_names (g_dns t)" "fst (b_local b) \<noteq> IpOther"
  shows "\<exists>t'. session_datagram v s b k t = Some t' \<and> tunnel_core base t' xs zs I J \<and> dom (g_data t') = dom (g_data t)"
proof -
  obtain d self where d: "g_data t s = Some d" "d_self d = UdpSession self" using u by (auto simp: udp_owner_def)
  have ok: "session_at_ok (g_tcp t) (g_udp t) s d" by (rule core_at [OF c d(1)])
  then have sok: "session_ok self" using d(2) by (simp add: session_at_ok_def)
  have st: "startable d" using c z d(1) by (auto simp: tunnel_core_def)
  have "dns_ready (g_dns t)" "length (v_buf v) = sizeof_addr" using c v(1) by (simp_all add: tunnel_core_def surroundings_ok_def)
  from handler_total [OF this(1) v(2) this(2) v(3) sok, of "snd (b_local b)" "g_net t" "k_data k"]
  obtain dns' nt' self' where h: "udp_recv_handler (g_dns t) (v_buf v) (fst (b_local b)) (snd (b_local b)) (g_net t) self (Some (k_data k)) = Some (dns', nt', self')"
    "dns_ready dns'" "session_ok self'" "p_node self' = p_node self" "p_pcb self' = p_pcb self"
    "n_live nt' = n_live (g_net t) - 1 + 2 * (p_frames self' - p_frames self)" by blast
  let ?d = "d\<lparr>d_self := UdpSession self'\<rparr>"
  let ?t = "t\<lparr>g_dns := dns', g_net := nt', g_data := (g_data t)(s \<mapsto> ?d)\<rparr>"
  have "tunnel_core (base + 1 + - 1) ?t xs zs I J"
    by (rule core_session [OF c d(1)]) (use d(2) ok st h in \<open>simp_all add: same_place_def session_at_ok_def\<close>)
  then have c': "tunnel_core base ?t xs zs I J" by simp
  have e: "session_datagram v s b k t = (if p_frames self' = p_frames self then Some ?t else hev_task_wakeup ?t s)"
    using d h(1) by (simp add: session_datagram_def)
  show ?thesis
  proof (cases "p_frames self' = p_frames self")
    case True
    have "dom (g_data ?t) = dom (g_data t)" using d(1) by auto
    then show ?thesis using e c' True by metis
  next
    case False
    from core_wakeup [OF c' z] obtain d2 where w: "hev_task_wakeup ?t s = Some (?t\<lparr>g_data := (g_data ?t)(s \<mapsto> d2\<lparr>d_task := Some HEV_TASK_RUNNING\<rparr>)\<rparr>)"
      "tunnel_core base (?t\<lparr>g_data := (g_data ?t)(s \<mapsto> d2\<lparr>d_task := Some HEV_TASK_RUNNING\<rparr>)\<rparr>) xs zs I J" by blast
    have "dom (g_data (?t\<lparr>g_data := (g_data ?t)(s \<mapsto> d2\<lparr>d_task := Some HEV_TASK_RUNNING\<rparr>)\<rparr>)) = dom (g_data t)" using d(1) by auto
    then show ?thesis using e w False by metis
  qed
qed

lemma dns_datagram_step:
  assumes c: "tunnel_core (base + 2) t xs zs I (insert i J)" and b: "b_id b = i" and v: "surroundings_ok v" and d: "g_dns t \<noteq> None"
    and k: "12 \<le> length (hd (k_data k))" "k_pad k \<noteq> []"
  shows "\<exists>t'. dns_recv_handler v b k t = Some t' \<and> tunnel_core base t' xs zs I J \<and> g_data t' = g_data t"
proof -
  obtain nt ok where m: "hev_malloc (g_net t) = (nt, ok)" by (rule prod.exhaust)
  have l: "n_live nt = n_live (g_net t) + (if ok then 1 else 0)" by (rule malloc_live [OF m])
  show ?thesis
  proof (cases ok)
    case False
    then have "tunnel_core (base + 2 + - 1) (pbuf_free (t\<lparr>g_net := nt\<rparr>)) xs zs I (insert i J)"
      unfolding pbuf_free_def using core_live [OF c, of "hev_free nt" "- 1"] l by (simp add: free_live)
    from core_drop_block [OF this] show ?thesis
      using m False b by (simp add: dns_recv_handler_def) (simp add: udp_remove_def pbuf_free_def)
  next
    case True
    obtain dn where dn: "g_dns t = Some dn" using d by auto
    obtain ca where ca: "dns_state dn ca" "1 \<le> d_max dn" "0 \<le> sint (NOT (d_mask dn))" using c dn by (auto simp: tunnel_core_def dns_ready_def)
    have "length (hd (k_data k)) < length (hd (k_data k) @ k_pad k)" using k(2) by simp
    from handle_safe [OF ca(1,2) _ k(1) this, of "v_al v" UDP_BUF_SIZE "v_block v"] v
    obtain d' req' out r c' where h: "hev_mapped_dns_handle (v_al v) dn (hd (k_data k) @ k_pad k) (length (hd (k_data k))) (v_block v) UDP_BUF_SIZE = Some (d', req', out, r)"
      "dns_state d' c'" "same_net dn d'" by (auto simp: surroundings_ok_def)
    have ready: "dns_ready (Some d')" using h(2,3) ca by (auto simp: dns_ready_def same_net_def)
    define t1 where "t1 = t\<lparr>g_net := nt, g_dns := Some d'\<rparr>"
    define t2 where "t2 = (if r < 0 then t1 else t1\<lparr>g_lw := fst (udp_sendfrom (g_lw t1) (fst (b_local b)) (snd (b_local b)) (take (nat r) out))\<rparr>)"
    have "tunnel_core (base + 3) t1 xs zs I (insert i J)"
      using c l True ready by (simp add: t1_def tunnel_core_def)
    moreover have "l_set (fst (udp_sendfrom lw ip p bs)) = l_set lw" for lw ip p bs by (simp add: udp_sendfrom_def split: list.splits)
    ultimately have c2: "tunnel_core (base + 3) t2 xs zs I (insert i J)" by (simp add: t2_def tunnel_core_def)
    have "tunnel_core (base + 1) (pbuf_free (pbuf_free t2)) xs zs I (insert i J)"
      using c2 by (simp add: pbuf_free_def tunnel_core_def free_live)
    from core_drop_block [OF this] have "tunnel_core base (udp_remove (pbuf_free (pbuf_free t2)) i) xs zs I J" by simp
    moreover have "dns_recv_handler v b k t = Some (udp_remove (pbuf_free (pbuf_free t2)) i)"
      using m True dn h(1) b by (simp add: dns_recv_handler_def t1_def t2_def Let_def)
    moreover have "g_data (udp_remove (pbuf_free (pbuf_free t2)) i) = g_data t" by (simp add: udp_remove_def pbuf_free_def t1_def t2_def)
    ultimately show ?thesis by blast
  qed
qed

end
