(* ===== verification/TunnelTasksProps.thy ===== *)
theory TunnelTasksProps
  imports TunnelTasksInv
begin

text \<open>
  The properties of the running tunnel: every event keeps the invariant unless it is one of the two faults, the faults
  are exactly these, and after the stop the tunnel drains; with a connection and a shortage of memory as examples.
\<close>

text \<open>A datagram of a known peer, in the two rounds that may deliver it.\<close>

lemma find_block:
  assumes "find (\<lambda>b. b_remote b = r) udp = Some b" shows "b \<in> set udp \<and> b_remote b = r"
  using assms by (auto simp: find_Some_iff)

lemma at_local_block:
  assumes "distinct (map b_id udp)" "b \<in> set udp"
  shows "map (\<lambda>c. if b_id c = b_id b then b\<lparr>b_local := l\<rparr> else c) udp = at_local (b_id b) l udp"
  unfolding at_local_def by (rule map_cong [OF refl]) (use distinct_ids [OF assms(1) _ assms(2)] in auto)

lemma deliver_to_session:
  assumes c: "tunnel_core (base + 1) t xs (set xs) {} {}" and dom: "dom (g_data t) = set xs" and k: "known_peer t k"
    and v: "surroundings_ok v" "short_names (g_dns t)" "fst (k_dst k) \<noteq> IpOther"
  shows "\<exists>t'. udp_again (Suc n) v a i k t = Finished t' \<and> tunnel_inv base t' xs"
proof -
  obtain b where b: "find (\<lambda>b. b_remote b = k_src k) (g_udp t) = Some b" using k
    by (cases "find (\<lambda>b. b_remote b = k_src k) (g_udp t)") (auto simp: known_peer_def find_None_iff)
  then have "b \<in> set (g_udp t)" using find_block by blast
  then obtain s where s: "b_recv b = Some (SessionReceiver s)" "udp_owner (g_data t) (b_id b) s"
    using c by (auto simp: tunnel_core_def blocks_ok_def udp_blocks_def)
  let ?t = "t\<lparr>g_udp := at_local (b_id b) (k_dst k) (g_udp t)\<rparr>"
  let ?t' = "t\<lparr>g_udp := map (\<lambda>c. if b_id c = b_id b then b\<lparr>b_local := k_dst k\<rparr> else c) (g_udp t)\<rparr>"
  have "distinct (map b_id (g_udp t))" using c by (simp add: tunnel_core_def blocks_ok_def udp_blocks_def)
  from at_local_block [OF this \<open>b \<in> set (g_udp t)\<close>] have same: "?t' = ?t" by simp
  have "s \<in> set xs" using s(2) dom by (auto simp: udp_owner_def)
  let ?k = "k\<lparr>k_data := drop 8 (hd (k_data k)) # List.tl (k_data k)\<rparr>"
  have "\<exists>t'. session_datagram v s (b\<lparr>b_local := k_dst k\<rparr>) ?k ?t = Some t' \<and> tunnel_core base t' xs (set xs) {} {} \<and> dom (g_data t') = dom (g_data ?t)"
    by (rule session_datagram_step [OF core_local [OF c] \<open>s \<in> set xs\<close>, where i = "b_id b"]) (use s v in simp_all)
  then obtain t' where t': "session_datagram v s (b\<lparr>b_local := k_dst k\<rparr>) ?k ?t = Some t'" "tunnel_core base t' xs (set xs) {} {}" "dom (g_data t') = dom (g_data t)"
    by auto
  have "udp_again (Suc n) v a i k t = Finished t'"
    using b s(1) t'(1) unfolding same [symmetric] by (simp add: Let_def)
  moreover have "tunnel_inv base t' xs" by (rule inv_intro [OF t'(2)]) (use t'(3) dom in simp)
  ultimately show ?thesis by blast
qed

lemma deliver_to_dns:
  assumes c: "tunnel_core (base + 2) t xs (set xs) {} {i}" and dom: "dom (g_data t) = set xs"
    and b: "g_udp t = b # bs" "b_id b = i" "b_remote b = k_src k" "b_recv b = Some DnsReceiver" and d: "g_dns t \<noteq> None"
    and v: "surroundings_ok v" and k: "20 \<le> length (hd (k_data k))" "k_pad k \<noteq> []"
  shows "\<exists>t'. udp_again (Suc n) v a j k t = Finished t' \<and> tunnel_inv base t' xs"
proof -
  let ?b = "b\<lparr>b_local := k_dst k\<rparr>"
  let ?t' = "t\<lparr>g_udp := map (\<lambda>c. if b_id c = b_id b then ?b else c) (g_udp t)\<rparr>"
  let ?k = "k\<lparr>k_data := drop 8 (hd (k_data k)) # List.tl (k_data k)\<rparr>"
  have "distinct (map b_id (g_udp t))" using c by (simp add: tunnel_core_def blocks_ok_def udp_blocks_def)
  from at_local_block [OF this, of b] have "?t' = t\<lparr>g_udp := at_local i (k_dst k) (g_udp t)\<rparr>" using b(1,2) by simp
  then have "tunnel_core (base + 2) ?t' xs (set xs) {} (insert i {})" using core_local [OF c, of i "k_dst k"] by simp
  moreover have "12 \<le> length (hd (k_data ?k))" using k(1) by simp
  ultimately have "\<exists>t'. dns_recv_handler v ?b ?k ?t' = Some t' \<and> tunnel_core base t' xs (set xs) {} {} \<and> g_data t' = g_data ?t'"
    by (intro dns_datagram_step) (use b(2) v d k(2) in simp_all)
  then obtain t' where t': "dns_recv_handler v ?b ?k ?t' = Some t'" "tunnel_core base t' xs (set xs) {} {}" "g_data t' = g_data t" by auto
  have "udp_again (Suc n) v a j k t = Finished t'" using b t'(1) by (simp add: Let_def)
  moreover have "tunnel_inv base t' xs" by (rule inv_intro [OF t'(2)]) (use t'(3) dom in simp)
  ultimately show ?thesis by blast
qed

lemma udp_new_cases:
  assumes "hev_socks5_session_udp_new srv nt = (nt', s)"
  shows "if alloc_fails nt 0 then s = None \<and> n_live nt' = n_live nt \<and> n_mem nt' = drop 1 (n_mem nt)
    else (\<exists>self. s = Some self \<and> p_pcb self \<and> session_ok self \<and> p_frames self = 0) \<and> n_live nt' = n_live nt + 1 \<and> n_mem nt' = drop 1 (n_mem nt)"
proof -
  obtain nt1 ok where m: "hev_malloc nt = (nt1, ok)" by (rule prod.exhaust)
  have i: "name_inv (p_names zero_session_udp, p_names_next zero_session_udp)" by (rule zero_names)
  show ?thesis using assms m malloc_mem(1,2) [OF m] malloc_live [OF m] i
    by (auto simp: hev_socks5_session_udp_new_def hev_socks5_session_udp_construct_def hev_socks5_client_udp_construct_def
        hev_socks5_client_construct_def hev_socks5_construct_def session_ok_def zero_session_udp_def split: if_splits)
qed

lemma udp_starts_unfold:
  "udp_starts (n_mem nt) = (if alloc_fails nt 0 then False else if alloc_fails nt 1 then udp_starts (drop 2 (n_mem nt))
     else if alloc_fails nt 2 then udp_starts (drop 3 (n_mem nt)) else True)"
  by (cases "n_mem nt" rule: udp_starts.cases) (auto simp: alloc_fails_def)

lemma alloc_fails_drop: "n_mem nt' = drop k (n_mem nt) \<Longrightarrow> alloc_fails nt' n \<longleftrightarrow> alloc_fails nt (k + n)"
  by (auto simp: alloc_fails_def less_diff_conv add.commute)

lemma fails_length: "alloc_fails nt n \<Longrightarrow> n < length (n_mem nt)"
  by (simp add: alloc_fails_def)

lemma find_none: "\<not> known_peer t k \<Longrightarrow> find (\<lambda>b. b_remote b = k_src k) (g_udp t) = None"
  by (auto simp: known_peer_def find_None_iff)

lemma core_shift: "tunnel_core base t xs zs I J \<Longrightarrow> base' = base \<Longrightarrow> tunnel_core base' t xs zs I J"
  by simp

lemma handler_new:
  assumes "g_run t" "\<not> (g_dns t \<noteq> None \<and> cf_mapdns_port (v_cf v) = uint port \<and> ip4_is ip (cf_mapdns_address (v_cf v)))"
    and "hev_socks5_session_udp_new (cf_srv (v_cf v)) (g_net t) = (nt2, s)"
  shows "tunnel_udp_recv_handler v a i ip port t = (case s of
        None \<Rightarrow> Some (udp_remove (t\<lparr>g_net := nt2\<rparr>) i)
      | Some self \<Rightarrow> do { (t, _) \<leftarrow> start_session (cf_max_session_count (v_cf v)) (set_recv (new_session (t\<lparr>g_net := nt2\<rparr>) a (UdpSession self) i) i (SessionReceiver a)) a; Some t })"
  unfolding tunnel_udp_recv_handler_def if_not_P [OF assms(2)] using assms(1,3) by (simp add: Let_def)

text \<open>The rounds of a datagram from a new peer, that is not for the mapped DNS.\<close>

lemma new_peer:
  assumes "length (n_mem (g_net t)) + 2 \<le> n"
    and "tunnel_core (base + 1) t xs (set xs) {} {}" "dom (g_data t) = set xs" "g_run t"
    and "surroundings_ok v" "short_names (g_dns t)" "fst (k_dst k) \<noteq> IpOther" "a \<noteq> 0" "a \<notin> set xs" "i \<notin> b_id ` set (g_udp t)"
    and "\<not> known_peer t k" "\<not> own_address (fst (k_dst k))" "\<not> for_dns v k t"
  shows "if udp_starts (n_mem (g_net t)) \<and> wakes_itself v t then udp_again n v a i k t = Undefined
    else \<exists>t'. udp_again n v a i k t = Finished t' \<and> tunnel_inv base t' (if udp_starts (n_mem (g_net t)) then xs @ [a] else xs)"
  using assms
proof (induction n arbitrary: t)
  case (Suc n)
  note c = Suc.prems(2) and dom = Suc.prems(3) and run = Suc.prems(4) and fr = Suc.prems(10)
  let ?mx = "cf_max_session_count (v_cf v)"
  obtain nt ok where m: "hev_malloc (g_net t) = (nt, ok)" by (rule prod.exhaust)
  let ?b = "\<lparr>b_id = i, b_remote = k_src k, b_local = (IpOther, 0), b_recv = None\<rparr>"
  let ?t1 = "t\<lparr>g_net := nt, g_udp := ?b # g_udp t\<rparr>"
  have live: "n_live nt = n_live (g_net t) + (if ok then 1 else 0)" by (rule malloc_live [OF m])
  have again: "udp_again (Suc n) v a i k t = (if \<not> ok then Finished (pbuf_free (t\<lparr>g_net := nt\<rparr>))
      else case tunnel_udp_recv_handler v a i (fst (k_dst k)) (snd (k_dst k)) ?t1 of None \<Rightarrow> Undefined | Some t \<Rightarrow> udp_again n v a i k t)"
    using find_none [OF Suc.prems(11)] Suc.prems(12) m by (simp add: Let_def)
  let ?goal = "if udp_starts (n_mem (g_net t)) \<and> wakes_itself v t then udp_again (Suc n) v a i k t = Undefined
    else \<exists>t'. udp_again (Suc n) v a i k t = Finished t' \<and> tunnel_inv base t' (if udp_starts (n_mem (g_net t)) then xs @ [a] else xs)"
  show ?goal
  proof (cases ok)
    case False
    then have "tunnel_core (base + 1 + - 1) (t\<lparr>g_net := hev_free nt\<rparr>) xs (set xs) {} {}" by (intro core_live [OF c]) (simp add: live free_live)
    then have "tunnel_inv base (pbuf_free (t\<lparr>g_net := nt\<rparr>)) xs" by (intro inv_intro) (simp_all add: pbuf_free_def dom)
    then show ?thesis using again False malloc_mem(1) [OF m] udp_starts_unfold [of "g_net t"] by simp
  next
    case ok: True
    have f0: "\<not> alloc_fails (g_net t) 0" using malloc_mem(1) [OF m] ok by simp
    have "tunnel_core (base + 1 + 1) (t\<lparr>g_net := nt\<rparr>) xs (set xs) {} {}" by (rule core_live [OF c]) (simp add: live ok)
    moreover have two: "base + 1 + 1 = base + 2" by simp
    ultimately have "tunnel_core (base + 2) (t\<lparr>g_net := nt\<rparr>) xs (set xs) {} {}" by (simp only: two)
    from core_push_block [OF this, of i ?b] fr have c1: "tunnel_core (base + 2) ?t1 xs (set xs) {} {i}" by simp
    obtain nt2 s where s: "hev_socks5_session_udp_new (cf_srv (v_cf v)) nt = (nt2, s)" by (rule prod.exhaust)
    have s2: "if alloc_fails (g_net t) 1 then s = None \<and> n_live nt2 = n_live nt
      else (\<exists>self. s = Some self \<and> p_pcb self \<and> session_ok self \<and> p_frames self = 0) \<and> n_live nt2 = n_live nt + 1"
      and m2: "n_mem nt2 = drop 2 (n_mem (g_net t))"
      using udp_new_cases [OF s] malloc_mem(2,3) [OF m] by (auto simp: numeral_2_eq_2 split: if_splits)
    let ?t2 = "?t1\<lparr>g_net := nt2\<rparr>"
    have handler: "tunnel_udp_recv_handler v a i (fst (k_dst k)) (snd (k_dst k)) ?t1 = (case s of
        None \<Rightarrow> Some (udp_remove ?t2 i)
      | Some self \<Rightarrow> do { (t, _) \<leftarrow> start_session ?mx (set_recv (new_session ?t2 a (UdpSession self) i) i (SessionReceiver a)) a; Some t })"
      by (rule handler_new) (use run Suc.prems(13) s in \<open>simp_all add: for_dns_def\<close>)
    have filt: "filter (\<lambda>b. b_id b \<noteq> i) (?b # g_udp t) = g_udp t" using fr by (auto simp: filter_id_conv)
    have retry: ?goal if h: "tunnel_udp_recv_handler v a i (fst (k_dst k)) (snd (k_dst k)) ?t1 = Some t'" "tunnel_core (base + 1) t' xs (set xs) {} {}"
      "g_data t' = g_data t" "g_udp t' = g_udp t" "g_run t' = g_run t" "g_dns t' = g_dns t" "n_mem (g_net t') = drop j (n_mem (g_net t))" "0 < j" "j \<le> length (n_mem (g_net t))"
      "udp_starts (n_mem (g_net t)) = udp_starts (n_mem (g_net t'))" for t' j
    proof -
      have w: "wakes_itself v t' \<longleftrightarrow> wakes_itself v t" using wakes_at_limit [OF h(2)] wakes_at_limit [OF c] by blast
      have "if udp_starts (n_mem (g_net t')) \<and> wakes_itself v t' then udp_again n v a i k t' = Undefined
        else \<exists>t''. udp_again n v a i k t' = Finished t'' \<and> tunnel_inv base t'' (if udp_starts (n_mem (g_net t')) then xs @ [a] else xs)"
        by (rule Suc.IH) (use h Suc.prems in \<open>simp_all add: known_peer_def for_dns_def\<close>)
      then show ?thesis using again ok h(1,10) w by simp
    qed
    show ?thesis
    proof (cases "alloc_fails (g_net t) 1")
      case f1: True
      have "tunnel_core (base + 2 + 0) ?t2 xs (set xs) {} (insert i {})" by (rule core_live [OF c1]) (use s2 f1 in simp)
      from core_drop_block [OF this] have c2: "tunnel_core (base + 1) (udp_remove ?t2 i) xs (set xs) {} {}" by (rule core_shift) simp
      show ?thesis
        by (rule retry [of "udp_remove ?t2 i" 2]) (use c2 handler s2 f0 f1 m2 filt fails_length [OF f1] udp_starts_unfold [of "g_net t"] in \<open>simp_all add: udp_remove_def\<close>)
    next
      case f1: False
      then obtain self where self: "s = Some self" "p_pcb self" "session_ok self" "p_frames self = 0" and live2: "n_live nt2 = n_live nt + 1" using s2 by auto
      let ?t3 = "set_recv (new_session ?t2 a (UdpSession self) i) i (SessionReceiver a)"
      let ?d = "\<lparr>d_self = session_at a (UdpSession self), d_task = None, d_pcb = i\<rparr>"
      have "tunnel_core (base + 2 + 1) ?t2 xs (set xs) {} {i}" by (rule core_live [OF c1]) (use live2 in simp)
      then have "tunnel_core (base + 2 + 1 - 3) ?t3 xs (set xs) {} {}"
        by (intro core_new_udp) (use self Suc.prems(8,9) dom in \<open>auto simp: domIff\<close>)
      then have c3: "tunnel_core base ?t3 xs (set xs) {} {}" by simp
      have d: "g_data ?t3 a = Some ?d" and rec: "g_udp ?t3 = receives i (SessionReceiver a) (?b # g_udp t)" and run3: "g_run ?t3"
        and mem3: "alloc_fails (g_net ?t3) 0 \<longleftrightarrow> alloc_fails (g_net t) 2" and gd: "g_data ?t3 = (g_data t)(a \<mapsto> ?d)" and dn: "g_dns ?t3 = g_dns t"
        using run alloc_fails_drop [OF m2, of 0] by (simp_all add: set_recv_receives)
      show ?thesis
      proof (cases "alloc_fails (g_net t) 2")
        case f2: True
        then obtain t' where t': "start_session ?mx ?t3 a = Some (t', False)" "tunnel_core (base + 1) t' xs (set xs - {a}) {} {}" "g_data t' = (g_data ?t3)(a := None)"
          "g_udp t' = blocks_left ?d (g_udp ?t3)" "g_run t' = g_run ?t3" "g_dns t' = g_dns ?t3" "n_mem (g_net t') = drop 1 (n_mem (g_net ?t3))"
          using start_session_fails [OF c3 d Suc.prems(9)] mem3 by metis
        have "filter (\<lambda>b. b_id b \<noteq> i) (receives i (SessionReceiver a) (?b # g_udp t)) = g_udp t"
        proof -
          have "receives i (SessionReceiver a) (g_udp t) = g_udp t" using fr unfolding receives_def by (intro map_idI) auto
          then show ?thesis using filt by (simp add: receives_def)
        qed
        then have u: "g_udp t' = g_udp t" unfolding t'(4) rec by (simp add: blocks_left_def)
        have a: "set xs - {a} = set xs" "(g_data t)(a := None) = g_data t" using Suc.prems(9) dom by (auto simp: domIff fun_upd_idem_iff)
        have "n_mem (g_net ?t3) = drop 2 (n_mem (g_net t))" using m2 by (simp add: set_recv_receives)
        then have n: "n_mem (g_net t') = drop 3 (n_mem (g_net t))" using t'(7) by (simp add: numeral_3_eq_3)
        show ?thesis
          by (rule retry [of t' 3]) (use handler self(1) t' u a gd dn run3 run n fails_length [OF f2] f0 f1 f2 udp_starts_unfold [of "g_net t"] in simp_all)
      next
        case f2: False
        have st: "udp_starts (n_mem (g_net t))" using udp_starts_unfold [of "g_net t"] f0 f1 f2 by simp
        have "\<not> alloc_fails (g_net ?t3) 0" using f2 mem3 by blast
        note start = start_session_ok [OF c3 d Suc.prems(9) this run3, of ?mx]
        show ?thesis
        proof (cases "at_limit ?mx xs \<and> xs = []")
          case True
          then have "start_session ?mx ?t3 a = None" by (rule start [THEN conjunct1, THEN mp])
          moreover have "wakes_itself v t" using True wakes_at_limit [OF c] by blast
          ultimately show ?thesis using again ok handler self(1) st by simp
        next
          case go: False
          then obtain t' where t': "start_session ?mx ?t3 a = Some (t', True)" "tunnel_core (base + 1) t' (xs @ [a]) (set (xs @ [a])) {} {}"
            "g_data t' = insert_data ?mx xs ((g_data ?t3)(a \<mapsto> ?d\<lparr>d_task := Some HEV_TASK_RUNNING\<rparr>))" "g_udp t' = g_udp ?t3" "g_dns t' = g_dns ?t3"
            using start [THEN conjunct2, THEN mp, OF go] by blast
          have sub: "set xs \<subseteq> dom ((g_data ?t3)(a \<mapsto> ?d\<lparr>d_task := Some HEV_TASK_RUNNING\<rparr>))" using dom gd by auto
          have dom': "dom (g_data t') = set (xs @ [a])" using insert_data_dom [OF sub] dom gd t'(3) by simp
          have known: "known_peer t' k" unfolding known_peer_def t'(4) rec by (simp add: receives_def)
          obtain n' where n': "n = Suc n'" using Suc.prems(1) by (cases n) auto
          have "short_names (g_dns t')" using t'(5) dn Suc.prems(6) by simp
          from deliver_to_session [OF t'(2) dom' known Suc.prems(5) this Suc.prems(7), of n' a i]
          obtain t'' where "udp_again n v a i k t' = Finished t''" "tunnel_inv base t'' (xs @ [a])" using n' by blast
          moreover have "udp_again (Suc n) v a i k t = udp_again n v a i k t'" using again ok handler self(1) t'(1) by simp
          moreover have "\<not> wakes_itself v t" using go wakes_at_limit [OF c] by blast
          ultimately show ?thesis using st by simp
        qed
      qed
    qed
  qed
qed simp

lemma new_dns_peer:
  assumes c: "tunnel_core (base + 1) t xs (set xs) {} {}" and dom: "dom (g_data t) = set xs" and run: "g_run t" and v: "surroundings_ok v"
    and fr: "i \<notin> b_id ` set (g_udp t)" and k: "\<not> known_peer t k" "\<not> own_address (fst (k_dst k))" "for_dns v k t"
    and len: "20 \<le> length (hd (k_data k))" "k_pad k \<noteq> []"
  shows "\<exists>t'. udp_again (Suc (Suc n)) v a i k t = Finished t' \<and> tunnel_inv base t' xs"
proof -
  obtain nt ok where m: "hev_malloc (g_net t) = (nt, ok)" by (rule prod.exhaust)
  have live: "n_live nt = n_live (g_net t) + (if ok then 1 else 0)" by (rule malloc_live [OF m])
  let ?b = "\<lparr>b_id = i, b_remote = k_src k, b_local = (IpOther, 0), b_recv = None\<rparr>"
  let ?t1 = "t\<lparr>g_net := nt, g_udp := ?b # g_udp t\<rparr>"
  have handler: "tunnel_udp_recv_handler v a i (fst (k_dst k)) (snd (k_dst k)) ?t1 = Some (set_recv ?t1 i DnsReceiver)"
    using run k(3) by (simp add: tunnel_udp_recv_handler_def for_dns_def)
  have again: "udp_again (Suc (Suc n)) v a i k t = (if \<not> ok then Finished (pbuf_free (t\<lparr>g_net := nt\<rparr>)) else udp_again (Suc n) v a i k (set_recv ?t1 i DnsReceiver))"
    using find_none [OF k(1)] k(2) m handler by (simp add: Let_def del: udp_again.simps(2)) (simp add: Let_def)
  show ?thesis
  proof (cases ok)
    case False
    then have "tunnel_core (base + 1 + - 1) (t\<lparr>g_net := hev_free nt\<rparr>) xs (set xs) {} {}" by (intro core_live [OF c]) (simp add: live free_live)
    then have "tunnel_inv base (pbuf_free (t\<lparr>g_net := nt\<rparr>)) xs" by (intro inv_intro) (simp_all add: pbuf_free_def dom)
    then show ?thesis using again False by simp
  next
    case True
    have "tunnel_core (base + 1 + 1) (t\<lparr>g_net := nt\<rparr>) xs (set xs) {} {}" by (rule core_live [OF c]) (simp add: live True)
    from core_push_block [OF this, of i ?b] fr have "tunnel_core (base + 1 + 1) ?t1 xs (set xs) {} (insert i {})" by simp
    from core_set_recv [OF this, of DnsReceiver] have c2: "tunnel_core (base + 2) (set_recv ?t1 i DnsReceiver) xs (set xs) {} {i}" by (rule core_shift) simp
    have "\<exists>t'. udp_again (Suc n) v a i k (set_recv ?t1 i DnsReceiver) = Finished t' \<and> tunnel_inv base t' xs"
      by (rule deliver_to_dns [OF c2, of "?b\<lparr>b_recv := Some DnsReceiver\<rparr>" "receives i DnsReceiver (g_udp t)"])
        (use dom v len k(3) in \<open>simp_all add: set_recv_receives receives_def for_dns_def\<close>)
    then show ?thesis using again True by simp
  qed
qed

lemma core_free_packet:
  assumes "tunnel_core (base + 1) t xs (set xs) {} {}" "dom (g_data t) = set xs" shows "tunnel_inv base (pbuf_free t) xs"
  using core_live [OF assms(1), of "hev_free (g_net t)" "- 1"] assms(2) by (intro inv_intro) (simp_all add: pbuf_free_def free_live)

lemma datagram_step:
  assumes inv: "tunnel_inv base t xs" and v: "surroundings_ok v" and ok: "tunnel_event_ok v (Datagram a i k) t"
  shows "if fault v (Datagram a i k) t then tunnel_step v (Datagram a i k) t = Undefined
    else \<exists>t'. tunnel_step v (Datagram a i k) t = Finished t' \<and> tunnel_inv base t' (next_sessions v (Datagram a i k) t xs)"
proof -
  have c: "tunnel_core base t xs (set xs) {} {}" and dom: "dom (g_data t) = set xs" using inv by (simp_all add: tunnel_inv_def)
  let ?t = "t\<lparr>g_net := (g_net t)\<lparr>n_live := n_live (g_net t) + 1\<rparr>\<rparr>"
  let ?n = "length (n_mem (g_net t)) + 2"
  have c1: "tunnel_core (base + 1) ?t xs (set xs) {} {}" by (rule core_live [OF c]) simp
  have dom1: "dom (g_data ?t) = set xs" using dom by simp
  have e: "g_run ?t" "a \<noteq> 0" "a \<notin> set xs" "i \<notin> b_id ` set (g_udp ?t)" "short_names (g_dns ?t)" "fst (k_dst k) \<noteq> IpOther"
    "for_dns v k t \<longrightarrow> 20 \<le> length (hd (k_data k)) \<and> k_pad k \<noteq> []" using ok dom by auto
  have w: "known_peer ?t k = known_peer t k" "for_dns v k ?t = for_dns v k t" "wakes_itself v ?t = wakes_itself v t"
    by (simp_all add: known_peer_def for_dns_def wakes_itself_def)
  have f: "?n = Suc (Suc (length (n_mem (g_net t))))" by simp
  show ?thesis
  proof (cases "length (hd (k_data k)) < 8")
    case True
    then show ?thesis using core_free_packet [OF c1 dom1] by (simp add: udp_input_def)
  next
    case long: False
    then have i: "tunnel_step v (Datagram a i k) t = udp_again ?n v a i k ?t" by (simp add: udp_input_def Let_def del: udp_again.simps)
    consider "known_peer t k" | "\<not> known_peer t k" "own_address (fst (k_dst k))" | "\<not> known_peer t k" "\<not> own_address (fst (k_dst k))" "for_dns v k t"
      | "\<not> known_peer t k" "\<not> own_address (fst (k_dst k))" "\<not> for_dns v k t" by blast
    then show ?thesis
    proof cases
      case 1
      have "\<exists>t'. udp_again ?n v a i k ?t = Finished t' \<and> tunnel_inv base t' xs"
        unfolding f by (rule deliver_to_session [OF c1 dom1]) (use 1 v e w in simp_all)
      then show ?thesis using i 1 by auto
    next
      case 2
      have "udp_again ?n v a i k ?t = Finished (pbuf_free ?t)" unfolding f using find_none [of ?t k] 2 w by simp
      then show ?thesis using i 2 core_free_packet [OF c1 dom1] by auto
    next
      case 3
      have "\<exists>t'. udp_again ?n v a i k ?t = Finished t' \<and> tunnel_inv base t' xs"
        unfolding f by (rule new_dns_peer [OF c1 dom1]) (use 3 v e w in simp_all)
      then show ?thesis using i 3 by auto
    next
      case 4
      have "if udp_starts (n_mem (g_net ?t)) \<and> wakes_itself v ?t then udp_again ?n v a i k ?t = Undefined
        else \<exists>t'. udp_again ?n v a i k ?t = Finished t' \<and> tunnel_inv base t' (if udp_starts (n_mem (g_net ?t)) then xs @ [a] else xs)"
        by (rule new_peer [OF _ c1 dom1]) (use 4 v e w in simp_all)
      then show ?thesis using i 4 w(3) long by (auto split: if_splits)
    qed
  qed
qed

section \<open>The other events\<close>

lemma resume_step:
  assumes inv: "tunnel_inv base t xs" and ok: "tunnel_event_ok v (Resume a) t"
  shows "\<exists>t'. tunnel_step v (Resume a) t = Finished t' \<and> tunnel_inv base t' (next_sessions v (Resume a) t xs)"
proof -
  have c: "tunnel_core base t xs (set xs) {} {}" and dom: "dom (g_data t) = set xs" using inv by (simp_all add: tunnel_inv_def)
  let ?mx = "cf_max_session_count (v_cf v)"
  have r: "sessions_rep (l_set (g_lw t)) xs" using c by (simp add: tunnel_core_def)
  have a: "a \<in> set xs" using ok dom by simp
  from set_step_refines [OF r, of "Update a" ?mx] a obtain ss where
    ss: "hev_socks5_tunnel_update_session ?mx (l_set (g_lw t)) a = Some ss" "sessions_rep ss (next_sessions v (Resume a) t xs)"
      "nodes_of ss = nodes_of (l_set (g_lw t))" by auto
  have "distinct xs" using r by (simp add: sessions_rep_def list_rep_def)
  then have same: "set (next_sessions v (Resume a) t xs) = set xs" using a by auto
  have "tunnel_core base (t\<lparr>g_lw := (g_lw t)\<lparr>l_set := ss\<rparr>\<rparr>) (next_sessions v (Resume a) t xs) (set xs) {} {}"
    using c ss(2,3) same by (simp add: tunnel_core_def)
  then have "tunnel_inv base (t\<lparr>g_lw := (g_lw t)\<lparr>l_set := ss\<rparr>\<rparr>) (next_sessions v (Resume a) t xs)"
    using dom same by (intro inv_intro) (simp_all del: next_sessions.simps)
  then show ?thesis using ss(1) by (simp add: run_of_def session_resume_def)
qed

lemma yield_step:
  assumes inv: "tunnel_inv base t xs" and ok: "tunnel_event_ok v (Yield a st) t"
  shows "\<exists>t'. tunnel_step v (Yield a st) t = Finished t' \<and> tunnel_inv base t' xs"
proof -
  have c: "tunnel_core base t xs (set xs) {} {}" and dom: "dom (g_data t) = set xs" using inv by (simp_all add: tunnel_inv_def)
  obtain d where d: "g_data t a = Some d" "st \<noteq> HEV_TASK_STOPPED" using ok by auto
  then have "startable (d\<lparr>d_task := Some st\<rparr>)" by (cases st) (simp_all add: startable_def)
  then have "tunnel_core base (t\<lparr>g_data := (g_data t)(a \<mapsto> d\<lparr>d_task := Some st\<rparr>)\<rparr>) xs (set xs) {} {}"
    by (intro core_data [OF c d(1)]) (use core_at [OF c d(1)] in simp_all)
  moreover have "dom ((g_data t)(a \<mapsto> d\<lparr>d_task := Some st\<rparr>)) = set xs" using dom d(1) by auto
  ultimately show ?thesis using d(1) by (auto simp: run_of_def session_yield_def intro!: inv_intro)
qed

lemma wake_step:
  assumes inv: "tunnel_inv base t xs" and ok: "tunnel_event_ok v (Wake a) t"
  shows "\<exists>t'. tunnel_step v (Wake a) t = Finished t' \<and> tunnel_inv base t' xs"
proof -
  have c: "tunnel_core base t xs (set xs) {} {}" and dom: "dom (g_data t) = set xs" using inv by (simp_all add: tunnel_inv_def)
  have "a \<in> set xs" using ok dom by simp
  from core_wakeup [OF c this] obtain d where
    d: "g_data t a = Some d" "hev_task_wakeup t a = Some (t\<lparr>g_data := (g_data t)(a \<mapsto> d\<lparr>d_task := Some HEV_TASK_RUNNING\<rparr>)\<rparr>)"
      "tunnel_core base (t\<lparr>g_data := (g_data t)(a \<mapsto> d\<lparr>d_task := Some HEV_TASK_RUNNING\<rparr>)\<rparr>) xs (set xs) {} {}" by blast
  have "dom ((g_data t)(a \<mapsto> d\<lparr>d_task := Some HEV_TASK_RUNNING\<rparr>)) = set xs" using dom d(1) by auto
  then show ?thesis using d(2,3) by (auto simp: run_of_def intro!: inv_intro)
qed

lemma tick_step:
  assumes inv: "tunnel_inv base t xs"
  shows "\<exists>t'. tunnel_step v Tick t = Finished t' \<and> tunnel_inv base t' xs"
  using inv by (simp add: tunnel_inv_def tunnel_core_def lwip_timer_round_def)

lemma finish_step:
  assumes inv: "tunnel_inv base t xs" and ok: "tunnel_event_ok v (Finish a) t"
  shows "\<exists>t'. tunnel_step v (Finish a) t = Finished t' \<and> tunnel_inv base t' (next_sessions v (Finish a) t xs) \<and> g_run t' = g_run t \<and>
    g_data t' = (g_data t)(a := None)"
proof -
  have c: "tunnel_core base t xs (set xs) {} {}" and dom: "dom (g_data t) = set xs" using inv by (simp_all add: tunnel_inv_def)
  have r: "sessions_rep (l_set (g_lw t)) xs" using c by (simp add: tunnel_core_def)
  have a: "a \<in> set xs" using ok dom by simp
  then obtain d where d: "g_data t a = Some d" using dom by blast
  from set_step_refines [OF r, of "Delete a" 0] a obtain ss where
    ss: "hev_socks5_tunnel_delete_session (l_set (g_lw t)) a = Some ss" "sessions_rep ss (remove1 a xs)" "nodes_of ss = nodes_of (l_set (g_lw t))" by auto
  have s: "set (remove1 a xs) = set xs - {a}" using r by (simp add: sessions_rep_def list_rep_def)
  let ?t = "t\<lparr>g_lw := (g_lw t)\<lparr>l_set := ss\<rparr>\<rparr>"
  have c1: "tunnel_core base ?t (remove1 a xs) (set xs) {} {}" using c ss(2,3) s by (auto simp: tunnel_core_def)
  have "g_data ?t a = Some d" using d by simp
  then obtain t' where t': "hev_object_unref ?t a = Some t'" "tunnel_core (base + 1) t' (remove1 a xs) (set xs - {a}) {} {}" "g_data t' = (g_data t)(a := None)"
    "g_run t' = g_run t" using core_unref [OF c1, of a d] s by auto
  have "tunnel_core (base + 1 + - 1) (t'\<lparr>g_net := hev_free (g_net t')\<rparr>) (remove1 a xs) (set (remove1 a xs)) {} {}"
    using t'(2) s by (intro core_live) (simp_all add: free_live)
  then have "tunnel_inv base (t'\<lparr>g_net := hev_free (g_net t')\<rparr>) (remove1 a xs)" using t'(3) dom s by (intro inv_intro) auto
  then show ?thesis using ss(1) t' by (simp add: run_of_def hev_socks5_session_task_entry_def)
qed

text \<open>A TCP session and its control block change together.\<close>

lemma core_tcp_session:
  assumes c: "tunnel_core base t xs zs I J" and d: "g_data t a = Some d" "d_self d = TcpSession self" "d_self d' = TcpSession self'" "d_pcb d' = d_pcb d"
    and ok: "q_node self' = a" "q_pcb self' \<longleftrightarrow> p \<noteq> None" "a \<in> zs \<Longrightarrow> startable d'"
    and live: "n_live nt = n_live (g_net t) + owned_by (d_self d') - owned_by (d_self d)"
  shows "tunnel_core base (t\<lparr>g_net := nt, g_tcp := (g_tcp t)(d_pcb d := p), g_data := (g_data t)(a \<mapsto> d')\<rparr>) xs zs I J"
proof -
  let ?t = "t\<lparr>g_net := nt, g_tcp := (g_tcp t)(d_pcb d := p), g_data := (g_data t)(a \<mapsto> d')\<rparr>"
  have sp: "same_place d d'" using d by (simp add: same_place_def)
  have own: "tcp_owner ((g_data t)(a \<mapsto> d')) = tcp_owner (g_data t)" "udp_owner ((g_data t)(a \<mapsto> d')) = udp_owner (g_data t)"
    using same_place_owner [of "g_data t" a d d', OF d(1) sp] by simp_all
  have o: "tcp_owner (g_data t) (d_pcb d) a" using d by (simp add: tcp_owner_def)
  have tb: "tcp_blocks I (g_tcp t) (tcp_owner (g_data t))" using c by (simp add: tunnel_core_def blocks_ok_def)
  have "tcp_blocks I ((g_tcp t)(d_pcb d := p)) (tcp_owner (g_data t))"
  proof -
    have "\<exists>b. tcp_owner (g_data t) j b" if "j \<in> dom ((g_tcp t)(d_pcb d := p)) - I" for j
      using tb o that unfolding tcp_blocks_def by (cases "j = d_pcb d") (auto split: if_splits)
    then show ?thesis using tb unfolding tcp_blocks_def by blast
  qed
  moreover have "session_at_ok ((g_tcp t)(d_pcb d := p)) (g_udp t) b e" if "((g_data t)(a \<mapsto> d')) b = Some e" for b e
  proof (cases "b = a")
    case True
    then show ?thesis using that d ok by (auto simp: session_at_ok_def)
  next
    case False
    then have e: "g_data t b = Some e" using that by simp
    have "d_pcb e \<noteq> d_pcb d" if "d_self e = TcpSession s" for s using tcp_block_unique [OF c d(1) e d(2) that] False by auto
    then show ?thesis using core_at [OF c e] by (cases "d_self e") (auto simp: session_at_ok_def)
  qed
  moreover have "a \<noteq> 0" using c d(1) by (auto simp: tunnel_core_def)
  moreover have "finite (dom (g_data t))" using c by (simp add: tunnel_core_def)
  ultimately show ?thesis using c ok(3) live own d(1) all_owned_update [of "g_data t" a d d', OF _ d(1)]
    by (auto simp: tunnel_core_def blocks_ok_def)
qed

lemma tcp_event_keeps:
  assumes "tcp_event ev nt env self = Some (nt', env', self')" "q_pcb self"
  shows "q_node self' = q_node self \<and> t_addr self' = t_addr self \<and> (q_pcb self' \<longleftrightarrow> ev \<noteq> Err) \<and>
    n_live nt' - int (length (q_queue self')) = n_live nt - int (length (q_queue self)) \<and> (self' = self \<and> e_pcb env' = e_pcb env \<longrightarrow> ev \<noteq> Err)"
proof (cases ev)
  case (Recv p)
  then show ?thesis using assms by (auto simp: tcp_event_def tcp_recv_handler_def Let_def split: if_splits)
next
  case (Sent n)
  then show ?thesis using assms by (auto simp: tcp_event_def tcp_sent_handler_def Let_def bind_eq_Some_conv split: if_splits)
next
  case Err
  then show ?thesis using assms by (auto simp: tcp_event_def tcp_err_handler_def hev_socks5_set_timeout_def Let_def dest: arg_cong [of _ _ q_pcb])
next
  case RecvEof
  then show ?thesis using assms by (auto simp: tcp_event_def tcp_recv_handler_def Let_def)
qed

lemma tcp_event_total:
  assumes "\<And>n. ev = Sent n \<Longrightarrow> q_buffer self \<noteq> None" shows "\<exists>nt' env' self'. tcp_event ev nt env self = Some (nt', env', self')"
  using assms by (cases ev) (auto simp: tcp_event_def tcp_sent_handler_def Let_def split_beta)

lemma callback_step:
  assumes inv: "tunnel_inv base t xs" and ok: "tunnel_event_ok v (Callback a ev) t"
  shows "\<exists>t'. tunnel_step v (Callback a ev) t = Finished t' \<and> tunnel_inv base t' xs \<and> g_run t' = g_run t"
proof -
  have c: "tunnel_core base t xs (set xs) {} {}" and dom: "dom (g_data t) = set xs" using inv by (simp_all add: tunnel_inv_def)
  have a: "a \<in> set xs" using ok dom by simp
  then obtain d where d: "g_data t a = Some d" using dom by blast
  show ?thesis
  proof (cases "\<exists>self pcb. d_self d = TcpSession self \<and> g_tcp t (d_pcb d) = Some pcb")
    case False
    then have "tcp_callback a ev t = Some t" using d by (auto simp: tcp_callback_def split: session.splits option.splits)
    then show ?thesis using inv by (simp add: run_of_def)
  next
    case True
    then obtain self pcb where s: "d_self d = TcpSession self" "g_tcp t (d_pcb d) = Some pcb" by blast
    have q: "q_pcb self" "q_node self = a" using core_at [OF c d] s by (auto simp: session_at_ok_def)
    let ?env = "\<lparr>e_set = l_set (g_lw t), e_pcb = pcb, e_fin = False\<rparr>"
    obtain nt env self' where e: "tcp_event ev (g_net t) ?env self = Some (nt, env, self')"
      using tcp_event_total [of ev self "g_net t" ?env] ok d s(1) by auto
    note k = tcp_event_keeps [OF e q(1)]
    let ?d = "d\<lparr>d_self := TcpSession self'\<rparr>"
    let ?p = "if ev = Err then None else Some (e_pcb env)"
    let ?t = "t\<lparr>g_net := nt, g_tcp := (g_tcp t)(d_pcb d := ?p), g_data := (g_data t)(a \<mapsto> ?d)\<rparr>"
    have h: "tcp_callback a ev t = (if self' = self \<and> e_pcb env = pcb then Some t else if ev = Err then hev_socks5_session_terminate ?t a else hev_task_wakeup ?t a)"
      using d s e by (simp add: tcp_callback_def Let_def)
    have st: "startable d" using c a d by (auto simp: tunnel_core_def)
    have c1: "tunnel_core base ?t xs (set xs) {} {}"
      by (rule core_tcp_session [OF c d s(1), of ?d self' ?p]) (use k q st s(1) in simp_all)
    have dm: "insert a (set xs) = set xs" "dom (g_data t) = set xs" using a dom by auto
    show ?thesis
    proof (cases "self' = self \<and> e_pcb env = pcb")
      case True
      then show ?thesis using h inv by (simp add: run_of_def)
    next
      case False
      show ?thesis
      proof (cases "ev = Err")
        case True
        from core_terminate [OF c1 a] obtain d2 where "hev_socks5_session_terminate ?t a = Some (?t\<lparr>g_data := (g_data ?t)(a \<mapsto> terminated d2)\<rparr>)"
          "tunnel_core base (?t\<lparr>g_data := (g_data ?t)(a \<mapsto> terminated d2)\<rparr>) xs (set xs) {} {}" by blast
        moreover from this(2) have "tunnel_inv base (?t\<lparr>g_data := (g_data ?t)(a \<mapsto> terminated d2)\<rparr>) xs" by (rule inv_intro) (use dm in simp)
        ultimately show ?thesis using h False True unfolding tunnel_step.simps run_of_def by simp
      next
        case no: False
        from core_wakeup [OF c1 a] obtain d2 where "hev_task_wakeup ?t a = Some (?t\<lparr>g_data := (g_data ?t)(a \<mapsto> d2\<lparr>d_task := Some HEV_TASK_RUNNING\<rparr>)\<rparr>)"
          "tunnel_core base (?t\<lparr>g_data := (g_data ?t)(a \<mapsto> d2\<lparr>d_task := Some HEV_TASK_RUNNING\<rparr>)\<rparr>) xs (set xs) {} {}" by blast
        moreover from this(2) have "tunnel_inv base (?t\<lparr>g_data := (g_data ?t)(a \<mapsto> d2\<lparr>d_task := Some HEV_TASK_RUNNING\<rparr>)\<rparr>) xs"
          by (rule inv_intro) (use dm in simp)
        ultimately show ?thesis using h False no unfolding tunnel_step.simps run_of_def by simp
      qed
    qed
  qed
qed

lemma progress_step:
  assumes inv: "tunnel_inv base t xs" and ok: "tunnel_event_ok v (Progress a s nt pcb) t"
  shows "\<exists>t'. tunnel_step v (Progress a s nt pcb) t = Finished t' \<and> tunnel_inv base t' xs"
proof -
  have c: "tunnel_core base t xs (set xs) {} {}" and dom: "dom (g_data t) = set xs" using inv by (simp_all add: tunnel_inv_def)
  obtain d where d: "g_data t a = Some d" and l: "n_live nt = n_live (g_net t) + owned_by s - owned_by (d_self d)"
    and g: "case (d_self d, s) of
        (TcpSession self, TcpSession self') \<Rightarrow> q_node self' = q_node self \<and> q_pcb self' = q_pcb self \<and> (pcb = None \<longleftrightarrow> g_tcp t (d_pcb d) = None)
      | (UdpSession self, UdpSession self') \<Rightarrow> p_node self' = p_node self \<and> p_pcb self' = p_pcb self \<and> session_ok self'
      | _ \<Rightarrow> False" using ok by auto
  have at: "session_at_ok (g_tcp t) (g_udp t) a d" by (rule core_at [OF c d])
  have a: "a \<in> set xs" using d dom by auto
  have st: "startable d" using c a d by (auto simp: tunnel_core_def)
  have dm: "dom ((g_data t)(a \<mapsto> d\<lparr>d_self := s\<rparr>)) = set xs" using d dom by auto
  show ?thesis
  proof (cases "d_self d")
    case (TcpSession self)
    then obtain self' where s: "s = TcpSession self'" using g by (cases s) auto
    have "tunnel_core base (t\<lparr>g_net := nt, g_tcp := (g_tcp t)(d_pcb d := pcb), g_data := (g_data t)(a \<mapsto> d\<lparr>d_self := s\<rparr>)\<rparr>) xs (set xs) {} {}"
      by (rule core_tcp_session [OF c d TcpSession, of _ self']) (use g at st s TcpSession l in \<open>auto simp: session_at_ok_def\<close>)
    moreover have "session_progress a s nt pcb t = Some (t\<lparr>g_net := nt, g_tcp := (g_tcp t)(d_pcb d := pcb), g_data := (g_data t)(a \<mapsto> d\<lparr>d_self := s\<rparr>)\<rparr>)"
    proof (cases pcb)
      case None
      then have "(g_tcp t)(d_pcb d := None) = g_tcp t" using g s TcpSession by (intro fun_upd_idem) simp
      then show ?thesis using d s None by (simp add: session_progress_def)
    qed (use d s in \<open>simp add: session_progress_def\<close>)
    ultimately show ?thesis using dm by (auto simp: run_of_def intro!: inv_intro)
  next
    case (UdpSession self)
    then obtain self' where s: "s = UdpSession self'" using g by (cases s) auto
    have "tunnel_core (base + 0) (t\<lparr>g_dns := g_dns t, g_net := nt, g_data := (g_data t)(a \<mapsto> d\<lparr>d_self := s\<rparr>)\<rparr>) xs (set xs) {} {}"
      by (rule core_session [OF c d]) (use g at st s UdpSession l c in \<open>auto simp: session_at_ok_def same_place_def tunnel_core_def\<close>)
    moreover have "session_progress a s nt pcb t = Some (t\<lparr>g_dns := g_dns t, g_net := nt, g_data := (g_data t)(a \<mapsto> d\<lparr>d_self := s\<rparr>)\<rparr>)"
      using d s by (simp add: session_progress_def)
    ultimately show ?thesis using dm by (auto simp: run_of_def intro!: inv_intro)
  qed
qed

section \<open>Stopping\<close>

text \<open>The event task: from the node at hand to the end of the list every session is terminated, the others are left alone.\<close>

definition all_terminated :: "addr list \<Rightarrow> (addr \<rightharpoonup> HevSocks5SessionData) \<Rightarrow> (addr \<rightharpoonup> HevSocks5SessionData)" where
  "all_terminated ys ds = (\<lambda>a. if a \<in> set ys then map_option terminated (ds a) else ds a)"

lemma all_terminated_dom [simp]: "dom (all_terminated ys ds) = dom ds"
  by (auto simp: all_terminated_def dom_def)

lemma terminate_loop_all:
  assumes "tunnel_core base t (ps @ ys) (set (ps @ ys)) {} {}" "length ys < n"
  shows "\<exists>t'. terminate_loop n t (hd0 ys 0) = Finished t' \<and> tunnel_core base t' (ps @ ys) (set (ps @ ys)) {} {} \<and>
    t' = t\<lparr>g_data := all_terminated ys (g_data t)\<rparr>"
  using assms
proof (induction ys arbitrary: t ps n)
  case Nil
  then show ?case by (cases n) (simp_all add: all_terminated_def)
next
  case (Cons y ys)
  obtain m where n: "n = Suc m" using Cons.prems(2) by (cases n) auto
  have r: "list_rep (session_set (l_set (g_lw t))) (ps @ y # ys)" using Cons.prems(1) by (simp add: tunnel_core_def sessions_rep_def)
  have y: "y \<noteq> 0" "y \<notin> set ys" using list_rep_nonzero [OF r, of y] r by (auto simp: list_rep_def)
  have "y \<in> set (ps @ y # ys)" by simp
  from core_terminate [OF Cons.prems(1) this] obtain d where
    d: "g_data t y = Some d" "hev_socks5_session_terminate t y = Some (t\<lparr>g_data := (g_data t)(y \<mapsto> terminated d)\<rparr>)"
      "tunnel_core base (t\<lparr>g_data := (g_data t)(y \<mapsto> terminated d)\<rparr>) (ps @ y # ys) (set (ps @ y # ys)) {} {}" by blast
  let ?t = "t\<lparr>g_data := (g_data t)(y \<mapsto> terminated d)\<rparr>"
  have "tunnel_core base ?t ((ps @ [y]) @ ys) (set ((ps @ [y]) @ ys)) {} {}" using d(3) by simp
  moreover have "length ys < m" using Cons.prems(2) n by simp
  ultimately obtain t' where
    t': "terminate_loop m ?t (hd0 ys 0) = Finished t'" "tunnel_core base t' ((ps @ [y]) @ ys) (set ((ps @ [y]) @ ys)) {} {}"
      "t' = ?t\<lparr>g_data := all_terminated ys (g_data ?t)\<rparr>" using Cons.IH by blast
  have next_node: "hev_list_node_next (session_set (l_set (g_lw ?t))) y = Some (hd0 ys 0)" using list_rep_next [OF r] by simp
  have "all_terminated ys ((g_data t)(y \<mapsto> terminated d)) = all_terminated (y # ys) (g_data t)"
    using y(2) d(1) by (auto simp: all_terminated_def fun_eq_iff)
  then have "t' = t\<lparr>g_data := all_terminated (y # ys) (g_data t)\<rparr>" using t'(3) by simp
  moreover have "terminate_loop n t (hd0 (y # ys) 0) = Finished t'" using n y(1) d(2) next_node t'(1) by simp
  ultimately show ?case using t'(2) by auto
qed

lemma quit_step:
  assumes inv: "tunnel_inv base t xs"
  shows "\<exists>t'. tunnel_step v Quit t = Finished t' \<and> tunnel_inv base t' xs \<and> t' = t\<lparr>g_run := False, g_data := all_terminated xs (g_data t)\<rparr>"
proof -
  have c: "tunnel_core base t xs (set xs) {} {}" and dom: "dom (g_data t) = set xs" using inv by (simp_all add: tunnel_inv_def)
  let ?t = "t\<lparr>g_run := False\<rparr>"
  have c1: "tunnel_core base ?t ([] @ xs) (set ([] @ xs)) {} {}" using c by (simp add: tunnel_core_def)
  have r: "sessions_rep (l_set (g_lw t)) xs" using c by (simp add: tunnel_core_def)
  have h: "hev_list_first (session_set (l_set (g_lw ?t))) = hd0 xs 0" using r by (simp add: sessions_rep_def list_rep_first)
  have n: "nat (session_count (l_set (g_lw t))) + 1 = Suc (length xs)" using r by (simp add: sessions_rep_def)
  from terminate_loop_all [OF c1, of "Suc (length xs)"] obtain t' where
    t': "terminate_loop (Suc (length xs)) ?t (hd0 xs 0) = Finished t'" "tunnel_core base t' xs (set xs) {} {}" "t' = ?t\<lparr>g_data := all_terminated xs (g_data t)\<rparr>" by auto
  have "dom (g_data t') = set xs" using t'(3) dom by simp
  then have "tunnel_inv base t' xs" by (rule inv_intro [OF t'(2)])
  moreover have "tunnel_step v Quit t = Finished t'" using t'(1) h n by (simp add: event_task_entry_def del: terminate_loop.simps)
  ultimately show ?thesis using t'(3) by simp
qed

section \<open>Runs\<close>

lemma tunnel_step_correct:
  assumes "tunnel_inv base t xs" "surroundings_ok v" "tunnel_event_ok v ev t"
  shows "if fault v ev t then tunnel_step v ev t = Undefined
    else \<exists>t'. tunnel_step v ev t = Finished t' \<and> tunnel_inv base t' (next_sessions v ev t xs)"
proof (cases ev)
  case (Connect a i ip port)
  show ?thesis
  proof (cases "fault v ev t")
    case True
    then show ?thesis using connect_step [OF assms(1,2)] assms(3) unfolding Connect by (simp only: if_True tunnel_step.simps run_of_def option.case)
  next
    case False
    then show ?thesis using connect_step [OF assms(1,2)] assms(3) unfolding Connect by (fastforce simp only: if_False tunnel_step.simps run_of_def option.case)
  qed
next
  case (Datagram a i k)
  show ?thesis using datagram_step [OF assms(1,2)] assms(3) unfolding Datagram by blast
next
  case (Callback a ev')
  then show ?thesis using callback_step [OF assms(1), of v a ev'] assms(3) by auto
next
  case (Progress a s nt pcb)
  then show ?thesis using progress_step [OF assms(1), of v a s nt pcb] assms(3) by simp
next
  case (Yield a st)
  then show ?thesis using yield_step [OF assms(1), of v a st] assms(3) by simp
next
  case (Wake a)
  then show ?thesis using wake_step [OF assms(1), of v a] assms(3) by simp
next
  case (Resume a)
  then show ?thesis using resume_step [OF assms(1), of v a] assms(3) by simp
next
  case Tick
  then show ?thesis using tick_step [OF assms(1), of v] by simp
next
  case (Finish a)
  then show ?thesis using finish_step [OF assms(1), of v a] assms(3) by auto
next
  case Quit
  then show ?thesis using quit_step [OF assms(1), of v] by auto
qed

fun run_ok :: "surroundings \<Rightarrow> tunnel_event list \<Rightarrow> tunnel \<Rightarrow> bool" where
  "run_ok v [] t \<longleftrightarrow> True"
| "run_ok v (ev # evs) t \<longleftrightarrow> tunnel_event_ok v ev t \<and> \<not> fault v ev t \<and>
     (case tunnel_step v ev t of Finished t \<Rightarrow> run_ok v evs t | _ \<Rightarrow> True)"

lemma run_ok_cons: "run_ok v (ev # evs) t \<longleftrightarrow>
  tunnel_event_ok v ev t \<and> \<not> fault v ev t \<and> (\<forall>t'. tunnel_step v ev t = Finished t' \<longrightarrow> run_ok v evs t')"
  by (cases "tunnel_step v ev t") (simp_all del: tunnel_step.simps tunnel_event_ok.simps fault.simps)

text \<open>Any machine of this kind: a state, its abstraction, and steps that keep the invariant between the two.\<close>

locale event_machine =
  fixes step :: "'e \<Rightarrow> 's \<Rightarrow> 's run" and good :: "'e \<Rightarrow> 's \<Rightarrow> bool"
    and steps :: "'e list \<Rightarrow> 's \<Rightarrow> 's run" and all_good :: "'e list \<Rightarrow> 's \<Rightarrow> bool"
    and inv :: "'s \<Rightarrow> 'x \<Rightarrow> bool" and effect :: "'e \<Rightarrow> 's \<Rightarrow> 'x \<Rightarrow> 'x"
  assumes step_inv: "inv s x \<Longrightarrow> good e s \<Longrightarrow> \<exists>s'. step e s = Finished s' \<and> inv s' (effect e s x)"
    and steps_nil: "steps [] s = Finished s"
    and steps_cons: "step e s = Finished s' \<Longrightarrow> steps (e # es) s = steps es s'"
    and all_good_cons: "all_good (e # es) s \<Longrightarrow> good e s \<and> (\<forall>s'. step e s = Finished s' \<longrightarrow> all_good es s')"
begin

lemma steps_inv: "inv s x \<Longrightarrow> all_good es s \<Longrightarrow> \<exists>s' x'. steps es s = Finished s' \<and> inv s' x'"
proof (induction es arbitrary: s x)
  case (Cons e es)
  then obtain s' where "step e s = Finished s'" "inv s' (effect e s x)" "all_good es s'"
    using step_inv [of s x e] all_good_cons [of e es s] by blast
  then show ?case using Cons.IH steps_cons by metis
qed (use steps_nil in blast)

lemma steps_fold:
  assumes "\<And>e s x. effect e s x = f e x"
  shows "inv s x \<Longrightarrow> all_good es s \<Longrightarrow> \<exists>s'. steps es s = Finished s' \<and> inv s' (fold f es x)"
proof (induction es arbitrary: s x)
  case (Cons e es)
  then obtain s' where "step e s = Finished s'" "inv s' (f e x)" "all_good es s'"
    using step_inv [of s x e] all_good_cons [of e es s] assms by metis
  then show ?case using Cons.IH steps_cons [of e s s' es] by simp
qed (simp add: steps_nil)

end

interpretation running: event_machine "tunnel_step v" "\<lambda>ev t. tunnel_event_ok v ev t \<and> \<not> fault v ev t" "tunnel_run v" "run_ok v"
  "\<lambda>t xs. surroundings_ok v \<and> tunnel_inv base t xs" "next_sessions v" for v base
  by unfold_locales (use tunnel_step_correct in fastforce, simp, simp, use run_ok_cons in blast)

lemma start_inv: "dns_ready dns \<Longrightarrow> tunnel_inv (n_live nt) (hev_socks5_tunnel_run dns nt) []"
  by (simp add: tunnel_inv_def tunnel_core_def hev_socks5_tunnel_run_def sessions_rep_def nodes_of_def blocks_ok_def tcp_blocks_def udp_blocks_def
      tcp_owner_def udp_owner_def all_owned_def)

text \<open>What the invariant says, in words of the state.\<close>

lemma inv_says:
  assumes "tunnel_inv base t xs"
  shows "sessions_rep (l_set (g_lw t)) xs" "dom (g_data t) = set xs" "session_count (l_set (g_lw t)) = int (card (dom (g_data t)))"
    "\<forall>a \<in> set xs. startable (the (g_data t a))" "\<forall>b \<in> set (g_udp t). \<exists>a \<in> set xs. b_recv b = Some (SessionReceiver a) \<and> udp_owner (g_data t) (b_id b) a"
    "\<forall>i \<in> dom (g_tcp t). \<exists>a \<in> set xs. tcp_owner (g_data t) i a" "n_live (g_net t) = base + all_owned (g_data t)"
proof -
  have c: "tunnel_core base t xs (set xs) {} {}" and dom: "dom (g_data t) = set xs" using assms by (simp_all add: tunnel_inv_def)
  show r: "sessions_rep (l_set (g_lw t)) xs" and "n_live (g_net t) = base + all_owned (g_data t)" and "dom (g_data t) = set xs"
    using c dom by (simp_all add: tunnel_core_def)
  have "distinct xs" using r by (simp add: sessions_rep_def list_rep_def)
  then show "session_count (l_set (g_lw t)) = int (card (dom (g_data t)))" using r dom by (simp add: sessions_rep_def distinct_card)
  show "\<forall>a \<in> set xs. startable (the (g_data t a))"
  proof
    fix a assume a: "a \<in> set xs"
    then obtain d where "g_data t a = Some d" using dom by blast
    then show "startable (the (g_data t a))" using c a by (auto simp: tunnel_core_def)
  qed
  show "\<forall>b \<in> set (g_udp t). \<exists>a \<in> set xs. b_recv b = Some (SessionReceiver a) \<and> udp_owner (g_data t) (b_id b) a"
    using c dom unfolding tunnel_core_def blocks_ok_def udp_blocks_def udp_owner_def by blast
  show "\<forall>i \<in> dom (g_tcp t). \<exists>a \<in> set xs. tcp_owner (g_data t) i a"
    using c dom unfolding tunnel_core_def blocks_ok_def tcp_blocks_def tcp_owner_def by blast
qed



section \<open>After the stop\<close>

lemma step_stopped:
  assumes inv: "tunnel_inv base t xs" and ok: "surroundings_ok v" "tunnel_event_ok v ev t" and s: "\<not> g_run t"
  shows "\<exists>t'. tunnel_step v ev t = Finished t' \<and> tunnel_inv base t' (next_sessions v ev t xs) \<and> \<not> g_run t'"
proof -
  have nf: "\<not> fault v ev t" using ok(2) s by (cases ev) auto
  then obtain t' where t': "tunnel_step v ev t = Finished t'" "tunnel_inv base t' (next_sessions v ev t xs)"
    using tunnel_step_correct [OF inv ok] by auto
  have "\<not> g_run t'"
  proof (cases ev)
    case (Connect a i ip port)
    then show ?thesis using t'(1) s by (auto simp: run_of_def tcp_accepted_def tcp_accept_handler_def tcp_abort_def)
  next
    case (Callback a e)
    then show ?thesis using callback_step [OF inv, of v a e] ok(2) t'(1) s by auto
  next
    case (Finish a)
    then show ?thesis using finish_step [OF inv, of v a] ok(2) t'(1) s by auto
  next
    case Quit
    then show ?thesis using quit_step [OF inv, of v] t'(1) by auto
  qed (use t'(1) s ok(2) in \<open>auto simp: run_of_def session_progress_def session_yield_def session_resume_def hev_task_wakeup_def lwip_timer_round_def bind_eq_Some_conv split: option.splits if_splits\<close>)
  then show ?thesis using t' by blast
qed

lemma stopped_sessions:
  assumes "distinct xs" "tunnel_event_ok v ev t" "\<not> g_run t" "set xs = dom (g_data t)"
  shows "set (next_sessions v ev t xs) = set xs - {a. ev = Finish a}"
  using assms by (cases ev) auto

interpretation stopped: event_machine "tunnel_step v" "\<lambda>ev t. tunnel_event_ok v ev t \<and> \<not> fault v ev t" "tunnel_run v" "run_ok v"
  "\<lambda>t X. surroundings_ok v \<and> \<not> g_run t \<and> (\<exists>xs. tunnel_inv base t xs \<and> set xs = X)" "\<lambda>ev t X. X - {a. ev = Finish a}" for v base
proof (unfold_locales, goal_cases)
  case (1 t X ev)
  then obtain xs where xs: "tunnel_inv base t xs" "set xs = X" by blast
  have "distinct xs" "set xs = dom (g_data t)" using inv_says(1,2) [OF xs(1)] by (simp_all add: sessions_rep_def list_rep_def)
  then show ?case using step_stopped [OF xs(1)] stopped_sessions 1 xs(2) by metis
qed (simp, simp, use run_ok_cons in blast)

lemma fold_finish: "fold (\<lambda>ev X. X - {a. ev = Finish a}) evs X = X - {a. Finish a \<in> set evs}"
  by (induction evs arbitrary: X) auto

lemma run_stopped:
  assumes "tunnel_inv base t xs" "surroundings_ok v" "run_ok v evs t" "\<not> g_run t"
  shows "\<exists>t' xs'. tunnel_run v evs t = Finished t' \<and> tunnel_inv base t' xs' \<and> \<not> g_run t' \<and> set xs' = set xs - {a. Finish a \<in> set evs}"
  using stopped.steps_fold [OF refl, where v = v and base = base and s = t and x = "set xs" and es = evs] assms by (auto simp: fold_finish)

lemma no_sessions:
  assumes "tunnel_inv base t []" shows "g_data t = Map.empty" "g_udp t = []" "g_tcp t = Map.empty" "n_live (g_net t) = base"
proof -
  show d: "g_data t = Map.empty" using inv_says(2) [OF assms] by simp
  show "g_udp t = []" using inv_says(5) [OF assms] by (cases "g_udp t") auto
  show "g_tcp t = Map.empty" using inv_says(6) [OF assms] by auto
  show "n_live (g_net t) = base" using inv_says(7) [OF assms] d by (simp add: all_owned_def)
qed

lemma session_run_forgets:
  "hev_socks5_session_run m rs klass sa srv splicer nt (hev_socks5_set_timeout self n) = hev_socks5_session_run m rs klass sa srv splicer nt self"
  by (simp add: hev_socks5_session_run_def hev_socks5_client_connect_def hev_socks5_set_timeout_def)


section \<open>Witnesses\<close>

definition example_surroundings :: surroundings where
  "example_surroundings = \<lparr>v_cf = config_init\<lparr>cf_max_session_count := 2\<rparr>, v_al = (\<lambda>d. (0, True)), v_buf = replicate 260 0, v_block = replicate 1500 0\<rparr>"

lemma example_surroundings_ok: "surroundings_ok example_surroundings"
  by (simp add: surroundings_ok_def example_surroundings_def sizeof_addr_def UDP_BUF_SIZE_def allocator_ok_def alloc_ok_def)

definition example_connect :: tunnel_event where
  "example_connect = Connect 8 1 (IpV4 [93, 184, 216, 34]) 443"

definition example_start :: tunnel where
  "example_start = hev_socks5_tunnel_run None (quiet_net (\<lambda>_. []))"

lemma example_inv: "tunnel_inv 0 example_start []"
  using start_inv [of None "quiet_net (\<lambda>_. [])"] by (simp add: example_start_def dns_ready_def quiet_net_def)

lemma example_connect_ok:
  "tunnel_event_ok example_surroundings example_connect example_start" "\<not> fault example_surroundings example_connect example_start"
  "next_sessions example_surroundings example_connect example_start [] = [8]"
  by (simp_all add: example_connect_def example_start_def hev_socks5_tunnel_run_def tcp_owner_def short_names_def alloc_fails_def quiet_net_def
      wakes_itself_def example_surroundings_def)

lemma example_connected:
  "\<exists>t. tunnel_step example_surroundings example_connect example_start = Finished t \<and> tunnel_inv 0 t [8]"
  using tunnel_step_correct [OF example_inv example_surroundings_ok example_connect_ok(1)] example_connect_ok(2,3) by simp

text \<open>A connection comes, is dealt with, and ends.\<close>

definition example_run :: "tunnel_event list" where
  "example_run = [example_connect, Yield 8 HEV_TASK_WAITING, Wake 8, Resume 8, Finish 8]"

lemma example_run_ok: "run_ok example_surroundings example_run example_start"
proof -
  obtain t where t: "tunnel_step example_surroundings example_connect example_start = Finished t" "tunnel_inv 0 t [8]"
    using example_connected by blast
  have "dom (g_data t) = {8}" using inv_says(2) [OF t(2)] by simp
  have run: "run_ok example_surroundings (ev # evs) t" if ok: "tunnel_event_ok example_surroundings ev t" "\<not> fault example_surroundings ev t"
    and inv: "tunnel_inv 0 t [8]" "next_sessions example_surroundings ev t [8] = [8]"
    and rest: "\<And>t. dom (g_data t) = {8} \<Longrightarrow> tunnel_inv 0 t [8] \<Longrightarrow> run_ok example_surroundings evs t" for ev evs t
  proof -
    obtain t' where t': "tunnel_step example_surroundings ev t = Finished t'" "tunnel_inv 0 t' [8]"
      using tunnel_step_correct [OF inv(1) example_surroundings_ok ok(1)] ok(2) inv(2) by auto
    then show ?thesis using ok rest inv_says(2) [OF t'(2)] by (simp del: tunnel_step.simps)
  qed
  have f: "run_ok example_surroundings [Finish 8] t" if "dom (g_data t) = {8}" for t
    using that by (simp del: tunnel_step.simps split: run.split)
  have r: "run_ok example_surroundings [Resume 8, Finish 8] t" if "dom (g_data t) = {8}" "tunnel_inv 0 t [8]" for t
    by (rule run [OF _ _ that(2) _ f]) (use that(1) in simp_all)
  have w: "run_ok example_surroundings [Wake 8, Resume 8, Finish 8] t" if "dom (g_data t) = {8}" "tunnel_inv 0 t [8]" for t
    by (rule run [OF _ _ that(2) _ r]) (use that(1) in simp_all)
  have "run_ok example_surroundings [Yield 8 HEV_TASK_WAITING, Wake 8, Resume 8, Finish 8] t"
    by (rule run [OF _ _ t(2) _ w]) (use inv_says(2) [OF t(2)] in simp_all)
  then show ?thesis using example_connect_ok(1,2) t(1) by (simp add: example_run_def del: tunnel_step.simps tunnel_event_ok.simps)
qed


text \<open>A connection for which there is no memory for the task.\<close>

definition example_short :: tunnel where
  "example_short = hev_socks5_tunnel_run None ((quiet_net (\<lambda>_. []))\<lparr>n_mem := [True, True, False]\<rparr>)"



end
