(* ===== verification/TunnelMain.thy ===== *)
theory TunnelMain
  imports TunnelTasksProps
begin

text \<open>
  The main function (\<open>hev-main.c\<close>) from the configuration to the end: the loggers, the context of the scheduler
  (\<open>hev-task-system.c\<close> with its reactor, timer and detector), the start of the tunnel, its run as a sequence of events, and
  finalisation; what each takes and gives back, and what stays behind when a step fails.
\<close>

section \<open>Loggers\<close>

text \<open>The logger of the tunnel and the one of the SOCKS5 library are alike. \<open>dup\<close> and \<open>open\<close> both return the lowest descriptor that is
  free. Finalising leaves the number of the closed descriptor behind.\<close>

record logger =
  lg_fd :: int
  lg_level :: int

definition sys_dup :: "net \<Rightarrow> net \<times> int" where
  "sys_dup nt = (case syscall nt of (nt, res) \<Rightarrow>
     if res < 0 then (nt, - 1)
     else let fd = lowest_fd (n_open nt) in (nt\<lparr>n_open := fd # n_open nt\<rparr>, fd))"

definition hev_logger_init :: "int \<Rightarrow> bytes \<Rightarrow> net \<Rightarrow> net \<times> logger \<times> int" where
  "hev_logger_init level path nt =
     (case (if path = ascii ''stdout'' then sys_dup nt
            else if path = ascii ''stderr'' then sys_dup nt
            else sys_open nt) of (nt, fd) \<Rightarrow>
      (nt, \<lparr>lg_fd = fd, lg_level = level\<rparr>, if fd < 0 then - 1 else 0))"

definition hev_logger_fini :: "net \<Rightarrow> logger \<Rightarrow> net" where
  "hev_logger_fini nt lg = sys_close nt (lg_fd lg)"

definition hev_socks5_logger_init :: "int \<Rightarrow> bytes \<Rightarrow> net \<Rightarrow> net \<times> logger \<times> int" where
  "hev_socks5_logger_init level path nt =
     (case (if path = ascii ''stdout'' then sys_dup nt
            else if path = ascii ''stderr'' then sys_dup nt
            else sys_open nt) of (nt, fd) \<Rightarrow>
      (nt, \<lparr>lg_fd = fd, lg_level = level\<rparr>, if fd < 0 then - 1 else 0))"

definition hev_socks5_logger_fini :: "net \<Rightarrow> logger \<Rightarrow> net" where
  "hev_socks5_logger_fini nt lg = sys_close nt (lg_fd lg)"

section \<open>The task system\<close>

text \<open>A context of the scheduler belongs to its thread; it is named by the descriptor of its reactor.\<close>

definition hev_task_io_reactor_new :: "net \<Rightarrow> net \<times> int option" where
  "hev_task_io_reactor_new nt =
     (case hev_malloc nt of (nt, ok) \<Rightarrow>
      if \<not> ok then (nt, None) else
      case sys_open nt of (nt, fd) \<Rightarrow>
      if fd < 0 then (hev_free nt, None) else
      case syscall nt of (nt, flags) \<Rightarrow>
      if flags < 0 then (hev_free nt, None) else
      case syscall nt of (nt, res) \<Rightarrow>
      if res < 0 then (hev_free nt, None) else (nt, Some fd))"

definition hev_task_io_reactor_destroy :: "net \<Rightarrow> int \<Rightarrow> net" where
  "hev_task_io_reactor_destroy nt fd = hev_free (sys_close nt fd)"

definition hev_task_timer_new :: "net \<Rightarrow> net \<times> bool" where
  "hev_task_timer_new nt = hev_malloc nt"

definition hev_task_timer_destroy :: "net \<Rightarrow> net" where
  "hev_task_timer_destroy nt = hev_free nt"

text \<open>The three calls that install the handlers; their results are joined.\<close>

definition hev_task_stack_detector_new :: "net \<Rightarrow> net \<times> bool" where
  "hev_task_stack_detector_new nt =
     (case hev_malloc nt of (nt, ok) \<Rightarrow>
      if \<not> ok then (nt, False) else
      case syscall nt of (nt, r1) \<Rightarrow>
      case syscall nt of (nt, r2) \<Rightarrow>
      case syscall nt of (nt, r3) \<Rightarrow>
      if r1 < 0 \<or> r2 < 0 \<or> r3 < 0 then (hev_free nt, False) else (nt, True))"

definition hev_task_stack_detector_destroy :: "net \<Rightarrow> net" where
  "hev_task_stack_detector_destroy nt = hev_free nt"

definition hev_task_system_init :: "net \<Rightarrow> int option \<Rightarrow> net \<times> int option \<times> int" where
  "hev_task_system_init nt context =
     (if context \<noteq> None then (nt, context, - 1) else
      case hev_malloc nt of (nt, ok) \<Rightarrow>
      if \<not> ok then (nt, None, - 1) else
      case syscall nt of (nt, res) \<Rightarrow>
      if res < 0 then (hev_free nt, None, - 1) else
      case hev_task_io_reactor_new nt of (nt, reactor) \<Rightarrow>
      case reactor of
        None \<Rightarrow> (hev_free nt, None, - 1)
      | Some fd \<Rightarrow>
          case hev_task_timer_new nt of (nt, timer) \<Rightarrow>
          if \<not> timer then (hev_free (hev_task_io_reactor_destroy nt fd), None, - 1) else
          case hev_task_stack_detector_new nt of (nt, detector) \<Rightarrow>
          if \<not> detector then (hev_free (hev_task_io_reactor_destroy (hev_task_timer_destroy nt) fd), None, - 1)
          else (nt, Some fd, 0))"

text \<open>The proxy that resolves names ends with the context as well; it is not modelled.\<close>

definition hev_task_system_fini :: "net \<Rightarrow> int option \<Rightarrow> (net \<times> int option) option" where
  "hev_task_system_fini nt context = do {
     fd \<leftarrow> context;
     let nt = hev_task_stack_detector_destroy nt;
     let nt = hev_task_timer_destroy nt;
     let nt = hev_task_io_reactor_destroy nt fd;
     Some (hev_free nt, None) }"

section \<open>The main function\<close>

definition set_limit_nofile :: "net \<Rightarrow> net \<times> int" where
  "set_limit_nofile nt =
     (case syscall nt of (nt, res) \<Rightarrow>
      if res < 0 then (nt, - 1) else
      case syscall nt of (nt, res) \<Rightarrow>
      if res < 0 then (nt, - 1) else syscall nt)"

definition run_as_daemon :: "net \<Rightarrow> net" where
  "run_as_daemon nt =
     (case sys_open nt of (nt, fp) \<Rightarrow>
      if fp < 0 then nt
      else case syscall nt of (nt, _) \<Rightarrow> sys_close nt fp)"

record main_state =
  m_net :: net
  m_cf :: HevConfig
  m_misc :: misc
  m_log :: logger
  m_slog :: logger
  m_ctx :: "int option"
  m_vars :: TunnelVars

text \<open>\<open>evs\<close> is what happens to the running tunnel, \<open>v\<close> its surroundings but for the configuration.\<close>

definition hev_socks5_tunnel_main_inner ::
  "int \<Rightarrow> tunnel_sys \<Rightarrow> surroundings \<Rightarrow> (tunnel \<Rightarrow> tunnel_event list) \<Rightarrow> main_state \<Rightarrow> (main_state \<times> int) option" where
  "hev_socks5_tunnel_main_inner tun_fd y v evs s =
     (let cf = m_cf s;
          m = hev_socks5_set_connect_timeout (m_misc s) (cf_connect_timeout cf);
          m = hev_socks5_set_tcp_timeout m (cf_tcp_timeout cf);
          m = hev_socks5_set_udp_timeout m (cf_udp_timeout cf);
          m = hev_socks5_set_udp_recv_buffer_size m (cf_udp_recv_buffer_size cf);
          s = s\<lparr>m_misc := m\<rparr> in
      case hev_logger_init (cf_log_level cf) (hev_config_get_misc_log_file cf) (m_net s) of (nt, lg, res) \<Rightarrow>
      let s = s\<lparr>m_net := nt, m_log := lg\<rparr> in
      if res < 0 then Some (s, - 2) else
      case hev_socks5_logger_init (cf_log_level cf) (hev_config_get_misc_log_file cf) nt of (nt, slg, res) \<Rightarrow>
      let s = s\<lparr>m_net := nt, m_slog := slg\<rparr> in
      if res < 0 then Some (s, - 3) else
      case set_limit_nofile nt of (nt, _) \<Rightarrow>
      let nt = (if hev_config_get_misc_pid_file cf \<noteq> None then run_as_daemon nt else nt) in
      case hev_task_system_init nt (m_ctx s) of (nt, ctx, res) \<Rightarrow>
      let s = s\<lparr>m_net := nt, m_ctx := ctx\<rparr> in
      if res < 0 then Some (s, - 4) else do {
        (nt, z, res) \<leftarrow> hev_socks5_tunnel_init tun_fd cf y nt (m_vars s);
        let s = s\<lparr>m_net := nt, m_vars := z\<rparr>;
        if res < 0 then Some (s, - 5) else
        let t = hev_socks5_tunnel_run (z_dns z) nt in
        case tunnel_run (v\<lparr>v_cf := cf\<rparr>) (evs t) t of
          Finished t \<Rightarrow> do {
            (nt, z) \<leftarrow> hev_socks5_tunnel_fini (g_net t) (z\<lparr>z_dns := map_option (\<lambda>_. the (g_dns t)) (z_dns z)\<rparr>);
            let nt = hev_socks5_logger_fini nt slg;
            let nt = hev_logger_fini nt lg;
            (nt, ctx) \<leftarrow> hev_task_system_fini nt ctx;
            Some (s\<lparr>m_net := nt, m_vars := z, m_ctx := ctx\<rparr>, 0) }
        | _ \<Rightarrow> None })"

text \<open>The document is what \<open>libyaml\<close> makes of the string.\<close>

definition hev_socks5_tunnel_main_from_str ::
  "bool \<Rightarrow> yaml_document option \<Rightarrow> int \<Rightarrow> tunnel_sys \<Rightarrow> surroundings \<Rightarrow> (tunnel \<Rightarrow> tunnel_event list) \<Rightarrow> main_state \<Rightarrow> (main_state \<times> int) option" where
  "hev_socks5_tunnel_main_from_str parser loaded tun_fd y v evs s = do {
     (cf, res) \<leftarrow> hev_config_init_from_str parser loaded (m_cf s);
     let s = s\<lparr>m_cf := cf\<rparr>;
     if res < 0 then Some (s, - 1) else hev_socks5_tunnel_main_inner tun_fd y v evs s }"

definition hev_socks5_tunnel_main_from_file ::
  "bool \<Rightarrow> bool \<Rightarrow> yaml_document option \<Rightarrow> int \<Rightarrow> tunnel_sys \<Rightarrow> surroundings \<Rightarrow> (tunnel \<Rightarrow> tunnel_event list) \<Rightarrow> main_state \<Rightarrow>
   (main_state \<times> int) option" where
  "hev_socks5_tunnel_main_from_file parser opened loaded tun_fd y v evs s = do {
     (cf, res) \<leftarrow> hev_config_init_from_file parser opened loaded (m_cf s);
     let s = s\<lparr>m_cf := cf\<rparr>;
     if res < 0 then Some (s, - 1) else hev_socks5_tunnel_main_inner tun_fd y v evs s }"

section \<open>What each part takes and gives back\<close>

text \<open>\<open>res_diff nt nt' M k\<close>: between the two, the descriptors \<open>M\<close> were added and \<open>k\<close> allocations.\<close>

definition res_diff :: "net \<Rightarrow> net \<Rightarrow> int multiset \<Rightarrow> int \<Rightarrow> bool" where
  "res_diff nt nt' M k \<longleftrightarrow> mset (n_open nt') = mset (n_open nt) + M \<and> n_live nt' = n_live nt + k"

lemma res_diff_trans: "res_diff a b M k \<Longrightarrow> res_diff b c N l \<Longrightarrow> res_diff a c (M + N) (k + l)"
  by (simp add: res_diff_def add.assoc)

lemma res_diff_same: "same_res nt nt' \<Longrightarrow> res_diff nt nt' {#} 0"
  by (auto simp: same_res_def res_diff_def)

lemma res_diff_free: "res_diff a b M k \<Longrightarrow> res_diff a (hev_free b) M (k - 1)"
  by (simp add: res_diff_def hev_free_def)

lemma res_diff_close: "res_diff a b (add_mset x M) k \<Longrightarrow> res_diff a (sys_close b x) M k"
  by (simp add: res_diff_def sys_close_def)

lemma open_diff: "sys_open nt = (nt', fd) \<Longrightarrow> res_diff nt nt' (if fd < 0 then {#} else {#fd#}) 0 \<and> - 1 \<le> fd"
  using sys_open_res [of nt nt' fd] by (auto simp: res_diff_def same_res_def)

lemma dup_is_open: "sys_dup nt = sys_open nt"
  by (simp add: sys_dup_def sys_open_def)

lemma logger_init_diff:
  "hev_logger_init lv p nt = (nt', lg, res) \<Longrightarrow> res_diff nt nt' (if res < 0 then {#} else {#lg_fd lg#}) 0 \<and> (res = 0 \<or> res = - 1)"
  "hev_socks5_logger_init lv p nt = (nt', lg, res) \<Longrightarrow> res_diff nt nt' (if res < 0 then {#} else {#lg_fd lg#}) 0 \<and> (res = 0 \<or> res = - 1)"
  by (auto simp: hev_logger_init_def hev_socks5_logger_init_def dup_is_open split: prod.splits if_splits dest!: open_diff)

lemma malloc_diff: "hev_malloc nt = (nt', ok) \<Longrightarrow> res_diff nt nt' {#} (if ok then 1 else 0)"
  by (auto simp: hev_malloc_def res_diff_def split: list.splits)

lemma syscall_diff: "syscall nt = (nt', r) \<Longrightarrow> res_diff nt nt' {#} 0 \<and> (r = 0 \<or> r = - 1)"
  using syscall_res [of nt nt' r] res_diff_same by blast

lemma limit_diff: "set_limit_nofile nt = (nt', r) \<Longrightarrow> res_diff nt nt' {#} 0"
  by (auto simp: set_limit_nofile_def res_diff_def split: prod.splits if_splits dest!: syscall_diff)

lemma daemon_diff: "res_diff nt (run_as_daemon nt) {#} 0"
proof -
  obtain nt1 fp where 1: "sys_open nt = (nt1, fp)" by (rule prod.exhaust)
  obtain nt2 r where 2: "syscall nt1 = (nt2, r)" by (rule prod.exhaust)
  have d: "res_diff nt nt2 (if fp < 0 then {#} else {#fp#}) 0" using res_diff_trans [of nt nt1 _ 0 nt2 "{#}" 0] open_diff [OF 1] syscall_diff [OF 2] by simp
  show ?thesis
  proof (cases "fp < 0")
    case True
    then show ?thesis using open_diff [OF 1] 1 by (simp add: run_as_daemon_def)
  next
    case False
    then show ?thesis using d res_diff_close [of nt nt2 fp "{#}" 0] 1 2 by (simp add: run_as_daemon_def)
  qed
qed

lemma reactor_new_diff:
  assumes "hev_task_io_reactor_new nt = (nt', r)"
  shows "case r of None \<Rightarrow> \<exists>M. size M \<le> 1 \<and> res_diff nt nt' M 0 | Some fd \<Rightarrow> res_diff nt nt' {#fd#} 1"
proof -
  obtain nt1 ok where 1: "hev_malloc nt = (nt1, ok)" by (rule prod.exhaust)
  obtain nt2 fd where 2: "sys_open nt1 = (nt2, fd)" by (rule prod.exhaust)
  obtain nt3 f where 3: "syscall nt2 = (nt3, f)" by (rule prod.exhaust)
  obtain nt4 g where 4: "syscall nt3 = (nt4, g)" by (rule prod.exhaust)
  show ?thesis
  proof (cases ok)
    case False
    then show ?thesis using malloc_diff [OF 1] assms 1 by (auto simp: hev_task_io_reactor_new_def intro!: exI [of _ "{#}"])
  next
    case True
    have d2: "res_diff nt nt2 (if fd < 0 then {#} else {#fd#}) 1" using res_diff_trans [of nt nt1 "{#}" 1 nt2 _ 0] malloc_diff [OF 1] open_diff [OF 2] True by simp
    have d3: "res_diff nt nt3 (if fd < 0 then {#} else {#fd#}) 1" using res_diff_trans [OF d2, of nt3 "{#}" 0] syscall_diff [OF 3] by simp
    have d4: "res_diff nt nt4 (if fd < 0 then {#} else {#fd#}) 1" using res_diff_trans [OF d3, of nt4 "{#}" 0] syscall_diff [OF 4] by simp
    have e: "hev_task_io_reactor_new nt = (if fd < 0 then (hev_free nt2, None) else if f < 0 then (hev_free nt3, None)
        else if g < 0 then (hev_free nt4, None) else (nt4, Some fd))" using True by (simp add: hev_task_io_reactor_new_def 1 2 3 4)
    have "size (if fd < 0 then {#} else {#fd#}) \<le> 1" by simp
    then show ?thesis using assms d4 res_diff_free [OF d2] res_diff_free [OF d3] res_diff_free [OF d4] unfolding e
      by (auto split: if_splits intro: exI [of _ "{#fd#}"] exI [of _ "{#}"])
  qed
qed

lemma detector_new_diff:
  assumes "hev_task_stack_detector_new nt = (nt', ok)"
  shows "res_diff nt nt' {#} (if ok then 1 else 0)"
proof -
  obtain nt1 b where 1: "hev_malloc nt = (nt1, b)" by (rule prod.exhaust)
  obtain nt2 r1 where 2: "syscall nt1 = (nt2, r1)" by (rule prod.exhaust)
  obtain nt3 r2 where 3: "syscall nt2 = (nt3, r2)" by (rule prod.exhaust)
  obtain nt4 r3 where 4: "syscall nt3 = (nt4, r3)" by (rule prod.exhaust)
  have "res_diff nt nt4 {#} (if b then 1 else 0)"
    using malloc_diff [OF 1] syscall_diff [OF 2] syscall_diff [OF 3] syscall_diff [OF 4] by (simp add: res_diff_def)
  then show ?thesis using assms malloc_diff [OF 1] res_diff_free
    by (fastforce simp: hev_task_stack_detector_new_def 1 2 3 4 split: if_splits)
qed

lemma task_system_init_diff:
  assumes "hev_task_system_init nt None = (nt', ctx, res)"
  shows "(res = 0 \<and> (\<exists>fd. ctx = Some fd \<and> res_diff nt nt' {#fd#} 4)) \<or> (res = - 1 \<and> ctx = None \<and> (\<exists>M. size M \<le> 1 \<and> res_diff nt nt' M 0))"
proof -
  obtain nt1 ok where 1: "hev_malloc nt = (nt1, ok)" by (rule prod.exhaust)
  obtain nt2 r where 2: "syscall nt1 = (nt2, r)" by (rule prod.exhaust)
  obtain nt3 reactor where 3: "hev_task_io_reactor_new nt2 = (nt3, reactor)" by (rule prod.exhaust)
  obtain nt4 timer where 4: "hev_task_timer_new nt3 = (nt4, timer)" by (rule prod.exhaust)
  obtain nt5 det where 5: "hev_task_stack_detector_new nt4 = (nt5, det)" by (rule prod.exhaust)
  have none: "\<exists>M. size M \<le> 1 \<and> res_diff nt x M 0" if "res_diff nt x {#} 0" for x
    using that by (intro exI [of _ "{#}"]) simp
  show ?thesis
  proof (cases ok)
    case False
    then show ?thesis using malloc_diff [OF 1] assms 1 none by (auto simp: hev_task_system_init_def)
  next
    case True
    have d2: "res_diff nt nt2 {#} 1" using res_diff_trans [of nt nt1 "{#}" 1 nt2 "{#}" 0] malloc_diff [OF 1] syscall_diff [OF 2] True by simp
    show ?thesis
    proof (cases "r < 0")
      case neg: True
      then show ?thesis using assms True none res_diff_free [OF d2] by (auto simp: hev_task_system_init_def 1 2)
    next
      case ge: False
      show ?thesis
      proof (cases reactor)
        case None
        then obtain M where M: "size M \<le> 1" "res_diff nt2 nt3 M 0" using reactor_new_diff [OF 3] by auto
        have "res_diff nt (hev_free nt3) M 0" using res_diff_free [OF res_diff_trans [OF d2 M(2)]] by simp
        then show ?thesis using assms True ge None M(1) by (auto simp: hev_task_system_init_def 1 2 3)
      next
        case (Some fd)
        then have "res_diff nt2 nt3 {#fd#} 1" using reactor_new_diff [OF 3] by simp
        from res_diff_trans [OF d2 this] have d3: "res_diff nt nt3 {#fd#} 2" by simp
        have d4: "res_diff nt nt4 {#fd#} (if timer then 3 else 2)"
          using res_diff_trans [OF d3, of nt4 "{#}" "if timer then 1 else 0"] malloc_diff [of nt3 nt4 timer] 4 by (simp add: hev_task_timer_new_def split: if_splits)
        have d5: "res_diff nt nt5 {#fd#} ((if timer then 3 else 2) + (if det then 1 else 0))"
          using res_diff_trans [OF d4 detector_new_diff [OF 5]] by simp
        have e: "hev_task_system_init nt None = (if \<not> timer then (hev_free (hev_task_io_reactor_destroy nt4 fd), None, - 1)
            else if \<not> det then (hev_free (hev_task_io_reactor_destroy (hev_task_timer_destroy nt5) fd), None, - 1) else (nt5, Some fd, 0))"
          using True ge Some by (simp add: hev_task_system_init_def 1 2 3 4 5)
        have x: "res_diff nt (hev_free (hev_task_io_reactor_destroy nt4 fd)) {#} 0" if "\<not> timer"
          using d4 that by (simp add: res_diff_def hev_task_io_reactor_destroy_def sys_close_def hev_free_def)
        have w: "res_diff nt (hev_free (hev_task_io_reactor_destroy (hev_task_timer_destroy nt5) fd)) {#} 0" if "timer" "\<not> det"
          using d5 that by (simp add: res_diff_def hev_task_io_reactor_destroy_def hev_task_timer_destroy_def sys_close_def hev_free_def)
        show ?thesis using assms d5 none [OF x] none [OF w] unfolding e by (cases timer; cases det) auto
      qed
    qed
  qed
qed

lemma task_system_fini_diff:
  assumes "mset (n_open nt) = add_mset fd N" "n_live nt = L + 4"
  shows "\<exists>nt'. hev_task_system_fini nt (Some fd) = Some (nt', None) \<and> mset (n_open nt') = N \<and> n_live nt' = L"
  using assms by (simp add: hev_task_system_fini_def hev_task_stack_detector_destroy_def hev_task_timer_destroy_def hev_task_io_reactor_destroy_def
      sys_close_def hev_free_def)

section \<open>The mapped DNS of a started tunnel\<close>

lemma init_keeps_dns:
  "event_task_init nt z = (nt', z', r) \<Longrightarrow> z_dns z' = z_dns z"
  "lwip_io_task_init nt z = (nt', z', r) \<Longrightarrow> z_dns z' = z_dns z"
  "lwip_timer_task_init nt z = (nt', z', r) \<Longrightarrow> z_dns z' = z_dns z"
  "gateway_init z = (z', r) \<Longrightarrow> z_dns z' = z_dns z"
  by (auto simp: event_task_init_def lwip_io_task_init_def lwip_timer_task_init_def gateway_init_def Let_def split: prod.splits if_splits)

lemma dns_init_ready:
  assumes "mapped_dns_init cf nt z = (nt', z', 0)" "z_dns z = None" "0 \<le> cf_mapdns_cache_size cf"
  shows "dns_ready (z_dns z')"
proof (cases "cf_mapdns_cache_size cf = 0")
  case True
  then show ?thesis using assms by (simp add: mapped_dns_init_def dns_ready_def)
next
  case False
  obtain nt1 ok where 1: "hev_malloc nt = (nt1, ok)" by (rule prod.exhaust)
  obtain d where d: "hev_mapped_dns_new ok (cf_mapdns_network cf) (cf_mapdns_netmask cf) (cf_mapdns_cache_size cf) = Some d" "z_dns z' = Some d"
    using assms(1) False 1 by (auto simp: mapped_dns_init_def split: option.splits)
  have "dns_state d []" "d_max d = cf_mapdns_cache_size cf" "d_max d \<le> sint (NOT (d_mask d))"
    using new_refines [OF d(1) assms(3)] by (auto simp: dns_state_def lru_of_def)
  then show ?thesis using d(2) False assms(3) by (auto simp: dns_ready_def)
qed

lemma init_dns_ready:
  assumes "tunnel_init ext cf y nt z = (nt1, z1, 0)" "init_steps ext cf y nt z = (nt', z', 0)" "z_dns z = None" "\<not> z_tun_fd_local z" "0 \<le> cf_mapdns_cache_size cf"
  shows "dns_ready (z_dns z')"
proof -
  obtain z2 r2 where 2: "gateway_init z1 = (z2, r2)" by (rule prod.exhaust)
  obtain nt3 z3 r3 where 3: "event_task_init nt1 z2 = (nt3, z3, r3)" by (rule prod_cases3)
  obtain nt4 z4 r4 where 4: "lwip_io_task_init nt3 z3 = (nt4, z4, r4)" by (rule prod_cases3)
  obtain nt5 z5 r5 where 5: "lwip_timer_task_init nt4 z4 = (nt5, z5, r5)" by (rule prod_cases3)
  obtain nt6 z6 r6 where 6: "mapped_dns_init cf nt5 z5 = (nt6, z6, r6)" by (rule prod_cases3)
  obtain f l where "z1 = z\<lparr>z_tun_fd := f, z_tun_fd_local := l\<rparr>" using tunnel_init_res [OF assms(1,4)] by blast
  then have "z_dns z1 = None" using assms(3) by simp
  then have "z_dns z5 = None" using init_keeps_dns(4) [OF 2] init_keeps_dns(1) [OF 3] init_keeps_dns(2) [OF 4] init_keeps_dns(3) [OF 5] by simp
  moreover have "mapped_dns_init cf nt5 z5 = (nt', z', 0)"
  proof -
    have "r2 = 0" using 2 by (auto simp: gateway_init_def Let_def)
    then have e: "init_steps ext cf y nt z = (if r3 < 0 then (nt3, z3, - 1) else if r4 < 0 then (nt4, z4, - 1) else if r5 < 0 then (nt5, z5, - 1)
        else if r6 < 0 then (nt6, z6, - 1) else (nt6, z6, 0))"
      by (simp add: init_steps_def assms(1) 2 3 4 5 6)
    have "nt6 = nt'" "z6 = z'" "\<not> r6 < 0" using assms(2) unfolding e by (auto split: if_splits)
    moreover have "r6 = 0 \<or> r6 = - 1" using 6 by (auto simp: mapped_dns_init_def split: prod.splits if_splits option.splits)
    ultimately show ?thesis using 6 by auto
  qed
  ultimately show ?thesis using dns_init_ready assms(5) by blast
qed

section \<open>A run from start to stop\<close>

text \<open>Nothing goes wrong while the tunnel runs, in the end every session has finished, and the sessions have closed what they
  opened.\<close>

definition drains :: "surroundings \<Rightarrow> tunnel_event list \<Rightarrow> tunnel \<Rightarrow> bool" where
  "drains v evs t \<longleftrightarrow> run_ok v evs t \<and>
     (\<forall>t'. tunnel_run v evs t = Finished t' \<longrightarrow> g_data t' = Map.empty \<and> mset (n_open (g_net t')) = mset (n_open (g_net t)))"

lemma run_drained:
  assumes "surroundings_ok v" "dns_ready dns" "drains v evs (hev_socks5_tunnel_run dns nt)"
  shows "\<exists>t. tunnel_run v evs (hev_socks5_tunnel_run dns nt) = Finished t \<and> res_diff nt (g_net t) {#} 0"
proof -
  have "run_ok v evs (hev_socks5_tunnel_run dns nt)" using assms(3) by (simp add: drains_def)
  from running.steps_inv [OF conjI [OF assms(1) start_inv [OF assms(2)]] this] obtain t xs where
    t: "tunnel_run v evs (hev_socks5_tunnel_run dns nt) = Finished t" "tunnel_inv (n_live nt) t xs" by blast
  have d: "g_data t = Map.empty" "mset (n_open (g_net t)) = mset (n_open nt)" using assms(3) t(1) by (simp_all add: drains_def hev_socks5_tunnel_run_def)
  then have "xs = []" using inv_says(2) [OF t(2)] by simp
  then have "n_live (g_net t) = n_live nt" using no_sessions(4) [of "n_live nt" t] t(2) by simp
  then show ?thesis using t(1) d(2) by (simp add: res_diff_def)
qed

text \<open>The same from every start, whatever the network and the mapped DNS are like then.\<close>

definition always_drains :: "surroundings \<Rightarrow> (tunnel \<Rightarrow> tunnel_event list) \<Rightarrow> bool" where
  "always_drains v evs \<longleftrightarrow> (\<forall>dns nt. dns_ready dns \<longrightarrow> drains v (evs (hev_socks5_tunnel_run dns nt)) (hev_socks5_tunnel_run dns nt))"

text \<open>Starting, running and finalising the tunnel.\<close>

lemma init_run_fini:
  assumes z: "free_to_start z" "z_tcp z = 0" "z_udp z = 0" and v: "surroundings_ok v" and c: "0 \<le> cf_mapdns_cache_size cf"
    and run: "always_drains v evs"
  shows "\<exists>nt' z' res. hev_socks5_tunnel_init ext cf y nt z = Some (nt', z', res) \<and>
    (if res < 0 then (\<exists>M. size M \<le> 1 \<and> res_diff nt nt' M 0) \<and> down z' \<and> z_pcbs z' = z_pcbs z
     else \<exists>t nt'' z''. tunnel_run v (evs (hev_socks5_tunnel_run (z_dns z') nt')) (hev_socks5_tunnel_run (z_dns z') nt') = Finished t \<and>
       hev_socks5_tunnel_fini (g_net t) (z'\<lparr>z_dns := map_option (\<lambda>_. the (g_dns t)) (z_dns z')\<rparr>) = Some (nt'', z'') \<and>
       res_diff nt nt'' {#} 0 \<and> down z'' \<and> z_pcbs z'' = z_pcbs z)"
proof -
  have dn: "\<not> z_tun_fd_local z" "z_dns z = None" using z(1) by (simp_all add: free_to_start_def down_def)
  obtain nt' z' res where i: "hev_socks5_tunnel_init ext cf y nt z = Some (nt', z', res)"
    and b: "res \<noteq> 0 \<longrightarrow> mset (n_open nt') = mset (n_open nt) + (if ext < 0 \<and> 0 \<le> z_tun_fd z' then {#z_tun_fd z'#} else {#}) \<and> n_live nt' = n_live nt \<and>
        z_pcbs z' = z_pcbs z \<and> down z'"
    using start_balanced [OF z(1), of ext cf y nt] z(2,3) by (auto split: if_splits)
  have r: "res = 0 \<or> res = - 1" using i by (auto simp: hev_socks5_tunnel_init_def bind_eq_Some_conv split: prod.splits if_splits)
  show ?thesis
  proof (cases "res = 0")
    case False
    have "size (if ext < 0 \<and> 0 \<le> z_tun_fd z' then {#z_tun_fd z'#} else {#}) \<le> 1" by simp
    then show ?thesis using i b r False unfolding res_diff_def by (intro exI [of _ nt'] exI [of _ z'] exI [of _ res]) auto
  next
    case True
    have s: "init_steps ext cf y nt z = (nt', z', 0)" using i True
      by (auto simp: hev_socks5_tunnel_init_def bind_eq_Some_conv split: prod.splits if_splits)
        (auto simp: init_steps_def split: prod.splits if_splits)
    obtain nt1 z1 r1 where 1: "tunnel_init ext cf y nt z = (nt1, z1, r1)" by (rule prod_cases3)
    have "r1 = 0 \<or> r1 = - 1" using tunnel_init_res [OF 1 dn(1)] by auto
    moreover have "\<not> r1 < 0" using s 1 by (auto simp: init_steps_def)
    ultimately have 1: "tunnel_init ext cf y nt z = (nt1, z1, 0)" using 1 by auto
    have up: "coming_up (mset (n_open nt)) (n_live nt) (z_pcbs z) nt' z'" using init_steps_up [OF z(1) 1 s] by simp
    have dr: "dns_ready (z_dns z')" by (rule init_dns_ready [OF 1 s dn(2,1) c])
    have "drains v (evs (hev_socks5_tunnel_run (z_dns z') nt')) (hev_socks5_tunnel_run (z_dns z') nt')" using run dr by (simp add: always_drains_def)
    from run_drained [OF v dr this] obtain t where
      t: "tunnel_run v (evs (hev_socks5_tunnel_run (z_dns z') nt')) (hev_socks5_tunnel_run (z_dns z') nt') = Finished t" "res_diff nt' (g_net t) {#} 0" by blast
    let ?z = "z'\<lparr>z_dns := map_option (\<lambda>_. the (g_dns t)) (z_dns z')\<rparr>"
    have "fds_of ?z = fds_of z'" "allocs_of ?z = allocs_of z'" by (simp_all add: fds_of_def allocs_of_def)
    then have "balanced (mset (n_open nt)) (n_live nt) (g_net t) ?z" using up t(2) by (simp add: coming_up_def balanced_def res_diff_def)
    moreover have "pcbs_ok (z_pcbs z) ?z" "0 \<le> fst (z_event_fds ?z) \<longleftrightarrow> 0 \<le> snd (z_event_fds ?z)" using up by (simp_all add: coming_up_def pcbs_ok_def)
    ultimately obtain nt'' z'' where f: "hev_socks5_tunnel_fini (g_net t) ?z = Some (nt'', z'')" "mset (n_open nt'') = mset (n_open nt)" "n_live nt'' = n_live nt"
      "z_pcbs z'' = z_pcbs z" "down z''" using fini_ok [of "mset (n_open nt)" "n_live nt" "g_net t" ?z "z_pcbs z"] by blast
    have "res_diff nt nt'' {#} 0" using f(2,3) by (simp add: res_diff_def)
    then show ?thesis using i True t(1) f(1,4,5) by (intro exI [of _ nt'] exI [of _ z'] exI [of _ 0]) auto
  qed
qed

section \<open>What the main function leaves behind\<close>

text \<open>By the result: the descriptors that stay open and the allocations that stay. After a failure of the last step there are the
  two logs, the context of the scheduler, and perhaps the device.\<close>

definition left_behind :: "int \<Rightarrow> net \<Rightarrow> main_state \<Rightarrow> bool" where
  "left_behind res nt s \<longleftrightarrow>
     (let logs = {#lg_fd (m_log s), lg_fd (m_slog s)#}; added = res_diff nt (m_net s) in
      if res = - 5 then \<exists>fd M. m_ctx s = Some fd \<and> size M \<le> 1 \<and> added (add_mset fd logs + M) 4
      else m_ctx s = None \<and>
        (if res = - 4 then \<exists>M. size M \<le> 1 \<and> added (logs + M) 0
         else if res = - 3 then added {#lg_fd (m_log s)#} 0
         else added {#} 0))"

definition settings_of :: "HevConfig \<Rightarrow> misc \<Rightarrow> misc" where
  "settings_of cf m = m\<lparr>connect_timeout := cf_connect_timeout cf, tcp_timeout := cf_tcp_timeout cf, udp_timeout := cf_udp_timeout cf,
     udp_recv_buffer_size := cf_udp_recv_buffer_size cf\<rparr>"

text \<open>Up to the point where the tunnel is started.\<close>

lemma prepare_diff:
  assumes "set_limit_nofile nt = (nt1, r)"
  shows "res_diff nt (if p then run_as_daemon nt1 else nt1) {#} 0"
  using res_diff_trans [OF limit_diff [OF assms] daemon_diff] limit_diff [OF assms] by simp

text \<open>The rest, from the state \<open>s\<close> in which the scheduler has its context.\<close>

definition main_rest ::
  "int \<Rightarrow> tunnel_sys \<Rightarrow> surroundings \<Rightarrow> (tunnel \<Rightarrow> tunnel_event list) \<Rightarrow> main_state \<Rightarrow> (main_state \<times> int) option" where
  "main_rest tun_fd y v evs s = (let cf = m_cf s; lg = m_log s; slg = m_slog s; cx = m_ctx s in do {
     (nt, z, res) \<leftarrow> hev_socks5_tunnel_init tun_fd cf y (m_net s) (m_vars s);
     let s = s\<lparr>m_net := nt, m_vars := z\<rparr>;
     if res < 0 then Some (s, - 5) else
     let t = hev_socks5_tunnel_run (z_dns z) nt in
     case tunnel_run (v\<lparr>v_cf := cf\<rparr>) (evs t) t of
       Finished t \<Rightarrow> do {
         (nt, z) \<leftarrow> hev_socks5_tunnel_fini (g_net t) (z\<lparr>z_dns := map_option (\<lambda>_. the (g_dns t)) (z_dns z)\<rparr>);
         let nt = hev_socks5_logger_fini nt slg;
         let nt = hev_logger_fini nt lg;
         (nt, ctx) \<leftarrow> hev_task_system_fini nt cx;
         Some (s\<lparr>m_net := nt, m_vars := z, m_ctx := ctx\<rparr>, 0) }
     | _ \<Rightarrow> None })"

lemma main_rest_balanced:
  assumes z: "free_to_start (m_vars s)" "z_tcp (m_vars s) = 0" "z_udp (m_vars s) = 0" and ctx: "m_ctx s = Some fd"
    and v: "surroundings_ok v" and c: "0 \<le> cf_mapdns_cache_size (m_cf s)"
    and run: "always_drains (v\<lparr>v_cf := m_cf s\<rparr>) evs"
    and d5: "res_diff n0 (m_net s) (add_mset fd {#lg_fd (m_log s), lg_fd (m_slog s)#}) 4"
  shows "\<exists>s' res. main_rest tun_fd y v evs s = Some (s', res) \<and> res \<in> {0, - 5} \<and>
    left_behind res n0 s' \<and> down (m_vars s') \<and> z_pcbs (m_vars s') = z_pcbs (m_vars s) \<and> m_misc s' = m_misc s"
proof -
  let ?v = "v\<lparr>v_cf := m_cf s\<rparr>" and ?nt = "\<lambda>n. hev_logger_fini (hev_socks5_logger_fini n (m_slog s)) (m_log s)"
  have v': "surroundings_ok ?v" using v by (simp add: surroundings_ok_def)
  from init_run_fini [OF z v' c run, of tun_fd y "m_net s"] obtain n6 z6 r6 where
    6: "hev_socks5_tunnel_init tun_fd (m_cf s) y (m_net s) (m_vars s) = Some (n6, z6, r6)"
    and b: "if r6 < 0 then (\<exists>M. size M \<le> 1 \<and> res_diff (m_net s) n6 M 0) \<and> down z6 \<and> z_pcbs z6 = z_pcbs (m_vars s)
      else \<exists>t nt'' z''. tunnel_run ?v (evs (hev_socks5_tunnel_run (z_dns z6) n6)) (hev_socks5_tunnel_run (z_dns z6) n6) = Finished t \<and>
        hev_socks5_tunnel_fini (g_net t) (z6\<lparr>z_dns := map_option (\<lambda>_. the (g_dns t)) (z_dns z6)\<rparr>) = Some (nt'', z'') \<and>
        res_diff (m_net s) nt'' {#} 0 \<and> down z'' \<and> z_pcbs z'' = z_pcbs (m_vars s)" by (elim exE conjE)
  show ?thesis
  proof (cases "r6 < 0")
    case True
    then obtain M where M: "size M \<le> 1" "res_diff (m_net s) n6 M 0" "down z6" "z_pcbs z6 = z_pcbs (m_vars s)" using b by auto
    from res_diff_trans [OF d5 M(2)] have "res_diff n0 n6 (add_mset fd {#lg_fd (m_log s), lg_fd (m_slog s)#} + M) 4" by simp
    then show ?thesis using 6 True M(1,3,4) ctx unfolding left_behind_def Let_def main_rest_def by auto
  next
    case False
    then obtain t n7 z7 where
      t: "tunnel_run ?v (evs (hev_socks5_tunnel_run (z_dns z6) n6)) (hev_socks5_tunnel_run (z_dns z6) n6) = Finished t"
      "hev_socks5_tunnel_fini (g_net t) (z6\<lparr>z_dns := map_option (\<lambda>_. the (g_dns t)) (z_dns z6)\<rparr>) = Some (n7, z7)"
      "res_diff (m_net s) n7 {#} 0" "down z7" "z_pcbs z7 = z_pcbs (m_vars s)" using b by auto
    from res_diff_trans [OF d5 t(3)] have "res_diff n0 n7 {#lg_fd (m_slog s), lg_fd (m_log s), fd#} 4" by (simp add: add_mset_commute)
    then have "res_diff n0 (?nt n7) {#fd#} 4"
      unfolding hev_logger_fini_def hev_socks5_logger_fini_def by (intro res_diff_close)
    then have "mset (n_open (?nt n7)) = add_mset fd (mset (n_open n0))" "n_live (?nt n7) = n_live n0 + 4" by (simp_all add: res_diff_def)
    from task_system_fini_diff [OF this] obtain n8 where
      8: "hev_task_system_fini (?nt n7) (Some fd) = Some (n8, None)" "mset (n_open n8) = mset (n_open n0)" "n_live n8 = n_live n0" by blast
    have "res_diff n0 n8 {#} 0" using 8(2,3) by (simp add: res_diff_def)
    then show ?thesis using 6 False t(1,2,4,5) ctx 8(1) by (simp add: left_behind_def Let_def main_rest_def)
  qed
qed

lemma main_inner_balanced:
  assumes z: "free_to_start (m_vars s)" "z_tcp (m_vars s) = 0" "z_udp (m_vars s) = 0" and ctx: "m_ctx s = None"
    and v: "surroundings_ok v" and c: "0 \<le> cf_mapdns_cache_size (m_cf s)"
    and run: "always_drains (v\<lparr>v_cf := m_cf s\<rparr>) evs"
  shows "\<exists>s' res. hev_socks5_tunnel_main_inner tun_fd y v evs s = Some (s', res) \<and> res \<in> {0, - 2, - 3, - 4, - 5} \<and>
    left_behind res (m_net s) s' \<and> down (m_vars s') \<and> z_pcbs (m_vars s') = z_pcbs (m_vars s) \<and> m_misc s' = settings_of (m_cf s) (m_misc s)"
proof -
  let ?cf = "m_cf s" and ?n0 = "m_net s"
  have dn: "down (m_vars s)" using z(1) by (simp add: free_to_start_def)
  have m: "hev_socks5_set_udp_recv_buffer_size (hev_socks5_set_udp_timeout (hev_socks5_set_tcp_timeout
      (hev_socks5_set_connect_timeout (m_misc s) (cf_connect_timeout ?cf)) (cf_tcp_timeout ?cf)) (cf_udp_timeout ?cf)) (cf_udp_recv_buffer_size ?cf)
      = settings_of ?cf (m_misc s)"
    by (simp add: settings_of_def hev_socks5_set_udp_recv_buffer_size_def hev_socks5_set_udp_timeout_def hev_socks5_set_tcp_timeout_def hev_socks5_set_connect_timeout_def)
  obtain n1 lg r1 where 1: "hev_logger_init (cf_log_level ?cf) (hev_config_get_misc_log_file ?cf) ?n0 = (n1, lg, r1)" by (rule prod_cases3)
  note l1 = logger_init_diff(1) [OF 1]
  show ?thesis
  proof (cases "r1 < 0")
    case True
    then show ?thesis using 1 l1 ctx dn m by (simp add: hev_socks5_tunnel_main_inner_def left_behind_def Let_def)
  next
    case go1: False
    then have d1: "res_diff ?n0 n1 {#lg_fd lg#} 0" using l1 by simp
    obtain n2 slg r2 where 2: "hev_socks5_logger_init (cf_log_level ?cf) (hev_config_get_misc_log_file ?cf) n1 = (n2, slg, r2)" by (rule prod_cases3)
    note l2 = logger_init_diff(2) [OF 2]
    show ?thesis
    proof (cases "r2 < 0")
      case True
      then have "res_diff ?n0 n2 {#lg_fd lg#} 0" using res_diff_trans [OF d1, of n2 "{#}" 0] l2 by simp
      then show ?thesis using 1 2 go1 True ctx dn m by (simp add: hev_socks5_tunnel_main_inner_def left_behind_def Let_def)
    next
      case go2: False
      then have d2: "res_diff ?n0 n2 {#lg_fd lg, lg_fd slg#} 0" using res_diff_trans [OF d1, of n2 "{#lg_fd slg#}" 0] l2 by (simp add: add_mset_commute)
      obtain n3 r3 where 3: "set_limit_nofile n2 = (n3, r3)" by (rule prod.exhaust)
      define n4 where "n4 = (if hev_config_get_misc_pid_file ?cf \<noteq> None then run_as_daemon n3 else n3)"
      have d4: "res_diff ?n0 n4 {#lg_fd lg, lg_fd slg#} 0" using res_diff_trans [OF d2 prepare_diff [OF 3]] by (simp add: n4_def)
      obtain n5 cx r5 where 5: "hev_task_system_init n4 None = (n5, cx, r5)" by (rule prod_cases3)
      note l5 = task_system_init_diff [OF 5]
      have e: "hev_socks5_tunnel_main_inner tun_fd y v evs s = (let s = s\<lparr>m_misc := settings_of ?cf (m_misc s), m_net := n5, m_log := lg, m_slog := slg, m_ctx := cx\<rparr> in
          if r5 < 0 then Some (s, - 4) else main_rest tun_fd y v evs s)"
        using go1 go2 ctx 5 m n4_def by (cases "hev_config_get_misc_pid_file ?cf") (simp_all add: hev_socks5_tunnel_main_inner_def main_rest_def 1 2 3 Let_def)
      show ?thesis
      proof (cases "r5 < 0")
        case True
        then obtain M where M: "size M \<le> 1" "res_diff n4 n5 M 0" "cx = None" using l5 by auto
        from res_diff_trans [OF d4 M(2)] have "res_diff ?n0 n5 ({#lg_fd lg, lg_fd slg#} + M) 0" by simp
        then show ?thesis using e True M(1,3) dn unfolding left_behind_def Let_def by auto
      next
        case go5: False
        then obtain fd where fd: "cx = Some fd" "res_diff n4 n5 {#fd#} 4" using l5 by auto
        let ?s = "s\<lparr>m_misc := settings_of ?cf (m_misc s), m_net := n5, m_log := lg, m_slog := slg, m_ctx := cx\<rparr>"
        have "res_diff ?n0 (m_net ?s) (add_mset fd {#lg_fd (m_log ?s), lg_fd (m_slog ?s)#}) 4"
          using res_diff_trans [OF d4 fd(2)] by (simp add: add_mset_commute)
        then have "\<exists>s' res. main_rest tun_fd y v evs ?s = Some (s', res) \<and> res \<in> {0, - 5} \<and>
          left_behind res ?n0 s' \<and> down (m_vars s') \<and> z_pcbs (m_vars s') = z_pcbs (m_vars ?s) \<and> m_misc s' = m_misc ?s"
          by (intro main_rest_balanced) (use z fd(1) v c run in simp_all)
        then show ?thesis using e go5 by auto
      qed
    qed
  qed
qed


section \<open>Witness\<close>

definition example_main :: main_state where
  "example_main = \<lparr>m_net = quiet_net (\<lambda>_. []), m_cf = config_init, m_misc = misc_init, m_log = \<lparr>lg_fd = - 1, lg_level = 0\<rparr>,
     m_slog = \<lparr>lg_fd = - 1, lg_level = 0\<rparr>, m_ctx = None, m_vars = tunnel_vars_init\<rparr>"

lemma example_drains: "always_drains v (\<lambda>_. [Tick, Quit, Tick])"
  by (simp add: always_drains_def drains_def hev_socks5_tunnel_run_def lwip_timer_round_def event_task_entry_def hev_list_first_def)


end
