(* ===== verification/Spec2Isabelle.thy ===== *)
theory Spec2Isabelle
  imports NativeTunnel TunnelFilter TunnelMain
begin

text \<open>
  Verification of the native tunnel of Smugly: the C code that turns the packets of a virtual network device into
  connections to a SOCKS5 server. Paths below are relative to
  \<^verbatim>\<open>src/app/src/main/cpp/hev-socks5-tunnel-src\<close>; the tunnel is in \<^verbatim>\<open>src\<close>, its SOCKS5 library in \<^verbatim>\<open>src/core/src\<close>, and the
  vendored lwIP, libyaml and task system are in \<^verbatim>\<open>third-part\<close>.

  \<^bold>\<open>The program.\<close> The native methods of the application (\<^verbatim>\<open>../hev-socks5-tunnel/hev_jni.c\<close>) start a thread that reads the
  configuration, opens the device, and runs three tasks: one hands packets to lwIP, one drives its timers, one waits for
  the stop. lwIP calls the tunnel back for every connection and every datagram of a new peer; each gets a session
  with a task of its own, kept in one list in the order of last activity. A session connects to the proxy, does the
  handshake of SOCKS5 and splices: a TCP session between a queue of packet buffers, a ring buffer and a socket, a UDP
  session between a queue of frames and datagrams framed in TCP or with a header. Queries to the gateway's own name
  server are answered by the mapped DNS with synthetic addresses, which become names again when they are connected
  to. The library has the server's side of the protocol as well.

  \<^bold>\<open>Theories and sources.\<close> In the order of the imports:
  \<^item> \<open>Prelude\<close>: machine types, byte memories, list and word lemmas, the result type \<open>run\<close> of loops with fuel.
  \<^item> \<open>RingBuffer\<close>: \<^verbatim>\<open>misc/hev-ring-buffer.c\<close>; refined to two byte queues (locale \<open>byte_pipe\<close>, interpretation \<open>ring\<close>).
  \<^item> \<open>HevList\<close>: \<^verbatim>\<open>misc/hev-list.c\<close>, a heap of nodes (locale \<open>node_queue\<close>, interpretation \<open>hq\<close>).
  \<^item> \<open>HevRBTree\<close>, \<open>RBTreeRep\<close>, \<open>RBTreeInsert\<close>, \<open>RBTreeErase\<close>, \<open>RBTreeProps\<close>: \<^verbatim>\<open>core/src/hev-rbtree.c\<close>; the operations,
    functional trees with one-hole contexts and their relation to the heap, the two rebalancing loops, and the interface
    as an ordered set of nodes (locale \<open>ordered_nodes\<close>, interpretation \<open>rbt\<close>).
  \<^item> \<open>MappedDNS\<close>, \<open>MappedDNSCache\<close>, \<open>DNSMessage\<close>: \<^verbatim>\<open>hev-mapped-dns.c\<close>; refined to a least-recently-used cache (locale
    \<open>name_cache\<close>, interpretation \<open>dns\<close>); the message handler is safe for all bytes.
  \<^item> \<open>Socks5Addr\<close>: the addresses of \<^verbatim>\<open>hev-socks5-misc.c\<close> and \<^verbatim>\<open>hev-utils.c\<close>.
  \<^item> \<open>TaskIO\<close>: descriptors, system calls, and the socket loops of the task system (locale \<open>byte_stream\<close>, interpretation
    \<open>tcp\<close>). What arrives, how much a call takes and which calls fail are scripts in the state \<open>net\<close>, over which every
    theorem quantifies.
  \<^item> \<open>Socks5Client\<close>, \<open>ClientHandshake\<close>, \<open>ClientLife\<close>: \<^verbatim>\<open>hev-socks5.c\<close>, \<^verbatim>\<open>hev-socks5-client*.c\<close> and the run of a session in
    \<^verbatim>\<open>hev-socks5-session.c\<close> (locale \<open>client_class\<close>, interpreted on the four classes of clients).
  \<^item> \<open>Authenticator\<close>: \<^verbatim>\<open>hev-socks5-user.c\<close> and \<^verbatim>\<open>hev-socks5-authenticator.c\<close> (locale \<open>password_table\<close>, interpretation
    \<open>auth\<close>).
  \<^item> \<open>Socks5Server\<close>, \<open>ServerSteps\<close>, \<open>ServerProps\<close>: \<^verbatim>\<open>hev-socks5-server.c\<close>, and that client and server understand each other.
  \<^item> \<open>Socks5UDP\<close>, \<open>UDPFrames\<close>, \<open>UDPRelay\<close>: \<^verbatim>\<open>hev-socks5-udp.c\<close> (locale \<open>udp_endpoint\<close>, interpreted on client and server).
  \<^item> \<open>SessionSet\<close>, \<open>SessionUDP\<close>, \<open>SessionNames\<close>, \<open>SessionUDPSteps\<close>, \<open>SessionUDPProps\<close>: the set of sessions of
    \<^verbatim>\<open>hev-socks5-tunnel.c\<close> and \<^verbatim>\<open>hev-socks5-session-udp.c\<close>.
  \<^item> \<open>SessionTCP\<close>, \<open>SessionTCPProps\<close>: \<^verbatim>\<open>hev-socks5-session-tcp.c\<close>.
  \<^item> \<open>TunnelFilter\<close>: the packet loop of \<^verbatim>\<open>hev-socks5-tunnel.c\<close>.
  \<^item> \<open>Config\<close>: \<^verbatim>\<open>hev-config.c\<close> on a document of libyaml.
  \<^item> \<open>TunnelLife\<close>: starting and finishing the tunnel, with the calls of \<^verbatim>\<open>hev-tunnel-linux.c\<close>.
  \<^item> \<open>TunnelTasks\<close>, \<open>TunnelTasksInv\<close>, \<open>TunnelTasksProps\<close>: the running tunnel, where the components come together: the handlers
    of lwIP, the tasks, the set, the control blocks and the allocations as one state, and events in every order
    (locale \<open>event_machine\<close>, interpreted on running and on stopped tunnels).
  \<^item> \<open>TunnelMain\<close>: \<^verbatim>\<open>hev-main.c\<close>, the loggers, and the setting up of the task system: the program from its configuration to
    its end.
  \<^item> \<open>NativeTunnel\<close>: the native methods and the tunnel's thread as a step relation.
\<close>

text \<open>
  \<^bold>\<open>State and operations.\<close> A structure of the code is a record, an object with a base class a record that extends another, an
  enumeration a datatype, and a function a definition with the name it has in C; functions take the state they change
  and return it. The result is an option where an access may go wrong: null, a node that is not there, memory outside
  a buffer, an assertion, \<open>abort\<close>. Addresses are words with 0 for null; linked structures are heaps that map
  addresses to nodes. Virtual functions are fields of a class record. Sizes and counters are kept at their
  width where they can wrap. Allocation follows a script (\<open>n_mem\<close>), and \<open>n_live\<close> counts what is allocated, so that every
  failure is a branch and the absence of leaks is an equation.

  \<^bold>\<open>What is shown.\<close> Data structures refine abstract ones (byte queues, lists, ordered sets, a cache, a table, a
  bounded queue of bindings), from every state that can be reached. Parsers and builders of messages round-trip for
  every way the bytes are cut into pieces. The handshakes of client and server are dialogues with exact
  results for every input. Sessions end, keep both byte streams in order and without loss, keep
  their queues bounded, and give back every descriptor and allocation, whatever network and memory do. The
  packet loop treats every packet as configured. Start and stop are exact in every interleaving, and the main
  function leaves exactly what is listed for each of its results. A step of
  the running tunnel is undefined exactly in two situations, which are named; in all others the set of sessions, the
  tasks, the control blocks and the allocations agree. Where the code falls short of this, the theorem says when, with
  the missing condition as a hypothesis or as a case of its statement.

  \<^bold>\<open>Fuel.\<close> Loops that need not be structural take fuel, and running out of it is \<open>None\<close> or \<open>Unfinished\<close>, never a result. It
  is shown to suffice: the loops of the tree with as much as the tree has nodes; the search of the mapped DNS likewise;
  the relay and the splicers with an explicit number of turns computed from what is left to arrive
  (\<open>tcp_turns_needed\<close> for TCP); the repeated search of \<open>udp_input\<close> with two more than the script of allocations
  has entries; the loop over the sessions with one more than there are.

  \<^bold>\<open>Not modelled.\<close> lwIP, except for what follows a refused connection, the delivery of datagrams to pretending control blocks,
  the freeing of packet buffers and a few constants: the stack is the environment, whose callbacks are events and whose
  answers are scripts. libyaml, except for the access to a document's nodes. The scheduler's queues, timers, polling and
  context switches: a task changes hands only where it yields, which is where the scripts and events act. System calls
  beyond their results. The devices of other systems (macOS, FreeBSD, NetBSD, Windows), which only call those
  systems. The writing of log lines and the running of scripts, which do not touch the tunnel's state. \<^verbatim>\<open>hev-jni.c\<close>, which the application does
  not build. The Kotlin applications and the Go bindings, which are not C.
\<close>

end
